(* ===== verification/Prelude.thy ===== *)
theory Prelude
  imports Main "HOL-Library.Word" "HOL-Library.Monad_Syntax"
begin

unbundle bit_operations_syntax

text \<open>
  What every component shares.  The machine is 32-bit little-endian ARM: \<open>unsigned long\<close>,
  \<open>unsigned int\<close> and pointers are 32-bit words, plain \<open>char\<close> is an unsigned byte, and the
  boot loader runs with every address mapped, so memory is a total function from addresses to
  bytes.  An access that leaves a C object whose size the source fixes (an array, a buffer) is
  written out as the value \<^theory_text>\<open>None\<close> of an option.
\<close>

section \<open>Types\<close>

type_synonym byte = "8 word"
type_synonym u16 = "16 word"
type_synonym u32 = "32 word"
type_synonym addr = "32 word"
type_synonym mem = "addr \<Rightarrow> byte"

text \<open>String literals of the source as byte lists, without the closing NUL.\<close>

definition lit :: "string \<Rightarrow> byte list" where
  "lit s = map of_char s"

abbreviation ch :: "char \<Rightarrow> byte" where
  "ch c \<equiv> of_char c"

named_theorems ground \<open>equations that evaluate a definition on a concrete input\<close>
named_theorems frame \<open>what an operation leaves unchanged\<close>

declare lit_def [ground]

section \<open>Addresses and offsets\<close>

lemma of_nat_word_inj:
  fixes a :: "'a::len word"
  assumes "i < 2 ^ LENGTH('a)" "j < 2 ^ LENGTH('a)"
  shows "(a + of_nat i = a + of_nat j) = (i = j)"
proof -
  have "(of_nat i = (of_nat j :: 'a word)) = (i = j)"
    using assms by (simp add: word_of_nat_eq_iff take_bit_nat_eq_self)
  then show ?thesis by simp
qed

lemma offset_Suc: "(a :: 'a::len word) + of_nat (Suc i) = (a + 1) + of_nat i"
  by simp

lemma offset_0_neq:
  fixes a :: addr
  assumes "0 < i" "i < 2 ^ 32"
  shows "a + of_nat i \<noteq> a"
  using of_nat_word_inj [of i 0 a] assms by simp

lemma unat_offset:
  fixes a :: addr
  assumes "unat a + i < 2 ^ 32"
  shows "unat (a + of_nat i) = unat a + i"
  using assms by (simp add: unat_word_ariths unat_of_nat)

text \<open>The bytes of \<open>n\<close> cells from \<open>a\<close>, and the set of their addresses.\<close>

definition bytes_at :: "mem \<Rightarrow> addr \<Rightarrow> nat \<Rightarrow> byte list" where
  "bytes_at m a n = map (\<lambda>i. m (a + of_nat i)) [0..<n]"

definition region :: "addr \<Rightarrow> nat \<Rightarrow> addr set" where
  "region a n = {a + of_nat i | i. i < n}"

lemma length_bytes_at [simp]: "length (bytes_at m a n) = n"
  by (simp add: bytes_at_def)

lemma nth_bytes_at [simp]: "i < n \<Longrightarrow> bytes_at m a n ! i = m (a + of_nat i)"
  by (simp add: bytes_at_def)

lemma bytes_at_eqI:
  "(\<And>i. i < n \<Longrightarrow> m (a + of_nat i) = m' (b + of_nat i)) \<Longrightarrow> bytes_at m a n = bytes_at m' b n"
  by (simp add: bytes_at_def)

lemma bytes_at_0 [simp]: "bytes_at m a 0 = []"
  by (simp add: bytes_at_def)

lemma bytes_at_Suc: "bytes_at m a (Suc n) = m a # bytes_at m (a + 1) n"
  by (simp add: bytes_at_def map_upt_Suc offset_Suc del: upt_Suc of_nat_Suc)

lemma bytes_at_append: "bytes_at m a (n + k) = bytes_at m a n @ bytes_at m (a + of_nat n) k"
  by (induction n arbitrary: a) (simp_all add: bytes_at_Suc add.assoc)

lemma bytes_at_part:
  assumes "bytes_at m a (length (p @ q @ r)) = p @ q @ r"
  shows "bytes_at m (a + of_nat (length p)) (length q) = q"
  using assms by (simp add: bytes_at_append)

lemma region_0 [simp]: "region a 0 = {}"
  by (simp add: region_def)

lemma region_Suc: "region a (Suc n) = insert a (region (a + 1) n)"
proof -
  have "x \<in> region a (Suc n) \<longleftrightarrow> x \<in> insert a (region (a + 1) n)" for x
  proof
    assume "x \<in> region a (Suc n)"
    then obtain i where "x = a + of_nat i" "i < Suc n" by (auto simp: region_def)
    then show "x \<in> insert a (region (a + 1) n)"
      by (cases i) (auto simp: region_def add.assoc)
  next
    assume "x \<in> insert a (region (a + 1) n)"
    then consider "x = a" | i where "x = a + 1 + of_nat i" "i < n" by (auto simp: region_def)
    then show "x \<in> region a (Suc n)"
    proof cases
      case 1
      then have "x = a + of_nat 0" by simp
      then show ?thesis unfolding region_def by blast
    next
      case (2 i)
      then have "x = a + of_nat (Suc i)" "Suc i < Suc n" by auto
      then show ?thesis unfolding region_def by blast
    qed
  qed
  then show ?thesis by blast
qed

lemma region_mono: "n \<le> k \<Longrightarrow> region a n \<subseteq> region a k"
  by (auto simp: region_def)

lemma in_region_offset [intro]: "i < n \<Longrightarrow> a + of_nat i \<in> region a n"
  by (auto simp: region_def)

lemma start_notin_region_Suc: "n < 2 ^ 32 \<Longrightarrow> a \<notin> region (a + 1) n"
proof
  assume "n < 2 ^ 32" "a \<in> region (a + 1) n"
  then obtain i where i: "a = a + 1 + of_nat i" "i < n" by (auto simp: region_def)
  then have "a + of_nat (Suc i) = a" by (simp add: add.assoc)
  moreover have "Suc i < 2 ^ 32" using i \<open>n < 2 ^ 32\<close> by simp
  ultimately show False using offset_0_neq [of "Suc i" a] by simp
qed

lemma end_notin_region: "n < 2 ^ 32 \<Longrightarrow> a + of_nat n \<notin> region a n"
proof
  assume n: "n < 2 ^ 32" and "a + of_nat n \<in> region a n"
  then obtain i where i: "a + of_nat n = a + of_nat i" "i < n" unfolding region_def by blast
  with n show False using of_nat_word_inj [of n i a] by simp
qed

lemma region_disjoint:
  assumes "unat a + n \<le> unat b \<or> unat b + k \<le> unat a" "unat a + n \<le> 2 ^ 32" "unat b + k \<le> 2 ^ 32"
  shows "region a n \<inter> region b k = {}"
proof -
  have False if "i < n" "j < k" and eq: "a + of_nat i = b + of_nat j" for i j
  proof -
    have "unat (a + of_nat i) = unat a + i"
      by (rule unat_offset) (use assms that(1) in linarith)
    moreover have "unat (b + of_nat j) = unat b + j"
      by (rule unat_offset) (use assms that(2) in linarith)
    ultimately have "unat a + i = unat b + j" using eq by metis
    with assms(1) that show False by linarith
  qed
  then show ?thesis by (auto simp: region_def)
qed

lemma unat_byte_less: "unat (w :: byte) < 256"
  using unsigned_less [of w, where 'a = nat] by simp

lemma unat_u32_less: "unat (w :: u32) < 2 ^ 32"
  using unsigned_less [of w, where 'a = nat] by simp

text \<open>A byte read as \<^verbatim>\<open>signed char\<close>.\<close>

lemma signed_byte_arith:
  fixes k :: int
  assumes "0 \<le> k" "k < 256"
  shows "(k + 128) mod 256 - 128 = (if k < 128 then k else k - 256)"
proof (cases "k < 128")
  case False
  have "(k + 128) mod 256 = (k - 128) mod 256"
    using mod_add_self2 [of "k - 128" 256] by (simp add: add.commute)
  with False assms show ?thesis by simp
qed (use assms in simp)

lemma sint_byte: "sint (w :: byte) = (if uint w < 128 then uint w else uint w - 256)"
proof -
  have "sint w = (uint w + 128) mod 256 - 128"
    unfolding sint_uint signed_take_bit_eq_take_bit_shift take_bit_eq_mod by simp
  moreover have "uint w < 256" using unsigned_less [of w, where 'a = int] by simp
  ultimately show ?thesis by (simp only: signed_byte_arith [OF unsigned_greater_eq])
qed

lemma sint_byte_neg: "sint (w :: byte) < 0 \<longleftrightarrow> 128 \<le> unat w"
proof -
  have "uint w = int (unat w)" by simp
  moreover have "unat w < 256" by (rule unat_byte_less)
  ultimately show ?thesis
    unfolding sint_byte by (cases "uint w < 128") (simp_all only: if_True if_False, linarith+)
qed

lemma unat_byte_diff:
  "unat (x - y :: byte) = (if unat y \<le> unat x then unat x - unat y else unat x + 256 - unat y)"
  by (simp add: unat_sub_if_size word_size)

text \<open>Every byte, for facts checked case by case.\<close>

definition all_bytes :: "byte list" where
  "all_bytes = map of_nat [0..<256]"

lemma in_all_bytes: "c \<in> set all_bytes"
proof -
  have "c = of_nat (unat c)" by simp
  moreover have "unat c \<in> set [0..<256]" using unat_byte_less [of c] by simp
  ultimately show ?thesis unfolding all_bytes_def by (metis image_eqI list.set_map)
qed

text \<open>A word is its high part and its last byte.\<close>

lemma ucast_byte_twice: "ucast (ucast (x :: u32) :: byte) = take_bit 8 x"
  by (rule bit_word_eqI) (auto simp: bit_simps)

lemma word_split_byte: "push_bit 8 (drop_bit 8 x) + ucast (ucast (x :: u32) :: byte) = x"
proof -
  have "push_bit 8 (drop_bit 8 x) AND take_bit 8 x = 0"
    by (rule bit_word_eqI) (auto simp: bit_simps)
  from disjunctive_add_eq_or [OF this]
  have "push_bit 8 (drop_bit 8 x) + ucast (ucast x :: byte) = push_bit 8 (drop_bit 8 x) OR take_bit 8 x"
    by (simp only: ucast_byte_twice)
  also have "\<dots> = x"
  proof (rule bit_word_eqI)
    fix n show "bit (push_bit 8 (drop_bit 8 x) OR take_bit 8 x) n = bit x n" if "n < LENGTH(32)"
      unfolding bit_or_iff bit_push_bit_iff bit_take_bit_iff bit_drop_bit_eq comp_def
      using that by (cases "n < 8") auto
  qed
  finally show ?thesis .
qed

section \<open>Results\<close>

text \<open>Sequencing where the left side is the early return.\<close>

fun sbind :: "'e + 'a \<Rightarrow> ('a \<Rightarrow> 'e + 'b) \<Rightarrow> 'e + 'b" where
  "sbind (Inl e) f = Inl e"
| "sbind (Inr x) f = f x"

lemma sbind_Inr_iff: "sbind r f = Inr y \<longleftrightarrow> (\<exists>x. r = Inr x \<and> f x = Inr y)"
  by (cases r) auto

section \<open>NUL-terminated strings in memory\<close>

text \<open>\<open>cstr m a s\<close>: the bytes of \<open>s\<close> stand at \<open>a\<close>, none of them NUL, and a NUL follows.\<close>

fun cstr :: "mem \<Rightarrow> addr \<Rightarrow> byte list \<Rightarrow> bool" where
  "cstr m a [] = (m a = 0)"
| "cstr m a (c # s) = (m a = c \<and> c \<noteq> 0 \<and> cstr m (a + 1) s)"

lemma cstr_nth: "cstr m a s \<Longrightarrow> i < length s \<Longrightarrow> m (a + of_nat i) = s ! i"
proof (induction m a s arbitrary: i rule: cstr.induct)
  case (2 m a c s)
  then show ?case by (cases i) (auto simp: add.assoc)
qed simp

lemma cstr_end: "cstr m a s \<Longrightarrow> m (a + of_nat (length s)) = 0"
  by (induction m a s rule: cstr.induct) (auto simp: add.assoc)

lemma cstr_nonzero: "cstr m a s \<Longrightarrow> 0 \<notin> set s"
  by (induction m a s rule: cstr.induct) auto

lemma cstr_hd: "cstr m a s \<Longrightarrow> m a = (case s of [] \<Rightarrow> 0 | c # _ \<Rightarrow> c)"
  by (cases s) auto

lemma cstr_bytes:
  "cstr m a s = (bytes_at m a (Suc (length s)) = s @ [0] \<and> 0 \<notin> set s)"
  by (induction m a s rule: cstr.induct) (auto simp: bytes_at_Suc)

lemma cstr_frame:
  assumes "cstr m a s" "\<And>x. x \<in> region a (Suc (length s)) \<Longrightarrow> m' x = m x"
  shows "cstr m' a s"
proof -
  have "bytes_at m' a (Suc (length s)) = bytes_at m a (Suc (length s))"
    by (rule bytes_at_eqI) (auto intro: assms(2))
  with assms(1) show ?thesis by (simp add: cstr_bytes)
qed

lemma cstr_drop: "cstr m a s \<Longrightarrow> i \<le> length s \<Longrightarrow> cstr m (a + of_nat i) (drop i s)"
proof (induction m a s arbitrary: i rule: cstr.induct)
  case (2 m a c s)
  then show ?case by (cases i) (auto simp: add.assoc)
qed simp

text \<open>Writing a list of bytes, used to build concrete memories.\<close>

primrec store_bytes :: "mem \<Rightarrow> addr \<Rightarrow> byte list \<Rightarrow> mem" where
  "store_bytes m a [] = m"
| "store_bytes m a (b # bs) = store_bytes (m(a := b)) (a + 1) bs"

lemma memory_store_bytes:
  "length bs < 2 ^ 32 \<Longrightarrow> x \<notin> region a (length bs) \<Longrightarrow> store_bytes m a bs x = m x"
  by (induction bs arbitrary: m a) (auto simp: region_Suc)

lemma bytes_at_store_bytes: "length bs < 2 ^ 32 \<Longrightarrow> bytes_at (store_bytes m a bs) a (length bs) = bs"
proof (induction bs arbitrary: m a)
  case (Cons b bs)
  then have "store_bytes (m(a := b)) (a + 1) bs a = (m(a := b)) a"
    by (intro memory_store_bytes start_notin_region_Suc) simp_all
  with Cons show ?case by (simp add: bytes_at_Suc)
qed simp

lemma store_bytes_append:
  "store_bytes m a (xs @ ys) = store_bytes (store_bytes m a xs) (a + of_nat (length xs)) ys"
  by (induction xs arbitrary: m a) (simp_all add: add.assoc)

lemma store_bytes_same: "bytes_at m a (length xs) = xs \<Longrightarrow> store_bytes m a xs = m"
  by (induction xs arbitrary: m a) (auto simp: bytes_at_Suc)

lemma bytes_at_other:
  assumes "region a n \<inter> region b (length bs) = {}" "length bs < 2 ^ 32"
  shows "bytes_at (store_bytes m b bs) a n = bytes_at m a n"
proof (rule bytes_at_eqI)
  fix i assume "i < n"
  then have "a + of_nat i \<in> region a n" by blast
  with assms show "store_bytes m b bs (a + of_nat i) = m (a + of_nat i)"
    by (intro memory_store_bytes) auto
qed

lemma region_before:
  fixes a :: addr
  assumes "n + k \<le> 2 ^ 32"
  shows "region (a + of_nat n) k \<inter> region a n = {}" "region a n \<inter> region (a + of_nat n) k = {}"
proof -
  have "a + of_nat n + of_nat j \<noteq> a + of_nat i" if "i < n" "j < k" for i j :: nat
  proof
    assume "a + of_nat n + of_nat j = a + of_nat i"
    then have "a + of_nat (n + j) = a + of_nat i" by (simp add: add.assoc)
    with that assms show False using of_nat_word_inj [of "n + j" i a] by simp
  qed
  then have False if "x \<in> region (a + of_nat n) k" "x \<in> region a n" for x
    using that unfolding region_def mem_Collect_eq by metis
  then show "region (a + of_nat n) k \<inter> region a n = {}" "region a n \<inter> region (a + of_nat n) k = {}"
    unfolding disjoint_iff by iprover+
qed

text \<open>Bytes written around old ones: only the new ones count.\<close>

lemma store_around:
  assumes "l + length xs + k < 2 ^ 32"
  shows "store_bytes m a (bytes_at m a l @ xs @ bytes_at m (a + of_nat (l + length xs)) k)
    = store_bytes m (a + of_nat l) xs"
proof -
  let ?m = "store_bytes m (a + of_nat l) xs" and ?old = "bytes_at m (a + of_nat (l + length xs)) k"
  have "region (a + of_nat l + of_nat (length xs)) k \<inter> region (a + of_nat l) (length xs) = {}"
    by (rule region_before) (use assms in simp)
  then have "bytes_at ?m (a + of_nat l + of_nat (length xs)) k = bytes_at m (a + of_nat l + of_nat (length xs)) k"
    using assms by (intro bytes_at_other) simp_all
  then have "store_bytes ?m (a + of_nat l + of_nat (length xs)) ?old = ?m"
    by (intro store_bytes_same) (simp add: add.assoc)
  moreover have "store_bytes m a (bytes_at m a l) = m" by (rule store_bytes_same) simp
  ultimately show ?thesis by (simp add: store_bytes_append)
qed

abbreviation zero_mem :: mem where
  "zero_mem \<equiv> (\<lambda>_. 0)"

section \<open>Strings held in lists\<close>

text \<open>The C string at the front of a list of bytes: everything before the first NUL.\<close>

definition cstr_of :: "byte list \<Rightarrow> byte list" where
  "cstr_of bs = takeWhile (\<lambda>c. c \<noteq> 0) bs"

lemma cstr_of_append0 [simp]: "0 \<notin> set s \<Longrightarrow> cstr_of (s @ 0 # r) = s"
  by (induction s) (auto simp: cstr_of_def)

lemma cstr_of_nonzero: "0 \<notin> set (cstr_of s)"
  unfolding cstr_of_def by (metis (mono_tags) set_takeWhileD)

lemma cstr_of_id [simp]: "0 \<notin> set s \<Longrightarrow> cstr_of s = s"
  by (auto simp: cstr_of_def takeWhile_eq_all_conv)

section \<open>Bounded buffers\<close>

text \<open>
  A C array of known size is a list of that length; an access outside it is undefined in C and
  is \<^theory_text>\<open>None\<close> here.
\<close>

definition rd :: "'a list \<Rightarrow> nat \<Rightarrow> 'a option" where
  "rd b i = (if i < length b then Some (b ! i) else None)"

definition wr :: "'a list \<Rightarrow> nat \<Rightarrow> 'a \<Rightarrow> 'a list option" where
  "wr b i x = (if i < length b then Some (b[i := x]) else None)"

declare rd_def [ground] wr_def [ground]

lemma rd_Some_iff: "rd b i = Some x \<longleftrightarrow> i < length b \<and> b ! i = x"
  by (auto simp: rd_def)

lemma rd_in [simp]: "i < length b \<Longrightarrow> rd b i = Some (b ! i)"
  by (simp add: rd_def)

lemma wr_in [simp]: "i < length b \<Longrightarrow> wr b i x = Some (b[i := x])"
  by (simp add: wr_def)

lemma wr_length: "wr b i x = Some b' \<Longrightarrow> length b' = length b"
  by (auto simp: wr_def split: if_splits)

end
