(* ===== verification/Ctype.thy ===== *)
theory Ctype
  imports Prelude
begin

text \<open>
  \<^verbatim>\<open>common/ctype.c\<close> and \<^verbatim>\<open>include/linux/ctype.h\<close>: the character classes, as the table of
  flag bytes and the tests on it.
\<close>

abbreviation (input) ct_U :: byte where "ct_U \<equiv> 0x01"
abbreviation (input) ct_L :: byte where "ct_L \<equiv> 0x02"
abbreviation (input) ct_D :: byte where "ct_D \<equiv> 0x04"
abbreviation (input) ct_C :: byte where "ct_C \<equiv> 0x08"
abbreviation (input) ct_P :: byte where "ct_P \<equiv> 0x10"
abbreviation (input) ct_S :: byte where "ct_S \<equiv> 0x20"
abbreviation (input) ct_X :: byte where "ct_X \<equiv> 0x40"
abbreviation (input) ct_SP :: byte where "ct_SP \<equiv> 0x80"

definition ctype_table :: "byte list" where
  "ctype_table =
     [ct_C, ct_C, ct_C, ct_C, ct_C, ct_C, ct_C, ct_C,
      ct_C, ct_C OR ct_S, ct_C OR ct_S, ct_C OR ct_S, ct_C OR ct_S, ct_C OR ct_S, ct_C, ct_C,
      ct_C, ct_C, ct_C, ct_C, ct_C, ct_C, ct_C, ct_C,
      ct_C, ct_C, ct_C, ct_C, ct_C, ct_C, ct_C, ct_C,
      ct_S OR ct_SP, ct_P, ct_P, ct_P, ct_P, ct_P, ct_P, ct_P,
      ct_P, ct_P, ct_P, ct_P, ct_P, ct_P, ct_P, ct_P,
      ct_D, ct_D, ct_D, ct_D, ct_D, ct_D, ct_D, ct_D,
      ct_D, ct_D, ct_P, ct_P, ct_P, ct_P, ct_P, ct_P,
      ct_P, ct_U OR ct_X, ct_U OR ct_X, ct_U OR ct_X, ct_U OR ct_X, ct_U OR ct_X, ct_U OR ct_X, ct_U,
      ct_U, ct_U, ct_U, ct_U, ct_U, ct_U, ct_U, ct_U,
      ct_U, ct_U, ct_U, ct_U, ct_U, ct_U, ct_U, ct_U,
      ct_U, ct_U, ct_U, ct_P, ct_P, ct_P, ct_P, ct_P,
      ct_P, ct_L OR ct_X, ct_L OR ct_X, ct_L OR ct_X, ct_L OR ct_X, ct_L OR ct_X, ct_L OR ct_X, ct_L,
      ct_L, ct_L, ct_L, ct_L, ct_L, ct_L, ct_L, ct_L,
      ct_L, ct_L, ct_L, ct_L, ct_L, ct_L, ct_L, ct_L,
      ct_L, ct_L, ct_L, ct_P, ct_P, ct_P, ct_P, ct_C,
      0, 0, 0, 0, 0, 0, 0, 0, 0, 0, 0, 0, 0, 0, 0, 0,
      0, 0, 0, 0, 0, 0, 0, 0, 0, 0, 0, 0, 0, 0, 0, 0,
      ct_S OR ct_SP, ct_P, ct_P, ct_P, ct_P, ct_P, ct_P, ct_P, ct_P, ct_P, ct_P, ct_P, ct_P, ct_P, ct_P, ct_P,
      ct_P, ct_P, ct_P, ct_P, ct_P, ct_P, ct_P, ct_P, ct_P, ct_P, ct_P, ct_P, ct_P, ct_P, ct_P, ct_P,
      ct_U, ct_U, ct_U, ct_U, ct_U, ct_U, ct_U, ct_U, ct_U, ct_U, ct_U, ct_U, ct_U, ct_U, ct_U, ct_U,
      ct_U, ct_U, ct_U, ct_U, ct_U, ct_U, ct_U, ct_P, ct_U, ct_U, ct_U, ct_U, ct_U, ct_U, ct_U, ct_L,
      ct_L, ct_L, ct_L, ct_L, ct_L, ct_L, ct_L, ct_L, ct_L, ct_L, ct_L, ct_L, ct_L, ct_L, ct_L, ct_L,
      ct_L, ct_L, ct_L, ct_L, ct_L, ct_L, ct_L, ct_P, ct_L, ct_L, ct_L, ct_L, ct_L, ct_L, ct_L, ct_L]"

definition ismask :: "byte \<Rightarrow> byte" where
  "ismask x = ctype_table ! unat x"

definition isdigit :: "byte \<Rightarrow> bool" where
  "isdigit c \<longleftrightarrow> ismask c AND ct_D \<noteq> 0"

definition islower :: "byte \<Rightarrow> bool" where
  "islower c \<longleftrightarrow> ismask c AND ct_L \<noteq> 0"

definition isupper :: "byte \<Rightarrow> bool" where
  "isupper c \<longleftrightarrow> ismask c AND ct_U \<noteq> 0"

definition isxdigit :: "byte \<Rightarrow> bool" where
  "isxdigit c \<longleftrightarrow> ismask c AND (ct_D OR ct_X) \<noteq> 0"

definition isspace :: "byte \<Rightarrow> bool" where
  "isspace c \<longleftrightarrow> ismask c AND ct_S \<noteq> 0"

definition isprint :: "byte \<Rightarrow> bool" where
  "isprint c \<longleftrightarrow> ismask c AND (ct_P OR ct_U OR ct_L OR ct_D OR ct_SP) \<noteq> 0"

definition toupper :: "byte \<Rightarrow> byte" where
  "toupper c = (if islower c then c - (0x61 - 0x41) else c)"

definition tolower :: "byte \<Rightarrow> byte" where
  "tolower c = (if isupper c then c - (0x41 - 0x61) else c)"

section \<open>The table against the ranges it stands for\<close>

lemma isdigit_iff: "isdigit c \<longleftrightarrow> 0x30 \<le> c \<and> c \<le> 0x39"
proof -
  have "list_all (\<lambda>c. isdigit c \<longleftrightarrow> 0x30 \<le> c \<and> c \<le> 0x39) all_bytes" by code_simp
  with in_all_bytes show ?thesis by (auto simp: list_all_iff)
qed

lemma isxdigit_iff:
  "isxdigit c \<longleftrightarrow> (0x30 \<le> c \<and> c \<le> 0x39) \<or> (0x41 \<le> c \<and> c \<le> 0x46) \<or> (0x61 \<le> c \<and> c \<le> 0x66)"
proof -
  have "list_all (\<lambda>c. isxdigit c \<longleftrightarrow>
    (0x30 \<le> c \<and> c \<le> 0x39) \<or> (0x41 \<le> c \<and> c \<le> 0x46) \<or> (0x61 \<le> c \<and> c \<le> 0x66)) all_bytes"
    by code_simp
  with in_all_bytes show ?thesis by (auto simp: list_all_iff)
qed

lemma islower_xdigit: "isxdigit c \<Longrightarrow> islower c \<longleftrightarrow> 0x61 \<le> c"
proof -
  have "list_all (\<lambda>c. isxdigit c \<longrightarrow> islower c = (0x61 \<le> c)) all_bytes" by code_simp
  with in_all_bytes show "isxdigit c \<Longrightarrow> islower c \<longleftrightarrow> 0x61 \<le> c" by (auto simp: list_all_iff)
qed

lemma not_xdigit_0 [simp]: "\<not> isxdigit 0"
  by (simp add: isxdigit_iff)

end
