(* ===== verification/Vsprintf.thy ===== *)
theory Vsprintf
  imports Ctype
begin

text \<open>
  \<^verbatim>\<open>common/vsprintf.c\<close>: numbers from text (\<open>simple_strtoul\<close>) and text from numbers
  (\<open>number\<close>, \<open>vsprintf\<close>).  A C string that is only read is the list of its bytes without the NUL;
  \<open>hd0\<close> is the byte a pointer at the front of it reads, the NUL where the list is empty.
\<close>

definition hd0 :: "byte list \<Rightarrow> byte" where
  "hd0 s = (case s of [] \<Rightarrow> 0 | c # _ \<Rightarrow> c)"

lemma hd0_simps [simp]: "hd0 [] = 0" "hd0 (c # s) = c"
  by (simp_all add: hd0_def)

section \<open>Reading numbers\<close>

definition digit_value :: "byte \<Rightarrow> u32" where
  "digit_value c =
     (if isdigit c then ucast c - 0x30
      else ucast (if islower c then toupper c else c) - 0x41 + 10)"

fun strtoul_loop :: "byte list \<Rightarrow> u32 \<Rightarrow> u32 \<Rightarrow> u32 \<times> byte list" where
  "strtoul_loop [] base result = (result, [])"
| "strtoul_loop (c # cp) base result =
     (if isxdigit c \<and> digit_value c < base
      then strtoul_loop cp base (result * base + digit_value c)
      else (result, c # cp))"

text \<open>The result and, for \<^verbatim>\<open>*endp\<close>, the rest of the string.\<close>

definition simple_strtoul :: "byte list \<Rightarrow> u32 \<Rightarrow> u32 \<times> byte list" where
  "simple_strtoul cp base =
     (let (cp, base) =
            (if hd0 cp = ch CHR ''0'' then
               let cp = tl cp;
                   (cp, base) = (if hd0 cp = ch CHR ''x'' \<and> isxdigit (hd0 (tl cp))
                                 then (tl cp, 16) else (cp, base))
               in (cp, if base = 0 then 8 else base)
             else (cp, base));
          base = (if base = 0 then 10 else base)
      in strtoul_loop cp base 0)"

definition simple_strtol :: "byte list \<Rightarrow> u32 \<Rightarrow> u32 \<times> byte list" where
  "simple_strtol cp base =
     (if hd0 cp = ch CHR ''-''
      then let (r, e) = simple_strtoul (tl cp) base in (- r, e)
      else simple_strtoul cp base)"

section \<open>Writing numbers\<close>

abbreviation (input) ZEROPAD :: u32 where "ZEROPAD \<equiv> 1"
abbreviation (input) SIGN :: u32 where "SIGN \<equiv> 2"
abbreviation (input) PLUS :: u32 where "PLUS \<equiv> 4"
abbreviation (input) SPACE :: u32 where "SPACE \<equiv> 8"
abbreviation (input) LEFT :: u32 where "LEFT \<equiv> 16"
abbreviation (input) SPECIAL :: u32 where "SPECIAL \<equiv> 32"
abbreviation (input) LARGE :: u32 where "LARGE \<equiv> 64"

definition flag_set :: "u32 \<Rightarrow> u32 \<Rightarrow> bool" where
  "flag_set ty f \<longleftrightarrow> ty AND f \<noteq> 0"

definition digits_small :: "byte list" where
  "digits_small = lit ''0123456789abcdefghijklmnopqrstuvwxyz''"

definition digits_large :: "byte list" where
  "digits_large = lit ''0123456789ABCDEFGHIJKLMNOPQRSTUVWXYZ''"

text \<open>
  \<^verbatim>\<open>while (num != 0) tmp[i++] = digits[do_div(num, base)];\<close>, the least significant digit
  first; \<open>do_div\<close> divides as \<^verbatim>\<open>unsigned long\<close>.  The base is between 2 and 36 here.
\<close>

function number_tmp :: "byte list \<Rightarrow> u32 \<Rightarrow> u32 \<Rightarrow> byte list" where
  "number_tmp digits base num =
     (if num = 0 \<or> base < 2 then []
      else digits ! unat (num mod base) # number_tmp digits base (num div base))"
  by pat_completeness auto
termination
proof (relation "measure (\<lambda>(d, b, n). unat n)")
  fix digits :: "byte list" and base num :: u32
  assume "\<not> (num = 0 \<or> base < 2)"
  then have "unat num \<noteq> 0" "2 \<le> unat base"
    by (auto simp: word_less_nat_alt unat_eq_zero)
  then have "unat num div unat base < unat num" by (intro div_less_dividend) auto
  then show "((digits, base, num div base), digits, base, num) \<in> measure (\<lambda>(d, b, n). unat n)"
    by (simp add: unat_div)
qed simp

declare number_tmp.simps [simp del]

text \<open>
  \<^verbatim>\<open>while (size-- > 0) *str++ = c;\<close>: what it writes, and \<open>size\<close> afterwards (one less than 0, or
  than what it was where nothing is written).
\<close>

definition pad :: "int \<Rightarrow> byte \<Rightarrow> byte list \<times> int" where
  "pad sz c = (replicate (nat sz) c, min sz 0 - 1)"

text \<open>The sign the number starts with, its magnitude, and the room left.\<close>

definition number_sign :: "u32 \<Rightarrow> int \<Rightarrow> u32 \<Rightarrow> byte list \<times> u32 \<times> int" where
  "number_sign num sz ty =
     (if flag_set ty SIGN then
        if sint num < 0 then ([ch CHR ''-''], - num, sz - 1)
        else if flag_set ty PLUS then ([ch CHR ''+''], num, sz - 1)
        else if flag_set ty SPACE then ([0x20], num, sz - 1)
        else ([], num, sz)
      else ([], num, sz))"

text \<open>The prefix of \<open>SPECIAL\<close>; the room it takes is reserved before the digits are counted.\<close>

definition number_prefix :: "byte list \<Rightarrow> int \<Rightarrow> u32 \<Rightarrow> byte list" where
  "number_prefix digits base ty =
     (if flag_set ty SPECIAL then
        if base = 8 then [0x30] else if base = 16 then [0x30, digits ! 33] else []
      else [])"

text \<open>What is written before the sign, after the prefix, and behind the digits.\<close>

definition number_pads :: "int \<Rightarrow> u32 \<Rightarrow> byte list \<times> byte list \<times> byte list" where
  "number_pads sz ty =
     (let c = (if flag_set ty ZEROPAD then 0x30 else 0x20);
          (blanks, sz) = (if \<not> flag_set ty (ZEROPAD + LEFT) then pad sz 0x20 else ([], sz));
          (fill, sz) = (if \<not> flag_set ty LEFT then pad sz c else ([], sz));
          (trail, sz) = pad sz 0x20
      in (blanks, fill, trail))"

definition number :: "u32 \<Rightarrow> int \<Rightarrow> int \<Rightarrow> int \<Rightarrow> u32 \<Rightarrow> byte list option" where
  "number num base sz precision ty =
     (let digits = (if flag_set ty LARGE then digits_large else digits_small);
          ty = (if flag_set ty LEFT then ty AND NOT ZEROPAD else ty)
      in if base < 2 \<or> base > 36 then None
      else let
        (sign, num, sz) = number_sign num sz ty;
        sz = (if flag_set ty SPECIAL then
                if base = 16 then sz - 2 else if base = 8 then sz - 1 else sz
              else sz);
        tmp = (if num = 0 then [0x30] else number_tmp digits (of_int base) num);
        i = int (length tmp);
        precision = (if i > precision then i else precision);
        sz = sz - precision;
        prefix = number_prefix digits base ty;
        (blanks, fill, trail) = number_pads sz ty;
        zeros = replicate (nat (precision - i)) 0x30
      in Some (blanks @ sign @ prefix @ fill @ zeros @ rev tmp @ trail))"

section \<open>Formats\<close>

text \<open>
  An argument of the variable list is a 32-bit integer, or a string (None for the null pointer).
  A directive that takes an argument of the other kind, or none where the list is exhausted, is
  undefined in C.  \<open>%n\<close> stores the count of bytes written so far through its pointer.
\<close>

datatype arg = AInt u32 | AStr "byte list option"

record fmt_state =
  fs_out :: "byte list"
  fs_args :: "arg list"
  fs_stores :: "(addr \<times> nat) list"

fun fmt_flags :: "byte list \<Rightarrow> u32 \<Rightarrow> byte list \<times> u32" where
  "fmt_flags (c # fmt) flags =
     (if c = ch CHR ''-'' then fmt_flags fmt (flags OR LEFT)
      else if c = ch CHR ''+'' then fmt_flags fmt (flags OR PLUS)
      else if c = ch CHR '' '' then fmt_flags fmt (flags OR SPACE)
      else if c = ch CHR ''#'' then fmt_flags fmt (flags OR SPECIAL)
      else if c = ch CHR ''0'' then fmt_flags fmt (flags OR ZEROPAD)
      else (c # fmt, flags))"
| "fmt_flags [] flags = ([], flags)"

definition is_digit :: "byte \<Rightarrow> bool" where
  "is_digit c \<longleftrightarrow> 0x30 \<le> c \<and> c \<le> 0x39"

fun skip_atoi :: "byte list \<Rightarrow> int \<Rightarrow> byte list \<times> int" where
  "skip_atoi (c # s) i = (if is_digit c then skip_atoi s (i * 10 + uint c - 0x30) else (c # s, i))"
| "skip_atoi [] i = ([], i)"

fun va_int :: "arg list \<Rightarrow> (u32 \<times> arg list) option" where
  "va_int (AInt w # as) = Some (w, as)"
| "va_int _ = None"

fun va_str :: "arg list \<Rightarrow> (byte list option \<times> arg list) option" where
  "va_str (AStr s # as) = Some (s, as)"
| "va_str _ = None"

definition fmt_width ::
  "byte list \<Rightarrow> u32 \<Rightarrow> arg list \<Rightarrow> (byte list \<times> int \<times> u32 \<times> arg list) option" where
  "fmt_width fmt flags as =
     (if is_digit (hd0 fmt) then
        let (fmt, w) = skip_atoi fmt 0 in Some (fmt, w, flags, as)
      else if hd0 fmt = ch CHR ''*'' then do {
        (a, as) \<leftarrow> va_int as;
        let w = sint a;
        if w < 0 then Some (tl fmt, - w, flags OR LEFT, as) else Some (tl fmt, w, flags, as) }
      else Some (fmt, -1, flags, as))"

definition fmt_precision :: "byte list \<Rightarrow> arg list \<Rightarrow> (byte list \<times> int \<times> arg list) option" where
  "fmt_precision fmt as =
     (if hd0 fmt = ch CHR ''.'' then do {
        let fmt = tl fmt;
        (fmt, p, as) \<leftarrow>
          (if is_digit (hd0 fmt) then
             let (fmt, p) = skip_atoi fmt 0 in Some (fmt, p, as)
           else if hd0 fmt = ch CHR ''*'' then do {
             (a, as) \<leftarrow> va_int as;
             Some (tl fmt, sint a, as) }
           else Some (fmt, -1, as));
        Some (fmt, if p < 0 then 0 else p, as) }
      else Some (fmt, -1, as))"

definition fmt_qualifier :: "byte list \<Rightarrow> byte list \<times> byte option" where
  "fmt_qualifier fmt =
     (if hd0 fmt = ch CHR ''h'' \<or> hd0 fmt = ch CHR ''l'' \<or> hd0 fmt = ch CHR ''L''
      then (tl fmt, Some (hd0 fmt)) else (fmt, None))"

text \<open>\<^verbatim>\<open>while (--field_width > 0) *str++ = ' ';\<close>\<close>

definition blanks :: "int \<Rightarrow> byte list" where
  "blanks k = replicate (nat k) 0x20"

definition fmt_char :: "int \<Rightarrow> u32 \<Rightarrow> byte \<Rightarrow> byte list" where
  "fmt_char field_width flags c =
     (if \<not> flag_set flags LEFT then blanks (field_width - 1) @ [c]
      else [c] @ blanks (field_width - 1))"

text \<open>The precision is passed to \<open>strnlen\<close> as an unsigned count, so -1 is no limit.\<close>

definition fmt_str :: "int \<Rightarrow> int \<Rightarrow> u32 \<Rightarrow> byte list option \<Rightarrow> byte list" where
  "fmt_str field_width precision flags arg =
     (let s = (case arg of None \<Rightarrow> lit ''<NULL>'' | Some s \<Rightarrow> s);
          s = take (unat (of_int precision :: u32)) s;
          n = int (length s)
      in if \<not> flag_set flags LEFT then blanks (field_width - n) @ s
         else s @ blanks (field_width - n))"

text \<open>The integer conversions: the argument, narrowed by the qualifier, through \<open>number\<close>.\<close>

definition fmt_int ::
  "fmt_state \<Rightarrow> int \<Rightarrow> u32 \<Rightarrow> int \<Rightarrow> int \<Rightarrow> byte option \<Rightarrow> fmt_state option" where
  "fmt_int st base flags field_width precision qualifier = do {
     (a, as) \<leftarrow> va_int (fs_args st);
     let num = (if qualifier = Some (ch CHR ''h'') then
                  if flag_set flags SIGN then scast (ucast a :: u16) else ucast (ucast a :: u16)
                else a);
     out \<leftarrow> number num base field_width precision flags;
     Some (st\<lparr>fs_out := fs_out st @ out, fs_args := as\<rparr>) }"

text \<open>
  The conversion at the front of \<open>fmt\<close>: the new state, and whether the format ended inside the
  directive (then \<^verbatim>\<open>--fmt\<close> puts the pointer back on the NUL).
\<close>

definition fmt_convert ::
  "byte list \<Rightarrow> u32 \<Rightarrow> int \<Rightarrow> int \<Rightarrow> byte option \<Rightarrow> fmt_state \<Rightarrow> fmt_state option" where
  "fmt_convert fmt flags field_width precision qualifier st =
     (let c = hd0 fmt in
      if c = ch CHR ''c'' then do {
        (a, as) \<leftarrow> va_int (fs_args st);
        Some (st\<lparr>fs_out := fs_out st @ fmt_char field_width flags (ucast a), fs_args := as\<rparr>) }
      else if c = ch CHR ''s'' then do {
        (s, as) \<leftarrow> va_str (fs_args st);
        Some (st\<lparr>fs_out := fs_out st @ fmt_str field_width precision flags s, fs_args := as\<rparr>) }
      else if c = ch CHR ''p'' then do {
        (a, as) \<leftarrow> va_int (fs_args st);
        let (w, flags) = (if field_width = -1 then (8, flags OR ZEROPAD) else (field_width, flags));
        out \<leftarrow> number a 16 w precision flags;
        Some (st\<lparr>fs_out := fs_out st @ out, fs_args := as\<rparr>) }
      else if c = ch CHR ''n'' then do {
        (a, as) \<leftarrow> va_int (fs_args st);
        Some (st\<lparr>fs_stores := fs_stores st @ [(a, length (fs_out st))], fs_args := as\<rparr>) }
      else if c = ch CHR ''%'' then Some (st\<lparr>fs_out := fs_out st @ [ch CHR ''%'']\<rparr>)
      else if c = ch CHR ''o'' then fmt_int st 8 flags field_width precision qualifier
      else if c = ch CHR ''X'' then
        fmt_int st 16 (flags OR LARGE) field_width precision qualifier
      else if c = ch CHR ''x'' then fmt_int st 16 flags field_width precision qualifier
      else if c = ch CHR ''d'' \<or> c = ch CHR ''i'' then
        fmt_int st 10 (flags OR SIGN) field_width precision qualifier
      else if c = ch CHR ''u'' then fmt_int st 10 flags field_width precision qualifier
      else Some (st\<lparr>fs_out := fs_out st @ [ch CHR ''%''] @ take 1 fmt\<rparr>))"

text \<open>One directive, from behind its \<open>%\<close>: the rest of the format and the new state.\<close>

definition fmt_directive :: "byte list \<Rightarrow> fmt_state \<Rightarrow> (byte list \<times> fmt_state) option" where
  "fmt_directive fmt st = do {
     let (fmt, flags) = fmt_flags fmt 0;
     (fmt, field_width, flags, as) \<leftarrow> fmt_width fmt flags (fs_args st);
     (fmt, precision, as) \<leftarrow> fmt_precision fmt as;
     let (fmt, qualifier) = fmt_qualifier fmt;
     st \<leftarrow> fmt_convert fmt flags field_width precision qualifier (st\<lparr>fs_args := as\<rparr>);
     Some (tl fmt, st) }"

lemma fmt_flags_length: "length (fst (fmt_flags fmt flags)) \<le> length fmt"
  by (induction fmt flags rule: fmt_flags.induct) auto

lemma skip_atoi_length: "length (fst (skip_atoi s i)) \<le> length s"
  by (induction s i rule: skip_atoi.induct) auto

lemma fmt_width_length: "fmt_width fmt flags as = Some (r, x) \<Longrightarrow> length r \<le> length fmt"
  using skip_atoi_length [of fmt 0]
  by (auto simp: fmt_width_def Let_def split: if_splits prod.splits Option.bind_splits)

lemma fmt_precision_length: "fmt_precision fmt as = Some (r, x) \<Longrightarrow> length r \<le> length fmt"
  using skip_atoi_length [of "tl fmt" 0]
  by (auto simp: fmt_precision_def Let_def split: if_splits prod.splits Option.bind_splits)

lemma fmt_qualifier_length: "length (fst (fmt_qualifier fmt)) \<le> length fmt"
  by (simp add: fmt_qualifier_def)

lemma fmt_directive_length: "fmt_directive fmt st = Some (r, st') \<Longrightarrow> length r \<le> length fmt"
  using fmt_flags_length [of fmt 0]
  by (auto simp: fmt_directive_def split: prod.splits Option.bind_splits
      dest!: fmt_width_length fmt_precision_length)
     (metis (no_types, lifting) diff_le_self dual_order.trans fmt_qualifier_length fst_conv length_tl)

function vsprintf_loop :: "byte list \<Rightarrow> fmt_state \<Rightarrow> fmt_state option" where
  "vsprintf_loop [] st = Some st"
| "vsprintf_loop (c # fmt) st =
     (if c \<noteq> ch CHR ''%'' then vsprintf_loop fmt (st\<lparr>fs_out := fs_out st @ [c]\<rparr>)
      else (case fmt_directive fmt st of
              None \<Rightarrow> None
            | Some (fmt', st') \<Rightarrow> vsprintf_loop fmt' st'))"
  by pat_completeness auto
termination
  by (relation "measure (\<lambda>(fmt, st). length fmt)") (auto dest: fmt_directive_length)

text \<open>The string built, without its NUL, and the count \<open>vsprintf\<close> returns.\<close>

definition vsprintf :: "byte list \<Rightarrow> arg list \<Rightarrow> (byte list \<times> nat) option" where
  "vsprintf fmt as = do {
     st \<leftarrow> vsprintf_loop fmt \<lparr>fs_out = [], fs_args = as, fs_stores = []\<rparr>;
     Some (fs_out st, length (fs_out st)) }"

definition sprintf :: "byte list \<Rightarrow> arg list \<Rightarrow> byte list option" where
  "sprintf fmt as = map_option fst (vsprintf fmt as)"

section \<open>Properties\<close>

lemma small_digits:
  assumes "k < 16"
  shows "isxdigit (digits_small ! k)" "digit_value (digits_small ! k) = of_nat k"
proof -
  have "list_all (\<lambda>k. isxdigit (digits_small ! k) \<and> digit_value (digits_small ! k) = of_nat k) [0..<16]"
    by code_simp
  moreover have "k \<in> set [0..<16]" using assms by simp
  ultimately show "isxdigit (digits_small ! k)" "digit_value (digits_small ! k) = of_nat k"
    by (auto simp: list_all_iff)
qed

lemma strtoul_digits:
  assumes "2 \<le> base" "base \<le> 16"
  shows "strtoul_loop (rev (number_tmp digits_small base n) @ rest) base 0 = strtoul_loop rest base n"
  using assms
proof (induction digits_small base n arbitrary: rest rule: number_tmp.induct)
  case (1 base n)
  show ?case
  proof (cases "n = 0")
    case True
    then show ?thesis by (subst number_tmp.simps) simp
  next
    case False
    have b: "unat base \<le> 16" "2 \<le> unat base" using "1.prems" by (simp_all add: word_le_nat_alt)
    have base: "\<not> base < 2" using "1.prems" by simp
    have k: "unat (n mod base) < unat base" using b by (simp add: unat_mod)
    with b have d: "isxdigit (digits_small ! unat (n mod base))"
      "digit_value (digits_small ! unat (n mod base)) = n mod base"
      using small_digits [of "unat (n mod base)"] by auto
    from k have "n mod base < base" by (simp add: word_less_nat_alt)
    moreover have "(n div base) * base + n mod base = n" by (rule div_mult_mod_eq)
    ultimately show ?thesis
      using "1.hyps" "1.prems" False base d by (subst number_tmp.simps) simp
  qed
qed

text \<open>A number is written without a leading zero, unless it is 0.\<close>

lemma digits_not_0:
  assumes "k < 16" "k \<noteq> 0"
  shows "digits_small ! k \<noteq> ch CHR ''0''"
proof -
  have "list_all (\<lambda>k. k \<noteq> 0 \<longrightarrow> digits_small ! k \<noteq> ch CHR ''0'') [0..<16]"
    by code_simp
  moreover have "k \<in> set [0..<16]" using assms by simp
  ultimately show ?thesis using assms(2) unfolding list_all_iff by blast
qed

lemma number_tmp_last:
  assumes "2 \<le> base" "base \<le> 16" "n \<noteq> 0"
  shows "number_tmp digits_small base n \<noteq> []
    \<and> last (number_tmp digits_small base n) \<noteq> ch CHR ''0''"
  using assms
proof (induction digits_small base n rule: number_tmp.induct)
  case (1 base n)
  have b: "unat base \<le> 16" "2 \<le> unat base" using "1.prems" by (simp_all add: word_le_nat_alt)
  have base: "\<not> base < 2" using "1.prems" by simp
  show ?case
  proof (cases "n div base = 0")
    case True
    then have tmp: "number_tmp digits_small base (n div base) = []"
      by (simp add: number_tmp.simps)
    from True have "n mod base = n" using div_mult_mod_eq [of n base] by simp
    moreover have "unat (n mod base) < unat base" using b by (simp add: unat_mod)
    ultimately have "unat n < 16" "unat n \<noteq> 0" using b "1.prems" by (auto simp: unat_eq_zero)
    then have "digits_small ! unat n \<noteq> ch CHR ''0''" by (rule digits_not_0)
    then show ?thesis using base "1.prems" \<open>n mod base = n\<close> tmp
      by (subst (1 2) number_tmp.simps) simp
  next
    case False
    with "1.hyps" "1.prems" base show ?thesis
      by (subst (1 2) number_tmp.simps) simp
  qed
qed

lemma flag_set_0 [simp]: "\<not> flag_set 0 f"
  by (simp add: flag_set_def)

lemma number_plain:
  assumes "2 \<le> base" "base \<le> 16"
  shows "number n base (-1) (-1) 0 =
    Some (if n = 0 then [ch CHR ''0''] else rev (number_tmp digits_small (of_int base) n))"
  using assms
  by (auto simp: number_def number_sign_def number_prefix_def number_pads_def pad_def Let_def)

lemma number_sign_room:
  "number_sign num sz ty =
    (let (sign, n, r) = number_sign num 0 ty in (sign, n, sz - int (length sign)))"
  by (simp add: number_sign_def)

lemma number_prefix_room:
  "sz - int (length (number_prefix digits base ty)) =
    (if flag_set ty SPECIAL then if base = 16 then sz - 2 else if base = 8 then sz - 1 else sz else sz)"
  by (simp add: number_prefix_def)

lemma number_pads_length:
  "number_pads sz ty = (b, f, t) \<Longrightarrow> length b + length f + length t = nat sz"
  by (auto simp: number_pads_def pad_def Let_def split: if_splits)

text \<open>The length of what \<open>number\<close> writes: the width, or what it must write.\<close>

lemma number_length:
  "\<exists>k. \<forall>w s. number num base w precision ty = Some s \<longrightarrow> int (length s) = max w k \<and> 0 \<le> k"
proof -
  define ty' where "ty' = (if flag_set ty LEFT then ty AND NOT ZEROPAD else ty)"
  define ds where "ds = (if flag_set ty LARGE then digits_large else digits_small)"
  obtain sign n r where sg: "number_sign num 0 ty' = (sign, n, r)" by (metis prod_cases3)
  define tmp where "tmp = (if n = 0 then [0x30] else number_tmp ds (of_int base) n)"
  define p where "p = max (int (length tmp)) precision"
  define px where "px = number_prefix ds base ty'"
  let ?k = "int (length sign) + int (length px) + p"
  have "int (length s) = max w ?k \<and> 0 \<le> ?k"
    if s: "number num base w precision ty = Some s" for w s
  proof -
    obtain b f t where pads: "number_pads (w - int (length sign) - int (length px) - p) ty' = (b, f, t)"
      by (metis prod_cases3)
    have "number_sign num w ty' = (sign, n, w - int (length sign))"
      using number_sign_room [of num w ty'] sg by simp
    with s pads number_prefix_room [of "w - int (length sign)" ds base ty']
    have "s = b @ sign @ px @ f @ replicate (nat (p - int (length tmp))) 0x30 @ rev tmp @ t"
      unfolding number_def ty'_def [symmetric] ds_def [symmetric]
      by (auto simp: Let_def tmp_def [symmetric] px_def [symmetric] p_def max_def split: if_splits)
    with number_pads_length [OF pads] show ?thesis by (auto simp: p_def)
  qed
  then show ?thesis by blast
qed

lemma of_int_base:
  assumes "2 \<le> base" "base \<le> (16 :: int)"
  shows "(2 :: u32) \<le> of_int base" "(of_int base :: u32) \<le> 16"
proof -
  have "uint (of_int base :: u32) = base"
    using assms by (simp add: unsigned_of_int take_bit_int_eq_self)
  then show "(2 :: u32) \<le> of_int base" "(of_int base :: u32) \<le> 16"
    using assms by (simp_all add: word_le_def)
qed

text \<open>
  C14: what \<open>number\<close> writes without flags, \<open>simple_strtoul\<close> reads back: for every value and every
  base from 2 to 16 the text is read to its end and gives the value.
\<close>

theorem strtoul_number_roundtrip:
  assumes "2 \<le> base" "base \<le> 16"
  shows "\<exists>s. number n base (-1) (-1) 0 = Some s \<and> simple_strtoul s (of_int base) = (n, [])"
proof (cases "n = 0")
  case True
  have "(of_int base :: u32) \<noteq> 0" using of_int_base(1) [OF assms] by auto
  with True show ?thesis using assms by (simp add: number_plain simple_strtoul_def Let_def)
next
  case False
  let ?b = "of_int base :: u32"
  let ?t = "number_tmp digits_small ?b n"
  have b: "2 \<le> ?b" "?b \<le> 16" using of_int_base [OF assms] by auto
  then have "?b \<noteq> 0" by auto
  have t: "?t \<noteq> []" "last ?t \<noteq> ch CHR ''0''" using number_tmp_last [OF b False] by auto
  then have "hd0 (rev ?t) \<noteq> ch CHR ''0''" by (cases ?t rule: rev_cases) auto
  with \<open>?b \<noteq> 0\<close> have "simple_strtoul (rev ?t) ?b = strtoul_loop (rev ?t) ?b 0"
    by (simp add: simple_strtoul_def Let_def)
  also have "\<dots> = (n, [])" using strtoul_digits [OF b, of n "[]"] by simp
  finally show ?thesis using False assms by (simp add: number_plain)
qed

lemma strtoul_number_roundtrip_witness:
  "\<exists>s. number 123 10 (-1) (-1) 0 = Some s \<and> simple_strtoul s (of_int 10) = (123, [])"
  by (rule strtoul_number_roundtrip) simp_all

text \<open>
  the field width of \<open>number\<close> is a minimum: with width \<open>w\<close> it writes as many bytes as with no
  width at all, or \<open>w\<close> bytes where that is more, for every base, precision and set of flags.
\<close>

theorem number_field_width:
  assumes "number num base w precision ty = Some s" "number num base 0 precision ty = Some s0"
  shows "int (length s) = max w (int (length s0))"
  using number_length [of num base precision ty] assms by force

lemma number_field_width_witness:
  "number 255 16 8 (-1) 0 = Some (lit ''      ff'') \<and> int (length (lit ''      ff'')) = max 8 (int (length (lit ''ff'')))"
proof -
  have "number 255 16 8 (-1) 0 = Some (lit ''      ff'')" "number 255 16 0 (-1) 0 = Some (lit ''ff'')"
    by code_simp+
  with number_field_width [of 255 16 8 "-1" 0] show ?thesis by blast
qed

end
