(* ===== verification/Console.thy ===== *)
theory Console
  imports Vsprintf
begin

text \<open>
  The state the boot loader's commands share, and the console: \<^verbatim>\<open>common/console.c\<close> and the
  serial output of \<^verbatim>\<open>cpu/sa1100/serial.c\<close>.  The serial line is two byte lists, what has
  arrived and was not read yet and what has been sent.
\<close>

section \<open>State\<close>

text \<open>
  How an operation stops the program: \<open>panic()\<close>, \<open>hang()\<close>, an access outside an object (undefined
  in C), waiting for input that never arrives, a jump into another program; \<open>NoFuel\<close> is the model's own, a
  nesting of commands deeper than it was asked to follow.
\<close>

datatype stop = Panic | Hang | BadAccess | NoInput | Gone | NoFuel

text \<open>The build configuration, the macros of \<^verbatim>\<open>include/configs/config_*.h\<close>.\<close>

record config =
  CFG_CBSIZE :: nat
  CFG_PBSIZE :: nat
  CFG_MAXARGS :: nat
  CFG_PROMPT :: "byte list"
  CONFIG_ENV_OVERWRITE :: bool
  baudrate_table :: "u32 list"
  default_environment :: "byte list"

definition env_entry :: "string \<Rightarrow> byte list" where
  "env_entry s = lit s @ [0]"

text \<open>\<^verbatim>\<open>include/configs/config_dnp1110.h\<close>; the array ends with the \<^verbatim>\<open>"\0"\<close> and the literal's own NUL.\<close>

definition dnp1110_environment :: "byte list" where
  "dnp1110_environment =
     concat (map env_entry
       [''bootargs=root=ramfs devfs=mount console=ttySA0,115200'',
        ''bootcmd=tftp; bootm'', ''bootdelay=3'', ''baudrate=115200'',
        ''ethaddr=02:80:ad:20:31:b8'', ''ipaddr=172.22.2.23'', ''serverip=172.22.2.22'',
        ''netmask=255.255.0.0'', ''bootfile=\"elinos-dnp1110\"''])
     @ [0, 0]"

definition dnp1110 :: config where
  "dnp1110 =
     \<lparr>CFG_CBSIZE = 256, CFG_PBSIZE = 283, CFG_MAXARGS = 16, CFG_PROMPT = lit ''DNP1110 # '',
      CONFIG_ENV_OVERWRITE = True, baudrate_table = [9600, 19200, 38400, 57600, 115200],
      default_environment = dnp1110_environment\<rparr>"

text \<open>\<^verbatim>\<open>struct environment_s\<close>.\<close>

record env_t =
  env_crc :: u32
  env_data :: "byte list"

text \<open>\<^verbatim>\<open>flash_info_t\<close> of \<^verbatim>\<open>include/flash.h\<close>; the two arrays have \<open>CFG_MAX_FLASH_SECT\<close> elements.\<close>

record flash_info_t =
  fi_size :: u32
  sector_count :: nat
  flash_id :: u32
  fi_start :: "u32 list"
  fi_protect :: "byte list"

text \<open>The globals of \<^verbatim>\<open>common/cmd_mem.c\<close>.\<close>

record mem_globals =
  dp_last_addr :: u32
  dp_last_size :: u32
  dp_last_length :: u32
  mm_last_addr :: u32
  mm_last_size :: u32
  base_address :: u32
  baseval :: u32

text \<open>
  The globals: the fields of \<^verbatim>\<open>struct bd_info\<close> the commands use, the memory downloads are
  written to, the flash sector at
  \<open>CFG_ENV_ADDR\<close>, \<open>load_addr\<close>, \<open>BootFile\<close>, the line buffers of \<^verbatim>\<open>common/main.c\<close>, those of
  the memory commands and the console.
\<close>

record sys =
  bi_baudrate :: int
  bi_ip_addr :: u32
  bi_enetaddr :: "byte list"
  bi_env :: "env_t option"
  bi_arch_number :: u32
  bi_boot_params :: u32
  bi_dram :: "(u32 \<times> u32) list"
  memory :: mem
  flash_info :: "flash_info_t list"
  env_crc_valid :: int
  flash_env :: env_t
  load_addr :: u32
  BootFile :: "byte list"
  uart_baudrate :: int
  console_buffer :: "byte list"
  lastcommand :: "byte list"
  mem_cmds :: mem_globals
  con_in :: "byte list"
  con_out :: "byte list"
  ctrlc_disabled :: bool
  ctrlc_was_pressed :: bool

text \<open>A machine after reset, with \<open>n\<close> bytes of erased flash in the environment sector.\<close>

definition reset_sys :: "nat \<Rightarrow> sys" where
  "reset_sys n =
     \<lparr>bi_baudrate = 0, bi_ip_addr = 0, bi_enetaddr = replicate 6 0, bi_env = None,
      bi_arch_number = 0, bi_boot_params = 0, bi_dram = [(0, 0)], memory = (\<lambda>_. 0),
      flash_info = [],
      env_crc_valid = 0, flash_env = \<lparr>env_crc = 0xFFFFFFFF, env_data = replicate n 0xFF\<rparr>,
      load_addr = 0, BootFile = replicate 128 0, uart_baudrate = 0,
      console_buffer = replicate 256 0, lastcommand = replicate 256 0,
      mem_cmds = \<lparr>dp_last_addr = 0, dp_last_size = 0, dp_last_length = 0x40, mm_last_addr = 0,
                   mm_last_size = 0, base_address = 0, baseval = 0\<rparr>,
      con_in = [], con_out = [], ctrlc_disabled = False, ctrlc_was_pressed = False\<rparr>"

text \<open>Operations that may stop, sequenced through the state.\<close>

type_synonym 'a result = "stop + 'a \<times> sys"

lemma sbind_cong [fundef_cong]:
  "r = r' \<Longrightarrow> (\<And>x. r' = Inr x \<Longrightarrow> f x = f' x) \<Longrightarrow> sbind r f = sbind r' f'"
  by (cases r') auto

lemma sbind_split:
  "P (sbind r f) = ((\<forall>e. r = Inl e \<longrightarrow> P (Inl e)) \<and> (\<forall>x. r = Inr x \<longrightarrow> P (f x)))"
  by (cases r) auto

lemma sbind_InrE:
  assumes "sbind r f = Inr y"
  obtains x where "r = Inr x" "f x = Inr y"
  using assms by (cases r) auto

section \<open>Output\<close>

definition serial_putc :: "byte \<Rightarrow> sys \<Rightarrow> sys" where
  "serial_putc c s = s\<lparr>con_out := con_out s @ (if c = 10 then [c, 13] else [c])\<rparr>"

primrec serial_puts :: "byte list \<Rightarrow> sys \<Rightarrow> sys" where
  "serial_puts [] s = s"
| "serial_puts (c # cs) s = serial_puts cs (serial_putc c s)"

definition putc :: "byte \<Rightarrow> sys \<Rightarrow> sys" where
  "putc c s = serial_putc c s"

definition puts :: "byte list \<Rightarrow> sys \<Rightarrow> sys" where
  "puts t s = serial_puts t s"

text \<open>
  \<open>printf\<close> formats into a buffer of \<open>CFG_PBSIZE\<close> bytes on the stack without a bound; a longer
  text, its NUL included, leaves the buffer.
\<close>

definition printf :: "config \<Rightarrow> byte list \<Rightarrow> arg list \<Rightarrow> sys \<Rightarrow> unit result" where
  "printf cfg fmt args s =
     (case sprintf fmt args of
        None \<Rightarrow> Inl BadAccess
      | Some printbuffer \<Rightarrow>
          if length printbuffer < CFG_PBSIZE cfg then Inr ((), puts (cstr_of printbuffer) s)
          else Inl BadAccess)"

text \<open>The formats the commands use: plain text, and text around one string.\<close>

lemma vsprintf_loop_plain:
  "ch CHR ''%'' \<notin> set t \<Longrightarrow> vsprintf_loop (t @ fmt) st = vsprintf_loop fmt (st\<lparr>fs_out := fs_out st @ t\<rparr>)"
  by (induction t arbitrary: st) auto

lemma vsprintf_loop_s:
  assumes "length t < 2 ^ 32"
  shows "vsprintf_loop (ch CHR ''%'' # ch CHR ''s'' # fmt) (st\<lparr>fs_args := AStr (Some t) # as\<rparr>)
    = vsprintf_loop fmt (st\<lparr>fs_out := fs_out st @ t, fs_args := as\<rparr>)"
proof -
  have "unat (- 1 :: u32) = 2 ^ 32 - 1" by (simp add: unsigned_minus_1_eq_mask mask_eq_exp_minus_1)
  then have "fmt_str (-1) (-1) 0 (Some t) = t"
    using assms by (simp add: fmt_str_def Let_def flag_set_def blanks_def)
  then show ?thesis
    by (simp add: fmt_directive_def fmt_width_def fmt_precision_def fmt_qualifier_def
        fmt_convert_def is_digit_def)
qed

lemma sprintf_plain: "ch CHR ''%'' \<notin> set t \<Longrightarrow> sprintf t as = Some t"
  using vsprintf_loop_plain [of t "[]"] by (simp add: sprintf_def vsprintf_def)

lemma sprintf_string:
  assumes "ch CHR ''%'' \<notin> set a" "ch CHR ''%'' \<notin> set b" "length t < 2 ^ 32"
  shows "sprintf (a @ ch CHR ''%'' # ch CHR ''s'' # b) [AStr (Some t)] = Some (a @ t @ b)"
proof -
  define st :: fmt_state where "st = \<lparr>fs_out = a, fs_args = [], fs_stores = []\<rparr>"
  have "vsprintf_loop (a @ ch CHR ''%'' # ch CHR ''s'' # b)
      \<lparr>fs_out = [], fs_args = [AStr (Some t)], fs_stores = []\<rparr>
    = vsprintf_loop (ch CHR ''%'' # ch CHR ''s'' # b) (st\<lparr>fs_args := [AStr (Some t)]\<rparr>)"
    unfolding vsprintf_loop_plain [OF assms(1)] by (simp add: st_def)
  also have "\<dots> = vsprintf_loop b (st\<lparr>fs_out := a @ t, fs_args := []\<rparr>)"
    unfolding vsprintf_loop_s [OF assms(3)] by (simp add: st_def)
  also have "\<dots> = Some (st\<lparr>fs_out := a @ t @ b, fs_args := []\<rparr>)"
    using vsprintf_loop_plain [OF assms(2), of "[]"] by simp
  finally show ?thesis by (simp add: sprintf_def vsprintf_def)
qed

text \<open>A format with one string, split at its directive.\<close>

lemma printf_string:
  assumes "fmt = a @ ch CHR ''%'' # ch CHR ''s'' # b" "ch CHR ''%'' \<notin> set a" "ch CHR ''%'' \<notin> set b"
    "length t < 2 ^ 32"
  shows "printf cfg fmt [AStr (Some t)] s =
    (if length a + length t + length b < CFG_PBSIZE cfg
     then Inr ((), puts (cstr_of (a @ t @ b)) s) else Inl BadAccess)"
  unfolding printf_def assms(1) sprintf_string [OF assms(2-4)] by simp

lemma printf_plain:
  "ch CHR ''%'' \<notin> set t \<Longrightarrow> printf cfg t as s =
    (if length t < CFG_PBSIZE cfg then Inr ((), puts (cstr_of t) s) else Inl BadAccess)"
  by (simp add: printf_def sprintf_plain)

section \<open>Input\<close>

text \<open>\<open>getc\<close> waits for a byte.\<close>

definition getc :: "sys \<Rightarrow> byte result" where
  "getc s = (case con_in s of [] \<Rightarrow> Inl NoInput | c # cs \<Rightarrow> Inr (c, s\<lparr>con_in := cs\<rparr>))"

definition tstc :: "sys \<Rightarrow> bool" where
  "tstc s = (con_in s \<noteq> [])"

text \<open>A byte that is waiting is consumed, whether or not it is control-C.\<close>

definition ctrlc :: "sys \<Rightarrow> bool result" where
  "ctrlc s =
     (if \<not> ctrlc_disabled s \<and> tstc s
      then sbind (getc s) (\<lambda>(c, s).
        if c = 3 then Inr (True, s\<lparr>ctrlc_was_pressed := True\<rparr>) else Inr (False, s))
      else Inr (False, s))"

definition disable_ctrlc :: "bool \<Rightarrow> sys \<Rightarrow> bool \<times> sys" where
  "disable_ctrlc disable s = (ctrlc_disabled s, s\<lparr>ctrlc_disabled := disable\<rparr>)"

definition had_ctrlc :: "sys \<Rightarrow> bool" where
  "had_ctrlc s = ctrlc_was_pressed s"

definition clear_ctrlc :: "sys \<Rightarrow> sys" where
  "clear_ctrlc s = s\<lparr>ctrlc_was_pressed := False\<rparr>"

section \<open>Frame\<close>

text \<open>Output changes \<open>con_out\<close> alone.\<close>

definition line_out :: "byte list \<Rightarrow> byte list" where
  "line_out t = concat (map (\<lambda>c. if c = 10 then [c, 13] else [c]) t)"

lemma putc_out: "putc c s = s\<lparr>con_out := con_out s @ line_out [c]\<rparr>"
  by (simp add: putc_def serial_putc_def line_out_def)

lemma serial_puts_out: "serial_puts t s = s\<lparr>con_out := con_out s @ line_out t\<rparr>"
  by (induction t arbitrary: s) (simp_all add: serial_putc_def line_out_def)

lemma puts_out: "puts t s = s\<lparr>con_out := con_out s @ line_out t\<rparr>"
  by (simp add: puts_def serial_puts_out)

lemma line_out_append [simp]: "line_out (t @ u) = line_out t @ line_out u"
  by (simp add: line_out_def)

lemma printf_out:
  "printf cfg fmt args s = Inr (u, s') \<Longrightarrow> \<exists>t. s' = s\<lparr>con_out := con_out s @ t\<rparr>"
  by (auto simp: printf_def puts_out split: option.splits if_splits)

lemma ctrlc_not_stuck: "\<exists>r s'. ctrlc s = Inr (r, s')"
  by (auto simp: ctrlc_def tstc_def getc_def split: list.splits)

lemma ctrlc_frame:
  "ctrlc s = Inr (r, s') \<Longrightarrow>
    s' = s\<lparr>con_in := con_in s', ctrlc_was_pressed := ctrlc_was_pressed s'\<rparr>"
  by (auto simp: ctrlc_def tstc_def getc_def split: if_splits list.splits)

end
