(* ===== verification/CString.thy ===== *)
theory CString
  imports Prelude
begin

text \<open>
  \<^verbatim>\<open>common/string.c\<close>: the C library's string and block functions over the flat memory.
  A function that writes returns the new memory with the pointer the C function returns.  The
  loops that stop at a NUL need not stop at all (the copy of \<open>strcpy\<close> may overwrite the NUL it
  is looking for), so they are \<^theory_text>\<open>partial_function (option)\<close> and not returning is
  \<^theory_text>\<open>None\<close>; the loops bounded by a count recurse on it.  The NULL pointer is address 0.
\<close>

section \<open>Strings\<close>

text \<open>\<^verbatim>\<open>while ((*dest++ = *src++) != '\0')\<close>\<close>

partial_function (option) strcpy_loop :: "mem \<Rightarrow> addr \<Rightarrow> addr \<Rightarrow> mem option" where
  "strcpy_loop m dest src =
     (let c = m src; m' = m(dest := c)
      in if c \<noteq> 0 then strcpy_loop m' (dest + 1) (src + 1) else Some m')"

definition strcpy :: "mem \<Rightarrow> addr \<Rightarrow> addr \<Rightarrow> (mem \<times> addr) option" where
  "strcpy m dest src = do { m' \<leftarrow> strcpy_loop m dest src; Some (m', dest) }"

text \<open>\<^verbatim>\<open>while (count-- && (*dest++ = *src++) != '\0')\<close>\<close>

primrec strncpy_loop :: "nat \<Rightarrow> mem \<Rightarrow> addr \<Rightarrow> addr \<Rightarrow> mem" where
  "strncpy_loop 0 m dest src = m"
| "strncpy_loop (Suc count) m dest src =
     (let c = m src; m' = m(dest := c)
      in if c \<noteq> 0 then strncpy_loop count m' (dest + 1) (src + 1) else m')"

definition strncpy :: "mem \<Rightarrow> addr \<Rightarrow> addr \<Rightarrow> u32 \<Rightarrow> mem \<times> addr" where
  "strncpy m dest src count = (strncpy_loop (unat count) m dest src, dest)"

text \<open>\<^verbatim>\<open>while (*dest) dest++;\<close>, the search for the closing NUL of several functions\<close>

partial_function (option) seek_nul :: "mem \<Rightarrow> addr \<Rightarrow> addr option" where
  "seek_nul m p = (if m p \<noteq> 0 then seek_nul m (p + 1) else Some p)"

definition strcat :: "mem \<Rightarrow> addr \<Rightarrow> addr \<Rightarrow> (mem \<times> addr) option" where
  "strcat m dest src = do {
     p \<leftarrow> seek_nul m dest;
     m' \<leftarrow> strcpy_loop m p src;
     Some (m', dest) }"

text \<open>The copying loop of \<open>strncat\<close>, entered with a count that is not 0.\<close>

fun strncat_loop :: "nat \<Rightarrow> mem \<Rightarrow> addr \<Rightarrow> addr \<Rightarrow> mem" where
  "strncat_loop 0 m dest src = m"
| "strncat_loop (Suc count) m dest src =
     (let c = m src; m' = m(dest := c)
      in if c = 0 then m'
         else if count = 0 then m'(dest + 1 := 0)
         else strncat_loop count m' (dest + 1) (src + 1))"

definition strncat :: "mem \<Rightarrow> addr \<Rightarrow> addr \<Rightarrow> u32 \<Rightarrow> (mem \<times> addr) option" where
  "strncat m dest src count =
     (if count \<noteq> 0 then do {
        p \<leftarrow> seek_nul m dest;
        Some (strncat_loop (unat count) m p src, dest) }
      else Some (m, dest))"

text \<open>
  The difference of two characters is kept in a \<^verbatim>\<open>signed char\<close>: \<open>sint\<close> of the byte
  difference.
\<close>

partial_function (option) strcmp :: "mem \<Rightarrow> addr \<Rightarrow> addr \<Rightarrow> int option" where
  "strcmp m cs ct =
     (let res = m cs - m ct
      in if res \<noteq> 0 \<or> m cs = 0 then Some (sint res) else strcmp m (cs + 1) (ct + 1))"

primrec strncmp_loop :: "nat \<Rightarrow> mem \<Rightarrow> addr \<Rightarrow> addr \<Rightarrow> int" where
  "strncmp_loop 0 m cs ct = 0"
| "strncmp_loop (Suc count) m cs ct =
     (let res = m cs - m ct
      in if res \<noteq> 0 \<or> m cs = 0 then sint res else strncmp_loop count m (cs + 1) (ct + 1))"

definition strncmp :: "mem \<Rightarrow> addr \<Rightarrow> addr \<Rightarrow> u32 \<Rightarrow> int" where
  "strncmp m cs ct count = strncmp_loop (unat count) m cs ct"

partial_function (option) strchr_loop :: "mem \<Rightarrow> addr \<Rightarrow> byte \<Rightarrow> addr option" where
  "strchr_loop m s c =
     (if m s \<noteq> c then if m s = 0 then Some 0 else strchr_loop m (s + 1) c else Some s)"

definition strchr :: "mem \<Rightarrow> addr \<Rightarrow> u32 \<Rightarrow> addr option" where
  "strchr m s c = strchr_loop m s (ucast c)"

definition strlen :: "mem \<Rightarrow> addr \<Rightarrow> u32 option" where
  "strlen m s = do { sc \<leftarrow> seek_nul m s; Some (sc - s) }"

partial_function (option) strrchr_loop :: "mem \<Rightarrow> addr \<Rightarrow> addr \<Rightarrow> byte \<Rightarrow> addr option" where
  "strrchr_loop m p s c =
     (if m p = c then Some p
      else let p' = p - 1 in if s \<le> p' then strrchr_loop m p' s c else Some 0)"

definition strrchr :: "mem \<Rightarrow> addr \<Rightarrow> u32 \<Rightarrow> addr option" where
  "strrchr m s c = do { n \<leftarrow> strlen m s; strrchr_loop m (s + n) s (ucast c) }"

primrec strnlen_loop :: "nat \<Rightarrow> mem \<Rightarrow> addr \<Rightarrow> addr" where
  "strnlen_loop 0 m sc = sc"
| "strnlen_loop (Suc count) m sc = (if m sc \<noteq> 0 then strnlen_loop count m (sc + 1) else sc)"

definition strnlen :: "mem \<Rightarrow> addr \<Rightarrow> u32 \<Rightarrow> u32" where
  "strnlen m s count = strnlen_loop (unat count) m s - s"

text \<open>
  The inner loop of \<open>strspn\<close>: where the character \<open>c\<close> stands in the set of characters at
  \<open>a\<close>, or where the set ends.
\<close>

partial_function (option) strspn_inner :: "mem \<Rightarrow> byte \<Rightarrow> addr \<Rightarrow> addr option" where
  "strspn_inner m c a =
     (if m a \<noteq> 0 then if c = m a then Some a else strspn_inner m c (a + 1) else Some a)"

partial_function (option) strspn_loop :: "mem \<Rightarrow> addr \<Rightarrow> addr \<Rightarrow> u32 \<Rightarrow> u32 option" where
  "strspn_loop m p accept count =
     (if m p \<noteq> 0 then do {
        a \<leftarrow> strspn_inner m (m p) accept;
        if m a = 0 then Some count else strspn_loop m (p + 1) accept (count + 1) }
      else Some count)"

definition strspn :: "mem \<Rightarrow> addr \<Rightarrow> addr \<Rightarrow> u32 option" where
  "strspn m s accept = strspn_loop m s accept 0"

partial_function (option) strpbrk_inner :: "mem \<Rightarrow> byte \<Rightarrow> addr \<Rightarrow> bool option" where
  "strpbrk_inner m c sc2 =
     (if m sc2 \<noteq> 0 then if c = m sc2 then Some True else strpbrk_inner m c (sc2 + 1)
      else Some False)"

partial_function (option) strpbrk :: "mem \<Rightarrow> addr \<Rightarrow> addr \<Rightarrow> addr option" where
  "strpbrk m sc1 ct =
     (if m sc1 \<noteq> 0 then do {
        found \<leftarrow> strpbrk_inner m (m sc1) ct;
        if found then Some sc1 else strpbrk m (sc1 + 1) ct }
      else Some 0)"

text \<open>\<open>strtok\<close> keeps its place in the global \<^verbatim>\<open>___strtok\<close>, passed and returned here.\<close>

record strtok_result =
  tok_mem :: mem
  tok_saved :: addr
  tok_ret :: addr

definition strtok :: "mem \<Rightarrow> addr \<Rightarrow> addr \<Rightarrow> addr \<Rightarrow> strtok_result option" where
  "strtok m saved s ct =
     (let sbegin = (if s \<noteq> 0 then s else saved)
      in if sbegin = 0 then Some \<lparr>tok_mem = m, tok_saved = saved, tok_ret = 0\<rparr>
         else do {
           n \<leftarrow> strspn m sbegin ct;
           let sbegin = sbegin + n;
           if m sbegin = 0 then Some \<lparr>tok_mem = m, tok_saved = 0, tok_ret = 0\<rparr>
           else do {
             send \<leftarrow> strpbrk m sbegin ct;
             if send \<noteq> 0 \<and> m send \<noteq> 0
             then Some \<lparr>tok_mem = m(send := 0), tok_saved = send + 1, tok_ret = sbegin\<rparr>
             else Some \<lparr>tok_mem = m, tok_saved = send, tok_ret = sbegin\<rparr> } })"

section \<open>Blocks\<close>

primrec memset_loop :: "nat \<Rightarrow> mem \<Rightarrow> addr \<Rightarrow> byte \<Rightarrow> mem" where
  "memset_loop 0 m xs c = m"
| "memset_loop (Suc count) m xs c = memset_loop count (m(xs := c)) (xs + 1) c"

definition memset :: "mem \<Rightarrow> addr \<Rightarrow> byte \<Rightarrow> u32 \<Rightarrow> mem \<times> addr" where
  "memset m s c count = (memset_loop (unat count) m s c, s)"

text \<open>\<^verbatim>\<open>while (count--) *tmp++ = *s++;\<close> and \<^verbatim>\<open>while (count--) *--tmp = *--s;\<close>\<close>

primrec copy_up :: "nat \<Rightarrow> mem \<Rightarrow> addr \<Rightarrow> addr \<Rightarrow> mem" where
  "copy_up 0 m tmp s = m"
| "copy_up (Suc count) m tmp s = copy_up count (m(tmp := m s)) (tmp + 1) (s + 1)"

primrec copy_down :: "nat \<Rightarrow> mem \<Rightarrow> addr \<Rightarrow> addr \<Rightarrow> mem" where
  "copy_down 0 m tmp s = m"
| "copy_down (Suc count) m tmp s = copy_down count (m(tmp - 1 := m (s - 1))) (tmp - 1) (s - 1)"

definition bcopy :: "mem \<Rightarrow> addr \<Rightarrow> addr \<Rightarrow> u32 \<Rightarrow> mem \<times> addr" where
  "bcopy m src dest count = (copy_up (unat count) m dest src, dest)"

definition memcpy :: "mem \<Rightarrow> addr \<Rightarrow> addr \<Rightarrow> u32 \<Rightarrow> mem \<times> addr" where
  "memcpy m dest src count = (copy_up (unat count) m dest src, dest)"

definition memmove :: "mem \<Rightarrow> addr \<Rightarrow> addr \<Rightarrow> u32 \<Rightarrow> mem \<times> addr" where
  "memmove m dest src count =
     (if dest \<le> src then copy_up (unat count) m dest src
      else copy_down (unat count) m (dest + count) (src + count), dest)"

primrec memcmp_loop :: "nat \<Rightarrow> mem \<Rightarrow> addr \<Rightarrow> addr \<Rightarrow> int" where
  "memcmp_loop 0 m su1 su2 = 0"
| "memcmp_loop (Suc count) m su1 su2 =
     (let res = m su1 - m su2
      in if res \<noteq> 0 then sint res else memcmp_loop count m (su1 + 1) (su2 + 1))"

definition memcmp :: "mem \<Rightarrow> addr \<Rightarrow> addr \<Rightarrow> u32 \<Rightarrow> int" where
  "memcmp m cs ct count = memcmp_loop (unat count) m cs ct"

text \<open>\<open>memscan\<close> compares the byte with the whole \<^verbatim>\<open>int\<close> \<open>c\<close>.\<close>

primrec memscan_loop :: "nat \<Rightarrow> mem \<Rightarrow> addr \<Rightarrow> u32 \<Rightarrow> addr" where
  "memscan_loop 0 m p c = p"
| "memscan_loop (Suc k) m p c = (if ucast (m p) = c then p else memscan_loop k m (p + 1) c)"

definition memscan :: "mem \<Rightarrow> addr \<Rightarrow> u32 \<Rightarrow> u32 \<Rightarrow> addr" where
  "memscan m a c sz = memscan_loop (unat sz) m a c"

text \<open>The search of \<open>strstr\<close>: \<open>l1\<close> and \<open>l2\<close> are \<^verbatim>\<open>int\<close>.\<close>

function strstr_loop :: "mem \<Rightarrow> addr \<Rightarrow> addr \<Rightarrow> int \<Rightarrow> int \<Rightarrow> addr" where
  "strstr_loop m s1 s2 l1 l2 =
     (if l2 \<le> l1 then
        if memcmp m s1 s2 (of_int l2) = 0 then s1
        else strstr_loop m (s1 + 1) s2 (l1 - 1) l2
      else 0)"
  by pat_completeness auto
termination
  by (relation "measure (\<lambda>(m, s1, s2, l1, l2). nat (l1 - l2 + 1))") auto

declare strstr_loop.simps [simp del]

definition strstr :: "mem \<Rightarrow> addr \<Rightarrow> addr \<Rightarrow> addr option" where
  "strstr m s1 s2 = do {
     n2 \<leftarrow> strlen m s2;
     let l2 = sint n2;
     if l2 = 0 then Some s1
     else do {
       n1 \<leftarrow> strlen m s1;
       Some (strstr_loop m s1 s2 (sint n1) l2) } }"

lemmas cstring_loops =
  strcpy_loop.simps seek_nul.simps strcmp.simps strchr_loop.simps strrchr_loop.simps
  strspn_inner.simps strspn_loop.simps strpbrk_inner.simps strpbrk.simps

section \<open>Block copies\<close>

lemma copy_up_frame [frame]: "x \<notin> region tmp n \<Longrightarrow> copy_up n m tmp s x = m x"
  by (induction n arbitrary: m tmp s) (auto simp: region_Suc)

lemma copy_down_frame [frame]:
  "x \<notin> region tmp n \<Longrightarrow> copy_down n m (tmp + of_nat n) (s + of_nat n) x = m x"
proof (induction n arbitrary: m)
  case (Suc n)
  have "x \<notin> region tmp n" "x \<noteq> tmp + of_nat n"
    using Suc.prems region_mono [of n "Suc n" tmp] by auto
  then show ?case using Suc.IH by (simp add: algebra_simps)
qed simp

text \<open>
  A forward copy is right where no cell is overwritten before it is read; a backward copy where
  none is, counting from the other end.
\<close>

definition up_safe :: "addr \<Rightarrow> addr \<Rightarrow> nat \<Rightarrow> bool" where
  "up_safe dest src n \<longleftrightarrow>
     n \<le> 2 ^ 32 \<and> (\<forall>j i. j < i \<longrightarrow> i < n \<longrightarrow> dest + of_nat j \<noteq> src + of_nat i)"

definition down_safe :: "addr \<Rightarrow> addr \<Rightarrow> nat \<Rightarrow> bool" where
  "down_safe dest src n \<longleftrightarrow>
     n \<le> 2 ^ 32 \<and> (\<forall>j i. i < j \<longrightarrow> j < n \<longrightarrow> dest + of_nat j \<noteq> src + of_nat i)"

lemma up_safe_Suc: "up_safe dest src (Suc n) \<Longrightarrow> up_safe (dest + 1) (src + 1) n"
proof -
  assume h: "up_safe dest src (Suc n)"
  have "dest + 1 + of_nat j \<noteq> src + 1 + of_nat i" if "j < i" "i < n" for i j
  proof -
    have "dest + of_nat (Suc j) \<noteq> src + of_nat (Suc i)"
      using h that unfolding up_safe_def by blast
    then show ?thesis by (simp add: add.assoc)
  qed
  with h show ?thesis by (simp add: up_safe_def)
qed

lemma up_safe_first: "up_safe dest src (Suc n) \<Longrightarrow> i < n \<Longrightarrow> dest \<noteq> src + 1 + of_nat i"
proof -
  assume "up_safe dest src (Suc n)" "i < n"
  then have "dest + of_nat 0 \<noteq> src + of_nat (Suc i)"
    unfolding up_safe_def by blast
  then show ?thesis by (simp add: add.assoc)
qed

lemma copy_up_moves:
  "up_safe dest src n \<Longrightarrow> i < n \<Longrightarrow> copy_up n m dest src (dest + of_nat i) = m (src + of_nat i)"
proof (induction n arbitrary: m dest src i)
  case (Suc n)
  let ?m = "m(dest := m src)"
  show ?case
  proof (cases i)
    case 0
    have "dest \<notin> region (dest + 1) n"
      using Suc.prems(1) by (intro start_notin_region_Suc) (simp add: up_safe_def)
    then show ?thesis using 0 by (simp add: copy_up_frame)
  next
    case (Suc k)
    with Suc.prems have "copy_up n ?m (dest + 1) (src + 1) (dest + 1 + of_nat k)
        = ?m (src + 1 + of_nat k)"
      by (intro Suc.IH up_safe_Suc) auto
    moreover have "dest \<noteq> src + 1 + of_nat k"
      using Suc Suc.prems by (intro up_safe_first) auto
    ultimately show ?thesis using Suc by (simp add: add.assoc)
  qed
qed simp

lemma copy_down_moves:
  "down_safe dest src n \<Longrightarrow> i < n \<Longrightarrow>
   copy_down n m (dest + of_nat n) (src + of_nat n) (dest + of_nat i) = m (src + of_nat i)"
proof (induction n arbitrary: m i)
  case (Suc n)
  let ?m = "m(dest + of_nat n := m (src + of_nat n))"
  have step: "copy_down (Suc n) m (dest + of_nat (Suc n)) (src + of_nat (Suc n))
      = copy_down n ?m (dest + of_nat n) (src + of_nat n)"
    by (simp add: algebra_simps)
  show ?case
  proof (cases "i = n")
    case True
    have "n < 2 ^ 32" using Suc.prems(1) by (simp add: down_safe_def)
    then have "dest + of_nat n \<notin> region dest n"
      by (rule end_notin_region)
    then show ?thesis using True step by (simp add: copy_down_frame)
  next
    case False
    with Suc.prems have "down_safe dest src n" "i < n" "dest + of_nat n \<noteq> src + of_nat i"
      by (auto simp: down_safe_def)
    then have "copy_down n ?m (dest + of_nat n) (src + of_nat n) (dest + of_nat i)
        = ?m (src + of_nat i)"
      by (intro Suc.IH)
    also have "\<dots> = m (src + of_nat i)"
      using \<open>dest + of_nat n \<noteq> src + of_nat i\<close> by simp
    finally show ?thesis by (simp only: step)
  qed
qed simp

lemma up_safe_disjoint:
  assumes "region dest n \<inter> region src n = {}" "n \<le> 2 ^ 32"
  shows "up_safe dest src n"
  unfolding up_safe_def
proof (intro conjI allI impI)
  fix j i :: nat assume "j < i" "i < n"
  then have "dest + of_nat j \<in> region dest n" "src + of_nat i \<in> region src n" by auto
  with assms(1) show "dest + of_nat j \<noteq> src + of_nat i" by auto
qed (fact assms(2))

text \<open>Two blocks that do not wrap around the address space.\<close>

definition no_wrap :: "addr \<Rightarrow> nat \<Rightarrow> bool" where
  "no_wrap a n \<longleftrightarrow> unat a + n < 2 ^ 32"

lemma no_wrap_unat: "no_wrap a n \<Longrightarrow> i < n \<Longrightarrow> unat (a + of_nat i) = unat a + i"
  by (rule unat_offset) (simp add: no_wrap_def)

lemma up_safe_below:
  assumes "dest \<le> src" "no_wrap dest n" "no_wrap src n"
  shows "up_safe dest src n"
  unfolding up_safe_def
proof (intro conjI allI impI notI)
  show "n \<le> 2 ^ 32" using assms(2) by (simp add: no_wrap_def)
  fix j i :: nat assume "j < i" "i < n" "dest + of_nat j = src + of_nat i"
  then have "unat dest + j = unat src + i"
    using no_wrap_unat [OF assms(2), of j] no_wrap_unat [OF assms(3), of i] by simp
  with \<open>j < i\<close> assms(1) show False by (simp add: word_le_nat_alt)
qed

lemma down_safe_above:
  assumes "src < dest" "no_wrap dest n" "no_wrap src n"
  shows "down_safe dest src n"
  unfolding down_safe_def
proof (intro conjI allI impI notI)
  show "n \<le> 2 ^ 32" using assms(2) by (simp add: no_wrap_def)
  fix j i :: nat assume "i < j" "j < n" "dest + of_nat j = src + of_nat i"
  then have "unat dest + j = unat src + i"
    using no_wrap_unat [OF assms(2), of j] no_wrap_unat [OF assms(3), of i] by simp
  with \<open>i < j\<close> assms(1) show False by (simp add: word_less_nat_alt)
qed

text \<open>What a caller of a block copy relies on.\<close>

locale block_copy =
  fixes copy :: "mem \<Rightarrow> addr \<Rightarrow> addr \<Rightarrow> u32 \<Rightarrow> mem"
    and ok :: "addr \<Rightarrow> addr \<Rightarrow> u32 \<Rightarrow> bool"
  assumes moves: "ok dest src n \<Longrightarrow> i < unat n \<Longrightarrow>
      copy m dest src n (dest + of_nat i) = m (src + of_nat i)"
    and outside: "x \<notin> region dest (unat n) \<Longrightarrow> copy m dest src n x = m x"
begin

lemma block_moved:
  "ok dest src n \<Longrightarrow> bytes_at (copy m dest src n) dest (unat n) = bytes_at m src (unat n)"
  by (rule bytes_at_eqI) (rule moves)

lemma string_moved:
  "ok dest src n \<Longrightarrow> cstr m src s \<Longrightarrow> unat n = Suc (length s) \<Longrightarrow> cstr (copy m dest src n) dest s"
  using block_moved [of dest src n m] by (simp add: cstr_bytes)

lemma string_kept:
  "cstr m a s \<Longrightarrow> region a (Suc (length s)) \<inter> region dest (unat n) = {} \<Longrightarrow>
   cstr (copy m dest src n) a s"
  by (erule cstr_frame) (auto intro: outside)

end

interpretation memcpy: block_copy "\<lambda>m dest src n. fst (memcpy m dest src n)"
    "\<lambda>dest src n. up_safe dest src (unat n)"
  by unfold_locales (simp_all add: memcpy_def copy_up_moves copy_up_frame)

lemma memmove_moves:
  assumes "no_wrap dest (unat n)" "no_wrap src (unat n)" "i < unat n"
  shows "fst (memmove m dest src n) (dest + of_nat i) = m (src + of_nat i)"
proof (cases "dest \<le> src")
  case True
  then show ?thesis using assms by (simp add: memmove_def copy_up_moves up_safe_below)
next
  case False
  then have "down_safe dest src (unat n)" using assms by (intro down_safe_above) auto
  from copy_down_moves [OF this assms(3)] False show ?thesis
    by (simp add: memmove_def)
qed

lemma memmove_outside:
  assumes "x \<notin> region dest (unat n)"
  shows "fst (memmove m dest src n) x = m x"
  using assms copy_down_frame [OF assms, of m src] by (simp add: memmove_def copy_up_frame)

interpretation memmove: block_copy "\<lambda>m dest src n. fst (memmove m dest src n)"
    "\<lambda>dest src n. no_wrap dest (unat n) \<and> no_wrap src (unat n)"
  by unfold_locales (auto simp: memmove_moves memmove_outside)

section \<open>Strings: what the loops compute\<close>

lemma cstr_length: "cstr m a s \<Longrightarrow> length s < 2 ^ 32"
proof (rule ccontr)
  assume s: "cstr m a s" and "\<not> length s < 2 ^ 32"
  then obtain k where k: "length s = 2 ^ 32 + k" by (metis le_Suc_ex not_less)
  have "(of_nat (2 ^ 32) :: addr) = 0" by simp
  then have "a + of_nat (length s) = a + of_nat k" by (simp add: k)
  with cstr_end [OF s] have "m (a + of_nat k) = 0" by metis
  moreover have "k < length s" by (simp add: k)
  ultimately have "s ! k = 0" using cstr_nth [OF s, of k] by simp
  with \<open>k < length s\<close> cstr_nonzero [OF s] show False by (metis nth_mem)
qed

lemma seek_nul_cstr: "cstr m a s \<Longrightarrow> seek_nul m a = Some (a + of_nat (length s))"
  by (induction m a s rule: cstr.induct) (auto simp: seek_nul.simps add.assoc)

lemma strlen_cstr: "cstr m a s \<Longrightarrow> strlen m a = Some (of_nat (length s))"
  by (simp add: strlen_def seek_nul_cstr)

lemma strnlen_loop_cstr:
  "cstr m a s \<Longrightarrow> strnlen_loop n m a = a + of_nat (min n (length s))"
  by (induction m a s arbitrary: n rule: cstr.induct; case_tac n) (auto simp: add.assoc)

lemma strnlen_cstr: "cstr m a s \<Longrightarrow> strnlen m a n = of_nat (min (unat n) (length s))"
  by (simp add: strnlen_def strnlen_loop_cstr)

lemma strcpy_loop_copy:
  "cstr m src s \<Longrightarrow> region dest (Suc (length s)) \<inter> region src (Suc (length s)) = {} \<Longrightarrow>
   strcpy_loop m dest src = Some (copy_up (Suc (length s)) m dest src)"
proof (induction s arbitrary: m dest src)
  case Nil
  then show ?case by (subst strcpy_loop.simps) (simp add: Let_def fun_eq_iff)
next
  case (Cons c s)
  let ?m = "m(dest := c)"
  have "cstr ?m (src + 1) s"
    by (rule cstr_frame [of m]) (use Cons.prems in \<open>auto simp: region_Suc\<close>)
  moreover have "region (dest + 1) (Suc (length s)) \<inter> region (src + 1) (Suc (length s)) = {}"
    using Cons.prems(2) by (auto simp: region_Suc)
  ultimately have "strcpy_loop ?m (dest + 1) (src + 1)
      = Some (copy_up (Suc (length s)) ?m (dest + 1) (src + 1))"
    by (rule Cons.IH)
  with Cons.prems(1) show ?case
    by (subst strcpy_loop.simps) (simp add: Let_def del: fun_upd_apply)
qed

text \<open>The comparison of two strings as byte lists, with the code's \<^verbatim>\<open>signed char\<close> result.\<close>

fun char_cmp :: "byte list \<Rightarrow> byte list \<Rightarrow> int" where
  "char_cmp [] [] = 0"
| "char_cmp [] (d # t) = sint (- d)"
| "char_cmp (c # s) [] = sint c"
| "char_cmp (c # s) (d # t) = (if c = d then char_cmp s t else sint (c - d))"

lemma strcmp_cstr: "cstr m a s \<Longrightarrow> cstr m b t \<Longrightarrow> strcmp m a b = Some (char_cmp s t)"
  by (induction s t arbitrary: a b rule: char_cmp.induct) (auto simp: strcmp.simps Let_def)

lemma sint_eq_0: "(sint (w :: byte) = 0) = (w = 0)"
  by (metis signed_eq_0_iff)

lemma char_cmp_0: "0 \<notin> set s \<Longrightarrow> 0 \<notin> set t \<Longrightarrow> (char_cmp s t = 0) = (s = t)"
  by (induction s t rule: char_cmp.induct) (auto simp: sint_eq_0)

lemma strncmp_loop_cstr:
  "cstr m a s \<Longrightarrow> cstr m b t \<Longrightarrow> strncmp_loop n m a b = char_cmp (take n s) (take n t)"
  by (induction s t arbitrary: a b n rule: char_cmp.induct; case_tac n) (auto simp: Let_def)

lemma strncmp_cstr:
  "cstr m a s \<Longrightarrow> cstr m b t \<Longrightarrow> strncmp m a b n = char_cmp (take (unat n) s) (take (unat n) t)"
  by (simp add: strncmp_def strncmp_loop_cstr)

lemma strspn_inner_cstr:
  "cstr m a acc \<Longrightarrow> c \<noteq> 0 \<Longrightarrow>
   \<exists>p. strspn_inner m c a = Some p \<and> (m p = 0 \<longleftrightarrow> c \<notin> set acc)"
  by (induction m a acc rule: cstr.induct) (auto simp: strspn_inner.simps)

lemma strspn_loop_cstr:
  "cstr m p s \<Longrightarrow> cstr m accept acc \<Longrightarrow>
   strspn_loop m p accept k = Some (k + of_nat (length (takeWhile (\<lambda>c. c \<in> set acc) s)))"
proof (induction m p s arbitrary: k rule: cstr.induct)
  case (1 m a)
  then show ?case by (simp add: strspn_loop.simps)
next
  case (2 m a c s)
  then obtain p where "strspn_inner m c accept = Some p" "m p = 0 \<longleftrightarrow> c \<notin> set acc"
    using strspn_inner_cstr [of m accept acc c] by auto
  with 2 show ?case by (subst strspn_loop.simps) (auto simp: ac_simps)
qed

lemma strpbrk_inner_cstr: "cstr m a acc \<Longrightarrow> strpbrk_inner m c a = Some (c \<in> set acc)"
  by (induction m a acc rule: cstr.induct) (auto simp: strpbrk_inner.simps)

lemma strpbrk_cstr:
  "cstr m p s \<Longrightarrow> cstr m ct acc \<Longrightarrow>
   strpbrk m p ct = Some (let n = length (takeWhile (\<lambda>c. c \<notin> set acc) s)
                          in if n < length s then p + of_nat n else 0)"
proof (induction m p s rule: cstr.induct)
  case (1 m a)
  then show ?case by (simp add: strpbrk.simps)
next
  case (2 m a c s)
  then show ?case
    by (subst strpbrk.simps) (auto simp: strpbrk_inner_cstr [OF "2.prems"(2)] Let_def add.assoc)
qed

lemma strchr_loop_cstr:
  "cstr m a s \<Longrightarrow>
   strchr_loop m a c = Some (let n = length (takeWhile (\<lambda>x. x \<noteq> c) s)
                             in if n < length s \<or> c = 0 then a + of_nat n else 0)"
  by (induction m a s rule: cstr.induct) (auto simp: strchr_loop.simps Let_def add.assoc)

lemma memcmp_loop_0: "(memcmp_loop n m a b = 0) = (bytes_at m a n = bytes_at m b n)"
  by (induction n arbitrary: a b) (auto simp: bytes_at_Suc Let_def sint_eq_0)

text \<open>The least position at which the string \<open>nd\<close> stands in \<open>h\<close>.\<close>

definition occurs_at :: "byte list \<Rightarrow> byte list \<Rightarrow> nat \<Rightarrow> bool" where
  "occurs_at nd h i \<longleftrightarrow> take (length nd) (drop i h) = nd"

lemma occurs_at_Suc: "occurs_at nd (c # h) (Suc i) = occurs_at nd h i"
  by (simp add: occurs_at_def)

lemma occurs_at_short: "nd \<noteq> [] \<Longrightarrow> length h < length nd \<Longrightarrow> \<not> occurs_at nd h i"
  by (auto simp: occurs_at_def dest!: arg_cong [of _ _ length])

lemma occurs_at_Cons:
  assumes "\<not> occurs_at nd (c # h) 0"
  shows "(\<exists>i. occurs_at nd (c # h) i) = (\<exists>i. occurs_at nd h i)"
    and "\<exists>i. occurs_at nd h i \<Longrightarrow>
      (LEAST i. occurs_at nd (c # h) i) = Suc (LEAST i. occurs_at nd h i)"
proof -
  show "(\<exists>i. occurs_at nd (c # h) i) = (\<exists>i. occurs_at nd h i)"
    using assms by (metis occurs_at_Suc old.nat.exhaust)
  assume "\<exists>i. occurs_at nd h i"
  then obtain i where "occurs_at nd (c # h) (Suc i)" by (auto simp: occurs_at_Suc)
  from Least_Suc [of "occurs_at nd (c # h)", OF this] assms
  show "(LEAST i. occurs_at nd (c # h) i) = Suc (LEAST i. occurs_at nd h i)"
    by (simp add: occurs_at_Suc)
qed

lemma memcmp_prefix:
  assumes "cstr m s1 h" "cstr m s2 nd" "length nd \<le> length h"
  shows "(memcmp m s1 s2 (of_nat (length nd)) = 0) = occurs_at nd h 0"
proof -
  have "length nd < 2 ^ 32" using assms(2) by (rule cstr_length)
  then have "unat (of_nat (length nd) :: u32) = length nd" by (simp add: unat_of_nat)
  moreover have "bytes_at m s1 (length nd) = take (length nd) h"
    using cstr_nth [OF assms(1)] assms(3) by (auto intro!: nth_equalityI)
  moreover have "bytes_at m s2 (length nd) = nd"
    using cstr_nth [OF assms(2)] by (auto intro!: nth_equalityI)
  ultimately show ?thesis by (simp add: memcmp_def memcmp_loop_0 occurs_at_def)
qed

lemma strstr_loop_cstr:
  assumes "cstr m s2 nd" "nd \<noteq> []"
  shows "cstr m s1 h \<Longrightarrow> strstr_loop m s1 s2 (int (length h)) (int (length nd)) =
     (if \<exists>i. occurs_at nd h i then s1 + of_nat (LEAST i. occurs_at nd h i) else 0)"
proof (induction h arbitrary: s1)
  case Nil
  then show ?case
    using assms occurs_at_short [of nd "[]"] by (auto simp: strstr_loop.simps)
next
  case (Cons c h)
  have IH: "strstr_loop m (s1 + 1) s2 (int (length h)) (int (length nd)) =
     (if \<exists>i. occurs_at nd h i then s1 + 1 + of_nat (LEAST i. occurs_at nd h i) else 0)"
    using Cons by simp
  show ?case
  proof (cases "length nd \<le> length (c # h)")
    case False
    then show ?thesis
      using assms occurs_at_short [of nd "c # h"] by (subst strstr_loop.simps) auto
  next
    case len: True
    have cmp: "(memcmp m s1 s2 (of_nat (length nd)) = 0) = occurs_at nd (c # h) 0"
      using memcmp_prefix Cons.prems assms(1) len by blast
    show ?thesis
    proof (cases "occurs_at nd (c # h) 0")
      case True
      then have "(LEAST i. occurs_at nd (c # h) i) = 0" by (simp add: Least_eq_0)
      with True cmp len show ?thesis by (subst strstr_loop.simps) auto
    next
      case False
      with cmp len have "strstr_loop m s1 s2 (int (length (c # h))) (int (length nd))
          = strstr_loop m (s1 + 1) s2 (int (length h)) (int (length nd))"
        by (subst strstr_loop.simps) simp
      with IH occurs_at_Cons [OF False] show ?thesis by (auto simp: add.assoc)
    qed
  qed
qed

lemma sint_small: "n < 2 ^ 31 \<Longrightarrow> sint (of_nat n :: u32) = int n"
  by (simp add: signed_of_nat signed_take_bit_int_eq_self)

lemma sint_diff_neg:
  "(x :: byte) \<noteq> y \<Longrightarrow> sint (x - y) < 0 \<longleftrightarrow>
   (if unat x < unat y then unat y - unat x \<le> 128 else 128 \<le> unat x - unat y)"
proof -
  have "unat x < 256" "unat y < 256" by (rule unat_byte_less)+
  moreover assume "x \<noteq> y"
  then have "unat x \<noteq> unat y" by (simp add: word_unat_eq_iff)
  ultimately show ?thesis by (auto simp: sint_byte_neg unat_byte_diff)
qed

lemma memcmp_loop_first:
  "i < n \<Longrightarrow> bytes_at m a i = bytes_at m b i \<Longrightarrow> m (a + of_nat i) \<noteq> m (b + of_nat i) \<Longrightarrow>
   memcmp_loop n m a b < 0 \<longleftrightarrow>
    (let x = unat (m (a + of_nat i)); y = unat (m (b + of_nat i))
     in if x < y then y - x \<le> 128 else 128 \<le> x - y)"
proof (induction n arbitrary: a b i)
  case (Suc n)
  show ?case
  proof (cases i)
    case 0
    with Suc.prems show ?thesis using sint_diff_neg [of "m a" "m b"] by (simp add: Let_def)
  next
    case (Suc k)
    with Suc.prems Suc.IH [of k "a + 1" "b + 1"] show ?thesis
      by (simp add: bytes_at_Suc Let_def add.assoc)
  qed
qed simp

text \<open>The three parts of the string \<open>strtok\<close> walks over.\<close>

lemma cstr_prefix_cut:
  assumes "cstr m a (s @ t)" "length (s @ t) < 2 ^ 32"
  shows "cstr (m(a + of_nat (length s) := 0)) a s"
proof -
  have "cstr (m(a + of_nat (length s) := 0)) a s"
    if "bytes_at m a (length s) = s" "0 \<notin> set s"
  proof -
    have "bytes_at (m(a + of_nat (length s) := 0)) a (Suc (length s)) = s @ [0]"
    proof (rule nth_equalityI)
      fix i assume "i < length (bytes_at (m(a + of_nat (length s) := 0)) a (Suc (length s)))"
      then have i: "i < Suc (length s)" by simp
      show "bytes_at (m(a + of_nat (length s) := 0)) a (Suc (length s)) ! i = (s @ [0]) ! i"
      proof (cases "i = length s")
        case False
        then have "i < length s" using i by simp
        moreover from this have "a + of_nat i \<noteq> a + of_nat (length s)"
          using of_nat_word_inj [of i "length s" a] assms(2) by simp
        moreover have "m (a + of_nat i) = s ! i"
          using \<open>i < length s\<close> that(1) by (metis nth_bytes_at)
        ultimately show ?thesis using i by (simp add: nth_append)
      qed (use i in simp)
    qed simp
    with that(2) show ?thesis by (simp add: cstr_bytes)
  qed
  moreover have "bytes_at m a (length s) = s"
    using cstr_nth [OF assms(1)] by (auto intro!: nth_equalityI simp: nth_append)
  ultimately show ?thesis using cstr_nonzero [OF assms(1)] by simp
qed

section \<open>Properties\<close>

text \<open>
  C3: \<open>memmove\<close> moves the block whatever the overlap: where neither block wraps around the
  address space, the destination holds what the source held before, nothing outside the
  destination changes, and the destination is returned.
\<close>

theorem memmove_moves_block:
  assumes "no_wrap dest (unat n)" "no_wrap src (unat n)"
  shows "bytes_at (fst (memmove m dest src n)) dest (unat n) = bytes_at m src (unat n)
    \<and> (\<forall>x. x \<notin> region dest (unat n) \<longrightarrow> fst (memmove m dest src n) x = m x)
    \<and> snd (memmove m dest src n) = dest"
  using assms memmove.block_moved memmove.outside by (auto simp: memmove_def)

lemma memmove_moves_block_witness:
  "bytes_at (fst (memmove (store_bytes zero_mem 100 [1, 2, 3, 4]) 102 100 4)) 102 (unat (4 :: u32))
     = bytes_at (store_bytes zero_mem 100 [1, 2, 3, 4]) 100 (unat (4 :: u32))"
  using memmove_moves_block [of 102 4 100 "store_bytes zero_mem 100 [1, 2, 3, 4]"]
  by (simp add: no_wrap_def)

text \<open>
  \<open>strcpy\<close> returns, and the destination then holds the source string with its NUL, where the
  two ranges are disjoint; nothing outside the \<open>length s + 1\<close> bytes of the destination changes.
\<close>

theorem strcpy_copies_string:
  assumes "cstr m src s" "region dest (Suc (length s)) \<inter> region src (Suc (length s)) = {}"
  shows "\<exists>m'. strcpy m dest src = Some (m', dest) \<and> cstr m' dest s \<and> cstr m' src s
    \<and> (\<forall>x. x \<notin> region dest (Suc (length s)) \<longrightarrow> m' x = m x)"
proof -
  let ?n = "Suc (length s)"
  have n: "?n \<le> 2 ^ 32" using cstr_length [OF assms(1)] by simp
  have "up_safe dest src ?n" using assms(2) n by (rule up_safe_disjoint)
  then have "bytes_at (copy_up ?n m dest src) dest ?n = bytes_at m src ?n"
    by (intro bytes_at_eqI copy_up_moves)
  then have "cstr (copy_up ?n m dest src) dest s" using assms(1) unfolding cstr_bytes by simp
  moreover have "cstr (copy_up ?n m dest src) src s"
    by (rule cstr_frame [OF assms(1)], rule copy_up_frame) (use assms(2) in blast)
  ultimately show ?thesis
    using strcpy_loop_copy [OF assms] copy_up_frame
    by (auto simp: strcpy_def simp del: copy_up.simps)
qed

lemma strcpy_copies_string_witness:
  "\<exists>m'. strcpy (store_bytes zero_mem 100 [65, 66]) 200 100 = Some (m', 200)
     \<and> cstr m' 200 [65, 66]"
  using strcpy_copies_string [of "store_bytes zero_mem 100 [65, 66]" 100 "[65, 66]" 200]
    region_disjoint [of 200 3 100 3]
  by (auto simp: numeral_3_eq_3)

text \<open>
  \<open>strcmp\<close> of two strings returns, and returns 0 exactly when they are equal.
\<close>

theorem strcmp_decides_equality:
  assumes "cstr m a s" "cstr m b t"
  shows "\<exists>r. strcmp m a b = Some r \<and> (r = 0 \<longleftrightarrow> s = t)"
  using strcmp_cstr [OF assms] char_cmp_0 [of s t] cstr_nonzero assms by auto

lemma strcmp_decides_equality_witness:
  "\<exists>r. strcmp (store_bytes (store_bytes zero_mem 100 [65, 66]) 200 [65, 67]) 100 200 = Some r
     \<and> (r = 0 \<longleftrightarrow> [65, 66] = [65, 67 :: byte])"
  by (rule strcmp_decides_equality) simp_all

text \<open>
  the order \<open>memcmp\<close> reports is not that of unsigned bytes: the difference of the first
  unequal bytes goes through a \<^verbatim>\<open>signed char\<close>, so where it is 128 or more in absolute
  value the sign is the opposite.
\<close>

theorem memcmp_sign_of_difference:
  assumes "i < unat n" "bytes_at m a i = bytes_at m b i"
    "m (a + of_nat i) \<noteq> m (b + of_nat i)"
  shows "memcmp m a b n < 0 \<longleftrightarrow>
    (let x = unat (m (a + of_nat i)); y = unat (m (b + of_nat i))
     in if x < y then y - x \<le> 128 else 128 \<le> x - y)"
  using memcmp_loop_first [OF assms] by (simp add: memcmp_def)

lemma memcmp_sign_of_difference_witness:
  "memcmp (store_bytes zero_mem 100 [255, 1]) 100 101 1 < 0"
  using memcmp_sign_of_difference [of 0 1 "store_bytes zero_mem 100 [255, 1]" 100 101]
  by simp

text \<open>
  \<open>strstr\<close> finds the first place where the second string stands in the first, and returns
  NULL where there is none.
\<close>

theorem strstr_finds_first:
  assumes "cstr m s1 h" "cstr m s2 nd" "nd \<noteq> []" "length h < 2 ^ 31" "length nd < 2 ^ 31"
  shows "strstr m s1 s2 =
    Some (if \<exists>i. occurs_at nd h i then s1 + of_nat (LEAST i. occurs_at nd h i) else 0)"
  using strstr_loop_cstr [OF assms(2,3,1)] assms
  by (simp add: strstr_def strlen_cstr sint_small)

lemma strstr_finds_first_witness:
  "strstr (store_bytes (store_bytes zero_mem 100 [97, 98, 99]) 200 [98, 99]) 100 200 = Some 101"
proof -
  have "occurs_at [98, 99] [97, 98, 99 :: byte] 1" "\<not> occurs_at [98, 99] [97, 98, 99 :: byte] 0"
    by (simp_all add: occurs_at_def)
  then have "(LEAST i. occurs_at [98, 99] [97, 98, 99 :: byte] i) = 1"
    by (intro Least_equality) (metis gr_zeroI less_one linorder_not_le)+
  then show ?thesis
    using strstr_finds_first
      [of "store_bytes (store_bytes zero_mem 100 [97, 98, 99]) 200 [98, 99]" 100 "[97, 98, 99]"
        200 "[98, 99]"] \<open>occurs_at _ _ 1\<close> by auto
qed

text \<open>
  one call of \<open>strtok\<close>: it skips the separators at the front, returns the token that follows,
  cuts it off with a NUL over its separator and remembers where the rest begins; where no
  separator follows, the next call will have nothing.
\<close>

theorem strtok_next_token:
  assumes str: "cstr m s (pre @ tok @ rest)" and ct: "cstr m ct seps" and "s \<noteq> 0"
    and sets: "set pre \<subseteq> set seps" "set tok \<inter> set seps = {}" "tok \<noteq> []"
      "rest = [] \<or> hd rest \<in> set seps"
    and room: "no_wrap s (Suc (length (pre @ tok @ rest)))"
  shows "\<exists>r. strtok m saved s ct = Some r \<and> tok_ret r = s + of_nat (length pre)
    \<and> cstr (tok_mem r) (tok_ret r) tok
    \<and> (if rest = [] then tok_saved r = 0
       else tok_saved r = tok_ret r + of_nat (length tok) + 1
         \<and> cstr (tok_mem r) (tok_saved r) (tl rest))"
proof -
  let ?b = "s + of_nat (length pre)"
  have tokrest: "cstr m ?b (tok @ rest)" using cstr_drop [OF str, of "length pre"] by simp
  have "takeWhile (\<lambda>c. c \<in> set seps) (pre @ tok @ rest) = pre"
    using sets(1-3) by (induction pre) (cases tok; auto)+
  then have spn: "strspn m s ct = Some (of_nat (length pre))"
    using strspn_loop_cstr [OF str ct, of 0] by (simp add: strspn_def)
  have tw: "takeWhile (\<lambda>c. c \<notin> set seps) (tok @ rest) = tok"
    using sets(2,4) by (induction tok) (cases rest; auto)+
  have pbrk: "strpbrk m ?b ct = Some (if rest = [] then 0 else ?b + of_nat (length tok))"
    using strpbrk_cstr [OF tokrest ct] by (simp add: tw Let_def)
  have nz: "m ?b \<noteq> 0" using tokrest sets(3) by (cases tok) auto
  show ?thesis
  proof (cases rest)
    case Nil
    with tokrest \<open>s \<noteq> 0\<close> spn pbrk nz show ?thesis by (simp add: strtok_def Let_def)
  next
    case (Cons c rest')
    let ?e = "?b + of_nat (length tok)"
    have e: "cstr m ?e (c # rest')"
      using cstr_drop [OF tokrest, of "length tok"] Cons by simp
    have u: "unat ?e = unat s + (length pre + length tok)"
      using room Cons by (simp add: no_wrap_def unat_offset add.assoc flip: of_nat_add)
    then have "?e \<noteq> 0" using sets(3) by (auto simp: unat_eq_zero)
    moreover have "cstr (m(?e := 0)) ?b tok"
      using cstr_prefix_cut [OF tokrest] cstr_length [OF tokrest] by simp
    moreover have "cstr (m(?e := 0)) (?e + 1) rest'"
    proof (rule cstr_frame)
      show "cstr m (?e + 1) rest'" using e by simp
      have "Suc (length rest') < 2 ^ 32" using cstr_length [OF e] by simp
      then have "?e \<notin> region (?e + 1) (Suc (length rest'))" by (rule start_notin_region_Suc)
      then show "(m(?e := 0)) x = m x" if "x \<in> region (?e + 1) (Suc (length rest'))" for x
        using that by auto
    qed
    ultimately show ?thesis using \<open>s \<noteq> 0\<close> spn pbrk nz e Cons
      by (simp add: strtok_def Let_def)
  qed
qed

lemma strtok_next_token_witness:
  "\<exists>r. strtok (store_bytes (store_bytes zero_mem 100 [32, 97, 32, 98]) 200 [32]) 0 100 200 = Some r
    \<and> tok_ret r = 101 \<and> cstr (tok_mem r) 101 [97] \<and> tok_saved r = 103"
  using strtok_next_token
    [of "store_bytes (store_bytes zero_mem 100 [32, 97, 32, 98]) 200 [32]" 100 "[32]" "[97]"
      "[32, 98]" 200 "[32]" 0]
  by (auto simp: no_wrap_def)

text \<open>Loops that go up to the next cell with a property: they end when there is one anywhere.\<close>

lemma ends_upward:
  fixes f :: "addr \<Rightarrow> 'b option"
  assumes step: "\<And>p. f p = (if P p then Some (g p) else f (p + 1))" and x: "P x"
  shows "\<exists>y. f p = Some y"
proof (induction "unat (x - p)" arbitrary: p)
  case 0
  then have "x = p" by (simp add: unat_eq_zero)
  then show ?case using x by (subst step) simp
next
  case (Suc n)
  then have "x - p \<noteq> 0" by auto
  then have "unat (x - p - 1) = n" using Suc.hyps(2) by (simp add: unat_minus_one)
  then have "\<exists>y. f (p + 1) = Some y" by (intro Suc.hyps(1)) (simp add: diff_diff_eq)
  then show ?case by (subst step) auto
qed

lemma seek_nul_nul: "seek_nul m p = Some y \<Longrightarrow> m y = 0"
  by (erule seek_nul.raw_induct [where P = "\<lambda>m p y. m y = 0", rotated]) (auto split: if_splits)

lemma strchr_loop_found: "strchr_loop m p c = Some y \<Longrightarrow> \<exists>x. m x = 0 \<or> m x = c"
  by (erule strchr_loop.raw_induct [where P = "\<lambda>m p c y. \<exists>x. m x = 0 \<or> m x = c", rotated])
    (auto split: if_splits)

text \<open>
  C40: when the searches end.  \<open>strlen\<close> returns exactly when there is a NUL anywhere in the address
  space, \<open>strchr\<close> exactly when there is a NUL or the character: the pointers wrap around, so
  either is found from every start, and where there is none the loop never ends.
\<close>

theorem searches_terminate:
  "(\<exists>k. strlen m a = Some k) = (\<exists>x. m x = 0)
   \<and> (\<exists>p. strchr m a c = Some p) = (\<exists>x. m x = 0 \<or> m x = ucast c)"
proof
  have "\<exists>y. seek_nul m a = Some y" if "m x = 0" for x
    by (rule ends_upward [of "seek_nul m" "\<lambda>p. m p = 0" "\<lambda>p. p" x, OF _ that])
      (subst seek_nul.simps, simp)
  then show "(\<exists>k. strlen m a = Some k) = (\<exists>x. m x = 0)"
    by (force simp: strlen_def bind_eq_Some_conv dest: seek_nul_nul)
  have "\<exists>y. strchr_loop m a (ucast c) = Some y" if "m x = 0 \<or> m x = ucast c" for x
    by (rule ends_upward [of "\<lambda>p. strchr_loop m p (ucast c)" "\<lambda>p. m p = 0 \<or> m p = ucast c"
          "\<lambda>p. if m p = ucast c then p else 0" x, OF _ that]) (subst strchr_loop.simps, simp)
  then show "(\<exists>p. strchr m a c = Some p) = (\<exists>x. m x = 0 \<or> m x = ucast c)"
    by (auto simp: strchr_def dest: strchr_loop_found)
qed

end
