(* ===== verification/CmdTable.thy ===== *)
theory CmdTable
  imports Console CString
begin

text \<open>
  The command table: the entries of \<^verbatim>\<open>include/cmd_*.h\<close> in the order of \<^verbatim>\<open>common/command.c\<close>
  for a board with the default command set (\<open>CONFIG_CMD_DFL\<close> of \<^verbatim>\<open>include/cmd_confdefs.h\<close>, long help
  on), and the search for a command in it.  Of the commands outside the default set, \<open>askenv\<close> and
  \<open>echo\<close> are modelled as well and can be put into a table.
\<close>

section \<open>Entries\<close>

text \<open>The functions the entries point to.\<close>

datatype cmd_fun =
    Do_bdinfo | Do_go | Do_load_serial | Do_load_serial_bin | Do_reset | Do_bootm | Do_bootd
   | Do_iminfo | Do_bootp | Do_tftpb | Do_rarpb | Do_autoscript | Do_mem_md | Do_mem_mm
   | Do_mem_nm | Do_mem_mw | Do_mem_cp | Do_mem_cmp | Do_mem_crc | Do_mem_base | Do_mem_loop
   | Do_mem_mtest | Do_printenv | Do_setenv | Do_askenv | Do_saveenv | Do_run | Do_protect
   | Do_flerase | Do_flinfo | Do_icache | Do_dcache | Do_sleep | Do_version | Do_echo | Do_help

record cmd_tbl_t =
  cmd_name :: "byte list"
  lmin :: nat
  maxargs :: nat
  repeatable :: nat
  cmd :: cmd_fun
  cmd_usage :: "byte list option"
  cmd_help :: "byte list option"


definition tbl_bdinfo :: cmd_tbl_t where
  "tbl_bdinfo =
     \<lparr>cmd_name = lit ''bdinfo'', lmin = 2, maxargs = 1, repeatable = 1, cmd = Do_bdinfo,
      cmd_usage = Some (lit ''bdinfo  - print Board Info structure\<newline>''),
      cmd_help = None\<rparr>"

definition tbl_go :: cmd_tbl_t where
  "tbl_go =
     \<lparr>cmd_name = lit ''go'', lmin = 2, maxargs = 16, repeatable = 1, cmd = Do_go,
      cmd_usage = Some (lit ''go      - start application at address 'addr'\<newline>''),
      cmd_help = Some (lit (''addr [arg ...]\<newline>'' @
        ''    - start application at address 'addr'\<newline>'' @
        ''      passing 'arg' as arguments\<newline>''))\<rparr>"

definition tbl_loads :: cmd_tbl_t where
  "tbl_loads =
     \<lparr>cmd_name = lit ''loads'', lmin = 5, maxargs = 2, repeatable = 0, cmd = Do_load_serial,
      cmd_usage = Some (lit ''loads   - load S-Record file over serial line\<newline>''),
      cmd_help = Some (lit (''[ off ]\<newline>'' @
        ''    - load S-Record file over serial line with offset 'off'\<newline>''))\<rparr>"

definition tbl_loadb :: cmd_tbl_t where
  "tbl_loadb =
     \<lparr>cmd_name = lit ''loadb'', lmin = 5, maxargs = 3, repeatable = 0, cmd = Do_load_serial_bin,
      cmd_usage = Some (lit ''loadb   - load binary file over serial line (kermit mode)\<newline>''),
      cmd_help = Some (lit (''[ off ] [ baud ]\<newline>'' @
        ''    - load binary file over serial line with offset 'off' and baudrate 'baud'\<newline>''))\<rparr>"

definition tbl_reset :: cmd_tbl_t where
  "tbl_reset =
     \<lparr>cmd_name = lit ''reset'', lmin = 5, maxargs = 1, repeatable = 0, cmd = Do_reset,
      cmd_usage = Some (lit ''reset   - Perform RESET of the CPU\<newline>''),
      cmd_help = None\<rparr>"

definition tbl_bootm :: cmd_tbl_t where
  "tbl_bootm =
     \<lparr>cmd_name = lit ''bootm'', lmin = 5, maxargs = 16, repeatable = 1, cmd = Do_bootm,
      cmd_usage = Some (lit ''bootm   - boot application image from memory\<newline>''),
      cmd_help = Some (lit (''[addr [arg ...]]\<newline>'' @
        ''    - boot application image stored in memory\<newline>'' @
        ''        passing arguments 'arg ...'; when booting a Linux kernel,\<newline>'' @
        ''        'arg' can be the address of an initrd image\<newline>''))\<rparr>"

definition tbl_bootd :: cmd_tbl_t where
  "tbl_bootd =
     \<lparr>cmd_name = lit ''bootd'', lmin = 4, maxargs = 1, repeatable = 1, cmd = Do_bootd,
      cmd_usage = Some (lit ''bootd   - boot default, i.e., run 'bootcmd'\<newline>''),
      cmd_help = None\<rparr>"

definition tbl_iminfo :: cmd_tbl_t where
  "tbl_iminfo =
     \<lparr>cmd_name = lit ''iminfo'', lmin = 3, maxargs = 16, repeatable = 1, cmd = Do_iminfo,
      cmd_usage = Some (lit ''iminfo  - print header information for application image\<newline>''),
      cmd_help = Some (lit (''addr [addr ...]\<newline>'' @
        ''    - print header information for application image starting at\<newline>'' @
        ''      address 'addr' in memory; this includes verification of the\<newline>'' @
        ''      image contents (magic number, header and payload checksums)\<newline>''))\<rparr>"

definition tbl_bootp :: cmd_tbl_t where
  "tbl_bootp =
     \<lparr>cmd_name = lit ''bootp'', lmin = 5, maxargs = 3, repeatable = 1, cmd = Do_bootp,
      cmd_usage = Some (lit ''bootp   - boot image via network using BootP/TFTP protocol\<newline>''),
      cmd_help = Some (lit ''[loadAddress] [bootfilename]\<newline>'')\<rparr>"

definition tbl_tftpboot :: cmd_tbl_t where
  "tbl_tftpboot =
     \<lparr>cmd_name = lit ''tftpboot'', lmin = 4, maxargs = 3, repeatable = 1, cmd = Do_tftpb,
      cmd_usage = Some (lit (''tftpboot- boot image via network using TFTP protocol\<newline>'' @
        ''               and env variables ipaddr and serverip\<newline>'')),
      cmd_help = Some (lit ''[loadAddress] [bootfilename]\<newline>'')\<rparr>"

definition tbl_rarpboot :: cmd_tbl_t where
  "tbl_rarpboot =
     \<lparr>cmd_name = lit ''rarpboot'', lmin = 4, maxargs = 3, repeatable = 1, cmd = Do_rarpb,
      cmd_usage = Some (lit ''rarpboot- boot image via network using RARP/TFTP protocol\<newline>''),
      cmd_help = Some (lit ''[loadAddress] [bootfilename]\<newline>'')\<rparr>"

definition tbl_autoscr :: cmd_tbl_t where
  "tbl_autoscr =
     \<lparr>cmd_name = lit ''autoscr'', lmin = 5, maxargs = 2, repeatable = 0, cmd = Do_autoscript,
      cmd_usage = Some (lit ''autoscr - run script from memory\<newline>''),
      cmd_help = Some (lit ''[addr] - run script starting at addr. A valid autoscr header must be present\<newline>'')\<rparr>"

definition tbl_md :: cmd_tbl_t where
  "tbl_md =
     \<lparr>cmd_name = lit ''md'', lmin = 2, maxargs = 3, repeatable = 1, cmd = Do_mem_md,
      cmd_usage = Some (lit ''md      - memory display\<newline>''),
      cmd_help = Some (lit (''[.b, .w, .l] address [# of objects]\<newline>'' @
        ''    - memory display\<newline>''))\<rparr>"

definition tbl_mm :: cmd_tbl_t where
  "tbl_mm =
     \<lparr>cmd_name = lit ''mm'', lmin = 2, maxargs = 2, repeatable = 1, cmd = Do_mem_mm,
      cmd_usage = Some (lit ''mm      - memory modify (auto-incrementing)\<newline>''),
      cmd_help = Some (lit (''[.b, .w, .l] address\<newline>'' @
        ''    - memory modify, auto increment address\<newline>''))\<rparr>"

definition tbl_nm :: cmd_tbl_t where
  "tbl_nm =
     \<lparr>cmd_name = lit ''nm'', lmin = 2, maxargs = 2, repeatable = 1, cmd = Do_mem_nm,
      cmd_usage = Some (lit ''nm      - memory modify (constant address)\<newline>''),
      cmd_help = Some (lit (''[.b, .w, .l] address\<newline>'' @
        ''    - memory modify, read and keep address\<newline>''))\<rparr>"

definition tbl_mw :: cmd_tbl_t where
  "tbl_mw =
     \<lparr>cmd_name = lit ''mw'', lmin = 2, maxargs = 4, repeatable = 1, cmd = Do_mem_mw,
      cmd_usage = Some (lit ''mw      - memory write (fill)\<newline>''),
      cmd_help = Some (lit (''[.b, .w, .l] address value [count]\<newline>'' @
        ''    - write memory\<newline>''))\<rparr>"

definition tbl_cp :: cmd_tbl_t where
  "tbl_cp =
     \<lparr>cmd_name = lit ''cp'', lmin = 2, maxargs = 4, repeatable = 1, cmd = Do_mem_cp,
      cmd_usage = Some (lit ''cp      - memory copy\<newline>''),
      cmd_help = Some (lit ''[.b, .w, .l] source target count\<newline>    - copy memory\<newline>'')\<rparr>"

definition tbl_cmp :: cmd_tbl_t where
  "tbl_cmp =
     \<lparr>cmd_name = lit ''cmp'', lmin = 3, maxargs = 4, repeatable = 1, cmd = Do_mem_cmp,
      cmd_usage = Some (lit ''cmp     - memory compare\<newline>''),
      cmd_help = Some (lit (''[.b, .w, .l] addr1 addr2 count\<newline>'' @
        ''    - compare memory\<newline>''))\<rparr>"

definition tbl_crc32 :: cmd_tbl_t where
  "tbl_crc32 =
     \<lparr>cmd_name = lit ''crc32'', lmin = 3, maxargs = 4, repeatable = 1, cmd = Do_mem_crc,
      cmd_usage = Some (lit ''crc32   - checksum calculation\<newline>''),
      cmd_help = Some (lit ''address count\<newline>    - compute CRC32 checksum\<newline>'')\<rparr>"

definition tbl_base :: cmd_tbl_t where
  "tbl_base =
     \<lparr>cmd_name = lit ''base'', lmin = 2, maxargs = 2, repeatable = 1, cmd = Do_mem_base,
      cmd_usage = Some (lit ''base    - print or set address offset\<newline>''),
      cmd_help = Some (lit (''\<newline>'' @
        ''    - print address offset for memory commands\<newline>'' @
        ''base off\<newline>'' @
        ''    - set address offset for memory commands to 'off'\<newline>''))\<rparr>"

definition tbl_loop :: cmd_tbl_t where
  "tbl_loop =
     \<lparr>cmd_name = lit ''loop'', lmin = 4, maxargs = 3, repeatable = 1, cmd = Do_mem_loop,
      cmd_usage = Some (lit ''loop    - infinite loop on address range\<newline>''),
      cmd_help = Some (lit (''[.b, .w, .l] address number_of_objects\<newline>'' @
        ''    - loop on a set of addresses\<newline>''))\<rparr>"

definition tbl_mtest :: cmd_tbl_t where
  "tbl_mtest =
     \<lparr>cmd_name = lit ''mtest'', lmin = 5, maxargs = 1, repeatable = 1, cmd = Do_mem_mtest,
      cmd_usage = Some (lit ''mtest   - simple RAM test\<newline>''),
      cmd_help = Some (lit ''\<newline>    - simple SDRAM read/write test\<newline>'')\<rparr>"

definition tbl_printenv :: cmd_tbl_t where
  "tbl_printenv =
     \<lparr>cmd_name = lit ''printenv'', lmin = 8, maxargs = 16, repeatable = 1, cmd = Do_printenv,
      cmd_usage = Some (lit ''printenv- print environment variables\<newline>''),
      cmd_help = Some (lit (''\<newline>'' @
        ''    - print values of all environment variables\<newline>'' @
        ''printenv name ...\<newline>'' @
        ''    - print value of environment variable 'name'\<newline>''))\<rparr>"

definition tbl_setenv :: cmd_tbl_t where
  "tbl_setenv =
     \<lparr>cmd_name = lit ''setenv'', lmin = 6, maxargs = 16, repeatable = 0, cmd = Do_setenv,
      cmd_usage = Some (lit ''setenv  - set environment variables\<newline>''),
      cmd_help = Some (lit (''name value ...\<newline>'' @
        ''    - set environment variable 'name' to 'value ...'\<newline>'' @
        ''setenv name\<newline>'' @
        ''    - delete environment variable 'name'\<newline>''))\<rparr>"

definition tbl_askenv :: cmd_tbl_t where
  "tbl_askenv =
     \<lparr>cmd_name = lit ''askenv'', lmin = 8, maxargs = 16, repeatable = 1, cmd = Do_askenv,
      cmd_usage = Some (lit ''askenv  - get environment variables from stdin\<newline>''),
      cmd_help = Some (lit (''name [message] [size]\<newline>'' @
        ''    - get environment variable 'name' from stdin (max 'size' chars)\<newline>'' @
        ''askenv name\<newline>'' @
        ''    - get environment variable 'name' from stdin\<newline>'' @
        ''askenv name size\<newline>'' @
        ''    - get environment variable 'name' from stdin (max 'size' chars)\<newline>'' @
        ''askenv name [message] size\<newline>'' @
        ''    - display 'message' string and get environment variable 'name'from stdin (max 'size' chars)\<newline>''))\<rparr>"

definition tbl_saveenv :: cmd_tbl_t where
  "tbl_saveenv =
     \<lparr>cmd_name = lit ''saveenv'', lmin = 4, maxargs = 1, repeatable = 0, cmd = Do_saveenv,
      cmd_usage = Some (lit ''saveenv - save environment variables to persistent storage\<newline>''),
      cmd_help = None\<rparr>"

definition tbl_run :: cmd_tbl_t where
  "tbl_run =
     \<lparr>cmd_name = lit ''run'', lmin = 3, maxargs = 16, repeatable = 1, cmd = Do_run,
      cmd_usage = Some (lit ''run     - run commands in an environment variable\<newline>''),
      cmd_help = Some (lit (''var [...]\<newline>'' @
        ''    - run the commands in the environment variable(s) 'var'\<newline>''))\<rparr>"

definition tbl_protect :: cmd_tbl_t where
  "tbl_protect =
     \<lparr>cmd_name = lit ''protect'', lmin = 4, maxargs = 4, repeatable = 1, cmd = Do_protect,
      cmd_usage = Some (lit ''protect - enable or disable FLASH write protection\<newline>''),
      cmd_help = Some (lit (''on  start end\<newline>'' @
        ''    - protect FLASH from addr 'start' to addr 'end'\<newline>'' @
        ''protect on  N:SF[-SL]\<newline>'' @
        ''    - protect sectors SF-SL in FLASH bank # N\<newline>'' @
        ''protect on  bank N\<newline>'' @
        ''    - protect FLASH bank # N\<newline>'' @
        ''protect on  all\<newline>'' @
        ''    - protect all FLASH banks\<newline>'' @
        ''protect off start end\<newline>'' @
        ''    - make FLASH from addr 'start' to addr 'end' writable\<newline>'' @
        ''protect off N:SF[-SL]\<newline>'' @
        ''    - make sectors SF-SL writable in FLASH bank # N\<newline>'' @
        ''protect off bank N\<newline>'' @
        ''    - make FLASH bank # N writable\<newline>'' @
        ''protect off all\<newline>'' @
        ''    - make all FLASH banks writable\<newline>''))\<rparr>"

definition tbl_erase :: cmd_tbl_t where
  "tbl_erase =
     \<lparr>cmd_name = lit ''erase'', lmin = 3, maxargs = 3, repeatable = 1, cmd = Do_flerase,
      cmd_usage = Some (lit ''erase   - erase FLASH memory\<newline>''),
      cmd_help = Some (lit (''start end\<newline>'' @
        ''    - erase FLASH from addr 'start' to addr 'end'\<newline>'' @
        ''erase N:SF[-SL]\<newline>'' @
        ''    - erase sectors SF-SL in FLASH bank # N\<newline>'' @
        ''erase bank N\<newline>'' @
        ''    - erase FLASH bank # N\<newline>'' @
        ''erase all\<newline>'' @
        ''    - erase all FLASH banks\<newline>''))\<rparr>"

definition tbl_flinfo :: cmd_tbl_t where
  "tbl_flinfo =
     \<lparr>cmd_name = lit ''flinfo'', lmin = 3, maxargs = 2, repeatable = 1, cmd = Do_flinfo,
      cmd_usage = Some (lit ''flinfo  - print FLASH memory information\<newline>''),
      cmd_help = Some (lit (''\<newline>'' @
        ''    - print information for all FLASH memory banks\<newline>'' @
        ''flinfo N\<newline>'' @
        ''    - print information for FLASH memory bank # N\<newline>''))\<rparr>"

definition tbl_icache :: cmd_tbl_t where
  "tbl_icache =
     \<lparr>cmd_name = lit ''icache'', lmin = 2, maxargs = 2, repeatable = 1, cmd = Do_icache,
      cmd_usage = Some (lit ''icache  - enable or disable instruction cache\<newline>''),
      cmd_help = Some (lit (''[on, off]\<newline>'' @
        ''    - enable or disable instruction cache\<newline>''))\<rparr>"

definition tbl_dcache :: cmd_tbl_t where
  "tbl_dcache =
     \<lparr>cmd_name = lit ''dcache'', lmin = 2, maxargs = 2, repeatable = 1, cmd = Do_dcache,
      cmd_usage = Some (lit ''dcache  - enable or disable data cache\<newline>''),
      cmd_help = Some (lit (''[on, off]\<newline>'' @
        ''    - enable or disable data (writethrough) cache\<newline>''))\<rparr>"

definition tbl_sleep :: cmd_tbl_t where
  "tbl_sleep =
     \<lparr>cmd_name = lit ''sleep'', lmin = 5, maxargs = 2, repeatable = 2, cmd = Do_sleep,
      cmd_usage = Some (lit ''sleep   - delay execution for some time\<newline>''),
      cmd_help = Some (lit (''N\<newline>'' @
        ''    - delay execution for N seconds (N is _decimal_ !!!)\<newline>''))\<rparr>"

definition tbl_version :: cmd_tbl_t where
  "tbl_version =
     \<lparr>cmd_name = lit ''version'', lmin = 4, maxargs = 1, repeatable = 1, cmd = Do_version,
      cmd_usage = Some (lit ''version - print monitor version\<newline>''),
      cmd_help = None\<rparr>"

definition tbl_echo :: cmd_tbl_t where
  "tbl_echo =
     \<lparr>cmd_name = lit ''echo'', lmin = 4, maxargs = 16, repeatable = 1, cmd = Do_echo,
      cmd_usage = Some (lit ''echo    - echo args to console\<newline>''),
      cmd_help = Some (lit (''[args..]\<newline>'' @
        ''    - echo args to console; '' @ [CHR 0x5C] @ ''c suppresses newline\<newline>''))\<rparr>"

definition tbl_help :: cmd_tbl_t where
  "tbl_help =
     \<lparr>cmd_name = lit ''help'', lmin = 1, maxargs = 16, repeatable = 1, cmd = Do_help,
      cmd_usage = Some (lit ''help    - print online help\<newline>''),
      cmd_help = Some (lit (''[command ...]\<newline>'' @
        ''    - show help information (for 'command')\<newline>'help' prints online help for the monitor commands.\<newline>\<newline>'' @
        ''Without arguments, it prints a short usage message for all commands.\<newline>\<newline>'' @
        ''To get detailed help information for specific commands you can type\<newline>'help' with one or more command names as arguments.\<newline>''))\<rparr>"

definition tbl_ques :: cmd_tbl_t where
  "tbl_ques =
     \<lparr>cmd_name = lit ''?'', lmin = 1, maxargs = 16, repeatable = 1, cmd = Do_help,
      cmd_usage = Some (lit ''?       - alias for 'help'\<newline>''),
      cmd_help = None\<rparr>"

section \<open>The table and the search\<close>

definition cmd_tbl :: "cmd_tbl_t list" where
  "cmd_tbl =
     [tbl_go, tbl_run, tbl_bootm, tbl_bootp, tbl_tftpboot, tbl_rarpboot, tbl_bootd, tbl_loads,
      tbl_loadb, tbl_autoscr, tbl_md, tbl_mm, tbl_nm, tbl_mw, tbl_cp, tbl_cmp, tbl_crc32, tbl_base,
      tbl_printenv, tbl_setenv, tbl_saveenv, tbl_protect, tbl_erase, tbl_flinfo, tbl_bdinfo,
      tbl_iminfo, tbl_loop, tbl_mtest, tbl_icache, tbl_dcache, tbl_reset, tbl_sleep, tbl_version,
      tbl_help, tbl_ques]"

text \<open>
  \<^verbatim>\<open>strncmp (cmd, cmdtp->name, cmdtp->lmin) == 0\<close> of two strings: the first \<open>lmin\<close> characters,
  their NULs among them, agree.
\<close>

definition same_prefix :: "nat \<Rightarrow> byte list \<Rightarrow> byte list \<Rightarrow> bool" where
  "same_prefix n s t = (take n s = take n t)"

fun find_cmd :: "cmd_tbl_t list \<Rightarrow> byte list \<Rightarrow> cmd_tbl_t option" where
  "find_cmd [] c = None"
| "find_cmd (cmdtp # tbl) c =
     (if same_prefix (lmin cmdtp) c (cmd_name cmdtp) then Some cmdtp else find_cmd tbl c)"

text \<open>\<open>same_prefix\<close> is what \<open>strncmp\<close> computes in memory.\<close>

lemma same_prefix_strncmp:
  assumes "cstr m a s" "cstr m b t" "n < 2 ^ 32"
  shows "strncmp m a b (of_nat n) = 0 \<longleftrightarrow> same_prefix n s t"
  unfolding strncmp_cstr [OF assms(1,2)] same_prefix_def
  using assms(3) cstr_nonzero [OF assms(1)] cstr_nonzero [OF assms(2)]
  by (subst char_cmp_0) (auto simp: unat_of_nat take_bit_nat_eq_self dest: in_set_takeD)

lemmas tbl_defs =
  tbl_bdinfo_def tbl_go_def tbl_loads_def tbl_loadb_def tbl_reset_def tbl_bootm_def 
  tbl_bootd_def tbl_iminfo_def tbl_bootp_def tbl_tftpboot_def tbl_rarpboot_def tbl_autoscr_def 
  tbl_md_def tbl_mm_def tbl_nm_def tbl_mw_def tbl_cp_def tbl_cmp_def tbl_crc32_def tbl_base_def 
  tbl_loop_def tbl_mtest_def tbl_printenv_def tbl_setenv_def tbl_askenv_def tbl_saveenv_def 
  tbl_run_def tbl_protect_def tbl_erase_def tbl_flinfo_def tbl_icache_def tbl_dcache_def 
  tbl_sleep_def tbl_version_def tbl_echo_def tbl_help_def tbl_ques_def

text \<open>What the search reads of the entries.\<close>

lemma tbl_names:
  "cmd_name tbl_bdinfo = [98, 100, 105, 110, 102, 111]" "lmin tbl_bdinfo = 2"
  "cmd_name tbl_go = [103, 111]" "lmin tbl_go = 2"
  "cmd_name tbl_loads = [108, 111, 97, 100, 115]" "lmin tbl_loads = 5"
  "cmd_name tbl_loadb = [108, 111, 97, 100, 98]" "lmin tbl_loadb = 5"
  "cmd_name tbl_reset = [114, 101, 115, 101, 116]" "lmin tbl_reset = 5"
  "cmd_name tbl_bootm = [98, 111, 111, 116, 109]" "lmin tbl_bootm = 5"
  "cmd_name tbl_bootd = [98, 111, 111, 116, 100]" "lmin tbl_bootd = 4"
  "cmd_name tbl_iminfo = [105, 109, 105, 110, 102, 111]" "lmin tbl_iminfo = 3"
  "cmd_name tbl_bootp = [98, 111, 111, 116, 112]" "lmin tbl_bootp = 5"
  "cmd_name tbl_tftpboot = [116, 102, 116, 112, 98, 111, 111, 116]" "lmin tbl_tftpboot = 4"
  "cmd_name tbl_rarpboot = [114, 97, 114, 112, 98, 111, 111, 116]" "lmin tbl_rarpboot = 4"
  "cmd_name tbl_autoscr = [97, 117, 116, 111, 115, 99, 114]" "lmin tbl_autoscr = 5"
  "cmd_name tbl_md = [109, 100]" "lmin tbl_md = 2"
  "cmd_name tbl_mm = [109, 109]" "lmin tbl_mm = 2"
  "cmd_name tbl_nm = [110, 109]" "lmin tbl_nm = 2"
  "cmd_name tbl_mw = [109, 119]" "lmin tbl_mw = 2"
  "cmd_name tbl_cp = [99, 112]" "lmin tbl_cp = 2"
  "cmd_name tbl_cmp = [99, 109, 112]" "lmin tbl_cmp = 3"
  "cmd_name tbl_crc32 = [99, 114, 99, 51, 50]" "lmin tbl_crc32 = 3"
  "cmd_name tbl_base = [98, 97, 115, 101]" "lmin tbl_base = 2"
  "cmd_name tbl_loop = [108, 111, 111, 112]" "lmin tbl_loop = 4"
  "cmd_name tbl_mtest = [109, 116, 101, 115, 116]" "lmin tbl_mtest = 5"
  "cmd_name tbl_printenv = [112, 114, 105, 110, 116, 101, 110, 118]" "lmin tbl_printenv = 8"
  "cmd_name tbl_setenv = [115, 101, 116, 101, 110, 118]" "lmin tbl_setenv = 6"
  "cmd_name tbl_askenv = [97, 115, 107, 101, 110, 118]" "lmin tbl_askenv = 8"
  "cmd_name tbl_saveenv = [115, 97, 118, 101, 101, 110, 118]" "lmin tbl_saveenv = 4"
  "cmd_name tbl_run = [114, 117, 110]" "lmin tbl_run = 3"
  "cmd_name tbl_protect = [112, 114, 111, 116, 101, 99, 116]" "lmin tbl_protect = 4"
  "cmd_name tbl_erase = [101, 114, 97, 115, 101]" "lmin tbl_erase = 3"
  "cmd_name tbl_flinfo = [102, 108, 105, 110, 102, 111]" "lmin tbl_flinfo = 3"
  "cmd_name tbl_icache = [105, 99, 97, 99, 104, 101]" "lmin tbl_icache = 2"
  "cmd_name tbl_dcache = [100, 99, 97, 99, 104, 101]" "lmin tbl_dcache = 2"
  "cmd_name tbl_sleep = [115, 108, 101, 101, 112]" "lmin tbl_sleep = 5"
  "cmd_name tbl_version = [118, 101, 114, 115, 105, 111, 110]" "lmin tbl_version = 4"
  "cmd_name tbl_echo = [101, 99, 104, 111]" "lmin tbl_echo = 4"
  "cmd_name tbl_help = [104, 101, 108, 112]" "lmin tbl_help = 1"
  "cmd_name tbl_ques = [63]" "lmin tbl_ques = 1"
  by (simp_all add: tbl_defs lit_def)

section \<open>Properties\<close>

text \<open>
  no entry of the table hides a later one: every command, typed in full, finds its own entry.
\<close>

theorem find_cmd_finds_every_command:
  "map (\<lambda>c. find_cmd cmd_tbl (cmd_name c)) cmd_tbl = map Some cmd_tbl"
  by (simp add: cmd_tbl_def same_prefix_def tbl_names)

text \<open>
  an entry is found by its first \<open>lmin\<close> characters whatever follows them, so a word that only
  starts like a command runs it: \<^verbatim>\<open>booting\<close> runs \<open>bootd\<close> and \<^verbatim>\<open>looper\<close> the endless \<open>loop\<close>,
  for which the table asks for the full name.
\<close>

theorem find_cmd_ignores_tail:
  "find_cmd cmd_tbl (lit ''booting'') = Some tbl_bootd
   \<and> find_cmd cmd_tbl (lit ''looper'') = Some tbl_loop"
  by (simp add: cmd_tbl_def same_prefix_def tbl_names lit_def)

end
