(* ===== verification/Crc32.thy ===== *)
theory Crc32
  imports Prelude
begin

text \<open>
  \<^verbatim>\<open>common/crc32.c\<close>: the CRC-32 that protects the environment, the boot images and the JFFS2
  nodes.  The buffer of \<open>len\<close> bytes is the list of them, \<^theory_text>\<open>None\<close> for the null pointer.
\<close>

section \<open>The code\<close>

definition crc_table :: "u32 list" where
  "crc_table =
     [0x00000000, 0x77073096, 0xee0e612c, 0x990951ba, 0x076dc419, 0x706af48f,
      0xe963a535, 0x9e6495a3, 0x0edb8832, 0x79dcb8a4, 0xe0d5e91e, 0x97d2d988,
      0x09b64c2b, 0x7eb17cbd, 0xe7b82d07, 0x90bf1d91, 0x1db71064, 0x6ab020f2,
      0xf3b97148, 0x84be41de, 0x1adad47d, 0x6ddde4eb, 0xf4d4b551, 0x83d385c7,
      0x136c9856, 0x646ba8c0, 0xfd62f97a, 0x8a65c9ec, 0x14015c4f, 0x63066cd9,
      0xfa0f3d63, 0x8d080df5, 0x3b6e20c8, 0x4c69105e, 0xd56041e4, 0xa2677172,
      0x3c03e4d1, 0x4b04d447, 0xd20d85fd, 0xa50ab56b, 0x35b5a8fa, 0x42b2986c,
      0xdbbbc9d6, 0xacbcf940, 0x32d86ce3, 0x45df5c75, 0xdcd60dcf, 0xabd13d59,
      0x26d930ac, 0x51de003a, 0xc8d75180, 0xbfd06116, 0x21b4f4b5, 0x56b3c423,
      0xcfba9599, 0xb8bda50f, 0x2802b89e, 0x5f058808, 0xc60cd9b2, 0xb10be924,
      0x2f6f7c87, 0x58684c11, 0xc1611dab, 0xb6662d3d, 0x76dc4190, 0x01db7106,
      0x98d220bc, 0xefd5102a, 0x71b18589, 0x06b6b51f, 0x9fbfe4a5, 0xe8b8d433,
      0x7807c9a2, 0x0f00f934, 0x9609a88e, 0xe10e9818, 0x7f6a0dbb, 0x086d3d2d,
      0x91646c97, 0xe6635c01, 0x6b6b51f4, 0x1c6c6162, 0x856530d8, 0xf262004e,
      0x6c0695ed, 0x1b01a57b, 0x8208f4c1, 0xf50fc457, 0x65b0d9c6, 0x12b7e950,
      0x8bbeb8ea, 0xfcb9887c, 0x62dd1ddf, 0x15da2d49, 0x8cd37cf3, 0xfbd44c65,
      0x4db26158, 0x3ab551ce, 0xa3bc0074, 0xd4bb30e2, 0x4adfa541, 0x3dd895d7,
      0xa4d1c46d, 0xd3d6f4fb, 0x4369e96a, 0x346ed9fc, 0xad678846, 0xda60b8d0,
      0x44042d73, 0x33031de5, 0xaa0a4c5f, 0xdd0d7cc9, 0x5005713c, 0x270241aa,
      0xbe0b1010, 0xc90c2086, 0x5768b525, 0x206f85b3, 0xb966d409, 0xce61e49f,
      0x5edef90e, 0x29d9c998, 0xb0d09822, 0xc7d7a8b4, 0x59b33d17, 0x2eb40d81,
      0xb7bd5c3b, 0xc0ba6cad, 0xedb88320, 0x9abfb3b6, 0x03b6e20c, 0x74b1d29a,
      0xead54739, 0x9dd277af, 0x04db2615, 0x73dc1683, 0xe3630b12, 0x94643b84,
      0x0d6d6a3e, 0x7a6a5aa8, 0xe40ecf0b, 0x9309ff9d, 0x0a00ae27, 0x7d079eb1,
      0xf00f9344, 0x8708a3d2, 0x1e01f268, 0x6906c2fe, 0xf762575d, 0x806567cb,
      0x196c3671, 0x6e6b06e7, 0xfed41b76, 0x89d32be0, 0x10da7a5a, 0x67dd4acc,
      0xf9b9df6f, 0x8ebeeff9, 0x17b7be43, 0x60b08ed5, 0xd6d6a3e8, 0xa1d1937e,
      0x38d8c2c4, 0x4fdff252, 0xd1bb67f1, 0xa6bc5767, 0x3fb506dd, 0x48b2364b,
      0xd80d2bda, 0xaf0a1b4c, 0x36034af6, 0x41047a60, 0xdf60efc3, 0xa867df55,
      0x316e8eef, 0x4669be79, 0xcb61b38c, 0xbc66831a, 0x256fd2a0, 0x5268e236,
      0xcc0c7795, 0xbb0b4703, 0x220216b9, 0x5505262f, 0xc5ba3bbe, 0xb2bd0b28,
      0x2bb45a92, 0x5cb36a04, 0xc2d7ffa7, 0xb5d0cf31, 0x2cd99e8b, 0x5bdeae1d,
      0x9b64c2b0, 0xec63f226, 0x756aa39c, 0x026d930a, 0x9c0906a9, 0xeb0e363f,
      0x72076785, 0x05005713, 0x95bf4a82, 0xe2b87a14, 0x7bb12bae, 0x0cb61b38,
      0x92d28e9b, 0xe5d5be0d, 0x7cdcefb7, 0x0bdbdf21, 0x86d3d2d4, 0xf1d4e242,
      0x68ddb3f8, 0x1fda836e, 0x81be16cd, 0xf6b9265b, 0x6fb077e1, 0x18b74777,
      0x88085ae6, 0xff0f6a70, 0x66063bca, 0x11010b5c, 0x8f659eff, 0xf862ae69,
      0x616bffd3, 0x166ccf45, 0xa00ae278, 0xd70dd2ee, 0x4e048354, 0x3903b3c2,
      0xa7672661, 0xd06016f7, 0x4969474d, 0x3e6e77db, 0xaed16a4a, 0xd9d65adc,
      0x40df0b66, 0x37d83bf0, 0xa9bcae53, 0xdebb9ec5, 0x47b2cf7f, 0x30b5ffe9,
      0xbdbdf21c, 0xcabac28a, 0x53b39330, 0x24b4a3a6, 0xbad03605, 0xcdd70693,
      0x54de5729, 0x23d967bf, 0xb3667a2e, 0xc4614ab8, 0x5d681b02, 0x2a6f2b94,
      0xb40bbe37, 0xc30c8ea1, 0x5a05df1b, 0x2d02ef8d]"

text \<open>The polynomial of \<open>make_crc_table\<close> from its terms, and the entry for \<open>n\<close>.\<close>

definition crc_poly :: u32 where
  "crc_poly = foldl (\<lambda>poly p. poly OR push_bit (31 - p) 1) 0
     [0, 1, 2, 4, 5, 7, 8, 10, 11, 12, 16, 22, 23, 26]"

definition crc_bit :: "u32 \<Rightarrow> u32" where
  "crc_bit c = (if c AND 1 \<noteq> 0 then crc_poly XOR drop_bit 1 c else drop_bit 1 c)"

definition make_crc_table :: "u32 list" where
  "make_crc_table = map (\<lambda>n. (crc_bit ^^ 8) (of_nat n)) [0..<256]"

definition DO1 :: "u32 \<times> byte list \<Rightarrow> u32 \<times> byte list" where
  "DO1 = (\<lambda>(crc, buf).
     (crc_table ! unat ((crc XOR ucast (hd buf)) AND 0xff) XOR drop_bit 8 crc, tl buf))"

definition DO2 :: "u32 \<times> byte list \<Rightarrow> u32 \<times> byte list" where
  "DO2 st = DO1 (DO1 st)"

definition DO4 :: "u32 \<times> byte list \<Rightarrow> u32 \<times> byte list" where
  "DO4 st = DO2 (DO2 st)"

definition DO8 :: "u32 \<times> byte list \<Rightarrow> u32 \<times> byte list" where
  "DO8 st = DO4 (DO4 st)"

lemma DO1_buf: "snd (DO1 st) = tl (snd st)"
  by (simp add: DO1_def split: prod.splits)

lemma DO8_buf: "length (snd (DO8 st)) = length (snd st) - 8"
  by (simp add: DO8_def DO4_def DO2_def DO1_buf)

text \<open>\<^verbatim>\<open>while (len >= 8) { DO8(buf); len -= 8; }\<close>\<close>

function crc_blocks :: "u32 \<times> byte list \<Rightarrow> u32 \<times> byte list" where
  "crc_blocks st = (if 8 \<le> length (snd st) then crc_blocks (DO8 st) else st)"
  by pat_completeness auto
termination
  by (relation "measure (\<lambda>st. length (snd st))") (auto simp: DO8_buf)

text \<open>\<^verbatim>\<open>if (len) do { DO1(buf); } while (--len);\<close>\<close>

function crc_rest :: "u32 \<times> byte list \<Rightarrow> u32" where
  "crc_rest st = (if snd st \<noteq> [] then crc_rest (DO1 st) else fst st)"
  by pat_completeness auto
termination
  by (relation "measure (\<lambda>st. length (snd st))") (auto simp: DO1_buf)

declare crc_blocks.simps [simp del] crc_rest.simps [simp del]

definition crc32 :: "u32 \<Rightarrow> byte list option \<Rightarrow> u32" where
  "crc32 crc buf = (case buf of None \<Rightarrow> 0
     | Some buf \<Rightarrow> crc_rest (crc_blocks (crc XOR 0xffffffff, buf)) XOR 0xffffffff)"

definition crc32_no_comp :: "u32 \<Rightarrow> byte list option \<Rightarrow> u32" where
  "crc32_no_comp crc buf = (case buf of None \<Rightarrow> 0
     | Some buf \<Rightarrow> crc_rest (crc_blocks (crc, buf)))"

section \<open>The register as a fold over the bytes\<close>

definition crc_byte :: "u32 \<Rightarrow> byte \<Rightarrow> u32" where
  "crc_byte crc b = crc_table ! unat ((crc XOR ucast b) AND 0xff) XOR drop_bit 8 crc"

lemma DO1_Cons: "DO1 (crc, b # bs) = (crc_byte crc b, bs)"
  by (simp add: DO1_def crc_byte_def)

lemma crc_rest_foldl: "crc_rest (crc, bs) = foldl crc_byte crc bs"
proof (induction bs arbitrary: crc)
  case Nil
  then show ?case by (subst crc_rest.simps) simp
next
  case (Cons b bs)
  then show ?case by (subst crc_rest.simps) (simp add: DO1_Cons)
qed

lemma list8_cases:
  assumes "8 \<le> length bs"
  obtains b0 b1 b2 b3 b4 b5 b6 b7 r where "bs = b0 # b1 # b2 # b3 # b4 # b5 # b6 # b7 # r"
proof -
  have "Suc (Suc (Suc (Suc (Suc (Suc (Suc (Suc 0))))))) \<le> length bs" using assms by simp
  then show ?thesis using that by (auto simp: Suc_le_length_iff)
qed

lemma crc_blocks_rest: "crc_rest (crc_blocks st) = crc_rest st"
proof (induction st rule: crc_blocks.induct)
  case (1 st)
  show ?case
  proof (cases "8 \<le> length (snd st)")
    case True
    obtain crc bs where st: "st = (crc, bs)" by (cases st)
    with True obtain b0 b1 b2 b3 b4 b5 b6 b7 r
      where bs: "bs = b0 # b1 # b2 # b3 # b4 # b5 # b6 # b7 # r" by (auto elim: list8_cases)
    have "crc_rest (DO8 st) = crc_rest st"
      by (simp add: st bs DO8_def DO4_def DO2_def DO1_Cons crc_rest_foldl)
    with 1 True show ?thesis by (subst crc_blocks.simps) simp
  next
    case False
    then show ?thesis by (subst crc_blocks.simps) simp
  qed
qed

lemma crc32_foldl: "crc32 crc (Some bs) = foldl crc_byte (crc XOR 0xffffffff) bs XOR 0xffffffff"
  by (simp add: crc32_def crc_blocks_rest crc_rest_foldl)

lemma crc32_no_comp_foldl: "crc32_no_comp crc (Some bs) = foldl crc_byte crc bs"
  by (simp add: crc32_no_comp_def crc_blocks_rest crc_rest_foldl)

lemma xor_ones_twice: "(x XOR y) XOR (y :: u32) = x"
  by (simp add: xor.assoc)

section \<open>The shift register\<close>

lemma crc_poly_value: "crc_poly = 0xedb88320"
  by code_simp

lemma crc_bit_code [code]:
  "crc_bit c = (if c AND 1 \<noteq> 0 then 0xedb88320 XOR drop_bit 1 c else drop_bit 1 c)"
  by (simp add: crc_bit_def crc_poly_value)

lemma odd_iff_and_1: "(x AND 1 \<noteq> 0) = bit (x :: u32) 0"
  by (metis and_one_eq bit_0 odd_iff_mod_2_eq_one one_neq_zero even_iff_mod_2_eq_zero)

lemma crc_bit_xor: "crc_bit (a XOR b) = crc_bit a XOR crc_bit b"
proof -
  show ?thesis
    unfolding crc_bit_def odd_iff_and_1 by (auto simp: bit_xor_iff drop_bit_xor ac_simps xor.left_commute)
qed

lemma crc_bit_eq_0: "crc_bit c = 0 \<Longrightarrow> c = 0"
proof (cases "bit c 0")
  case True
  assume "crc_bit c = 0"
  with True have "crc_poly XOR drop_bit 1 c = 0" by (simp add: crc_bit_def odd_iff_and_1)
  then have "bit (crc_poly XOR drop_bit 1 c) 31 = False" by simp
  moreover have "bit crc_poly 31" by code_simp
  moreover have "\<not> bit (drop_bit 1 c) 31" using bit_imp_le_length [of c 32] by (auto simp: bit_drop_bit_eq)
  ultimately show ?thesis by (simp add: bit_xor_iff)
next
  case False
  assume "crc_bit c = 0"
  with False have d: "drop_bit 1 c = 0" by (simp add: crc_bit_def odd_iff_and_1)
  show ?thesis
  proof (rule bit_word_eqI)
    fix n show "bit c n = bit 0 n"
    proof (cases n)
      case 0
      with False show ?thesis by simp
    next
      case (Suc k)
      have "bit (drop_bit 1 c) k = False" using d by simp
      with Suc show ?thesis by (simp add: bit_drop_bit_eq)
    qed
  qed
qed

lemma crc_bit_inj: "crc_bit a = crc_bit b \<Longrightarrow> a = b"
proof -
  assume "crc_bit a = crc_bit b"
  then have z: "a XOR b = 0" by - (rule crc_bit_eq_0, simp add: crc_bit_xor)
  have "a = (a XOR b) XOR b" by (simp only: xor_ones_twice)
  also have "\<dots> = b" by (simp only: z xor.left_neutral)
  finally show "a = b" .
qed

lemma crc_bits_xor: "(crc_bit ^^ n) (a XOR b) = (crc_bit ^^ n) a XOR (crc_bit ^^ n) b"
  by (induction n) (simp_all add: crc_bit_xor)

lemma crc_bits_inj: "(crc_bit ^^ n) a = (crc_bit ^^ n) b \<Longrightarrow> a = b"
  by (induction n) (auto dest: crc_bit_inj)

lemma crc_bits_shift: "k \<le> 8 \<Longrightarrow> take_bit 8 c = 0 \<Longrightarrow> (crc_bit ^^ k) c = drop_bit k c"
proof (induction k)
  case (Suc k)
  have "\<not> bit c k"
  proof
    assume "bit c k"
    with Suc.prems(1) have "bit (take_bit 8 c) k" by (simp add: bit_take_bit_iff)
    with Suc.prems(2) show False by simp
  qed
  then have "\<not> bit (drop_bit k c) 0" by (simp add: bit_drop_bit_eq)
  then have "crc_bit (drop_bit k c) = drop_bit (Suc k) c"
    unfolding crc_bit_def odd_iff_and_1 by (simp add: drop_bit_drop_bit del: bit_0)
  with Suc show ?case by simp
qed simp

text \<open>
  The table of a linear function doubles: the entries from \<open>2 ^ k\<close> on are those before it, each
  combined with the entry at \<open>2 ^ k\<close>.
\<close>

fun doubling :: "u32 list \<Rightarrow> u32 list \<Rightarrow> u32 list" where
  "doubling [] t = t"
| "doubling (v # vs) t = doubling vs (t @ map (\<lambda>x. v XOR x) t)"

lemma of_nat_high_bit:
  assumes "n < 2 ^ k"
  shows "(of_nat (2 ^ k + n) :: u32) = of_nat (2 ^ k) XOR of_nat n"
proof -
  have "\<not> bit n k" using assms by (simp add: bit_iff_odd)
  then have "(of_nat (2 ^ k) :: u32) AND of_nat n = 0"
    by (intro bit_word_eqI) (auto simp: bit_simps)
  from disjunctive_add_eq_xor [OF this] show ?thesis by simp
qed

lemma crc_table_doubles:
  "map (\<lambda>n. (crc_bit ^^ 8) (of_nat n)) [0..<2 ^ Suc k] =
   (let t = map (\<lambda>n. (crc_bit ^^ 8) (of_nat n)) [0..<2 ^ k]
    in t @ map (\<lambda>x. (crc_bit ^^ 8) (of_nat (2 ^ k)) XOR x) t)"
proof -
  have "[0..<2 ^ Suc k] = [0..<2 ^ k] @ map (\<lambda>n. 2 ^ k + n) [0..<2 ^ k]"
    using map_add_upt [of "2 ^ k" "2 ^ k"] upt_add_eq_append [of 0 "2 ^ k" "2 ^ k"]
    by (simp add: add.commute mult_2)
  then show ?thesis
    by (simp add: Let_def of_nat_high_bit crc_bits_xor del: of_nat_add of_nat_power)
qed

lemma funpow8: "(f ^^ 8) x = f (f (f (f (f (f (f (f x)))))))"
  by (simp add: numeral_eq_Suc)

lemma make_crc_table_doubling:
  "make_crc_table = doubling (map (crc_bit ^^ 8) [1, 2, 4, 8, 16, 32, 64, 128]) [0]"
proof -
  have "crc_bit 0 = 0" by (simp add: crc_bit_def)
  then have "(crc_bit ^^ 8) 0 = 0" by (simp add: funpow8)
  moreover have "[0..<256] = [0..<2 ^ Suc (Suc (Suc (Suc (Suc (Suc (Suc (Suc 0)))))))]" by simp
  ultimately show ?thesis
    unfolding make_crc_table_def by (simp only: crc_table_doubles) (simp add: Let_def)
qed

lemma crc_table_make: "crc_table = make_crc_table"
proof -
  have "map (crc_bit ^^ 8) [1, 2, 4, 8, 16, 32, 64, 128] =
    [0x77073096, 0xee0e612c, 0x076dc419, 0x0edb8832, 0x1db71064, 0x3b6e20c8, 0x76dc4190, 0xedb88320]"
    by (simp add: crc_bit_code funpow8)
  then show ?thesis unfolding make_crc_table_doubling by (simp only:) (simp add: crc_table_def)
qed

lemma crc_table_nth: "n < 256 \<Longrightarrow> crc_table ! n = (crc_bit ^^ 8) (of_nat n)"
  by (simp add: crc_table_make make_crc_table_def)

lemma crc_byte_bits: "crc_byte crc b = (crc_bit ^^ 8) (crc XOR ucast b)"
proof -
  let ?x = "crc XOR ucast b"
  let ?hi = "push_bit 8 (drop_bit 8 ?x)"
  have lo: "?x AND 0xff = take_bit 8 ?x" by (simp add: take_bit_eq_mask mask_numeral)
  have x: "?x = take_bit 8 ?x XOR ?hi"
  proof (rule bit_word_eqI)
    fix n show "bit ?x n = bit (take_bit 8 ?x XOR ?hi) n" if "n < LENGTH(32)"
      by (cases "n < 8") (use that in \<open>simp_all add: bit_take_bit_iff bit_push_bit_iff bit_xor_iff bit_drop_bit_eq\<close>)
  qed
  have "unat (take_bit 8 ?x) < 256"
    by (simp add: take_bit_eq_mod unat_mod)
  then have tab: "crc_table ! unat (take_bit 8 ?x) = (crc_bit ^^ 8) (take_bit 8 ?x)"
    by (simp add: crc_table_nth)
  have "take_bit 8 ?hi = 0" by (rule bit_word_eqI) (auto simp: bit_simps)
  then have "(crc_bit ^^ 8) ?hi = drop_bit 8 ?hi" by (simp add: crc_bits_shift)
  also have "\<dots> = drop_bit 8 crc"
    by (rule bit_word_eqI) (auto simp: bit_simps dest: bit_imp_le_length)
  finally have "(crc_bit ^^ 8) ?x = (crc_bit ^^ 8) (take_bit 8 ?x) XOR drop_bit 8 crc"
    by (subst x) (simp only: crc_bits_xor)
  then show ?thesis by (simp only: crc_byte_def lo tab)
qed

text \<open>
  The reference: a shift register fed one message bit at a time, least significant bit first, as
  the comment on \<open>make_crc_table\<close> describes it.
\<close>

fun crc_bits_of :: "u32 \<Rightarrow> bool list \<Rightarrow> u32" where
  "crc_bits_of crc [] = crc"
| "crc_bits_of crc (b # bs) = crc_bits_of (crc_bit (crc XOR of_bool b)) bs"

definition bits_of_byte :: "byte \<Rightarrow> bool list" where
  "bits_of_byte b = map (bit b) [0..<8]"

text \<open>Up to 32 message bits may be combined with the register at once.\<close>

lemma crc_bit_even: "\<not> bit x 31 \<Longrightarrow> crc_bit (push_bit 1 x) = x"
proof -
  assume top: "\<not> bit x 31"
  have "\<not> bit (push_bit 1 x) 0" by (simp add: bit_0)
  moreover have "drop_bit 1 (push_bit 1 x) = x"
  proof (rule bit_word_eqI)
    fix n show "bit (drop_bit 1 (push_bit 1 x)) n = bit x n" if "n < LENGTH(32)"
      unfolding bit_drop_bit_eq comp_def bit_push_bit_iff
      using that top bit_imp_le_length [of x 31] by (cases "n = 31") auto
  qed
  ultimately show ?thesis by (simp add: crc_bit_def odd_iff_and_1 del: bit_0)
qed

lemma horner_top:
  assumes "length bs < 32"
  shows "\<not> bit (horner_sum of_bool 2 bs :: u32) 31"
  using assms by (simp add: bit_horner_sum_bit_iff)

lemma crc_bits_of_word:
  "length bs \<le> 32 \<Longrightarrow>
   crc_bits_of crc bs = (crc_bit ^^ length bs) (crc XOR horner_sum of_bool 2 bs)"
proof (induction bs arbitrary: crc)
  case (Cons b bs)
  let ?w = "horner_sum of_bool 2 bs :: u32"
  have "of_bool b AND push_bit 1 ?w = (0 :: u32)"
    by (rule bit_word_eqI) (auto simp: bit_simps bit_0)
  then have "horner_sum of_bool 2 (b # bs) = (of_bool b XOR push_bit 1 ?w :: u32)"
    using disjunctive_add_eq_xor [of "of_bool b" "push_bit 1 ?w"]
    by (simp add: push_bit_eq_mult mult.commute)
  then have "crc_bit (crc XOR horner_sum of_bool 2 (b # bs))
      = crc_bit (crc XOR of_bool b) XOR crc_bit (push_bit 1 ?w)"
    by (simp only: crc_bit_xor xor.assoc)
  also have "crc_bit (push_bit 1 ?w) = ?w"
    using Cons.prems by (intro crc_bit_even horner_top) simp
  finally have step: "crc_bit (crc XOR horner_sum of_bool 2 (b # bs))
      = crc_bit (crc XOR of_bool b) XOR ?w" .
  have "crc_bits_of crc (b # bs) = (crc_bit ^^ length bs) (crc_bit (crc XOR of_bool b) XOR ?w)"
    using Cons by simp
  also have "\<dots> = (crc_bit ^^ length (b # bs)) (crc XOR horner_sum of_bool 2 (b # bs))"
    by (simp only: step [symmetric] length_Cons funpow_Suc_right o_apply)
  finally show ?case .
qed simp

lemma horner_byte: "horner_sum of_bool 2 (bits_of_byte b) = (ucast b :: u32)"
proof -
  have "bits_of_byte b = map (bit (ucast b :: u32)) [0..<8]"
    by (simp add: bits_of_byte_def bit_simps)
  moreover have "take_bit 8 (ucast b :: u32) = ucast b"
    by (rule bit_word_eqI) (auto simp: bit_simps dest: bit_imp_le_length)
  ultimately show ?thesis by (simp add: horner_sum_bit_eq_take_bit)
qed

lemma crc_byte_of_bits: "crc_byte crc b = crc_bits_of crc (bits_of_byte b)"
  using crc_bits_of_word [of "bits_of_byte b" crc]
  by (simp add: crc_byte_bits horner_byte) (simp add: bits_of_byte_def)

lemma crc_bits_of_append: "crc_bits_of crc (as @ bs) = crc_bits_of (crc_bits_of crc as) bs"
  by (induction as arbitrary: crc) auto

lemma foldl_crc_byte_bits: "foldl crc_byte crc bs = crc_bits_of crc (concat (map bits_of_byte bs))"
  by (induction bs arbitrary: crc) (auto simp: crc_bits_of_append crc_byte_of_bits)

lemma crc_byte_inj_reg: "crc_byte c b = crc_byte d b \<Longrightarrow> c = d"
proof -
  assume "crc_byte c b = crc_byte d b"
  then have "c XOR ucast b = d XOR ucast b" unfolding crc_byte_bits by (rule crc_bits_inj)
  then have "(c XOR ucast b) XOR ucast b = (d XOR ucast b) XOR ucast b" by (rule arg_cong)
  then show "c = d" by (simp only: xor_ones_twice)
qed

lemma xor_left_twice: "(y XOR x) XOR (y :: u32) = x"
  by (rule bit_word_eqI) (auto simp: bit_xor_iff)

lemma crc_byte_inj_byte: "crc_byte c a = crc_byte c b \<Longrightarrow> a = b"
proof -
  assume "crc_byte c a = crc_byte c b"
  then have "c XOR ucast a = c XOR ucast b" unfolding crc_byte_bits by (rule crc_bits_inj)
  then have "(c XOR ucast a) XOR c = (c XOR ucast b) XOR c" by (rule arg_cong)
  then have "ucast a = (ucast b :: u32)" by (simp only: xor_left_twice)
  then have "unat (ucast a :: u32) = unat (ucast b :: u32)" by (rule arg_cong)
  moreover have "unat (ucast w :: u32) = unat w" for w :: byte
    using unat_byte_less [of w] by (simp add: unsigned_ucast_eq take_bit_nat_eq_self)
  ultimately show "a = b" by (simp add: word_unat_eq_iff)
qed

lemma foldl_crc_byte_inj: "foldl crc_byte c bs = foldl crc_byte d bs \<Longrightarrow> c = d"
  by (induction bs arbitrary: c d) (auto dest: crc_byte_inj_reg)

section \<open>Properties\<close>

text \<open>
  the table compiled in is the one \<open>make_crc_table\<close> computes from the polynomial, entry by
  entry.
\<close>

theorem crc_table_is_computed: "crc_table = make_crc_table"
  by (rule crc_table_make)

text \<open>
  C9: the unrolled, table-driven loop of \<open>crc32\<close> computes the bit-serial CRC: the register started
  at the complement of \<open>crc\<close>, shifted once per message bit, complemented at the end.
\<close>

theorem crc32_is_shift_register:
  "crc32 crc (Some buf) =
     crc_bits_of (crc XOR 0xffffffff) (concat (map bits_of_byte buf)) XOR 0xffffffff"
  by (simp add: crc32_foldl foldl_crc_byte_bits)

text \<open>
  \<open>crc32\<close> may be computed piecewise: the CRC of one buffer, passed as the start value with the
  next, gives the CRC of the two in a row.
\<close>

theorem crc32_append: "crc32 (crc32 crc (Some a)) (Some b) = crc32 crc (Some (a @ b))"
  unfolding crc32_foldl by (simp only: xor_ones_twice foldl_append)

text \<open>
  a single corrupted byte is always detected: two buffers that differ in one byte have
  different CRCs.
\<close>

theorem crc32_detects_byte_error:
  "(crc32 crc (Some (p @ x # s)) = crc32 crc (Some (p @ y # s))) = (x = y)"
proof
  assume "crc32 crc (Some (p @ x # s)) = crc32 crc (Some (p @ y # s))"
  then have "foldl crc_byte (crc XOR 0xffffffff) (p @ x # s)
      = foldl crc_byte (crc XOR 0xffffffff) (p @ y # s)"
    unfolding crc32_foldl using xor_ones_twice by metis
  then show "x = y" by (auto dest!: foldl_crc_byte_inj crc_byte_inj_byte)
qed simp

end
