(* ===== verification/Env.thy ===== *)
theory Env
  imports Console Crc32
begin

text \<open>
  The environment: \<^verbatim>\<open>common/cmd_nvedit.c\<close> and the access to its flash copy of
  \<^verbatim>\<open>board/dnp1110/env.c\<close>.  The RAM copy is the list of the bytes of \<open>bi_env->data\<close>; the length of
  the list is the size of the array.  An index that \<open>get_env_char\<close> refuses ends in \<open>Panic\<close>, an
  access of \<open>_do_setenv\<close> outside the array, which the code does not test, in \<open>BadAccess\<close>.
\<close>

section \<open>Reading\<close>

definition check_crc :: "sys \<Rightarrow> bool \<times> sys" where
  "check_crc s =
     (let env = flash_env s;
          s = (if env_crc_valid s = 0
               then s\<lparr>env_crc_valid := if crc32 0 (Some (env_data env)) = env_crc env then 1 else -1\<rparr>
               else s)
      in (0 < env_crc_valid s, s))"

definition board_env_getaddr :: "sys \<Rightarrow> nat \<Rightarrow> byte list option \<times> sys" where
  "board_env_getaddr s index =
     (if index < length (env_data (flash_env s)) then
        let (ok, s) = check_crc s
        in (if ok then Some (drop index (env_data (flash_env s))) else None, s)
      else (None, s))"

definition board_env_getchar :: "sys \<Rightarrow> nat \<Rightarrow> byte option \<times> sys" where
  "board_env_getchar s index =
     (if index < length (env_data (flash_env s)) then
        let (ok, s) = check_crc s
        in (if ok then Some (env_data (flash_env s) ! index) else None, s)
      else (None, s))"

definition get_env_char :: "config \<Rightarrow> sys \<Rightarrow> nat \<Rightarrow> byte result" where
  "get_env_char cfg s index =
     (case bi_env s of
        Some env \<Rightarrow>
          if index < length (env_data env) then Inr (env_data env ! index, s) else Inl Panic
      | None \<Rightarrow>
          (case board_env_getchar s index of
             (Some c, s) \<Rightarrow> Inr (c, s)
           | (None, s) \<Rightarrow>
               if index < length (default_environment cfg)
               then Inr (default_environment cfg ! index, s) else Inl Panic))"

text \<open>An address is what can be read from there, to the end of the array.\<close>

definition get_env_addr :: "config \<Rightarrow> sys \<Rightarrow> nat \<Rightarrow> byte list result" where
  "get_env_addr cfg s index =
     (case bi_env s of
        Some env \<Rightarrow>
          if index < length (env_data env) then Inr (drop index (env_data env), s) else Inl Panic
      | None \<Rightarrow>
          (case board_env_getaddr s index of
             (Some p, s) \<Rightarrow> Inr (p, s)
           | (None, s) \<Rightarrow>
               if index < length (default_environment cfg)
               then Inr (drop index (default_environment cfg), s) else Inl Panic))"

text \<open>No index from here on is readable, and no reading moves the limit.\<close>

definition env_limit :: "config \<Rightarrow> sys \<Rightarrow> nat" where
  "env_limit cfg s =
     (case bi_env s of
        Some env \<Rightarrow> length (env_data env)
      | None \<Rightarrow> max (length (env_data (flash_env s))) (length (default_environment cfg)))"

lemma get_env_char_limit:
  "get_env_char cfg s i = Inr (c, s') \<Longrightarrow> i < env_limit cfg s \<and> env_limit cfg s' = env_limit cfg s"
  by (auto simp: get_env_char_def env_limit_def board_env_getchar_def check_crc_def Let_def
      split: option.splits if_splits prod.splits)

text \<open>
  \<open>envmatch\<close> on the name from \<open>s1\<close> on.  A name that ends where the entry ends makes the loop step
  over both NULs and read on behind the name.
\<close>

fun envmatch :: "config \<Rightarrow> sys \<Rightarrow> byte list \<Rightarrow> nat \<Rightarrow> nat option result" where
  "envmatch cfg s [] i2 =
     sbind (get_env_char cfg s i2) (\<lambda>(c, s).
       if c = 0 then Inl BadAccess
       else sbind (get_env_char cfg s i2) (\<lambda>(c, s).
         Inr (if c = ch CHR ''='' then Some (i2 + 1) else None, s)))"
| "envmatch cfg s (x # s1) i2 =
     sbind (get_env_char cfg s i2) (\<lambda>(c, s).
       if x = c then
         if x = ch CHR ''='' then Inr (Some (i2 + 1), s) else envmatch cfg s s1 (i2 + 1)
       else Inr (None, s))"

lemma envmatch_limit: "envmatch cfg s s1 i = Inr (r, s') \<Longrightarrow> env_limit cfg s' = env_limit cfg s"
proof (induction s1 arbitrary: s i)
  case Nil
  then show ?case
    by (auto dest!: get_env_char_limit elim!: sbind_InrE split: if_splits prod.splits)
next
  case (Cons x s1)
  then show ?case
    by (auto dest!: get_env_char_limit elim!: sbind_InrE split: if_splits prod.splits)
qed

text \<open>\<^verbatim>\<open>for (nxt=i; get_env_char(bd, nxt) != '\0'; ++nxt)\<close>, as \<open>do_printenv\<close> has it.\<close>

function env_next :: "config \<Rightarrow> sys \<Rightarrow> nat \<Rightarrow> nat result" where
  "env_next cfg s nxt =
     sbind (get_env_char cfg s nxt) (\<lambda>(c, s).
       if c \<noteq> 0 then env_next cfg s (nxt + 1) else Inr (nxt, s))"
  by pat_completeness auto
termination
  by (relation "measure (\<lambda>(cfg, s, i). env_limit cfg s - i)")
    (auto dest: get_env_char_limit)

declare env_next.simps [simp del]

text \<open>The same loop in \<open>getenv\<close>, with its test of the size; None is the return of NULL.\<close>

definition sizeof_env_data :: "sys \<Rightarrow> nat" where
  "sizeof_env_data s = length (env_data (case bi_env s of Some env \<Rightarrow> env | None \<Rightarrow> flash_env s))"

function getenv_next :: "config \<Rightarrow> sys \<Rightarrow> nat \<Rightarrow> nat option result" where
  "getenv_next cfg s nxt =
     sbind (get_env_char cfg s nxt) (\<lambda>(c, s).
       if c \<noteq> 0 then
         if sizeof_env_data s \<le> nxt then Inr (None, s) else getenv_next cfg s (nxt + 1)
       else Inr (Some nxt, s))"
  by pat_completeness auto
termination
  by (relation "measure (\<lambda>(cfg, s, i). env_limit cfg s - i)")
    (auto dest: get_env_char_limit)

declare getenv_next.simps [simp del]

lemma getenv_next_limit:
  "getenv_next cfg s i = Inr (r, s') \<Longrightarrow>
    env_limit cfg s' = env_limit cfg s \<and> (\<forall>n. r = Some n \<longrightarrow> i \<le> n)"
proof (induction cfg s i arbitrary: r s' rule: getenv_next.induct)
  case (1 cfg s i)
  from 1(2) obtain c s1 where g: "get_env_char cfg s i = Inr (c, s1)"
    by (subst (asm) getenv_next.simps) (auto elim!: sbind_InrE)
  note l = get_env_char_limit [OF g]
  show ?case
  proof (cases "c \<noteq> 0 \<and> \<not> sizeof_env_data s1 \<le> i")
    case True
    then have "getenv_next cfg s1 (i + 1) = Inr (r, s')"
      using 1(2) by (subst (asm) getenv_next.simps) (simp add: g)
    from 1(1) [OF g refl _ _ this] True l show ?thesis by force
  next
    case False
    then show ?thesis using 1(2) l by (subst (asm) getenv_next.simps) (auto simp: g split: if_splits)
  qed
qed

function getenv_loop :: "config \<Rightarrow> sys \<Rightarrow> byte list \<Rightarrow> nat \<Rightarrow> byte list option result" where
  "getenv_loop cfg s name i =
     sbind (get_env_char cfg s i) (\<lambda>(c, s).
       if c = 0 then Inr (None, s)
       else sbind (getenv_next cfg s i) (\<lambda>(r, s).
         case r of
           None \<Rightarrow> Inr (None, s)
         | Some nxt \<Rightarrow>
             sbind (envmatch cfg s name i) (\<lambda>(val, s).
               case val of
                 None \<Rightarrow> getenv_loop cfg s name (nxt + 1)
               | Some val \<Rightarrow> sbind (get_env_addr cfg s val) (\<lambda>(p, s). Inr (Some p, s)))))"
  by pat_completeness auto
termination
  by (relation "measure (\<lambda>(cfg, s, name, i). env_limit cfg s - i)")
    (auto dest!: get_env_char_limit getenv_next_limit envmatch_limit)

declare getenv_loop.simps [simp del]

text \<open>
  \<open>getenv\<close>: the bytes from the value on, to the end of the array; the string is \<open>cstr_of\<close> of them.
\<close>

definition getenv :: "config \<Rightarrow> sys \<Rightarrow> byte list \<Rightarrow> byte list option result" where
  "getenv cfg s name = getenv_loop cfg s name 0"

lemma env_next_limit:
  "env_next cfg s i = Inr (n, s') \<Longrightarrow> env_limit cfg s' = env_limit cfg s \<and> i \<le> n"
proof (induction cfg s i arbitrary: n s' rule: env_next.induct)
  case (1 cfg s i)
  from 1(2) obtain c s1 where g: "get_env_char cfg s i = Inr (c, s1)"
    by (subst (asm) env_next.simps) (auto elim!: sbind_InrE)
  note l = get_env_char_limit [OF g]
  show ?case
  proof (cases "c \<noteq> 0")
    case True
    then have "env_next cfg s1 (i + 1) = Inr (n, s')"
      using 1(2) by (subst (asm) env_next.simps) (simp add: g)
    from 1(1) [OF g refl True this] l show ?thesis by force
  next
    case False
    then show ?thesis using 1(2) l by (subst (asm) env_next.simps) (auto simp: g)
  qed
qed

section \<open>Printing\<close>

text \<open>\<^verbatim>\<open>for (k=i; k<nxt; ++k) putc(get_env_char(bd, k));\<close>, \<open>n\<close> characters from \<open>k\<close> on.\<close>

primrec put_env_chars :: "config \<Rightarrow> nat \<Rightarrow> nat \<Rightarrow> sys \<Rightarrow> unit result" where
  "put_env_chars cfg k 0 s = Inr ((), s)"
| "put_env_chars cfg k (Suc n) s =
     sbind (get_env_char cfg s k) (\<lambda>(c, s). put_env_chars cfg (k + 1) n (putc c s))"

lemma putc_limit: "env_limit cfg (putc c s) = env_limit cfg s"
  by (simp add: putc_out env_limit_def split: option.split)

lemma put_env_chars_limit:
  "put_env_chars cfg k n s = Inr (u, s') \<Longrightarrow> env_limit cfg s' = env_limit cfg s"
proof (induction n arbitrary: k s)
  case (Suc n)
  from Suc.prems obtain c s1 where g: "get_env_char cfg s k = Inr (c, s1)"
    and p: "put_env_chars cfg (k + 1) n (putc c s1) = Inr (u, s')"
    by (auto elim!: sbind_InrE)
  from Suc.IH [OF p] get_env_char_limit [OF g] show ?case by (simp add: putc_limit)
qed simp

lemma ctrlc_limit:
  assumes "ctrlc s = Inr (r, s')"
  shows "\<forall>cfg. env_limit cfg s' = env_limit cfg s"
proof
  fix cfg
  have "env_limit cfg s'
      = env_limit cfg (s\<lparr>con_in := con_in s', ctrlc_was_pressed := ctrlc_was_pressed s'\<rparr>)"
    by (rule arg_cong [OF ctrlc_frame [OF assms]])
  also have "\<dots> = env_limit cfg s" by (simp add: env_limit_def split: option.split)
  finally show "env_limit cfg s' = env_limit cfg s" .
qed

text \<open>Every variable; the first component is the returned code, then \<open>i\<close>.\<close>

function printenv_all :: "config \<Rightarrow> sys \<Rightarrow> nat \<Rightarrow> (bool \<times> nat) result" where
  "printenv_all cfg s i =
     sbind (get_env_char cfg s i) (\<lambda>(c, s).
       if c = 0 then Inr ((False, i), s)
       else sbind (env_next cfg s i) (\<lambda>(nxt, s).
         sbind (put_env_chars cfg i (nxt - i) s) (\<lambda>(_, s).
           sbind (ctrlc (putc 10 s)) (\<lambda>(stopped, s).
             if stopped then Inr ((True, i), s) else printenv_all cfg s (nxt + 1)))))"
  by pat_completeness auto
termination
  by (relation "measure (\<lambda>(cfg, s, i). env_limit cfg s - i)")
    (auto dest!: get_env_char_limit env_next_limit put_env_chars_limit ctrlc_limit
      simp: putc_limit)

declare printenv_all.simps [simp del]

text \<open>One variable by name; the result is \<open>k\<close>, None where it is negative.\<close>

function printenv_one :: "config \<Rightarrow> sys \<Rightarrow> byte list \<Rightarrow> nat \<Rightarrow> nat option \<Rightarrow> nat option result" where
  "printenv_one cfg s name j k =
     sbind (get_env_char cfg s j) (\<lambda>(c, s).
       if c = 0 then Inr (k, s)
       else sbind (env_next cfg s j) (\<lambda>(nxt, s).
         sbind (envmatch cfg s name j) (\<lambda>(k, s).
           case k of
             None \<Rightarrow> printenv_one cfg s name (nxt + 1) None
           | Some k \<Rightarrow>
               sbind (put_env_chars cfg k (nxt - k) (putc (ch CHR ''='') (puts name s))) (\<lambda>(_, s).
                 Inr (Some (max k nxt), putc 10 s)))))"
  by pat_completeness auto
termination
  by (relation "measure (\<lambda>(cfg, s, name, j, k). env_limit cfg s - j)")
    (auto dest!: get_env_char_limit env_next_limit envmatch_limit)

declare printenv_one.simps [simp del]

text \<open>A string argument; a NULL or a missing one is no string.\<close>

definition argv_str :: "byte list option list \<Rightarrow> nat \<Rightarrow> stop + byte list" where
  "argv_str argv i =
     (if i < length argv then (case argv ! i of None \<Rightarrow> Inl BadAccess | Some s \<Rightarrow> Inr s)
      else Inl BadAccess)"

primrec printenv_names :: "config \<Rightarrow> byte list option list \<Rightarrow> nat list \<Rightarrow> sys \<Rightarrow> int result" where
  "printenv_names cfg argv [] s = Inr (0, s)"
| "printenv_names cfg argv (i # is) s =
     sbind (argv_str argv i) (\<lambda>name.
       sbind (printenv_one cfg s name 0 None) (\<lambda>(k, s).
         case k of
           None \<Rightarrow>
             sbind (printf cfg (lit ''## Error: \"%s\" not defined\<newline>'') [AStr (Some name)] s)
               (\<lambda>(_, s). Inr (1, s))
         | Some _ \<Rightarrow> printenv_names cfg argv is s))"

definition do_printenv :: "config \<Rightarrow> nat \<Rightarrow> byte list option list \<Rightarrow> sys \<Rightarrow> int result" where
  "do_printenv cfg argc argv s =
     (if argc = 1 then
        sbind (printenv_all cfg s 0) (\<lambda>((stopped, i), s).
          if stopped then
            sbind (printf cfg (lit ''\<newline> ** Abort\<newline>'') [] s) (\<lambda>(_, s). Inr (1, s))
          else
            sbind (printf cfg (lit ''\<newline>Environment size: %d/%d bytes\<newline>'')
              [AInt (of_nat i), AInt (of_nat (sizeof_env_data s))] s) (\<lambda>(_, s). Inr (0, s)))
      else printenv_names cfg argv [1..<argc] s)"

section \<open>Setting\<close>

definition ub :: "'a option \<Rightarrow> stop + 'a" where
  "ub r = (case r of None \<Rightarrow> Inl BadAccess | Some x \<Rightarrow> Inr x)"

text \<open>\<open>bi_env->data\<close>, through a pointer that may be NULL.\<close>

definition ram_data :: "sys \<Rightarrow> byte list option" where
  "ram_data s = map_option env_data (bi_env s)"

definition set_ram_data :: "byte list \<Rightarrow> sys \<Rightarrow> sys" where
  "set_ram_data d s = s\<lparr>bi_env := map_option (env_data_update (\<lambda>_. d)) (bi_env s)\<rparr>"

definition update_crc :: "sys \<Rightarrow> sys" where
  "update_crc s = s\<lparr>bi_env :=
     map_option (\<lambda>e. e\<lparr>env_crc := crc32 0 (Some (env_data e))\<rparr>) (bi_env s)\<rparr>"

text \<open>\<^verbatim>\<open>for (nxt = env; *nxt; ++nxt)\<close> through a pointer.\<close>

function seek0 :: "byte list \<Rightarrow> nat \<Rightarrow> nat option" where
  "seek0 d nxt =
     (if nxt < length d then if d ! nxt \<noteq> 0 then seek0 d (nxt + 1) else Some nxt else None)"
  by pat_completeness auto
termination by (relation "measure (\<lambda>(d, i). length d - i)") auto

declare seek0.simps [simp del]

lemma seek0_ge: "seek0 d i = Some n \<Longrightarrow> i \<le> n \<and> n < length d"
proof (induction d i rule: seek0.induct)
  case (1 d i)
  then show ?case by (subst (asm) (2) seek0.simps) (auto split: if_splits)
qed

text \<open>
  The search for the name: \<open>oldval\<close>, \<open>env\<close> and \<open>nxt\<close> after the loop.
\<close>

function env_search :: "config \<Rightarrow> byte list \<Rightarrow> sys \<Rightarrow> nat \<Rightarrow> nat \<Rightarrow> (nat option \<times> nat \<times> nat) result"
where
  "env_search cfg name s env nxt =
     sbind (ub (ram_data s)) (\<lambda>d.
       if \<not> env < length d then Inl BadAccess
       else if d ! env = 0 then Inr ((None, env, nxt), s)
       else sbind (ub (seek0 d env)) (\<lambda>nxt.
         sbind (envmatch cfg s name env) (\<lambda>(oldval, s).
           case oldval of
             Some v \<Rightarrow> Inr ((Some v, env, nxt), s)
           | None \<Rightarrow> env_search cfg name s (nxt + 1) nxt)))"
  by pat_completeness auto
termination
proof (relation "measure (\<lambda>(cfg, name, s, env, nxt). env_limit cfg s - env)", goal_cases)
  case (2 cfg name s env nxt d nxt' x r s')
  have "env_limit cfg s = length d"
    using 2(1) by (auto simp: ub_def ram_data_def env_limit_def split: option.splits)
  moreover have "env \<le> nxt'" "nxt' < length d"
    using 2(4) seek0_ge by (auto simp: ub_def split: option.splits)
  moreover have "env_limit cfg s' = env_limit cfg s"
    using 2(5,6) envmatch_limit [of cfg s name env r s'] by simp
  ultimately show ?case by simp
qed simp

declare env_search.simps [simp del]

text \<open>Moving the entries behind the deleted one to the front.\<close>

function env_shift :: "byte list \<Rightarrow> nat \<Rightarrow> nat \<Rightarrow> (byte list \<times> nat) option" where
  "env_shift d env nxt =
     (if nxt < length d \<and> env < length d then
        let c = d ! nxt; d = d[env := c] in
        if c = 0 then
          do { c' \<leftarrow> rd d (nxt + 1);
               if c' = 0 then Some (d, env) else env_shift d (env + 1) (nxt + 1) }
        else env_shift d (env + 1) (nxt + 1)
      else None)"
  by pat_completeness auto
termination by (relation "measure (\<lambda>(d, env, nxt). length d - nxt)") auto

declare env_shift.simps [simp del]

definition env_delete :: "byte list \<Rightarrow> nat \<Rightarrow> nat \<Rightarrow> byte list option" where
  "env_delete d env nxt =
     do { let nxt = nxt + 1;
          c \<leftarrow> rd d nxt;
          (d, env) \<leftarrow>
            (if c = 0 then
               if 0 < env then Some (d, env - 1)
               else do { d \<leftarrow> wr d env 0; Some (d, env) }
             else env_shift d env nxt);
          wr d (env + 1) 0 }"

text \<open>\<^verbatim>\<open>for (env = bd->bi_env_data; *env || *(env+1); ++env)\<close>\<close>

function env_end :: "byte list \<Rightarrow> nat \<Rightarrow> nat option" where
  "env_end d env =
     do { c \<leftarrow> rd d env;
          if c \<noteq> 0 then env_end d (env + 1)
          else do { c' \<leftarrow> rd d (env + 1);
                    if c' \<noteq> 0 then env_end d (env + 1) else Some env } }"
  by pat_completeness auto
termination by (relation "measure (\<lambda>(d, env). length d - env)") (auto simp: rd_def split: if_splits)

declare env_end.simps [simp del]

text \<open>
  A copy with its NUL, \<^verbatim>\<open>while ((*env = *name++) != '\0') env++\<close>; the pointer ends at the NUL.
\<close>

fun env_put :: "byte list \<Rightarrow> nat \<Rightarrow> byte list \<Rightarrow> (byte list \<times> nat) option" where
  "env_put d env [] = do { d \<leftarrow> wr d env 0; Some (d, env) }"
| "env_put d env (c # s) = do { d \<leftarrow> wr d env c; env_put d (env + 1) s }"

text \<open>The values, \<^verbatim>\<open>'='\<close> before the first and a space before every other.\<close>

primrec env_put_values :: "bool \<Rightarrow> byte list \<Rightarrow> nat \<Rightarrow> byte list list \<Rightarrow> (byte list \<times> nat) option"
where
  "env_put_values first d env [] = Some (d, env)"
| "env_put_values first d env (v # vs) =
     do { d \<leftarrow> wr d env (if first then ch CHR ''='' else ch CHR '' '');
          (d, env) \<leftarrow> env_put d (env + 1) v;
          env_put_values False d env vs }"

definition env_append ::
  "byte list \<Rightarrow> nat \<Rightarrow> byte list \<Rightarrow> byte list list \<Rightarrow> byte list option" where
  "env_append d env name vals =
     do { let env = (if 0 < env then env + 1 else env);
          (d, env) \<leftarrow> env_put d env name;
          (d, env) \<leftarrow> env_put_values True d env vals;
          wr d (env + 1) 0 }"

text \<open>\<open>len\<close>, what the new definition needs: the name, the signs between, two NULs.\<close>

definition setenv_len :: "byte list \<Rightarrow> byte list list \<Rightarrow> nat" where
  "setenv_len name vals = length name + 2 + sum_list (map (\<lambda>v. length v + 1) vals)"

text \<open>\<open>serial_setbrg\<close> of \<^verbatim>\<open>cpu/sa1100/serial.c\<close>: another rate ends in \<open>hang()\<close>.\<close>

definition serial_setbrg :: "int \<Rightarrow> sys \<Rightarrow> unit result" where
  "serial_setbrg baudrate s =
     (if baudrate \<in> set [1200, 9600, 19200, 38400, 57600, 115200]
      then Inr ((), s\<lparr>uart_baudrate := baudrate\<rparr>) else Inl Hang)"

text \<open>\<^verbatim>\<open>for (;;) { if (getc() == '\r') break; }\<close>\<close>

fun wait_enter :: "byte list \<Rightarrow> byte list option" where
  "wait_enter [] = None"
| "wait_enter (c # cs) = (if c = 13 then Some cs else wait_enter cs)"

text \<open>The baud rate at once; a returned code, where the rate is not supported.\<close>

definition setenv_baudrate :: "config \<Rightarrow> byte list option list \<Rightarrow> sys \<Rightarrow> int option result" where
  "setenv_baudrate cfg argv s =
     sbind (argv_str argv 2) (\<lambda>value.
       let baudrate = fst (simple_strtoul value 10) in
       if baudrate \<notin> set (baudrate_table cfg) then
         sbind (printf cfg (lit ''## Baudrate %d bps not supported\<newline>'') [AInt baudrate] s)
           (\<lambda>(_, s). Inr (Some 1, s))
       else
         sbind (printf cfg (lit ''## Switch baudrate to %d bps and press ENTER ...\<newline>'')
           [AInt baudrate] s) (\<lambda>(_, s).
         sbind (serial_setbrg (sint baudrate) s) (\<lambda>(_, s).
           case wait_enter (con_in s) of
             None \<Rightarrow> Inl NoInput
           | Some cs \<Rightarrow> Inr (None, s\<lparr>con_in := cs, bi_baudrate := sint baudrate\<rparr>))))"

text \<open>Deleting the definition the search found; a returned code, where it must stay.\<close>

definition setenv_delete ::
  "config \<Rightarrow> byte list \<Rightarrow> byte list option list \<Rightarrow> nat \<Rightarrow> nat \<Rightarrow> sys \<Rightarrow> int option result" where
  "setenv_delete cfg name argv env nxt s =
     (if \<not> CONFIG_ENV_OVERWRITE cfg \<and> (name = lit ''serial#'' \<or> name = lit ''ethaddr'') then
        sbind (printf cfg (lit ''Can't overwrite \"%s\"\<newline>'') [AStr (Some name)] s)
          (\<lambda>(_, s). Inr (Some 1, s))
      else
        sbind (if name = lit ''baudrate'' then setenv_baudrate cfg argv s else Inr (None, s))
          (\<lambda>(ret, s).
            case ret of
              Some r \<Rightarrow> Inr (Some r, s)
            | None \<Rightarrow>
                sbind (ub (ram_data s)) (\<lambda>d.
                sbind (ub (env_delete d env nxt)) (\<lambda>d. Inr (None, set_ram_data d s)))))"

text \<open>Numbers between single separators, \<open>s = (*e) ? e+1 : e\<close>; every one 0 for a NULL string.\<close>

primrec parse_numbers :: "nat \<Rightarrow> u32 \<Rightarrow> byte list option \<Rightarrow> u32 list" where
  "parse_numbers 0 base s = []"
| "parse_numbers (Suc n) base s =
     (case s of
        None \<Rightarrow> 0 # parse_numbers n base None
      | Some s \<Rightarrow> let (v, e) = simple_strtoul s base in v # parse_numbers n base (Some (tl e)))"

definition parse_enetaddr :: "byte list option \<Rightarrow> byte list" where
  "parse_enetaddr s = map ucast (parse_numbers 6 16 s)"

definition parse_ip_addr :: "byte list option \<Rightarrow> u32" where
  "parse_ip_addr s = foldl (\<lambda>ip v. push_bit 8 ip OR (v AND 0xFF)) 0 (parse_numbers 4 10 s)"

text \<open>
  \<open>copy_filename\<close> of \<^verbatim>\<open>net/net.c\<close>: the bytes it writes; quotes around the name are dropped.
\<close>

fun copy_filename_loop :: "byte list \<Rightarrow> nat \<Rightarrow> byte list" where
  "copy_filename_loop [] n = []"
| "copy_filename_loop (c # src) n =
     (if 1 < n \<and> c \<noteq> ch CHR ''\"'' then c # copy_filename_loop src (n - 1) else [])"

definition copy_filename :: "byte list \<Rightarrow> nat \<Rightarrow> byte list" where
  "copy_filename src n =
     (let (src, n) = (if hd0 src = ch CHR ''\"'' then (tl src, n - 1) else (src, n))
      in copy_filename_loop src n @ [0])"

definition set_BootFile :: "byte list \<Rightarrow> sys \<Rightarrow> sys" where
  "set_BootFile src s =
     (let t = copy_filename src (length (BootFile s))
      in s\<lparr>BootFile := t @ drop (length t) (BootFile s)\<rparr>)"

text \<open>What follows the new value of some variables.\<close>

definition setenv_hooks :: "byte list \<Rightarrow> byte list \<Rightarrow> sys \<Rightarrow> sys" where
  "setenv_hooks name value s =
     (if name = lit ''ethaddr'' then s\<lparr>bi_enetaddr := parse_enetaddr (Some value)\<rparr>
      else if name = lit ''ipaddr'' then s\<lparr>bi_ip_addr := parse_ip_addr (Some value)\<rparr>
      else if name = lit ''loadaddr'' then s\<lparr>load_addr := fst (simple_strtoul value 16)\<rparr>
      else if name = lit ''bootfile'' then set_BootFile value s
      else s)"

primrec argv_strs :: "byte list option list \<Rightarrow> nat list \<Rightarrow> stop + byte list list" where
  "argv_strs argv [] = Inr []"
| "argv_strs argv (i # is) =
     sbind (argv_str argv i) (\<lambda>v. sbind (argv_strs argv is) (\<lambda>vs. Inr (v # vs)))"

text \<open>
  \<open>_do_setenv\<close>.  Its first test, \<^verbatim>\<open>!bd->bi_env_data\<close>, is of the address of an array in the structure
  and never true; without a RAM copy the code goes on through a NULL pointer.  The test of the
  length is the code's: against the whole array, not against what is left of it.
\<close>

definition u_do_setenv :: "config \<Rightarrow> nat \<Rightarrow> byte list option list \<Rightarrow> sys \<Rightarrow> int result" where
  "u_do_setenv cfg argc argv s =
     sbind (argv_str argv 1) (\<lambda>name.
     sbind (env_search cfg name s 0 0) (\<lambda>((oldval, env, nxt), s).
     sbind (case oldval of None \<Rightarrow> Inr (None, s) | Some _ \<Rightarrow> setenv_delete cfg name argv env nxt s)
       (\<lambda>(ret, s).
         case ret of
           Some r \<Rightarrow> Inr (r, s)
         | None \<Rightarrow>
             if argc < 3 \<or> argv ! 2 = None then Inr (0, update_crc s)
             else
               sbind (argv_strs argv [2..<argc]) (\<lambda>vals.
               sbind (ub (ram_data s)) (\<lambda>d.
               sbind (ub (env_end d 0)) (\<lambda>env.
                 if length d < setenv_len name vals then
                   sbind (printf cfg (lit ''## Error: environment overflow, \"%s\" deleted\<newline>'')
                     [AStr (Some name)] s) (\<lambda>(_, s). Inr (1, s))
                 else
                   sbind (ub (env_append d env name vals)) (\<lambda>d.
                     Inr (0, setenv_hooks name (hd vals) (update_crc (set_ram_data d s))))))))))"

definition setenv :: "config \<Rightarrow> byte list \<Rightarrow> byte list option \<Rightarrow> sys \<Rightarrow> unit result" where
  "setenv cfg varname varvalue s =
     sbind (u_do_setenv cfg 3 [Some (lit ''setenv''), Some varname, varvalue, None] s)
       (\<lambda>(_, s). Inr ((), s))"

definition do_setenv :: "config \<Rightarrow> byte list \<Rightarrow> nat \<Rightarrow> byte list option list \<Rightarrow> sys \<Rightarrow> int result" where
  "do_setenv cfg usage argc argv s =
     (if argc < 2 then
        sbind (printf cfg (lit ''Usage:\<newline>%s\<newline>'') [AStr (Some usage)] s) (\<lambda>(_, s). Inr (1, s))
      else u_do_setenv cfg argc argv s)"

section \<open>Start-up\<close>

definition env_init :: "sys \<Rightarrow> sys" where
  "env_init s = s\<lparr>bi_env := None\<rparr>"

definition board_env_copy :: "sys \<Rightarrow> env_t option \<times> sys" where
  "board_env_copy s =
     (let (ok, s) = check_crc s in (if ok then Some (flash_env s) else None, s))"

text \<open>The first half of \<open>env_relocate\<close>: the copy, from flash or from the default environment.\<close>

definition env_copy :: "config \<Rightarrow> env_t \<Rightarrow> sys \<Rightarrow> unit result" where
  "env_copy cfg block s =
     (case board_env_copy s of
        (Some env, s) \<Rightarrow> Inr ((), s\<lparr>bi_env := Some env\<rparr>)
      | (None, s) \<Rightarrow>
          sbind (printf cfg (lit ''*** Using default environment\<newline>'') [] s) (\<lambda>(_, s).
            let n = length (default_environment cfg) in
            if length (env_data block) < n then Inl BadAccess
            else Inr ((), update_crc (s\<lparr>bi_env := Some (block
                   \<lparr>env_data := default_environment cfg @ drop n (env_data block)\<rparr>)\<rparr>))))"

text \<open>
  \<open>malloced\<close> is what \<open>malloc\<close> returned: the block with whatever it holds, None for NULL.
\<close>

definition env_relocate :: "config \<Rightarrow> env_t option \<Rightarrow> sys \<Rightarrow> unit result" where
  "env_relocate cfg malloced s =
     (case malloced of None \<Rightarrow> Inl BadAccess | Some block \<Rightarrow>
     sbind (env_copy cfg block s) (\<lambda>(_, s).
     sbind (getenv cfg s (lit ''ethaddr'')) (\<lambda>(p, s).
     let s = s\<lparr>bi_enetaddr := parse_enetaddr (map_option cstr_of p)\<rparr> in
     sbind (getenv cfg s (lit ''ipaddr'')) (\<lambda>(p, s).
     let s = s\<lparr>bi_ip_addr := parse_ip_addr (map_option cstr_of p)\<rparr> in
     sbind (getenv cfg s (lit ''loadaddr'')) (\<lambda>(p, s).
     let s = (case p of None \<Rightarrow> s
              | Some p \<Rightarrow> s\<lparr>load_addr := fst (simple_strtoul (cstr_of p) 16)\<rparr>) in
     sbind (getenv cfg s (lit ''bootfile'')) (\<lambda>(p, s).
       Inr ((), case p of None \<Rightarrow> s | Some p \<Rightarrow> set_BootFile (cstr_of p) s)))))))"

text \<open>\<open>serial_init\<close> of \<^verbatim>\<open>cpu/sa1100/serial.c\<close> takes the rate from the environment.\<close>

definition serial_init :: "config \<Rightarrow> sys \<Rightarrow> unit result" where
  "serial_init cfg s =
     sbind (getenv cfg s (lit ''baudrate'')) (\<lambda>(p, s).
       let s = (case p of None \<Rightarrow> s
                | Some p \<Rightarrow> s\<lparr>bi_baudrate := sint (fst (simple_strtoul (cstr_of p) 10))\<rparr>)
       in serial_setbrg (bi_baudrate s) s)"

end
