(* ===== verification/EnvStore.thy ===== *)
theory EnvStore
  imports Env "HOL-Library.AList"
begin

text \<open>
  What the environment promises: the bytes are a list of variables with distinct names,
  \<open>getenv\<close> is the lookup in it, and \<open>setenv\<close> deletes and appends.
\<close>

section \<open>The list of variables\<close>

definition entry :: "byte list \<times> byte list \<Rightarrow> byte list" where
  "entry x = fst x @ [ch CHR ''=''] @ snd x @ [0]"

abbreviation entries :: "(byte list \<times> byte list) list \<Rightarrow> byte list" where
  "entries vars \<equiv> concat (map entry vars)"

definition valid_name :: "byte list \<Rightarrow> bool" where
  "valid_name n = (0 \<notin> set n \<and> ch CHR ''='' \<notin> set n)"

definition valid_vars :: "(byte list \<times> byte list) list \<Rightarrow> bool" where
  "valid_vars vars =
     ((\<forall>x \<in> set vars. valid_name (fst x) \<and> 0 \<notin> set (snd x)) \<and> distinct (map fst vars))"

text \<open>\<open>rest\<close> is what lies behind the closing NUL; an empty list is two NULs as well.\<close>

definition env_rep :: "byte list \<Rightarrow> (byte list \<times> byte list) list \<Rightarrow> byte list \<Rightarrow> bool" where
  "env_rep d vars rest =
     (d = entries vars @ 0 # rest \<and> valid_vars vars \<and> (vars = [] \<longrightarrow> rest \<noteq> [] \<and> hd rest = 0))"

lemma eq_char_nonzero [simp]: "ch CHR ''='' \<noteq> (0 :: byte)" "(0 :: byte) \<noteq> ch CHR ''=''"
  by simp_all

lemma valid_vars_Cons [simp]:
  "valid_vars ((n, v) # vars) =
    (valid_name n \<and> 0 \<notin> set v \<and> n \<notin> fst ` set vars \<and> valid_vars vars)"
  by (auto simp: valid_vars_def)

lemma valid_vars_Nil [simp]: "valid_vars []"
  by (simp add: valid_vars_def)

lemma valid_vars_append:
  "valid_vars (us @ ws) =
    (valid_vars us \<and> valid_vars ws \<and> fst ` set us \<inter> fst ` set ws = {})"
  by (auto simp: valid_vars_def)

lemma entry_pair: "entry (n, v) = n @ [ch CHR ''=''] @ v @ [0]"
  by (simp add: entry_def)

lemma entry_nonempty [simp]: "entry x \<noteq> []"
  by (simp add: entry_def)

lemma entries_eq_Nil: "entries vars = [] \<longleftrightarrow> vars = []"
  by (cases vars) simp_all

lemma entries_pos: "vars \<noteq> [] \<Longrightarrow> 0 < length (entries vars)"
  by (cases vars) (simp_all add: entry_def)

section \<open>Reading\<close>

text \<open>The object \<open>get_env_char\<close> reads, and what reading does to the state.\<close>

definition active :: "config \<Rightarrow> sys \<Rightarrow> byte list" where
  "active cfg s =
     (case bi_env s of Some env \<Rightarrow> env_data env
      | None \<Rightarrow> if fst (check_crc s) then env_data (flash_env s) else default_environment cfg)"

definition seen :: "sys \<Rightarrow> sys \<Rightarrow> bool" where
  "seen s s' = (s' = s \<or> bi_env s = None \<and> s' = snd (check_crc s))"

lemma check_crc_again: "check_crc (snd (check_crc s)) = check_crc s"
  by (simp add: check_crc_def Let_def)

lemma check_crc_bi_env [simp]: "bi_env (snd (check_crc s)) = bi_env s"
  "flash_env (snd (check_crc s)) = flash_env s"
  by (simp_all add: check_crc_def Let_def)

lemma check_crc_flash: "check_crc s = (b, s') \<Longrightarrow> flash_env s' = flash_env s"
  by (auto simp: check_crc_def Let_def)

lemma seen_refl [simp]: "seen s s"
  by (simp add: seen_def)

lemma seen_trans: "seen s s' \<Longrightarrow> seen s' s'' \<Longrightarrow> seen s s''"
  by (auto simp: seen_def check_crc_again)

lemma seen_active: "seen s s' \<Longrightarrow> active cfg s' = active cfg s"
  by (auto simp: seen_def active_def check_crc_again split: option.splits)

lemma seen_sizeof: "seen s s' \<Longrightarrow> sizeof_env_data s' = sizeof_env_data s"
  by (auto simp: seen_def sizeof_env_data_def split: option.splits)

lemma get_env_char_active:
  assumes "i < length (active cfg s)"
  shows "\<exists>s'. get_env_char cfg s i = Inr (active cfg s ! i, s') \<and> seen s s'"
  using assms
  by (auto simp: get_env_char_def active_def seen_def board_env_getchar_def split: option.splits
      prod.splits if_splits dest: check_crc_flash)

lemma get_env_addr_active:
  assumes "i < length (active cfg s)"
  shows "\<exists>s'. get_env_addr cfg s i = Inr (drop i (active cfg s), s') \<and> seen s s'"
  using assms
  by (auto simp: get_env_addr_def active_def seen_def board_env_getaddr_def split: option.splits
      prod.splits if_splits dest: check_crc_flash)

text \<open>The end of a string: from its start to its NUL.\<close>

lemma getenv_next_string:
  assumes "active cfg s = pre @ t @ 0 # post" "0 \<notin> set t"
    "length pre + length t \<le> sizeof_env_data s"
  shows "\<exists>s'. getenv_next cfg s (length pre) = Inr (Some (length pre + length t), s') \<and> seen s s'"
  using assms
proof (induction t arbitrary: s pre)
  case Nil
  then have "length pre < length (active cfg s)" "active cfg s ! length pre = 0" by simp_all
  with get_env_char_active [of "length pre" cfg s] show ?case
    by (subst getenv_next.simps) auto
next
  case (Cons c t)
  then have "length pre < length (active cfg s)" "active cfg s ! length pre = c" by simp_all
  with get_env_char_active [of "length pre" cfg s] obtain s1 where
    g: "get_env_char cfg s (length pre) = Inr (c, s1)" and s1: "seen s s1" by auto
  have "active cfg s1 = (pre @ [c]) @ t @ 0 # post" "sizeof_env_data s1 = sizeof_env_data s"
    using Cons.prems seen_active [OF s1] seen_sizeof [OF s1] by simp_all
  with Cons.IH [of s1 "pre @ [c]"] Cons.prems obtain s2 where
    "getenv_next cfg s1 (length pre + 1) = Inr (Some (length pre + 1 + length t), s2)" "seen s1 s2"
    by auto
  moreover have "\<not> sizeof_env_data s1 \<le> length pre" "c \<noteq> 0"
    using Cons.prems seen_sizeof [OF s1] by auto
  ultimately show ?case
    using g s1 seen_trans [OF s1] by (subst getenv_next.simps) auto
qed

text \<open>A name against an entry.\<close>

lemma envmatch_entry:
  assumes "active cfg s = pre @ n @ ch CHR ''='' # post" "valid_name name" "valid_name n"
  shows "\<exists>s'. envmatch cfg s name (length pre) =
      Inr (if name = n then Some (length pre + length n + 1) else None, s') \<and> seen s s'"
  using assms
proof (induction name arbitrary: n s pre)
  case Nil
  let ?c = "active cfg s ! length pre"
  have l: "length pre < length (active cfg s)" using Nil by simp
  obtain s1 where g: "get_env_char cfg s (length pre) = Inr (?c, s1)" "seen s s1"
    using get_env_char_active [OF l] by auto
  obtain s2 where "get_env_char cfg s1 (length pre) = Inr (?c, s2)" "seen s1 s2"
    using get_env_char_active [of "length pre" cfg s1] l seen_active [OF g(2)] by auto
  moreover have "?c \<noteq> 0" "?c = ch CHR ''='' \<longleftrightarrow> n = []"
    using Nil by (cases n; auto simp: valid_name_def nth_append)+
  ultimately show ?case using g seen_trans [OF g(2)] by auto
next
  case (Cons x name)
  let ?c = "active cfg s ! length pre"
  have l: "length pre < length (active cfg s)" using Cons.prems by simp
  obtain s1 where g: "get_env_char cfg s (length pre) = Inr (?c, s1)" "seen s s1"
    using get_env_char_active [OF l] by auto
  have x: "x \<noteq> ch CHR ''=''" using Cons.prems by (auto simp: valid_name_def)
  show ?case
  proof (cases "n \<noteq> [] \<and> hd n = x")
    case True
    then obtain n' where n: "n = x # n'" by (cases n) auto
    then have "active cfg s1 = (pre @ [x]) @ n' @ ch CHR ''='' # post" "valid_name name" "valid_name n'"
      using Cons.prems seen_active [OF g(2)] by (auto simp: valid_name_def)
    from Cons.IH [OF this] obtain s2 where
      "envmatch cfg s1 name (length pre + 1) =
        Inr (if name = n' then Some (length pre + 1 + length n' + 1) else None, s2)" "seen s1 s2"
      by auto
    moreover have "?c = x" using Cons.prems n by simp
    ultimately show ?thesis using g x n seen_trans [OF g(2)] by auto
  next
    case False
    then have "?c \<noteq> x" using Cons.prems x by (cases n) auto
    moreover have "x # name \<noteq> n" using False by auto
    ultimately show ?thesis using g by auto
  qed
qed

lemma cstr_of_prefix: "0 \<notin> set v \<Longrightarrow> cstr_of (v @ 0 # r) = v"
  by (rule cstr_of_append0)

text \<open>The loop of \<open>getenv\<close> is the lookup.\<close>

lemma getenv_loop_entries:
  assumes "active cfg s = pre @ entries vars @ 0 # rest" "valid_vars vars" "valid_name name"
    "length pre + length (entries vars) \<le> sizeof_env_data s"
  shows "\<exists>p s'. getenv_loop cfg s name (length pre) = Inr (p, s') \<and> seen s s'
    \<and> map_option cstr_of p = map_of vars name"
  using assms
proof (induction vars arbitrary: s pre)
  case Nil
  then have "length pre < length (active cfg s)" "active cfg s ! length pre = 0" by simp_all
  with get_env_char_active [of "length pre" cfg s] show ?case
    by (subst getenv_loop.simps) auto
next
  case (Cons x vars)
  obtain n v where x: "x = (n, v)" by (cases x)
  let ?t = "n @ ch CHR ''='' # v"
  let ?post = "entries vars @ 0 # rest"
  have a: "active cfg s = pre @ ?t @ 0 # ?post" using Cons.prems(1) by (simp add: x entry_pair)
  have nv: "valid_name n" "0 \<notin> set v" "valid_vars vars" using Cons.prems(2) by (simp_all add: x)
  then have t: "0 \<notin> set ?t" by (simp add: valid_name_def)
  have l: "length pre < length (active cfg s)" using a by simp
  obtain c s1 where g: "get_env_char cfg s (length pre) = Inr (c, s1)" "seen s s1" and
    c: "c = active cfg s ! length pre"
    using get_env_char_active [OF l] by auto
  have "c \<in> set ?t" unfolding c a by (cases n) (simp_all add: nth_append)
  with t have "c \<noteq> 0" by auto
  have a1: "active cfg s1 = pre @ ?t @ 0 # ?post" using a seen_active [OF g(2)] by simp
  have z: "length pre + length ?t \<le> sizeof_env_data s1"
    using Cons.prems(4) seen_sizeof [OF g(2)] by (simp add: x entry_pair)
  obtain s2 where nx: "getenv_next cfg s1 (length pre) = Inr (Some (length pre + length ?t), s2)"
    and s2: "seen s1 s2" using getenv_next_string [OF a1 t z] by auto
  have a2: "active cfg s2 = pre @ n @ ch CHR ''='' # (v @ 0 # ?post)"
    using a1 seen_active [OF s2] by simp
  obtain s3 where m: "envmatch cfg s2 name (length pre) =
      Inr (if name = n then Some (length pre + length n + 1) else None, s3)" and s3: "seen s2 s3"
    using envmatch_entry [OF a2 Cons.prems(3) nv(1)] by auto
  have s03: "seen s s3" using g(2) s2 s3 by (blast intro: seen_trans)
  have a3: "active cfg s3 = active cfg s" using seen_active [OF s03] .
  show ?case
  proof (cases "name = n")
    case True
    have "length pre + length n + 1 < length (active cfg s3)" unfolding a3 a by simp
    from get_env_addr_active [OF this] obtain s4 where
      "get_env_addr cfg s3 (length pre + length n + 1) =
        Inr (drop (length pre + length n + 1) (active cfg s), s4)" "seen s3 s4"
      unfolding a3 by auto
    moreover have "drop (length pre + length n + 1) (active cfg s) = v @ 0 # ?post"
      unfolding a by simp
    ultimately show ?thesis
      using g \<open>c \<noteq> 0\<close> nx m True nv(2) seen_trans [OF s03]
      by (subst getenv_loop.simps) (simp add: x cstr_of_prefix)
  next
    case False
    have a4: "active cfg s3 = (pre @ entry x) @ entries vars @ 0 # rest"
      unfolding a3 using Cons.prems(1) by simp
    have "length (pre @ entry x) + length (entries vars) \<le> sizeof_env_data s3"
      using Cons.prems(4) seen_sizeof [OF s03] by simp
    from Cons.IH [OF a4 nv(3) Cons.prems(3) this] obtain p s4 where
      "getenv_loop cfg s3 name (length pre + length ?t + 1) = Inr (p, s4)" "seen s3 s4"
      "map_option cstr_of p = map_of vars name"
      by (auto simp: x entry_pair)
    then show ?thesis
      using g \<open>c \<noteq> 0\<close> nx m False seen_trans [OF s03]
      by (subst getenv_loop.simps) (simp add: x)
  qed
qed

lemma getenv_lookup:
  assumes "env_rep (active cfg s) vars rest" "valid_name name"
    "length (entries vars) \<le> sizeof_env_data s"
  shows "\<exists>p s'. getenv cfg s name = Inr (p, s') \<and> seen s s'
    \<and> map_option cstr_of p = map_of vars name"
  using getenv_loop_entries [of cfg s "[]" vars rest name] assms
  by (simp add: getenv_def env_rep_def)

section \<open>Runs of strings\<close>

text \<open>
  A run of non-empty strings each with its NUL: two NULs meet at its end only.  The loops of
  \<open>_do_setenv\<close> stop at two NULs.
\<close>

fun run :: "byte list \<Rightarrow> bool" where
  "run [] = False"
| "run [c] = (c = 0)"
| "run (c # c' # m) = ((c \<noteq> 0 \<or> c' \<noteq> 0) \<and> run (c' # m))"

lemma run_string: "0 \<notin> set t \<Longrightarrow> t \<noteq> [] \<Longrightarrow> run (t @ [0])"
proof (induction t)
  case (Cons c t)
  then show ?case by (cases t) auto
qed simp

lemma run_append: "run m \<Longrightarrow> run (c # m') \<Longrightarrow> c \<noteq> 0 \<Longrightarrow> run (m @ c # m')"
  by (induction m rule: run.induct) auto

lemma valid_entry: "valid_name n \<Longrightarrow> 0 \<notin> set v \<Longrightarrow> run (entry (n, v)) \<and> hd (entry (n, v)) \<noteq> 0"
  using run_string [of "n @ ch CHR ''='' # v"]
  by (cases n) (auto simp: entry_pair valid_name_def)

lemma run_entries:
  assumes "vars \<noteq> []" "valid_vars vars"
  shows "run (entries vars) \<and> hd (entries vars) \<noteq> 0"
  using assms
proof (induction vars)
  case (Cons x vars)
  obtain n v where x: "x = (n, v)" by (cases x)
  then have e: "run (entry x)" "hd (entry x) \<noteq> 0" using Cons.prems valid_entry [of n v] by auto
  show ?case
  proof (cases "vars = []")
    case False
    with Cons x have "run (entries vars)" "hd (entries vars) \<noteq> 0" by simp_all
    moreover from False obtain c m where "entries vars = c # m"
      by (metis entries_eq_Nil list.exhaust)
    ultimately show ?thesis using e run_append [of "entry x" c m] by simp
  qed (use e in simp)
qed simp

lemma env_end_run:
  "run m \<Longrightarrow> d = a @ m @ 0 # r \<Longrightarrow> env_end d (length a) = Some (length a + length m - 1)"
proof (induction m arbitrary: a rule: run.induct)
  case (2 c)
  then show ?case by (subst env_end.simps) (simp add: nth_append)
next
  case (3 c c' m)
  have "env_end d (length a + 1) = Some (length a + length (c # c' # m) - 1)"
    using 3(1) [of "a @ [c]"] 3(2,3) by simp
  with 3(2,3) show ?case by (subst env_end.simps) (auto simp: nth_append)
qed simp

lemma env_shift_run:
  "run m \<Longrightarrow> g \<noteq> [] \<Longrightarrow> \<exists>g'. length g' = length g \<and>
    env_shift (a @ g @ m @ 0 # r) (length a) (length a + length g)
      = Some (a @ m @ g' @ 0 # r, length a + length m - 1)"
proof (induction m arbitrary: a g rule: run.induct)
  case (2 c)
  obtain x g0 where g: "g = x # g0" using 2(2) by (cases g) auto
  show ?case
    using 2 g by (intro exI [of _ "g0 @ [c]"], subst env_shift.simps)
      (simp add: nth_append Let_def list_update_append)
next
  case (3 c c' m)
  obtain x g0 where g: "g = x # g0" using 3(3) by (cases g) auto
  let ?d = "a @ c # g0 @ c # c' # m @ 0 # r"
  have u: "(a @ g @ (c # c' # m) @ 0 # r)[length a := c] = ?d"
    by (simp add: g list_update_append)
  obtain g' where "length g' = length g"
    "env_shift ?d (length a + 1) (length a + length g + 1)
      = Some (a @ c # c' # m @ g' @ 0 # r, length a + length (c # c' # m) - 1)"
    using 3(1) [of "g0 @ [c]" "a @ [c]"] 3(2) g by auto
  moreover have "rd ?d (length a + length g + 1) = Some c'"
    "(a @ g @ (c # c' # m) @ 0 # r) ! (length a + length g) = c"
    by (simp_all add: g nth_append rd_def)
  moreover have "c \<noteq> 0 \<or> c' \<noteq> 0" using 3(2) by simp
  ultimately have "env_shift (a @ g @ (c # c' # m) @ 0 # r) (length a) (length a + length g)
      = Some (a @ c # c' # m @ g' @ 0 # r, length a + length (c # c' # m) - 1)"
    by (subst env_shift.simps) (auto simp only: u Let_def, simp_all)
  then show ?case using \<open>length g' = length g\<close> by auto
qed simp

text \<open>Deleting one entry.\<close>

lemma env_delete_entry:
  assumes "valid_vars (us @ (n, v) # ws)" "d = entries (us @ (n, v) # ws) @ 0 # rest"
  shows "\<exists>d' rest'. env_delete d (length (entries us))
      (length (entries us) + length (entry (n, v)) - 1) = Some d'
    \<and> env_rep d' (us @ ws) rest' \<and> length d' = length d"
proof (cases "ws = []")
  case True
  let ?a = "entries us"
  let ?e = "entry (n, v)"
  have d: "d = ?a @ ?e @ 0 # rest" using assms(2) True by simp
  have "2 \<le> length ?e" by (simp add: entry_pair)
  then obtain c c' e where e: "?e = c # c' # e" by (auto simp: numeral_2_eq_2 Suc_le_length_iff)
  have vu: "valid_vars us" using assms(1) by (simp add: valid_vars_append)
  have r: "rd d (length ?a + length ?e - 1 + 1) = Some 0"
    unfolding d e by (simp add: nth_append)
  show ?thesis
  proof (cases "us = []")
    case u: True
    have "env_delete d 0 (length ?e - 1) = Some (0 # 0 # e @ 0 # rest)"
      using r u unfolding env_delete_def d by (simp add: e)
    then show ?thesis using u True by (simp add: env_rep_def d e)
  next
    case False
    then have "0 < length ?a" by (rule entries_pos)
    then have "env_delete d (length ?a) (length ?a + length ?e - 1) = Some (d[length ?a := 0])"
      using r unfolding env_delete_def Let_def by (simp add: d e)
    moreover have "d[length ?a := 0] = ?a @ 0 # (c' # e @ 0 # rest)" by (simp add: d e)
    ultimately show ?thesis using vu True False by (simp add: env_rep_def d e)
  qed
next
  case False
  let ?a = "entries us"
  let ?g = "entry (n, v)"
  let ?m = "entries ws"
  have vv: "valid_vars ws" "valid_vars (us @ ws)" using assms(1) by (auto simp: valid_vars_append)
  have m: "run ?m" "hd ?m \<noteq> 0" using run_entries [OF False vv(1)] by simp_all
  have d: "d = ?a @ ?g @ ?m @ 0 # rest" using assms(2) by simp
  from env_shift_run [OF m(1), of ?g ?a rest] obtain g' where g': "length g' = length ?g"
    and s: "env_shift d (length ?a) (length ?a + length ?g)
      = Some (?a @ ?m @ g' @ 0 # rest, length ?a + length ?m - 1)"
    unfolding d by auto
  obtain x g0 where x: "g' = x # g0" using g' by (cases g') auto
  have ne: "?m \<noteq> []" using False by (simp only: entries_eq_Nil not_False_eq_True)
  have "d ! (length ?a + length ?g) = hd ?m"
    unfolding d using ne by (simp add: nth_append hd_conv_nth)
  moreover have i: "length ?a + length ?g - 1 + 1 = length ?a + length ?g"
    by (cases "?g") simp_all
  ultimately have r: "rd d (length ?a + length ?g) = Some (hd ?m)"
    using ne by (simp add: rd_def d)
  have p: "length ?a + length ?m - 1 + 1 = length (?a @ ?m)"
    using ne by (cases "?m") simp_all
  have "env_delete d (length ?a) (length ?a + length ?g - 1)
      = wr (?a @ ?m @ g' @ 0 # rest) (length (?a @ ?m)) 0"
    unfolding env_delete_def i Let_def using r m(2) s p by simp
  also have "\<dots> = Some (?a @ ?m @ 0 # (g0 @ 0 # rest))"
    by (simp add: x wr_def list_update_append)
  finally show ?thesis using vv(2) False g' x by (simp add: env_rep_def d)
qed

section \<open>Writing\<close>

text \<open>\<open>t\<close> written over \<open>d\<close> from index \<open>i\<close> on.\<close>

definition splice :: "byte list \<Rightarrow> nat \<Rightarrow> byte list \<Rightarrow> byte list" where
  "splice d i t = take i d @ t @ drop (i + length t) d"

lemma splice_length: "i + length t \<le> length d \<Longrightarrow> length (splice d i t) = length d"
  by (simp add: splice_def)

lemma splice_nth: "i + length t \<le> length d \<Longrightarrow> j < length d \<Longrightarrow>
    splice d i t ! j = (if i \<le> j \<and> j < i + length t then t ! (j - i) else d ! j)"
  by (auto simp: splice_def nth_append)

lemma splice_Cons:
  assumes "i + length (c # t) \<le> length d"
  shows "splice (d[i := c]) (i + 1) t = splice d i (c # t)"
proof (rule nth_equalityI)
  fix j assume "j < length (splice (d[i := c]) (i + 1) t)"
  then have "j < length d" using assms by (simp add: splice_length)
  then show "splice (d[i := c]) (i + 1) t ! j = splice d i (c # t) ! j"
    using assms by (auto simp: splice_nth nth_list_update nth_Cons')
qed (use assms in \<open>simp add: splice_length\<close>)

lemma splice_splice:
  assumes "i + length t + length u \<le> length d" "0 < length u"
  shows "splice (splice d i (t @ [0])) (i + length t) u = splice d i (t @ u)"
proof -
  have i: "i + length (t @ [0]) \<le> length d" "i + length (t @ u) \<le> length d"
    using assms by (simp_all del: length_greater_0_conv)
  have o: "i + length t + length u \<le> length (splice d i (t @ [0]))"
    using assms(1) by (simp only: splice_length [OF i(1)])
  show ?thesis
  proof (rule nth_equalityI)
    fix j assume "j < length (splice (splice d i (t @ [0])) (i + length t) u)"
    then have j: "j < length d" by (simp only: splice_length [OF o] splice_length [OF i(1)])
    then have j': "j < length (splice d i (t @ [0]))" by (simp only: splice_length [OF i(1)])
    show "splice (splice d i (t @ [0])) (i + length t) u ! j = splice d i (t @ u) ! j"
      using assms(2) unfolding splice_nth [OF o j'] splice_nth [OF i(1) j] splice_nth [OF i(2) j]
      by (auto simp: nth_append simp del: length_greater_0_conv)
  qed (simp only: splice_length [OF o] splice_length [OF i(1)] splice_length [OF i(2)])
qed

lemma env_put_splice:
  "env_put d i t = (if i + length t < length d then Some (splice d i (t @ [0]), i + length t)
    else None)"
proof (induction t arbitrary: d i)
  case Nil
  show ?case by (auto simp: wr_def splice_def upd_conv_take_nth_drop)
next
  case (Cons c t)
  show ?case
    using splice_Cons [of i c "t @ [0]" d] by (auto simp: Cons.IH wr_def)
qed

fun vals_text :: "bool \<Rightarrow> byte list list \<Rightarrow> byte list" where
  "vals_text first [] = []"
| "vals_text first (v # vs) =
     (if first then ch CHR ''='' else ch CHR '' '') # v @ vals_text False vs"

text \<open>The values behind a string that has just been put there.\<close>

lemma env_put_values_splice:
  assumes "i + length t < length d"
  shows "env_put_values first (splice d i (t @ [0])) (i + length t) vs =
    (if i + length (t @ vals_text first vs) < length d
     then Some (splice d i (t @ vals_text first vs @ [0]), i + length (t @ vals_text first vs))
     else None)"
  using assms
proof (induction vs arbitrary: t first)
  case (Cons v vs)
  let ?s = "if first then ch CHR ''='' else ch CHR '' ''"
  let ?d = "splice d i (t @ [0])"
  have ld: "length ?d = length d" using Cons.prems by (simp add: splice_length)
  have w: "wr ?d (i + length t) ?s = Some (?d[i + length t := ?s])"
    using Cons.prems by (simp add: ld)
  show ?case
  proof (cases "i + length t + 1 + length v < length d")
    case True
    have "splice (?d[i + length t := ?s]) (i + length t + 1) (v @ [0])
        = splice ?d (i + length t) (?s # v @ [0])"
      using True by (intro splice_Cons) (simp add: ld)
    also have "\<dots> = splice d i (t @ ?s # v @ [0])"
      using True by (intro splice_splice) simp_all
    finally have "env_put (?d[i + length t := ?s]) (i + length t + 1) v
        = Some (splice d i ((t @ ?s # v) @ [0]), i + length (t @ ?s # v))"
      using True by (simp add: env_put_splice ld)
    then show ?thesis
      using w Cons.IH [of "t @ ?s # v" False] True by (simp add: add.assoc)
  next
    case False
    then show ?thesis using w by (auto simp: env_put_splice ld)
  qed
qed simp

lemma length_vals_text: "length (vals_text first vs) = sum_list (map (\<lambda>v. length v + 1) vs)"
  by (induction first vs rule: vals_text.induct) simp_all

definition env_pos :: "(byte list \<times> byte list) list \<Rightarrow> nat" where
  "env_pos vars = length (entries vars)"

lemma env_end_entries:
  assumes "env_rep d vars rest"
  shows "\<exists>e. env_end d 0 = Some e \<and> (if 0 < e then e + 1 else e) = length (entries vars)"
proof (cases "vars = []")
  case True
  then obtain r where "d = 0 # 0 # r" using assms by (cases rest) (auto simp: env_rep_def)
  then show ?thesis using True by (subst env_end.simps) simp
next
  case False
  have "run (entries vars)" "d = [] @ entries vars @ 0 # rest"
    using assms run_entries [OF False] by (simp_all add: env_rep_def)
  from env_end_run [OF this] have e: "env_end d 0 = Some (length (entries vars) - 1)" by simp
  moreover have "2 \<le> length (entries vars)" using False by (cases vars) (simp_all add: entry_def)
  ultimately show ?thesis by auto
qed

text \<open>Appending a definition: it fits behind the others, or the array is left.\<close>

lemma env_append_rep:
  assumes "env_rep d vars rest" "env_end d 0 = Some e"
  shows "env_append d e name vals =
    (if length (entries vars) + setenv_len name vals \<le> length d
     then Some (entries vars @ name @ vals_text True vals @ [0, 0]
            @ drop (length (entries vars) + setenv_len name vals) d)
     else None)"
proof -
  let ?i = "length (entries vars)"
  let ?t = "name @ vals_text True vals"
  have i: "(if 0 < e then e + 1 else e) = ?i" using env_end_entries [OF assms(1)] assms(2) by auto
  have l: "setenv_len name vals = length ?t + 2"
    by (simp add: setenv_len_def length_vals_text)
  have tk: "take ?i d = entries vars" using assms by (simp add: env_rep_def)
  have *: "env_append d e name vals =
    do { (d, env) \<leftarrow> env_put d ?i name; (d, env) \<leftarrow> env_put_values True d env vals; wr d (env + 1) 0 }"
    unfolding env_append_def Let_def i ..
  show ?thesis
  proof (cases "?i + length ?t < length d")
    case True
    then have p: "env_put d ?i name = Some (splice d ?i (name @ [0]), ?i + length name)"
      by (simp add: env_put_splice)
    have v: "env_put_values True (splice d ?i (name @ [0])) (?i + length name) vals
        = Some (splice d ?i (?t @ [0]), ?i + length ?t)"
      using True by (subst env_put_values_splice) simp_all
    have w: "env_append d e name vals = wr (splice d ?i (?t @ [0])) (?i + length ?t + 1) 0"
      unfolding * p by (simp add: v)
    have ld: "length (splice d ?i (?t @ [0])) = length d" using True by (simp add: splice_length)
    show ?thesis
    proof (cases "?i + length ?t + 1 < length d")
      case True
      then have "drop (?i + length ?t + 1) d = d ! (?i + length ?t + 1) # drop (?i + length ?t + 2) d"
        using Cons_nth_drop_Suc [of "?i + length ?t + 1" d] by simp
      then have "(splice d ?i (?t @ [0]))[?i + length ?t + 1 := 0]
          = take ?i d @ ?t @ [0, 0] @ drop (?i + length ?t + 2) d"
        using True by (simp add: splice_def list_update_append add.assoc)
      then show ?thesis using True by (simp add: w wr_def splice_length l tk add.assoc)
    qed (use True in \<open>simp add: w wr_def splice_length l\<close>)
  next
    case False
    have "env_put d ?i name = None \<or>
        env_put_values True (splice d ?i (name @ [0])) (?i + length name) vals = None"
      using False by (cases "?i + length name < length d") (simp_all add: env_put_splice env_put_values_splice)
    then show ?thesis
      using False unfolding * l
      by (auto simp: env_put_splice env_put_values_splice split: if_splits)
  qed
qed

section \<open>The search\<close>

lemma seek0_string:
  "d = pre @ t @ 0 # post \<Longrightarrow> 0 \<notin> set t \<Longrightarrow>
    seek0 d (length pre) = Some (length pre + length t)"
proof (induction t arbitrary: pre)
  case Nil
  then show ?case by (subst seek0.simps) simp
next
  case (Cons c t)
  have "seek0 d (length (pre @ [c])) = Some (length (pre @ [c]) + length t)"
    using Cons.prems by (intro Cons.IH) simp_all
  then show ?case using Cons.prems by (subst seek0.simps) simp
qed

text \<open>One turn of the search, at an entry.\<close>

lemma env_search_entry:
  assumes "bi_env s = Some e" "env_data e = pre @ entry (n, v) @ post" "valid_name n" "0 \<notin> set v"
    "valid_name name"
  defines "nxt \<equiv> length pre + length (entry (n, v)) - 1"
  shows "env_search cfg name s (length pre) nx =
    (if name = n then Inr ((Some (length pre + length n + 1), length pre, nxt), s)
     else env_search cfg name s (nxt + 1) nxt)"
proof -
  have a: "active cfg s = pre @ n @ ch CHR ''='' # (v @ 0 # post)"
    using assms(1,2) by (simp add: active_def entry_pair)
  obtain s' where m: "envmatch cfg s name (length pre) =
      Inr (if name = n then Some (length pre + length n + 1) else None, s')" "seen s s'"
    using envmatch_entry [OF a assms(5,3)] by auto
  then have "s' = s" using assms(1) by (simp add: seen_def)
  have sk: "seek0 (env_data e) (length pre) = Some nxt"
    using seek0_string [of "env_data e" pre "n @ ch CHR ''='' # v" post] assms
    by (simp add: entry_pair valid_name_def)
  have c: "env_data e ! length pre \<noteq> 0" "length pre < length (env_data e)"
    using assms(2,3) by (cases n; simp add: entry_pair valid_name_def nth_append)+
  show ?thesis
    using c m \<open>s' = s\<close> sk assms(1)
    by (subst env_search.simps) (simp add: ub_def ram_data_def)
qed

lemma env_search_skip:
  assumes "bi_env s = Some e" "valid_name name"
  shows "env_data e = pre @ entries us @ post \<Longrightarrow> valid_vars us \<Longrightarrow> name \<notin> fst ` set us \<Longrightarrow>
    \<exists>nx'. env_search cfg name s (length pre) nx
      = env_search cfg name s (length pre + length (entries us)) nx'"
proof (induction us arbitrary: pre nx)
  case (Cons x us)
  obtain n v where x: "x = (n, v)" by (cases x)
  let ?nx = "length pre + length (entry (n, v)) - 1"
  have "env_search cfg name s (length pre) nx = env_search cfg name s (?nx + 1) ?nx"
    using Cons.prems assms
    by (subst env_search_entry [where v = v and n = n and post = "entries us @ post"]) (auto simp: x)
  also have "?nx + 1 = length (pre @ entry x)" by (simp add: x entry_pair)
  finally show ?case
    using Cons.IH [of "pre @ entry x" ?nx] Cons.prems by (simp add: x add.assoc)
qed auto

lemma env_search_end:
  assumes "bi_env s = Some e" "i < length (env_data e)" "env_data e ! i = 0"
  shows "env_search cfg name s i nx = Inr ((None, i, nx), s)"
  using assms by (subst env_search.simps) (simp add: ub_def ram_data_def)

section \<open>Setting\<close>

lemma delete_absent: "n \<notin> fst ` set vars \<Longrightarrow> AList.delete n vars = vars"
  by (induction vars) (auto simp: AList.delete_eq)

lemma delete_split:
  assumes "valid_vars (us @ (n, v) # ws)"
  shows "AList.delete n (us @ (n, v) # ws) = us @ ws"
proof -
  have "n \<notin> fst ` set us" "n \<notin> fst ` set ws" using assms by (auto simp: valid_vars_append)
  from this [THEN delete_absent] show ?thesis by (simp add: AList.delete_eq)
qed

definition may_set :: "config \<Rightarrow> (byte list \<times> byte list) list \<Rightarrow> byte list \<Rightarrow> bool" where
  "may_set cfg vars name =
     (name \<in> fst ` set vars \<longrightarrow>
        name \<noteq> lit ''baudrate'' \<and>
        (CONFIG_ENV_OVERWRITE cfg \<or> name \<noteq> lit ''serial#'' \<and> name \<noteq> lit ''ethaddr''))"

lemma set_ram_data_same: "bi_env s = Some e \<Longrightarrow> set_ram_data (env_data e) s = s"
  by (simp add: set_ram_data_def)

text \<open>The search and the deletion together.\<close>

lemma setenv_find_delete:
  assumes e: "bi_env s = Some e" "env_rep (env_data e) vars rest"
    and name: "valid_name name" "may_set cfg vars name"
  shows "\<exists>oldval env nxt d' rest'.
    env_search cfg name s 0 0 = Inr ((oldval, env, nxt), s)
    \<and> (case oldval of None \<Rightarrow> Inr (None, s) | Some _ \<Rightarrow> setenv_delete cfg name argv env nxt s)
      = Inr (None, set_ram_data d' s)
    \<and> env_rep d' (AList.delete name vars) rest' \<and> length d' = length (env_data e)"
proof (cases "name \<in> fst ` set vars")
  case False
  have d: "env_data e = [] @ entries vars @ 0 # rest" and v: "valid_vars vars"
    using e(2) by (simp_all add: env_rep_def)
  from env_search_skip [OF e(1) name(1) d v False] obtain nx where
    "env_search cfg name s 0 0 = env_search cfg name s (length (entries vars)) nx" by fastforce
  moreover have "length (entries vars) < length (env_data e)" "env_data e ! length (entries vars) = 0"
    unfolding d append_Nil by (simp_all only: nth_append_length length_append list.size)
  ultimately have "env_search cfg name s 0 0 = Inr ((None, length (entries vars), nx), s)"
    using env_search_end [OF e(1)] by simp
  moreover have "(case None of None \<Rightarrow> Inr (None, s)
      | Some _ \<Rightarrow> setenv_delete cfg name argv (length (entries vars)) nx s)
    = Inr (None, set_ram_data (env_data e) s)"
    by (simp add: set_ram_data_same [OF e(1)])
  ultimately show ?thesis using e(2) unfolding delete_absent [OF False] by blast
next
  case True
  then obtain v where "(name, v) \<in> set vars" by auto
  then obtain us ws where vars: "vars = us @ (name, v) # ws" by (meson split_list)
  have vv: "valid_vars (us @ (name, v) # ws)" using e(2) by (simp add: env_rep_def vars)
  have n: "name \<notin> fst ` set us" "valid_vars us" "0 \<notin> set v"
    using vv by (auto simp: valid_vars_append)
  have d: "env_data e = entries (us @ (name, v) # ws) @ 0 # rest"
    using e(2) by (simp add: env_rep_def vars)
  let ?i = "length (entries us)"
  let ?nxt = "?i + length (entry (name, v)) - 1"
  have d1: "env_data e = [] @ entries us @ (entry (name, v) @ entries ws @ 0 # rest)"
    using d by simp
  have d2: "env_data e = entries us @ entry (name, v) @ (entries ws @ 0 # rest)"
    using d by simp
  from env_search_skip [OF e(1) name(1) d1 n(2,1)] obtain nx where
    "env_search cfg name s 0 0 = env_search cfg name s ?i nx" by fastforce
  also have "\<dots> = Inr ((Some (?i + length name + 1), ?i, ?nxt), s)"
    using env_search_entry [OF e(1) d2 name(1) n(3) name(1)] by simp
  finally have s: "env_search cfg name s 0 0 = \<dots>" .
  obtain d' rest' where del: "env_delete (env_data e) ?i ?nxt = Some d'"
    and r: "env_rep d' (us @ ws) rest'" "length d' = length (env_data e)"
    using env_delete_entry [OF vv d] by auto
  have "setenv_delete cfg name argv ?i ?nxt s = Inr (None, set_ram_data d' s)"
    using True name(2) e(1) del by (auto simp: setenv_delete_def may_set_def ub_def ram_data_def)
  then have "(case Some (?i + length name + 1) of None \<Rightarrow> Inr (None, s)
      | Some _ \<Rightarrow> setenv_delete cfg name argv ?i ?nxt s) = Inr (None, set_ram_data d' s)"
    by simp
  with s r show ?thesis unfolding vars delete_split [OF vv] by blast
qed

lemma setenv_hooks_bi_env [simp]: "bi_env (setenv_hooks name v s) = bi_env s"
  by (simp add: setenv_hooks_def set_BootFile_def Let_def)

lemma hd_vals_text: "vals \<noteq> [] \<Longrightarrow> vals_text True vals = ch CHR ''='' # tl (vals_text True vals)"
  by (cases vals) simp_all

lemma vals_text_nonzero: "\<forall>v \<in> set vals. 0 \<notin> set v \<Longrightarrow> 0 \<notin> set (vals_text first vals)"
  by (induction first vals rule: vals_text.induct) auto

definition vals_joined :: "byte list list \<Rightarrow> byte list" where
  "vals_joined vals = tl (vals_text True vals)"

lemma env_rep_snoc:
  assumes "valid_vars vars" "name \<notin> fst ` set vars" "valid_name name" "0 \<notin> set v"
  shows "env_rep (entries vars @ name @ ch CHR ''='' # v @ 0 # 0 # r) (vars @ [(name, v)]) r"
  using assms by (auto simp: env_rep_def valid_vars_append entry_pair)

text \<open>\<open>_do_setenv\<close> with values: everything it can do when the name may be set.\<close>

lemma u_do_setenv_values:
  assumes e: "bi_env s = Some e" "env_rep (env_data e) vars rest"
    and name: "valid_name name" "may_set cfg vars name"
    and argv: "argv_str argv 1 = Inr name" "argv_strs argv [2..<argc] = Inr vals"
      "3 \<le> argc" "argv ! 2 \<noteq> None"
    and vals: "\<forall>v \<in> set vals. 0 \<notin> set v"
    and len: "setenv_len name vals \<le> length (env_data e)"
  shows "(if length (entries (AList.delete name vars)) + setenv_len name vals \<le> length (env_data e)
     then \<exists>s' e' rest'. u_do_setenv cfg argc argv s = Inr (0, s') \<and> bi_env s' = Some e'
       \<and> env_rep (env_data e') (AList.delete name vars @ [(name, vals_joined vals)]) rest'
       \<and> length (env_data e') = length (env_data e)
       \<and> env_crc e' = crc32 0 (Some (env_data e'))
     else u_do_setenv cfg argc argv s = Inl BadAccess)"
proof -
  let ?vars = "AList.delete name vars"
  obtain oldval env nxt d' rest' where
    s: "env_search cfg name s 0 0 = Inr ((oldval, env, nxt), s)"
    and del: "(case oldval of None \<Rightarrow> Inr (None, s) | Some _ \<Rightarrow> setenv_delete cfg name argv env nxt s)
      = Inr (None, set_ram_data d' s)"
    and r: "env_rep d' ?vars rest'" "length d' = length (env_data e)"
    using setenv_find_delete [OF e name] by blast
  have rd: "ram_data (set_ram_data d' s) = Some d'"
    using e(1) by (simp add: ram_data_def set_ram_data_def)
  obtain y where y: "argv ! 2 = Some y" using argv(4) by auto
  obtain p where p: "env_end d' 0 = Some p" using env_end_entries [OF r(1)] by auto
  have *: "u_do_setenv cfg argc argv s = sbind (ub (env_append d' p name vals)) (\<lambda>d.
      Inr (0, setenv_hooks name (hd vals) (update_crc (set_ram_data d (set_ram_data d' s)))))"
    using argv(1-3) y len r(2) p
    by (simp add: u_do_setenv_def s del rd) (simp add: ub_def)
  have ne: "vals \<noteq> []"
    using argv(2,3) by (auto simp: upt_rec [of 2] elim!: sbind_InrE split: if_splits)
  show ?thesis
  proof (cases "length (entries ?vars) + setenv_len name vals \<le> length (env_data e)")
    case True
    let ?r = "drop (length (entries ?vars) + setenv_len name vals) d'"
    let ?d = "entries ?vars @ name @ ch CHR ''='' # vals_joined vals @ 0 # 0 # ?r"
    have a: "env_append d' p name vals = Some ?d"
      using True r hd_vals_text [OF ne] by (simp add: env_append_rep [OF r(1) p] vals_joined_def)
    have "length (vals_text True vals) = Suc (length (vals_joined vals))"
      unfolding vals_joined_def by (subst hd_vals_text [OF ne]) simp
    then have "setenv_len name vals = length name + 3 + length (vals_joined vals)"
      using length_vals_text [of True vals] by (simp add: setenv_len_def)
    then have "length ?d = length d'" using True r(2) by simp
    moreover have "0 \<notin> set (vals_joined vals)"
      using vals_text_nonzero [OF vals, of True] hd_vals_text [OF ne]
      by (metis list.set_intros(2) vals_joined_def)
    then have "env_rep ?d (?vars @ [(name, vals_joined vals)]) ?r"
      using r(1) name(1) by (intro env_rep_snoc) (auto simp: env_rep_def AList.delete_eq)
    ultimately show ?thesis
      using True r(2) e(1) unfolding * a
      by (simp add: ub_def update_crc_def set_ram_data_def) blast
  next
    case False
    then show ?thesis using r unfolding * by (simp add: env_append_rep [OF r(1) p] ub_def)
  qed
qed

text \<open>A definition longer than the array: the old one is gone and the CRC stays as it was.\<close>

lemma u_do_setenv_overflow:
  assumes e: "bi_env s = Some e" "env_rep (env_data e) vars rest"
    and name: "valid_name name" "may_set cfg vars name"
    and argv: "argv_str argv 1 = Inr name" "argv_strs argv [2..<argc] = Inr vals"
      "3 \<le> argc" "argv ! 2 \<noteq> None"
    and len: "length (env_data e) < setenv_len name vals"
  shows "\<exists>d' rest'. u_do_setenv cfg argc argv s =
      sbind (printf cfg (lit ''## Error: environment overflow, \"%s\" deleted\<newline>'') [AStr (Some name)]
        (set_ram_data d' s)) (\<lambda>(_, s). Inr (1, s))
    \<and> (\<forall>s'. u_do_setenv cfg argc argv s \<noteq> Inr (0, s'))
    \<and> env_rep d' (AList.delete name vars) rest' \<and> length d' = length (env_data e)"
proof -
  obtain oldval env nxt d' rest' where
    s: "env_search cfg name s 0 0 = Inr ((oldval, env, nxt), s)"
    and del: "(case oldval of None \<Rightarrow> Inr (None, s) | Some _ \<Rightarrow> setenv_delete cfg name argv env nxt s)
      = Inr (None, set_ram_data d' s)"
    and r: "env_rep d' (AList.delete name vars) rest'" "length d' = length (env_data e)"
    using setenv_find_delete [OF e name] by blast
  have rd: "ram_data (set_ram_data d' s) = Some d'"
    using e(1) by (simp add: ram_data_def set_ram_data_def)
  obtain y where y: "argv ! 2 = Some y" using argv(4) by auto
  obtain p where p: "env_end d' 0 = Some p" using env_end_entries [OF r(1)] by auto
  have eq: "u_do_setenv cfg argc argv s =
      sbind (printf cfg (lit ''## Error: environment overflow, \"%s\" deleted\<newline>'') [AStr (Some name)]
        (set_ram_data d' s)) (\<lambda>(_, s). Inr (1, s))"
    using argv(1-3) y len r(2) p by (simp add: u_do_setenv_def s del rd) (simp add: ub_def)
  moreover have "u_do_setenv cfg argc argv s \<noteq> Inr (0, s')" for s'
    unfolding eq by (auto elim!: sbind_InrE)
  ultimately show ?thesis using r by blast
qed

text \<open>\<open>_do_setenv\<close> without values deletes.\<close>

lemma u_do_setenv_delete:
  assumes e: "bi_env s = Some e" "env_rep (env_data e) vars rest"
    and name: "valid_name name" "may_set cfg vars name"
    and argv: "argv_str argv 1 = Inr name" "argc < 3 \<or> argv ! 2 = None"
  shows "\<exists>s' e' rest'. u_do_setenv cfg argc argv s = Inr (0, s') \<and> bi_env s' = Some e'
    \<and> env_rep (env_data e') (AList.delete name vars) rest'
    \<and> length (env_data e') = length (env_data e)
    \<and> env_crc e' = crc32 0 (Some (env_data e'))"
proof -
  obtain oldval env nxt d' rest' where
    s: "env_search cfg name s 0 0 = Inr ((oldval, env, nxt), s)"
    and del: "(case oldval of None \<Rightarrow> Inr (None, s) | Some _ \<Rightarrow> setenv_delete cfg name argv env nxt s)
      = Inr (None, set_ram_data d' s)"
    and r: "env_rep d' (AList.delete name vars) rest'" "length d' = length (env_data e)"
    using setenv_find_delete [OF e name] by blast
  have "u_do_setenv cfg argc argv s = Inr (0, update_crc (set_ram_data d' s))"
    using argv by (simp add: u_do_setenv_def s del)
  with r e(1) show ?thesis by (auto simp: update_crc_def set_ram_data_def)
qed

section \<open>The interface\<close>

text \<open>
  A store of variables: an update that succeeds changes the variable it names and no other.  The
  users of the environment (macros, the network parameters, the boot command) rely on this alone.
\<close>

fun chain :: "('u \<Rightarrow> 's \<Rightarrow> 's \<Rightarrow> bool) \<Rightarrow> 'u list \<Rightarrow> 's \<Rightarrow> 's \<Rightarrow> bool" where
  "chain step [] s s' = (s' = s)"
| "chain step (u # us) s s' = (\<exists>t. step u s t \<and> chain step us t s')"

locale var_store =
  fixes inv :: "'s \<Rightarrow> bool"
    and look :: "'s \<Rightarrow> 'k \<Rightarrow> 'v option"
    and upd :: "'k \<times> 'v option \<Rightarrow> 's \<Rightarrow> 's \<Rightarrow> bool"
  assumes upd_inv: "inv s \<Longrightarrow> upd u s s' \<Longrightarrow> inv s'"
    and upd_look: "inv s \<Longrightarrow> upd u s s' \<Longrightarrow> look s' = (look s)(fst u := snd u)"
begin

lemma chain_inv: "inv s \<Longrightarrow> chain upd us s s' \<Longrightarrow> inv s'"
  by (induction us arbitrary: s) (auto intro: upd_inv)

lemma chain_look:
  "inv s \<Longrightarrow> chain upd us s s' \<Longrightarrow> look s' = fold (\<lambda>u m. m(fst u := snd u)) us (look s)"
proof (induction us arbitrary: s)
  case (Cons u us)
  then obtain t where "upd u s t" "chain upd us t s'" by auto
  with Cons.IH [OF upd_inv] Cons.prems(1) show ?case by (simp add: upd_look)
qed simp

lemma fold_upd_other:
  "k \<notin> fst ` set us \<Longrightarrow> fold (\<lambda>u m. m(fst u := snd u)) us m k = m k"
  by (induction us arbitrary: m) auto

text \<open>The last update of a variable decides.\<close>

lemma last_update:
  assumes "inv s" "chain upd (us @ u # vs) s s'" "fst u \<notin> fst ` set vs"
  shows "look s' (fst u) = snd u"
  using chain_look [OF assms(1,2)] fold_upd_other [OF assms(3)] by simp

lemma untouched:
  assumes "inv s" "chain upd us s s'" "k \<notin> fst ` set us"
  shows "look s' k = look s k"
  using chain_look [OF assms(1,2)] fold_upd_other [OF assms(3)] by simp

end

definition env_inv :: "sys \<Rightarrow> bool" where
  "env_inv s = (\<exists>e vars rest. bi_env s = Some e \<and> env_rep (env_data e) vars rest)"

definition env_look :: "config \<Rightarrow> sys \<Rightarrow> byte list \<Rightarrow> byte list option" where
  "env_look cfg s name =
     (if valid_name name
      then case getenv cfg s name of Inl _ \<Rightarrow> None | Inr (p, _) \<Rightarrow> map_option cstr_of p
      else None)"

text \<open>The names whose value \<open>setenv\<close> exchanges without asking.\<close>

definition plain_name :: "config \<Rightarrow> byte list \<Rightarrow> bool" where
  "plain_name cfg name = (valid_name name \<and> name \<noteq> lit ''baudrate''
     \<and> (CONFIG_ENV_OVERWRITE cfg \<or> name \<noteq> lit ''serial#'' \<and> name \<noteq> lit ''ethaddr''))"

definition setenv_argv :: "byte list \<Rightarrow> byte list option \<Rightarrow> byte list option list" where
  "setenv_argv name value = [Some (lit ''setenv''), Some name, value, None]"

definition env_upd :: "config \<Rightarrow> byte list \<times> byte list option \<Rightarrow> sys \<Rightarrow> sys \<Rightarrow> bool" where
  "env_upd cfg u s s' =
     (plain_name cfg (fst u) \<and> 0 \<notin> set (case snd u of None \<Rightarrow> [] | Some v \<Rightarrow> v)
      \<and> u_do_setenv cfg 3 (setenv_argv (fst u) (snd u)) s = Inr (0, s'))"

lemma env_look_rep:
  assumes "bi_env s = Some e" "env_rep (env_data e) vars rest" "valid_name name"
  shows "env_look cfg s name = map_of vars name"
proof -
  have "env_rep (active cfg s) vars rest" "length (entries vars) \<le> sizeof_env_data s"
    using assms by (simp_all add: active_def sizeof_env_data_def env_rep_def)
  from getenv_lookup [OF this(1) assms(3) this(2)] show ?thesis
    using assms(3) by (auto simp: env_look_def)
qed

lemma plain_may_set: "plain_name cfg name \<Longrightarrow> valid_name name \<and> may_set cfg vars name"
  by (auto simp: plain_name_def may_set_def)

lemma setenv_argv_strs:
  "argv_str (setenv_argv name v) 1 = Inr name"
  "argv_strs (setenv_argv name (Some x)) [2..<3] = Inr [x]"
  by (simp_all add: argv_str_def setenv_argv_def upt_rec)

lemma vals_joined_single [simp]: "vals_joined [v] = v"
  by (simp add: vals_joined_def)

text \<open>What a successful update leaves behind.\<close>

lemma env_upd_rep:
  assumes "bi_env s = Some e" "env_rep (env_data e) vars rest" "env_upd cfg (name, v) s s'"
  shows "\<exists>e' rest'. bi_env s' = Some e' \<and> env_rep (env_data e') (AList.delete name vars @
    (case v of None \<Rightarrow> [] | Some x \<Rightarrow> [(name, x)])) rest'
    \<and> length (env_data e') = length (env_data e) \<and> env_crc e' = crc32 0 (Some (env_data e'))"
proof -
  have n: "valid_name name" "may_set cfg vars name"
    using assms(3) plain_may_set by (auto simp: env_upd_def)
  have s': "u_do_setenv cfg 3 (setenv_argv name v) s = Inr (0, s')"
    using assms(3) by (simp add: env_upd_def)
  show ?thesis
  proof (cases v)
    case None
    have "setenv_argv name v ! 2 = None" by (simp add: None setenv_argv_def)
    from u_do_setenv_delete [OF assms(1,2) n setenv_argv_strs(1), of 3 v] this s'
    show ?thesis by (simp add: None)
  next
    case (Some x)
    have x: "\<forall>v \<in> set [x]. 0 \<notin> set v" "setenv_argv name v ! 2 \<noteq> None"
      using assms(3) by (simp_all add: Some env_upd_def setenv_argv_def)
    note a = setenv_argv_strs(1) setenv_argv_strs(2) [of name x]
    have len: "setenv_len name [x] \<le> length (env_data e)"
    proof (rule ccontr)
      assume "\<not> setenv_len name [x] \<le> length (env_data e)"
      then have "length (env_data e) < setenv_len name [x]" by simp
      from u_do_setenv_overflow [OF assms(1,2) n a(1) _ _ x(2) this, of 3] a(2) s'
      show False by (auto simp: Some)
    qed
    from u_do_setenv_values [OF assms(1,2) n a(1) _ _ x(2,1) len, of 3] s' a(2)
    show ?thesis by (auto simp: Some split: if_splits)
  qed
qed

lemma env_upd_look:
  assumes "env_inv s" "env_upd cfg u s s'"
  shows "env_inv s' \<and> env_look cfg s' = (env_look cfg s)(fst u := snd u)"
proof -
  obtain name v where u: "u = (name, v)" by (cases u)
  obtain e vars rest where e: "bi_env s = Some e" "env_rep (env_data e) vars rest"
    using assms(1) by (auto simp: env_inv_def)
  let ?vars = "AList.delete name vars @ (case v of None \<Rightarrow> [] | Some x \<Rightarrow> [(name, x)])"
  obtain e' rest' where e': "bi_env s' = Some e'" "env_rep (env_data e') ?vars rest'"
    using env_upd_rep [OF e, of cfg name v s'] assms(2) unfolding u by blast
  have n: "valid_name name" using assms(2) by (simp add: u env_upd_def plain_name_def)
  have "map_of ?vars = (map_of vars)(name := v)"
    by (cases v) (auto simp: AList.delete_conv map_add_def fun_eq_iff split: option.splits)
  then have "env_look cfg s' k = ((env_look cfg s)(fst u := snd u)) k" for k
    using env_look_rep [OF e, of k cfg] env_look_rep [OF e', of k cfg] n
    by (cases "valid_name k") (auto simp: u env_look_def)
  moreover have "env_inv s'" using e' by (auto simp: env_inv_def)
  ultimately show ?thesis by blast
qed

interpretation env: var_store env_inv "env_look cfg" "env_upd cfg" for cfg
  by unfold_locales (auto dest: env_upd_look)

section \<open>Start-up\<close>

lemma ram_getenv:
  assumes "bi_env s = Some e" "env_rep (env_data e) vars rest" "valid_name name"
  shows "\<exists>p. getenv cfg s name = Inr (p, s) \<and> map_option cstr_of p = map_of vars name"
proof -
  have "env_rep (active cfg s) vars rest" "length (entries vars) \<le> sizeof_env_data s"
    using assms by (simp_all add: active_def sizeof_env_data_def env_rep_def)
  from getenv_lookup [OF this(1) assms(3) this(2)] assms(1) show ?thesis
    by (auto simp: seen_def)
qed

lemma case_set_BootFile:
  "bi_env (case p of None \<Rightarrow> s | Some p \<Rightarrow> set_BootFile (f p) s) = bi_env s"
  "bi_ip_addr (case p of None \<Rightarrow> s | Some p \<Rightarrow> set_BootFile (f p) s) = bi_ip_addr s"
  "bi_enetaddr (case p of None \<Rightarrow> s | Some p \<Rightarrow> set_BootFile (f p) s) = bi_enetaddr s"
  by (simp_all add: set_BootFile_def Let_def split: option.split)

lemma case_load_addr:
  "bi_env (case p of None \<Rightarrow> s | Some p \<Rightarrow> s\<lparr>load_addr := f p\<rparr>) = bi_env s"
  "bi_ip_addr (case p of None \<Rightarrow> s | Some p \<Rightarrow> s\<lparr>load_addr := f p\<rparr>) = bi_ip_addr s"
  "bi_enetaddr (case p of None \<Rightarrow> s | Some p \<Rightarrow> s\<lparr>load_addr := f p\<rparr>) = bi_enetaddr s"
  by (simp_all split: option.split)

lemma valid_literals:
  "valid_name (lit ''ethaddr'')" "valid_name (lit ''ipaddr'')" "valid_name (lit ''loadaddr'')"
  "valid_name (lit ''bootfile'')"
  by (simp_all add: valid_name_def lit_def)

text \<open>The part of \<open>env_relocate\<close> behind the copy.\<close>

lemma env_relocate_copied:
  assumes e: "bi_env s1 = Some e" "env_rep (env_data e) vars rest"
    and c: "env_copy cfg block s = Inr ((), s1)"
  shows "\<exists>s'. env_relocate cfg (Some block) s = Inr ((), s') \<and> bi_env s' = Some e
    \<and> bi_ip_addr s' = parse_ip_addr (map_of vars (lit ''ipaddr''))
    \<and> bi_enetaddr s' = parse_enetaddr (map_of vars (lit ''ethaddr''))"
proof -
  note get = ram_getenv [OF _ e(2)]
  obtain p1 where 1: "getenv cfg s1 (lit ''ethaddr'') = Inr (p1, s1)"
    "map_option cstr_of p1 = map_of vars (lit ''ethaddr'')"
    using get [OF e(1) valid_literals(1)] by blast
  define s2 where "s2 = s1\<lparr>bi_enetaddr := parse_enetaddr (map_option cstr_of p1)\<rparr>"
  have e2: "bi_env s2 = Some e" using e(1) by (simp add: s2_def)
  obtain p2 where 2: "getenv cfg s2 (lit ''ipaddr'') = Inr (p2, s2)"
    "map_option cstr_of p2 = map_of vars (lit ''ipaddr'')"
    using get [OF e2 valid_literals(2)] by blast
  define s3 where "s3 = s2\<lparr>bi_ip_addr := parse_ip_addr (map_option cstr_of p2)\<rparr>"
  have e3: "bi_env s3 = Some e" using e2 by (simp add: s3_def)
  obtain p3 where 3: "getenv cfg s3 (lit ''loadaddr'') = Inr (p3, s3)"
    using get [OF e3 valid_literals(3)] by blast
  define s4 where "s4 = (case p3 of None \<Rightarrow> s3
      | Some p \<Rightarrow> s3\<lparr>load_addr := fst (simple_strtoul (cstr_of p) 16)\<rparr>)"
  have e4: "bi_env s4 = Some e" using e3 by (simp add: s4_def case_load_addr)
  obtain p4 where 4: "getenv cfg s4 (lit ''bootfile'') = Inr (p4, s4)"
    using get [OF e4 valid_literals(4)] by blast
  let ?s' = "case p4 of None \<Rightarrow> s4 | Some p \<Rightarrow> set_BootFile (cstr_of p) s4"
  have "env_relocate cfg (Some block) s = Inr ((), ?s')"
    unfolding env_relocate_def option.case c sbind.simps prod.case 1(1) Let_def s2_def [symmetric]
      2(1) s3_def [symmetric] 3 s4_def [symmetric] 4 ..
  moreover have "bi_env ?s' = Some e \<and> bi_ip_addr ?s' = parse_ip_addr (map_of vars (lit ''ipaddr''))
    \<and> bi_enetaddr ?s' = parse_enetaddr (map_of vars (lit ''ethaddr''))"
    unfolding case_set_BootFile e4
    by (simp add: s4_def case_load_addr) (simp add: s3_def s2_def 1(2) 2(2))
  ultimately show ?thesis by blast
qed

section \<open>Properties\<close>

text \<open>
  C1: \<open>setenv\<close> of a variable whose new definition fits behind the others returns, keeps the
  environment well formed, and is what \<open>getenv\<close> gives afterwards; every other variable keeps its
  value.
\<close>

theorem setenv_then_getenv:
  assumes "bi_env s = Some e" "env_rep (env_data e) vars rest" "plain_name cfg name" "0 \<notin> set v"
    "length (entries (AList.delete name vars)) + setenv_len name [v] \<le> length (env_data e)"
  shows "\<exists>s'. setenv cfg name (Some v) s = Inr ((), s') \<and> env_inv s'
    \<and> env_look cfg s' = (env_look cfg s)(name \<mapsto> v)"
proof -
  have n: "valid_name name" "may_set cfg vars name" using plain_may_set [OF assms(3)] by auto
  have v: "\<forall>v \<in> set [v]. 0 \<notin> set v" "setenv_argv name (Some v) ! 2 \<noteq> None"
    using assms(4) by (simp_all add: setenv_argv_def)
  have "setenv_len name [v] \<le> length (env_data e)" using assms(5) by simp
  from u_do_setenv_values [OF assms(1,2) n setenv_argv_strs _ v(2,1) this] assms(5)
  obtain s' where s': "u_do_setenv cfg 3 (setenv_argv name (Some v)) s = Inr (0, s')" by auto
  then have "env_upd cfg (name, Some v) s s'" using assms(3,4) by (simp add: env_upd_def)
  moreover have "env_inv s" using assms(1,2) by (auto simp: env_inv_def)
  ultimately have "env_inv s' \<and> env_look cfg s' = (env_look cfg s)(name \<mapsto> v)"
    using env_upd_look by fastforce
  with s' show ?thesis by (auto simp: setenv_def setenv_argv_def)
qed

definition small_env :: sys where
  "small_env = (reset_sys 0)\<lparr>bi_env := Some \<lparr>env_crc = 0, env_data = replicate 20 0\<rparr>\<rparr>"

lemma small_env_rep:
  "bi_env small_env = Some \<lparr>env_crc = 0, env_data = replicate 20 0\<rparr>"
  "env_rep (replicate 20 0) [] (replicate 19 0)"
  by (simp_all add: small_env_def env_rep_def numeral_eq_Suc)

lemma plain_ip: "plain_name dnp1110 (lit ''ip'')"
  by (simp add: plain_name_def valid_name_def lit_def dnp1110_def)

theorem setenv_then_getenv_witness:
  "\<exists>s'. setenv dnp1110 (lit ''ip'') (Some (lit ''10.0.0.1'')) small_env = Inr ((), s') \<and> env_inv s'
    \<and> env_look dnp1110 s' = (env_look dnp1110 small_env)(lit ''ip'' \<mapsto> lit ''10.0.0.1'')"
  using small_env_rep(2)
  by (intro setenv_then_getenv [OF small_env_rep(1) _ plain_ip, of "[]" "replicate 19 0"])
    (simp_all add: setenv_len_def lit_def)

text \<open>
  the length test of \<open>_do_setenv\<close> is against the whole array: a definition that fits the array
  but not what is left of it is written over the end of \<open>bi_env->data\<close>.
\<close>

theorem setenv_overruns_environment:
  assumes "bi_env s = Some e" "env_rep (env_data e) vars rest" "plain_name cfg name" "0 \<notin> set v"
    "setenv_len name [v] \<le> length (env_data e)"
    "length (env_data e) < length (entries (AList.delete name vars)) + setenv_len name [v]"
  shows "setenv cfg name (Some v) s = Inl BadAccess"
proof -
  have n: "valid_name name" "may_set cfg vars name" using plain_may_set [OF assms(3)] by auto
  have v: "\<forall>v \<in> set [v]. 0 \<notin> set v" "setenv_argv name (Some v) ! 2 \<noteq> None"
    using assms(4) by (simp_all add: setenv_argv_def)
  from u_do_setenv_values [OF assms(1,2) n setenv_argv_strs _ v(2,1) assms(5)] assms(6)
  have "u_do_setenv cfg 3 (setenv_argv name (Some v)) s = Inl BadAccess" by simp
  then show ?thesis by (simp add: setenv_def setenv_argv_def)
qed

theorem setenv_overruns_environment_witness:
  "setenv dnp1110 (lit ''ip'') (Some (lit ''10.0.0.1''))
     (small_env\<lparr>bi_env := Some \<lparr>env_crc = 0, env_data = lit ''a=bcdefgh'' @ [0, 0] @ replicate 9 0\<rparr>\<rparr>)
   = Inl BadAccess"
proof -
  have r: "env_rep (lit ''a=bcdefgh'' @ [0, 0] @ replicate 9 0)
      [(lit ''a'', lit ''bcdefgh'')] (replicate 9 0)"
    by (simp add: env_rep_def entry_def lit_def valid_name_def)
  show ?thesis
    by (rule setenv_overruns_environment [OF _ _ plain_ip, where e =
          "\<lparr>env_crc = 0, env_data = lit ''a=bcdefgh'' @ [0, 0] @ replicate 9 0\<rparr>" and
          vars = "[(lit ''a'', lit ''bcdefgh'')]" and rest = "replicate 9 0"])
      (use r in \<open>simp_all add: setenv_len_def lit_def AList.delete_eq entry_def\<close>)
qed

text \<open>
  over any sequence of successful updates and deletions the last one of a variable decides what
  is looked up.
\<close>

theorem env_last_update:
  assumes "env_inv s" "chain (env_upd cfg) (us @ u # vs) s s'" "fst u \<notin> fst ` set vs"
  shows "env_look cfg s' (fst u) = snd u"
  using env.last_update [OF assms] .

theorem env_last_update_witness:
  "\<exists>s'. env_look dnp1110 s' (lit ''ip'') = Some (lit ''10.0.0.1'')"
proof -
  let ?v = "lit ''10.0.0.1''"
  have n: "valid_name (lit ''ip'')" "may_set dnp1110 [] (lit ''ip'')" using plain_may_set [OF plain_ip] by auto
  have z: "\<forall>v \<in> set [?v]. 0 \<notin> set v" "setenv_argv (lit ''ip'') (Some ?v) ! 2 \<noteq> None"
    by (simp_all add: lit_def setenv_argv_def)
  obtain s' where "u_do_setenv dnp1110 3 (setenv_argv (lit ''ip'') (Some ?v)) small_env = Inr (0, s')"
    using u_do_setenv_values [OF small_env_rep(1) _ n setenv_argv_strs _ z(2,1)] small_env_rep(2)
    by (auto simp: setenv_len_def lit_def)
  then have "chain (env_upd dnp1110) ([] @ (lit ''ip'', Some ?v) # []) small_env s'"
    using plain_ip z(1) by (simp add: env_upd_def)
  moreover have "env_inv small_env" using small_env_rep by (auto simp: env_inv_def)
  ultimately show ?thesis using env_last_update by fastforce
qed

lemma env_relocate_keeps:
  assumes "bi_env s = None" "env_rep (active cfg s) vars rest"
    "length (entries vars) \<le> length (env_data (flash_env s))"
    "length (env_data block) = length (env_data (flash_env s))"
    "length (default_environment cfg) \<le> length (env_data block)" "34 < CFG_PBSIZE cfg"
  shows "\<exists>s'. env_relocate cfg (Some block) s = Inr ((), s') \<and> env_inv s'
    \<and> env_look cfg s' = env_look cfg s
    \<and> bi_ip_addr s' = parse_ip_addr (env_look cfg s (lit ''ipaddr''))
    \<and> bi_enetaddr s' = parse_enetaddr (env_look cfg s (lit ''ethaddr''))"
proof -
  obtain ok s0 where crc: "check_crc s = (ok, s0)" by fastforce
  have look: "env_look cfg s = (\<lambda>k. if valid_name k then map_of vars k else None)"
  proof
    fix k
    have "length (entries vars) \<le> sizeof_env_data s" using assms(1,3) by (simp add: sizeof_env_data_def)
    from getenv_lookup [OF assms(2) _ this, of k]
    show "env_look cfg s k = (if valid_name k then map_of vars k else None)"
      by (auto simp: env_look_def)
  qed
  have "\<exists>s1 e rest'. bi_env s1 = Some e \<and> env_rep (env_data e) vars rest'
      \<and> env_copy cfg block s = Inr ((), s1)"
  proof (cases ok)
    case True
    then have "env_rep (env_data (flash_env s0)) vars rest"
      using assms(1,2) crc check_crc_flash [OF crc] by (simp add: active_def)
    then show ?thesis using True crc
      by (intro exI [of _ "s0\<lparr>bi_env := Some (flash_env s0)\<rparr>"] exI [of _ "flash_env s0"] exI [of _ rest])
        (simp add: env_copy_def board_env_copy_def)
  next
    case False
    let ?d = "default_environment cfg @ drop (length (default_environment cfg)) (env_data block)"
    have "env_rep (default_environment cfg) vars rest"
      using assms(1,2) crc False by (simp add: active_def)
    then have "env_rep ?d vars (rest @ drop (length (default_environment cfg)) (env_data block))"
      by (cases rest) (auto simp: env_rep_def)
    then show ?thesis using False crc assms(5,6)
      by (simp add: env_copy_def board_env_copy_def printf_plain lit_def Let_def update_crc_def) blast
  qed
  then obtain s1 e rest' where e: "bi_env s1 = Some e" "env_rep (env_data e) vars rest'"
    and c: "env_copy cfg block s = Inr ((), s1)"
    by blast
  from env_relocate_copied [OF e c] obtain s' where
    s': "env_relocate cfg (Some block) s = Inr ((), s')" "bi_env s' = Some e"
    "bi_ip_addr s' = parse_ip_addr (map_of vars (lit ''ipaddr''))"
    "bi_enetaddr s' = parse_enetaddr (map_of vars (lit ''ethaddr''))"
    by blast
  have "env_look cfg s' = env_look cfg s"
  proof
    fix k show "env_look cfg s' k = env_look cfg s k"
      using env_look_rep [OF s'(2) e(2), of k cfg] by (cases "valid_name k") (simp_all add: look env_look_def)
  qed
  then show ?thesis using s' e(2) by (auto simp: env_inv_def look valid_literals)
qed

text \<open>
  C13: \<open>env_relocate\<close> moves the environment to RAM with every variable: what \<open>getenv\<close> found in the
  flash or the default environment before, it finds in the RAM copy after, and the IP and Ethernet
  addresses are those of the variables.
\<close>

theorem env_relocate_keeps_variables:
  assumes "bi_env s = None" "env_rep (active cfg s) vars rest"
    "length (entries vars) \<le> length (env_data (flash_env s))"
    "length (env_data block) = length (env_data (flash_env s))"
    "length (default_environment cfg) \<le> length (env_data block)" "34 < CFG_PBSIZE cfg"
  shows "\<exists>s'. env_relocate cfg (Some block) s = Inr ((), s') \<and> env_inv s'
    \<and> env_look cfg s' = env_look cfg s
    \<and> bi_ip_addr s' = parse_ip_addr (env_look cfg s (lit ''ipaddr''))
    \<and> bi_enetaddr s' = parse_enetaddr (env_look cfg s (lit ''ethaddr''))"
  by (rule env_relocate_keeps [OF assms])

theorem env_relocate_keeps_variables_witness:
  "\<exists>s'. env_relocate (dnp1110\<lparr>default_environment := lit ''ipaddr=10.0.0.1'' @ [0, 0]\<rparr>)
      (Some \<lparr>env_crc = 0, env_data = replicate 30 0xFF\<rparr>) ((reset_sys 30)\<lparr>env_crc_valid := -1\<rparr>)
    = Inr ((), s') \<and> env_inv s'"
proof -
  let ?cfg = "dnp1110\<lparr>default_environment := lit ''ipaddr=10.0.0.1'' @ [0, 0]\<rparr>"
  let ?s = "(reset_sys 30)\<lparr>env_crc_valid := -1\<rparr>"
  let ?vars = "[(lit ''ipaddr'', lit ''10.0.0.1'')]"
  have n: "bi_env ?s = None" by (simp add: reset_sys_def)
  have r: "env_rep (active ?cfg ?s) ?vars []"
    by (simp add: env_rep_def active_def reset_sys_def check_crc_def entry_def lit_def valid_name_def)
  have "34 < CFG_PBSIZE ?cfg" by (simp add: dnp1110_def)
  from env_relocate_keeps_variables [OF n r _ _ _ this, of "\<lparr>env_crc = 0, env_data = replicate 30 0xFF\<rparr>"]
  show ?thesis by (auto simp: reset_sys_def entry_def lit_def)
qed

end
