(* ===== verification/CmdLine.thy ===== *)
theory CmdLine
  imports CmdTable EnvStore
begin

text \<open>
  The command interpreter, \<^verbatim>\<open>common/main.c\<close>, with the commands of \<^verbatim>\<open>common/command.c\<close> and the
  two of \<^verbatim>\<open>common/cmd_bootm.c\<close> and \<^verbatim>\<open>common/cmd_nvedit.c\<close> that call back into it, in the
  configuration of \<^verbatim>\<open>include/configs/config_dnp1110.h\<close> (no \<open>CONFIG_BOOT_RETRY_TIME\<close>, no
  \<open>CONFIG_AUTOBOOT_KEYED\<close>, no \<open>CONFIG_PREBOOT\<close>).  A string that is only read is the list of its
  characters; the fixed buffers are bounded lists.
\<close>

section \<open>Reading a line\<close>

definition erase_seq :: "byte list" where
  "erase_seq = [8, ch CHR '' '', 8]"

definition tab_seq :: "byte list" where
  "tab_seq = replicate 8 (ch CHR '' '')"

text \<open>\<^verbatim>\<open>while (*colp > plen) { puts (erase_seq); (*colp)--; }\<close>\<close>

definition erase_to :: "nat \<Rightarrow> nat \<Rightarrow> sys \<Rightarrow> sys" where
  "erase_to plen col s = (puts erase_seq ^^ (col - plen)) s"

text \<open>A character echoed: the column after it.\<close>

definition echo_char :: "byte \<Rightarrow> nat \<Rightarrow> sys \<Rightarrow> nat \<times> sys" where
  "echo_char c col s =
     (if c = 9 then (col + (8 - col mod 8), puts (drop (col mod 8) tab_seq) s)
      else (col + 1, putc c s))"

primrec echo_line :: "byte list \<Rightarrow> nat \<Rightarrow> sys \<Rightarrow> nat \<times> sys" where
  "echo_line [] col s = (col, s)"
| "echo_line (c # cs) col s = (let (col, s) = echo_char c col s in echo_line cs col s)"

text \<open>
  \<open>delete_char\<close>: the buffer is \<open>console_buffer\<close>, \<open>p\<close> and \<open>*np\<close> are the one number \<open>n\<close>, as in
  \<open>readline\<close> \<open>p\<close> always points to the buffer's element \<open>n\<close>.
\<close>

definition delete_char :: "nat \<Rightarrow> nat \<Rightarrow> nat \<Rightarrow> sys \<Rightarrow> nat \<times> nat \<times> sys" where
  "delete_char n col plen s =
     (if n = 0 then (n, col, s)
      else
        let p = n - 1 in
        if console_buffer s ! p = 9 then
          let s = erase_to plen col s;
              (col, s) = echo_line (take p (console_buffer s)) (min col plen) s
          in (p, col, s)
        else (p, col - 1, puts erase_seq s))"

text \<open>\<^verbatim>\<open>while ((n > 0) && (*p != ' ')) p=delete_char(...)\<close>\<close>

fun delete_word :: "nat \<Rightarrow> nat \<Rightarrow> nat \<Rightarrow> sys \<Rightarrow> nat \<times> nat \<times> sys" where
  "delete_word 0 col plen s = (0, col, s)"
| "delete_word (Suc n) col plen s =
     (if console_buffer s ! Suc n \<noteq> ch CHR '' '' then
        let (_, col, s) = delete_char (Suc n) col plen s in delete_word n col plen s
      else (Suc n, col, s))"

definition store_char :: "nat \<Rightarrow> byte \<Rightarrow> sys \<Rightarrow> unit result" where
  "store_char n c s =
     sbind (ub (wr (console_buffer s) n c)) (\<lambda>b. Inr ((), s\<lparr>console_buffer := b\<rparr>))"

text \<open>
  The loop of \<open>readline\<close> over the characters that arrive; the result is the code it returns.
\<close>

fun readline_loop ::
  "config \<Rightarrow> nat \<Rightarrow> byte list \<Rightarrow> nat \<Rightarrow> nat \<Rightarrow> sys \<Rightarrow> int result" where
  "readline_loop cfg plen [] n col s = Inl NoInput"
| "readline_loop cfg plen (c # cs) n col s =
     (let s = s\<lparr>con_in := cs\<rparr> in
      if c = 13 \<or> c = 10 then
        sbind (store_char n 0 s) (\<lambda>(_, s). Inr (int n, puts [13, 10] s))
      else if c = 3 then
        sbind (store_char 0 0 s) (\<lambda>(_, s). Inr (-1, s))
      else if c = 0x15 then
        readline_loop cfg plen cs 0 (min col plen) (erase_to plen col s)
      else if c = 0x17 then
        let (n, col, s) = delete_char n col plen s;
            (n, col, s) = delete_word n col plen s
        in readline_loop cfg plen cs n col s
      else if c = 8 \<or> c = 0x7F then
        let (n, col, s) = delete_char n col plen s in readline_loop cfg plen cs n col s
      else if n < CFG_CBSIZE cfg - 2 then
        let (col, s) = echo_char c col s in
        sbind (store_char n c s) (\<lambda>(_, s). readline_loop cfg plen cs (n + 1) col s)
      else readline_loop cfg plen cs n col (putc 7 s))"

definition readline :: "config \<Rightarrow> byte list \<Rightarrow> sys \<Rightarrow> int result" where
  "readline cfg prompt s =
     (let s = puts prompt s
      in readline_loop cfg (length prompt) (con_in s) 0 (length prompt) s)"

section \<open>Splitting a line\<close>

abbreviation (input) blank :: "byte \<Rightarrow> bool" where
  "blank c \<equiv> c = ch CHR '' '' \<or> c = 9"

text \<open>
  \<open>parse_line\<close> on a buffer, with room for \<open>n\<close> more arguments: the arguments, and whether there were
  too many.  None: no NUL stops it inside the buffer.
\<close>

primrec parse_line_loop :: "nat \<Rightarrow> byte list \<Rightarrow> (byte list list \<times> bool) option" where
  "parse_line_loop 0 line = Some ([], True)"
| "parse_line_loop (Suc n) line =
     (let line = dropWhile (\<lambda>c. blank c) line in
      if line = [] then None
      else if hd line = 0 then Some ([], False)
      else
        let arg = takeWhile (\<lambda>c. c \<noteq> 0 \<and> \<not> blank c) line;
            line = dropWhile (\<lambda>c. c \<noteq> 0 \<and> \<not> blank c) line
        in if line = [] then None
           else if hd line = 0 then Some ([arg], False)
           else map_option (\<lambda>(args, many). (arg # args, many)) (parse_line_loop n (tl line)))"

text \<open>
  \<open>argc\<close> and \<open>argv\<close>.  The closing NULL is missing where there were too many arguments.
\<close>

definition parse_line :: "config \<Rightarrow> byte list \<Rightarrow> sys \<Rightarrow> (nat \<times> byte list option list) result" where
  "parse_line cfg line s =
     sbind (ub (parse_line_loop (CFG_MAXARGS cfg) line)) (\<lambda>(args, many).
       if many then
         sbind (printf cfg (lit ''** Too many args (max. %d) **\<newline>'') [AInt (of_nat (CFG_MAXARGS cfg))] s)
           (\<lambda>(_, s). Inr ((length args, map Some args), s))
       else Inr ((length args, map Some args @ [None]), s))"

section \<open>Macros\<close>

text \<open>
  One character behind the escapes, in the three states of \<open>process_macros\<close>; \<open>vs\<close> is what follows
  \<open>varname_start\<close>.  The output is the list of the characters written so far, \<open>outputcnt\<close> what is left
  of \<open>CFG_CBSIZE\<close>.
\<close>

definition macro_step ::
  "config \<Rightarrow> byte \<Rightarrow> byte \<Rightarrow> byte list \<Rightarrow> nat \<Rightarrow> byte list \<Rightarrow> byte list \<Rightarrow> sys
    \<Rightarrow> (nat \<times> byte list \<times> byte list) result" where
  "macro_step cfg c prev input state vs out s =
     (if state = 0 then
        if c = ch CHR ''$'' \<and> prev \<noteq> 0x5C then Inr ((1, vs, out), s)
        else Inr ((0, vs, out @ [c]), s)
      else if state = 1 then
        if c = ch CHR ''('' then Inr ((2, input, out), s)
        else if length out + 1 < CFG_CBSIZE cfg then Inr ((0, vs, out @ [ch CHR ''$'', c]), s)
        else Inr ((0, vs, out @ [ch CHR ''$'']), s)
      else
        if c = ch CHR '')'' then
          let envcnt = length vs - length input - 1 in
          if CFG_CBSIZE cfg \<le> envcnt then Inl BadAccess
          else
            sbind (getenv cfg s (cstr_of (take envcnt vs))) (\<lambda>(envval, s).
              let v = (case envval of None \<Rightarrow> [] | Some p \<Rightarrow> cstr_of p)
              in Inr ((0, vs, out @ take (CFG_CBSIZE cfg - length out) v), s))
        else Inr ((2, vs, out), s))"

function process_macros_loop ::
  "config \<Rightarrow> byte list \<Rightarrow> byte \<Rightarrow> nat \<Rightarrow> byte list \<Rightarrow> byte list \<Rightarrow> sys \<Rightarrow> byte list result" where
  "process_macros_loop cfg input prev state vs out s =
     (if input = [] \<or> CFG_CBSIZE cfg \<le> length out then Inr (out, s)
      else if hd input = 0x5C \<and> prev \<noteq> 0x5C then
        if tl input = [] then Inr (out, s)
        else
          let c = hd (tl input); rest = tl (tl input) in
          sbind (macro_step cfg c 0x5C rest state vs out s) (\<lambda>((state, vs, out), s).
            process_macros_loop cfg rest c state vs out s)
      else
        let c = hd input; rest = tl input in
        sbind (macro_step cfg c prev rest state vs out s) (\<lambda>((state, vs, out), s).
          process_macros_loop cfg rest c state vs out s))"
  by pat_completeness auto
termination
  by (relation "measure (\<lambda>(cfg, input, _). length input)") (auto simp: Suc_le_eq)

declare process_macros_loop.simps [simp del]

text \<open>The contents of the output buffer; the NUL is written only where there is room for it.\<close>

definition process_macros :: "config \<Rightarrow> byte list \<Rightarrow> sys \<Rightarrow> byte list result" where
  "process_macros cfg input s =
     sbind (process_macros_loop cfg input 0 0 [] [] s) (\<lambda>(out, s).
       Inr (if length out < CFG_CBSIZE cfg then out @ [0] else out, s))"

section \<open>Running a command\<close>

text \<open>
  The command up to the first separator and what follows it: a semicolon that is not the first
  character and not escaped.
\<close>

fun find_sep :: "byte list \<Rightarrow> byte \<Rightarrow> byte list \<times> byte list" where
  "find_sep [] prev = ([], [])"
| "find_sep (c # str) prev =
     (if c = ch CHR '';'' \<and> prev \<noteq> 0x5C then ([], str)
      else let (token, rest) = find_sep str c in (c # token, rest))"

definition split_command :: "byte list \<Rightarrow> byte list \<times> byte list" where
  "split_command str =
     (case str of [] \<Rightarrow> ([], [])
      | c # str \<Rightarrow> let (token, rest) = find_sep str c in (c # token, rest))"

lemma find_sep_length: "length (snd (find_sep str prev)) \<le> length str"
  by (induction str prev rule: find_sep.induct) (auto simp: Let_def split: prod.splits)

lemma split_command_length:
  assumes "str \<noteq> []" "split_command str = (token, rest)"
  shows "length rest < length str"
proof -
  obtain c t where s: "str = c # t" using assms(1) by (cases str) auto
  then have "rest = snd (find_sep t c)" using assms(2) by (auto simp: split_command_def split: prod.splits)
  with find_sep_length [of t c] show ?thesis by (simp add: s)
qed

definition CMD_FLAG_REPEAT :: nat where "CMD_FLAG_REPEAT = 1"
definition CMD_FLAG_BOOTD :: nat where "CMD_FLAG_BOOTD = 2"

text \<open>
  The functions behind the table, with the entry, the flag, \<open>argc\<close> and \<open>argv\<close>.
\<close>

type_synonym exec =
  "cmd_tbl_t \<Rightarrow> nat \<Rightarrow> nat \<Rightarrow> byte list option list \<Rightarrow> sys \<Rightarrow> int result"

text \<open>One command: None in front where the loop goes on, with \<open>flag\<close> and \<open>repeatable\<close>.\<close>

definition run_token ::
  "config \<Rightarrow> cmd_tbl_t list \<Rightarrow> exec \<Rightarrow> byte list \<Rightarrow> nat \<Rightarrow> nat \<Rightarrow> sys
    \<Rightarrow> (int option \<times> nat \<times> nat) result" where
  "run_token cfg tbl exec token flag repeat s =
     sbind (process_macros cfg token s) (\<lambda>(finaltoken, s).
     sbind (parse_line cfg finaltoken s) (\<lambda>((argc, argv), s).
     sbind (argv_str argv 0) (\<lambda>arg0.
     case find_cmd tbl arg0 of
       None \<Rightarrow>
         sbind (printf cfg (lit ''Unknown command '%s' - try 'help'\<newline>'') [AStr (Some arg0)] s)
           (\<lambda>(_, s). Inr ((Some (-1), flag, repeat), s))
     | Some cmdtp \<Rightarrow>
         if maxargs cmdtp < argc then
           sbind (printf cfg (lit ''Usage:\<newline>%s\<newline>'') [AStr (cmd_usage cmdtp)] s)
             (\<lambda>(_, s). Inr ((Some (-1), flag, repeat), s))
         else if cmd cmdtp = Do_bootd \<and> flag AND CMD_FLAG_BOOTD \<noteq> 0 then
           sbind (printf cfg (lit '''bootd' recursion detected\<newline>'') [] s)
             (\<lambda>(_, s). Inr ((Some (-1), flag, repeat), s))
         else
           let flag = (if cmd cmdtp = Do_bootd then flag OR CMD_FLAG_BOOTD else flag) in
           sbind (exec cmdtp flag argc argv s) (\<lambda>(_, s).
             let repeat = repeat AND repeatable cmdtp in
             Inr ((if had_ctrlc s then Some 0 else None, flag, repeat), s)))))"

function run_command_loop ::
  "config \<Rightarrow> cmd_tbl_t list \<Rightarrow> exec \<Rightarrow> byte list \<Rightarrow> nat \<Rightarrow> nat \<Rightarrow> sys \<Rightarrow> int result" where
  "run_command_loop cfg tbl exec str flag repeat s =
     (if str = [] then Inr (int repeat, s)
      else
        let (token, str) = split_command str in
        sbind (run_token cfg tbl exec token flag repeat s) (\<lambda>((ret, flag, repeat), s).
          case ret of
            Some r \<Rightarrow> Inr (r, s)
          | None \<Rightarrow> run_command_loop cfg tbl exec str flag repeat s))"
  by pat_completeness auto
termination
  by (relation "measure (\<lambda>(_, _, _, str, _). length str)")
    (auto dest: split_command_length [OF _ sym])

declare run_command_loop.simps [simp del]

text \<open>\<open>cmd\<close> is None for a NULL pointer.\<close>

definition run_command ::
  "config \<Rightarrow> cmd_tbl_t list \<Rightarrow> exec \<Rightarrow> byte list option \<Rightarrow> nat \<Rightarrow> sys \<Rightarrow> int result" where
  "run_command cfg tbl exec command flag s =
     (let s = clear_ctrlc s in
      case command of
        None \<Rightarrow> Inr (-1, s)
      | Some str \<Rightarrow>
          if str = [] \<or> CFG_CBSIZE cfg - 1 < length str then Inr (-1, s)
          else run_command_loop cfg tbl exec str flag 1 s)"

section \<open>Commands\<close>

text \<open>\<open>do_echo\<close>: the characters of one argument, and whether \<^verbatim>\<open>\c\<close> was among them.\<close>

fun echo_arg :: "byte list \<Rightarrow> bool \<Rightarrow> sys \<Rightarrow> bool \<times> sys" where
  "echo_arg [] putnl s = (putnl, s)"
| "echo_arg (c # p) putnl s =
     (if c = 0x5C \<and> p \<noteq> [] \<and> hd p = ch CHR ''c'' then echo_arg (tl p) False s
      else echo_arg p putnl (putc c s))"

primrec echo_args :: "byte list option list \<Rightarrow> nat list \<Rightarrow> bool \<Rightarrow> sys \<Rightarrow> bool result" where
  "echo_args argv [] putnl s = Inr (putnl, s)"
| "echo_args argv (i # is) putnl s =
     sbind (argv_str argv i) (\<lambda>p.
       let s = (if 1 < i then putc (ch CHR '' '') s else s);
           (putnl, s) = echo_arg p putnl s
       in echo_args argv is putnl s)"

definition do_echo :: "nat \<Rightarrow> byte list option list \<Rightarrow> sys \<Rightarrow> int result" where
  "do_echo argc argv s =
     sbind (echo_args argv [1..<argc] True s) (\<lambda>(putnl, s).
       Inr (0, if putnl then putc 10 s else s))"

definition do_version :: "config \<Rightarrow> byte list \<Rightarrow> sys \<Rightarrow> int result" where
  "do_version cfg version_string s =
     sbind (printf cfg (lit ''\<newline>%s\<newline>'') [AStr (Some version_string)] s) (\<lambda>(_, s). Inr (0, s))"

text \<open>\<open>do_help\<close>: the short help of every command, or the long help of some.\<close>

fun help_all :: "cmd_tbl_t list \<Rightarrow> sys \<Rightarrow> int result" where
  "help_all [] s = Inr (0, s)"
| "help_all (cmdtp # tbl) s =
     sbind (ctrlc s) (\<lambda>(stopped, s).
       if stopped then Inr (1, s)
       else help_all tbl (case cmd_usage cmdtp of None \<Rightarrow> s | Some u \<Rightarrow> puts u s))"

definition help_entry :: "cmd_tbl_t \<Rightarrow> sys \<Rightarrow> sys" where
  "help_entry cmdtp s =
     putc 10 (puts (case cmd_help cmdtp of Some h \<Rightarrow> h | None \<Rightarrow> lit ''- No help available.\<newline>'')
       (putc (ch CHR '' '') (puts (cmd_name cmdtp) s)))"

primrec help_args ::
  "config \<Rightarrow> cmd_tbl_t list \<Rightarrow> byte list option list \<Rightarrow> nat list \<Rightarrow> sys \<Rightarrow> int result" where
  "help_args cfg tbl argv [] s = Inr (0, s)"
| "help_args cfg tbl argv (i # is) s =
     sbind (argv_str argv i) (\<lambda>c.
       case find_cmd tbl c of
         Some cmdtp \<Rightarrow> help_args cfg tbl argv is (help_entry cmdtp s)
       | None \<Rightarrow>
           sbind (printf cfg (lit (''Unknown command '%s' - try 'help' '' @
             ''without arguments for list of all known commands\<newline>\<newline>'')) [AStr (Some c)] s)
             (\<lambda>(_, s). help_args cfg tbl argv is s))"

definition do_help ::
  "config \<Rightarrow> cmd_tbl_t list \<Rightarrow> nat \<Rightarrow> byte list option list \<Rightarrow> sys \<Rightarrow> int result" where
  "do_help cfg tbl argc argv s =
     (if argc = 1 then help_all tbl s else help_args cfg tbl argv [1..<argc] s)"

text \<open>\<^verbatim>\<open>for (i=1; rc == 0 && i<argc; ++i) rc = run_command (getenv (bd, argv[i]), bd, flag);\<close>\<close>

primrec run_vars ::
  "config \<Rightarrow> cmd_tbl_t list \<Rightarrow> exec \<Rightarrow> byte list option list \<Rightarrow> nat list \<Rightarrow> nat \<Rightarrow> sys \<Rightarrow> int result"
where
  "run_vars cfg tbl exec argv [] flag s = Inr (0, s)"
| "run_vars cfg tbl exec argv (i # is) flag s =
     sbind (argv_str argv i) (\<lambda>name.
     sbind (getenv cfg s name) (\<lambda>(p, s).
     sbind (run_command cfg tbl exec (map_option cstr_of p) flag s) (\<lambda>(rc, s).
       if rc = 0 then run_vars cfg tbl exec argv is flag s else Inr (rc, s))))"

definition print_usage :: "config \<Rightarrow> cmd_tbl_t \<Rightarrow> sys \<Rightarrow> int result" where
  "print_usage cfg cmdtp s =
     sbind (printf cfg (lit ''Usage:\<newline>%s\<newline>'') [AStr (cmd_usage cmdtp)] s) (\<lambda>(_, s). Inr (1, s))"

definition do_run ::
  "config \<Rightarrow> cmd_tbl_t list \<Rightarrow> exec \<Rightarrow> cmd_tbl_t \<Rightarrow> nat \<Rightarrow> nat \<Rightarrow> byte list option list \<Rightarrow> sys
    \<Rightarrow> int result" where
  "do_run cfg tbl exec cmdtp flag argc argv s =
     (if argc < 2 then print_usage cfg cmdtp s
      else run_vars cfg tbl exec argv [1..<argc] flag s)"

definition do_bootd ::
  "config \<Rightarrow> cmd_tbl_t list \<Rightarrow> exec \<Rightarrow> nat \<Rightarrow> sys \<Rightarrow> int result" where
  "do_bootd cfg tbl exec flag s =
     sbind (getenv cfg s (lit ''bootcmd'')) (\<lambda>(p, s).
       run_command cfg tbl exec (map_option cstr_of p) flag s)"

text \<open>
  \<open>do_askenv\<close>: the message in a buffer of \<open>CFG_CBSIZE\<close> bytes, by \<open>sprintf\<close> or the arguments joined.
\<close>

primrec join_args :: "bool \<Rightarrow> byte list list \<Rightarrow> byte list" where
  "join_args first [] = []"
| "join_args first (a # as) =
     (if first then [] else [ch CHR '' '']) @ a @ join_args (first \<and> a = []) as"

definition askenv_message ::
  "nat \<Rightarrow> byte list option list \<Rightarrow> stop + byte list option" where
  "askenv_message argc argv =
     (if argc \<le> 3 then
        sbind (argv_str argv 1) (\<lambda>name.
          Inr (sprintf (lit ''Please enter '%s':'') [AStr (Some name)]))
      else sbind (argv_strs argv [2..<argc - 1]) (\<lambda>as. Inr (Some (join_args True as))))"

definition askenv_size :: "config \<Rightarrow> nat \<Rightarrow> byte list option list \<Rightarrow> stop + int" where
  "askenv_size cfg argc argv =
     (if argc = 2 then Inr (int (CFG_CBSIZE cfg) - 1)
      else sbind (argv_str argv (argc - 1)) (\<lambda>n. Inr (sint (fst (simple_strtoul n 10)))))"

definition do_askenv ::
  "config \<Rightarrow> cmd_tbl_t \<Rightarrow> nat \<Rightarrow> byte list option list \<Rightarrow> sys \<Rightarrow> int result" where
  "do_askenv cfg cmdtp argc argv s =
     (if argc < 2 then print_usage cfg cmdtp s
      else
        sbind (askenv_message argc argv) (\<lambda>message.
        sbind (askenv_size cfg argc argv) (\<lambda>n.
          let n = (if int (CFG_CBSIZE cfg) \<le> n then int (CFG_CBSIZE cfg) - 1 else n) in
          case message of
            None \<Rightarrow> Inl BadAccess
          | Some message \<Rightarrow>
              if CFG_CBSIZE cfg \<le> length message then Inl BadAccess
              else if n \<le> 0 then Inr (1, s)
              else
                sbind (readline cfg message s) (\<lambda>(len, s).
                sbind (if n < len then store_char (nat n) 0 s else Inr ((), s)) (\<lambda>(_, s).
                  let value = cstr_of (console_buffer s) in
                  if value \<noteq> []
                  then u_do_setenv cfg 3 [argv ! 0, argv ! 1, Some value, None] s
                  else u_do_setenv cfg 2 [argv ! 0, argv ! 1, None, None] s)))))"

text \<open>
  The table's functions.  \<open>other\<close> stands for those of other components; \<open>fuel\<close> bounds how deep
  \<open>run\<close> and \<open>bootd\<close> may nest, where the code runs on until its stack is full.
\<close>

primrec exec_cmd ::
  "nat \<Rightarrow> config \<Rightarrow> cmd_tbl_t list \<Rightarrow> byte list \<Rightarrow> exec \<Rightarrow> exec" where
  "exec_cmd 0 cfg tbl version other = (\<lambda>cmdtp flag argc argv s. Inl NoFuel)"
| "exec_cmd (Suc fuel) cfg tbl version other = (\<lambda>cmdtp flag argc argv s.
     (let exec = exec_cmd fuel cfg tbl version other in
      case cmd cmdtp of
        Do_run \<Rightarrow> do_run cfg tbl exec cmdtp flag argc argv s
      | Do_bootd \<Rightarrow> do_bootd cfg tbl exec flag s
      | Do_printenv \<Rightarrow> do_printenv cfg argc argv s
      | Do_setenv \<Rightarrow>
          do_setenv cfg (case cmd_usage cmdtp of None \<Rightarrow> [] | Some u \<Rightarrow> u) argc argv s
      | Do_askenv \<Rightarrow> do_askenv cfg cmdtp argc argv s
      | Do_echo \<Rightarrow> do_echo argc argv s
      | Do_help \<Rightarrow> do_help cfg tbl argc argv s
      | Do_version \<Rightarrow> do_version cfg version s
      | _ \<Rightarrow> other cmdtp flag argc argv s))"

section \<open>The main loop\<close>

text \<open>
  \<open>abortboot\<close>: 100 polls of the line every second.  \<open>key\<close> is the number of the poll that first sees
  a character, None where none comes; \<open>k\<close> counts the polls done.
\<close>

fun abortboot_loop :: "config \<Rightarrow> nat option \<Rightarrow> nat \<Rightarrow> nat \<Rightarrow> sys \<Rightarrow> bool result" where
  "abortboot_loop cfg key k 0 s = Inr (False, putc 10 s)"
| "abortboot_loop cfg key k (Suc bootdelay) s =
     (if (case key of None \<Rightarrow> False | Some p \<Rightarrow> p < k + 100) then
        sbind (getc s) (\<lambda>(_, s).
        sbind (printf cfg ([8, 8, 8] @ lit ''%2d '') [AInt 0] s) (\<lambda>(_, s). Inr (True, putc 10 s)))
      else
        sbind (printf cfg ([8, 8, 8] @ lit ''%2d '') [AInt (of_nat bootdelay)] s) (\<lambda>(_, s).
          abortboot_loop cfg key (k + 100) bootdelay s))"

definition abortboot :: "config \<Rightarrow> nat option \<Rightarrow> int \<Rightarrow> sys \<Rightarrow> bool result" where
  "abortboot cfg key bootdelay s =
     sbind (printf cfg (lit ''Hit any key to stop autoboot: %2d '') [AInt (of_int bootdelay)] s)
       (\<lambda>(_, s). abortboot_loop cfg key 0 (nat bootdelay) s)"

text \<open>The part of \<open>main_loop\<close> before its loop.\<close>

definition autoboot ::
  "config \<Rightarrow> cmd_tbl_t list \<Rightarrow> exec \<Rightarrow> nat option \<Rightarrow> sys \<Rightarrow> unit result" where
  "autoboot cfg tbl exec key s =
     sbind (getenv cfg s (lit ''bootdelay'')) (\<lambda>(p, s).
     let bootdelay = (case p of None \<Rightarrow> 0 | Some p \<Rightarrow> sint (fst (simple_strtol (cstr_of p) 10))) in
     sbind (getenv cfg s (lit ''bootcmd'')) (\<lambda>(p, s).
       case p of
         None \<Rightarrow> Inr ((), s)
       | Some p \<Rightarrow>
           if bootdelay < 0 then Inr ((), s)
           else
             sbind (abortboot cfg key bootdelay s) (\<lambda>(abort, s).
               if abort then Inr ((), s)
               else sbind (run_command cfg tbl exec (Some (cstr_of p)) 0 s) (\<lambda>(_, s). Inr ((), s)))))"

text \<open>\<open>strcpy\<close> into a buffer, and one turn of the loop.\<close>

definition strcpy_buf :: "byte list \<Rightarrow> byte list \<Rightarrow> byte list" where
  "strcpy_buf dst t = t @ [0] @ drop (length t + 1) dst"

definition main_turn :: "config \<Rightarrow> cmd_tbl_t list \<Rightarrow> exec \<Rightarrow> int \<Rightarrow> sys \<Rightarrow> int result" where
  "main_turn cfg tbl exec rc s =
     sbind (readline cfg (CFG_PROMPT cfg) s) (\<lambda>(len, s).
       let (flag, s) =
             (if 0 < len then
                (0, s\<lparr>lastcommand := strcpy_buf (lastcommand s) (cstr_of (console_buffer s))\<rparr>)
              else if len = 0 then (CMD_FLAG_REPEAT, s)
              else (0, s)) in
       sbind (if len = -1 then
                sbind (printf cfg (lit ''<INTERRUPT>\<newline>'') [] s) (\<lambda>(_, s). Inr (rc, s))
              else run_command cfg tbl exec (Some (cstr_of (lastcommand s))) flag s) (\<lambda>(rc, s).
         Inr (rc, if rc \<le> 0 then s\<lparr>lastcommand := (lastcommand s)[0 := 0]\<rparr> else s)))"

text \<open>\<open>n\<close> turns of the endless loop.\<close>

primrec main_loop_turns :: "nat \<Rightarrow> config \<Rightarrow> cmd_tbl_t list \<Rightarrow> exec \<Rightarrow> int \<Rightarrow> sys \<Rightarrow> int result" where
  "main_loop_turns 0 cfg tbl exec rc s = Inr (rc, s)"
| "main_loop_turns (Suc n) cfg tbl exec rc s =
     sbind (main_turn cfg tbl exec rc s) (\<lambda>(rc, s). main_loop_turns n cfg tbl exec rc s)"

definition main_loop ::
  "nat \<Rightarrow> config \<Rightarrow> cmd_tbl_t list \<Rightarrow> exec \<Rightarrow> nat option \<Rightarrow> sys \<Rightarrow> int result" where
  "main_loop n cfg tbl exec key s =
     sbind (autoboot cfg tbl exec key s) (\<lambda>(_, s). main_loop_turns n cfg tbl exec 1 s)"

end
