(* ===== verification/Interpreter.thy ===== *)
theory Interpreter
  imports CmdLine
begin

text \<open>
  What the command interpreter computes: editing, splitting and expanding a line against reference
  definitions on lists, the order in which commands run, and the inputs it does not survive.
\<close>

section \<open>Splitting a line\<close>

text \<open>Words with one blank between them.\<close>

fun join :: "byte list list \<Rightarrow> byte list" where
  "join [] = []"
| "join [w] = w"
| "join (w # ws) = w @ ch CHR '' '' # join ws"

definition word :: "byte list \<Rightarrow> bool" where
  "word w = (w \<noteq> [] \<and> (\<forall>c \<in> set w. c \<noteq> 0 \<and> \<not> blank c))"

lemma word_takeWhile:
  assumes "word w" "c = 0 \<or> blank c"
  shows "takeWhile (\<lambda>c. c \<noteq> 0 \<and> \<not> blank c) (w @ c # r) = w"
    "dropWhile (\<lambda>c. c \<noteq> 0 \<and> \<not> blank c) (w @ c # r) = c # r"
  using assms by (auto simp: word_def takeWhile_append2 dropWhile_append2)

lemma word_dropWhile: "word w \<Longrightarrow> dropWhile (\<lambda>c. blank c) (w @ r) = w @ r"
  by (cases w) (auto simp: word_def)

lemma parse_line_loop_word:
  assumes "word w" "c = 0 \<or> blank c"
  shows "parse_line_loop (Suc n) (w @ c # r) =
    (if c = 0 then Some ([w], False)
     else map_option (\<lambda>(args, many). (w # args, many)) (parse_line_loop n r))"
proof -
  have "w @ c # r \<noteq> []" "hd (w @ c # r) \<noteq> 0" using assms(1) by (cases w; simp add: word_def)+
  then show ?thesis
    using word_takeWhile [OF assms, of r] word_dropWhile [OF assms(1), of "c # r"]
    by (simp add: Let_def)
qed

lemma parse_line_join:
  "list_all word ws \<Longrightarrow> length ws \<le> n \<Longrightarrow> 0 < n \<Longrightarrow>
    parse_line_loop n (join ws @ 0 # r) = Some (ws, False)"
proof (induction ws arbitrary: n rule: join.induct)
  case (2 w)
  then obtain k where "n = Suc k" by (cases n) auto
  with 2 show ?case using parse_line_loop_word [of w 0 k r] by simp
next
  case (3 w v ws)
  then obtain k where n: "n = Suc k" "0 < k" by (cases n) auto
  have "parse_line_loop k (join (v # ws) @ 0 # r) = Some (v # ws, False)"
    using 3 n by simp
  then show ?case
    using 3(2) n parse_line_loop_word [of w "ch CHR '' ''" k "join (v # ws) @ 0 # r"] by simp
qed (auto simp: gr0_conv_Suc)

section \<open>Macros\<close>

text \<open>A line of text and references to variables.\<close>

datatype segment = Text "byte list" | Ref "byte list"

fun segment_source :: "segment \<Rightarrow> byte list" where
  "segment_source (Text t) = t"
| "segment_source (Ref n) = [ch CHR ''$'', ch CHR ''(''] @ n @ [ch CHR '')'']"

definition segment_value :: "config \<Rightarrow> sys \<Rightarrow> segment \<Rightarrow> byte list" where
  "segment_value cfg s seg = (case seg of Text t \<Rightarrow> t
     | Ref n \<Rightarrow> (case env_look cfg s n of None \<Rightarrow> [] | Some v \<Rightarrow> v))"

fun plain_segment :: "segment \<Rightarrow> bool" where
  "plain_segment (Text t) = (ch CHR ''$'' \<notin> set t \<and> 0x5C \<notin> set t)"
| "plain_segment (Ref n) = (valid_name n \<and> ch CHR '')'' \<notin> set n \<and> 0x5C \<notin> set n)"

definition clip :: "config \<Rightarrow> byte list \<Rightarrow> byte list" where
  "clip cfg t = take (CFG_CBSIZE cfg) t"

lemma macros_text:
  assumes "ch CHR ''$'' \<notin> set t" "0x5C \<notin> set t" "prev \<noteq> 0x5C" "length out \<le> CFG_CBSIZE cfg"
  shows "\<exists>prev'. prev' \<noteq> 0x5C \<and> process_macros_loop cfg (t @ input) prev 0 vs out s =
    (if CFG_CBSIZE cfg \<le> length (out @ t) then Inr (clip cfg (out @ t), s)
     else process_macros_loop cfg input prev' 0 vs (out @ t) s)"
  using assms
proof (induction t arbitrary: prev out)
  case Nil
  have "process_macros_loop cfg input prev 0 vs out s = Inr (out, s)" if "CFG_CBSIZE cfg \<le> length out"
    using that by (subst process_macros_loop.simps) simp
  with Nil show ?case by (auto simp: clip_def)
next
  case (Cons c t)
  show ?case
  proof (cases "CFG_CBSIZE cfg \<le> length out")
    case True
    then show ?thesis using Cons.prems
      by (subst process_macros_loop.simps) (auto simp: clip_def)
  next
    case False
    have "process_macros_loop cfg ((c # t) @ input) prev 0 vs out s
        = process_macros_loop cfg (t @ input) c 0 vs (out @ [c]) s"
      using Cons.prems False by (subst process_macros_loop.simps) (simp add: macro_step_def Let_def)
    moreover have "length (out @ [c]) \<le> CFG_CBSIZE cfg" "c \<noteq> 0x5C" using Cons.prems False by auto
    ultimately show ?thesis using Cons.IH [of c "out @ [c]"] Cons.prems by auto
  qed
qed

text \<open>The characters of a name.\<close>

lemma macros_name:
  assumes "ch CHR '')'' \<notin> set n" "0x5C \<notin> set n" "prev \<noteq> 0x5C" "length out < CFG_CBSIZE cfg"
  shows "\<exists>prev'. prev' \<noteq> 0x5C \<and> process_macros_loop cfg (n @ ch CHR '')'' # input) prev 2 vs out s =
    process_macros_loop cfg (ch CHR '')'' # input) prev' 2 vs out s"
  using assms
proof (induction n arbitrary: prev)
  case (Cons c n)
  have "process_macros_loop cfg ((c # n) @ ch CHR '')'' # input) prev 2 vs out s
      = process_macros_loop cfg (n @ ch CHR '')'' # input) c 2 vs out s"
    using Cons.prems by (subst process_macros_loop.simps) (simp add: macro_step_def Let_def)
  moreover have "c \<noteq> 0x5C" using Cons.prems by auto
  ultimately show ?case using Cons.IH [of c] Cons.prems by auto
qed auto

lemma macros_ref:
  assumes "env_inv s" "plain_segment (Ref n)" "length n < CFG_CBSIZE cfg" "prev \<noteq> 0x5C"
    "length out \<le> CFG_CBSIZE cfg"
  defines "out' \<equiv> out @ segment_value cfg s (Ref n)"
  shows "\<exists>prev' vs'. prev' \<noteq> 0x5C \<and> process_macros_loop cfg (segment_source (Ref n) @ input) prev 0 vs out s =
    (if CFG_CBSIZE cfg \<le> length out' then Inr (clip cfg out', s)
     else process_macros_loop cfg input prev' 0 vs' out' s)"
proof (cases "CFG_CBSIZE cfg \<le> length out")
  case True
  then show ?thesis using assms
    by (subst process_macros_loop.simps) (auto simp: clip_def out'_def)
next
  case False
  let ?r = "n @ ch CHR '')'' # input"
  have "process_macros_loop cfg (segment_source (Ref n) @ input) prev 0 vs out s
      = process_macros_loop cfg (ch CHR ''('' # ?r) (ch CHR ''$'') 1 vs out s"
    using False assms(4) by (subst process_macros_loop.simps) (simp add: macro_step_def Let_def)
  also have "\<dots> = process_macros_loop cfg ?r (ch CHR ''('') 2 ?r out s"
    using False by (subst process_macros_loop.simps) (simp add: macro_step_def Let_def)
  finally have 1: "process_macros_loop cfg (segment_source (Ref n) @ input) prev 0 vs out s = \<dots>" .
  obtain prev' where "prev' \<noteq> 0x5C" and 2: "process_macros_loop cfg ?r (ch CHR ''('') 2 ?r out s
      = process_macros_loop cfg (ch CHR '')'' # input) prev' 2 ?r out s"
    using macros_name [of n "ch CHR ''(''" out cfg input ?r s] assms(2) False by auto
  obtain e vars rest where e: "bi_env s = Some e" "env_rep (env_data e) vars rest"
    using assms(1) by (auto simp: env_inv_def)
  have n: "valid_name n" "cstr_of n = n" using assms(2) by (auto simp: valid_name_def)
  obtain p where p: "getenv cfg s n = Inr (p, s)" "map_option cstr_of p = map_of vars n"
    using ram_getenv [OF e n(1)] by blast
  define v where "v = segment_value cfg s (Ref n)"
  have v: "(case p of None \<Rightarrow> [] | Some p \<Rightarrow> cstr_of p) = v"
    unfolding v_def segment_value_def segment.case env_look_rep [OF e n(1)] p(2) [symmetric]
    by (cases p) simp_all
  have 3: "process_macros_loop cfg (ch CHR '')'' # input) prev' 2 ?r out s
      = process_macros_loop cfg input (ch CHR '')'') 0 ?r (out @ take (CFG_CBSIZE cfg - length out) v) s"
    using False assms(3) p(1) n(2) v \<open>prev' \<noteq> 0x5C\<close>
    by (subst process_macros_loop.simps) (simp add: macro_step_def Let_def)
  show ?thesis
  proof (cases "CFG_CBSIZE cfg \<le> length out'")
    case True
    then have "length (out @ take (CFG_CBSIZE cfg - length out) v) = CFG_CBSIZE cfg"
      "out @ take (CFG_CBSIZE cfg - length out) v = clip cfg out'"
      using False by (auto simp: out'_def v_def clip_def)
    then have "process_macros_loop cfg input (ch CHR '')'') 0 ?r (out @ take (CFG_CBSIZE cfg - length out) v) s
        = Inr (clip cfg out', s)"
      by (subst process_macros_loop.simps) simp
    then show ?thesis using True \<open>prev' \<noteq> 0x5C\<close> unfolding 1 2 3 by auto
  next
    case False
    then have "take (CFG_CBSIZE cfg - length out) v = v" by (simp add: out'_def v_def)
    then have *: "process_macros_loop cfg (segment_source (Ref n) @ input) prev 0 vs out s
        = process_macros_loop cfg input (ch CHR '')'') 0 ?r out' s"
      unfolding 1 2 3 by (simp add: out'_def v_def)
    show ?thesis unfolding * using False by (intro exI [of _ "ch CHR '')''"] exI [of _ ?r]) simp
  qed
qed

lemma macros_segments:
  assumes "env_inv s" "\<forall>seg \<in> set segs. plain_segment seg
      \<and> (\<forall>n. seg = Ref n \<longrightarrow> length n < CFG_CBSIZE cfg)" "prev \<noteq> 0x5C" "length out \<le> CFG_CBSIZE cfg"
  shows "process_macros_loop cfg (concat (map segment_source segs)) prev 0 vs out s =
    Inr (clip cfg (out @ concat (map (segment_value cfg s) segs)), s)"
  using assms
proof (induction segs arbitrary: prev vs out)
  case Nil
  then show ?case by (subst process_macros_loop.simps) (auto simp: clip_def)
next
  case (Cons seg segs)
  let ?rest = "concat (map segment_source segs)"
  let ?out = "out @ segment_value cfg s seg"
  obtain prev' vs' where *: "prev' \<noteq> 0x5C"
    "process_macros_loop cfg (segment_source seg @ ?rest) prev 0 vs out s =
      (if CFG_CBSIZE cfg \<le> length ?out then Inr (clip cfg ?out, s)
       else process_macros_loop cfg ?rest prev' 0 vs' ?out s)"
  proof (cases seg)
    case (Text t)
    have "segment_source seg = t" "segment_value cfg s seg = t"
      by (simp_all add: Text segment_value_def)
    with Text macros_text [of t prev out cfg ?rest vs s] Cons.prems that [of _ vs] show ?thesis by auto
  next
    case (Ref n)
    with macros_ref [of s n cfg prev out ?rest vs] Cons.prems that show ?thesis by auto
  qed
  then show ?case
    using Cons.IH [of prev' ?out vs'] Cons.prems by (auto simp: clip_def)
qed

section \<open>The order of commands\<close>

text \<open>Commands with a semicolon between them, and running them one by one.\<close>

fun join_commands :: "byte list list \<Rightarrow> byte list" where
  "join_commands [] = []"
| "join_commands [c] = c"
| "join_commands (c # cs) = c @ ch CHR '';'' # join_commands cs"

primrec run_each ::
  "config \<Rightarrow> cmd_tbl_t list \<Rightarrow> exec \<Rightarrow> byte list list \<Rightarrow> nat \<Rightarrow> nat \<Rightarrow> sys \<Rightarrow> int result" where
  "run_each cfg tbl exec [] flag repeat s = Inr (int repeat, s)"
| "run_each cfg tbl exec (c # cs) flag repeat s =
     sbind (run_token cfg tbl exec c flag repeat s) (\<lambda>((ret, flag, repeat), s).
       case ret of Some r \<Rightarrow> Inr (r, s) | None \<Rightarrow> run_each cfg tbl exec cs flag repeat s)"

definition plain_command :: "byte list \<Rightarrow> bool" where
  "plain_command c = (c \<noteq> [] \<and> ch CHR '';'' \<notin> set c \<and> last c \<noteq> 0x5C)"

lemma find_sep_plain:
  "ch CHR '';'' \<notin> set t \<Longrightarrow> last (prev # t) \<noteq> 0x5C \<Longrightarrow>
    find_sep (t @ ch CHR '';'' # r) prev = (t, r)"
  by (induction t arbitrary: prev) (auto split: if_splits)

lemma find_sep_end: "ch CHR '';'' \<notin> set t \<Longrightarrow> find_sep t prev = (t, [])"
  by (induction t arbitrary: prev) auto

lemma split_plain:
  assumes "plain_command c"
  shows "split_command (c @ ch CHR '';'' # r) = (c, r)" "split_command c = (c, [])"
proof -
  obtain x t where c: "c = x # t" using assms by (cases c) (auto simp: plain_command_def)
  then show "split_command (c @ ch CHR '';'' # r) = (c, r)" "split_command c = (c, [])"
    using assms find_sep_plain [of t x r] find_sep_end [of t x]
    by (auto simp: split_command_def plain_command_def)
qed

lemma sbind_prod_cong:
  "(\<And>a b c s. f ((a, b, c), s) = g ((a, b, c), s)) \<Longrightarrow> sbind r f = sbind r g"
  by (cases r) auto

lemma run_command_loop_each:
  "list_all plain_command cs \<Longrightarrow> cs \<noteq> [] \<Longrightarrow>
    run_command_loop cfg tbl exec (join_commands cs) flag repeat s
      = run_each cfg tbl exec cs flag repeat s"
proof (induction cs arbitrary: flag repeat s rule: join_commands.induct)
  case (2 c)
  have e: "run_command_loop cfg tbl exec [] flag repeat s = Inr (int repeat, s)" for flag repeat s
    by (subst run_command_loop.simps) simp
  have "c \<noteq> []" "split_command c = (c, [])" using 2 split_plain(2) by (auto simp: plain_command_def)
  then show ?case by (subst run_command_loop.simps) (simp add: e cong: option.case_cong)
next
  case (3 c d cs)
  let ?str = "join_commands (c # d # cs)"
  have "?str \<noteq> []" "split_command ?str = (c, join_commands (d # cs))"
    using 3(2) split_plain(1) [of c] by (auto simp: plain_command_def)
  then show ?case
    using 3 by (subst run_command_loop.simps) (simp cong: option.case_cong)
qed simp

section \<open>What a command line means\<close>

text \<open>
  A meaning of command lines of its own, without the interpreter's functions.  A command is text with
  references to variables.  Its words are the maximal runs of characters that are not blank in its
  text with the values in place of the references, taken from the environment the command finds.
\<close>

fun words_of :: "byte list \<Rightarrow> byte list list" where
  "words_of [] = []"
| "words_of (c # t) =
     (if blank c then words_of t
      else if t = [] \<or> blank (hd t) then [c] # words_of t
      else (c # hd (words_of t)) # tl (words_of t))"

definition holds :: "sys \<Rightarrow> (byte list \<times> byte list) list \<Rightarrow> bool" where
  "holds s vars = (\<exists>e rest. bi_env s = Some e \<and> env_rep (env_data e) vars rest)"

fun expand :: "(byte list \<times> byte list) list \<Rightarrow> segment list \<Rightarrow> byte list" where
  "expand vars [] = []"
| "expand vars (Text t # c) = t @ expand vars c"
| "expand vars (Ref n # c) = (case map_of vars n of None \<Rightarrow> [] | Some v \<Rightarrow> v) @ expand vars c"

text \<open>The words of a command in a state, where its text and their number fit the buffers.\<close>

definition command_words :: "config \<Rightarrow> sys \<Rightarrow> segment list \<Rightarrow> byte list list \<Rightarrow> bool" where
  "command_words cfg s c ws =
     (\<exists>vars. holds s vars \<and> ws = words_of (expand vars c) \<and> length (expand vars c) < CFG_CBSIZE cfg
       \<and> length ws < CFG_MAXARGS cfg)"

text \<open>The first entry whose name starts like the word, in as many characters as the entry asks for.\<close>

definition lookup :: "cmd_tbl_t list \<Rightarrow> byte list \<Rightarrow> cmd_tbl_t option" where
  "lookup tbl w = find (\<lambda>e. take (lmin e) w = take (lmin e) (cmd_name e)) tbl"

definition unknown_message :: "byte list \<Rightarrow> byte list" where
  "unknown_message w = lit (''Unknown command '' @ [CHR 0x27]) @ w @ lit ([CHR 0x27] @ '' - try 'help'\<newline>'')"

definition usage_message :: "byte list \<Rightarrow> byte list" where
  "usage_message u = lit ''Usage:\<newline>'' @ u @ lit ''\<newline>''"

text \<open>
  One rule for every way a command can go: its function is called once, with the entry and the words,
  on the state its predecessor left, and the rest of the line follows; or the line ends here, because
  the function had no value, control-C was seen, the word is no command, it has too many arguments, or
  \<open>bootd\<close> would start itself.  The value is 1 if every command was repeatable.
\<close>

inductive script ::
  "config \<Rightarrow> cmd_tbl_t list \<Rightarrow> exec \<Rightarrow> segment list list \<Rightarrow> nat \<Rightarrow> nat \<Rightarrow> sys \<Rightarrow> int result \<Rightarrow> bool"
  for cfg tbl exec where
  script_done: "script cfg tbl exec [] flag rep s (Inr (int rep, s))"
| script_call:
    "command_words cfg s c (w # ws) \<Longrightarrow> lookup tbl w = Some e \<Longrightarrow> length (w # ws) \<le> maxargs e \<Longrightarrow>
     cmd e \<noteq> Do_bootd \<Longrightarrow> exec e flag (length (w # ws)) (map Some (w # ws) @ [None]) s = Inr (v, s') \<Longrightarrow>
     \<not> ctrlc_was_pressed s' \<Longrightarrow> script cfg tbl exec cs flag (rep AND repeatable e) s' r \<Longrightarrow>
     script cfg tbl exec (c # cs) flag rep s r"
| script_bootd:
    "command_words cfg s c (w # ws) \<Longrightarrow> lookup tbl w = Some e \<Longrightarrow> length (w # ws) \<le> maxargs e \<Longrightarrow>
     cmd e = Do_bootd \<Longrightarrow> flag AND 2 = 0 \<Longrightarrow>
     exec e (flag OR 2) (length (w # ws)) (map Some (w # ws) @ [None]) s = Inr (v, s') \<Longrightarrow>
     \<not> ctrlc_was_pressed s' \<Longrightarrow> script cfg tbl exec cs (flag OR 2) (rep AND repeatable e) s' r \<Longrightarrow>
     script cfg tbl exec (c # cs) flag rep s r"
| script_stopped:
    "command_words cfg s c (w # ws) \<Longrightarrow> lookup tbl w = Some e \<Longrightarrow> length (w # ws) \<le> maxargs e \<Longrightarrow>
     cmd e = Do_bootd \<longrightarrow> flag AND 2 = 0 \<Longrightarrow>
     exec e (if cmd e = Do_bootd then flag OR 2 else flag) (length (w # ws)) (map Some (w # ws) @ [None]) s
       = Inr (v, s') \<Longrightarrow>
     ctrlc_was_pressed s' \<Longrightarrow> script cfg tbl exec (c # cs) flag rep s (Inr (0, s'))"
| script_no_value:
    "command_words cfg s c (w # ws) \<Longrightarrow> lookup tbl w = Some e \<Longrightarrow> length (w # ws) \<le> maxargs e \<Longrightarrow>
     cmd e = Do_bootd \<longrightarrow> flag AND 2 = 0 \<Longrightarrow>
     exec e (if cmd e = Do_bootd then flag OR 2 else flag) (length (w # ws)) (map Some (w # ws) @ [None]) s
       = Inl x \<Longrightarrow>
     script cfg tbl exec (c # cs) flag rep s (Inl x)"
| script_unknown:
    "command_words cfg s c (w # ws) \<Longrightarrow> lookup tbl w = None \<Longrightarrow> length (unknown_message w) < CFG_PBSIZE cfg \<Longrightarrow>
     script cfg tbl exec (c # cs) flag rep s (Inr (-1, puts (unknown_message w) s))"
| script_usage:
    "command_words cfg s c (w # ws) \<Longrightarrow> lookup tbl w = Some e \<Longrightarrow> maxargs e < length (w # ws) \<Longrightarrow>
     cmd_usage e = Some u \<Longrightarrow> 0 \<notin> set u \<Longrightarrow> length (usage_message u) < CFG_PBSIZE cfg \<Longrightarrow>
     script cfg tbl exec (c # cs) flag rep s (Inr (-1, puts (usage_message u) s))"
| script_recursion:
    "command_words cfg s c (w # ws) \<Longrightarrow> lookup tbl w = Some e \<Longrightarrow> length (w # ws) \<le> maxargs e \<Longrightarrow>
     cmd e = Do_bootd \<Longrightarrow> flag AND 2 \<noteq> 0 \<Longrightarrow> 40 < CFG_PBSIZE cfg \<Longrightarrow>
     script cfg tbl exec (c # cs) flag rep s (Inr (-1, puts (lit '''bootd' recursion detected\<newline>'') s))"

text \<open>The commands as they are typed, with semicolons between them.\<close>

definition command_source :: "segment list \<Rightarrow> byte list" where
  "command_source c = concat (map segment_source c)"

definition typed_command :: "segment list \<Rightarrow> bool" where
  "typed_command c =
     ((\<forall>seg \<in> set c. plain_segment seg) \<and> command_source c \<noteq> []
      \<and> ch CHR '';'' \<notin> set (command_source c) \<and> 0 \<notin> set (command_source c))"

lemma words_of_nonempty: "t \<noteq> [] \<Longrightarrow> \<not> blank (hd t) \<Longrightarrow> words_of t \<noteq> []"
  by (cases t) auto

lemma words_of_word: "w \<in> set (words_of t) \<Longrightarrow> set w \<subseteq> set t \<and> length w \<le> length t"
proof (induction t arbitrary: w)
  case (Cons c t)
  show ?case
  proof (cases "blank c \<or> t = [] \<or> blank (hd t)")
    case True
    with Cons.prems Cons.IH [of w] show ?thesis by (auto split: if_splits)
  next
    case False
    then obtain a ws where "words_of t = a # ws" using words_of_nonempty [of t] by (cases "words_of t") auto
    with False Cons.prems Cons.IH [of a] Cons.IH [of w] show ?thesis by auto
  qed
qed simp

lemma words_of_dropWhile: "words_of (dropWhile (\<lambda>c. blank c) t) = words_of t"
  by (induction t) auto

text \<open>A word in front.\<close>

lemma words_of_takeWhile:
  assumes "t \<noteq> []" "\<not> blank (hd t)"
  shows "words_of t = takeWhile (\<lambda>c. \<not> blank c) t # words_of (dropWhile (\<lambda>c. \<not> blank c) t)"
  using assms
proof (induction t)
  case (Cons c t)
  show ?case
  proof (cases "t = [] \<or> blank (hd t)")
    case True
    then show ?thesis using Cons.prems by (cases t) auto
  next
    case False
    with Cons show ?thesis by simp
  qed
qed simp

text \<open>\<open>parse_line\<close> finds these words.\<close>

lemma parse_line_loop_words:
  "0 \<notin> set t \<Longrightarrow> length (words_of t) < n \<Longrightarrow> parse_line_loop n (t @ 0 # r) = Some (words_of t, False)"
proof (induction n arbitrary: t)
  case (Suc n)
  define u where "u = dropWhile (\<lambda>c. blank c) t"
  have u: "words_of t = words_of u" "0 \<notin> set u" "u = [] \<or> \<not> blank (hd u)"
    using Suc.prems(1) hd_dropWhile [of "\<lambda>c. blank c" t] words_of_dropWhile [of t]
    unfolding u_def by (auto dest: set_dropWhileD)
  have d: "dropWhile (\<lambda>c. blank c) (t @ 0 # r) = u @ 0 # r"
    unfolding u_def by (auto simp: dropWhile_append)
  show ?case
  proof (cases "u = []")
    case True
    then show ?thesis using d u(1) by simp
  next
    case False
    define w v where "w = takeWhile (\<lambda>c. \<not> blank c) u" and "v = dropWhile (\<lambda>c. \<not> blank c) u"
    have wv: "u = w @ v" "words_of u = w # words_of v"
      using words_of_takeWhile [of u] False u(3) by (simp_all add: w_def v_def)
    have w: "word w" using False u(2,3) unfolding word_def w_def
      by (cases u) (auto dest: set_takeWhileD)
    show ?thesis
    proof (cases v)
      case Nil
      then show ?thesis using d u(1) wv parse_line_loop_word [OF w, of 0 n r] word_dropWhile [OF w, of "0 # r"]
        by simp
    next
      case (Cons c v')
      have "v \<noteq> []" using Cons by simp
      then have "blank (hd v)" using hd_dropWhile [of "\<lambda>c. \<not> blank c" u] unfolding v_def by blast
      then have c: "blank c" by (simp add: Cons)
      have v': "words_of v = words_of v'" "0 \<notin> set v'" using Cons c u(2) wv(1) by auto
      have "parse_line_loop n (v' @ 0 # r) = Some (words_of v', False)"
        using Suc.IH [OF v'(2)] Suc.prems(2) u(1) wv(2) v'(1) by simp
      moreover have "parse_line_loop (Suc n) (t @ 0 # r) = parse_line_loop (Suc n) (w @ c # v' @ 0 # r)"
        using d wv(1) Cons word_dropWhile [OF w, of "c # v' @ 0 # r"] by simp
      ultimately show ?thesis
        using parse_line_loop_word [OF w, of c n "v' @ 0 # r"] c u(1) wv(2) v'(1) by auto
    qed
  qed
qed simp

lemma typed_plain: "typed_command c \<Longrightarrow> plain_command (command_source c)"
proof -
  assume c: "typed_command c"
  have "ch CHR '')'' \<noteq> (0x5C :: byte)" "ch CHR ''('' \<noteq> (0x5C :: byte)" "ch CHR ''$'' \<noteq> (0x5C :: byte)"
    by simp_all
  then have "0x5C \<notin> set (segment_source seg)" if "seg \<in> set c" for seg
    using c that by (cases seg) (fastforce simp: typed_command_def)+
  then have "0x5C \<notin> set (command_source c)" by (auto simp: command_source_def)
  moreover have "command_source c \<noteq> []" using c by (simp add: typed_command_def)
  ultimately show ?thesis
    using c last_in_set [of "command_source c"] unfolding typed_command_def plain_command_def by metis
qed

lemma expand_values:
  assumes "bi_env s = Some e" "env_rep (env_data e) vars rest" "\<forall>seg \<in> set c. plain_segment seg"
  shows "concat (map (segment_value cfg s) c) = expand vars c"
  using assms(3)
proof (induction c)
  case (Cons seg c)
  then show ?case using env_look_rep [OF assms(1,2), of _ cfg]
    by (cases seg) (simp_all add: segment_value_def)
qed simp

lemma expand_nonzero:
  assumes "env_rep d vars rest" "0 \<notin> set (command_source c)"
  shows "0 \<notin> set (expand vars c)"
  using assms(2)
proof (induction c)
  case (Cons seg c)
  have "0 \<notin> set v" if "map_of vars n = Some v" for n v
    using assms(1) map_of_SomeD [OF that] by (auto simp: env_rep_def valid_vars_def)
  with Cons show ?case by (cases seg) (auto simp: command_source_def split: option.splits)
qed simp

lemma lookup_find: "lookup tbl w = find_cmd tbl w"
  unfolding lookup_def by (induction tbl) (simp_all add: same_prefix_def)

text \<open>Expansion, splitting and lookup of one command.\<close>

lemma run_token_command:
  assumes "typed_command c" "length (command_source c) < CFG_CBSIZE cfg" "command_words cfg s c (w # ws)"
  shows "run_token cfg tbl exec (command_source c) flag rep s =
     (case lookup tbl w of
       None \<Rightarrow>
         sbind (printf cfg (lit ''Unknown command '%s' - try 'help'\<newline>'') [AStr (Some w)] s)
           (\<lambda>(_, s). Inr ((Some (-1), flag, rep), s))
     | Some e \<Rightarrow>
         if maxargs e < length (w # ws) then
           sbind (printf cfg (lit ''Usage:\<newline>%s\<newline>'') [AStr (cmd_usage e)] s)
             (\<lambda>(_, s). Inr ((Some (-1), flag, rep), s))
         else if cmd e = Do_bootd \<and> flag AND 2 \<noteq> 0 then
           sbind (printf cfg (lit '''bootd' recursion detected\<newline>'') [] s)
             (\<lambda>(_, s). Inr ((Some (-1), flag, rep), s))
         else
           let flag = (if cmd e = Do_bootd then flag OR 2 else flag) in
           sbind (exec e flag (length (w # ws)) (map Some (w # ws) @ [None]) s) (\<lambda>(_, s).
             Inr ((if ctrlc_was_pressed s then Some 0 else None, flag, rep AND repeatable e), s)))"
    "0 \<notin> set w" "length w < CFG_CBSIZE cfg"
proof -
  obtain vars e rest where v: "bi_env s = Some e" "env_rep (env_data e) vars rest"
      "w # ws = words_of (expand vars c)" "length (expand vars c) < CFG_CBSIZE cfg" "length (w # ws) < CFG_MAXARGS cfg"
    using assms(3) unfolding command_words_def holds_def by blast
  have p: "\<forall>seg \<in> set c. plain_segment seg" and z: "0 \<notin> set (command_source c)"
    using assms(1) by (simp_all add: typed_command_def)
  have n: "length n < CFG_CBSIZE cfg" if "Ref n \<in> set c" for n
  proof -
    from split_list [OF that] obtain a b where "c = a @ Ref n # b" by blast
    with assms(2) show ?thesis by (simp add: command_source_def)
  qed
  have inv: "env_inv s" using v(1,2) by (auto simp: env_inv_def)
  have "process_macros cfg (command_source c) s = Inr (expand vars c @ [0], s)"
  proof -
    have "\<forall>seg\<in>set c. plain_segment seg \<and> (\<forall>n. seg = Ref n \<longrightarrow> length n < CFG_CBSIZE cfg)"
      using p n by blast
    from macros_segments [OF inv this, of 0 "[]" "[]"] v(4) show ?thesis
      unfolding process_macros_def command_source_def
      by (simp add: expand_values [OF v(1,2) p] clip_def)
  qed
  moreover have z': "0 \<notin> set (expand vars c)" by (rule expand_nonzero [OF v(2) z])
  then have "parse_line cfg (expand vars c @ [0]) s = Inr ((length (w # ws), map Some (w # ws) @ [None]), s)"
    using parse_line_loop_words [of "expand vars c" "CFG_MAXARGS cfg" "[]"] v(3,5)
    by (simp add: parse_line_def ub_def)
  ultimately show "run_token cfg tbl exec (command_source c) flag rep s =
     (case lookup tbl w of
       None \<Rightarrow>
         sbind (printf cfg (lit ''Unknown command '%s' - try 'help'\<newline>'') [AStr (Some w)] s)
           (\<lambda>(_, s). Inr ((Some (-1), flag, rep), s))
     | Some e \<Rightarrow>
         if maxargs e < length (w # ws) then
           sbind (printf cfg (lit ''Usage:\<newline>%s\<newline>'') [AStr (cmd_usage e)] s)
             (\<lambda>(_, s). Inr ((Some (-1), flag, rep), s))
         else if cmd e = Do_bootd \<and> flag AND 2 \<noteq> 0 then
           sbind (printf cfg (lit '''bootd' recursion detected\<newline>'') [] s)
             (\<lambda>(_, s). Inr ((Some (-1), flag, rep), s))
         else
           let flag = (if cmd e = Do_bootd then flag OR 2 else flag) in
           sbind (exec e flag (length (w # ws)) (map Some (w # ws) @ [None]) s) (\<lambda>(_, s).
             Inr ((if ctrlc_was_pressed s then Some 0 else None, flag, rep AND repeatable e), s)))"
    unfolding run_token_def lookup_find
    by (simp add: argv_str_def CMD_FLAG_BOOTD_def had_ctrlc_def Let_def split: option.split)
  have "w \<in> set (words_of (expand vars c))" by (simp flip: v(3))
  then show "0 \<notin> set w" using words_of_word z' by blast
  have "w \<in> set (words_of (expand vars c))" by (simp flip: v(3))
  with words_of_word [of w "expand vars c"] v(4) show "length w < CFG_CBSIZE cfg"
    by (simp flip: v(3))
qed

lemma join_commands_length: "c \<in> set cs \<Longrightarrow> length c \<le> length (join_commands cs)"
  by (induction cs rule: join_commands.induct) auto

text \<open>The interpreter's functions give what the rules give.\<close>

lemma script_run_each:
  assumes "script cfg tbl exec cs flag rep s r"
    "list_all (\<lambda>c. typed_command c \<and> length (command_source c) < CFG_CBSIZE cfg) cs"
    "CFG_CBSIZE cfg \<le> 2 ^ 32" "CFG_PBSIZE cfg \<le> 2 ^ 32"
  shows "run_each cfg tbl exec (map command_source cs) flag rep s = r"
  using assms
proof (induction rule: script.induct)
  case (script_unknown s c w ws cs flag rep)
  have f: "lit ''Unknown command '%s' - try 'help'\<newline>''
      = lit (''Unknown command '' @ [CHR 0x27]) @ ch CHR ''%'' # ch CHR ''s'' # lit ([CHR 0x27] @ '' - try 'help'\<newline>'')"
    by (simp add: lit_def)
  note t = run_token_command [OF _ _ script_unknown(1)]
  have "0 \<notin> set w" "length w < 2 ^ 32" using t(2,3) script_unknown(4,5) by auto
  then have "printf cfg (lit ''Unknown command '%s' - try 'help'\<newline>'') [AStr (Some w)] s
      = Inr ((), puts (unknown_message w) s)"
    using script_unknown(3)
    by (subst printf_string [OF f]) (simp_all add: unknown_message_def lit_def)
  then show ?case using t(1) script_unknown(2,4) by simp
next
  case (script_usage s c w ws e u cs flag rep)
  have f: "lit ''Usage:\<newline>%s\<newline>'' = lit ''Usage:\<newline>'' @ ch CHR ''%'' # ch CHR ''s'' # lit ''\<newline>''"
    by (simp add: lit_def)
  note t = run_token_command [OF _ _ script_usage(1)]
  have "printf cfg (lit ''Usage:\<newline>%s\<newline>'') [AStr (Some u)] s = Inr ((), puts (usage_message u) s)"
    using script_usage(5,6,9)
    by (subst printf_string [OF f]) (simp_all add: usage_message_def lit_def)
  then show ?case using t(1) script_usage(2,3,4,7) by simp
next
  case (script_recursion s c w ws e flag cs rep)
  note t = run_token_command [OF _ _ script_recursion(1)]
  have "printf cfg (lit '''bootd' recursion detected\<newline>'') [] s
      = Inr ((), puts (lit '''bootd' recursion detected\<newline>'') s)"
    using script_recursion(6) by (subst printf_plain) (simp_all add: lit_def)
  then show ?case using t(1) script_recursion(2-5,7) by simp
next
  case (script_stopped s c w ws e flag v s' cs rep)
  then show ?case using run_token_command(1) [OF _ _ script_stopped(1)]
    by (cases "cmd e = Do_bootd") (simp_all add: Let_def)
next
  case (script_no_value s c w ws e flag x cs rep)
  then show ?case using run_token_command(1) [OF _ _ script_no_value(1)]
    by (cases "cmd e = Do_bootd") (simp_all add: Let_def)
qed (simp_all add: run_token_command(1) Let_def)

section \<open>Editing\<close>

text \<open>
  The line as a list: what a key does to it.  Control-W deletes up to and with the last blank
  before the end.
\<close>

definition erase_word :: "byte list \<Rightarrow> byte list" where
  "erase_word t = rev (tl (dropWhile (\<lambda>c. c \<noteq> ch CHR '' '') (rev t)))"

definition edit :: "nat \<Rightarrow> byte \<Rightarrow> byte list \<Rightarrow> byte list" where
  "edit room c t =
     (if c = 0x15 then []
      else if c = 0x17 then erase_word t
      else if c = 8 \<or> c = 0x7F then butlast t
      else if length t < room then t @ [c] else t)"

lemma edit_keys:
  "edit room 0x15 t = []" "edit room 0x17 t = erase_word t"
  "c = 8 \<or> c = 0x7F \<Longrightarrow> edit room c t = butlast t"
  "c \<notin> {0x15, 0x17, 8, 0x7F} \<Longrightarrow> edit room c t = (if length t < room then t @ [c] else t)"
  by (auto simp: edit_def)

text \<open>Only the console moves while a line is erased or echoed.\<close>

definition echoed :: "sys \<Rightarrow> sys \<Rightarrow> bool" where
  "echoed s s' = (s' = s\<lparr>con_out := con_out s'\<rparr>)"

lemma echoed_iff: "echoed s s' = (\<exists>t. s' = s\<lparr>con_out := t\<rparr>)"
  by (auto simp: echoed_def)

lemma echoed_refl [simp]: "echoed s s"
  by (simp add: echoed_def)

lemma echoed_puts: "echoed s s' \<Longrightarrow> echoed s (puts t s')" "echoed s s' \<Longrightarrow> echoed s (putc c s')"
  by (auto simp: echoed_iff puts_out putc_out)

lemma echoed_trans: "echoed s s' \<Longrightarrow> echoed s' s'' \<Longrightarrow> echoed s s''"
  by (auto simp: echoed_iff)

lemma echoed_fields:
  "echoed s s' \<Longrightarrow> console_buffer s' = console_buffer s \<and> con_in s' = con_in s \<and> bi_env s' = bi_env s"
  by (auto simp: echoed_iff)

lemma erase_to_echoed: "echoed s (erase_to plen col s)"
proof -
  have "echoed s ((puts erase_seq ^^ k) s)" for k
    by (induction k) (auto intro: echoed_puts)
  then show ?thesis by (simp add: erase_to_def)
qed

lemma echo_char_echoed: "echoed s (snd (echo_char c col s))"
  by (auto simp: echo_char_def intro: echoed_puts)

lemma echo_line_echoed: "echoed s (snd (echo_line cs col s))"
proof (induction cs arbitrary: col s)
  case (Cons c cs)
  then show ?case
    using echo_char_echoed [of s c col] by (auto simp: Let_def split: prod.splits intro: echoed_trans)
qed simp

lemma delete_char_echoed:
  "\<exists>col' s'. delete_char n col plen s = (n - 1, col', s') \<and> echoed s s'"
proof (cases "n = 0 \<or> console_buffer s ! (n - 1) \<noteq> 9")
  case True
  then show ?thesis by (auto simp: delete_char_def Let_def intro: echoed_puts)
next
  case False
  obtain col' s' where e: "echo_line (take (n - 1) (console_buffer (erase_to plen col s))) (min col plen)
      (erase_to plen col s) = (col', s')" by fastforce
  have "echoed s s'"
    using echoed_trans [OF erase_to_echoed, of _ _ _ s'] echo_line_echoed e by (metis snd_conv)
  with False e show ?thesis by (auto simp: delete_char_def Let_def)
qed

lemma erase_word_Suc:
  assumes "Suc n < length b"
  shows "erase_word (take (Suc (Suc n)) b) =
    (if b ! Suc n = ch CHR '' '' then take (Suc n) b else erase_word (take (Suc n) b))"
  using take_Suc_conv_app_nth [OF assms] by (simp add: erase_word_def)

lemma delete_word_echoed:
  "n < length (console_buffer s) \<Longrightarrow>
    \<exists>col' s'. delete_word n col plen s =
      (length (erase_word (take (Suc n) (console_buffer s))), col', s') \<and> echoed s s'"
proof (induction n arbitrary: col s)
  case 0
  then have "take (Suc 0) (console_buffer s) = [hd (console_buffer s)]"
    by (cases "console_buffer s") auto
  then show ?case by (simp add: erase_word_def)
next
  case (Suc n)
  let ?b = "console_buffer s"
  show ?case
  proof (cases "?b ! Suc n = ch CHR '' ''")
    case True
    then show ?thesis using Suc.prems by (auto simp: erase_word_Suc)
  next
    case False
    obtain col1 s1 where d: "delete_char (Suc n) col plen s = (n, col1, s1)" "echoed s s1"
      using delete_char_echoed [of "Suc n" col plen s] by auto
    have b: "console_buffer s1 = ?b" using echoed_fields [OF d(2)] by simp
    obtain col2 s2 where "delete_word n col1 plen s1 = (length (erase_word (take (Suc n) ?b)), col2, s2)"
      "echoed s1 s2" using Suc.IH [of s1 col1] Suc.prems b by auto
    then show ?thesis
      using False d Suc.prems echoed_trans [OF d(2)] by (simp add: erase_word_Suc)
  qed
qed

lemma erase_word_take: "erase_word t = take (length (erase_word t)) t"
proof -
  have "\<exists>r. t = erase_word t @ r"
  proof -
    have "rev t = takeWhile (\<lambda>c. c \<noteq> ch CHR '' '') (rev t) @ dropWhile (\<lambda>c. c \<noteq> ch CHR '' '') (rev t)"
      by simp
    then have "t = rev (dropWhile (\<lambda>c. c \<noteq> ch CHR '' '') (rev t))
        @ rev (takeWhile (\<lambda>c. c \<noteq> ch CHR '' '') (rev t))"
      by (metis rev_append rev_rev_ident)
    moreover have "\<exists>q. rev u = rev (tl u) @ q" for u :: "byte list" by (cases u) auto
    ultimately show ?thesis unfolding erase_word_def by (metis append.assoc)
  qed
  then show ?thesis by (metis append_eq_conv_conj)
qed

text \<open>The deletion keys on the buffer.\<close>

lemma delete_keys:
  assumes "take n (console_buffer s) = t" "n = length t" "n < length (console_buffer s)"
  shows "\<exists>col' s'. delete_char n col plen s = (length (butlast t), col', s') \<and> echoed s s'"
    and "\<exists>col' s'. (let (n, col, s) = delete_char n col plen s in delete_word n col plen s)
      = (length (erase_word t), col', s') \<and> echoed s s'"
proof -
  show "\<exists>col' s'. delete_char n col plen s = (length (butlast t), col', s') \<and> echoed s s'"
    using delete_char_echoed [of n col plen s] assms(2) by auto
  obtain col1 s1 where d: "delete_char n col plen s = (n - 1, col1, s1)" "echoed s s1"
    using delete_char_echoed [of n col plen s] by auto
  have b: "console_buffer s1 = console_buffer s" using echoed_fields [OF d(2)] by simp
  show "\<exists>col' s'. (let (n, col, s) = delete_char n col plen s in delete_word n col plen s)
      = (length (erase_word t), col', s') \<and> echoed s s'"
  proof (cases "t = []")
    case True
    then show ?thesis using d assms(2) by (simp add: erase_word_def)
  next
    case False
    then have "Suc (n - 1) = n" using assms(2) by (cases t) auto
    then obtain col2 s2 where "delete_word (n - 1) col1 plen s1 = (length (erase_word t), col2, s2)"
      "echoed s1 s2"
      using delete_word_echoed [of "n - 1" s1 col1 plen] assms b by auto
    then show ?thesis using d echoed_trans [OF d(2)] by auto
  qed
qed

lemma readline_loop_edits:
  assumes "list_all (\<lambda>c. c \<noteq> 13 \<and> c \<noteq> 10 \<and> c \<noteq> 3) typed"
    "take n (console_buffer s) = t" "n = length t" "length t \<le> CFG_CBSIZE cfg - 2"
    "length (console_buffer s) = CFG_CBSIZE cfg" "2 \<le> CFG_CBSIZE cfg" "e = 13 \<or> e = 10"
  defines "r \<equiv> fold (edit (CFG_CBSIZE cfg - 2)) typed t"
  shows "\<exists>s'. readline_loop cfg plen (typed @ e # later) n col s = Inr (int (length r), s')
    \<and> take (length r) (console_buffer s') = r \<and> console_buffer s' ! length r = 0
    \<and> length (console_buffer s') = CFG_CBSIZE cfg \<and> con_in s' = later
    \<and> bi_env s' = bi_env s \<and> length r \<le> CFG_CBSIZE cfg - 2"
  using assms(1-5) unfolding r_def
proof (induction typed arbitrary: n col s t)
  case Nil
  then have "n < length (console_buffer s)" using assms(6) by simp
  then show ?case
    using Nil assms(7) by (auto simp: store_char_def ub_def puts_out Let_def)
next
  case (Cons c typed)
  let ?s = "s\<lparr>con_in := typed @ e # later\<rparr>"
  let ?room = "CFG_CBSIZE cfg - 2"
  have nb: "n < length (console_buffer ?s)" using Cons.prems assms(6) by simp
  note keys = delete_keys [of n ?s t, OF _ Cons.prems(3) nb]
  have tk: "take n (console_buffer ?s) = t" using Cons.prems by simp
  have goon: "\<exists>s'. readline_loop cfg plen (typed @ e # later) (length t') col' s1
        = Inr (int (length (fold (edit ?room) typed t')), s')
      \<and> take (length (fold (edit ?room) typed t')) (console_buffer s') = fold (edit ?room) typed t'
      \<and> console_buffer s' ! length (fold (edit ?room) typed t') = 0
      \<and> length (console_buffer s') = CFG_CBSIZE cfg \<and> con_in s' = later
      \<and> bi_env s' = bi_env s \<and> length (fold (edit ?room) typed t') \<le> ?room"
    if "take (length t') t = t'" "echoed ?s s1" for t' col' s1
  proof -
    have "length t' \<le> length t" using that(1) by (metis length_take min.cobounded1)
    moreover have "take (length t') (console_buffer s1) = t'"
      using that tk Cons.prems(3) echoed_fields [OF that(2)]
      by (metis \<open>length t' \<le> length t\<close> min.absorb1 take_take)
    ultimately show ?thesis
      using Cons.IH [of "length t'" s1 t' col'] Cons.prems echoed_fields [OF that(2)] by auto
  qed
  have c: "c \<noteq> 13" "c \<noteq> 10" "c \<noteq> 3" using Cons.prems(1) by auto
  consider "c = 0x15" | "c = 0x17" | "c = 8 \<or> c = 0x7F" | "c \<notin> {0x15, 0x17, 8, 0x7F}" by blast
  then show ?case
  proof cases
    case 1
    then show ?thesis using goon [of "[]" "erase_to plen col ?s"] erase_to_echoed [of ?s plen col]
      by (simp add: edit_keys Let_def)
  next
    case 2
    obtain col' s1 where k: "(let (n, col, s) = delete_char n col plen ?s in delete_word n col plen s)
        = (length (erase_word t), col', s1)" "echoed ?s s1"
      using keys(2) [OF tk, of col plen] by (elim exE conjE) (rule that)
    have "readline_loop cfg plen ((c # typed) @ e # later) n col s
        = readline_loop cfg plen (typed @ e # later) (length (erase_word t)) col' s1"
      using k(1) 2 by (auto simp: Let_def split: prod.splits)
    then show ?thesis using goon [of "erase_word t" s1 col'] k(2) erase_word_take [of t] 2
      by (simp add: edit_keys)
  next
    case 3
    obtain col' s1 where k: "delete_char n col plen ?s = (length (butlast t), col', s1)" "echoed ?s s1"
      using keys(1) [OF tk] by blast
    have "readline_loop cfg plen ((c # typed) @ e # later) n col s
        = readline_loop cfg plen (typed @ e # later) (length (butlast t)) col' s1"
      using k(1) 3 by (auto simp: Let_def)
    then show ?thesis using goon [of "butlast t" s1 col'] k(2) 3
      by (auto simp: edit_keys butlast_conv_take)
  next
    case 4
    show ?thesis
    proof (cases "n < ?room")
      case True
      obtain col' s1 where ec: "echo_char c col ?s = (col', s1)" by fastforce
      have s1: "echoed ?s s1" using echo_char_echoed [of ?s c col] ec by simp
      define s2 where "s2 = s1\<lparr>console_buffer := (console_buffer s)[n := c]\<rparr>"
      have "readline_loop cfg plen ((c # typed) @ e # later) n col s
          = readline_loop cfg plen (typed @ e # later) (n + 1) col' s2"
        using True 4 c ec nb echoed_fields [OF s1]
        by (simp add: Let_def store_char_def ub_def s2_def)
      moreover have "take (n + 1) (console_buffer s2) = t @ [c]"
        using nb tk by (simp add: s2_def take_Suc_conv_app_nth)
      moreover have "length (console_buffer s2) = CFG_CBSIZE cfg" "bi_env s2 = bi_env s"
        using Cons.prems(5) echoed_fields [OF s1] by (simp_all add: s2_def)
      ultimately show ?thesis
        using Cons.IH [of "n + 1" s2 "t @ [c]" col'] Cons.prems True 4
        by (auto simp: edit_keys)
    next
      case False
      then have rl: "readline_loop cfg plen ((c # typed) @ e # later) n col s
          = readline_loop cfg plen (typed @ e # later) (length t) col (putc 7 ?s)"
        using 4 c Cons.prems(3) by (simp add: Let_def)
      have ed: "edit ?room c t = t" using False 4 Cons.prems(3) by (simp add: edit_keys)
      show ?thesis
        unfolding rl fold_simps ed
        by (rule goon) (simp_all add: echoed_puts)
    qed
  qed
qed

section \<open>Plain commands\<close>

lemma process_macros_plain:
  assumes "ch CHR ''$'' \<notin> set t" "0x5C \<notin> set t" "length t < CFG_CBSIZE cfg"
  shows "process_macros cfg t s = Inr (t @ [0], s)"
proof -
  have "process_macros_loop cfg (t @ []) 0 0 [] [] s = Inr (t, s)"
    using macros_text [of t 0 "[]" cfg "[]" "[]" s] assms
    by (auto simp: process_macros_loop.simps [of cfg "[]"])
  then show ?thesis using assms(3) by (simp add: process_macros_def)
qed

definition plain_text :: "byte list \<Rightarrow> bool" where
  "plain_text t = (t \<noteq> [] \<and> ch CHR '';'' \<notin> set t \<and> ch CHR ''$'' \<notin> set t \<and> 0x5C \<notin> set t)"

lemma run_command_plain:
  assumes "plain_text t" "length t < CFG_CBSIZE cfg"
  shows "run_command cfg tbl exec (Some t) flag s =
    run_each cfg tbl exec [t] flag 1 (clear_ctrlc s)"
proof -
  have "plain_command t"
    using assms(1) unfolding plain_text_def plain_command_def by (metis last_in_set)
  then have "run_command_loop cfg tbl exec t flag 1 (clear_ctrlc s)
      = run_each cfg tbl exec [t] flag 1 (clear_ctrlc s)"
    using run_command_loop_each [of "[t]" cfg tbl exec flag 1 "clear_ctrlc s"] by simp
  moreover have "t \<noteq> []" using assms(1) by (simp add: plain_text_def)
  moreover have "\<not> CFG_CBSIZE cfg - 1 < length t" using assms(2) by linarith
  ultimately show ?thesis unfolding run_command_def Let_def by simp
qed

lemma run_token_plain:
  assumes "plain_text t" "length t < CFG_CBSIZE cfg"
  shows "process_macros cfg t s = Inr (t @ [0], s)"
  using assms by (intro process_macros_plain) (simp_all add: plain_text_def)

text \<open>Commands that do nothing, for the examples.\<close>

definition quiet :: exec where
  "quiet = (\<lambda>cmdtp flag argc argv s. Inr (0, s))"

text \<open>A function that writes its words, one on a line.\<close>

definition loud :: exec where
  "loud = (\<lambda>cmdtp flag argc argv s.
     Inr (0, puts (concat (map (\<lambda>a. case a of None \<Rightarrow> [] | Some w \<Rightarrow> w @ [10]) argv)) s))"

section \<open>Properties\<close>

text \<open>
  C8: \<open>parse_line\<close> undoes the joining of words: a line of at most \<open>CFG_MAXARGS\<close> words with single
  blanks between them is split into exactly these words, and \<open>argv\<close> ends with NULL.
\<close>

theorem parse_line_splits_words:
  assumes "list_all word ws" "length ws \<le> CFG_MAXARGS cfg" "0 < CFG_MAXARGS cfg"
  shows "parse_line cfg (join ws @ 0 # r) s = Inr ((length ws, map Some ws @ [None]), s)"
  using parse_line_join [OF assms] by (simp add: parse_line_def ub_def)

theorem parse_line_splits_words_witness:
  "parse_line dnp1110 (lit ''go 8000'' @ [0]) (reset_sys 0)
    = Inr ((2, [Some (lit ''go''), Some (lit ''8000''), None]), reset_sys 0)"
  using parse_line_splits_words [of "[lit ''go'', lit ''8000'']" dnp1110 "[]" "reset_sys 0"]
  by (simp add: word_def lit_def dnp1110_def)

text \<open>
  C6: \<open>process_macros\<close> replaces every reference \<^verbatim>\<open>$(name)\<close> by the value of the variable, or by nothing,
  and copies the text between.  It writes a closing NUL where the result is shorter than
  \<open>CFG_CBSIZE\<close>; a longer result is cut to \<open>CFG_CBSIZE\<close> characters and has no NUL at all.
\<close>

theorem process_macros_expands:
  assumes "env_inv s" "\<forall>seg \<in> set segs. plain_segment seg
      \<and> (\<forall>n. seg = Ref n \<longrightarrow> length n < CFG_CBSIZE cfg)"
  defines "t \<equiv> concat (map (segment_value cfg s) segs)"
  shows "process_macros cfg (concat (map segment_source segs)) s =
    Inr (if length t < CFG_CBSIZE cfg then t @ [0] else take (CFG_CBSIZE cfg) t, s)"
  using macros_segments [OF assms(1,2), of 0 "[]" "[]"]
  by (simp add: process_macros_def clip_def t_def)

theorem process_macros_expands_witness:
  "process_macros dnp1110 (lit ''go $(ip)!'') small_env = Inr (lit ''go !'' @ [0], small_env)"
proof -
  let ?segs = "[Text (lit ''go ''), Ref (lit ''ip''), Text (lit ''!'')]"
  have i: "env_inv small_env" using small_env_rep by (auto simp: env_inv_def)
  have "env_look dnp1110 small_env (lit ''ip'') = None"
    using env_look_rep [OF small_env_rep(1), of "[]" "replicate 19 0" "lit ''ip''"] small_env_rep(2) plain_ip
    by (simp add: plain_name_def)
  then show ?thesis
    using process_macros_expands [OF i, of ?segs dnp1110]
    by (simp add: segment_value_def valid_name_def lit_def dnp1110_def)
qed

text \<open>
  C5: \<open>readline\<close> is the fold of the editing keys: the characters before Enter, with control-U,
  control-W, backspace and delete carried out on a list and everything beyond \<open>CFG_CBSIZE - 2\<close>
  characters dropped, are what the buffer holds, NUL-terminated and inside the buffer; the length is
  returned and the input behind Enter stays.
\<close>

theorem readline_edits_line:
  assumes "con_in s = typed @ e # later" "e = 13 \<or> e = 10"
    "list_all (\<lambda>c. c \<noteq> 13 \<and> c \<noteq> 10 \<and> c \<noteq> 3) typed"
    "length (console_buffer s) = CFG_CBSIZE cfg" "2 \<le> CFG_CBSIZE cfg"
  defines "r \<equiv> fold (edit (CFG_CBSIZE cfg - 2)) typed []"
  shows "\<exists>s'. readline cfg prompt s = Inr (int (length r), s')
    \<and> take (length r) (console_buffer s') = r \<and> console_buffer s' ! length r = 0
    \<and> con_in s' = later \<and> bi_env s' = bi_env s \<and> length r \<le> CFG_CBSIZE cfg - 2"
proof -
  let ?s = "puts prompt s"
  have "con_in ?s = typed @ e # later" "length (console_buffer ?s) = CFG_CBSIZE cfg" "bi_env ?s = bi_env s"
    using assms(1,4) by (simp_all add: puts_out)
  then show ?thesis
    using readline_loop_edits [OF assms(3), of 0 ?s "[]" cfg e "length prompt" later "length prompt"]
      assms(2,5)
    unfolding readline_def r_def by auto
qed

theorem readline_edits_line_witness:
  "\<exists>s'. readline dnp1110 (lit ''> '') ((reset_sys 0)\<lparr>con_in := lit ''gp'' @ [8] @ lit ''o'' @ [13]\<rparr>) = Inr (2, s')
    \<and> take 2 (console_buffer s') = lit ''go'' \<and> console_buffer s' ! 2 = 0"
proof -
  let ?s = "(reset_sys 0)\<lparr>con_in := lit ''gp'' @ [8] @ lit ''o'' @ [13]\<rparr>"
  have r: "fold (edit (CFG_CBSIZE dnp1110 - 2)) (lit ''gp'' @ [8] @ lit ''o'') [] = lit ''go''"
    by (simp add: edit_def lit_def dnp1110_def)
  have l: "length (lit ''go'') = 2" by (simp add: lit_def)
  have c: "con_in ?s = (lit ''gp'' @ [8] @ lit ''o'') @ 13 # []"
    and b: "length (console_buffer ?s) = CFG_CBSIZE dnp1110"
    by (simp_all add: reset_sys_def dnp1110_def)
  have t: "list_all (\<lambda>c. c \<noteq> 13 \<and> c \<noteq> 10 \<and> c \<noteq> 3) (lit ''gp'' @ [8] @ lit ''o'')"
    and n: "2 \<le> CFG_CBSIZE dnp1110"
    by (simp_all add: lit_def dnp1110_def)
  have "(13 :: byte) = 13 \<or> (13 :: byte) = 10" by simp
  from readline_edits_line [OF c this t b n, of "lit ''> ''", unfolded r l of_nat_numeral]
  show ?thesis by blast
qed

text \<open>
  the \<open>run\<close> command stops after its first variable when that variable's commands are repeatable:
  the loop goes on while \<open>rc == 0\<close>, but \<open>run_command\<close> returns 1 for success of repeatable commands.
  The variables behind it are never run.
\<close>

theorem run_stops_after_repeatable:
  assumes "2 \<le> argc" "argv_str argv 1 = Inr name" "getenv cfg s name = Inr (p, s1)"
    "run_command cfg tbl exec (map_option cstr_of p) flag s1 = Inr (1, s2)"
  shows "do_run cfg tbl exec cmdtp flag argc argv s = Inr (1, s2)"
proof -
  have "[1..<argc] = 1 # [2..<argc]" using assms(1) by (simp add: upt_rec numeral_2_eq_2)
  then show ?thesis using assms by (simp add: do_run_def)
qed

definition two_scripts :: sys where
  "two_scripts = (reset_sys 0)\<lparr>bi_env := Some \<lparr>env_crc = 0,
     env_data = entries [(lit ''a'', lit ''?''), (lit ''b'', lit ''?'')] @ [0, 0]\<rparr>\<rparr>"

lemma two_scripts_rep:
  "bi_env two_scripts = Some \<lparr>env_crc = 0,
     env_data = entries [(lit ''a'', lit ''?''), (lit ''b'', lit ''?'')] @ [0, 0]\<rparr>"
  "env_rep (entries [(lit ''a'', lit ''?''), (lit ''b'', lit ''?'')] @ [0, 0])
    [(lit ''a'', lit ''?''), (lit ''b'', lit ''?'')] [0]"
  by (simp_all add: two_scripts_def env_rep_def valid_name_def lit_def)

text \<open>
  C7: the meaning of a command line.  The rules of \<open>script\<close> say, without the interpreter's functions,
  what the commands between semicolons do from left to right: the references of a command are
  replaced by the values in the environment its predecessor left, the text is split into words, the
  first word selects an entry of the table, and the entry's function is called once with exactly these
  words; an unknown word, too many arguments, a recursive \<open>bootd\<close> and control-C end the line, and the
  result is 1 if all commands were repeatable.  \<open>run_command\<close> on the line as it is typed does just that.
\<close>

theorem run_command_in_order:
  assumes "list_all typed_command cs" "cs \<noteq> []"
    "length (join_commands (map command_source cs)) < CFG_CBSIZE cfg"
    "CFG_CBSIZE cfg \<le> 2 ^ 32" "CFG_PBSIZE cfg \<le> 2 ^ 32"
    "script cfg tbl exec cs flag 1 (clear_ctrlc s) r"
  shows "run_command cfg tbl exec (Some (join_commands (map command_source cs))) flag s = r"
proof -
  let ?cs = "map command_source cs"
  have p: "list_all plain_command ?cs" using assms(1) typed_plain by (auto simp: list_all_iff)
  have l: "length c < CFG_CBSIZE cfg" if "c \<in> set ?cs" for c
    using join_commands_length [OF that] assms(3) by simp
  then have "list_all (\<lambda>c. typed_command c \<and> length (command_source c) < CFG_CBSIZE cfg) cs"
    using assms(1) by (simp add: list_all_iff)
  from script_run_each [OF assms(6) this assms(4,5)]
  have "run_command_loop cfg tbl exec (join_commands ?cs) flag 1 (clear_ctrlc s) = r"
    using run_command_loop_each [OF p] assms(2) by simp
  moreover have "join_commands ?cs \<noteq> []"
    using p assms(2) by (cases ?cs rule: join_commands.cases) (auto simp: plain_command_def)
  moreover have "\<not> CFG_CBSIZE cfg - 1 < length (join_commands ?cs)" using assms(3) by linarith
  ultimately show ?thesis by (simp add: run_command_def Let_def)
qed

text \<open>
  With \<open>a=?\<close> in the environment, the line \<^verbatim>\<open>? $(a);zz\<close> calls the function of \<open>?\<close> once, with the
  words \<open>?\<close> and \<open>?\<close>, on the state at the start, and then reports the word that is no command.
\<close>

theorem run_command_in_order_witness:
  "run_command dnp1110 [tbl_ques] loud (Some (lit ''? $(a);zz'')) 0 two_scripts
    = Inr (-1, puts (unknown_message (lit ''zz'')) (puts (lit ''?\<newline>?\<newline>'') two_scripts))"
proof -
  let ?cs = "[[Text (lit ''? ''), Ref (lit ''a'')], [Text (lit ''zz'')]]"
  let ?s1 = "puts (lit ''?\<newline>?\<newline>'') two_scripts"
  let ?vars = "[(lit ''a'', lit ''?''), (lit ''b'', lit ''?'')]"
  have h: "holds two_scripts ?vars" using two_scripts_rep by (auto simp: holds_def)
  then have h1: "holds ?s1 ?vars" by (simp add: holds_def puts_out)
  have w: "command_words dnp1110 two_scripts (?cs ! 0) [lit ''?'', lit ''?'']"
    unfolding command_words_def by (rule exI [of _ ?vars]) (use h in \<open>simp add: lit_def dnp1110_def\<close>)
  have w1: "command_words dnp1110 ?s1 (?cs ! 1) [lit ''zz'']"
    unfolding command_words_def by (rule exI [of _ ?vars]) (use h1 in \<open>simp add: lit_def dnp1110_def\<close>)
  have c: "clear_ctrlc two_scripts = two_scripts"
    by (simp add: clear_ctrlc_def two_scripts_def reset_sys_def)
  have "script dnp1110 [tbl_ques] loud [?cs ! 1] 0 (1 AND repeatable tbl_ques) ?s1
      (Inr (-1, puts (unknown_message (lit ''zz'')) ?s1))"
    by (rule script_unknown [OF w1]) (simp_all add: lookup_def tbl_ques_def lit_def unknown_message_def dnp1110_def)
  note rest = this
  have e: "lookup [tbl_ques] (lit ''?'') = Some tbl_ques" "cmd tbl_ques \<noteq> Do_bootd"
    "length [lit ''?'', lit ''?''] \<le> maxargs tbl_ques"
    by (simp_all add: lookup_def tbl_ques_def lit_def)
  have x: "loud tbl_ques 0 (length [lit ''?'', lit ''?'']) (map Some [lit ''?'', lit ''?''] @ [None]) two_scripts
      = Inr (0, ?s1)"
    by (simp add: loud_def lit_def)
  have "\<not> ctrlc_was_pressed ?s1" by (simp add: puts_out two_scripts_def reset_sys_def)
  from script_call [OF w e(1,3,2) x this rest]
  have "script dnp1110 [tbl_ques] loud ?cs 0 1 (clear_ctrlc two_scripts)
      (Inr (-1, puts (unknown_message (lit ''zz'')) ?s1))" unfolding c by simp
  from run_command_in_order [OF _ _ _ _ _ this] show ?thesis
    by (simp add: typed_command_def command_source_def valid_name_def lit_def dnp1110_def)
qed

text \<open>A command of the one word \<open>?\<close> that does nothing.\<close>

lemma run_question_mark:
  assumes "ctrlc_was_pressed s = False"
  shows "run_command dnp1110 [tbl_ques] quiet (Some (lit ''?'')) 0 s = Inr (1, s)"
proof -
  have q: "lit ''?'' = [63]" by (simp add: lit_def)
  have p: "plain_text [63]" "length [63 :: byte] < CFG_CBSIZE dnp1110"
    by (simp_all add: plain_text_def dnp1110_def)
  have a: "parse_line dnp1110 ([63] @ [0]) s = Inr ((1, [Some [63], None]), s)" for s
    using parse_line_join [of "[[63]]" "CFG_MAXARGS dnp1110" "[]"]
    by (simp add: parse_line_def ub_def word_def dnp1110_def)
  have c: "clear_ctrlc s = s" using assms by (cases s) (simp add: clear_ctrlc_def)
  have "run_token dnp1110 [tbl_ques] quiet [63] 0 1 s = Inr ((None, 0, 1), s)"
    unfolding run_token_def run_token_plain [OF p] sbind.simps prod.case a
    using assms by (simp add: argv_str_def same_prefix_def quiet_def tbl_ques_def had_ctrlc_def lit_def)
  then show ?thesis unfolding q run_command_plain [OF p] c by simp
qed

theorem run_stops_after_repeatable_witness:
  "do_run dnp1110 [tbl_ques] quiet tbl_run 0 3 [Some (lit ''run''), Some (lit ''a''), Some (lit ''b''), None]
    two_scripts = Inr (1, two_scripts)"
proof -
  have "valid_name (lit ''a'')" by (simp add: valid_name_def lit_def)
  from ram_getenv [OF two_scripts_rep(1) _ this, of "[(lit ''a'', lit ''?''), (lit ''b'', lit ''?'')]" "[0]" dnp1110]
    two_scripts_rep(2)
  obtain p where p: "getenv dnp1110 two_scripts (lit ''a'') = Inr (p, two_scripts)"
    "map_option cstr_of p = Some (lit ''?'')" by auto
  have "ctrlc_was_pressed two_scripts = False" by (simp add: two_scripts_def reset_sys_def)
  from run_question_mark [OF this] show ?thesis
    by (intro run_stops_after_repeatable [OF _ _ p(1)]) (simp_all add: argv_str_def p(2))
qed

text \<open>
  a line of blanks alone passes the test for an empty command, has no arguments, and
  \<open>run_command\<close> looks up \<open>argv[0]\<close>, the NULL pointer.
\<close>

theorem blank_line_reads_null:
  assumes "t \<noteq> []" "list_all (\<lambda>c. c = 0x20 \<or> c = 9) t" "length t < CFG_CBSIZE cfg" "0 < CFG_MAXARGS cfg"
  shows "run_command cfg tbl exec (Some t) flag s = Inl BadAccess"
proof -
  have p: "plain_text t" using assms(1,2) by (auto simp: plain_text_def list_all_iff)
  have d: "dropWhile (\<lambda>c. blank c) (t @ [0]) = [0]"
    using assms(2) by (subst dropWhile_append2) (auto simp: list_all_iff)
  obtain n where "CFG_MAXARGS cfg = Suc n" using assms(4) by (cases "CFG_MAXARGS cfg") auto
  then have "parse_line cfg (t @ [0]) s = Inr ((0, [None]), s)" for s
    using d by (simp add: parse_line_def ub_def Let_def)
  then show ?thesis
    unfolding run_command_plain [OF p assms(3)]
    by (simp add: run_token_def run_token_plain [OF p assms(3)] argv_str_def)
qed

theorem blank_line_reads_null_witness:
  "run_command dnp1110 cmd_tbl quiet (Some (lit '' '')) 0 (reset_sys 0) = Inl BadAccess"
  by (rule blank_line_reads_null) (simp_all add: lit_def dnp1110_def)

text \<open>
  the message for an unknown command is formatted into a buffer of \<open>CFG_PBSIZE\<close> bytes, which on
  the DNP/1110 is too small for a word of more than 250 characters, though the line buffer takes 254.
\<close>

theorem unknown_command_overflows_printf:
  assumes "word w" "ch CHR '';'' \<notin> set w" "ch CHR ''$'' \<notin> set w" "0x5C \<notin> set w"
    "find_cmd tbl w = None" "251 \<le> length w" "length w \<le> 255"
  shows "run_command dnp1110 tbl exec (Some w) flag s = Inl BadAccess"
proof -
  have p: "plain_text w" "length w < CFG_CBSIZE dnp1110"
    using assms by (simp_all add: plain_text_def word_def dnp1110_def)
  have a: "parse_line dnp1110 (w @ [0]) s = Inr ((1, [Some w, None]), s)" for s
    using parse_line_join [of "[w]" "CFG_MAXARGS dnp1110" "[]"] assms(1)
    by (simp add: parse_line_def ub_def dnp1110_def)
  have f: "lit ''Unknown command '%s' - try 'help'\<newline>''
      = lit (''Unknown command '' @ [CHR 0x27]) @ ch CHR ''%'' # ch CHR ''s'' # lit ([CHR 0x27] @ '' - try 'help'\<newline>'')"
    by (simp add: lit_def)
  have "printf dnp1110 (lit ''Unknown command '%s' - try 'help'\<newline>'') [AStr (Some w)] s = Inl BadAccess" for s
    using assms(6,7)
    by (subst printf_string [OF f]) (simp_all add: lit_def dnp1110_def)
  then show ?thesis
    unfolding run_command_plain [OF p] using assms(5)
    by (simp add: run_token_def run_token_plain [OF p] a argv_str_def)
qed

theorem unknown_command_overflows_printf_witness:
  "run_command dnp1110 [tbl_ques] quiet (Some (replicate 251 (ch CHR ''x''))) 0 (reset_sys 0)
    = Inl BadAccess"
  by (rule unknown_command_overflows_printf)
    (simp_all add: word_def same_prefix_def tbl_ques_def lit_def take_replicate)

end
