(* ===== verification/SRecord.thy ===== *)
theory SRecord
  imports Vsprintf
begin

text \<open>
  Motorola S-records: the decoder the \<open>loads\<close> command uses, \<^verbatim>\<open>common/s_record.c\<close>, and the
  encoder of the host tool that writes them, \<open>BuildSRecord\<close> of \<^verbatim>\<open>tools/img2srec.c\<close>.
\<close>

section \<open>The decoder\<close>

abbreviation (input) SREC_START :: int where "SREC_START \<equiv> 0"
abbreviation (input) SREC_DATA2 :: int where "SREC_DATA2 \<equiv> 1"
abbreviation (input) SREC_DATA3 :: int where "SREC_DATA3 \<equiv> 2"
abbreviation (input) SREC_DATA4 :: int where "SREC_DATA4 \<equiv> 3"
abbreviation (input) SREC_COUNT :: int where "SREC_COUNT \<equiv> 5"
abbreviation (input) SREC_END4 :: int where "SREC_END4 \<equiv> 7"
abbreviation (input) SREC_END3 :: int where "SREC_END3 \<equiv> 8"
abbreviation (input) SREC_END2 :: int where "SREC_END2 \<equiv> 9"
abbreviation (input) SREC_EMPTY :: int where "SREC_EMPTY \<equiv> 10"
abbreviation (input) SREC_E_BADTYPE :: int where "SREC_E_BADTYPE \<equiv> -1"
abbreviation (input) SREC_E_NOSREC :: int where "SREC_E_NOSREC \<equiv> -2"
abbreviation (input) SREC_E_BADCHKS :: int where "SREC_E_BADCHKS \<equiv> -3"

definition hex1_bin :: "byte \<Rightarrow> int" where
  "hex1_bin c =
     (if ch CHR ''0'' \<le> c \<and> c \<le> ch CHR ''9'' then uint c - 0x30
      else if ch CHR ''a'' \<le> c \<and> c \<le> ch CHR ''f'' then uint c + 10 - 0x61
      else if ch CHR ''A'' \<le> c \<and> c \<le> ch CHR ''F'' then uint c + 10 - 0x41
      else -1)"

text \<open>The second character is read only where the first is a digit.\<close>

definition hex2_bin :: "byte list \<Rightarrow> int" where
  "hex2_bin s =
     (let i = hex1_bin (hd0 s) in
      if i < 0 then -1
      else let j = hex1_bin (hd0 (tl s)) in
        if j < 0 then -1 else i * 16 + j)"

text \<open>
  The variables of \<open>srec_decode\<close>: the input pointer (the string from there), \<open>chksum\<close>, and what
  \<open>count\<close>, \<open>addr\<close> and \<open>data\<close> point to (the bytes stored so far).
\<close>

record srec_state =
  sr_input :: "byte list"
  sr_chksum :: byte
  sr_count :: int
  sr_addr :: u32
  sr_data :: "byte list"

text \<open>
  One byte of the address field; \<open>Inl\<close> is the early return.  In a four byte field the first byte
  is added without a shift.
\<close>

definition srec_addr_byte :: "bool \<Rightarrow> srec_state \<Rightarrow> int \<times> srec_state + srec_state" where
  "srec_addr_byte shift st =
     (let v = hex2_bin (sr_input st) in
      if v < 0 then Inl (SREC_E_NOSREC, st)
      else Inr (st\<lparr>sr_addr := (if shift then push_bit 8 (sr_addr st) else sr_addr st) + of_int v,
                   sr_chksum := sr_chksum st + of_int v,
                   sr_input := drop 2 (sr_input st)\<rparr>))"

text \<open>The fall-through \<^verbatim>\<open>switch\<close> over the record type.\<close>

definition srec_read_addr :: "byte \<Rightarrow> srec_state \<Rightarrow> int \<times> srec_state + srec_state" where
  "srec_read_addr v st =
     (let st = st\<lparr>sr_addr := 0\<rparr>;
          four = (v = ch CHR ''3'' \<or> v = ch CHR ''7'');
          three = (four \<or> v = ch CHR ''2'' \<or> v = ch CHR ''8'')
      in sbind (if four then srec_addr_byte False st else Inr st) (\<lambda>st.
         sbind (if three then srec_addr_byte True st else Inr st) (\<lambda>st.
         sbind (srec_addr_byte True st) (\<lambda>st.
         srec_addr_byte True st))))"

text \<open>The code and the count adjustment of a record type; None where the type is unknown.\<close>

definition srec_type_of :: "byte \<Rightarrow> int \<Rightarrow> (int \<times> int) option" where
  "srec_type_of v count =
     (if v = ch CHR ''0'' then Some (SREC_START, count - 3)
      else if v = ch CHR ''1'' then Some (SREC_DATA2, count - 3)
      else if v = ch CHR ''2'' then Some (SREC_DATA3, count - 4)
      else if v = ch CHR ''3'' then Some (SREC_DATA4, count - 5)
      else if v = ch CHR ''5'' then Some (SREC_COUNT, 0)
      else if v = ch CHR ''7'' then Some (SREC_END4, count - 5)
      else if v = ch CHR ''8'' then Some (SREC_END3, count - 4)
      else if v = ch CHR ''9'' then Some (SREC_END2, count - 3)
      else None)"

text \<open>\<^verbatim>\<open>for (i=0; i < *count; ++i)\<close>: convert the data and add it to the checksum.\<close>

primrec srec_read_data :: "nat \<Rightarrow> srec_state \<Rightarrow> int \<times> srec_state + srec_state" where
  "srec_read_data 0 st = Inr st"
| "srec_read_data (Suc n) st =
     (let v = hex2_bin (sr_input st) in
      if v < 0 then Inl (SREC_E_NOSREC, st)
      else srec_read_data n
        (st\<lparr>sr_data := sr_data st @ [of_int v],
            sr_chksum := sr_chksum st + of_int v,
            sr_input := drop 2 (sr_input st)\<rparr>))"

text \<open>Everything before the first \<^verbatim>\<open>'S'\<close>, and the \<open>S\<close> itself, is skipped.\<close>

fun srec_skip :: "byte list \<Rightarrow> byte list" where
  "srec_skip [] = []"
| "srec_skip (c # s) = (if c = ch CHR ''S'' then s else srec_skip s)"

text \<open>
  \<open>srec_decode\<close> from a string, with what \<open>*count\<close> and \<open>*addr\<close> hold before the call.
\<close>

definition srec_decode :: "byte list \<Rightarrow> int \<Rightarrow> u32 \<Rightarrow> int \<times> srec_state" where
  "srec_decode input count addr =
     (let st = \<lparr>sr_input = srec_skip input, sr_chksum = 0, sr_count = count, sr_addr = addr,
                sr_data = []\<rparr> in
      if sr_input st = [] then (SREC_EMPTY, st)
      else let
        v = hd (sr_input st);
        st = st\<lparr>sr_input := tl (sr_input st)\<rparr>;
        n = hex2_bin (sr_input st);
        st = st\<lparr>sr_count := n\<rparr>
      in if n < 0 then (SREC_E_NOSREC, st)
      else let
        st = st\<lparr>sr_chksum := sr_chksum st + of_int n, sr_input := drop 2 (sr_input st)\<rparr>
      in case srec_type_of v n of
        None \<Rightarrow> (SREC_E_BADTYPE, st)
      | Some (srec_type, n) \<Rightarrow>
          (case sbind (srec_read_addr v (st\<lparr>sr_count := n\<rparr>)) (srec_read_data (nat n)) of
             Inl r \<Rightarrow> r
           | Inr st \<Rightarrow>
               (let v = hex2_bin (sr_input st) in
                if v < 0 then (SREC_E_NOSREC, st)
                else if (of_int v :: byte) \<noteq> NOT (sr_chksum st) then (SREC_E_BADCHKS, st)
                else (srec_type, st))))"

section \<open>The encoder of the host tool\<close>

definition ByteToHex :: "byte list" where
  "ByteToHex = lit ''0123456789ABCDEF''"

text \<open>The two characters written and the 16-bit checksum after them.\<close>

definition WriteHex :: "byte \<Rightarrow> u16 \<Rightarrow> byte list \<times> u16" where
  "WriteHex v checkSum =
     ([ByteToHex ! unat (v div 16), ByteToHex ! unat (v mod 16)], checkSum + ucast v)"

primrec WriteHexAll :: "byte list \<Rightarrow> u16 \<Rightarrow> byte list \<times> u16" where
  "WriteHexAll [] checkSum = ([], checkSum)"
| "WriteHexAll (b # bs) checkSum =
     (let (s, checkSum) = WriteHex b checkSum;
          (t, checkSum) = WriteHexAll bs checkSum
      in (s @ t, checkSum))"

definition srec_addr_len :: "nat \<Rightarrow> nat option" where
  "srec_addr_len sType =
     (if sType = 0 \<or> sType = 1 \<or> sType = 9 then Some 2
      else if sType = 2 \<or> sType = 8 then Some 3
      else if sType = 3 \<or> sType = 7 then Some 4
      else None)"

text \<open>The bytes of the address field, the most significant first.\<close>

definition srec_bytes :: "nat \<Rightarrow> u32 \<Rightarrow> byte list" where
  "srec_bytes addrLen addr = map (\<lambda>i. ucast (drop_bit (8 * (addrLen - i)) addr)) [1..<Suc addrLen]"

text \<open>The bytes written behind \<open>pa\<close>, the closing NUL included; none for another type.\<close>

definition BuildSRecord :: "nat \<Rightarrow> u32 \<Rightarrow> byte list \<Rightarrow> byte list" where
  "BuildSRecord sType addr data =
     (case srec_addr_len sType of
        None \<Rightarrow> []
      | Some addrLen \<Rightarrow>
          (let sRLen = of_nat (addrLen + length data + 1) :: u16;
               (l, checkSum) = WriteHex (ucast sRLen) 0;
               (a, checkSum) = WriteHexAll (srec_bytes addrLen addr) checkSum;
               (d, checkSum) = WriteHexAll data checkSum;
               (c, checkSum) = WriteHex (ucast (NOT checkSum)) checkSum
           in [ch CHR ''S'', of_nat sType + ch CHR ''0''] @ l @ a @ d @ c @ [0]))"

section \<open>One byte through two characters\<close>

definition hex_chars :: "byte \<Rightarrow> byte list" where
  "hex_chars v = [ByteToHex ! unat (v div 16), ByteToHex ! unat (v mod 16)]"

lemma WriteHex_eq: "WriteHex v k = (hex_chars v, k + ucast v)"
  by (simp add: WriteHex_def hex_chars_def)

lemma hex1_digit: "k < 16 \<Longrightarrow> hex1_bin (ByteToHex ! k) = int k"
proof -
  have "list_all (\<lambda>k. hex1_bin (ByteToHex ! k) = int k) [0..<16]" by code_simp
  moreover assume "k < 16"
  then have "k \<in> set [0..<16]" by simp
  ultimately show ?thesis unfolding list_all_iff by blast
qed

lemma hex2_bin_chars: "hex2_bin (hex_chars b @ rest) = uint b"
proof -
  have "unat b < 256" by (rule unat_byte_less)
  then have "unat (b div 16) < 16" "unat (b mod 16) < 16" by (auto simp: unat_div unat_mod)
  then have "hex2_bin (hex_chars b @ rest) = int (unat (b div 16)) * 16 + int (unat (b mod 16))"
    by (simp add: hex2_bin_def hex_chars_def hex1_digit Let_def)
  also have "\<dots> = int (unat (b div 16) * 16 + unat (b mod 16))" by simp
  also have "unat (b div 16) * 16 + unat (b mod 16) = unat b"
    by (simp add: unat_div unat_mod)
  finally show ?thesis by simp
qed

lemma drop_hex_chars: "drop 2 (hex_chars b @ rest) = rest"
  by (simp add: hex_chars_def)

lemma WriteHexAll_eq:
  "WriteHexAll bs k = (concat (map hex_chars bs), k + sum_list (map ucast bs))"
  by (induction bs arbitrary: k) (simp_all add: WriteHex_eq ac_simps)

lemma of_int_uint_ucast: "of_int (uint (b :: byte)) = (ucast b :: 'a::len word)"
  by (simp only: ucast_eq)

lemma addr_byte_chars:
  "sr_input st = hex_chars b @ rest \<Longrightarrow> srec_addr_byte shift st =
     Inr (st\<lparr>sr_addr := (if shift then push_bit 8 (sr_addr st) else sr_addr st) + ucast b,
             sr_chksum := sr_chksum st + b, sr_input := rest\<rparr>)"
  by (simp add: srec_addr_byte_def hex2_bin_chars drop_hex_chars Let_def of_int_uint_ucast
      del: drop_append)

lemma read_data_chars:
  "sr_input st = concat (map hex_chars bs) @ rest \<Longrightarrow> srec_read_data (length bs) st =
     Inr (st\<lparr>sr_data := sr_data st @ bs, sr_chksum := sr_chksum st + sum_list bs,
             sr_input := rest\<rparr>)"
proof (induction bs arbitrary: st)
  case (Cons b bs)
  then show ?case
    by (simp add: hex2_bin_chars drop_hex_chars Let_def add.assoc del: drop_append)
qed simp

section \<open>A record read back\<close>

lemma ucast_u16_add: "(ucast (x + y :: u16) :: byte) = ucast x + ucast y"
proof transfer
  fix x y :: int
  have "(x + y) mod 256 = (x mod 65536 + y mod 65536) mod 256"
    by (rule mod_add_cong) (simp_all add: mod_mod_cancel)
  then show "take_bit LENGTH(8) (take_bit LENGTH(16) (x + y))
      = take_bit LENGTH(8) (take_bit LENGTH(16) x + take_bit LENGTH(16) y)"
    by (simp add: take_bit_eq_mod mod_mod_cancel)
qed

lemma unat_byte_of_nat: "m < 256 \<Longrightarrow> unat (of_nat m :: byte) = m"
  by (simp add: unat_of_nat)

lemma ucast_u16_of_nat: "m < 256 \<Longrightarrow> (ucast (of_nat m :: u16) :: byte) = of_nat m"
  by (intro word_unat_eq_iff [THEN iffD2])
    (simp add: unsigned_ucast_eq unat_of_nat take_bit_eq_mod)

lemma ucast_u16_not: "(ucast (NOT x :: u16) :: byte) = NOT (ucast x)"
  by (rule bit_word_eqI) (auto simp: bit_simps)

lemma ucast_u16_byte: "(ucast (ucast (b :: byte) :: u16) :: byte) = b"
  by (rule bit_word_eqI) (auto simp: bit_simps dest: bit_imp_le_length)

lemma ucast_u16_sum: "(ucast (sum_list (map ucast bs) :: u16) :: byte) = sum_list bs"
  by (induction bs) (simp_all add: ucast_u16_add ucast_u16_byte)

lemma srec_bytes_simps:
  "srec_bytes 2 a = [ucast (drop_bit 8 a), ucast a]"
  "srec_bytes 3 a = [ucast (drop_bit 16 a), ucast (drop_bit 8 a), ucast a]"
  "srec_bytes 4 a = [ucast (drop_bit 24 a), ucast (drop_bit 16 a), ucast (drop_bit 8 a), ucast a]"
  by (simp_all add: srec_bytes_def upt_rec numeral_eq_Suc)

lemma take_bit_8_small: "drop_bit 8 x = 0 \<Longrightarrow> take_bit 8 (x :: u32) = x"
  using word_split_byte [of x] by (simp add: ucast_byte_twice)

lemma split_step:
  "push_bit 8 (drop_bit (n + 8) (x :: u32)) + take_bit 8 (drop_bit n x) = drop_bit n x"
  using word_split_byte [of "drop_bit n x"]
  by (simp add: ucast_byte_twice drop_bit_drop_bit add.commute)

text \<open>The address field of a record of type \<open>v\<close>, read back.\<close>

lemma read_addr_bytes:
  assumes n: "srec_addr_len k = Some n" and a: "drop_bit (8 * n) addr = 0"
    and st: "sr_input st = concat (map hex_chars (srec_bytes n addr)) @ rest"
  shows "srec_read_addr (of_nat k + ch CHR ''0'') st =
    Inr (st\<lparr>sr_addr := addr, sr_chksum := sr_chksum st + sum_list (srec_bytes n addr),
            sr_input := rest\<rparr>)"
proof -
  have s0: "push_bit 8 (drop_bit 8 addr) + take_bit 8 addr = addr"
    using word_split_byte [of addr] by (simp add: ucast_byte_twice)
  have s8: "push_bit 8 (drop_bit 16 addr) + take_bit 8 (drop_bit 8 addr) = drop_bit 8 addr"
    using split_step [of 8 addr] by simp
  have s16: "push_bit 8 (drop_bit 24 addr) + take_bit 8 (drop_bit 16 addr) = drop_bit 16 addr"
    using split_step [of 16 addr] by simp
  consider "n = 2" "k = 0 \<or> k = 1 \<or> k = 9" | "n = 3" "k = 2 \<or> k = 8" | "n = 4" "k = 3 \<or> k = 7"
    using n by (auto simp: srec_addr_len_def split: if_splits)
  then show ?thesis
  proof cases
    case 1
    then have "take_bit 8 (drop_bit 8 addr) = drop_bit 8 addr"
      using a by (intro take_bit_8_small) (simp add: drop_bit_drop_bit)
    with 1 st s0 show ?thesis
      by (elim disjE) (simp_all add: srec_read_addr_def Let_def srec_bytes_simps
          addr_byte_chars ucast_byte_twice add.assoc)
  next
    case 2
    then have "take_bit 8 (drop_bit 16 addr) = drop_bit 16 addr"
      using a by (intro take_bit_8_small) (simp add: drop_bit_drop_bit)
    with 2 st s0 s8 show ?thesis
      by (elim disjE) (simp_all add: srec_read_addr_def Let_def srec_bytes_simps
          addr_byte_chars ucast_byte_twice add.assoc)
  next
    case 3
    then have "take_bit 8 (drop_bit 24 addr) = drop_bit 24 addr"
      using a by (intro take_bit_8_small) (simp add: drop_bit_drop_bit)
    with 3 st s0 s8 s16 show ?thesis
      by (elim disjE) (simp_all add: srec_read_addr_def Let_def srec_bytes_simps
          addr_byte_chars ucast_byte_twice add.assoc)
  qed
qed

lemma hex_chars_nonzero: "0 \<notin> set (hex_chars b)"
proof -
  have "list_all (\<lambda>k. ByteToHex ! k \<noteq> 0) [0..<16]" by code_simp
  moreover have "unat (b div 16) < 16" "unat (b mod 16) < 16"
    using unat_byte_less [of b] by (auto simp: unat_div unat_mod)
  ultimately show ?thesis by (auto simp: hex_chars_def list_all_iff Ball_def)
qed

text \<open>The text \<open>BuildSRecord\<close> writes.\<close>

lemma BuildSRecord_text:
  assumes "srec_addr_len k = Some n" "n + length data + 1 \<le> 255"
  defines "l \<equiv> of_nat (n + length data + 1) :: byte"
  shows "cstr_of (BuildSRecord k addr data) =
    ch CHR ''S'' # (of_nat k + ch CHR ''0'') # hex_chars l
      @ concat (map hex_chars (srec_bytes n addr)) @ concat (map hex_chars data)
      @ hex_chars (NOT (l + sum_list (srec_bytes n addr) + sum_list data))"
proof -
  have l: "(ucast (of_nat (n + length data + 1) :: u16) :: byte) = l"
    using assms(2) unfolding l_def by (intro ucast_u16_of_nat) simp
  have sum: "(ucast (ucast l + sum_list (map ucast as) + sum_list (map ucast bs) :: u16) :: byte)
    = l + sum_list as + sum_list bs" for as bs :: "byte list"
    by (simp add: ucast_u16_add ucast_u16_byte ucast_u16_sum)
  have k0: "of_nat k + ch CHR ''0'' \<noteq> (0 :: byte)"
    using assms(1) by (auto simp: srec_addr_len_def split: if_splits)
  let ?t = "ch CHR ''S'' # (of_nat k + ch CHR ''0'') # hex_chars l
      @ concat (map hex_chars (srec_bytes n addr)) @ concat (map hex_chars data)
      @ hex_chars (NOT (l + sum_list (srec_bytes n addr) + sum_list data))"
  have "BuildSRecord k addr data = ?t @ [0]"
    unfolding BuildSRecord_def assms(1) option.case Let_def WriteHex_eq WriteHexAll_eq prod.case
      l add_0 ucast_u16_not sum by simp
  moreover have "0 \<notin> set ?t" using k0 hex_chars_nonzero by auto
  from cstr_of_append0 [OF this, of "[]"] have "cstr_of (?t @ [0]) = ?t" .
  ultimately show ?thesis by (simp only:)
qed

lemma srec_type_of_digit:
  "srec_addr_len k = Some n \<Longrightarrow> srec_type_of (of_nat k + ch CHR ''0'') c = Some (int k, c - int n - 1)"
  by (auto simp: srec_addr_len_def srec_type_of_def split: if_splits)

text \<open>What \<open>srec_decode\<close> does once the length byte and the type are read.\<close>

definition srec_finish :: "int \<Rightarrow> int \<times> srec_state + srec_state \<Rightarrow> int \<times> srec_state" where
  "srec_finish srec_type r = (case r of
     Inl r \<Rightarrow> r
   | Inr st \<Rightarrow>
       (let v = hex2_bin (sr_input st) in
        if v < 0 then (SREC_E_NOSREC, st)
        else if (of_int v :: byte) \<noteq> NOT (sr_chksum st) then (SREC_E_BADCHKS, st)
        else (srec_type, st)))"

lemma srec_decode_finish:
  assumes "srec_skip input = v # hex_chars l @ rest" "srec_type_of v (uint l) = Some (ty, n)"
  shows "srec_decode input c a = srec_finish ty (sbind
     (srec_read_addr v \<lparr>sr_input = rest, sr_chksum = l, sr_count = n, sr_addr = a, sr_data = []\<rparr>)
     (srec_read_data (nat n)))"
  using assms
  by (simp add: srec_decode_def srec_finish_def Let_def hex2_bin_chars drop_hex_chars
      of_int_uint_ucast del: drop_append)

text \<open>
  A record text with any checksum byte \<open>c\<close> behind the data: all of it is read, and the record is
  accepted exactly where \<open>c\<close> is the complement of the sum.
\<close>

definition srec_text :: "nat \<Rightarrow> nat \<Rightarrow> u32 \<Rightarrow> byte list \<Rightarrow> byte \<Rightarrow> byte list" where
  "srec_text k n addr data c =
     (let l = of_nat (n + length data + 1) in
      ch CHR ''S'' # (of_nat k + ch CHR ''0'') # hex_chars l
      @ concat (map hex_chars (srec_bytes n addr)) @ concat (map hex_chars data) @ hex_chars c)"

definition srec_sum :: "nat \<Rightarrow> u32 \<Rightarrow> byte list \<Rightarrow> byte" where
  "srec_sum n addr data = of_nat (n + length data + 1) + sum_list (srec_bytes n addr) + sum_list data"

lemma BuildSRecord_srec_text:
  assumes "srec_addr_len k = Some n" "n + length data + 1 \<le> 255"
  shows "cstr_of (BuildSRecord k addr data) = srec_text k n addr data (NOT (srec_sum n addr data))"
  unfolding BuildSRecord_text [OF assms] srec_text_def srec_sum_def Let_def ..

lemma srec_decode_text:
  assumes "srec_addr_len k = Some n" "drop_bit (8 * n) addr = 0" "n + length data + 1 \<le> 255"
  shows "srec_decode (srec_text k n addr data c) c0 a0 =
    (if c = NOT (srec_sum n addr data) then int k else SREC_E_BADCHKS,
     \<lparr>sr_input = hex_chars c, sr_chksum = srec_sum n addr data, sr_count = int (length data),
      sr_addr = addr, sr_data = data\<rparr>)"
proof -
  define l :: byte where "l = of_nat (n + length data + 1)"
  have "uint l = int (unat l)" by simp
  also have "unat l = n + length data + 1"
    using assms(3) unfolding l_def by (intro unat_byte_of_nat) simp
  finally have ul: "uint l = int n + int (length data) + 1" by simp
  let ?v = "of_nat k + ch CHR ''0''"
  define rest where "rest = concat (map hex_chars data) @ hex_chars c"
  define st1 where "st1 = \<lparr>sr_input = concat (map hex_chars (srec_bytes n addr)) @ rest,
    sr_chksum = l, sr_count = int (length data), sr_addr = a0, sr_data = []\<rparr>"
  define st2 where "st2 = st1\<lparr>sr_addr := addr,
    sr_chksum := l + sum_list (srec_bytes n addr), sr_input := rest\<rparr>"
  define st3 where "st3 = st2\<lparr>sr_data := data, sr_chksum := srec_sum n addr data,
    sr_input := hex_chars c\<rparr>"
  have addr: "srec_read_addr ?v st1 = Inr st2"
    using read_addr_bytes [OF assms(1,2), of st1 rest] by (simp add: st1_def st2_def)
  have data: "srec_read_data (nat (int (length data))) st2 = Inr st3"
    using read_data_chars [of st2 data "hex_chars c"]
    by (simp add: st1_def st2_def st3_def rest_def srec_sum_def l_def)
  have skip: "srec_skip (srec_text k n addr data c)
      = ?v # hex_chars l @ concat (map hex_chars (srec_bytes n addr)) @ rest"
    unfolding srec_text_def Let_def rest_def l_def srec_skip.simps
    by (simp only: refl if_True append_assoc)
  have type: "srec_type_of ?v (uint l) = Some (int k, int (length data))"
    unfolding srec_type_of_digit [OF assms(1)] ul by simp
  have v: "hex2_bin (sr_input st3) = uint c" using hex2_bin_chars [of c "[]"] by (simp add: st3_def)
  have "(of_int (uint c) :: byte) = c" by simp
  then have fin: "srec_finish (int k) (Inr st3) =
      (if c = NOT (srec_sum n addr data) then int k else SREC_E_BADCHKS, st3)"
    unfolding srec_finish_def sum.case v Let_def by (simp add: st3_def)
  have "srec_decode (srec_text k n addr data c) c0 a0
      = (if c = NOT (srec_sum n addr data) then int k else SREC_E_BADCHKS, st3)"
    unfolding srec_decode_finish [OF skip type] st1_def [symmetric] addr sbind.simps data fin ..
  then show ?thesis by (simp add: st1_def st2_def st3_def)
qed

text \<open>One byte of the data exchanged: the sum changes.\<close>

lemma sum_list_update_byte:
  "i < length xs \<Longrightarrow> sum_list (xs[i := b]) = sum_list xs - xs ! i + (b :: byte)"
  by (induction xs arbitrary: i) (auto simp: algebra_simps split: nat.splits)

lemma concat_hex_chars_update:
  "i < length xs \<Longrightarrow> concat (map hex_chars (xs[i := b])) =
    take (2 * i) (concat (map hex_chars xs)) @ hex_chars b
      @ drop (2 * i + 2) (concat (map hex_chars xs))"
proof (induction xs arbitrary: i)
  case (Cons x xs)
  then show ?case by (cases i) (simp_all add: hex_chars_def)
qed simp

lemma length_concat_hex [simp]: "length (concat (map hex_chars xs)) = 2 * length xs"
  by (induction xs) (simp_all add: hex_chars_def)

lemma length_srec_bytes [simp]: "length (srec_bytes n a) = n"
  by (simp add: srec_bytes_def)

lemma srec_text_update:
  assumes "i < length data"
  shows "take (4 + 2 * n + 2 * i) (srec_text k n addr data c) @ hex_chars b
      @ drop (4 + 2 * n + 2 * i + 2) (srec_text k n addr data c)
    = srec_text k n addr (data[i := b]) c"
proof -
  have *: "take (length xs + m) (xs @ ys @ zs) @ hs @ drop (length xs + m + 2) (xs @ ys @ zs)
      = xs @ (take m ys @ hs @ drop (m + 2) ys) @ zs" if "m + 2 \<le> length ys"
    for xs ys zs hs :: "byte list" and m
    using that by simp
  define xs where "xs = ch CHR ''S'' # (of_nat k + ch CHR ''0'') # hex_chars (of_nat (n + length data + 1))
      @ concat (map hex_chars (srec_bytes n addr))"
  have t: "srec_text k n addr d c = xs @ concat (map hex_chars d) @ hex_chars c"
    if "length d = length data" for d
    unfolding srec_text_def xs_def Let_def that by simp
  have l: "length xs = 4 + 2 * n" by (simp add: xs_def hex_chars_def)
  show ?thesis
    unfolding t [OF refl] t [OF length_list_update] concat_hex_chars_update [OF assms]
    using * [of "2 * i" "concat (map hex_chars data)" xs "hex_chars c" "hex_chars b"] assms
    unfolding l by (simp add: add.assoc)
qed

text \<open>What is stored is never more than a length byte allows.\<close>

lemma srec_addr_byte_data:
  "srec_addr_byte b st = Inl (ty, st') \<Longrightarrow> ty < 0 \<and> sr_data st' = sr_data st"
  "srec_addr_byte b st = Inr st' \<Longrightarrow> sr_data st' = sr_data st \<and> sr_count st' = sr_count st"
  by (auto simp: srec_addr_byte_def Let_def split: if_splits)

lemma srec_read_addr_data:
  "srec_read_addr v st = Inl (ty, st') \<Longrightarrow> ty < 0 \<and> sr_data st' = sr_data st"
  "srec_read_addr v st = Inr st' \<Longrightarrow> sr_data st' = sr_data st \<and> sr_count st' = sr_count st"
  unfolding srec_read_addr_def Let_def srec_addr_byte_def
  by (auto split: if_splits)

lemma srec_read_data_data:
  "srec_read_data n st = Inl (ty, st') \<Longrightarrow>
    ty < 0 \<and> length (sr_data st') \<le> length (sr_data st) + n"
  "srec_read_data n st = Inr st' \<Longrightarrow>
    length (sr_data st') = length (sr_data st) + n \<and> sr_count st' = sr_count st"
proof (induction n arbitrary: st)
  case (Suc n)
  { case 1 then show ?case using Suc.IH(1) by (fastforce simp: Let_def split: if_splits)
  next case 2 then show ?case using Suc.IH(2) by (fastforce simp: Let_def split: if_splits) }
qed auto

lemma hex2_bin_le: "hex2_bin s \<le> 255"
proof -
  have "hex1_bin c \<le> 15" for c by (auto simp: hex1_bin_def word_le_def)
  from this [of "hd0 s"] this [of "hd0 (tl s)"] show ?thesis by (simp add: hex2_bin_def Let_def)
qed

lemma srec_type_of_count: "srec_type_of v n = Some (ty, m) \<Longrightarrow> 0 \<le> n \<Longrightarrow> m \<le> max 0 (n - 3)"
  by (auto simp: srec_type_of_def split: if_splits)

section \<open>Properties\<close>

text \<open>
  C4: a record the host tool writes is read back by the boot loader: for each of the seven types
  with an address, an address that fits its field and data that fit the length byte,
  \<open>srec_decode\<close> of the text of \<open>BuildSRecord\<close> returns the type and delivers the count, the
  address and the data.
\<close>

theorem srec_roundtrip:
  assumes "srec_addr_len k = Some n" "drop_bit (8 * n) addr = 0" "n + length data + 1 \<le> 255"
  shows "\<exists>st. srec_decode (cstr_of (BuildSRecord k addr data)) c0 a0 = (int k, st)
    \<and> sr_count st = int (length data) \<and> sr_addr st = addr \<and> sr_data st = data"
  unfolding BuildSRecord_srec_text [OF assms(1,3)] srec_decode_text [OF assms] by simp

theorem srec_roundtrip_witness:
  "\<exists>st. srec_decode (cstr_of (BuildSRecord 3 0x00C0FFEE [0x12, 0xAB])) 0 0 = (3, st)
    \<and> sr_count st = 2 \<and> sr_addr st = 0x00C0FFEE \<and> sr_data st = [0x12, 0xAB]"
  using srec_roundtrip [of 3 4 "0x00C0FFEE" "[0x12, 0xAB]" 0 0] by (simp add: srec_addr_len_def)

text \<open>
  a data byte damaged on the line is detected: if the two characters of any one data byte of a
  record are those of another byte, \<open>srec_decode\<close> rejects the record with the checksum error.
\<close>

theorem srec_detects_byte_error:
  assumes "srec_addr_len k = Some n" "drop_bit (8 * n) addr = 0" "n + length data + 1 \<le> 255"
    and "i < length data" "b \<noteq> data ! i"
  defines "t \<equiv> cstr_of (BuildSRecord k addr data)"
  defines "p \<equiv> 4 + 2 * n + 2 * i"
  shows "fst (srec_decode (take p t @ fst (WriteHex b 0) @ drop (p + 2) t) c0 a0) = SREC_E_BADCHKS"
proof -
  have "srec_sum n addr (data[i := b]) \<noteq> srec_sum n addr data"
    using assms(5) by (simp add: srec_sum_def sum_list_update_byte [OF assms(4)])
  then show ?thesis
    unfolding t_def p_def BuildSRecord_srec_text [OF assms(1,3)] WriteHex_eq fst_conv
      srec_text_update [OF assms(4)]
    using srec_decode_text [OF assms(1,2), of "data[i := b]"] assms(3)
    by (simp add: eq_commute)
qed

theorem srec_detects_byte_error_witness:
  "fst (srec_decode (lit ''S10512341200A1'') 0 0) = SREC_E_BADCHKS"
proof -
  have "cstr_of (BuildSRecord 1 0x1234 [0x12, 1]) = lit ''S10512341201A1''" by code_simp
  then show ?thesis
    using srec_detects_byte_error [where k = 1 and n = 2 and addr = "0x1234" and data = "[0x12, 1]" and i = 1 and b = 0]
    by (simp add: srec_addr_len_def) (simp add: WriteHex_def ByteToHex_def lit_def)
qed

text \<open>
  C12: whatever the input, \<open>srec_decode\<close> stores at most 252 bytes (the buffer of \<open>load_serial\<close> has
  \<open>SREC_MAXBINLEN = 255\<close>), and where it accepts a record, it has stored as many bytes as the count
  says, none where the count is negative.
\<close>

theorem srec_decode_bounds:
  assumes "srec_decode input c0 a0 = (ty, st)"
  shows "length (sr_data st) \<le> 252
    \<and> (0 \<le> ty \<and> ty \<noteq> SREC_EMPTY \<longrightarrow> length (sr_data st) = nat (sr_count st))"
proof (cases "srec_skip input")
  case Nil
  then show ?thesis using assms by (auto simp: srec_decode_def)
next
  case (Cons v s)
  define n where "n = hex2_bin s"
  have n: "n \<le> 255" unfolding n_def by (rule hex2_bin_le)
  show ?thesis
  proof (cases "n < 0 \<or> srec_type_of v n = None")
    case True
    moreover have "sr_data st = [] \<and> ty < 0" if "n < 0"
      using that assms Cons by (simp add: srec_decode_def Let_def n_def) auto
    moreover have "sr_data st = [] \<and> ty < 0" if "\<not> n < 0" "srec_type_of v n = None"
      using that assms Cons by (simp add: srec_decode_def Let_def n_def) auto
    ultimately show ?thesis by (cases "n < 0") auto
  next
    case False
    then obtain k m where t: "srec_type_of v n = Some (k, m)" by auto
    have m: "nat m \<le> 252" using srec_type_of_count [OF t] False n by linarith
    define st1 where "st1 = \<lparr>sr_input = drop 2 s, sr_chksum = of_int n, sr_count = m,
      sr_addr = a0, sr_data = []\<rparr>"
    have d: "srec_finish k (sbind (srec_read_addr v st1) (srec_read_data (nat m))) = (ty, st)"
      using assms False Cons t
      by (simp add: srec_decode_def srec_finish_def st1_def Let_def n_def)
    show ?thesis
    proof (cases "srec_read_addr v st1")
      case (Inl r)
      with d have "srec_read_addr v st1 = Inl (ty, st)" by (simp add: srec_finish_def)
      from srec_read_addr_data(1) [OF this] show ?thesis by (simp add: st1_def)
    next
      case (Inr st2)
      from srec_read_addr_data(2) [OF this] have 2: "sr_data st2 = []" "sr_count st2 = m"
        by (simp_all add: st1_def)
      show ?thesis
      proof (cases "srec_read_data (nat m) st2")
        case (Inl r)
        with d \<open>srec_read_addr v st1 = Inr st2\<close> have "srec_read_data (nat m) st2 = Inl (ty, st)"
          by (simp add: srec_finish_def)
        from srec_read_data_data(1) [OF this] show ?thesis using 2 m by simp
      next
        case (Inr st3)
        with d \<open>srec_read_addr v st1 = Inr st2\<close> have "st = st3"
          by (simp add: srec_finish_def Let_def split: if_splits)
        with srec_read_data_data(2) [OF Inr] show ?thesis using 2 m by simp
      qed
    qed
  qed
qed

theorem srec_decode_bounds_witness:
  "length (sr_data (snd (srec_decode (lit ''S1051234120065'') 0 0))) \<le> 252"
  using srec_decode_bounds [OF prod.collapse [symmetric]] by blast

text \<open>
  the length byte is not checked against the record type, so a record that is too short for its
  address field is accepted with a negative count; \<open>load_serial\<close> passes that count to \<open>memcpy\<close>,
  where it is the size 4294967295.
\<close>

theorem srec_accepts_negative_count:
  "(let (ty, st) = srec_decode (lit ''S1020000FD'') 0 0 in
     ty = SREC_DATA2 \<and> sr_count st = -1 \<and> unat (of_int (sr_count st) :: u32) = 4294967295)"
  by (simp add: lit_def srec_decode_def srec_type_of_def srec_read_addr_def srec_addr_byte_def
      hex2_bin_def hex1_bin_def Let_def unsigned_minus_1_eq_mask mask_eq_exp_minus_1)

end
