(* ===== verification/Kermit.thy ===== *)
theory Kermit
  imports EnvStore
begin

text \<open>
  The binary download over the serial line, the \<^verbatim>\<open>loadb\<close> command of \<^verbatim>\<open>common/cmd_boot.c\<close>: a Kermit
  receiver that writes the data of each packet into memory while it arrives, and takes it back when the
  packet turns out to be damaged or repeated.
\<close>

section \<open>State\<close>

abbreviation (input) XSTART_CHAR :: byte where "XSTART_CHAR \<equiv> 1"
abbreviation (input) END_CHAR :: byte where "END_CHAR \<equiv> 0x0D"
abbreviation (input) K_ESCAPE :: byte where "K_ESCAPE \<equiv> 0x23"
abbreviation (input) SEND_TYPE :: byte where "SEND_TYPE \<equiv> 0x53"
abbreviation (input) DATA_TYPE :: byte where "DATA_TYPE \<equiv> 0x44"
abbreviation (input) ACK_TYPE :: byte where "ACK_TYPE \<equiv> 0x59"
abbreviation (input) NACK_TYPE :: byte where "NACK_TYPE \<equiv> 0x4E"
abbreviation (input) BREAK_TYPE :: byte where "BREAK_TYPE \<equiv> 0x42"
abbreviation (input) SEND_DATA_SIZE :: nat where "SEND_DATA_SIZE \<equiv> 20"

text \<open>The file's globals, and the locals of \<open>k_recv\<close> that live across its packets (the last four).\<close>

record kermit =
  his_eol :: byte
  his_pad_count :: int
  his_pad_char :: byte
  his_quote :: byte
  a_b :: "byte list"
  os_data_state :: int
  os_data_state_saved :: int
  os_data_count :: int
  os_data_count_saved :: int
  os_data_addr :: addr
  os_data_addr_saved :: addr
  bin_start_address :: addr
  k_data_escape :: bool
  k_data_escape_saved :: bool
  send_parms :: "byte list"
  send_ptr :: nat
  k_state :: byte
  k_state_saved :: byte
  pkt_n :: int
  last_n :: int

text \<open>\<open>kermit_bss\<close>: the globals before the first download.\<close>

definition kermit_bss :: kermit where
  "kermit_bss =
     \<lparr>his_eol = 0, his_pad_count = 0, his_pad_char = 0, his_quote = 0, a_b = replicate 24 0,
      os_data_state = 0, os_data_state_saved = 0, os_data_count = 0, os_data_count_saved = 0,
      os_data_addr = 0, os_data_addr_saved = 0, bin_start_address = 0,
      k_data_escape = False, k_data_escape_saved = False,
      send_parms = replicate SEND_DATA_SIZE 0, send_ptr = 0,
      k_state = 0, k_state_saved = 0, pkt_n = 0, last_n = 0\<rparr>"

section \<open>Characters\<close>

definition tochar :: "int \<Rightarrow> byte" where
  "tochar x = word_of_int (x + 0x20)"

definition untochar :: "byte \<Rightarrow> int" where
  "untochar c = uint (c - 0x20)"

definition ktrans :: "byte \<Rightarrow> byte" where
  "ktrans c =
     (if c AND 0x60 = 0x40 then c AND NOT 0x40
      else if c AND 0x7F = 0x3F then c OR 0x40
      else c)"

text \<open>The block check of a sum, and of the string a buffer holds.\<close>

definition block_check :: "int \<Rightarrow> int" where
  "block_check chk = (chk + (drop_bit 6 chk AND 3)) AND 0x3F"

definition chk1 :: "byte list \<Rightarrow> int" where
  "chk1 buffer = block_check (sum_list (map uint (cstr_of buffer)))"

section \<open>Sending\<close>

primrec send_pad_loop :: "nat \<Rightarrow> byte \<Rightarrow> sys \<Rightarrow> sys" where
  "send_pad_loop 0 c s = s"
| "send_pad_loop (Suc count) c s = send_pad_loop count c (serial_putc c s)"

definition send_pad :: "kermit \<Rightarrow> sys \<Rightarrow> sys" where
  "send_pad k s = send_pad_loop (nat (his_pad_count k)) (his_pad_char k) s"

definition s1_sendpacket :: "byte list \<Rightarrow> kermit \<Rightarrow> sys \<Rightarrow> sys" where
  "s1_sendpacket packet k s = serial_puts (cstr_of packet) (send_pad k s)"

text \<open>Assignments to a buffer in their order.\<close>

primrec assigns :: "(nat \<times> byte) list \<Rightarrow> byte list \<Rightarrow> byte list option" where
  "assigns [] b = Some b"
| "assigns (a # as) b = (case wr b (fst a) (snd a) of None \<Rightarrow> None | Some b \<Rightarrow> assigns as b)"

text \<open>
  The end of every packet sent: its check, the end of line and the NUL behind \<open>len\<close> characters.
\<close>

definition close_packet :: "nat \<Rightarrow> kermit \<Rightarrow> byte list \<Rightarrow> byte list option" where
  "close_packet len k b =
     (case assigns [(len + 1, 0)] b of None \<Rightarrow> None
      | Some b \<Rightarrow>
          assigns [(len + 1, tochar (chk1 (drop 1 b))), (len + 2, his_eol k), (len + 3, 0)] b)"

definition send_reply :: "byte \<Rightarrow> int \<Rightarrow> kermit \<Rightarrow> sys \<Rightarrow> kermit result" where
  "send_reply typ n k s =
     (case assigns [(0, XSTART_CHAR), (1, tochar 3), (2, tochar n), (3, typ)] (a_b k) of
        None \<Rightarrow> Inl BadAccess
      | Some b \<Rightarrow>
          (case close_packet 3 k b of
             None \<Rightarrow> Inl BadAccess
           | Some b \<Rightarrow> let k = k\<lparr>a_b := b\<rparr> in Inr (k, s1_sendpacket b k s)))"

definition send_ack :: "int \<Rightarrow> kermit \<Rightarrow> sys \<Rightarrow> kermit result" where
  "send_ack n k s = send_reply ACK_TYPE n k s"

definition send_nack :: "int \<Rightarrow> kermit \<Rightarrow> sys \<Rightarrow> kermit result" where
  "send_nack n k s = send_reply NACK_TYPE n k s"

section \<open>The data\<close>

definition bin_data_init :: "kermit \<Rightarrow> kermit" where
  "bin_data_init k = k\<lparr>os_data_state := 0, os_data_count := 0, os_data_addr := bin_start_address k\<rparr>"

definition os_data_save :: "kermit \<Rightarrow> kermit" where
  "os_data_save k =
     k\<lparr>os_data_state_saved := os_data_state k, os_data_count_saved := os_data_count k,
       os_data_addr_saved := os_data_addr k\<rparr>"

definition os_data_restore :: "kermit \<Rightarrow> kermit" where
  "os_data_restore k =
     k\<lparr>os_data_state := os_data_state_saved k, os_data_count := os_data_count_saved k,
       os_data_addr := os_data_addr_saved k\<rparr>"

definition bin_data_char :: "byte \<Rightarrow> kermit \<times> sys \<Rightarrow> kermit \<times> sys" where
  "bin_data_char new_char = (\<lambda>(k, s).
     if os_data_state k = 0 then
       (k\<lparr>os_data_addr := os_data_addr k + 1, os_data_count := os_data_count k - 1\<rparr>,
        s\<lparr>memory := (memory s)(os_data_addr k := new_char)\<rparr>)
     else (k, s))"

definition set_kerm_bin_mode :: "addr \<Rightarrow> kermit \<Rightarrow> kermit" where
  "set_kerm_bin_mode addr k = k\<lparr>bin_start_address := addr\<rparr>"

definition k_data_init :: "kermit \<Rightarrow> kermit" where
  "k_data_init k = bin_data_init (k\<lparr>k_data_escape := False\<rparr>)"

definition k_data_save :: "kermit \<Rightarrow> kermit" where
  "k_data_save k = os_data_save (k\<lparr>k_data_escape_saved := k_data_escape k\<rparr>)"

definition k_data_restore :: "kermit \<Rightarrow> kermit" where
  "k_data_restore k = os_data_restore (k\<lparr>k_data_escape := k_data_escape_saved k\<rparr>)"

definition k_data_char :: "byte \<Rightarrow> kermit \<times> sys \<Rightarrow> kermit \<times> sys" where
  "k_data_char new_char = (\<lambda>(k, s).
     if k_data_escape k then
       let (k, s) = bin_data_char (ktrans new_char) (k, s) in (k\<lparr>k_data_escape := False\<rparr>, s)
     else if new_char = his_quote k then (k\<lparr>k_data_escape := True\<rparr>, s)
     else bin_data_char new_char (k, s))"

section \<open>The parameters\<close>

definition default_parms :: "kermit \<Rightarrow> kermit" where
  "default_parms k = k\<lparr>his_eol := END_CHAR, his_pad_count := 0, his_pad_char := 0, his_quote := K_ESCAPE\<rparr>"

text \<open>
  The fields in their order, what the receiver remembers of each and what it answers: MAXL, TIME, NPAD,
  PADC, EOL, QCTL, QBIN, CHKT, REPT, CAPAS.
\<close>

definition parm_steps :: "((kermit \<Rightarrow> kermit) \<times> byte list) list" where
  "parm_steps =
     [(\<lambda>k. k, [tochar 94]),
      (\<lambda>k. k, [tochar 1]),
      (\<lambda>k. k\<lparr>his_pad_count := untochar (send_parms k ! 2)\<rparr>, [tochar 0]),
      (\<lambda>k. k\<lparr>his_pad_char := ktrans (send_parms k ! 3)\<rparr>, [0x40]),
      (\<lambda>k. k\<lparr>his_eol := word_of_int (untochar (send_parms k ! 4))\<rparr>, [tochar 0x0D]),
      (\<lambda>k. k\<lparr>his_quote := send_parms k ! 5\<rparr>, [ch CHR ''#'']),
      (\<lambda>k. k, [ch CHR ''N'']),
      (\<lambda>k. k, [ch CHR ''1'']),
      (\<lambda>k. k, [ch CHR ''N'']),
      (\<lambda>k. k, [tochar 2, tochar 0, tochar 94, tochar 94])]"

text \<open>One pass of the \<^verbatim>\<open>do ... while (0)\<close>; \<open>reply\<close> is what stands from \<open>a_b[4]\<close>.\<close>

fun parm_loop ::
  "((kermit \<Rightarrow> kermit) \<times> byte list) list \<Rightarrow> nat \<Rightarrow> byte list \<Rightarrow> kermit \<Rightarrow> kermit \<times> byte list" where
  "parm_loop [] bytes reply k = (k, reply)"
| "parm_loop (p # ps) bytes reply k =
     (if bytes = 0 then (k, reply) else parm_loop ps (bytes - 1) (reply @ snd p) (fst p k))"

definition handle_send_packet :: "int \<Rightarrow> kermit \<Rightarrow> sys \<Rightarrow> kermit result" where
  "handle_send_packet n k s =
     (let k = default_parms k;
          k = (if send_ptr k = SEND_DATA_SIZE - 1 then k\<lparr>send_ptr := send_ptr k - 1\<rparr> else k);
          (k, reply) = parm_loop parm_steps (send_ptr k) [] k;
          length = 3 + length reply
      in case assigns (zip [4..<length + 1] reply
             @ [(0, XSTART_CHAR), (1, tochar (int length)), (2, tochar n), (3, ACK_TYPE)]) (a_b k) of
           None \<Rightarrow> Inl BadAccess
         | Some b \<Rightarrow>
             (case close_packet length k b of
                None \<Rightarrow> Inl BadAccess
              | Some b \<Rightarrow> let k = k\<lparr>a_b := b\<rparr> in Inr (k, s1_sendpacket b k s)))"

section \<open>Receiving\<close>

text \<open>
  A character of a packet; one below the space is an error, and leaves for \<open>packet_error\<close> with the
  state as it is.
\<close>

definition with_char ::
  "kermit \<Rightarrow> sys \<Rightarrow> (byte \<Rightarrow> sys \<Rightarrow> (bool \<times> kermit) result) \<Rightarrow> (bool \<times> kermit) result" where
  "with_char k s f =
     sbind (getc s) (\<lambda>(c, s). if c AND 0xE0 = 0 then Inr ((False, k), s) else f c s)"

text \<open>
  The sequence number is in \<open>pkt_n\<close>: the same one as before takes the state back to its checkpoint, a
  new one sets the checkpoint.
\<close>

definition check_sequence :: "kermit \<Rightarrow> kermit" where
  "check_sequence k =
     (if pkt_n k = last_n k then k_data_restore (k\<lparr>k_state := k_state_saved k\<rparr>)
      else k_data_save (k\<lparr>last_n := pkt_n k, k_state_saved := k_state k\<rparr>))"

text \<open>A character of the packet's field.\<close>

definition packet_char :: "byte \<Rightarrow> kermit \<Rightarrow> sys \<Rightarrow> kermit result" where
  "packet_char c k s =
     (if k_state k = DATA_TYPE then Inr (k_data_char c (k, s))
      else if k_state k = SEND_TYPE then
        (case wr (send_parms k) (send_ptr k) c of
           None \<Rightarrow> Inl BadAccess
         | Some b \<Rightarrow>
             let k = k\<lparr>send_parms := b, send_ptr := send_ptr k + 1\<rparr> in
             Inr (if send_ptr k \<ge> SEND_DATA_SIZE then k\<lparr>send_ptr := send_ptr k - 1\<rparr> else k, s))
      else Inr (k, s))"

text \<open>The check and the end of the packet.\<close>

definition packet_end :: "int \<Rightarrow> kermit \<Rightarrow> sys \<Rightarrow> (bool \<times> kermit) result" where
  "packet_end chk k s =
     with_char k s (\<lambda>c s.
       if c \<noteq> tochar (block_check chk) then Inr ((False, k), s)
       else sbind (getc s) (\<lambda>(c, s). Inr ((c = END_CHAR, k), s)))"

text \<open>\<open>i\<close> characters, \<open>length - 1\<close> of the code.\<close>

primrec packet_rest :: "nat \<Rightarrow> int \<Rightarrow> kermit \<Rightarrow> sys \<Rightarrow> (bool \<times> kermit) result" where
  "packet_rest 0 chk k s = packet_end chk k s"
| "packet_rest (Suc i) chk k s =
     with_char k s (\<lambda>c s.
       sbind (packet_char c k s) (\<lambda>(k, s). packet_rest i (chk + uint c) k s))"

text \<open>The two bytes of an extended length and the check of the header.\<close>

definition extended_packet :: "int \<Rightarrow> kermit \<Rightarrow> sys \<Rightarrow> (bool \<times> kermit) result" where
  "extended_packet chk k s =
     with_char k s (\<lambda>hi s.
     with_char k s (\<lambda>lo s.
     with_char k s (\<lambda>c s.
       let chk = chk + uint hi + uint lo; length = untochar hi * 95 + untochar lo in
       if c \<noteq> tochar (block_check chk) then Inr ((False, k), s)
       else packet_rest (nat (length - 1)) (chk + uint c) k s)))"

definition read_packet :: "kermit \<Rightarrow> sys \<Rightarrow> (bool \<times> kermit) result" where
  "read_packet k s =
     with_char k s (\<lambda>len s.
       let length = untochar len in
       with_char k s (\<lambda>seq s.
         let k = check_sequence (k\<lparr>pkt_n := untochar seq\<rparr>); length = length - 1 in
         with_char k s (\<lambda>typ s.
           let k = k\<lparr>k_state := typ\<rparr>; length = length - 1; chk = uint len + uint seq + uint typ in
           if length = -2 then extended_packet chk k s
           else packet_rest (nat (length - 1)) chk k s)))"

text \<open>\<^verbatim>\<open>while (serial_getc() != START_CHAR);\<close>\<close>

definition wait_start :: "sys \<Rightarrow> unit result" where
  "wait_start s =
     (case dropWhile (\<lambda>c. c \<noteq> XSTART_CHAR) (con_in s) of
        [] \<Rightarrow> Inl NoInput
      | c # cs \<Rightarrow> Inr ((), s\<lparr>con_in := cs\<rparr>))"

text \<open>
  What the packet is answered with: at \<open>packet_error\<close> the state goes back to the checkpoint, and the
  sender is asked again.  The flag is \<open>done\<close>.
\<close>

definition answer_packet :: "bool \<Rightarrow> kermit \<Rightarrow> sys \<Rightarrow> (bool \<times> kermit) result" where
  "answer_packet ok k s =
     (if \<not> ok then
        let k = k_data_restore (k\<lparr>k_state := k_state_saved k\<rparr>) in
        sbind (send_nack (pkt_n k) k s) (\<lambda>(k, s). Inr ((False, k), s))
      else if k_state k = SEND_TYPE then
        sbind (handle_send_packet (pkt_n k) k s) (\<lambda>(k, s). Inr ((False, k), s))
      else
        sbind (send_ack (pkt_n k) k s) (\<lambda>(k, s). Inr ((k_state k = BREAK_TYPE, k), s)))"

definition recv_packet :: "kermit \<Rightarrow> sys \<Rightarrow> (bool \<times> kermit) result" where
  "recv_packet k s =
     sbind (wait_start s) (\<lambda>(_, s).
     sbind (read_packet (k\<lparr>send_ptr := 0\<rparr>) s) (\<lambda>((ok, k), s). answer_packet ok k s))"

section \<open>The main loop\<close>

text \<open>Every pass consumes input, so the loop ends: with the end of the transmission or without input.\<close>

lemma getc_Inr: "getc s = Inr (c, s') \<longleftrightarrow> (\<exists>cs. con_in s = c # cs \<and> s' = s\<lparr>con_in := cs\<rparr>)"
  by (auto simp: getc_def split: list.splits)

lemma with_charE:
  assumes "with_char k s f = Inr (x, s')"
  obtains c cs where "con_in s = c # cs" "c AND 0xE0 = 0" "x = (False, k)" "s' = s\<lparr>con_in := cs\<rparr>"
  | c cs where "con_in s = c # cs" "c AND 0xE0 \<noteq> 0" "f c (s\<lparr>con_in := cs\<rparr>) = Inr (x, s')"
  using assms by (auto simp: with_char_def getc_Inr elim!: sbind_InrE split: if_splits)

lemma serial_putc_in [simp]: "con_in (serial_putc c s) = con_in s"
  by (simp add: serial_putc_def)

lemma s1_sendpacket_in [simp]: "con_in (s1_sendpacket p k s) = con_in s"
proof -
  have "con_in (send_pad_loop i c s) = con_in s" for i c
    by (induction i arbitrary: s) simp_all
  then show ?thesis by (simp add: s1_sendpacket_def send_pad_def serial_puts_out)
qed

lemma send_reply_in: "send_reply t n k s = Inr (k', s') \<Longrightarrow> con_in s' = con_in s"
  by (auto simp: send_reply_def Let_def split: option.splits)

lemma handle_send_packet_in: "handle_send_packet n k s = Inr (k', s') \<Longrightarrow> con_in s' = con_in s"
  by (auto simp: handle_send_packet_def Let_def split: option.splits prod.splits)

lemma bin_data_char_in [simp]: "con_in (snd (bin_data_char c (k, s))) = con_in s"
  by (simp add: bin_data_char_def)

lemma k_data_char_in [simp]: "con_in (snd (k_data_char c (k, s))) = con_in s"
  by (simp add: k_data_char_def Let_def split_beta)

lemma packet_char_in: "packet_char c k s = Inr (k', s') \<Longrightarrow> con_in s' = con_in s"
  unfolding packet_char_def
  by (auto simp: Let_def split: if_splits option.splits dest: arg_cong [where f = "\<lambda>x. con_in (snd x)"])

lemma packet_end_in: "packet_end chk k s = Inr (x, s') \<Longrightarrow> length (con_in s') \<le> length (con_in s)"
  by (auto simp: packet_end_def getc_Inr elim!: with_charE sbind_InrE split: if_splits)

lemma packet_rest_in: "packet_rest i chk k s = Inr (x, s') \<Longrightarrow> length (con_in s') \<le> length (con_in s)"
proof (induction i arbitrary: chk k s)
  case 0
  then show ?case by (simp add: packet_end_in)
next
  case (Suc i)
  from Suc.prems show ?case
    by (fastforce elim!: with_charE sbind_InrE dest!: packet_char_in Suc.IH)
qed

lemma read_packet_in: "read_packet k s = Inr (x, s') \<Longrightarrow> length (con_in s') \<le> length (con_in s)"
  unfolding read_packet_def extended_packet_def Let_def
  by (fastforce elim!: with_charE dest!: packet_rest_in split: if_splits)

lemma wait_start_in: "wait_start s = Inr (u, s') \<Longrightarrow> length (con_in s') < length (con_in s)"
  unfolding wait_start_def
  by (auto split: list.splits) (metis length_Cons length_dropWhile_le less_eq_Suc_le)

lemma answer_packet_in: "answer_packet ok k s = Inr (x, s') \<Longrightarrow> con_in s' = con_in s"
  unfolding answer_packet_def send_ack_def send_nack_def Let_def
  by (auto elim!: sbind_InrE dest!: send_reply_in handle_send_packet_in split: if_splits)

lemma recv_packet_in:
  "recv_packet k s = Inr (x, s') \<Longrightarrow> length (con_in s') < length (con_in s)"
  unfolding recv_packet_def
  by (fastforce elim!: sbind_InrE dest!: wait_start_in read_packet_in answer_packet_in)

function k_recv_loop :: "kermit \<Rightarrow> sys \<Rightarrow> kermit result" where
  "k_recv_loop k s =
     (case recv_packet k s of
        Inl e \<Rightarrow> Inl e
      | Inr ((fin, k'), s') \<Rightarrow> if fin then Inr (k', s') else k_recv_loop k' s')"
  by pat_completeness auto
termination
  by (relation "measure (\<lambda>(k, s). length (con_in s))") (auto dest: recv_packet_in)

declare k_recv_loop.simps [simp del]

definition k_recv :: "kermit \<Rightarrow> sys \<Rightarrow> kermit result" where
  "k_recv k s =
     (let k = default_parms k;
          k = k_data_init (k\<lparr>k_state := 0\<rparr>);
          k = k_data_save (k\<lparr>k_state_saved := k_state k\<rparr>)
      in k_recv_loop (k\<lparr>pkt_n := 0, last_n := -1\<rparr>) s)"

text \<open>The \<open>loadb\<close> command.\<close>

definition load_serial_bin :: "addr \<Rightarrow> kermit \<Rightarrow> sys \<Rightarrow> (addr \<times> kermit) result" where
  "load_serial_bin offset k s =
     sbind (k_recv (set_kerm_bin_mode offset k) s) (\<lambda>(k, s). Inr ((offset, k), s))"

text \<open>100 polls of the line; all the characters that have arrived are taken to be there at once.\<close>

primrec gather_trailing :: "nat \<Rightarrow> sys \<Rightarrow> sys" where
  "gather_trailing 0 s = s"
| "gather_trailing (Suc i) s =
     gather_trailing i (if tstc s then s\<lparr>con_in := tl (con_in s)\<rparr> else s)"

fun wait_key :: "byte \<Rightarrow> byte list \<Rightarrow> byte list option" where
  "wait_key key [] = None"
| "wait_key key (c # cs) = (if c = key then Some cs else wait_key key cs)"

text \<open>The console at another rate, and back: \<open>back\<close> names the key that is waited for.\<close>

definition switch_baudrate :: "config \<Rightarrow> string \<Rightarrow> byte \<Rightarrow> int \<Rightarrow> sys \<Rightarrow> unit result" where
  "switch_baudrate cfg keyname key baudrate s =
     sbind (printf cfg (lit ''## Switch baudrate to %d bps and press '' @ lit keyname @ lit '' ...\<newline>'')
              [AInt (of_int baudrate)] s) (\<lambda>(_, s).
     sbind (serial_setbrg baudrate s) (\<lambda>(_, s).
       case wait_key key (con_in s) of
         None \<Rightarrow> Inl NoInput
       | Some cs \<Rightarrow> Inr ((), s\<lparr>con_in := cs\<rparr>)))"

definition loadb_baudrate :: "nat \<Rightarrow> byte list option list \<Rightarrow> sys \<Rightarrow> stop + int" where
  "loadb_baudrate argc argv s =
     (if argc = 3 then
        sbind (argv_str argv 2) (\<lambda>a.
          let b = sint (fst (simple_strtoul a 10)) in Inr (if b = 0 then bi_baudrate s else b))
      else Inr (bi_baudrate s))"

definition do_load_serial_bin ::
  "config \<Rightarrow> nat \<Rightarrow> byte list option list \<Rightarrow> kermit \<Rightarrow> sys \<Rightarrow> (int \<times> kermit) result" where
  "do_load_serial_bin cfg argc argv k s =
     sbind (if argc \<ge> 2 then sbind (argv_str argv 1) (\<lambda>a. Inr (fst (simple_strtoul a 16)))
            else Inr 0) (\<lambda>offset.
     sbind (loadb_baudrate argc argv s) (\<lambda>loadb_baudrate.
     sbind (if loadb_baudrate \<noteq> bi_baudrate s
            then switch_baudrate cfg ''ENTER'' 0x0D loadb_baudrate s else Inr ((), s)) (\<lambda>(_, s).
     sbind (printf cfg (lit ''## Ready for binary (kermit) download ...\<newline>'') [] s) (\<lambda>(_, s).
     sbind (load_serial_bin offset k s) (\<lambda>((addr, k), s).
     let s = gather_trailing 100 s in
     sbind (if addr = 0xFFFFFFFF then
              printf cfg (lit ''## Binary (kermit) download aborted\<newline>'') [] (s\<lparr>load_addr := 0\<rparr>)
            else
              sbind (printf cfg (lit ''## Start Addr      = 0x%08lx\<newline>'') [AInt addr] s)
                (\<lambda>(_, s). Inr ((), s\<lparr>load_addr := addr\<rparr>))) (\<lambda>(_, s).
     sbind (if loadb_baudrate \<noteq> bi_baudrate s
            then switch_baudrate cfg ''ESC'' 0x1B (bi_baudrate s) s else Inr ((), s)) (\<lambda>(_, s).
       Inr ((0, k), s))))))))"

end
