(* ===== verification/KermitSpec.thy ===== *)
theory KermitSpec
  imports Kermit
begin

text \<open>
  Kermit's receiver (\<open>loadb\<close>) against what a sender sends: what an intact packet, a damaged one and a
  repeated one do to its checkpoints, a whole transmission, and every input at all.
\<close>

lemma and_sub: "(c :: byte) AND m = x \<Longrightarrow> m AND n = n \<Longrightarrow> c AND n = x AND n"
  by (metis and.assoc)

lemma and_zero_and_not: "(c :: byte) AND m = 0 \<Longrightarrow> c AND NOT m = c"
  by (rule bit_word_eqI) (auto simp: bit_simps dest!: arg_cong [where f = "\<lambda>x. bit x _"])

lemma and_eq_or: "(c :: byte) AND m = m \<Longrightarrow> c OR m = c"
  by (rule bit_word_eqI) (metis bit_and_iff bit_or_iff)

lemma quoted_char:
  assumes "c AND 0x60 = 0 \<or> c AND 0x7F = 0x7F"
  shows "(c XOR 0x40) AND 0xE0 \<noteq> 0" "ktrans (c XOR 0x40) = c"
proof -
  have x: "(c XOR 0x40) AND m = (c AND m) XOR (0x40 AND m)" for m
    by (rule bit_word_eqI) (auto simp: bit_simps)
  show "(c XOR 0x40) AND 0xE0 \<noteq> 0"
  proof
    assume "(c XOR 0x40) AND 0xE0 = 0"
    from and_sub [OF this, of "0x60"] have "(c AND 0x60) XOR 0x40 = 0" by (simp add: x)
    with assms and_sub [of c "0x7F" "0x7F" "0x60"] show False by auto
  qed
  from assms show "ktrans (c XOR 0x40) = c"
  proof
    assume c: "c AND 0x60 = 0"
    have "c AND NOT 0x40 = c" using and_sub [OF c, of "0x40"] by (intro and_zero_and_not) simp
    moreover have "(c XOR 0x40) AND NOT 0x40 = c AND NOT 0x40" by (rule bit_word_eqI) (auto simp: bit_simps)
    ultimately show ?thesis using c by (simp add: ktrans_def x)
  next
    assume c: "c AND 0x7F = 0x7F"
    from and_sub [OF c, of "0x60"] and_sub [OF c, of "0x40"]
    have "c AND 0x60 = 0x60" "c AND 0x40 = 0x40" by simp_all
    moreover have "c OR 0x40 = c" using \<open>c AND 0x40 = 0x40\<close> by (rule and_eq_or)
    moreover have "(c XOR 0x40) OR 0x40 = c OR 0x40"
      by (rule bit_word_eqI) (auto simp: bit_simps)
    ultimately show ?thesis using c by (simp add: ktrans_def x)
  qed
qed


section \<open>What a sender sends\<close>

definition printable :: "byte \<Rightarrow> bool" where
  "printable c = (c AND 0xE0 \<noteq> 0)"

definition kquote :: "byte \<Rightarrow> byte \<Rightarrow> byte list" where
  "kquote q c =
     (if c = q then [q, q]
      else if c AND 0x60 = 0 \<or> c AND 0x7F = 0x7F then [q, c XOR 0x40]
      else [c])"

definition good_quote :: "byte \<Rightarrow> bool" where
  "good_quote q = (q AND 0x60 \<noteq> 0 \<and> q AND 0x7F \<noteq> 0x7F \<and> ktrans q = q)"

text \<open>The receiver's translation, as a function of the characters.\<close>

fun unquote :: "byte \<Rightarrow> bool \<Rightarrow> byte list \<Rightarrow> byte list \<times> bool" where
  "unquote q e [] = ([], e)"
| "unquote q e (c # cs) =
     (if e then map_prod (Cons (ktrans c)) id (unquote q False cs)
      else if c = q then unquote q True cs
      else map_prod (Cons c) id (unquote q False cs))"

lemma printable_60: "c AND 0x60 \<noteq> 0 \<Longrightarrow> printable c"
  unfolding printable_def using and_sub [of c "0xE0" 0 "0x60"] by auto

lemma kquote_printable: "good_quote q \<Longrightarrow> x \<in> set (kquote q c) \<Longrightarrow> printable x"
  unfolding kquote_def good_quote_def
  using quoted_char(1) [of c] printable_60 [of q] printable_60 [of c] by (auto simp: printable_def split: if_splits)

lemma unquote_append:
  "unquote q e (a @ b) = (let (x, e) = unquote q e a; (y, e) = unquote q e b in (x @ y, e))"
  by (induction q e a rule: unquote.induct) (auto simp: Let_def split_beta)

lemma unquote_kquote: "good_quote q \<Longrightarrow> unquote q False (kquote q c) = ([c], False)"
  unfolding kquote_def good_quote_def using quoted_char(2) [of c] by auto

lemma unquote_quoted: "good_quote q \<Longrightarrow> unquote q False (concat (map (kquote q) bs)) = (bs, False)"
  by (induction bs) (simp_all add: unquote_append unquote_kquote)

section \<open>The field of a packet\<close>

definition bufs_ok :: "kermit \<Rightarrow> bool" where
  "bufs_ok k = (length (a_b k) = 24 \<and> length (send_parms k) = SEND_DATA_SIZE \<and> send_ptr k < SEND_DATA_SIZE)"

fun fill :: "byte list \<Rightarrow> byte list \<times> nat \<Rightarrow> byte list \<times> nat" where
  "fill [] (b, p) = (b, p)"
| "fill (c # cs) (b, p) = fill cs (b[p := c], if p + 1 \<ge> SEND_DATA_SIZE then p else p + 1)"

definition fed :: "byte list \<Rightarrow> kermit \<times> sys \<Rightarrow> kermit \<times> sys" where
  "fed ds = (\<lambda>(k, s).
     if k_state k = DATA_TYPE then
       let (out, e) = unquote (his_quote k) (k_data_escape k) ds in
       (k\<lparr>os_data_addr := os_data_addr k + of_nat (length out), os_data_count := os_data_count k - int (length out),
         k_data_escape := e\<rparr>, s\<lparr>memory := store_bytes (memory s) (os_data_addr k) out\<rparr>)
     else if k_state k = SEND_TYPE then
       (k\<lparr>send_parms := fst (fill ds (send_parms k, send_ptr k)),
          send_ptr := snd (fill ds (send_parms k, send_ptr k))\<rparr>, s)
     else (k, s))"

lemma with_char_ok:
  "con_in s = c # cs \<Longrightarrow> printable c \<Longrightarrow> with_char k s f = f c (s\<lparr>con_in := cs\<rparr>)"
  by (simp add: with_char_def getc_def printable_def)

lemma fed_Nil [simp]: "fed [] (k, s) = (k, s)"
  by (simp add: fed_def)

lemma fed_Cons:
  assumes "bufs_ok k" "os_data_state k = 0"
  shows "\<exists>k' s'. packet_char c k s = Inr (k', s') \<and> fed (c # cs) (k, s) = fed cs (k', s')
    \<and> bufs_ok k' \<and> os_data_state k' = 0 \<and> con_in s' = con_in s"
proof -
  consider "k_state k = DATA_TYPE" | "k_state k = SEND_TYPE" | "k_state k \<noteq> DATA_TYPE \<and> k_state k \<noteq> SEND_TYPE"
    by blast
  then show ?thesis
  proof cases
    case 1
    let ?put = "\<lambda>x. (k\<lparr>os_data_addr := os_data_addr k + 1, os_data_count := os_data_count k - 1,
        k_data_escape := False\<rparr>, s\<lparr>memory := (memory s)(os_data_addr k := x)\<rparr>)"
    obtain out e where u: "unquote (his_quote k) False cs = (out, e)" by fastforce
    consider (esc) "k_data_escape k" | (quote) "\<not> k_data_escape k" "c = his_quote k"
      | (plain) "\<not> k_data_escape k" "c \<noteq> his_quote k" by blast
    then show ?thesis
    proof cases
      case esc
      with 1 assms have "packet_char c k s = Inr (?put (ktrans c))"
        by (simp add: packet_char_def k_data_char_def bin_data_char_def)
      moreover have "fed (c # cs) (k, s) = fed cs (?put (ktrans c))"
        using 1 esc u by (simp add: fed_def add.assoc)
      ultimately show ?thesis using assms by (auto simp: bufs_ok_def)
    next
      case quote
      with 1 have "packet_char c k s = Inr (k\<lparr>k_data_escape := True\<rparr>, s)"
        by (simp add: packet_char_def k_data_char_def)
      moreover have "fed (c # cs) (k, s) = fed cs (k\<lparr>k_data_escape := True\<rparr>, s)"
        using 1 quote by (simp add: fed_def)
      ultimately show ?thesis using assms by (auto simp: bufs_ok_def)
    next
      case plain
      then have e: "k\<lparr>k_data_escape := False\<rparr> = k" by simp
      from plain 1 assms have "packet_char c k s = Inr (?put c)"
        by (simp add: packet_char_def k_data_char_def bin_data_char_def)
      moreover have "fed (c # cs) (k, s) = fed cs (?put c)"
        using 1 plain u by (simp add: fed_def add.assoc)
      ultimately show ?thesis using assms by (auto simp: bufs_ok_def)
    qed
  next
    case 2
    let ?k = "k\<lparr>send_parms := (send_parms k)[send_ptr k := c],
      send_ptr := if send_ptr k + 1 \<ge> SEND_DATA_SIZE then send_ptr k else send_ptr k + 1\<rparr>"
    from 2 assms have "packet_char c k s = Inr (?k, s)"
      by (simp add: packet_char_def Let_def bufs_ok_def)
    moreover from 2 have "fed (c # cs) (k, s) = fed cs (?k, s)" by (simp add: fed_def)
    moreover from assms have "bufs_ok ?k" by (simp add: bufs_ok_def)
    ultimately show ?thesis using assms by (intro exI [of _ ?k] exI [of _ s]) simp
  next
    case 3
    with assms show ?thesis by (auto simp: packet_char_def fed_def)
  qed
qed

lemma packet_rest_fed:
  assumes "con_in s = ds @ cs" "\<forall>c\<in>set ds. printable c" "bufs_ok k" "os_data_state k = 0"
  shows "\<exists>k' s'. fed ds (k, s) = (k', s') \<and> con_in s' = con_in s \<and> bufs_ok k'
    \<and> packet_rest (length ds) chk k s
      = packet_end (chk + sum_list (map uint ds)) k' (s'\<lparr>con_in := cs\<rparr>)"
  using assms
proof (induction ds arbitrary: chk k s)
  case Nil
  then show ?case by (auto intro!: arg_cong [where f = "packet_end chk k"])
next
  case (Cons d ds)
  from Cons.prems have "printable d" and ds: "\<forall>c\<in>set ds. printable c" by auto
  let ?s = "s\<lparr>con_in := ds @ cs\<rparr>"
  from fed_Cons [OF Cons.prems(3,4), of d ?s ds] obtain k' s' where
    k': "packet_char d k ?s = Inr (k', s')" "fed (d # ds) (k, ?s) = fed ds (k', s')"
      "bufs_ok k'" "os_data_state k' = 0" "con_in s' = ds @ cs" by auto
  from Cons.IH [OF k'(5) ds k'(3,4), of "chk + uint d"] obtain k'' s'' where
    k'': "fed ds (k', s') = (k'', s'')" "con_in s'' = con_in s'" "bufs_ok k''"
      "packet_rest (length ds) (chk + uint d) k' s'
        = packet_end (chk + uint d + sum_list (map uint ds)) k'' (s''\<lparr>con_in := cs\<rparr>)" by blast
  have frame: "fed (d # ds) (k, ?s) = (fst (fed (d # ds) (k, s)), (snd (fed (d # ds) (k, s)))\<lparr>con_in := ds @ cs\<rparr>)"
    by (simp add: fed_def Let_def split_beta)
  have "con_in (snd (fed (d # ds) (k, s))) = con_in s" by (simp add: fed_def Let_def split_beta)
  with frame k' k'' have "\<exists>z. fed (d # ds) (k, s) = (k'', z) \<and> con_in z = con_in s \<and> z\<lparr>con_in := ds @ cs\<rparr> = s''"
    by (cases "fed (d # ds) (k, s)") simp
  then obtain z where z: "fed (d # ds) (k, s) = (k'', z)" "con_in z = con_in s" "z\<lparr>con_in := ds @ cs\<rparr> = s''"
    by blast
  then have "s''\<lparr>con_in := cs\<rparr> = z\<lparr>con_in := cs\<rparr>" by auto
  moreover have "packet_rest (length (d # ds)) chk k s = packet_rest (length ds) (chk + uint d) k' s'"
    using with_char_ok [of s d "ds @ cs" k] Cons.prems(1) \<open>printable d\<close> k'(1) by simp
  ultimately show ?case using z k'' by (intro exI [of _ k''] exI [of _ z]) (simp add: add.assoc)
qed

text \<open>The numbers a packet carries.\<close>

lemma untochar_tochar: "0 \<le> n \<Longrightarrow> n < 256 \<Longrightarrow> untochar (tochar n) = n"
  by (simp add: untochar_def tochar_def unsigned_of_int take_bit_int_eq_self)

lemma printable_ge: "printable c \<longleftrightarrow> 0x20 \<le> uint c"
proof -
  have "(0xE0 :: byte) = NOT (mask 5)" by code_simp
  then have "c AND 0xE0 = c AND NOT (mask 5)" by (simp only:)
  moreover have "c AND NOT (mask 5) = 0 \<longleftrightarrow> take_bit 5 c = c"
  proof
    assume "c AND NOT (mask 5) = 0"
    from and_zero_and_not [OF this] show "take_bit 5 c = c" by (simp add: take_bit_eq_mask)
  next
    assume "take_bit 5 c = c"
    then have "c AND NOT (mask 5) = (c AND mask 5) AND NOT (mask 5)" by (simp add: take_bit_eq_mask)
    then show "c AND NOT (mask 5) = 0" by (simp add: and.assoc)
  qed
  moreover have "take_bit 5 c = c \<longleftrightarrow> take_bit 5 (uint c) = uint c"
    by (metis unsigned_take_bit_eq unsigned_word_eqI)
  moreover have "\<dots> \<longleftrightarrow> uint c < 0x20" by (simp add: take_bit_int_eq_self_iff)
  ultimately show ?thesis by (simp add: printable_def not_less)
qed

lemma uint_tochar: "0 \<le> n \<Longrightarrow> n < 224 \<Longrightarrow> uint (tochar n) = n + 0x20"
  unfolding tochar_def unsigned_of_int by (simp add: take_bit_int_eq_self)

lemma tochar_printable: "0 \<le> n \<Longrightarrow> n < 224 \<Longrightarrow> printable (tochar n)"
  by (simp add: printable_ge uint_tochar)

lemma block_check_range: "0 \<le> block_check x" "block_check x < 64"
proof -
  have "block_check x = take_bit 6 (x + (drop_bit 6 x AND 3))"
    by (simp add: block_check_def take_bit_eq_mask mask_numeral)
  then show "0 \<le> block_check x" "block_check x < 64"
    using take_bit_nonnegative take_bit_int_less_exp [of 6] by simp_all
qed

section \<open>A packet on the line\<close>

definition check :: "int \<Rightarrow> byte \<Rightarrow> byte list \<Rightarrow> byte" where
  "check n t ds = tochar (block_check (uint (tochar (int (length ds) + 3)) + uint (tochar n) + uint t
     + sum_list (map uint ds)))"

definition wire :: "int \<Rightarrow> byte \<Rightarrow> byte list \<Rightarrow> byte \<Rightarrow> byte list" where
  "wire n t ds c = [XSTART_CHAR, tochar (int (length ds) + 3), tochar n, t] @ ds @ [c, END_CHAR]"

definition field_ok :: "byte \<Rightarrow> byte list \<Rightarrow> bool" where
  "field_ok t ds = (printable t \<and> (\<forall>c\<in>set ds. printable c) \<and> length ds \<le> 91)"

lemma check_printable: "printable (check n t ds)"
  unfolding check_def by (rule tochar_printable [OF block_check_range(1) order_less_trans [OF block_check_range(2)]]) simp

definition checked :: "int \<Rightarrow> byte \<Rightarrow> kermit \<Rightarrow> kermit" where
  "checked n t k = (check_sequence (k\<lparr>send_ptr := 0, pkt_n := n\<rparr>))\<lparr>k_state := t\<rparr>"

lemma wait_start_wire:
  "XSTART_CHAR \<notin> set pre \<Longrightarrow> con_in s = pre @ XSTART_CHAR # cs \<Longrightarrow> wait_start s = Inr ((), s\<lparr>con_in := cs\<rparr>)"
proof -
  assume pre: "XSTART_CHAR \<notin> set pre" and s: "con_in s = pre @ XSTART_CHAR # cs"
  have "dropWhile (\<lambda>c. c \<noteq> XSTART_CHAR) (pre @ XSTART_CHAR # cs) = XSTART_CHAR # cs"
    using pre by (induction pre) auto
  with s show ?thesis by (simp add: wait_start_def)
qed

lemma recv_wire:
  assumes s: "con_in s = pre @ wire n t ds c @ rest" "XSTART_CHAR \<notin> set pre"
    and ok: "field_ok t ds" "0 \<le> n" "n < 64" "bufs_ok k" "os_data_state (checked n t k) = 0"
  shows "\<exists>k' s'. fed ds (checked n t k, s) = (k', s') \<and> con_in s' = con_in s \<and> bufs_ok k'
    \<and> recv_packet k s =
      (if c = check n t ds then answer_packet True k' (s'\<lparr>con_in := rest\<rparr>)
       else answer_packet False k' (s'\<lparr>con_in := END_CHAR # rest\<rparr>))"
proof -
  let ?l = "tochar (int (length ds) + 3)" and ?k = "checked n t k"
  have l: "printable ?l" "untochar ?l = int (length ds) + 3" "printable (tochar n)" "untochar (tochar n) = n"
    using ok by (auto simp: field_ok_def intro!: tochar_printable untochar_tochar)
  let ?s = "s\<lparr>con_in := ds @ c # END_CHAR # rest\<rparr>"
  have bk: "bufs_ok ?k" using ok(4)
    by (simp add: checked_def check_sequence_def k_data_restore_def k_data_save_def os_data_save_def
        os_data_restore_def bufs_ok_def)
  have "con_in ?s = ds @ c # END_CHAR # rest" by simp
  from packet_rest_fed [OF this _ bk ok(5), of "uint ?l + uint (tochar n) + uint t"] ok(1)
  obtain k' z where f: "fed ds (?k, ?s) = (k', z)" "con_in z = con_in ?s" "bufs_ok k'"
    and r: "packet_rest (length ds) (uint ?l + uint (tochar n) + uint t) ?k ?s
      = packet_end (uint ?l + uint (tochar n) + uint t + sum_list (map uint ds)) k' (z\<lparr>con_in := c # END_CHAR # rest\<rparr>)"
    by (auto simp: field_ok_def)
  have frame: "fed ds (?k, ?s) = (fst (fed ds (?k, s)), (snd (fed ds (?k, s)))\<lparr>con_in := con_in ?s\<rparr>)"
    by (simp add: fed_def Let_def split_beta)
  have c: "con_in (snd (fed ds (?k, s))) = con_in s" by (simp add: fed_def Let_def split_beta)
  obtain s' where s': "fed ds (?k, s) = (k', s')" "con_in s' = con_in s" "\<And>x. z\<lparr>con_in := x\<rparr> = s'\<lparr>con_in := x\<rparr>"
  proof
    from f frame show "fed ds (?k, s) = (k', snd (fed ds (?k, s)))" by (cases "fed ds (?k, s)") simp
    from c show "con_in (snd (fed ds (?k, s))) = con_in s" .
    from f frame show "z\<lparr>con_in := x\<rparr> = (snd (fed ds (?k, s)))\<lparr>con_in := x\<rparr>" for x by auto
  qed
  have w: "wait_start s = Inr ((), s\<lparr>con_in := ?l # tochar n # t # con_in ?s\<rparr>)"
    by (rule wait_start_wire [OF s(2)]) (simp add: s(1) wire_def)
  have t: "printable t" using ok(1) by (simp add: field_ok_def)
  have rp: "read_packet (k\<lparr>send_ptr := 0\<rparr>) (s\<lparr>con_in := ?l # tochar n # t # con_in ?s\<rparr>)
    = packet_rest (length ds) (uint ?l + uint (tochar n) + uint t) ?k ?s"
    using t l by (simp add: read_packet_def with_char_ok checked_def Let_def)
  have e: "packet_end (uint ?l + uint (tochar n) + uint t + sum_list (map uint ds)) k' (z\<lparr>con_in := c # END_CHAR # rest\<rparr>)
    = (if c = check n t ds then Inr ((True, k'), s'\<lparr>con_in := rest\<rparr>)
       else Inr ((False, k'), s'\<lparr>con_in := END_CHAR # rest\<rparr>))"
  proof (cases "printable c")
    case True
    then show ?thesis by (simp add: packet_end_def with_char_ok s'(3) check_def getc_def)
  next
    case False
    then have "c \<noteq> check n t ds" using check_printable by blast
    with False show ?thesis by (simp add: packet_end_def with_char_def printable_def getc_def s'(3))
  qed
  have "recv_packet k s = (if c = check n t ds then answer_packet True k' (s'\<lparr>con_in := rest\<rparr>)
       else answer_packet False k' (s'\<lparr>con_in := END_CHAR # rest\<rparr>))"
    unfolding recv_packet_def w sbind.simps prod.case rp r e by simp
  with s' f show ?thesis by blast
qed

section \<open>A damaged packet\<close>

text \<open>
  Characters behind a start of which a receiver with the sum \<open>chk\<close> so far cannot make a packet: the
  last one is a control character, which no packet has inside, and nowhere in them does the check of
  what is before it stand in front of an end.
\<close>

fun garbled :: "int \<Rightarrow> byte list \<Rightarrow> bool" where
  "garbled chk [] = False"
| "garbled chk [c] = (\<not> printable c)"
| "garbled chk (c # d # g) =
     ((d = END_CHAR \<longrightarrow> c \<noteq> tochar (block_check chk)) \<and> garbled (chk + uint c) (d # g))"

lemma garbled_Cons: "garbled chk (c # g) \<Longrightarrow> printable c \<Longrightarrow> garbled (chk + uint c) g"
  by (cases g) auto

text \<open>The receiver stops inside them, having taken some of them for a field.\<close>

definition stops_in :: "byte list \<Rightarrow> byte list \<Rightarrow> kermit \<Rightarrow> sys \<Rightarrow> (bool \<times> kermit) result \<Rightarrow> bool" where
  "stops_in g rest k s r =
     (\<exists>ds k' z post. length ds \<le> length g \<and> set post \<subseteq> set g \<and> fed ds (k, s) = (k', z) \<and> bufs_ok k'
       \<and> r = Inr ((False, k'), z\<lparr>con_in := post @ rest\<rparr>))"

lemma fed_con_in:
  "fed ds (k, s\<lparr>con_in := x\<rparr>) = (k', z) \<Longrightarrow> fed ds (k, s) = (k', z\<lparr>con_in := con_in s\<rparr>)"
  by (auto simp: fed_def Let_def split_beta split: if_splits)

lemma stops_in_con: "stops_in g rest k (s\<lparr>con_in := x\<rparr>) r \<Longrightarrow> stops_in g rest k s r"
proof -
  assume "stops_in g rest k (s\<lparr>con_in := x\<rparr>) r"
  then obtain ds k' z post where *: "length ds \<le> length g" "set post \<subseteq> set g" "bufs_ok k'"
      "fed ds (k, s\<lparr>con_in := x\<rparr>) = (k', z)" "r = Inr ((False, k'), z\<lparr>con_in := post @ rest\<rparr>)"
    unfolding stops_in_def by blast
  from fed_con_in [OF *(4)] *(1-3,5) show ?thesis
    unfolding stops_in_def
    by (intro exI [of _ ds] exI [of _ k'] exI [of _ "z\<lparr>con_in := con_in s\<rparr>"] exI [of _ post]) simp
qed

lemma stops_in_more: "stops_in g rest k s r \<Longrightarrow> stops_in (c # g) rest k s r"
  unfolding stops_in_def by (metis le_SucI length_Cons set_subset_Cons subset_trans)

lemma stops_at_once:
  assumes "bufs_ok k" "set post \<subseteq> set g"
  shows "stops_in g rest k s (Inr ((False, k), s\<lparr>con_in := post @ rest\<rparr>))"
  unfolding stops_in_def using assms
  by (intro exI [of _ "[]"] exI [of _ k] exI [of _ s] exI [of _ post]) simp

lemma with_char_stops:
  assumes "garbled chk g" "con_in s = g @ rest" "bufs_ok k"
    and "\<And>c g'. g = c # g' \<Longrightarrow> printable c \<Longrightarrow> garbled (chk + uint c) g' \<Longrightarrow>
      stops_in g rest k (s\<lparr>con_in := g' @ rest\<rparr>) (f c (s\<lparr>con_in := g' @ rest\<rparr>))"
  shows "stops_in g rest k s (with_char k s f)"
proof -
  obtain c g' where g: "g = c # g'" using assms(1) by (cases g) auto
  show ?thesis
  proof (cases "printable c")
    case True
    from assms(4) [OF g True] garbled_Cons [of chk c g'] assms(1) True
    have "stops_in g rest k (s\<lparr>con_in := g' @ rest\<rparr>) (f c (s\<lparr>con_in := g' @ rest\<rparr>))" by (simp add: g)
    moreover have "with_char k s f = f c (s\<lparr>con_in := g' @ rest\<rparr>)"
      using assms(2) True by (intro with_char_ok) (simp_all add: g)
    ultimately show ?thesis by (simp add: stops_in_con)
  next
    case False
    then have "with_char k s f = Inr ((False, k), s\<lparr>con_in := g' @ rest\<rparr>)"
      using assms(2) by (simp add: with_char_def getc_def printable_def g)
    moreover have "set g' \<subseteq> set g" by (auto simp: g)
    ultimately show ?thesis using stops_at_once [OF assms(3)] by simp
  qed
qed

lemma packet_end_stops:
  assumes "garbled chk g" "con_in s = g @ rest" "bufs_ok k"
  shows "stops_in g rest k s (packet_end chk k s)"
  unfolding packet_end_def
proof (rule with_char_stops [OF assms])
  fix c g' assume g: "g = c # g'" "printable c" "garbled (chk + uint c) g'"
  then obtain d g'' where g': "g' = d # g''" by (cases g') auto
  have e: "c = tochar (block_check chk) \<Longrightarrow> d \<noteq> END_CHAR"
    using assms(1) by (simp add: g(1) g')
  have "set g'' \<subseteq> set g" "set g' \<subseteq> set g" using g(1) g' by auto
  from this [THEN stops_at_once [OF assms(3), of _ g rest "s\<lparr>con_in := g' @ rest\<rparr>"]]
  show "stops_in g rest k (s\<lparr>con_in := g' @ rest\<rparr>)
      (if c \<noteq> tochar (block_check chk) then Inr ((False, k), s\<lparr>con_in := g' @ rest\<rparr>)
       else sbind (getc (s\<lparr>con_in := g' @ rest\<rparr>)) (\<lambda>(c, s). Inr ((c = END_CHAR, k), s)))"
    using e by (auto simp: g' getc_def)
qed

lemma packet_rest_stops:
  "garbled chk g \<Longrightarrow> con_in s = g @ rest \<Longrightarrow> bufs_ok k \<Longrightarrow> os_data_state k = 0 \<Longrightarrow>
    stops_in g rest k s (packet_rest i chk k s)"
proof (induction i arbitrary: chk k s g)
  case 0
  then show ?case by (simp add: packet_end_stops)
next
  case (Suc i)
  show ?case unfolding packet_rest.simps
  proof (rule with_char_stops [OF Suc.prems(1-3)])
    fix c g' assume g: "g = c # g'" "printable c" "garbled (chk + uint c) g'"
    let ?s = "s\<lparr>con_in := g' @ rest\<rparr>"
    from fed_Cons [OF Suc.prems(3,4)] obtain k' s' where
      k': "packet_char c k ?s = Inr (k', s')" "bufs_ok k'" "os_data_state k' = 0" "con_in s' = g' @ rest"
      by fastforce
    have fed: "fed (c # ds) (k, ?s) = fed ds (k', s')" for ds
      using fed_Cons [OF Suc.prems(3,4), of c ?s ds] k'(1) by auto
    from Suc.IH [OF g(3) k'(4,2,3)] obtain ds k'' z post where
      "length ds \<le> length g'" "set post \<subseteq> set g'" "fed ds (k', s') = (k'', z)" "bufs_ok k''"
      "packet_rest i (chk + uint c) k' s' = Inr ((False, k''), z\<lparr>con_in := post @ rest\<rparr>)"
      unfolding stops_in_def by blast
    then show "stops_in g rest k ?s (sbind (packet_char c k ?s) (\<lambda>(k, s). packet_rest i (chk + uint c) k s))"
      unfolding stops_in_def k'(1)
      by (intro exI [of _ "c # ds"] exI [of _ k''] exI [of _ z] exI [of _ post]) (auto simp: fed g(1))
  qed
qed

lemma extended_stops:
  assumes "garbled chk g" "con_in s = g @ rest" "bufs_ok k" "os_data_state k = 0"
  shows "stops_in g rest k s (extended_packet chk k s)"
  unfolding extended_packet_def
proof (rule with_char_stops [OF assms(1-3)])
  fix hi g1 assume g1: "g = hi # g1" "garbled (chk + uint hi) g1"
  let ?s1 = "s\<lparr>con_in := g1 @ rest\<rparr>"
  have "stops_in g1 rest k ?s1 (with_char k ?s1 (\<lambda>lo s.
      with_char k s (\<lambda>c s.
        let chk = chk + uint hi + uint lo; length = untochar hi * 95 + untochar lo in
        if c \<noteq> tochar (block_check chk) then Inr ((False, k), s)
        else packet_rest (nat (length - 1)) (chk + uint c) k s)))"
  proof (rule with_char_stops [OF g1(2) _ assms(3)], simp)
    fix lo g2 assume g2: "g1 = lo # g2" "garbled (chk + uint hi + uint lo) g2"
    let ?s2 = "?s1\<lparr>con_in := g2 @ rest\<rparr>"
    have "stops_in g2 rest k ?s2 (with_char k ?s2 (\<lambda>c s.
        let chk = chk + uint hi + uint lo; length = untochar hi * 95 + untochar lo in
        if c \<noteq> tochar (block_check chk) then Inr ((False, k), s)
        else packet_rest (nat (length - 1)) (chk + uint c) k s))"
    proof (rule with_char_stops [OF g2(2) _ assms(3)], simp)
      fix c g3 assume g3: "g2 = c # g3" "garbled (chk + uint hi + uint lo + uint c) g3"
      let ?s3 = "?s2\<lparr>con_in := g3 @ rest\<rparr>"
      from packet_rest_stops [OF g3(2), of ?s3 rest k] assms(3,4)
        stops_at_once [OF assms(3) subset_refl, of g3 rest ?s3] g3(1)
      show "stops_in g2 rest k ?s3
          (let chk = chk + uint hi + uint lo; length = untochar hi * 95 + untochar lo in
           if c \<noteq> tochar (block_check chk) then Inr ((False, k), ?s3)
           else packet_rest (nat (length - 1)) (chk + uint c) k ?s3)"
        by (auto simp: Let_def intro!: stops_in_more)
    qed
    then show "stops_in g1 rest k ?s2 (with_char k ?s2 (\<lambda>c s.
        let chk = chk + uint hi + uint lo; length = untochar hi * 95 + untochar lo in
        if c \<noteq> tochar (block_check chk) then Inr ((False, k), s)
        else packet_rest (nat (length - 1)) (chk + uint c) k s))"
      unfolding g2(1) by (rule stops_in_more)
  qed
  then show "stops_in g rest k ?s1 (with_char k ?s1 (\<lambda>lo s.
      with_char k s (\<lambda>c s.
        let chk = chk + uint hi + uint lo; length = untochar hi * 95 + untochar lo in
        if c \<noteq> tochar (block_check chk) then Inr ((False, k), s)
        else packet_rest (nat (length - 1)) (chk + uint c) k s)))"
    unfolding g1(1) by (rule stops_in_more)
qed

text \<open>The packet's header is read; what follows is damaged.\<close>

lemma read_garbled:
  assumes "con_in s = l # tochar n # g @ rest" "printable l" "0 \<le> n" "n < 64"
    "garbled (uint l + uint (tochar n)) g" "bufs_ok k" "\<And>t. os_data_state (checked n t k) = 0"
  shows "\<exists>t. stops_in g rest (checked n t k) s (read_packet (k\<lparr>send_ptr := 0\<rparr>) s)"
proof -
  have n: "printable (tochar n)" "untochar (tochar n) = n"
    using assms(3,4) by (auto intro!: tochar_printable untochar_tochar)
  let ?k = "check_sequence (k\<lparr>send_ptr := 0, pkt_n := n\<rparr>)" and ?s = "s\<lparr>con_in := g @ rest\<rparr>"
  have k: "?k\<lparr>k_state := t\<rparr> = checked n t k" for t by (simp add: checked_def)
  have bk: "bufs_ok (checked n t k)" for t using assms(6)
    by (simp add: checked_def check_sequence_def k_data_restore_def k_data_save_def os_data_save_def
        os_data_restore_def bufs_ok_def)
  obtain t g' where g: "g = t # g'" using assms(5) by (cases g) auto
  have r: "read_packet (k\<lparr>send_ptr := 0\<rparr>) s = with_char ?k ?s (\<lambda>typ s.
      let k = ?k\<lparr>k_state := typ\<rparr>; chk = uint l + uint (tochar n) + uint typ in
      if untochar l - 1 - 1 = -2 then extended_packet chk k s
      else packet_rest (nat (untochar l - 1 - 1 - 1)) chk k s)"
    using assms(1,2) n(1) by (simp add: read_packet_def with_char_ok Let_def) (simp only: n(2))
  show ?thesis
  proof (cases "printable t")
    case True
    let ?s' = "s\<lparr>con_in := g' @ rest\<rparr>" and ?chk = "uint l + uint (tochar n) + uint t"
    have g': "garbled ?chk g'" using garbled_Cons [of _ t g'] assms(5) True by (simp add: g)
    have "stops_in g' rest (checked n t k) ?s' (extended_packet ?chk (checked n t k) ?s')"
      "stops_in g' rest (checked n t k) ?s' (packet_rest i ?chk (checked n t k) ?s')" for i
      using extended_stops [OF g' _ bk assms(7)] packet_rest_stops [OF g' _ bk assms(7)] by simp_all
    moreover have "read_packet (k\<lparr>send_ptr := 0\<rparr>) s =
      (if untochar l - 1 - 1 = -2 then extended_packet ?chk (checked n t k) ?s'
       else packet_rest (nat (untochar l - 1 - 1 - 1)) ?chk (checked n t k) ?s')"
      unfolding r k [symmetric] using True by (simp add: with_char_ok [of _ t "g' @ rest"] g Let_def)
    ultimately have "stops_in g' rest (checked n t k) ?s' (read_packet (k\<lparr>send_ptr := 0\<rparr>) s)" by simp
    then show ?thesis unfolding g by (blast intro: stops_in_more stops_in_con)
  next
    case False
    have c: "?k = checked n (k_state ?k) k" by (simp add: checked_def)
    have "read_packet (k\<lparr>send_ptr := 0\<rparr>) s = Inr ((False, ?k), s\<lparr>con_in := g' @ rest\<rparr>)"
      unfolding r using False by (simp add: with_char_def getc_def printable_def g)
    then have "stops_in g rest ?k s (read_packet (k\<lparr>send_ptr := 0\<rparr>) s)"
      using stops_at_once [of ?k g' g rest s] bk [of "k_state ?k"] by (auto simp: g simp flip: c)
    with c show ?thesis by metis
  qed
qed

section \<open>The replies\<close>

lemma assigns_in:
  "\<forall>a\<in>set as. fst a < length b \<Longrightarrow> \<exists>b'. assigns as b = Some b' \<and> length b' = length b"
proof (induction as arbitrary: b)
  case (Cons a as)
  from Cons.IH [of "b[fst a := snd a]"] Cons.prems show ?case by auto
qed simp

lemma close_packet_in: "len + 3 < length b \<Longrightarrow> \<exists>b'. close_packet len k b = Some b' \<and> length b' = length b"
  unfolding close_packet_def
  using assigns_in [of "[(len + 2, his_eol k), (len + 3, 0)]" "(b[len + 1 := 0])[len + 1 := _]"] by simp

lemma s1_sendpacket_out: "\<exists>out. s1_sendpacket p k s = s\<lparr>con_out := out\<rparr>"
proof -
  have "send_pad_loop i c s = s\<lparr>con_out := con_out s @ concat (replicate i (line_out [c]))\<rparr>" for i c
    by (induction i arbitrary: s) (simp_all add: putc_out [unfolded putc_def])
  then obtain out where "send_pad k s = s\<lparr>con_out := out\<rparr>" unfolding send_pad_def by blast
  then show ?thesis by (auto simp: s1_sendpacket_def serial_puts_out)
qed

lemma send_reply_ok:
  assumes "length (a_b k) = 24"
  shows "\<exists>b out. send_reply t n k s = Inr (k\<lparr>a_b := b\<rparr>, s\<lparr>con_out := out\<rparr>) \<and> length b = 24"
proof -
  have "\<exists>b. assigns [(0, XSTART_CHAR), (1, tochar 3), (2, tochar n), (3, t)] (a_b k) = Some b \<and> length b = length (a_b k)"
    by (rule assigns_in) (simp add: assms)
  then obtain b where b: "assigns [(0, XSTART_CHAR), (1, tochar 3), (2, tochar n), (3, t)] (a_b k) = Some b" "length b = 24"
    using assms by auto
  then obtain b' where b': "close_packet 3 k b = Some b'" "length b' = 24"
    using close_packet_in [of 3 b k] by auto
  obtain out where "s1_sendpacket b' (k\<lparr>a_b := b'\<rparr>) s = s\<lparr>con_out := out\<rparr>"
    using s1_sendpacket_out by blast
  with b b' show ?thesis by (auto simp: send_reply_def Let_def)
qed

lemma parm_loop_steps:
  "\<exists>reply. parm_loop parm_steps n [] k
     = (k\<lparr>his_eol := if 5 \<le> n then word_of_int (untochar (send_parms k ! 4)) else his_eol k,
          his_pad_count := if 3 \<le> n then untochar (send_parms k ! 2) else his_pad_count k,
          his_pad_char := if 4 \<le> n then ktrans (send_parms k ! 3) else his_pad_char k,
          his_quote := if 6 \<le> n then send_parms k ! 5 else his_quote k\<rparr>, reply) \<and> length reply \<le> 13"
proof -
  consider (low) "n < 6" | (high) "6 \<le> n" by linarith
  then show ?thesis
  proof cases
    case low
    then consider "n = 0" | "n = 1" | "n = 2" | "n = 3" | "n = 4" | "n = 5" by linarith
    then show ?thesis by cases (simp_all add: parm_steps_def)
  next
    case high
    then show ?thesis by (simp add: parm_steps_def)
  qed
qed

lemma handle_send_packet_ok:
  assumes "bufs_ok k"
  shows "\<exists>e c p b i out. handle_send_packet n k s
    = Inr (k\<lparr>his_eol := e, his_pad_count := c, his_pad_char := p,
        his_quote := if 6 \<le> send_ptr k then send_parms k ! 5 else K_ESCAPE, a_b := b, send_ptr := i\<rparr>,
      s\<lparr>con_out := out\<rparr>) \<and> length b = 24 \<and> i < SEND_DATA_SIZE"
proof -
  define i where "i = (if send_ptr k = SEND_DATA_SIZE - 1 then send_ptr k - 1 else send_ptr k)"
  define k0 where "k0 = (default_parms k)\<lparr>send_ptr := i\<rparr>"
  have k0: "(if send_ptr (default_parms k) = SEND_DATA_SIZE - 1
      then (default_parms k)\<lparr>send_ptr := send_ptr (default_parms k) - 1\<rparr> else default_parms k) = k0"
    by (auto simp: k0_def i_def default_parms_def)
  have i: "6 \<le> i \<longleftrightarrow> 6 \<le> send_ptr k" "i < SEND_DATA_SIZE"
    using assms by (auto simp: i_def bufs_ok_def)
  obtain e c p reply where r: "parm_loop parm_steps i [] k0
     = (k0\<lparr>his_eol := e, his_pad_count := c, his_pad_char := p,
          his_quote := if 6 \<le> i then send_parms k0 ! 5 else his_quote k0\<rparr>, reply)" "length reply \<le> 13"
    using parm_loop_steps by blast
  let ?k = "k0\<lparr>his_eol := e, his_pad_count := c, his_pad_char := p,
          his_quote := if 6 \<le> i then send_parms k0 ! 5 else his_quote k0\<rparr>"
  let ?as = "zip [4..<3 + length reply + 1] reply
             @ [(0, XSTART_CHAR), (1, tochar (int (3 + length reply))), (2, tochar n), (3, ACK_TYPE)]"
  have ab: "length (a_b ?k) = 24" using assms by (simp add: k0_def default_parms_def bufs_ok_def)
  have "\<forall>a\<in>set ?as. fst a < length (a_b ?k)" using ab r(2) by (auto dest: set_zip_leftD)
  from assigns_in [OF this] ab obtain b where b: "assigns ?as (a_b ?k) = Some b" "length b = 24" by auto
  with r(2) obtain b' where b': "close_packet (3 + length reply) ?k b = Some b'" "length b' = 24"
    using close_packet_in [of "3 + length reply" b ?k] by auto
  obtain out where out: "s1_sendpacket b' (?k\<lparr>a_b := b'\<rparr>) s = s\<lparr>con_out := out\<rparr>"
    using s1_sendpacket_out by blast
  have si: "send_ptr k0 = i" by (simp add: k0_def)
  have "handle_send_packet n k s = Inr (?k\<lparr>a_b := b'\<rparr>, s\<lparr>con_out := out\<rparr>)"
    unfolding handle_send_packet_def Let_def k0 si r(1) prod.case b(1) option.case b'(1) out ..
  moreover have "?k\<lparr>a_b := b'\<rparr> = k\<lparr>his_eol := e, his_pad_count := c, his_pad_char := p,
        his_quote := if 6 \<le> send_ptr k then send_parms k ! 5 else K_ESCAPE, a_b := b', send_ptr := i\<rparr>"
    using i by (simp add: k0_def default_parms_def)
  ultimately show ?thesis using b'(2) i(2) by (intro exI conjI) (simp only:)
qed

section \<open>A checkpoint\<close>

text \<open>
  The receiver is ready for packet \<open>n\<close> with the data up to address \<open>a\<close>: at its checkpoint, if it
  has seen the number already, or in its running state.
\<close>

definition ready :: "int \<Rightarrow> addr \<Rightarrow> kermit \<Rightarrow> bool" where
  "ready n a k =
     (bufs_ok k \<and>
      (if last_n k = n
       then os_data_state_saved k = 0 \<and> \<not> k_data_escape_saved k \<and> os_data_addr_saved k = a
       else os_data_state k = 0 \<and> \<not> k_data_escape k \<and> os_data_addr k = a))"

definition running :: "int \<Rightarrow> addr \<Rightarrow> addr \<Rightarrow> kermit \<Rightarrow> bool" where
  "running n a b k =
     (last_n k = n \<and> os_data_state_saved k = 0 \<and> \<not> k_data_escape_saved k \<and> os_data_addr_saved k = a
      \<and> os_data_state k = 0 \<and> \<not> k_data_escape k \<and> os_data_addr k = b \<and> bufs_ok k)"

lemmas checkpoint_defs = check_sequence_def k_data_restore_def k_data_save_def os_data_save_def os_data_restore_def

lemma checked_running:
  assumes "ready n a k"
  shows "running n a a (checked n t k)" "k_state (checked n t k) = t" "his_quote (checked n t k) = his_quote k"
    "pkt_n (checked n t k) = n" "send_ptr (checked n t k) = 0"
  using assms by (auto simp: ready_def running_def checked_def checkpoint_defs bufs_ok_def)

lemma running_ready: "running n a b k \<Longrightarrow> ready n a k"
  by (simp add: running_def ready_def)

lemma running_next: "running n a b k \<Longrightarrow> n' \<noteq> n \<Longrightarrow> ready n' b k"
  by (simp add: running_def ready_def)

lemma unquote_length: "length (fst (unquote q e ds)) \<le> length ds"
  by (induction q e ds rule: unquote.induct) auto

text \<open>What a field of any kind leaves as it was.\<close>

lemma fed_frame:
  assumes "fed ds (k, s) = (k', s')" "length ds \<le> 1024"
  shows "last_n k' = last_n k" "os_data_state_saved k' = os_data_state_saved k"
    "k_data_escape_saved k' = k_data_escape_saved k" "os_data_addr_saved k' = os_data_addr_saved k"
    "his_quote k' = his_quote k" "k_state k' = k_state k" "pkt_n k' = pkt_n k" "os_data_state k' = os_data_state k"
    "s' = s\<lparr>memory := memory s'\<rparr>" "x \<notin> region (os_data_addr k) 1024 \<Longrightarrow> memory s' x = memory s x"
    "k_state k \<noteq> DATA_TYPE \<Longrightarrow> s' = s \<and> os_data_addr k' = os_data_addr k \<and> k_data_escape k' = k_data_escape k"
proof -
  obtain out e where u: "unquote (his_quote k) (k_data_escape k) ds = (out, e)" by fastforce
  from assms(1) show "last_n k' = last_n k" "os_data_state_saved k' = os_data_state_saved k"
    "k_data_escape_saved k' = k_data_escape_saved k" "os_data_addr_saved k' = os_data_addr_saved k"
    "his_quote k' = his_quote k" "k_state k' = k_state k" "pkt_n k' = pkt_n k" "os_data_state k' = os_data_state k"
    "s' = s\<lparr>memory := memory s'\<rparr>"
    by (auto simp: fed_def u split: if_splits)
  show "memory s' x = memory s x" if x: "x \<notin> region (os_data_addr k) 1024"
  proof -
    have l: "length out \<le> 1024" using unquote_length [of "his_quote k" "k_data_escape k" ds] u assms(2) by simp
    with x have "x \<notin> region (os_data_addr k) (length out)" using region_mono by blast
    with l have "store_bytes (memory s) (os_data_addr k) out x = memory s x"
      by (intro memory_store_bytes) simp_all
    with assms(1) show ?thesis by (auto simp: fed_def u split: if_splits)
  qed
  show "k_state k \<noteq> DATA_TYPE \<Longrightarrow> s' = s \<and> os_data_addr k' = os_data_addr k \<and> k_data_escape k' = k_data_escape k"
    using assms(1) by (auto simp: fed_def split: if_splits)
qed

section \<open>One packet and its copies\<close>

datatype upkt = Parms "byte list" | Data "byte list" | Other byte "byte list" | Break

fun ptype :: "upkt \<Rightarrow> byte" where
  "ptype (Parms ds) = SEND_TYPE"
| "ptype (Data bs) = DATA_TYPE"
| "ptype (Other t ds) = t"
| "ptype Break = BREAK_TYPE"

fun pfield :: "byte \<Rightarrow> upkt \<Rightarrow> byte list" where
  "pfield q (Parms ds) = ds"
| "pfield q (Data bs) = concat (map (kquote q) bs)"
| "pfield q (Other t ds) = ds"
| "pfield q Break = []"

fun pdata :: "upkt \<Rightarrow> byte list" where
  "pdata (Data bs) = bs"
| "pdata _ = []"

text \<open>
  Copies of a packet on the line, each behind some noise without a start.  Of a damaged copy the start
  and the number are right and the length is some printable character; behind the number stands
  anything up to a kilobyte that ends with a control character (as the end of a packet is), has no
  start in it and is not sealed by its check.
\<close>

datatype copy = Intact "byte list" | Damaged "byte list" byte "byte list"

fun copy_bytes :: "byte \<Rightarrow> int \<Rightarrow> upkt \<Rightarrow> copy \<Rightarrow> byte list" where
  "copy_bytes q n p (Intact noise) = noise @ wire n (ptype p) (pfield q p) (check n (ptype p) (pfield q p))"
| "copy_bytes q n p (Damaged noise l g) = noise @ XSTART_CHAR # l # tochar n # g"

fun copy_ok :: "int \<Rightarrow> copy \<Rightarrow> bool" where
  "copy_ok n (Intact noise) = (XSTART_CHAR \<notin> set noise)"
| "copy_ok n (Damaged noise l g) =
     (XSTART_CHAR \<notin> set noise \<and> printable l \<and> garbled (uint l + uint (tochar n)) g
      \<and> XSTART_CHAR \<notin> set g \<and> length g \<le> 1024)"

fun upkt_ok :: "byte \<Rightarrow> upkt \<Rightarrow> bool" where
  "upkt_ok q (Parms ds) = (field_ok SEND_TYPE ds \<and> 6 \<le> length ds \<and> ds ! 5 = q)"
| "upkt_ok q (Data bs) = (length (concat (map (kquote q) bs)) \<le> 91)"
| "upkt_ok q (Other t ds) = (field_ok t ds \<and> t \<notin> {SEND_TYPE, DATA_TYPE, BREAK_TYPE})"
| "upkt_ok q Break = True"

lemma recv_damaged:
  assumes k: "ready n a k" "0 \<le> n" "n < 64" and s: "con_in s = pre @ copy_bytes q n p (Damaged noise l g) @ rest"
    and ok: "XSTART_CHAR \<notin> set pre" "copy_ok n (Damaged noise l g)"
  shows "\<exists>k' s' post. recv_packet k s = Inr ((False, k'), s') \<and> ready n a k' \<and> his_quote k' = his_quote k
    \<and> con_in s' = post @ rest \<and> XSTART_CHAR \<notin> set post
    \<and> (\<forall>x. x \<notin> region a 1024 \<longrightarrow> memory s' x = memory s x)"
proof -
  note ck = checked_running [OF k(1)]
  let ?s = "s\<lparr>con_in := l # tochar n # g @ rest\<rparr>"
  have g: "printable l" "garbled (uint l + uint (tochar n)) g" "XSTART_CHAR \<notin> set g" "length g \<le> 1024"
    and pre: "XSTART_CHAR \<notin> set (pre @ noise)"
    using ok by simp_all
  have w: "wait_start s = Inr ((), ?s)" by (rule wait_start_wire [OF pre]) (simp add: s)
  have b: "bufs_ok k" "os_data_state (checked n t k) = 0" for t
    using k(1) ck(1) by (simp_all add: ready_def running_def)
  from read_garbled [of ?s l n g rest k] g b k(2,3) obtain t ds k' z post where
    r: "length ds \<le> length g" "set post \<subseteq> set g" "fed ds (checked n t k, ?s) = (k', z)" "bufs_ok k'"
      "read_packet (k\<lparr>send_ptr := 0\<rparr>) ?s = Inr ((False, k'), z\<lparr>con_in := post @ rest\<rparr>)"
    unfolding stops_in_def by auto
  let ?z = "z\<lparr>con_in := post @ rest\<rparr>"
  have "recv_packet k s = answer_packet False k' ?z"
    unfolding recv_packet_def w sbind.simps prod.case r(5) ..
  moreover from r(1) g(4) have l: "length ds \<le> 1024" by simp
  note fr = fed_frame [OF r(3) l]
  let ?k = "k_data_restore (k'\<lparr>k_state := k_state_saved k'\<rparr>)"
  have run: "running n a a ?k" "his_quote ?k = his_quote k"
    using ck [of t] fr r(4) by (auto simp: running_def checkpoint_defs bufs_ok_def)
  then obtain b out where "send_nack (pkt_n ?k) ?k ?z = Inr (?k\<lparr>a_b := b\<rparr>, ?z\<lparr>con_out := out\<rparr>)" "length b = 24"
    using send_reply_ok [of ?k] by (fastforce simp: send_nack_def running_def bufs_ok_def)
  ultimately have "recv_packet k s = Inr ((False, ?k\<lparr>a_b := b\<rparr>), ?z\<lparr>con_out := out\<rparr>)"
    "ready n a (?k\<lparr>a_b := b\<rparr>)"
    using run by (simp_all add: answer_packet_def Let_def ready_def running_def bufs_ok_def)
  moreover have "memory z x = memory s x" if "x \<notin> region a 1024" for x
    using fr(10) [of x] that ck(1) by (simp add: running_def)
  moreover have "XSTART_CHAR \<notin> set post" using r(2) g(3) by blast
  ultimately show ?thesis using run(2)
    by (intro exI [of _ "?k\<lparr>a_b := b\<rparr>"] exI [of _ "?z\<lparr>con_out := out\<rparr>"] exI [of _ post]) simp
qed

lemma fill_parms:
  assumes "p < SEND_DATA_SIZE" "length b = SEND_DATA_SIZE"
  shows "snd (fill ds (b, p)) = min (p + length ds) 19
    \<and> (i < 19 \<longrightarrow> fst (fill ds (b, p)) ! i = (if p \<le> i \<and> i < p + length ds then ds ! (i - p) else b ! i))"
  using assms
proof (induction ds arbitrary: b p)
  case (Cons d ds)
  show ?case
  proof (cases "p = 19")
    case True
    with Cons.IH [of 19 "b[19 := d]"] Cons.prems show ?thesis by auto
  next
    case False
    with Cons.prems have p: "p + 1 < SEND_DATA_SIZE" by simp
    have "i < 19 \<longrightarrow> fst (fill ds (b[p := d], p + 1)) ! i
        = (if p + 1 \<le> i \<and> i < p + 1 + length ds then ds ! (i - (p + 1)) else b[p := d] ! i)"
      "snd (fill ds (b[p := d], p + 1)) = min (p + 1 + length ds) 19"
      using Cons.IH [of "p + 1" "b[p := d]"] p Cons.prems by auto
    moreover have "fill (d # ds) (b, p) = fill ds (b[p := d], p + 1)" using p by simp
    moreover have "i < 19 \<longrightarrow> (if p + 1 \<le> i \<and> i < p + 1 + length ds then ds ! (i - (p + 1)) else b[p := d] ! i)
      = (if p \<le> i \<and> i < p + length (d # ds) then (d # ds) ! (i - p) else b ! i)"
      using Cons.prems by (auto simp: nth_Cons' nth_list_update)
    ultimately show ?thesis by simp
  qed
qed auto

text \<open>After an intact copy the receiver is ready for the same packet again and for the next.\<close>

lemma recv_intact:
  assumes k: "ready n a k" "0 \<le> n" "n < 64" "good_quote q" "(\<forall>ds. p \<noteq> Parms ds) \<longrightarrow> his_quote k = q"
    and s: "con_in s = pre @ copy_bytes q n p (Intact noise) @ rest"
    and ok: "XSTART_CHAR \<notin> set pre" "copy_ok n (Intact noise)" "upkt_ok q p"
  shows "\<exists>k' s'. recv_packet k s = Inr ((p = Break, k'), s') \<and> running n a (a + of_nat (length (pdata p))) k'
    \<and> his_quote k' = q \<and> con_in s' = rest
    \<and> bytes_at (memory s') a (length (pdata p)) = pdata p \<and> (\<forall>x. x \<notin> region a 1024 \<longrightarrow> memory s' x = memory s x)"
proof -
  let ?t = "ptype p" and ?ds = "pfield q p"
  note ck = checked_running [OF k(1), of ?t]
  have fo: "field_ok ?t ?ds"
  proof (cases p)
    case (Data bs)
    with ok(3) kquote_printable [OF k(4)] show ?thesis by (auto simp: field_ok_def printable_ge)
  qed (use ok(3) in \<open>auto simp: field_ok_def printable_ge\<close>)
  from s ok have w: "con_in s = (pre @ noise) @ wire n ?t ?ds (check n ?t ?ds) @ rest" "XSTART_CHAR \<notin> set (pre @ noise)"
    by simp_all
  have b: "bufs_ok k" "os_data_state (checked n ?t k) = 0" using k(1) ck(1) by (simp_all add: ready_def running_def)
  obtain k' s' where
    f: "fed ?ds (checked n ?t k, s) = (k', s')" "con_in s' = con_in s" "bufs_ok k'"
      "recv_packet k s = answer_packet True k' (s'\<lparr>con_in := rest\<rparr>)"
    using recv_wire [OF w fo k(2,3) b] by auto
  from fo have l: "length ?ds \<le> 1024" by (simp add: field_ok_def)
  note fr = fed_frame [OF f(1) l]
  have mem: "memory s' x = memory s x" if "x \<notin> region a 1024" for x
    using fr(10) [of x] that ck(1) by (simp add: running_def)
  have saved: "last_n k' = n" "os_data_state_saved k' = 0" "\<not> k_data_escape_saved k'" "os_data_addr_saved k' = a"
    "os_data_state k' = 0" "k_state k' = ?t" "his_quote k' = his_quote k"
    using fr ck by (simp_all add: running_def)
  show ?thesis
  proof (cases p)
    case (Parms ds)
    with fr(11) ck have d: "s' = s" "os_data_addr k' = a" "\<not> k_data_escape k'" by (auto simp: running_def)
    have "k' = (checked n SEND_TYPE k)\<lparr>send_parms := fst (fill ds (send_parms (checked n SEND_TYPE k), 0)),
        send_ptr := snd (fill ds (send_parms (checked n SEND_TYPE k), 0))\<rparr>"
      using f(1) ck Parms by (simp add: fed_def)
    moreover have "length (send_parms (checked n SEND_TYPE k)) = SEND_DATA_SIZE"
      using ck(1) Parms by (simp add: running_def bufs_ok_def)
    ultimately have "6 \<le> send_ptr k' \<and> send_parms k' ! 5 = q"
      using ok(3) Parms fill_parms [of 0 "send_parms (checked n SEND_TYPE k)" ds 5] by simp
    with handle_send_packet_ok [OF f(3), of "pkt_n k'" "s'\<lparr>con_in := rest\<rparr>"] obtain e c pc b i out where
      h: "handle_send_packet (pkt_n k') k' (s'\<lparr>con_in := rest\<rparr>)
        = Inr (k'\<lparr>his_eol := e, his_pad_count := c, his_pad_char := pc, his_quote := q, a_b := b, send_ptr := i\<rparr>,
          s'\<lparr>con_in := rest, con_out := out\<rparr>)" "length b = 24" "i < SEND_DATA_SIZE" by auto
    with f(4) saved Parms have "recv_packet k s
      = Inr ((False, k'\<lparr>his_eol := e, his_pad_count := c, his_pad_char := pc, his_quote := q, a_b := b, send_ptr := i\<rparr>),
          s'\<lparr>con_in := rest, con_out := out\<rparr>)"
      by (simp add: answer_packet_def)
    with saved d h f(3) Parms mem show ?thesis by (simp add: running_def bufs_ok_def)
  next
    case (Data bs)
    with k(5) have q: "his_quote k = q" by simp
    have "k' = (checked n DATA_TYPE k)\<lparr>os_data_addr := a + of_nat (length bs),
        os_data_count := os_data_count (checked n DATA_TYPE k) - int (length bs), k_data_escape := False\<rparr>"
      "s' = s\<lparr>memory := store_bytes (memory s) a bs\<rparr>"
      using f(1) ck q Data unquote_quoted [OF k(4), of bs] by (auto simp: fed_def running_def)
    moreover have "length bs < 2 ^ 32"
    proof -
      have "length bs \<le> length (concat (map (kquote q) bs))"
        by (induction bs) (auto simp: kquote_def)
      with l Data show ?thesis by simp
    qed
    ultimately have d: "os_data_addr k' = a + of_nat (length bs)" "\<not> k_data_escape k'"
      "bytes_at (memory s') a (length bs) = bs" using bytes_at_store_bytes by simp_all
    obtain b out where "send_ack (pkt_n k') k' (s'\<lparr>con_in := rest\<rparr>)
        = Inr (k'\<lparr>a_b := b\<rparr>, s'\<lparr>con_in := rest, con_out := out\<rparr>)" "length b = 24"
      using send_reply_ok [of k'] f(3) by (fastforce simp: send_ack_def bufs_ok_def)
    with f(4) saved Data have "recv_packet k s = Inr ((False, k'\<lparr>a_b := b\<rparr>), s'\<lparr>con_in := rest, con_out := out\<rparr>)"
      "length b = 24" by (simp_all add: answer_packet_def)
    with saved d f(3) q Data mem show ?thesis by (simp add: running_def bufs_ok_def)
  next
    case (Other t ds)
    with fr(11) ck ok(3) have d: "s' = s" "os_data_addr k' = a" "\<not> k_data_escape k'" by (auto simp: running_def)
    obtain b out where "send_ack (pkt_n k') k' (s'\<lparr>con_in := rest\<rparr>)
        = Inr (k'\<lparr>a_b := b\<rparr>, s'\<lparr>con_in := rest, con_out := out\<rparr>)" "length b = 24"
      using send_reply_ok [of k'] f(3) by (fastforce simp: send_ack_def bufs_ok_def)
    with f(4) saved Other ok(3) have "recv_packet k s = Inr ((False, k'\<lparr>a_b := b\<rparr>), s'\<lparr>con_in := rest, con_out := out\<rparr>)"
      "length b = 24" by (simp_all add: answer_packet_def)
    with saved d f(3) k(5) Other mem show ?thesis by (simp add: running_def bufs_ok_def)
  next
    case Break
    with fr(11) ck have d: "s' = s" "os_data_addr k' = a" "\<not> k_data_escape k'" by (auto simp: running_def)
    obtain b out where "send_ack (pkt_n k') k' (s'\<lparr>con_in := rest\<rparr>)
        = Inr (k'\<lparr>a_b := b\<rparr>, s'\<lparr>con_in := rest, con_out := out\<rparr>)" "length b = 24"
      using send_reply_ok [of k'] f(3) by (fastforce simp: send_ack_def bufs_ok_def)
    with f(4) saved Break have "recv_packet k s = Inr ((True, k'\<lparr>a_b := b\<rparr>), s'\<lparr>con_in := rest, con_out := out\<rparr>)"
      "length b = 24" by (simp_all add: answer_packet_def)
    with saved d f(3) k(5) Break mem show ?thesis by (simp add: running_def bufs_ok_def)
  qed
qed

section \<open>A transmission\<close>

text \<open>\<open>arrived\<close>: what holds between packets, with \<open>xs\<close> the data so far from \<open>a0\<close>.\<close>

definition arrived :: "addr \<Rightarrow> byte list \<Rightarrow> byte list \<Rightarrow> kermit \<Rightarrow> sys \<Rightarrow> bool" where
  "arrived a0 xs rest k s =
     (bytes_at (memory s) a0 (length xs) = xs \<and>
      (\<exists>pre. XSTART_CHAR \<notin> set pre \<and> con_in s = pre @ rest))"

lemma k_recv_loop_step:
  "recv_packet k s = Inr ((fin, k'), s') \<Longrightarrow> k_recv_loop k s = (if fin then Inr (k', s') else k_recv_loop k' s')"
  by (subst k_recv_loop.simps) simp

lemma bytes_before:
  assumes "\<forall>x. x \<notin> region (a0 + of_nat (length xs)) 1024 \<longrightarrow> m' x = m x" "length xs + 1024 \<le> 2 ^ 32"
    "bytes_at m a0 (length xs) = xs"
  shows "bytes_at m' a0 (length xs) = xs"
proof -
  have "a0 + of_nat i \<notin> region (a0 + of_nat (length xs)) 1024" if "i < length xs" for i
  proof
    assume "a0 + of_nat i \<in> region (a0 + of_nat (length xs)) 1024"
    then obtain j where j: "a0 + of_nat i = a0 + of_nat (length xs) + of_nat j" "j < 1024"
      by (auto simp: region_def)
    then have "a0 + of_nat i = a0 + of_nat (length xs + j)" by (simp add: add.assoc)
    with j assms(2) that show False using of_nat_word_inj [of i "length xs + j" a0] by simp
  qed
  with assms(1) have "bytes_at m' a0 (length xs) = bytes_at m a0 (length xs)"
    by (intro bytes_at_eqI) simp
  with assms(3) show ?thesis by simp
qed

text \<open>Copies that do not end the transmission change nothing that was acknowledged before.\<close>

lemma recv_copies:
  assumes "\<forall>c\<in>set cs. copy_ok n c" "p \<noteq> Break \<or> (\<forall>c\<in>set cs. \<forall>noise. c \<noteq> Intact noise)"
    "ready n (a0 + of_nat (length xs)) k" "0 \<le> n" "n < 64" "good_quote q"
    "(\<forall>ds. p \<noteq> Parms ds) \<longrightarrow> his_quote k = q" "upkt_ok q p" "length xs + 1024 \<le> 2 ^ 32"
    "arrived a0 xs (concat (map (copy_bytes q n p) cs) @ rest) k s"
  shows "\<exists>k' s'. k_recv_loop k s = k_recv_loop k' s' \<and> ready n (a0 + of_nat (length xs)) k'
    \<and> ((\<forall>ds. p \<noteq> Parms ds) \<longrightarrow> his_quote k' = q) \<and> arrived a0 xs rest k' s'"
  using assms
proof (induction cs arbitrary: k s)
  case Nil
  then show ?case by auto
next
  case (Cons c cs)
  let ?a = "a0 + of_nat (length xs)" and ?tail = "concat (map (copy_bytes q n p) cs) @ rest"
  from Cons.prems(10) obtain pre where
    s: "bytes_at (memory s) a0 (length xs) = xs" "XSTART_CHAR \<notin> set pre" "con_in s = pre @ copy_bytes q n p c @ ?tail"
    by (auto simp: arrived_def)
  have "\<exists>k' s' post. recv_packet k s = Inr ((False, k'), s') \<and> ready n ?a k' \<and>
      ((\<forall>ds. p \<noteq> Parms ds) \<longrightarrow> his_quote k' = q) \<and> con_in s' = post @ ?tail \<and> XSTART_CHAR \<notin> set post
      \<and> (\<forall>x. x \<notin> region ?a 1024 \<longrightarrow> memory s' x = memory s x)"
  proof (cases c)
    case (Intact noise)
    with Cons.prems(2) have "p \<noteq> Break" by auto
    then show ?thesis
      using recv_intact [OF Cons.prems(3,4,5,6,7) s(3)[unfolded Intact] s(2) _ Cons.prems(8)] Cons.prems(1) Intact
      by (fastforce dest: running_ready)
  next
    case (Damaged noise l g)
    from recv_damaged [OF Cons.prems(3,4,5) s(3)[unfolded Damaged] s(2)] Cons.prems(1) Damaged
    obtain k' s' post where "recv_packet k s = Inr ((False, k'), s')" "ready n ?a k'" "his_quote k' = his_quote k"
      "con_in s' = post @ ?tail" "XSTART_CHAR \<notin> set post" "\<forall>x. x \<notin> region ?a 1024 \<longrightarrow> memory s' x = memory s x"
      by auto
    with Cons.prems(7) show ?thesis by blast
  qed
  then obtain k' s' post where
    r: "recv_packet k s = Inr ((False, k'), s')" "ready n ?a k'" "(\<forall>ds. p \<noteq> Parms ds) \<longrightarrow> his_quote k' = q"
      "con_in s' = post @ ?tail" "XSTART_CHAR \<notin> set post" "\<forall>x. x \<notin> region ?a 1024 \<longrightarrow> memory s' x = memory s x"
    by blast
  have "arrived a0 xs ?tail k' s'"
    using bytes_before [OF r(6) Cons.prems(9) s(1)] r(4,5) by (auto simp: arrived_def)
  with Cons.IH [of k' s'] Cons.prems r(2,3) k_recv_loop_step [OF r(1)] show ?case by auto
qed

text \<open>A packet whose last copy is intact.\<close>

lemma recv_sent:
  assumes "\<forall>c\<in>set cs. copy_ok n c" "XSTART_CHAR \<notin> set noise" "p \<noteq> Break"
    "ready n (a0 + of_nat (length xs)) k" "0 \<le> n" "n < 64" "good_quote q"
    "(\<forall>ds. p \<noteq> Parms ds) \<longrightarrow> his_quote k = q" "upkt_ok q p" "length xs + 1024 \<le> 2 ^ 32"
    "arrived a0 xs (concat (map (copy_bytes q n p) (cs @ [Intact noise])) @ rest) k s"
  shows "\<exists>k' s'. k_recv_loop k s = k_recv_loop k' s'
    \<and> running n (a0 + of_nat (length xs)) (a0 + of_nat (length (xs @ pdata p))) k'
    \<and> his_quote k' = q \<and> arrived a0 (xs @ pdata p) rest k' s'"
proof -
  let ?a = "a0 + of_nat (length xs)"
  from recv_copies [OF assms(1) _ assms(4-10), of "copy_bytes q n p (Intact noise) @ rest" s] assms(3,11)
  obtain k1 s1 where
    1: "k_recv_loop k s = k_recv_loop k1 s1" "ready n ?a k1" "(\<forall>ds. p \<noteq> Parms ds) \<longrightarrow> his_quote k1 = q"
      "arrived a0 xs (copy_bytes q n p (Intact noise) @ rest) k1 s1" by auto
  then obtain pre where
    s1: "bytes_at (memory s1) a0 (length xs) = xs" "XSTART_CHAR \<notin> set pre"
      "con_in s1 = pre @ copy_bytes q n p (Intact noise) @ rest" by (auto simp: arrived_def)
  from recv_intact [OF 1(2) assms(5,6,7) 1(3) s1(3) s1(2) _ assms(9)] assms(2,3) obtain k' s' where
    2: "recv_packet k1 s1 = Inr ((False, k'), s')" "running n ?a (?a + of_nat (length (pdata p))) k'"
      "his_quote k' = q" "con_in s' = rest" "bytes_at (memory s') ?a (length (pdata p)) = pdata p"
      "\<forall>x. x \<notin> region ?a 1024 \<longrightarrow> memory s' x = memory s1 x" by auto
  have "bytes_at (memory s') a0 (length xs) = xs" by (rule bytes_before [OF 2(6) assms(10) s1(1)])
  moreover have "bytes_at (memory s') a0 (length xs + length (pdata p))
      = bytes_at (memory s') a0 (length xs) @ bytes_at (memory s') ?a (length (pdata p))"
    by (rule bytes_at_append)
  ultimately have "arrived a0 (xs @ pdata p) rest k' s'" using 2(4,5) by (auto simp: arrived_def)
  with 1(1) 2 k_recv_loop_step [OF 2(1)] show ?thesis by (auto simp: add.assoc)
qed

text \<open>
  A sender's packets from number \<open>n\<close>, each with the damaged or repeated copies before its last one
  and the noise before that.
\<close>

type_synonym sent = "upkt \<times> copy list \<times> byte list"

fun line :: "byte \<Rightarrow> int \<Rightarrow> sent list \<Rightarrow> byte list" where
  "line q n [] = []"
| "line q n ((p, cs, noise) # ps) =
     concat (map (copy_bytes q n p) (cs @ [Intact noise])) @ line q ((n + 1) mod 64) ps"

fun sent_ok :: "byte \<Rightarrow> int \<Rightarrow> sent list \<Rightarrow> bool" where
  "sent_ok q n [] = True"
| "sent_ok q n ((p, cs, noise) # ps) =
     ((\<forall>c\<in>set cs. copy_ok n c) \<and> XSTART_CHAR \<notin> set noise \<and> upkt_ok q p \<and> p \<noteq> Break
      \<and> sent_ok q ((n + 1) mod 64) ps)"

definition content :: "sent list \<Rightarrow> byte list" where
  "content ps = concat (map (\<lambda>p. pdata (fst p)) ps)"

lemma recv_line:
  assumes "sent_ok q n ps" "0 \<le> n" "n < 64" "good_quote q" "ready n (a0 + of_nat (length xs)) k"
    "his_quote k = q \<or> (\<exists>ds x ps'. ps = (Parms ds, x) # ps')" "length xs + length (content ps) + 1024 \<le> 2 ^ 32"
    "arrived a0 xs (line q n ps @ rest) k s" "ps \<noteq> [] \<or> his_quote k = q"
  shows "\<exists>k' s'. k_recv_loop k s = k_recv_loop k' s'
    \<and> ready ((n + int (length ps)) mod 64) (a0 + of_nat (length (xs @ content ps))) k'
    \<and> his_quote k' = q \<and> arrived a0 (xs @ content ps) rest k' s'"
  using assms
proof (induction ps arbitrary: n xs k s)
  case Nil
  then show ?case by (auto simp: content_def)
next
  case (Cons sp ps)
  obtain p cs noise where sp: "sp = (p, cs, noise)" by (cases sp) auto
  let ?n = "(n + 1) mod 64"
  have q: "(\<forall>ds. p \<noteq> Parms ds) \<longrightarrow> his_quote k = q" using Cons.prems(6) sp by auto
  have ok: "\<forall>c\<in>set cs. copy_ok n c" "XSTART_CHAR \<notin> set noise" "p \<noteq> Break" "upkt_ok q p" "sent_ok q ?n ps"
    using Cons.prems(1) sp by auto
  have len: "length xs + 1024 \<le> 2 ^ 32" "length (xs @ pdata p) + length (content ps) + 1024 \<le> 2 ^ 32"
    using Cons.prems(7) sp by (auto simp: content_def)
  have arr: "arrived a0 xs (concat (map (copy_bytes q n p) (cs @ [Intact noise])) @ line q ?n ps @ rest) k s"
    using Cons.prems(8) sp by simp
  from recv_sent [OF ok(1-3) Cons.prems(5,2,3,4) q ok(4) len(1) arr] obtain k1 s1 where
    1: "k_recv_loop k s = k_recv_loop k1 s1" "running n (a0 + of_nat (length xs)) (a0 + of_nat (length (xs @ pdata p))) k1"
      "his_quote k1 = q" "arrived a0 (xs @ pdata p) (line q ?n ps @ rest) k1 s1" by blast
  have n: "0 \<le> ?n" "?n < 64" by simp_all
  have "?n \<noteq> n"
    using Cons.prems(2,3) by (cases "n = 63") (simp_all add: mod_pos_pos_trivial)
  from running_next [OF 1(2) this] Cons.IH [OF ok(5) n Cons.prems(4) _ _ len(2) 1(4)] 1(3)
  obtain k' s' where
    2: "k_recv_loop k1 s1 = k_recv_loop k' s'" "ready ((?n + int (length ps)) mod 64) (a0 + of_nat (length ((xs @ pdata p) @ content ps))) k'"
      "his_quote k' = q" "arrived a0 ((xs @ pdata p) @ content ps) rest k' s'" by blast
  have "(?n + int (length ps)) mod 64 = (n + 1 + int (length ps)) mod 64" by (rule mod_add_left_eq)
  also have "n + 1 + int (length ps) = n + int (length (sp # ps))" by simp
  finally have "(?n + int (length ps)) mod 64 = (n + int (length (sp # ps))) mod 64" .
  moreover have "content (sp # ps) = pdata p @ content ps" by (simp add: content_def sp)
  ultimately show ?case using 1(1) 2 by (intro exI [of _ k'] exI [of _ s']) simp
qed

text \<open>
  C17: Kermit delivers the file over a line that damages and repeats packets, where the starts and the
  numbers come through.  Every packet may be sent any number of times before its last copy arrives
  intact.  An earlier copy is intact as well (its acknowledgement was lost) or damaged: its number is
  right and its length is some printable character, and behind the number stands anything up to a
  kilobyte that ends with a control character, has no start in it, and nowhere a check that fits.
  Between the copies there may be noise without a start.  Then \<open>load_serial_bin\<close> returns and the file
  stands in memory at the offset, byte for byte.  The condition is needed: a start in the noise makes
  the receiver discard data it has acknowledged (\<open>loadb_noise_discards_data\<close>).
\<close>

theorem loadb_delivers_file:
  assumes "length (a_b k) = 24" "length (send_parms k) = SEND_DATA_SIZE" "good_quote q"
    and "sent_ok q 0 ((Parms ds, cs, noise) # ps)" "length (content ps) + 1024 \<le> 2 ^ 32"
    and "\<forall>c\<in>set damaged. copy_ok (int (length ps + 1) mod 64) c \<and> (\<forall>x. c \<noteq> Intact x)"
    and "XSTART_CHAR \<notin> set noise'"
    and "con_in s = line q 0 ((Parms ds, cs, noise) # ps)
      @ concat (map (copy_bytes q (int (length ps + 1) mod 64) Break) (damaged @ [Intact noise'])) @ rest"
  shows "\<exists>k' s'. load_serial_bin a0 k s = Inr ((a0, k'), s')
    \<and> bytes_at (memory s') a0 (length (content ps)) = content ps \<and> con_in s' = rest"
proof -
  let ?ps = "(Parms ds, cs, noise) # ps" and ?n = "int (length ps + 1) mod 64" and ?xs = "content ps"
  let ?fin = "concat (map (copy_bytes q ?n Break) (damaged @ [Intact noise'])) @ rest"
  obtain k0 where k0: "k_recv (set_kerm_bin_mode a0 k) s = k_recv_loop k0 s"
    "ready 0 (a0 + of_nat (length ([] :: byte list))) k0"
  proof
    let ?k0 = "let k = default_parms (set_kerm_bin_mode a0 k);
          k = k_data_init (k\<lparr>k_state := 0\<rparr>);
          k = k_data_save (k\<lparr>k_state_saved := k_state k\<rparr>)
      in k\<lparr>pkt_n := 0, last_n := -1, send_ptr := 0\<rparr>"
    let ?k1 = "let k = default_parms (set_kerm_bin_mode a0 k);
          k = k_data_init (k\<lparr>k_state := 0\<rparr>);
          k = k_data_save (k\<lparr>k_state_saved := k_state k\<rparr>)
      in k\<lparr>pkt_n := 0, last_n := -1\<rparr>"
    have "recv_packet ?k1 s = recv_packet ?k0 s" by (simp add: recv_packet_def Let_def)
    then have "k_recv_loop ?k1 s = k_recv_loop ?k0 s" by (simp only: k_recv_loop.simps [of _ s])
    then show "k_recv (set_kerm_bin_mode a0 k) s = k_recv_loop ?k0 s" by (simp add: k_recv_def Let_def)
    show "ready 0 (a0 + of_nat (length ([] :: byte list))) ?k0"
      using assms(1,2) by (simp add: ready_def default_parms_def set_kerm_bin_mode_def k_data_init_def
          bin_data_init_def checkpoint_defs bufs_ok_def Let_def)
  qed
  have c: "content ?ps = ?xs" by (simp add: content_def)
  have "arrived a0 [] (line q 0 ?ps @ ?fin) k0 s"
    using assms(8) by (auto simp: arrived_def intro!: exI [of _ "[]"])
  from recv_line [OF assms(4) _ _ assms(3) k0(2) _ _ this] assms(5) obtain k1 s1 where
    1: "k_recv_loop k0 s = k_recv_loop k1 s1" "ready ?n (a0 + of_nat (length ?xs)) k1" "his_quote k1 = q"
      "arrived a0 ?xs ?fin k1 s1"
    unfolding c by (auto simp: add.commute)
  have n: "0 \<le> ?n" "?n < 64" by simp_all
  have d: "\<forall>c\<in>set damaged. copy_ok ?n c" "\<forall>c\<in>set damaged. \<forall>x. c \<noteq> Intact x" using assms(6) by auto
  have "arrived a0 ?xs (concat (map (copy_bytes q ?n Break) damaged)
      @ copy_bytes q ?n Break (Intact noise') @ rest) k1 s1" using 1(4) by simp
  from recv_copies [OF d(1) _ 1(2) n assms(3) _ _ assms(5) this] d(2) 1(3) obtain k2 s2 pre where
    2: "k_recv_loop k1 s1 = k_recv_loop k2 s2" "ready ?n (a0 + of_nat (length ?xs)) k2" "his_quote k2 = q"
      "bytes_at (memory s2) a0 (length ?xs) = ?xs" "XSTART_CHAR \<notin> set pre"
      "con_in s2 = pre @ copy_bytes q ?n Break (Intact noise') @ rest"
    by (auto simp: arrived_def)
  from recv_intact [OF 2(2) n assms(3) _ 2(6,5)] 2(3) assms(7) obtain k3 s3 where
    3: "recv_packet k2 s2 = Inr ((True, k3), s3)" "con_in s3 = rest"
      "\<forall>x. x \<notin> region (a0 + of_nat (length ?xs)) 1024 \<longrightarrow> memory s3 x = memory s2 x" by auto
  have "bytes_at (memory s3) a0 (length ?xs) = ?xs" by (rule bytes_before [OF 3(3) assms(5) 2(4)])
  with 1(1) 2(1) 3 k_recv_loop_step [OF 3(1)] k0(1) show ?thesis by (simp add: load_serial_bin_def)
qed

definition noisy_session :: "sent list" where
  "noisy_session =
     [(Parms (lit ''~* @-#N1''), [], []),
      (Other (ch CHR ''F'') (lit ''A.BIN''), [Damaged [] 0x28 (lit ''FA'' @ [END_CHAR])], []),
      (Data [0x23, 0, 0x8D, 0x41], [Intact [], Damaged [0x55] 0x20 (lit ''Dxyzzy '' @ [0, END_CHAR])], []),
      (Data [0xFF], [], [0x0A, 0x55]),
      (Other (ch CHR ''Z'') [], [], [])]"

theorem loadb_delivers_file_witness:
  "\<exists>k' s'. load_serial_bin 0xC0000000 kermit_bss
       ((reset_sys 0)\<lparr>con_in := line 0x23 0 noisy_session @ concat (map (copy_bytes 0x23 5 Break) ([] @ [Intact []])) @ []\<rparr>)
     = Inr ((0xC0000000, k'), s')
   \<and> bytes_at (memory s') 0xC0000000 5 = [0x23, 0, 0x8D, 0x41, 0xFF]"
proof -
  have c: "content (tl noisy_session) = [0x23, 0, 0x8D, 0x41, 0xFF]" by (simp add: content_def noisy_session_def)
  have n: "noisy_session = (Parms (lit ''~* @-#N1''), [], []) # tl noisy_session" by (simp add: noisy_session_def)
  have l5: "length [0x23, 0, 0x8D, 0x41, 0xFF :: byte] = 5" by simp
  have l: "int (length (tl noisy_session) + 1) mod 64 = 5" by (simp add: noisy_session_def)
  have k: "length (a_b kermit_bss) = 24" "length (send_parms kermit_bss) = SEND_DATA_SIZE" "good_quote 0x23"
    by (simp_all add: kermit_bss_def good_quote_def ktrans_def)
  have "copy_ok 1 (Damaged [] 0x28 (lit ''FA'' @ [END_CHAR]))"
    "copy_ok 2 (Damaged [0x55] 0x20 (lit ''Dxyzzy '' @ [0, END_CHAR]))"
    by (simp_all add: tochar_def lit_def block_check_def printable_def)
  then have s: "sent_ok 0x23 0 ((Parms (lit ''~* @-#N1''), [], []) # tl noisy_session)"
    by (simp add: noisy_session_def field_ok_def printable_def lit_def kquote_def del: garbled.simps)
  show ?thesis
    using loadb_delivers_file [OF k s, of "[]" "[]"
      "(reset_sys 0)\<lparr>con_in := line 0x23 0 noisy_session @ concat (map (copy_bytes 0x23 5 Break) ([] @ [Intact []])) @ []\<rparr>"
      "[]" "0xC0000000"]
    unfolding c l5 l n [symmetric] by auto
qed

section \<open>Any input\<close>

text \<open>The operation returns with its buffers in shape, or waits.\<close>

definition stays :: "(bool \<times> kermit) result \<Rightarrow> bool" where
  "stays r = (case r of Inl e \<Rightarrow> e = NoInput | Inr x \<Rightarrow> bufs_ok (snd (fst x)))"

lemma stays_simps [simp]:
  "stays (Inr x) = bufs_ok (snd (fst x))" "stays (Inl e) = (e = NoInput)"
  by (simp_all add: stays_def)

lemma with_char_stays: "bufs_ok k \<Longrightarrow> (\<And>c s. stays (f c s)) \<Longrightarrow> stays (with_char k s f)"
  by (simp add: with_char_def getc_def split: list.splits)

lemma packet_char_bufs:
  assumes "bufs_ok k"
  shows "\<exists>k' s'. packet_char c k s = Inr (k', s') \<and> bufs_ok k'"
proof -
  have "bufs_ok (fst (k_data_char c (k, s)))" using assms
    by (simp add: k_data_char_def bin_data_char_def bufs_ok_def Let_def split_beta)
  moreover have "send_ptr k + 1 \<le> SEND_DATA_SIZE" using assms by (simp add: bufs_ok_def)
  ultimately show ?thesis using assms
    by (cases "k_data_char c (k, s)") (auto simp: packet_char_def Let_def bufs_ok_def)
qed

lemma packet_end_stays: "bufs_ok k \<Longrightarrow> stays (packet_end chk k s)"
  unfolding packet_end_def by (rule with_char_stays) (auto simp: getc_def split: list.splits)

lemma packet_rest_stays: "bufs_ok k \<Longrightarrow> stays (packet_rest i chk k s)"
proof (induction i arbitrary: chk k s)
  case 0
  then show ?case by (simp add: packet_end_stays)
next
  case (Suc i)
  have "stays (sbind (packet_char c k s) (\<lambda>(k, s). packet_rest i (chk + uint c) k s))" for c s
    using packet_char_bufs [OF Suc.prems, of c s] Suc.IH by auto
  with Suc.prems show ?case by (simp add: with_char_stays)
qed

lemma read_packet_stays:
  assumes "bufs_ok k"
  shows "stays (read_packet k s)"
proof -
  have c: "bufs_ok (check_sequence (k\<lparr>pkt_n := n\<rparr>))" "bufs_ok (check_sequence (k\<lparr>pkt_n := n\<rparr>)\<lparr>k_state := t\<rparr>)" for n t
    using assms by (auto simp: checkpoint_defs bufs_ok_def)
  have "stays (extended_packet chk k s)" if "bufs_ok k" for chk k s
    unfolding extended_packet_def Let_def by (intro with_char_stays) (auto simp: packet_rest_stays that)
  with c assms show ?thesis
    unfolding read_packet_def Let_def by (intro with_char_stays) (auto simp: packet_rest_stays)
qed

lemma answer_packet_stays:
  assumes "bufs_ok k"
  shows "stays (answer_packet ok k s)"
proof -
  let ?r = "k_data_restore (k\<lparr>k_state := k_state_saved k\<rparr>)"
  have r: "bufs_ok ?r" using assms by (simp add: checkpoint_defs bufs_ok_def)
  have reply: "stays (sbind (send_reply t n k s) (\<lambda>(k, s). Inr ((fin k, k), s)))" if "bufs_ok k" for t n k s fin
    using send_reply_ok [of k t n s] that by (auto simp: bufs_ok_def)
  have parms: "stays (sbind (handle_send_packet n k s) (\<lambda>(k, s). Inr ((False, k), s)))" for n
    using handle_send_packet_ok [OF assms, of n s] assms by (auto simp: bufs_ok_def)
  show ?thesis
    using reply [OF r] reply [OF assms] parms by (simp add: answer_packet_def send_ack_def send_nack_def Let_def)
qed

lemma recv_packet_stays:
  assumes "bufs_ok (k\<lparr>send_ptr := 0\<rparr>)"
  shows "stays (recv_packet k s)"
proof (cases "wait_start s")
  case (Inl e)
  then show ?thesis by (auto simp: recv_packet_def wait_start_def split: list.splits)
next
  case (Inr x)
  then obtain s1 where 1: "wait_start s = Inr ((), s1)" by (cases x) auto
  from read_packet_stays [OF assms, of s1] answer_packet_stays show ?thesis
    by (cases "read_packet (k\<lparr>send_ptr := 0\<rparr>) s1") (auto simp: recv_packet_def 1)
qed

lemma k_recv_loop_bufs:
  "bufs_ok (k\<lparr>send_ptr := 0\<rparr>) \<Longrightarrow>
    (\<exists>k' s'. k_recv_loop k s = Inr (k', s') \<and> bufs_ok k') \<or> k_recv_loop k s = Inl NoInput"
proof (induction k s rule: k_recv_loop.induct)
  case (1 k s)
  from recv_packet_stays [OF 1(2), of s] show ?case
  proof (cases "recv_packet k s")
    case (Inl e)
    with recv_packet_stays [OF 1(2), of s] show ?thesis by (simp add: k_recv_loop.simps [of k s])
  next
    case (Inr x)
    then obtain fin k' s' where r: "recv_packet k s = Inr ((fin, k'), s')" by (cases x) auto
    with recv_packet_stays [OF 1(2), of s] have k': "bufs_ok k'" by simp
    then have "bufs_ok (k'\<lparr>send_ptr := 0\<rparr>)" by (simp add: bufs_ok_def)
    with 1(1) [OF r] k' show ?thesis by (cases fin) (simp_all add: k_recv_loop_step [OF r])
  qed
qed

text \<open>
  C18: whatever arrives on the line, the receiver stays inside its two buffers, and it returns or
  waits for more input: it neither stops nor loops.
\<close>

theorem loadb_stays_in_buffers:
  assumes "length (a_b k) = 24" "length (send_parms k) = SEND_DATA_SIZE"
  shows "(\<exists>k' s'. load_serial_bin a0 k s = Inr ((a0, k'), s')
      \<and> length (a_b k') = 24 \<and> length (send_parms k') = SEND_DATA_SIZE \<and> send_ptr k' < SEND_DATA_SIZE)
    \<or> load_serial_bin a0 k s = Inl NoInput"
proof -
  have "(\<exists>k' s'. k_recv (set_kerm_bin_mode a0 k) s = Inr (k', s') \<and> bufs_ok k')
      \<or> k_recv (set_kerm_bin_mode a0 k) s = Inl NoInput"
    unfolding k_recv_def Let_def
    by (rule k_recv_loop_bufs) (simp add: assms default_parms_def set_kerm_bin_mode_def k_data_init_def
        bin_data_init_def checkpoint_defs bufs_ok_def)
  then show ?thesis by (auto simp: load_serial_bin_def bufs_ok_def)
qed

theorem loadb_stays_in_buffers_witness:
  "load_serial_bin 0 kermit_bss (reset_sys 0) = Inl NoInput \<or>
    (\<exists>k' s'. load_serial_bin 0 kermit_bss (reset_sys 0) = Inr ((0, k'), s') \<and> send_ptr k' < SEND_DATA_SIZE)"
  using loadb_stays_in_buffers [of kermit_bss 0 "reset_sys 0"] by (auto simp: kermit_bss_def)

text \<open>
  C19: a byte below the space where the length belongs, right behind a start character, takes the
  receiver back to the checkpoint of the packet before, which was acknowledged already: the data of
  the next packet is written over the data of that one.
\<close>

theorem loadb_noise_discards_data:
  assumes "ready n a k" "0 \<le> n" "n < 64" "good_quote q" "his_quote k = q"
    and "upkt_ok q (Data xs)" "upkt_ok q (Data ys)" "c AND 0xE0 = 0"
    and "con_in s = copy_bytes q n (Data xs) (Intact []) @ [XSTART_CHAR, c]
      @ copy_bytes q ((n + 1) mod 64) (Data ys) (Intact []) @ rest"
  shows "\<exists>k' s'. k_recv_loop k s = k_recv_loop k' s' \<and> con_in s' = rest
    \<and> bytes_at (memory s') a (length ys) = ys \<and> os_data_addr k' = a + of_nat (length ys)"
proof -
  let ?n = "(n + 1) mod 64" and ?tail = "copy_bytes q ((n + 1) mod 64) (Data ys) (Intact []) @ rest"
  have s: "con_in s = [] @ copy_bytes q n (Data xs) (Intact []) @ (XSTART_CHAR # c # ?tail)"
    using assms(9) by simp
  from recv_intact [OF assms(1-4) _ s _ _ assms(6)] assms(5) obtain k1 s1 where
    1: "recv_packet k s = Inr ((False, k1), s1)" "running n a (a + of_nat (length xs)) k1" "his_quote k1 = q"
      "con_in s1 = XSTART_CHAR # c # ?tail" by auto
  let ?k1 = "k1\<lparr>send_ptr := 0\<rparr>"
  let ?k = "k_data_restore (?k1\<lparr>k_state := k_state_saved ?k1\<rparr>)"
  have "length (a_b ?k) = 24" using 1(2) by (simp add: running_def bufs_ok_def checkpoint_defs)
  from send_reply_ok [OF this, of NACK_TYPE "pkt_n ?k" "s1\<lparr>con_in := ?tail\<rparr>"] obtain b out where
    r: "send_nack (pkt_n ?k) ?k (s1\<lparr>con_in := ?tail\<rparr>)
      = Inr (?k\<lparr>a_b := b\<rparr>, s1\<lparr>con_in := ?tail, con_out := out\<rparr>)" "length b = 24"
    by (auto simp: send_nack_def)
  have "wait_start s1 = Inr ((), s1\<lparr>con_in := c # ?tail\<rparr>)" using 1(4) by (simp add: wait_start_def)
  moreover have "read_packet (k1\<lparr>send_ptr := 0\<rparr>) (s1\<lparr>con_in := c # ?tail\<rparr>)
      = Inr ((False, k1\<lparr>send_ptr := 0\<rparr>), s1\<lparr>con_in := ?tail\<rparr>)"
    using assms(8) by (simp add: read_packet_def with_char_def getc_def)
  ultimately have "recv_packet k1 s1 = sbind (send_nack (pkt_n ?k) ?k (s1\<lparr>con_in := ?tail\<rparr>))
      (\<lambda>(k, s). Inr ((False, k), s))"
    by (simp only: recv_packet_def sbind.simps prod.case answer_packet_def Let_def not_False_eq_True if_True
        kermit.simps)
  with r have 2: "recv_packet k1 s1 = Inr ((False, ?k\<lparr>a_b := b\<rparr>), s1\<lparr>con_in := ?tail, con_out := out\<rparr>)"
    by simp
  have "running n a a (?k\<lparr>a_b := b\<rparr>)" "his_quote (?k\<lparr>a_b := b\<rparr>) = q"
    using 1(2,3) r(2) by (simp_all add: running_def bufs_ok_def checkpoint_defs)
  moreover have n: "?n \<noteq> n" "0 \<le> ?n" "?n < 64"
    using assms(2,3) by (cases "n = 63", simp_all add: mod_pos_pos_trivial)
  ultimately have k2: "ready ?n a (?k\<lparr>a_b := b\<rparr>)" "his_quote (?k\<lparr>a_b := b\<rparr>) = q"
    using running_next by blast+
  let ?s2 = "s1\<lparr>con_in := ?tail, con_out := out\<rparr>"
  have "con_in ?s2 = [] @ copy_bytes q ?n (Data ys) (Intact []) @ rest" by simp
  from recv_intact [OF k2(1) n(2,3) assms(4) _ this _ _ assms(7)] k2(2) obtain k3 s3 where
    3: "recv_packet (?k\<lparr>a_b := b\<rparr>) ?s2 = Inr ((False, k3), s3)" "running ?n a (a + of_nat (length ys)) k3"
      "con_in s3 = rest" "bytes_at (memory s3) a (length ys) = ys" by auto
  have "k_recv_loop k s = k_recv_loop k3 s3"
    by (simp only: k_recv_loop_step [OF 1(1)] k_recv_loop_step [OF 2] k_recv_loop_step [OF 3(1)] if_False)
  with 3 show ?thesis by (auto simp: running_def)
qed

lemma fresh_ready: "ready 0 0 (kermit_bss\<lparr>his_quote := 0x23, last_n := -1\<rparr>)"
  by (simp add: ready_def kermit_bss_def bufs_ok_def)

theorem loadb_noise_discards_data_witness:
  "\<exists>k' s'. k_recv_loop (kermit_bss\<lparr>his_quote := 0x23, last_n := -1\<rparr>)
      ((reset_sys 0)\<lparr>con_in := copy_bytes 0x23 0 (Data (lit ''AB'')) (Intact []) @ [XSTART_CHAR, 5]
        @ copy_bytes 0x23 1 (Data (lit ''CD'')) (Intact []) @ []\<rparr>) = k_recv_loop k' s'
    \<and> bytes_at (memory s') 0 2 = lit ''CD'' \<and> os_data_addr k' = 2"
proof -
  have "good_quote 0x23" "upkt_ok 0x23 (Data (lit ''AB''))" "upkt_ok 0x23 (Data (lit ''CD''))"
    by (simp_all add: good_quote_def ktrans_def lit_def kquote_def)
  moreover have "length (lit ''CD'') = 2" by (simp add: lit_def)
  ultimately show ?thesis
    using loadb_noise_discards_data [OF fresh_ready, of "0x23" "lit ''AB''" "lit ''CD''" 5
      "(reset_sys 0)\<lparr>con_in := copy_bytes 0x23 0 (Data (lit ''AB'')) (Intact []) @ [XSTART_CHAR, 5]
        @ copy_bytes 0x23 1 (Data (lit ''CD'')) (Intact []) @ []\<rparr>" "[]"] by auto
qed

section \<open>The reply on the line\<close>

text \<open>
  \<open>send_ack\<close> and \<open>send_nack\<close> send a packet by the receiver's own rules: the padding the sender
  asked for, the length, the number, the type, the right block check, and the sender's end of line.
\<close>

theorem reply_is_a_packet:
  assumes "length (a_b k) = 24" "0 \<le> n" "n < 224" "his_eol k \<noteq> 0" "t \<noteq> 0"
  shows "\<exists>b. send_reply t n k s = Inr (k\<lparr>a_b := b\<rparr>, s\<lparr>con_out := con_out s
    @ line_out (replicate (nat (his_pad_count k)) (his_pad_char k)
        @ butlast (wire n t [] (check n t [])) @ [his_eol k])\<rparr>)"
proof -
  have "\<exists>x0 x1 x2 x3 x4 x5 x6 r. a_b k = x0 # x1 # x2 # x3 # x4 # x5 # x6 # r"
    using assms(1) by (auto simp: eval_nat_numeral length_Suc_conv)
  then obtain x0 x1 x2 x3 x4 x5 x6 r where ab: "a_b k = x0 # x1 # x2 # x3 # x4 # x5 # x6 # r" by blast
  have nz: "tochar 3 \<noteq> 0" "tochar n \<noteq> 0" "check n t [] \<noteq> 0"
    using tochar_printable [of 3] tochar_printable [of n] check_printable [of n t "[]"] assms(2,3)
    by (auto simp: printable_def)
  have chk: "tochar (chk1 (tochar 3 # tochar n # t # 0 # y)) = check n t []" for y
    using nz assms(5) by (simp add: chk1_def check_def cstr_of_def add.assoc)
  let ?b = "XSTART_CHAR # tochar 3 # tochar n # t # check n t [] # his_eol k # 0 # r"
  have pad: "send_pad_loop i c s = s\<lparr>con_out := con_out s @ line_out (replicate i c)\<rparr>" for i c s
    by (induction i arbitrary: s) (simp_all add: putc_out [unfolded putc_def] line_out_def)
  have c: "cstr_of ?b = butlast (wire n t [] (check n t [])) @ [his_eol k]"
    using nz assms(4,5) by (simp add: cstr_of_def wire_def)
  have "send_reply t n k s = Inr (k\<lparr>a_b := ?b\<rparr>, s1_sendpacket ?b (k\<lparr>a_b := ?b\<rparr>) s)"
    by (simp add: send_reply_def close_packet_def ab chk Let_def wr_def eval_nat_numeral)
  then show ?thesis
    by (intro exI [of _ ?b]) (simp add: s1_sendpacket_def send_pad_def pad serial_puts_out c)
qed

theorem reply_is_a_packet_witness:
  "\<exists>b. send_reply ACK_TYPE 7 (kermit_bss\<lparr>his_eol := END_CHAR\<rparr>) (reset_sys 0)
    = Inr (kermit_bss\<lparr>his_eol := END_CHAR, a_b := b\<rparr>, (reset_sys 0)\<lparr>con_out := [1, 0x23, 0x27, 0x59, 0x45, 0x0D]\<rparr>)"
proof -
  let ?k = "kermit_bss\<lparr>his_eol := END_CHAR\<rparr>"
  have k: "length (a_b ?k) = 24" "his_eol ?k \<noteq> 0" "(0 :: int) \<le> 7" "(7 :: int) < 224" "ACK_TYPE \<noteq> 0"
    "his_pad_count ?k = 0" "his_eol ?k = END_CHAR"
    by (simp_all add: kermit_bss_def)
  have "line_out (replicate (nat 0) (his_pad_char ?k) @ butlast (wire 7 ACK_TYPE [] (check 7 ACK_TYPE [])) @ [END_CHAR])
    = [1, 0x23, 0x27, 0x59, 0x45, 0x0D]"
    by (simp add: wire_def check_def tochar_def block_check_def line_out_def)
  with reply_is_a_packet [OF k(1) k(3,4,2,5), of "reset_sys 0"] k(6,7) show ?thesis
    by (simp add: reset_sys_def)
qed

end
