(* ===== verification/Flash.thy ===== *)
theory Flash
  imports CmdLine
begin

text \<open>
  The flash: \<^verbatim>\<open>common/flash.c\<close>, the driver \<^verbatim>\<open>board/dnp1110/flash.c\<close>, the commands of
  \<^verbatim>\<open>common/cmd_flash.c\<close>, and \<open>board_env_save\<close> of \<^verbatim>\<open>board/dnp1110/env.c\<close>, which \<open>saveenv\<close> calls.  The chip
  is the one thing outside the source; it is a parameter of the operations that command it.
\<close>

section \<open>Constants\<close>

abbreviation (input) ERR_OK :: int where "ERR_OK \<equiv> 0"
abbreviation (input) ERR_TIMOUT :: int where "ERR_TIMOUT \<equiv> -1"
abbreviation (input) ERR_NOT_ERASED :: int where "ERR_NOT_ERASED \<equiv> -2"
abbreviation (input) ERR_PROTECTED :: int where "ERR_PROTECTED \<equiv> -3"
abbreviation (input) ERR_INVAL :: int where "ERR_INVAL \<equiv> -4"
abbreviation (input) ERR_ALIGN :: int where "ERR_ALIGN \<equiv> -5"
abbreviation (input) ERR_UNKNOWN_FLASH_VENDOR :: int where "ERR_UNKNOWN_FLASH_VENDOR \<equiv> -6"
abbreviation (input) ERR_UNKNOWN_FLASH_TYPE :: int where "ERR_UNKNOWN_FLASH_TYPE \<equiv> -7"
abbreviation (input) ERR_PROG_ERROR :: int where "ERR_PROG_ERROR \<equiv> -8"

abbreviation (input) FLASH_UNKNOWN :: u32 where "FLASH_UNKNOWN \<equiv> 0xFFFF"
abbreviation (input) FLASH_TYPEMASK :: u32 where "FLASH_TYPEMASK \<equiv> 0x0000FFFF"
abbreviation (input) FLASH_VENDMASK :: u32 where "FLASH_VENDMASK \<equiv> 0xFFFF0000"
abbreviation (input) INTEL_MANUFACT :: u32 where "INTEL_MANUFACT \<equiv> 0x00890089"
abbreviation INTEL_ID_28F160F3B :: u32 where "INTEL_ID_28F160F3B \<equiv> 0x88F488F4"

section \<open>Sectors\<close>

abbreviation bank_start :: "flash_info_t \<Rightarrow> u32" where
  "bank_start info \<equiv> fi_start info ! 0"

definition sect_start :: "flash_info_t \<Rightarrow> nat \<Rightarrow> stop + u32" where
  "sect_start info i = ub (rd (fi_start info) i)"

definition sect_prot :: "flash_info_t \<Rightarrow> nat \<Rightarrow> stop + byte" where
  "sect_prot info i = ub (rd (fi_protect info) i)"

text \<open>\<^verbatim>\<open>end = (i == s_end) ? b_end : info->start[i + 1] - 1;\<close> with \<open>b_end\<close> the last address of the bank.\<close>

definition sect_last :: "flash_info_t \<Rightarrow> nat \<Rightarrow> stop + u32" where
  "sect_last info i =
     (if i + 1 = sector_count info then Inr (bank_start info + fi_size info - 1)
      else sbind (sect_start info (i + 1)) (\<lambda>a. Inr (a - 1)))"

definition set_protect :: "byte \<Rightarrow> nat \<Rightarrow> flash_info_t \<Rightarrow> stop + flash_info_t" where
  "set_protect p i info = sbind (ub (wr (fi_protect info) i p)) (\<lambda>b. Inr (info\<lparr>fi_protect := b\<rparr>))"

section \<open>Protection\<close>

primrec flash_protect_loop ::
  "u32 \<Rightarrow> u32 \<Rightarrow> u32 \<Rightarrow> nat list \<Rightarrow> flash_info_t \<Rightarrow> stop + flash_info_t" where
  "flash_protect_loop flag from to [] info = Inr info"
| "flash_protect_loop flag from to (i # is) info =
     sbind (sect_last info i) (\<lambda>end.
     sbind (sect_start info i) (\<lambda>start.
     sbind (if from \<le> end \<and> start \<le> to then
              if flag AND 2 \<noteq> 0 then set_protect 0 i info
              else if flag AND 1 \<noteq> 0 then set_protect 1 i info
              else Inr info
            else Inr info) (\<lambda>info. flash_protect_loop flag from to is info)))"

definition flash_protect :: "u32 \<Rightarrow> u32 \<Rightarrow> u32 \<Rightarrow> flash_info_t \<Rightarrow> stop + flash_info_t" where
  "flash_protect flag from to info =
     (let b_end = bank_start info + fi_size info - 1 in
      if sector_count info = 0 \<or> fi_size info = 0 \<or> to < from then Inr info
      else if flash_id info = FLASH_UNKNOWN \<or> to < bank_start info \<or> b_end < from then Inr info
      else flash_protect_loop flag from to [0..<sector_count info] info)"

section \<open>Writing\<close>

definition in_bank :: "u32 \<Rightarrow> flash_info_t \<Rightarrow> bool" where
  "in_bank addr info =
     (flash_id info \<noteq> FLASH_UNKNOWN \<and> bank_start info \<le> addr \<and> addr \<le> bank_start info + fi_size info - 1)"

text \<open>\<open>addr2info\<close>: the number of the bank.\<close>

fun addr2info_loop :: "u32 \<Rightarrow> flash_info_t list \<Rightarrow> nat \<Rightarrow> nat option" where
  "addr2info_loop addr [] i = None"
| "addr2info_loop addr (info # infos) i =
     (if in_bank addr info then Some i else addr2info_loop addr infos (i + 1))"

definition addr2info :: "u32 \<Rightarrow> sys \<Rightarrow> nat option" where
  "addr2info addr s = addr2info_loop addr (flash_info s) 0"

text \<open>Whether a protected sector meets the range from \<open>addr\<close> to \<open>end\<close>; here the last sector ends at
  \<^verbatim>\<open>info->start[0] + info->size\<close>, without the \<open>- 1\<close>.\<close>

primrec hits_protected :: "u32 \<Rightarrow> u32 \<Rightarrow> flash_info_t \<Rightarrow> nat list \<Rightarrow> stop + bool" where
  "hits_protected addr end info [] = Inr False"
| "hits_protected addr end info (i # is) =
     sbind (if i + 1 = sector_count info then Inr (bank_start info + fi_size info)
            else sect_start info (i + 1)) (\<lambda>e_addr.
     sbind (sect_start info i) (\<lambda>start.
     sbind (sect_prot info i) (\<lambda>p.
       if start \<le> end \<and> addr < e_addr \<and> p \<noteq> 0 then Inr True
       else hits_protected addr end info is)))"

primrec banks_protected :: "u32 \<Rightarrow> u32 \<Rightarrow> flash_info_t list \<Rightarrow> stop + bool" where
  "banks_protected addr end [] = Inr False"
| "banks_protected addr end (info # infos) =
     sbind (hits_protected addr end info [0..<sector_count info]) (\<lambda>hit.
       if hit then Inr True else banks_protected addr end infos)"

text \<open>
  The chip, as the driver meets it: the status its loop ends with after a command (None: the timer ends
  the loop first), and the memory once the array can be read again.
\<close>

record chip =
  chip_erase :: "addr \<Rightarrow> mem \<Rightarrow> u32 option \<times> mem"
  chip_program :: "addr \<Rightarrow> u32 \<Rightarrow> mem \<Rightarrow> u32 option \<times> mem"

definition loop_result :: "u32 option \<Rightarrow> u32" where
  "loop_result r = (case r of None \<Rightarrow> 0x80000000 | Some st \<Rightarrow> st)"

definition flash_fail :: "config \<Rightarrow> string \<Rightarrow> int \<Rightarrow> sys \<Rightarrow> int result" where
  "flash_fail cfg msg rc s = sbind (printf cfg (lit msg) [] s) (\<lambda>(_, s). Inr (rc, s))"

definition flash_error :: "config \<Rightarrow> u32 \<Rightarrow> sys \<Rightarrow> int result" where
  "flash_error cfg code s =
     (if code AND 0x80000000 \<noteq> 0 then flash_fail cfg ''Timeout\<newline>'' ERR_TIMOUT s
      else if NOT code AND 0x00800080 \<noteq> 0 then flash_fail cfg ''Busy\<newline>'' ERR_PROG_ERROR s
      else if code AND 0x00080008 \<noteq> 0 then flash_fail cfg ''Vpp range error\<newline>'' ERR_PROG_ERROR s
      else if code AND 0x00020002 \<noteq> 0 then flash_fail cfg ''Device protect error\<newline>'' ERR_PROG_ERROR s
      else if code AND 0x00300030 \<noteq> 0 then flash_fail cfg ''Command seqence error\<newline>'' ERR_PROG_ERROR s
      else if code AND 0x00200020 \<noteq> 0 then flash_fail cfg ''Block erase error\<newline>'' ERR_PROG_ERROR s
      else if code AND 0x00100010 \<noteq> 0 then flash_fail cfg ''Program error\<newline>'' ERR_PROG_ERROR s
      else if code AND 0x00400040 \<noteq> 0 then flash_fail cfg ''Block erase suspended\<newline>'' ERR_PROG_ERROR s
      else if code AND 0x00040004 \<noteq> 0 then flash_fail cfg ''Program suspended\<newline>'' ERR_PROG_ERROR s
      else Inr (ERR_OK, s))"

text \<open>\<^verbatim>\<open>data = (data >> 8) | (b << 24)\<close>, four times: a little-endian word.\<close>

definition shift_in :: "u32 \<Rightarrow> byte \<Rightarrow> u32" where
  "shift_in data b = drop_bit 8 data OR push_bit 24 (ucast b)"

definition le_word :: "byte list \<Rightarrow> u32" where
  "le_word bs = foldl shift_in 0 bs"

definition write_word :: "config \<Rightarrow> chip \<Rightarrow> u32 \<Rightarrow> u32 \<Rightarrow> sys \<Rightarrow> int result" where
  "write_word cfg chip dest data s =
     (if le_word (bytes_at (memory s) dest 4) AND data \<noteq> data then Inr (ERR_NOT_ERASED, s)
      else
        let (r, m) = chip_program chip dest data (memory s)
        in flash_error cfg (loop_result r) (s\<lparr>memory := m\<rparr>))"

text \<open>
  The source is the list of the bytes at \<open>src\<close>, \<open>al\<close> the address of the next of them.  The words of
  the aligned part are read through a pointer to \<open>ulong\<close>, which C allows at word addresses only.
\<close>

fun write_words ::
  "config \<Rightarrow> chip \<Rightarrow> byte list \<Rightarrow> nat \<Rightarrow> u32 \<Rightarrow> sys \<Rightarrow> (int \<times> byte list \<times> u32) result" where
  "write_words cfg chip (b0 # b1 # b2 # b3 # src) al wp s =
     (if al mod 4 \<noteq> 0 then Inl BadAccess
      else
        sbind (write_word cfg chip wp (le_word [b0, b1, b2, b3]) s) (\<lambda>(rc, s).
          if rc \<noteq> 0 then Inr ((rc, src, wp), s) else write_words cfg chip src al (wp + 4) s))"
| "write_words cfg chip src al wp s = Inr ((ERR_OK, src, wp), s)"

text \<open>The unaligned first word: \<open>l\<close> bytes before it from the flash, and those behind a short source.\<close>

definition write_head ::
  "config \<Rightarrow> chip \<Rightarrow> byte list \<Rightarrow> u32 \<Rightarrow> nat \<Rightarrow> sys \<Rightarrow> int result" where
  "write_head cfg chip src wp l s =
     (let new = take (4 - l) src; n = l + length new
      in write_word cfg chip wp
           (le_word (bytes_at (memory s) wp l @ new @ bytes_at (memory s) (wp + of_nat n) (4 - n))) s)"

definition write_tail :: "config \<Rightarrow> chip \<Rightarrow> byte list \<Rightarrow> u32 \<Rightarrow> sys \<Rightarrow> int result" where
  "write_tail cfg chip src wp s =
     write_word cfg chip wp
       (le_word (src @ bytes_at (memory s) (wp + of_nat (length src)) (4 - length src))) s"

definition write_buff :: "config \<Rightarrow> chip \<Rightarrow> byte list \<Rightarrow> nat \<Rightarrow> u32 \<Rightarrow> sys \<Rightarrow> int result" where
  "write_buff cfg chip src al addr s =
     (let wp = addr AND NOT 3; l = unat (addr - wp) in
      sbind (if l \<noteq> 0 then write_head cfg chip src wp l s else Inr (0, s)) (\<lambda>(rc, s).
        if rc \<noteq> 0 then Inr (rc, s)
        else
          let (src, al, wp) = (if l \<noteq> 0 then (drop (4 - l) src, al + (4 - l), wp + 4) else (src, al, wp)) in
          sbind (write_words cfg chip src al wp s) (\<lambda>((rc, src, wp), s).
            if rc \<noteq> 0 then Inr (rc, s)
            else if src = [] then Inr (ERR_OK, s)
            else write_tail cfg chip src wp s)))"

text \<open>\<open>flash_write\<close> of the bytes \<open>src\<close> of a buffer at \<open>al\<close>, \<open>cnt\<close> of them.\<close>

primrec flash_write_banks ::
  "config \<Rightarrow> chip \<Rightarrow> flash_info_t list \<Rightarrow> byte list \<Rightarrow> nat \<Rightarrow> u32 \<Rightarrow> u32 \<Rightarrow> sys \<Rightarrow> int result" where
  "flash_write_banks cfg chip [] src al addr cnt s = Inr (ERR_OK, s)"
| "flash_write_banks cfg chip (info # infos) src al addr cnt s =
     (if cnt = 0 then Inr (ERR_OK, s)
      else
        let room = bank_start info + fi_size info - addr;
            n = (if cnt < room then cnt else room)
        in if length src < unat n then Inl BadAccess
           else
             sbind (write_buff cfg chip (take (unat n) src) al addr s) (\<lambda>(i, s).
               if i \<noteq> 0 then Inr (i, s)
               else flash_write_banks cfg chip infos (drop (unat n) src) (al + unat n) (addr + n) (cnt - n) s))"

definition flash_write :: "config \<Rightarrow> chip \<Rightarrow> byte list \<Rightarrow> nat \<Rightarrow> u32 \<Rightarrow> u32 \<Rightarrow> sys \<Rightarrow> int result" where
  "flash_write cfg chip src al addr cnt s =
     (let end = addr + cnt - 1 in
      if cnt = 0 then Inr (ERR_OK, s)
      else
        case (addr2info addr s, addr2info end s) of
          (Some first, Some lst) \<Rightarrow>
            let infos = take (lst + 1 - first) (drop first (flash_info s)) in
            sbind (banks_protected addr end infos) (\<lambda>hit.
              if hit then Inr (ERR_PROTECTED, s)
              else flash_write_banks cfg chip infos src al addr cnt s)
        | _ \<Rightarrow> Inr (ERR_INVAL, s))"

section \<open>Erasing\<close>

text \<open>Behind the loop of \<open>flash_erase\<close>; \<open>rc\<close> is \<open>ERR_OK\<close> there.\<close>

definition erase_end :: "config \<Rightarrow> sys \<Rightarrow> int result" where
  "erase_end cfg s =
     sbind (ctrlc s) (\<lambda>(c, s).
       if c then sbind (printf cfg (lit ''User Interrupt!\<newline>'') [] s) (\<lambda>(_, s). Inr (ERR_OK, s))
       else Inr (ERR_OK, s))"

primrec erase_loop :: "config \<Rightarrow> chip \<Rightarrow> flash_info_t \<Rightarrow> nat list \<Rightarrow> sys \<Rightarrow> int result" where
  "erase_loop cfg chip info [] s = erase_end cfg s"
| "erase_loop cfg chip info (sect # sects) s =
     sbind (ctrlc s) (\<lambda>(c, s).
       if c then erase_end cfg s
       else
         sbind (printf cfg (lit ''Erasing sector %2d ... '') [AInt (of_nat sect)] s) (\<lambda>(_, s).
         sbind (sect_prot info sect) (\<lambda>p.
           if p = 0 then
             sbind (sect_start info sect) (\<lambda>addr.
               let (r, m) = chip_erase chip addr (memory s) in
               sbind (flash_error cfg (loop_result r) (s\<lparr>memory := m\<rparr>)) (\<lambda>(rc, s).
                 if rc \<noteq> ERR_OK then Inr (rc, s)
                 else sbind (printf cfg (lit ''ok.\<newline>'') [] s) (\<lambda>(_, s). erase_loop cfg chip info sects s)))
           else
             sbind (printf cfg (lit ''protected!\<newline>'') [] s) (\<lambda>(_, s). erase_loop cfg chip info sects s))))"

primrec any_protected :: "flash_info_t \<Rightarrow> nat list \<Rightarrow> stop + bool" where
  "any_protected info [] = Inr False"
| "any_protected info (i # is) =
     sbind (sect_prot info i) (\<lambda>p. sbind (any_protected info is) (\<lambda>q. Inr (p \<noteq> 0 \<or> q)))"

definition flash_erase :: "config \<Rightarrow> chip \<Rightarrow> flash_info_t \<Rightarrow> int \<Rightarrow> int \<Rightarrow> sys \<Rightarrow> int result" where
  "flash_erase cfg chip info s_first s_last s =
     (if flash_id info = FLASH_UNKNOWN then Inr (ERR_UNKNOWN_FLASH_TYPE, s)
      else if s_first < 0 \<or> s_first > s_last then Inr (ERR_INVAL, s)
      else if flash_id info AND FLASH_VENDMASK \<noteq> INTEL_MANUFACT AND FLASH_VENDMASK
        then Inr (ERR_UNKNOWN_FLASH_VENDOR, s)
      else
        let sects = [nat s_first..<nat (s_last + 1)] in
        sbind (any_protected info sects) (\<lambda>prot.
          if prot then Inr (ERR_PROTECTED, s) else erase_loop cfg chip info sects s))"

text \<open>The first and the last sector of a range that lies on sector boundaries, -1 where it does not.\<close>

primrec find_sects ::
  "u32 \<Rightarrow> u32 \<Rightarrow> flash_info_t \<Rightarrow> nat list \<Rightarrow> int \<times> int \<Rightarrow> stop + int \<times> int" where
  "find_sects addr_first addr_last info [] r = Inr r"
| "find_sects addr_first addr_last info (sect # sects) r =
     sbind (sect_last info sect) (\<lambda>end.
     sbind (sect_start info sect) (\<lambda>start.
       find_sects addr_first addr_last info sects
         (if end < addr_first \<or> addr_last < start then r
          else (if addr_first = start then int sect else fst r, if addr_last = end then int sect else snd r))))"

primrec flash_sect_erase_banks ::
  "config \<Rightarrow> chip \<Rightarrow> u32 \<Rightarrow> u32 \<Rightarrow> flash_info_t list \<Rightarrow> int \<Rightarrow> sys \<Rightarrow> (int \<times> int) result" where
  "flash_sect_erase_banks cfg chip addr_first addr_last [] erased s = Inr ((erased, ERR_OK), s)"
| "flash_sect_erase_banks cfg chip addr_first addr_last (info # infos) erased s =
     (if flash_id info = FLASH_UNKNOWN
      then flash_sect_erase_banks cfg chip addr_first addr_last infos erased s
      else
        sbind (find_sects addr_first addr_last info [0..<sector_count info] (-1, -1)) (\<lambda>(s_first, s_last).
          if 0 \<le> s_first \<and> s_first \<le> s_last then
            sbind (flash_erase cfg chip info s_first s_last s) (\<lambda>(rc, s).
              let erased = erased + (s_last - s_first + 1) in
              if rc \<noteq> 0 then Inr ((erased, rc), s)
              else flash_sect_erase_banks cfg chip addr_first addr_last infos erased s)
          else flash_sect_erase_banks cfg chip addr_first addr_last infos erased s))"

definition flash_sect_erase :: "config \<Rightarrow> chip \<Rightarrow> u32 \<Rightarrow> u32 \<Rightarrow> sys \<Rightarrow> int result" where
  "flash_sect_erase cfg chip addr_first addr_last s =
     sbind (flash_sect_erase_banks cfg chip addr_first addr_last (flash_info s) 0 s)
       (\<lambda>((erased, rc), s). Inr (if erased \<noteq> 0 then erased else rc, s))"

definition flash_perror :: "config \<Rightarrow> int \<Rightarrow> sys \<Rightarrow> unit result" where
  "flash_perror cfg err s =
     (let msg = (\<lambda>m. printf cfg (lit m) [] s) in
      if err = ERR_OK then Inr ((), s)
      else if err = ERR_TIMOUT then msg ''Timeout writing to Flash\<newline>''
      else if err = ERR_NOT_ERASED then msg ''Flash not Erased\<newline>''
      else if err = ERR_PROTECTED then msg ''Can't write to protected Flash sectors\<newline>''
      else if err = ERR_INVAL then msg ''Outside available Flash\<newline>''
      else if err = ERR_ALIGN then msg ''Start and/or end address not on sector boundary\<newline>''
      else if err = ERR_UNKNOWN_FLASH_VENDOR then msg ''Unknown Vendor of Flash\<newline>''
      else if err = ERR_UNKNOWN_FLASH_TYPE then msg ''Unknown Type of Flash\<newline>''
      else if err = ERR_PROG_ERROR then msg ''General Flash Programming Error\<newline>''
      else printf cfg (lit ''%s[%d] FIXME: rc=%d\<newline>'')
             [AStr (Some (lit ''flash.c'')), AInt 241, AInt (word_of_int err)] s)"

section \<open>Start-up\<close>

text \<open>\<open>flash_init\<close> for one bank; \<open>sects\<close> is \<open>CFG_MAX_FLASH_SECT\<close>, \<open>code_size\<close> the size of the boot loader.\<close>

definition dnp1110_bank :: "nat \<Rightarrow> flash_info_t" where
  "dnp1110_bank sects =
     \<lparr>fi_size = 0x800000, sector_count = sects,
      flash_id = (INTEL_MANUFACT AND FLASH_VENDMASK) OR (INTEL_ID_28F160F3B AND FLASH_TYPEMASK),
      fi_start = map (\<lambda>j. if j \<le> 7 then of_nat j * 0x4000 else of_nat (j - 7) * 0x20000) [0..<sects],
      fi_protect = replicate sects 0\<rparr>"

definition flash_init :: "nat \<Rightarrow> u32 \<Rightarrow> u32 \<Rightarrow> u32 \<Rightarrow> sys \<Rightarrow> u32 result" where
  "flash_init sects code_size CFG_ENV_ADDR CFG_ENV_SIZE s =
     (let info = dnp1110_bank sects in
      sbind (flash_protect 1 0 (0 + code_size) info) (\<lambda>info.
      sbind (flash_protect 1 CFG_ENV_ADDR (CFG_ENV_ADDR + CFG_ENV_SIZE - 1) info) (\<lambda>info.
        Inr (fi_size info, s\<lparr>flash_info := [info]\<rparr>))))"

text \<open>The table of sectors, five in a line.\<close>

primrec print_sectors :: "config \<Rightarrow> flash_info_t \<Rightarrow> nat list \<Rightarrow> sys \<Rightarrow> unit result" where
  "print_sectors cfg info [] s = Inr ((), s)"
| "print_sectors cfg info (i # is) s =
     sbind (if i mod 5 = 0 then printf cfg (lit ''\<newline>   '') [] s else Inr ((), s)) (\<lambda>(_, s).
     sbind (sect_start info i) (\<lambda>start.
     sbind (sect_prot info i) (\<lambda>p.
     sbind (printf cfg (lit '' %08lX%s'') [AInt start, AStr (Some (if p \<noteq> 0 then lit '' (RO)'' else lit ''     ''))] s)
       (\<lambda>(_, s). print_sectors cfg info is s))))"

definition flash_print_info :: "config \<Rightarrow> flash_info_t \<Rightarrow> sys \<Rightarrow> unit result" where
  "flash_print_info cfg info s =
     sbind (printf cfg (if flash_id info AND FLASH_VENDMASK = INTEL_MANUFACT AND FLASH_VENDMASK
                        then lit ''Intel: '' else lit ''Unknown Vendor '') [] s) (\<lambda>(_, s).
       if flash_id info AND FLASH_TYPEMASK = INTEL_ID_28F160F3B AND FLASH_TYPEMASK then
         sbind (printf cfg (lit ''2x 28F160F3B (16Mbit)\<newline>'') [] s) (\<lambda>(_, s).
         sbind (printf cfg (lit ''  Size: %ld MB in %d Sectors\<newline>'')
                  [AInt (drop_bit 20 (fi_size info)), AInt (of_nat (sector_count info))] s) (\<lambda>(_, s).
         sbind (printf cfg (lit ''  Sector Start Addresses:'') [] s) (\<lambda>(_, s).
         sbind (print_sectors cfg info [0..<sector_count info] s) (\<lambda>(_, s).
           printf cfg (lit ''\<newline>'') [] s))))
       else printf cfg (lit ''Unknown Chip Type\<newline>'') [] s)"

end
