(* ===== verification/FlashCmd.thy ===== *)
theory FlashCmd
  imports Flash SRecord Kermit
begin

text \<open>
  The commands that change the flash: \<^verbatim>\<open>common/cmd_flash.c\<close>; \<open>saveenv\<close> with \<open>board_env_save\<close> of
  \<^verbatim>\<open>board/dnp1110/env.c\<close>; and \<open>loads\<close>, the S-record download of \<^verbatim>\<open>common/cmd_boot.c\<close>, which
  writes to flash or to memory by address.
\<close>

section \<open>Ranges of sectors\<close>

text \<open>
  \<open>abbrev_spec\<close>, \<^verbatim>\<open>B:SF[-SL]\<close>: 0 where it is none, -1 where it is wrong, and 1 with the bank's number
  and the two sectors.
\<close>

definition split_at :: "byte \<Rightarrow> byte list \<Rightarrow> (byte list \<times> byte list) option" where
  "split_at c str =
     (let p = dropWhile (\<lambda>x. x \<noteq> c) str in
      if p = [] then None else Some (takeWhile (\<lambda>x. x \<noteq> c) str, tl p))"

text \<open>A number that is all of a string; what is returned is the \<open>int\<close> it is assigned to.\<close>

definition whole_number :: "byte list \<Rightarrow> int option" where
  "whole_number str =
     (let (v, ep) = simple_strtoul str 10 in if ep = str \<or> ep \<noteq> [] then None else Some (sint v))"

definition abbrev_spec :: "byte list \<Rightarrow> flash_info_t list \<Rightarrow> int \<times> nat \<times> int \<times> int" where
  "abbrev_spec str infos =
     (let bad = (-1, 0, 0, 0) in
      case split_at (ch CHR '':'') str of
        None \<Rightarrow> (0, 0, 0, 0)
      | Some (b, p) \<Rightarrow>
          (case whole_number b of
             None \<Rightarrow> bad
           | Some bank \<Rightarrow>
               if bank < 1 \<or> int (length infos) < bank \<or> flash_id (infos ! nat (bank - 1)) = FLASH_UNKNOWN
               then bad
               else
                 let fp = infos ! nat (bank - 1); n = int (sector_count fp);
                     (sf, sl) = (case split_at (ch CHR ''-'') p of None \<Rightarrow> (p, None) | Some (a, b) \<Rightarrow> (a, Some b))
                 in case whole_number sf of
                      None \<Rightarrow> bad
                    | Some first \<Rightarrow>
                        if first \<ge> n then bad
                        else
                          (case sl of
                             None \<Rightarrow> (1, nat (bank - 1), first, first)
                           | Some sl \<Rightarrow>
                               (case whole_number sl of
                                  None \<Rightarrow> bad
                                | Some end \<Rightarrow>
                                    if end < first \<or> end \<ge> n then bad
                                    else (1, nat (bank - 1), first, end)))))"

section \<open>Commands\<close>

primrec flinfo_all :: "config \<Rightarrow> flash_info_t list \<Rightarrow> nat \<Rightarrow> sys \<Rightarrow> int result" where
  "flinfo_all cfg [] bank s = Inr (0, s)"
| "flinfo_all cfg (info # infos) bank s =
     sbind (printf cfg (lit ''\<newline>Bank # %ld: '') [AInt (of_nat bank + 1)] s) (\<lambda>(_, s).
     sbind (flash_print_info cfg info s) (\<lambda>(_, s). flinfo_all cfg infos (bank + 1) s))"

definition only_banks :: "config \<Rightarrow> sys \<Rightarrow> int result" where
  "only_banks cfg s =
     sbind (printf cfg (lit ''Only FLASH Banks # 1 ... # %d supported\<newline>'')
              [AInt (of_nat (length (flash_info s)))] s) (\<lambda>(_, s). Inr (1, s))"

definition bad_bank :: "u32 \<Rightarrow> sys \<Rightarrow> bool" where
  "bad_bank bank s = (bank < 1 \<or> of_nat (length (flash_info s)) < bank)"

definition do_flinfo :: "config \<Rightarrow> nat \<Rightarrow> byte list option list \<Rightarrow> sys \<Rightarrow> int result" where
  "do_flinfo cfg argc argv s =
     (if argc = 1 then flinfo_all cfg (flash_info s) 0 s
      else
        sbind (argv_str argv 1) (\<lambda>a.
          let bank = fst (simple_strtoul a 16) in
          if bad_bank bank s then only_banks cfg s
          else
            sbind (printf cfg (lit ''\<newline>Bank # %ld: '') [AInt bank] s) (\<lambda>(_, s).
            sbind (flash_print_info cfg (flash_info s ! unat (bank - 1)) s) (\<lambda>(_, s). Inr (0, s)))))"

text \<open>What follows a call of \<open>flash_erase\<close>.\<close>

definition erase_report :: "config \<Rightarrow> string \<Rightarrow> int \<Rightarrow> sys \<Rightarrow> int result" where
  "erase_report cfg ok n s =
     (if n < 0 then sbind (flash_perror cfg n s) (\<lambda>(_, s). Inr (1, s))
      else sbind (printf cfg (lit ok) [] s) (\<lambda>(_, s). Inr (0, s)))"

primrec flerase_all :: "config \<Rightarrow> chip \<Rightarrow> flash_info_t list \<Rightarrow> nat \<Rightarrow> sys \<Rightarrow> int result" where
  "flerase_all cfg chip [] bank s = Inr (0, s)"
| "flerase_all cfg chip (info # infos) bank s =
     sbind (printf cfg (lit ''Erase Flash Bank # %ld:\<newline>'') [AInt (of_nat bank)] s) (\<lambda>(_, s).
     sbind (flash_erase cfg chip info 0 (int (sector_count info) - 1) s) (\<lambda>(n, s).
     sbind (erase_report cfg ''Done.\<newline>'' n s) (\<lambda>(rc, s).
       if rc \<noteq> 0 then Inr (1, s) else flerase_all cfg chip infos (bank + 1) s)))"

definition do_flerase :: "config \<Rightarrow> chip \<Rightarrow> cmd_tbl_t \<Rightarrow> nat \<Rightarrow> byte list option list \<Rightarrow> sys \<Rightarrow> int result" where
  "do_flerase cfg chip cmdtp argc argv s =
     (if argc < 2 then print_usage cfg cmdtp s
      else
        sbind (argv_str argv 1) (\<lambda>a1.
          if a1 = lit ''all'' then flerase_all cfg chip (flash_info s) 1 s
          else
            let (n, b, sect_first, sect_last) = abbrev_spec a1 (flash_info s) in
            if n < 0 then sbind (printf cfg (lit ''Bad sector specification\<newline>'') [] s) (\<lambda>(_, s). Inr (1, s))
            else if n \<noteq> 0 then
              sbind (printf cfg (lit ''Erase Flash Sectors %d-%d in Bank # %d:\<newline>'')
                       [AInt (word_of_int sect_first), AInt (word_of_int sect_last), AInt (of_nat b + 1)] s) (\<lambda>(_, s).
              sbind (flash_erase cfg chip (flash_info s ! b) sect_first sect_last s) (\<lambda>(n, s).
                erase_report cfg ''Done.\<newline>'' n s))
            else if argc \<noteq> 3 then print_usage cfg cmdtp s
            else
              sbind (argv_str argv 2) (\<lambda>a2.
                if a1 = lit ''bank'' then
                  let bank = fst (simple_strtoul a2 16) in
                  if bad_bank bank s then only_banks cfg s
                  else
                    let info = flash_info s ! unat (bank - 1) in
                    sbind (printf cfg (lit ''Erase Flash Bank # %ld:\<newline>'') [AInt bank] s) (\<lambda>(_, s).
                    sbind (flash_erase cfg chip info 0 (int (sector_count info) - 1) s) (\<lambda>(n, s).
                      erase_report cfg ''done.\<newline>'' n s))
                else
                  let addr_first = fst (simple_strtoul a1 16); addr_last = fst (simple_strtoul a2 16) in
                  if addr_last \<le> addr_first then print_usage cfg cmdtp s
                  else
                    sbind (printf cfg (lit ''Erase Flash from 0x%08lx to 0x%08lx... '')
                             [AInt addr_first, AInt addr_last] s) (\<lambda>(_, s).
                    sbind (flash_sect_erase cfg chip addr_first addr_last s) (\<lambda>(n, s).
                      if n < 0 then sbind (flash_perror cfg n s) (\<lambda>(_, s). Inr (1, s))
                      else sbind (printf cfg (lit ''done.\<newline>Erased %d sectors.\<newline>'') [AInt (word_of_int n)] s)
                        (\<lambda>(_, s). Inr (0, s)))))))"

section \<open>Protection\<close>

text \<open>\<^verbatim>\<open>for (i = first; i <= last; i++) info->protect[i] = p;\<close>\<close>

primrec protect_sects :: "byte \<Rightarrow> int list \<Rightarrow> flash_info_t \<Rightarrow> stop + flash_info_t" where
  "protect_sects p [] info = Inr info"
| "protect_sects p (i # is) info =
     (if i < 0 then Inl BadAccess
      else sbind (set_protect p (nat i) info) (\<lambda>info. protect_sects p is info))"

primrec protect_banks :: "byte \<Rightarrow> u32 \<Rightarrow> u32 \<Rightarrow> flash_info_t list \<Rightarrow> int \<Rightarrow> stop + int \<times> flash_info_t list" where
  "protect_banks p addr_first addr_last [] n = Inr (n, [])"
| "protect_banks p addr_first addr_last (info # infos) n =
     (if flash_id info = FLASH_UNKNOWN
      then sbind (protect_banks p addr_first addr_last infos n) (\<lambda>(n, infos). Inr (n, info # infos))
      else
        sbind (find_sects addr_first addr_last info [0..<sector_count info] (-1, -1)) (\<lambda>(s_first, s_last).
        sbind (if 0 \<le> s_first \<and> s_first \<le> s_last
               then sbind (protect_sects p [s_first..s_last] info) (\<lambda>info. Inr (n + (s_last - s_first + 1), info))
               else Inr (n, info)) (\<lambda>(n, info).
        sbind (protect_banks p addr_first addr_last infos n) (\<lambda>(n, infos). Inr (n, info # infos)))))"

definition flash_sect_protect :: "config \<Rightarrow> byte \<Rightarrow> u32 \<Rightarrow> u32 \<Rightarrow> sys \<Rightarrow> int result" where
  "flash_sect_protect cfg p addr_first addr_last s =
     sbind (protect_banks p addr_first addr_last (flash_info s) 0) (\<lambda>(protected, infos).
       let s = s\<lparr>flash_info := infos\<rparr> in
       if protected \<noteq> 0 then
         sbind (printf cfg (lit ''%sProtected %d sectors\<newline>'')
                  [AStr (Some (if p \<noteq> 0 then [] else lit ''Un-'')), AInt (word_of_int protected)] s)
           (\<lambda>(_, s). Inr (ERR_OK, s))
       else sbind (flash_perror cfg ERR_ALIGN s) (\<lambda>(_, s). Inr (ERR_ALIGN, s)))"

definition protect_bank :: "byte \<Rightarrow> nat \<Rightarrow> sys \<Rightarrow> unit result" where
  "protect_bank p b s =
     (let info = flash_info s ! b in
      sbind (protect_sects p [0..int (sector_count info) - 1] info) (\<lambda>info.
        Inr ((), s\<lparr>flash_info := (flash_info s)[b := info]\<rparr>)))"

definition un_prefix :: "byte \<Rightarrow> arg" where
  "un_prefix p = AStr (Some (if p \<noteq> 0 then [] else lit ''Un-''))"

primrec protect_all :: "config \<Rightarrow> byte \<Rightarrow> nat list \<Rightarrow> sys \<Rightarrow> int result" where
  "protect_all cfg p [] s = Inr (0, s)"
| "protect_all cfg p (b # bs) s =
     (if flash_id (flash_info s ! b) = FLASH_UNKNOWN then protect_all cfg p bs s
      else
        sbind (printf cfg (lit ''%sProtect Flash Bank # %ld\<newline>'') [un_prefix p, AInt (of_nat b + 1)] s) (\<lambda>(_, s).
        sbind (protect_bank p b s) (\<lambda>(_, s). protect_all cfg p bs s)))"

definition do_protect :: "config \<Rightarrow> cmd_tbl_t \<Rightarrow> nat \<Rightarrow> byte list option list \<Rightarrow> sys \<Rightarrow> int result" where
  "do_protect cfg cmdtp argc argv s =
     (if argc < 3 then print_usage cfg cmdtp s
      else
        sbind (argv_str argv 1) (\<lambda>a1.
        sbind (argv_str argv 2) (\<lambda>a2.
          if a1 \<noteq> lit ''off'' \<and> a1 \<noteq> lit ''on'' then print_usage cfg cmdtp s
          else
            let p = (if a1 = lit ''off'' then 0 else 1) in
            if a2 = lit ''all'' then protect_all cfg p [0..<length (flash_info s)] s
            else
              let (n, b, sect_first, sect_last) = abbrev_spec a2 (flash_info s) in
              if n < 0 then sbind (printf cfg (lit ''Bad sector specification\<newline>'') [] s) (\<lambda>(_, s). Inr (1, s))
              else if n \<noteq> 0 then
                sbind (printf cfg (lit ''%sProtect Flash Sectors %d-%d in Bank # %d\<newline>'')
                         [un_prefix p, AInt (word_of_int sect_first), AInt (word_of_int sect_last),
                          AInt (of_nat b + 1)] s) (\<lambda>(_, s).
                sbind (protect_sects p [sect_first..sect_last] (flash_info s ! b)) (\<lambda>info.
                  Inr (0, s\<lparr>flash_info := (flash_info s)[b := info]\<rparr>)))
              else if argc \<noteq> 4 then print_usage cfg cmdtp s
              else
                sbind (argv_str argv 3) (\<lambda>a3.
                  if a2 = lit ''bank'' then
                    let bank = fst (simple_strtoul a3 16) in
                    if bad_bank bank s then only_banks cfg s
                    else
                      sbind (printf cfg (lit ''%sProtect Flash Bank # %ld\<newline>'') [un_prefix p, AInt bank] s) (\<lambda>(_, s).
                      if flash_id (flash_info s ! unat (bank - 1)) = FLASH_UNKNOWN
                      then sbind (printf cfg (lit ''missing or unknown FLASH type\<newline>'') [] s) (\<lambda>(_, s). Inr (1, s))
                      else sbind (protect_bank p (unat (bank - 1)) s) (\<lambda>(_, s). Inr (0, s)))
                  else
                    let addr_first = fst (simple_strtoul a2 16); addr_last = fst (simple_strtoul a3 16) in
                    if addr_last \<le> addr_first then print_usage cfg cmdtp s
                    else
                      sbind (flash_sect_protect cfg p addr_first addr_last s) (\<lambda>(rc, s).
                        Inr (if rc \<noteq> 0 then 1 else 0, s))))))"

section \<open>Saving the environment\<close>

definition le_bytes :: "u32 \<Rightarrow> byte list" where
  "le_bytes w = [ucast w, ucast (drop_bit 8 w), ucast (drop_bit 16 w), ucast (drop_bit 24 w)]"

definition env_bytes :: "env_t \<Rightarrow> byte list" where
  "env_bytes e = le_bytes (env_crc e) @ env_data e"

text \<open>The \<open>env_t\<close> of \<open>n\<close> data bytes the flash shows at an address; \<open>flash_env\<close> is that at \<open>CFG_ENV_ADDR\<close>.\<close>

definition env_at :: "mem \<Rightarrow> addr \<Rightarrow> nat \<Rightarrow> env_t" where
  "env_at m a n = \<lparr>env_crc = le_word (bytes_at m a 4), env_data = bytes_at m (a + 4) n\<rparr>"

definition board_env_save :: "config \<Rightarrow> chip \<Rightarrow> u32 \<Rightarrow> u32 \<Rightarrow> sys \<Rightarrow> int result" where
  "board_env_save cfg chip CFG_ENV_ADDR CFG_ENV_SIZE s =
     (let start_addr = CFG_ENV_ADDR; end_addr = start_addr + CFG_ENV_SIZE - 1 in
      sbind (flash_sect_protect cfg 0 CFG_ENV_ADDR end_addr s) (\<lambda>(rc, s).
      if rc < 0 then Inr (rc, s)
      else
        sbind (flash_sect_erase cfg chip start_addr end_addr s) (\<lambda>(rc, s).
        if rc < 0 then
          sbind (flash_sect_protect cfg 1 start_addr end_addr s) (\<lambda>(_, s).
          sbind (flash_perror cfg rc s) (\<lambda>(_, s). Inr (rc, s)))
        else
          sbind (printf cfg (lit ''Saving Environment to Flash...'') [] s) (\<lambda>(_, s).
          sbind (ub (bi_env s)) (\<lambda>env.
          sbind (flash_write cfg chip (env_bytes env) 0 start_addr (of_nat (length (env_bytes env))) s) (\<lambda>(rc, s).
          sbind (if rc < 0 then flash_perror cfg rc s else printf cfg (lit ''done.\<newline>'') [] s) (\<lambda>(_, s).
          sbind (flash_sect_protect cfg 1 start_addr end_addr s) (\<lambda>(_, s).
            Inr (0, s\<lparr>flash_env := env_at (memory s) CFG_ENV_ADDR (length (env_data (flash_env s)))\<rparr>)))))))))"

definition do_saveenv :: "config \<Rightarrow> chip \<Rightarrow> u32 \<Rightarrow> u32 \<Rightarrow> sys \<Rightarrow> int result" where
  "do_saveenv cfg chip CFG_ENV_ADDR CFG_ENV_SIZE s =
     sbind (board_env_save cfg chip CFG_ENV_ADDR CFG_ENV_SIZE s) (\<lambda>(rc, s). Inr (if rc \<noteq> 0 then 1 else 0, s))"

section \<open>The S-record download\<close>

abbreviation (input) SREC_MAXRECLEN :: nat where "SREC_MAXRECLEN \<equiv> 516"

text \<open>
  The static \<open>do_echo\<close> of the file is the argument \<open>echo\<close>.  \<open>read_record\<close> with room for \<open>n\<close> characters: the characters stored, None where it returns -1.  After
  each character \<open>ctrlc\<close> looks at the line, and takes what is waiting there.
\<close>

primrec read_record_loop :: "bool \<Rightarrow> nat \<Rightarrow> sys \<Rightarrow> byte list option result" where
  "read_record_loop echo 0 s = Inr (Some [], s)"
| "read_record_loop echo (Suc n) s =
     sbind (getc s) (\<lambda>(c, s).
       let s = (if echo then serial_putc c s else s) in
       if c = 13 \<or> c = 10 then Inr (Some [], s)
       else if c = 0 \<or> c = 3 then Inr (None, s)
       else
         sbind (ctrlc s) (\<lambda>(stop, s).
           if stop then Inr (None, s)
           else sbind (read_record_loop echo n s) (\<lambda>(r, s). Inr (map_option (Cons c) r, s))))"

definition read_record :: "bool \<Rightarrow> nat \<Rightarrow> sys \<Rightarrow> byte list option result" where
  "read_record echo len s = read_record_loop echo (len - 1) s"

record load_state =
  ld_start_addr :: u32
  ld_end_addr :: u32
  ld_line_count :: nat

text \<open>A data record: to flash, or to memory; the returned value where the download ends here.\<close>

definition store_record ::
  "config \<Rightarrow> chip \<Rightarrow> byte list \<Rightarrow> nat \<Rightarrow> u32 \<Rightarrow> int \<Rightarrow> sys \<Rightarrow> u32 option result" where
  "store_record cfg chip binbuf al store_addr binlen s =
     (if addr2info store_addr s \<noteq> None then
        sbind (flash_write cfg chip binbuf al store_addr (word_of_int binlen) s) (\<lambda>(rc, s).
          if rc = 0 then Inr (None, s)
          else
            sbind (if rc = 1 then printf cfg (lit ''\<newline>Error: Timeout writing to Flash\<newline>'') [] s
                   else if rc = 2 then printf cfg (lit ''\<newline>Error: Flash not Erased\<newline>'') [] s
                   else if rc = 4 then
                     printf cfg (lit ''\<newline>Error: Can't write to protected Flash sectors\<newline>'') [] s
                   else printf cfg (lit ''%s[%d] FIXME: rc=%d\<newline>'')
                     [AStr (Some (lit ''cmd_boot.c'')), AInt 220, AInt (word_of_int rc)] s) (\<lambda>(_, s).
              Inr (Some 0xFFFFFFFF, s)))
      else if binlen < 0 then Inl BadAccess
      else Inr (None, s\<lparr>memory := store_bytes (memory s) store_addr (take (nat binlen) binbuf)\<rparr>))"

definition print_load :: "config \<Rightarrow> load_state \<Rightarrow> sys \<Rightarrow> unit result" where
  "print_load cfg l s =
     printf cfg (lit ''\<newline>## First Load Addr = 0x%08lx\<newline>## Last  Load Addr = 0x%08lx\<newline>## Total Size      = 0x%08lx = %ld Bytes\<newline>'')
       [AInt (ld_start_addr l), AInt (ld_end_addr l), AInt (ld_end_addr l - ld_start_addr l + 1),
        AInt (ld_end_addr l - ld_start_addr l + 1)] s"

text \<open>A dot for every 100 lines, where they are not echoed.\<close>

definition count_line :: "bool \<Rightarrow> load_state \<Rightarrow> sys \<Rightarrow> load_state \<times> sys" where
  "count_line echo l s =
     (if echo then (l, s)
      else
        let l = l\<lparr>ld_line_count := ld_line_count l + 1\<rparr>
        in (l, if ld_line_count l mod 100 = 0 then putc (ch CHR ''.'') s else s))"

text \<open>
  \<open>load_serial\<close>; \<open>al\<close> is where \<open>binbuf\<close> lies on the stack.  A record takes at least one character, so
  the number of the characters that arrive bounds the loop.
\<close>

primrec load_serial_loop ::
  "nat \<Rightarrow> config \<Rightarrow> chip \<Rightarrow> bool \<Rightarrow> nat \<Rightarrow> u32 \<Rightarrow> load_state \<Rightarrow> sys \<Rightarrow> u32 result" where
  "load_serial_loop 0 cfg chip echo al offset l s = Inl NoFuel"
| "load_serial_loop (Suc fuel) cfg chip echo al offset l s =
     sbind (read_record echo (SREC_MAXRECLEN + 1) s) (\<lambda>(r, s).
       case r of
         None \<Rightarrow> Inr (0xFFFFFFFF, s)
       | Some rec \<Rightarrow>
           let (typ, st) = srec_decode (cstr_of rec) 0 0; binlen = sr_count st; addr = sr_addr st;
               next = (\<lambda>l s. let (l, s) = count_line echo l s
                 in load_serial_loop fuel cfg chip echo al offset l s) in
           if typ < 0 then Inr (0xFFFFFFFF, s)
           else if typ = SREC_DATA2 \<or> typ = SREC_DATA3 \<or> typ = SREC_DATA4 then
             let store_addr = addr + offset; last_addr = store_addr + word_of_int binlen - 1 in
             sbind (store_record cfg chip (sr_data st) al store_addr binlen s) (\<lambda>(ret, s).
               case ret of
                 Some r \<Rightarrow> Inr (r, s)
               | None \<Rightarrow>
                   next (l\<lparr>ld_start_addr := (if store_addr < ld_start_addr l then store_addr else ld_start_addr l),
                           ld_end_addr := (if ld_end_addr l < last_addr then last_addr else ld_end_addr l)\<rparr>) s)
           else if typ = SREC_END2 \<or> typ = SREC_END3 \<or> typ = SREC_END4 then
             sbind (print_load cfg l s) (\<lambda>(_, s). Inr (addr, s))
           else next l s)"

definition load_serial :: "config \<Rightarrow> chip \<Rightarrow> bool \<Rightarrow> nat \<Rightarrow> u32 \<Rightarrow> sys \<Rightarrow> u32 result" where
  "load_serial cfg chip echo al offset s =
     load_serial_loop (length (con_in s) + 1) cfg chip echo al offset
       \<lparr>ld_start_addr = 0xFFFFFFFF, ld_end_addr = 0, ld_line_count = 0\<rparr> s"

text \<open>\<open>do_load_serial\<close> without \<open>CFG_LOADS_BAUD_CHANGE\<close>, which no configuration defines.\<close>

definition do_load_serial ::
  "config \<Rightarrow> chip \<Rightarrow> nat \<Rightarrow> nat \<Rightarrow> byte list option list \<Rightarrow> sys \<Rightarrow> int result" where
  "do_load_serial cfg chip al argc argv s =
     sbind (getenv cfg s (lit ''loads_echo'')) (\<lambda>(env_echo, s).
     let echo = (case env_echo of None \<Rightarrow> False | Some e \<Rightarrow> hd0 e = ch CHR ''1'') in
     sbind (if argc = 2 then sbind (argv_str argv 1) (\<lambda>a. Inr (fst (simple_strtoul a 16))) else Inr 0) (\<lambda>offset.
     sbind (printf cfg (lit ''## Ready for S-Record download ...\<newline>'') [] s) (\<lambda>(_, s).
     sbind (load_serial cfg chip echo al offset s) (\<lambda>(addr, s).
     let s = gather_trailing 100 s in
     if addr = 0xFFFFFFFF then
       sbind (printf cfg (lit ''## S-Record download aborted\<newline>'') [] s) (\<lambda>(_, s). Inr (0, s))
     else
       sbind (printf cfg (lit ''## Start Addr      = 0x%08lx\<newline>'') [AInt addr] s)
         (\<lambda>(_, s). Inr (0, s\<lparr>load_addr := addr\<rparr>))))))"

end
