(* ===== verification/FlashSpec.thy ===== *)
theory FlashSpec
  imports FlashCmd
begin

text \<open>What the flash operations do to memory, and what they report.\<close>

section \<open>Words and bytes\<close>

lemma le_word4: "le_word [b0, b1, b2, b3] =
    ucast b0 OR push_bit 8 (ucast b1) OR push_bit 16 (ucast b2) OR push_bit 24 (ucast b3)"
  unfolding le_word_def
  by (simp add: shift_in_def) (rule bit_word_eqI, auto simp: bit_simps dest: bit_imp_le_length)

lemma le_bytes_word: "le_bytes (le_word [b0, b1, b2, b3]) = [b0, b1, b2, b3]"
proof -
  have "ucast (le_word [b0, b1, b2, b3]) = b0" "ucast (drop_bit 8 (le_word [b0, b1, b2, b3])) = b1"
    "ucast (drop_bit 16 (le_word [b0, b1, b2, b3])) = b2" "ucast (drop_bit 24 (le_word [b0, b1, b2, b3])) = b3"
    unfolding le_word4 by (rule bit_word_eqI, auto simp: bit_simps dest: bit_imp_le_length)+
  then show ?thesis by (simp add: le_bytes_def)
qed

lemma le_word_bytes: "le_word (le_bytes w) = w"
proof (rule bit_word_eqI)
  fix n assume "n < LENGTH(32)"
  then show "bit (le_word (le_bytes w)) n = bit w n"
    unfolding le_bytes_def le_word4 by (cases "n < 8"; cases "n < 16"; cases "n < 24") (auto simp: bit_simps)
qed

lemma le_bytes_list:
  assumes "length bs = 4"
  shows "le_bytes (le_word bs) = bs"
proof -
  from assms obtain b0 b1 b2 b3 where "bs = [b0, b1, b2, b3]"
    by (auto simp: eval_nat_numeral length_Suc_conv)
  then show ?thesis by (simp add: le_bytes_word)
qed

section \<open>Writing\<close>

text \<open>The status that \<open>flash_error\<close> accepts: ready, and none of the error bits.\<close>

definition st_ok :: "u32 \<Rightarrow> bool" where
  "st_ok code = (code AND 0x80000000 = 0 \<and> NOT code AND 0x00800080 = 0 \<and> code AND 0x007E007E = 0)"

text \<open>
  The chip's data sheet, as far as the driver relies on it: a word programmed without an error holds
  the bits that were set before and in the data; an erase without an error leaves the cells of the
  sector set, and nothing else changed.
\<close>

definition chip_ok :: "chip \<Rightarrow> (addr \<Rightarrow> addr set) \<Rightarrow> bool" where
  "chip_ok chip sector =
     ((\<forall>a d m st. fst (chip_program chip a d m) = Some st \<longrightarrow> st_ok st \<longrightarrow>
         snd (chip_program chip a d m) = store_bytes m a (le_bytes (le_word (bytes_at m a 4) AND d)))
      \<and> (\<forall>a m st. fst (chip_erase chip a m) = Some st \<longrightarrow> st_ok st \<longrightarrow>
         snd (chip_erase chip a m) = (\<lambda>x. if x \<in> sector a then 0xFF else m x)))"

lemma and_part: "(c :: u32) AND m = 0 \<Longrightarrow> m AND n = n \<Longrightarrow> c AND n = 0"
  by (metis and.assoc bit.conj_zero_left)

lemma flash_fail_rc: "flash_fail cfg msg k s = Inr (rc, s') \<Longrightarrow> rc = k"
  by (auto simp: flash_fail_def elim!: sbind_InrE)

lemma flash_error_ok:
  assumes "flash_error cfg code s = Inr (rc, s')"
  shows "rc = 0 \<Longrightarrow> st_ok code \<and> s' = s" "st_ok code \<Longrightarrow> rc = 0"
proof -
  have bits: "code AND 0x007E007E = 0 \<longleftrightarrow> code AND 0x00080008 = 0 \<and> code AND 0x00020002 = 0
      \<and> code AND 0x00300030 = 0 \<and> code AND 0x00400040 = 0 \<and> code AND 0x00040004 = 0"
  proof
    assume "code AND 0x007E007E = 0"
    from and_part [OF this] show "code AND 0x00080008 = 0 \<and> code AND 0x00020002 = 0
      \<and> code AND 0x00300030 = 0 \<and> code AND 0x00400040 = 0 \<and> code AND 0x00040004 = 0" by simp
  next
    assume a: "code AND 0x00080008 = 0 \<and> code AND 0x00020002 = 0
      \<and> code AND 0x00300030 = 0 \<and> code AND 0x00400040 = 0 \<and> code AND 0x00040004 = 0"
    have "(0x007E007E :: u32) = 0x00080008 OR 0x00020002 OR 0x00300030 OR 0x00400040 OR 0x00040004" by simp
    then have "code AND 0x007E007E = (code AND 0x00080008) OR (code AND 0x00020002) OR (code AND 0x00300030)
      OR (code AND 0x00400040) OR (code AND 0x00040004)" by (simp only: bit.conj_disj_distrib)
    with a show "code AND 0x007E007E = 0" by simp
  qed
  have sub: "code AND 0x00300030 = 0 \<Longrightarrow> code AND 0x00200020 = 0 \<and> code AND 0x00100010 = 0"
    using and_part [of code "0x00300030"] by simp
  have "rc \<noteq> 0" if "\<not> st_ok code"
    using that assms sub unfolding flash_error_def st_ok_def bits
    by (auto split: if_splits dest: flash_fail_rc)
  moreover have "rc = 0 \<and> s' = s" if "st_ok code"
    using that assms sub unfolding flash_error_def st_ok_def bits by simp
  ultimately show "rc = 0 \<Longrightarrow> st_ok code \<and> s' = s" "st_ok code \<Longrightarrow> rc = 0" by auto
qed

lemma write_word_stores:
  assumes "chip_ok chip sector" "write_word cfg chip a (le_word bs) s = Inr (0, s')" "length bs = 4"
  shows "s' = s\<lparr>memory := store_bytes (memory s) a bs\<rparr>"
proof -
  obtain r m where p: "chip_program chip a (le_word bs) (memory s) = (r, m)" by fastforce
  let ?old = "le_word (bytes_at (memory s) a 4)"
  have old: "?old AND le_word bs = le_word bs"
  proof (rule ccontr)
    assume "?old AND le_word bs \<noteq> le_word bs"
    with assms(2) show False by (simp add: write_word_def)
  qed
  with assms(2) p have f: "flash_error cfg (loop_result r) (s\<lparr>memory := m\<rparr>) = Inr (0, s')"
    by (simp add: write_word_def)
  from flash_error_ok(1) [OF f] have ok: "st_ok (loop_result r)" "s' = s\<lparr>memory := m\<rparr>" by simp_all
  have "r \<noteq> None"
  proof
    assume "r = None"
    with ok(1) show False by (simp add: loop_result_def st_ok_def)
  qed
  then obtain st where "r = Some st" by blast
  with ok(1) p have "fst (chip_program chip a (le_word bs) (memory s)) = Some st" "st_ok st"
    by (simp_all add: loop_result_def)
  with assms(1) have "snd (chip_program chip a (le_word bs) (memory s))
      = store_bytes (memory s) a (le_bytes (?old AND le_word bs))" unfolding chip_ok_def by blast
  with p have "m = store_bytes (memory s) a (le_bytes (?old AND le_word bs))" by simp
  with ok(2) old le_bytes_list [OF assms(3)] show ?thesis by simp
qed

lemma write_words_stores:
  assumes "chip_ok chip sector" "write_words cfg chip src al wp s = Inr ((0, rest, wp'), s')"
  shows "\<exists>pre. src = pre @ rest \<and> length rest < 4 \<and> wp' = wp + of_nat (length pre)
    \<and> s' = s\<lparr>memory := store_bytes (memory s) wp pre\<rparr>"
  using assms
proof (induction cfg chip src al wp s arbitrary: rest wp' s' rule: write_words.induct)
  case (1 cfg chip b0 b1 b2 b3 src al wp s)
  let ?w = "[b0, b1, b2, b3]"
  from 1(3) obtain rc s1 where al: "al mod 4 = 0" and w: "write_word cfg chip wp (le_word ?w) s = Inr (rc, s1)"
    by (auto elim!: sbind_InrE split: if_splits)
  with 1(3) have rc: "rc = 0" and r: "write_words cfg chip src al (wp + 4) s1 = Inr ((0, rest, wp'), s')"
    by (auto split: if_splits)
  have s1: "s1 = s\<lparr>memory := store_bytes (memory s) wp ?w\<rparr>"
    using write_word_stores [OF 1(2) w[unfolded rc]] by simp
  from 1(1) [OF _ w refl _ 1(2) r] al rc obtain pre where
    pre: "src = pre @ rest" "length rest < 4" "wp' = wp + 4 + of_nat (length pre)"
      "s' = s1\<lparr>memory := store_bytes (memory s1) (wp + 4) pre\<rparr>" by auto
  have "store_bytes (memory s1) (wp + 4) pre = store_bytes (memory s) wp (?w @ pre)"
    unfolding store_bytes_append by (simp add: s1)
  with pre s1 show ?case by (intro exI [of _ "?w @ pre"]) (simp add: add.assoc)
qed (auto simp: store_bytes.simps)

lemma write_tail_stores:
  assumes "chip_ok chip sector" "write_tail cfg chip src wp s = Inr (0, s')" "length src \<le> 4"
  shows "s' = s\<lparr>memory := store_bytes (memory s) wp src\<rparr>"
proof -
  let ?w = "src @ bytes_at (memory s) (wp + of_nat (length src)) (4 - length src)"
  have "s' = s\<lparr>memory := store_bytes (memory s) wp ?w\<rparr>"
    by (rule write_word_stores [OF assms(1) assms(2)[unfolded write_tail_def]]) (use assms(3) in simp)
  moreover have "store_bytes (memory s) wp ?w = store_bytes (memory s) wp src"
    using store_around [of 0 src "4 - length src" "memory s" wp] assms(3) by simp
  ultimately show ?thesis by simp
qed

lemma write_head_stores:
  assumes "chip_ok chip sector" "write_head cfg chip src wp l s = Inr (0, s')" "l < 4"
  shows "s' = s\<lparr>memory := store_bytes (memory s) (wp + of_nat l) (take (4 - l) src)\<rparr>"
proof -
  let ?n = "take (4 - l) src"
  let ?w = "bytes_at (memory s) wp l @ ?n @ bytes_at (memory s) (wp + of_nat (l + length ?n)) (4 - (l + length ?n))"
  have "s' = s\<lparr>memory := store_bytes (memory s) wp ?w\<rparr>"
    by (rule write_word_stores [OF assms(1) assms(2)[unfolded write_head_def Let_def]]) (use assms(3) in simp)
  moreover have "store_bytes (memory s) wp ?w = store_bytes (memory s) (wp + of_nat l) ?n"
    by (rule store_around) (use assms(3) in simp)
  ultimately show ?thesis by simp
qed

lemma word_low2: "addr - (addr AND NOT 3) = addr AND (3 :: u32)"
proof -
  have "(addr AND NOT 3) AND (addr AND 3) = 0" by (rule bit_word_eqI) (auto simp: bit_simps)
  from disjunctive_add_eq_or [OF this] have "(addr AND NOT 3) + (addr AND 3) = (addr AND NOT 3) OR (addr AND 3)" .
  also have "\<dots> = addr" by (rule bit_word_eqI) (auto simp: bit_simps)
  finally show ?thesis by (simp add: algebra_simps)
qed

lemma unat_low2: "unat (addr AND (3 :: u32)) < 4"
proof -
  have "addr AND 3 = take_bit 2 addr" by (simp add: take_bit_eq_mask mask_numeral)
  then show ?thesis by (simp add: unsigned_take_bit_eq take_bit_nat_less_exp [of 2, simplified])
qed

lemma write_buff_stores:
  assumes "chip_ok chip sector" "write_buff cfg chip src al addr s = Inr (0, s')"
  shows "s' = s\<lparr>memory := store_bytes (memory s) addr src\<rparr>"
proof -
  define wp where "wp = addr AND NOT 3"
  define l where "l = unat (addr - wp)"
  have l4: "l < 4" unfolding l_def wp_def word_low2 by (rule unat_low2)
  have addr: "wp + of_nat l = addr" by (simp add: l_def)
  define src1 where "src1 = (if l \<noteq> 0 then drop (4 - l) src else src)"
  define al1 where "al1 = (if l \<noteq> 0 then al + (4 - l) else al)"
  define wp1 where "wp1 = (if l \<noteq> 0 then wp + 4 else wp)"
  define new where "new = (if l \<noteq> 0 then take (4 - l) src else [])"
  obtain rc s1 where h: "(if l \<noteq> 0 then write_head cfg chip src wp l s else Inr (0, s)) = Inr (rc, s1)"
    using assms(2) unfolding write_buff_def Let_def wp_def [symmetric] l_def [symmetric]
    by (cases "if l \<noteq> 0 then write_head cfg chip src wp l s else Inr (0, s)") auto
  have "(if l \<noteq> 0 then (drop (4 - l) src, al + (4 - l), wp + 4) else (src, al, wp)) = (src1, al1, wp1)"
    by (simp add: src1_def al1_def wp1_def)
  with assms(2) h have rc: "rc = 0"
    and w: "sbind (write_words cfg chip src1 al1 wp1 s1) (\<lambda>((rc, src, wp), s).
            if rc \<noteq> 0 then Inr (rc, s)
            else if src = [] then Inr (ERR_OK, s)
            else write_tail cfg chip src wp s) = Inr (0, s')"
    unfolding write_buff_def Let_def wp_def [symmetric] l_def [symmetric] by (auto split: if_splits)
  have s1: "s1 = s\<lparr>memory := store_bytes (memory s) addr new\<rparr>"
  proof (cases "l = 0")
    case False
    with h rc write_head_stores [OF assms(1) _ l4, of cfg src wp s s1] show ?thesis by (simp add: addr new_def)
  qed (use h rc in \<open>simp add: new_def\<close>)
  from w obtain rest wp2 s2 where ww: "write_words cfg chip src1 al1 wp1 s1 = Inr ((0, rest, wp2), s2)"
    and t: "(if rest = [] then Inr (ERR_OK, s2) else write_tail cfg chip rest wp2 s2) = Inr (0, s')"
    by (auto elim!: sbind_InrE split: if_splits)
  from write_words_stores [OF assms(1) ww] obtain pre where
    pre: "src1 = pre @ rest" "length rest < 4" "wp2 = wp1 + of_nat (length pre)"
      "s2 = s1\<lparr>memory := store_bytes (memory s1) wp1 pre\<rparr>" by blast
  have s': "s' = s2\<lparr>memory := store_bytes (memory s2) wp2 rest\<rparr>"
  proof (cases "rest = []")
    case False
    with t write_tail_stores [OF assms(1) _, of cfg rest wp2 s2 s'] pre(2) show ?thesis by simp
  qed (use t in simp)
  have src: "src = new @ src1" by (simp add: new_def src1_def)
  have "src1 = [] \<or> wp1 = addr + of_nat (length new)"
  proof (cases "l = 0")
    case False
    then have "src1 = [] \<or> length new = 4 - l" by (auto simp: src1_def new_def)
    moreover have "wp + 4 = addr + of_nat (4 - l)" using l4 by (simp add: addr [symmetric] of_nat_diff)
    ultimately show ?thesis using False by (auto simp: wp1_def)
  qed (simp add: new_def wp1_def addr [symmetric])
  then have "memory s' = store_bytes (memory s) addr src"
  proof
    assume "src1 = []"
    then have "pre = []" "rest = []" "src = new" using pre(1) src by auto
    then show ?thesis by (simp add: s' pre(4) s1)
  next
    assume "wp1 = addr + of_nat (length new)"
    then show ?thesis by (simp add: s' pre s1 src store_bytes_append add.assoc)
  qed
  then show ?thesis by (simp add: s' pre(4) s1)
qed

lemma addr2info_loop_bank:
  "addr2info_loop a infos k = Some i \<Longrightarrow> k \<le> i \<and> i - k < length infos \<and> in_bank a (infos ! (i - k))"
proof (induction infos arbitrary: k)
  case (Cons info infos)
  show ?case
  proof (cases "in_bank a info")
    case False
    with Cons.prems have "addr2info_loop a infos (k + 1) = Some i" by simp
    from Cons.IH [OF this] show ?thesis by (auto simp: nth_Cons' Suc_le_eq)
  qed (use Cons.prems in simp)
qed simp

lemma addr2info_bank:
  assumes "addr2info a s = Some i"
  shows "i < length (flash_info s)" "in_bank a (flash_info s ! i)"
  using addr2info_loop_bank [OF assms[unfolded addr2info_def]] by simp_all

lemma unat_1_plus: "(x :: u32) \<noteq> - 1 \<Longrightarrow> unat (1 + x) = Suc (unat x)"
proof -
  assume "x \<noteq> - 1"
  then have n: "1 + x \<noteq> 0" by (metis add.commute eq_neg_iff_add_eq_0)
  from unat_minus_one [OF this] have "unat x = unat (1 + x) - 1" by simp
  moreover from n have "0 < unat (1 + x)" by (metis neq0_conv unat_eq_0)
  ultimately show ?thesis by linarith
qed

lemma bank_room:
  assumes "in_bank addr info" "in_bank (addr + cnt - 1) info" "fi_size info \<noteq> 0" "cnt \<noteq> 0"
    "unat addr + unat cnt \<le> 2 ^ 32"
  shows "cnt \<le> bank_start info + fi_size info - addr"
proof -
  let ?B = "bank_start info + fi_size info - 1"
  from assms(1,2) have b: "bank_start info \<le> addr" "addr \<le> ?B" "addr + cnt - 1 \<le> ?B" by (simp_all add: in_bank_def)
  have c: "1 \<le> unat cnt" using assms(4) by (simp add: Suc_leI unat_gt_0)
  have e: "unat (addr + cnt - 1) = unat addr + unat cnt - 1"
  proof -
    have "addr + cnt - 1 = addr + of_nat (unat cnt - 1)" using c by (simp add: of_nat_diff)
    moreover have "unat addr + (unat cnt - 1) < 2 ^ 32" using assms(5) c by linarith
    ultimately show ?thesis using unat_offset [of addr "unat cnt - 1"] c by (simp add: algebra_simps)
  qed
  have "unat cnt - 1 \<le> unat (?B - addr)"
    using b(2,3) e by (simp add: unat_sub word_le_nat_alt)
  moreover have "?B - addr \<noteq> - 1"
  proof
    assume "?B - addr = - 1"
    then have B: "?B = addr - 1" by (simp add: algebra_simps)
    have "addr = 0"
    proof (rule ccontr)
      assume "addr \<noteq> 0"
      then have "unat (addr - 1) < unat addr" by (simp add: unat_minus_one unat_gt_0)
      with b(2) B show False by (simp add: word_le_nat_alt)
    qed
    with b(1) have "bank_start info = 0" by (simp add: word_le_0_iff)
    with B \<open>addr = 0\<close> assms(3) show False by simp
  qed
  from unat_1_plus [OF this] have "unat (1 + (?B - addr)) = Suc (unat (?B - addr))" .
  ultimately have "unat cnt \<le> unat (1 + (?B - addr))" by linarith
  moreover have "1 + (?B - addr) = bank_start info + fi_size info - addr" by (simp add: algebra_simps)
  ultimately show ?thesis by (simp only: word_le_nat_alt)
qed

lemma flash_write_one_bank:
  assumes "unat cnt = length src" "cnt \<noteq> 0" "unat addr + unat cnt \<le> 2 ^ 32"
    and "addr2info addr s = Some i" "addr2info (addr + cnt - 1) s = Some i" "fi_size (flash_info s ! i) \<noteq> 0"
  shows "flash_write cfg chip src al addr cnt s =
    sbind (banks_protected addr (addr + cnt - 1) [flash_info s ! i]) (\<lambda>hit.
      if hit then Inr (ERR_PROTECTED, s)
      else sbind (write_buff cfg chip src al addr s) (\<lambda>(rc, s). Inr (rc, s)))"
proof -
  let ?info = "flash_info s ! i"
  note b = addr2info_bank [OF assms(4)] addr2info_bank [OF assms(5)]
  have t: "take (i + 1 - i) (drop i (flash_info s)) = [?info]"
    using b(1) by (simp add: take_Suc_conv_app_nth hd_drop_conv_nth take_Suc)
  have w: "flash_write_banks cfg chip [?info] src al addr cnt s
      = sbind (write_buff cfg chip src al addr s) (\<lambda>(rc, s). Inr (rc, s))"
  proof -
    have "cnt \<le> bank_start ?info + fi_size ?info - addr" by (rule bank_room [OF b(2,4) assms(6,2,3)])
    then have n: "(let room = bank_start ?info + fi_size ?info - addr in if cnt < room then cnt else room) = cnt"
      by (auto simp: Let_def)
    show ?thesis
    proof (cases "cnt < bank_start ?info + fi_size ?info - addr")
      case True
      then show ?thesis using assms(1,2) by (cases "write_buff cfg chip src al addr s") (auto simp: Let_def)
    next
      case False
      with n have "bank_start ?info + fi_size ?info - addr = cnt" by (simp add: Let_def)
      then show ?thesis using assms(1,2) by (cases "write_buff cfg chip src al addr s") (auto simp: Let_def)
    qed
  qed
  show ?thesis
    using assms(2,4,5) unfolding flash_write_def Let_def by (simp only: t w if_False option.case prod.case)
qed

lemma flash_write_mem:
  assumes "chip_ok chip sector" "flash_write cfg chip src al addr cnt s = Inr (ERR_OK, s')"
    and "unat cnt = length src" "cnt \<noteq> 0" "unat addr + unat cnt \<le> 2 ^ 32"
    and "addr2info addr s = Some i" "addr2info (addr + cnt - 1) s = Some i" "fi_size (flash_info s ! i) \<noteq> 0"
  shows "s' = s\<lparr>memory := memory s'\<rparr> \<and> bytes_at (memory s') addr (length src) = src
    \<and> (\<forall>x. x \<notin> region addr (length src) \<longrightarrow> memory s' x = memory s x)"
proof -
  from assms(2) have "write_buff cfg chip src al addr s = Inr (ERR_OK, s')"
    unfolding flash_write_one_bank [OF assms(3-8)] by (auto elim!: sbind_InrE split: if_splits)
  from write_buff_stores [OF assms(1) this] have s': "s' = s\<lparr>memory := store_bytes (memory s) addr src\<rparr>" .
  have "length src < 2 ^ 32" using assms(3) unat_u32_less [of cnt] by simp
  with s' show ?thesis by (simp add: bytes_at_store_bytes memory_store_bytes)
qed

text \<open>
  C20: a write that reports \<open>ERR_OK\<close> has stored the data, and changed no other cell: the bytes that
  share the first and the last word with it are as they were.
\<close>

theorem flash_write_stores:
  assumes "chip_ok chip sector" "flash_write cfg chip src al addr cnt s = Inr (ERR_OK, s')"
    and "unat cnt = length src" "cnt \<noteq> 0" "unat addr + unat cnt \<le> 2 ^ 32"
    and "addr2info addr s = Some i" "addr2info (addr + cnt - 1) s = Some i" "fi_size (flash_info s ! i) \<noteq> 0"
  shows "s' = s\<lparr>memory := memory s'\<rparr> \<and> bytes_at (memory s') addr (length src) = src
    \<and> (\<forall>x. x \<notin> region addr (length src) \<longrightarrow> memory s' x = memory s x)"
  by (rule flash_write_mem [OF assms])

text \<open>A chip that always succeeds, and a bank of one erased sector.\<close>

definition nor_chip :: "(addr \<Rightarrow> addr set) \<Rightarrow> chip" where
  "nor_chip sector =
     \<lparr>chip_erase = \<lambda>a m. (Some 0x00800080, \<lambda>x. if x \<in> sector a then 0xFF else m x),
      chip_program = \<lambda>a d m. (Some 0x00800080, store_bytes m a (le_bytes (le_word (bytes_at m a 4) AND d)))\<rparr>"

definition one_bank :: "byte \<Rightarrow> flash_info_t" where
  "one_bank p = \<lparr>fi_size = 0x1000, sector_count = 1, flash_id = 0, fi_start = [0x10000], fi_protect = [p]\<rparr>"

lemma nor_chip_ok: "chip_ok (nor_chip sector) sector"
  by (simp add: chip_ok_def nor_chip_def)

theorem flash_write_stores_witness:
  "\<exists>s'. flash_write dnp1110 (nor_chip (\<lambda>a. region a 0x1000)) [0x11, 0x22] 0 0x10001 2
      ((reset_sys 0)\<lparr>memory := \<lambda>_. 0xFF, flash_info := [one_bank 0]\<rparr>) = Inr (ERR_OK, s')
    \<and> bytes_at (memory s') 0x10001 2 = [0x11, 0x22] \<and> memory s' 0x10000 = 0xFF"
proof -
  let ?s = "(reset_sys 0)\<lparr>memory := \<lambda>_. 0xFF, flash_info := [one_bank 0]\<rparr>"
  have m: "bytes_at (\<lambda>_. 0xFF) a n = replicate n (0xFF :: byte)" for a n
    by (simp add: bytes_at_def map_replicate_const)
  have a: "addr2info 0x10001 ?s = Some 0" "addr2info (0x10001 + 2 - 1) ?s = Some 0" "fi_size (flash_info ?s ! 0) \<noteq> 0"
    by (simp_all add: addr2info_def in_bank_def one_bank_def)
  have m4: "bytes_at (\<lambda>_. 0xFF) a 4 = [0xFF, 0xFF, 0xFF, 0xFF :: byte]" for a
    by (simp add: m) (simp add: eval_nat_numeral)
  have m1: "bytes_at (\<lambda>_. 0xFF) a (Suc 0) = [0xFF :: byte]" for a by (simp add: m)
  have "\<exists>s'. write_buff dnp1110 (nor_chip (\<lambda>a. region a 0x1000)) [0x11, 0x22] 0 0x10001 ?s = Inr (ERR_OK, s')"
    by (simp add: write_buff_def write_head_def write_word_def m4 m1 nor_chip_def flash_error_def loop_result_def
        le_word4 Let_def)
  then obtain s' where "flash_write dnp1110 (nor_chip (\<lambda>a. region a 0x1000)) [0x11, 0x22] 0 0x10001 2 ?s = Inr (ERR_OK, s')"
    using flash_write_one_bank [of 2 "[0x11, 0x22]" "0x10001" ?s 0] a
    by (auto simp: sect_start_def sect_prot_def ub_def one_bank_def)
  moreover from flash_write_stores [OF nor_chip_ok this _ _ _ a]
  have st: "bytes_at (memory s') 0x10001 (length [0x11, 0x22 :: byte]) = [0x11, 0x22]"
    "\<forall>x. x \<notin> region 0x10001 (length [0x11, 0x22 :: byte]) \<longrightarrow> memory s' x = memory ?s x" by simp_all
  have "length [0x11, 0x22 :: byte] = 2" "(0x10000 :: addr) \<notin> region 0x10001 (length [0x11, 0x22 :: byte])"
    by (simp_all add: region_Suc)
  note len = this
  have "bytes_at (memory s') 0x10001 2 = [0x11, 0x22]" using st(1) unfolding len(1) .
  moreover have "memory s' 0x10000 = 0xFF" using st(2) len(2) by simp
  ultimately show ?thesis by (intro exI conjI)
qed

section \<open>Protection\<close>

text \<open>Whether a sector of a bank meets a range, as \<open>flash_write\<close> decides it.\<close>

lemma hits_protected_iff:
  assumes "\<forall>i\<in>set is. i < sector_count info" "sector_count info \<le> length (fi_start info)"
    "sector_count info \<le> length (fi_protect info)"
  shows "hits_protected addr end info is = Inr (\<exists>i\<in>set is. fi_start info ! i \<le> end
    \<and> addr < (if i + 1 = sector_count info then bank_start info + fi_size info else fi_start info ! (i + 1))
    \<and> fi_protect info ! i \<noteq> 0)"
  using assms(1)
proof (induction "is")
  case (Cons i "is")
  then have "i < sector_count info" by simp
  moreover from this have "i + 1 = sector_count info \<or> i + 1 < length (fi_start info)" using assms(2) by linarith
  ultimately show ?case
    using Cons assms(2,3) by (auto simp: sect_start_def sect_prot_def ub_def)
qed simp

lemma flash_write_refused:
  assumes "unat cnt = length src" "cnt \<noteq> 0" "unat addr + unat cnt \<le> 2 ^ 32"
    and "addr2info addr s = Some i" "addr2info (addr + cnt - 1) s = Some i"
    and "info = flash_info s ! i" "fi_size info \<noteq> 0" "unat (bank_start info) + unat (fi_size info) < 2 ^ 32"
    and "sector_count info \<le> length (fi_start info)" "sector_count info \<le> length (fi_protect info)"
    and "k < sector_count info" "fi_protect info ! k \<noteq> 0" "fi_start info ! k \<le> addr + cnt - 1"
    and "k + 1 < sector_count info \<longrightarrow> addr < fi_start info ! (k + 1)"
  shows "flash_write cfg chip src al addr cnt s = Inr (ERR_PROTECTED, s)"
proof -
  have "addr \<le> bank_start info + fi_size info - 1"
    using addr2info_bank(2) [OF assms(4)] assms(6) by (simp add: in_bank_def)
  moreover have "unat (bank_start info + fi_size info) = unat (bank_start info) + unat (fi_size info)"
    using assms(8) by (simp add: unat_word_ariths)
  moreover from this assms(7) have "bank_start info + fi_size info \<noteq> 0"
    by (metis add_is_0 unat_0 unat_eq_0)
  ultimately have top: "addr < bank_start info + fi_size info"
    by (simp add: word_le_nat_alt word_less_nat_alt unat_minus_one) (metis Suc_pred le_imp_less_Suc unat_gt_0 unat_eq_0 neq0_conv)
  have "\<exists>i\<in>set [0..<sector_count info]. fi_start info ! i \<le> addr + cnt - 1
    \<and> addr < (if i + 1 = sector_count info then bank_start info + fi_size info else fi_start info ! (i + 1))
    \<and> fi_protect info ! i \<noteq> 0"
    using assms(11-14) top by (intro bexI [of _ k]) (auto split: if_splits)
  then have "hits_protected addr (addr + cnt - 1) info [0..<sector_count info] = Inr True"
    using hits_protected_iff [of "[0..<sector_count info]" info addr "addr + cnt - 1"] assms(9,10) by simp
  then show ?thesis
    unfolding flash_write_one_bank [OF assms(1-5) assms(7)[unfolded assms(6)]] by (simp add: assms(6))
qed

text \<open>
  C21: a write that meets a protected sector is refused and changes nothing, in a bank that does not end at the
  end of the address space.
\<close>

theorem flash_write_respects_protection:
  assumes "unat cnt = length src" "cnt \<noteq> 0" "unat addr + unat cnt \<le> 2 ^ 32"
    and "addr2info addr s = Some i" "addr2info (addr + cnt - 1) s = Some i"
    and "info = flash_info s ! i" "fi_size info \<noteq> 0" "unat (bank_start info) + unat (fi_size info) < 2 ^ 32"
    and "sector_count info \<le> length (fi_start info)" "sector_count info \<le> length (fi_protect info)"
    and "k < sector_count info" "fi_protect info ! k \<noteq> 0" "fi_start info ! k \<le> addr + cnt - 1"
    and "k + 1 < sector_count info \<longrightarrow> addr < fi_start info ! (k + 1)"
  shows "flash_write cfg chip src al addr cnt s = Inr (ERR_PROTECTED, s)"
  by (rule flash_write_refused [OF assms])

theorem flash_write_respects_protection_witness:
  "flash_write dnp1110 (nor_chip (\<lambda>a. region a 0x1000)) [0] 0 0x10FFF 1 ((reset_sys 0)\<lparr>flash_info := [one_bank 1]\<rparr>)
    = Inr (ERR_PROTECTED, (reset_sys 0)\<lparr>flash_info := [one_bank 1]\<rparr>)"
  by (rule flash_write_respects_protection [where i = 0 and k = 0 and info = "one_bank 1"])
    (simp_all add: addr2info_def in_bank_def one_bank_def)

text \<open>
  in a bank that ends at the end of the address space, \<^verbatim>\<open>info->start[0] + info->size\<close> is 0 and the
  protection of its last sector is never seen.
\<close>

theorem flash_write_misses_last_sector:
  assumes "bank_start info + fi_size info = 0" "sector_count info = Suc n"
    and "n < length (fi_start info)" "n < length (fi_protect info)" "\<forall>i<n. fi_protect info ! i = 0"
  shows "banks_protected addr end [info] = Inr False"
  using hits_protected_iff [of "[0..<sector_count info]" info addr "end"] assms by auto

theorem flash_write_misses_last_sector_witness:
  "banks_protected 0xFFFF0000 0xFFFFFFFF
    [\<lparr>fi_size = 0x10000, sector_count = 1, flash_id = 0, fi_start = [0xFFFF0000], fi_protect = [1]\<rparr>] = Inr False"
  by (rule flash_write_misses_last_sector [where n = 0]) simp_all

text \<open>The sectors of a bank as \<open>flash_protect\<close> sees them: the last address of each.\<close>

definition last_of :: "flash_info_t \<Rightarrow> nat \<Rightarrow> u32" where
  "last_of info i =
     (if i + 1 = sector_count info then bank_start info + fi_size info - 1 else fi_start info ! (i + 1) - 1)"

definition bank_wf :: "flash_info_t \<Rightarrow> bool" where
  "bank_wf info = (sector_count info \<le> length (fi_start info) \<and> length (fi_protect info) = length (fi_start info))"

lemma sect_lookup:
  assumes "bank_wf info" "i < sector_count info"
  shows "sect_start info i = Inr (fi_start info ! i)" "sect_last info i = Inr (last_of info i)"
    "sect_prot info i = Inr (fi_protect info ! i)"
    "set_protect p i info = Inr (info\<lparr>fi_protect := (fi_protect info)[i := p]\<rparr>)"
proof -
  from assms have "i + 1 = sector_count info \<or> i + 1 < length (fi_start info)" by (auto simp: bank_wf_def)
  with assms show "sect_start info i = Inr (fi_start info ! i)" "sect_last info i = Inr (last_of info i)"
    "sect_prot info i = Inr (fi_protect info ! i)"
    "set_protect p i info = Inr (info\<lparr>fi_protect := (fi_protect info)[i := p]\<rparr>)"
    by (auto simp: sect_start_def sect_last_def last_of_def sect_prot_def set_protect_def ub_def bank_wf_def)
qed

lemma flash_protect_loop_marks:
  assumes "bank_wf info" "\<forall>i\<in>set is. i < sector_count info"
  shows "\<exists>ps. flash_protect_loop 1 from to is info = Inr (info\<lparr>fi_protect := ps\<rparr>) \<and> length ps = length (fi_protect info)
    \<and> (\<forall>k<length ps. ps ! k =
      (if k \<in> set is \<and> from \<le> last_of info k \<and> fi_start info ! k \<le> to then 1 else fi_protect info ! k))"
  using assms
proof (induction "is" arbitrary: info)
  case Nil
  then show ?case by (intro exI [of _ "fi_protect info"]) simp
next
  case (Cons i "is")
  let ?hit = "from \<le> last_of info i \<and> fi_start info ! i \<le> to"
  let ?info = "if ?hit then info\<lparr>fi_protect := (fi_protect info)[i := 1]\<rparr> else info"
  have i: "i < sector_count info" using Cons.prems(2) by simp
  have l: "last_of ?info k = last_of info k" "fi_start ?info = fi_start info" for k by (simp_all add: last_of_def)
  have "bank_wf ?info" "\<forall>k\<in>set is. k < sector_count ?info" using Cons.prems by (simp_all add: bank_wf_def)
  from Cons.IH [OF this] obtain ps where
    ps: "flash_protect_loop 1 from to is ?info = Inr (?info\<lparr>fi_protect := ps\<rparr>)"
      "length ps = length (fi_protect ?info)"
      "\<forall>k<length ps. ps ! k =
        (if k \<in> set is \<and> from \<le> last_of info k \<and> fi_start info ! k \<le> to then 1 else fi_protect ?info ! k)"
    unfolding l by blast
  have "flash_protect_loop 1 from to (i # is) info = flash_protect_loop 1 from to is ?info"
    using sect_lookup [OF Cons.prems(1) i] by simp
  moreover have "?info\<lparr>fi_protect := ps\<rparr> = info\<lparr>fi_protect := ps\<rparr>" by simp
  moreover have "ps ! k = (if k \<in> set (i # is) \<and> from \<le> last_of info k \<and> fi_start info ! k \<le> to then 1
      else fi_protect info ! k)" if "k < length ps" for k
  proof -
    have "i < length (fi_protect info)" using i Cons.prems(1) by (simp add: bank_wf_def)
    then have "fi_protect ?info ! k = (if k = i \<and> ?hit then 1 else fi_protect info ! k)" by simp
    with ps(3) that show ?thesis by auto
  qed
  ultimately show ?case using ps(1,2) by (intro exI [of _ ps]) simp
qed

lemma flash_protect_sects:
  assumes "bank_wf info" "from \<le> to" "flash_id info \<noteq> FLASH_UNKNOWN" "sector_count info \<noteq> 0" "fi_size info \<noteq> 0"
    and "bank_start info \<le> to" "from \<le> bank_start info + fi_size info - 1"
  shows "\<exists>ps. flash_protect 1 from to info = Inr (info\<lparr>fi_protect := ps\<rparr>) \<and> length ps = length (fi_protect info)
    \<and> (\<forall>k < sector_count info. ps ! k =
      (if from \<le> last_of info k \<and> fi_start info ! k \<le> to then 1 else fi_protect info ! k))"
proof -
  have "\<forall>i\<in>set [0..<sector_count info]. i < sector_count info" by simp
  from flash_protect_loop_marks [OF assms(1) this, of "from" to] obtain ps where
    ps: "flash_protect_loop 1 from to [0..<sector_count info] info = Inr (info\<lparr>fi_protect := ps\<rparr>)"
      "length ps = length (fi_protect info)"
      "\<forall>k<length ps. ps ! k = (if k \<in> set [0..<sector_count info] \<and> from \<le> last_of info k
        \<and> fi_start info ! k \<le> to then 1 else fi_protect info ! k)" by blast
  have "sector_count info \<le> length ps" using assms(1) ps(2) by (simp add: bank_wf_def)
  with ps(3) have "\<forall>k < sector_count info. ps ! k =
      (if from \<le> last_of info k \<and> fi_start info ! k \<le> to then 1 else fi_protect info ! k)" by auto
  moreover have "flash_protect 1 from to info = Inr (info\<lparr>fi_protect := ps\<rparr>)"
    using ps(1) assms by (simp add: flash_protect_def not_less Let_def)
  ultimately show ?thesis using ps(2) by blast
qed

text \<open>
  C22: \<open>flash_protect\<close> with \<open>FLAG_PROTECT_SET\<close> marks exactly the sectors that have an address in common
  with the range.
\<close>

theorem flash_protect_marks:
  assumes "bank_wf info" "from \<le> to" "flash_id info \<noteq> FLASH_UNKNOWN" "sector_count info \<noteq> 0" "fi_size info \<noteq> 0"
    and "bank_start info \<le> to" "from \<le> bank_start info + fi_size info - 1"
  shows "\<exists>ps. flash_protect 1 from to info = Inr (info\<lparr>fi_protect := ps\<rparr>) \<and> length ps = length (fi_protect info)
    \<and> (\<forall>k < sector_count info. ps ! k =
      (if from \<le> last_of info k \<and> fi_start info ! k \<le> to then 1 else fi_protect info ! k))"
  by (rule flash_protect_sects [OF assms])

theorem flash_protect_marks_witness:
  "\<exists>ps. flash_protect 1 0x10800 0x20000 (one_bank 0) = Inr ((one_bank 0)\<lparr>fi_protect := ps\<rparr>) \<and> ps ! 0 = 1"
  using flash_protect_marks [of "one_bank 0" "0x10800" "0x20000"]
  by (auto simp: one_bank_def bank_wf_def last_of_def)

text \<open>
  C23: after \<open>flash_init\<close> of the board no write reaches the environment's sector: every range that meets it is
  refused, for every size of the boot loader.
\<close>

theorem flash_init_protects_environment:
  assumes "unat cnt = length src" "cnt \<noteq> 0" "unat addr + unat cnt \<le> 0x800000"
    and "unat addr < 0x20000" "0x1C000 < unat addr + unat cnt"
  shows "\<exists>s'. flash_init 39 code_size 0x1C000 0x4000 s = Inr (0x800000, s')
    \<and> flash_write cfg chip src al addr cnt s' = Inr (ERR_PROTECTED, s')"
proof -
  let ?b = "dnp1110_bank 39"
  have b: "bank_wf ?b" "flash_id ?b \<noteq> FLASH_UNKNOWN" "sector_count ?b = 39" "fi_size ?b = 0x800000" "bank_start ?b = 0"
    by (simp_all add: dnp1110_bank_def bank_wf_def)
  obtain p1 where p1: "flash_protect 1 0 (0 + code_size) ?b = Inr (?b\<lparr>fi_protect := p1\<rparr>)" "length p1 = 39"
    using flash_protect_sects [OF b(1), of 0 "0 + code_size"] b by (auto simp: dnp1110_bank_def)
  let ?b1 = "?b\<lparr>fi_protect := p1\<rparr>"
  have b1: "bank_wf ?b1" using b(1) p1(2) by (simp add: bank_wf_def dnp1110_bank_def)
  have s7: "fi_start ?b ! 7 = 0x1C000" "fi_start ?b ! 8 = 0x20000" by (simp_all add: dnp1110_bank_def)
  then have last7: "last_of ?b1 7 = 0x1FFFF" using b(3) by (simp add: last_of_def)
  obtain p2 where p2: "flash_protect 1 0x1C000 (0x1C000 + 0x4000 - 1) ?b1 = Inr (?b1\<lparr>fi_protect := p2\<rparr>)"
    "length p2 = 39" "p2 ! 7 = 1"
    using flash_protect_sects [OF b1, of "0x1C000" "0x1C000 + 0x4000 - 1"] b p1(2) s7 last7 by auto
  let ?info = "?b\<lparr>fi_protect := p2\<rparr>" and ?s = "s\<lparr>flash_info := [?b\<lparr>fi_protect := p2\<rparr>]\<rparr>"
  have init: "flash_init 39 code_size 0x1C000 0x4000 s = Inr (0x800000, ?s)"
    using p1(1) p2(1) b(4) by (simp add: flash_init_def Let_def)
  let ?fin = "addr + cnt - 1"
  have c1: "1 \<le> unat cnt" using assms(2) by (simp add: Suc_leI unat_gt_0)
  have e: "unat ?fin = unat addr + unat cnt - 1"
  proof -
    have "?fin = addr + of_nat (unat cnt - 1)" using c1 by (simp add: of_nat_diff)
    moreover have "unat addr + (unat cnt - 1) < 2 ^ 32" using assms(3) by simp
    ultimately show ?thesis using unat_offset [of addr "unat cnt - 1"] c1 by (simp add: algebra_simps)
  qed
  have a: "addr2info addr ?s = Some 0" "addr2info ?fin ?s = Some 0"
    using assms(3,4) e c1 b by (simp_all add: addr2info_def in_bank_def word_le_nat_alt)
  have "flash_write cfg chip src al addr cnt ?s = Inr (ERR_PROTECTED, ?s)"
  proof (rule flash_write_refused [OF assms(1,2) _ a, where info = ?info and k = 7])
    show "fi_start ?info ! 7 \<le> ?fin" using s7 e assms(5) by (simp add: word_le_nat_alt)
    show "7 + 1 < sector_count ?info \<longrightarrow> addr < fi_start ?info ! (7 + 1)"
      using s7 assms(4) by (simp add: word_less_nat_alt)
  qed (use assms(3) b p2 in \<open>simp_all add: dnp1110_bank_def\<close>)
  with init show ?thesis by blast
qed

theorem flash_init_protects_environment_witness:
  "\<exists>s'. flash_init 39 0x10000 0x1C000 0x4000 (reset_sys 0) = Inr (0x800000, s')
    \<and> flash_write dnp1110 (nor_chip (\<lambda>a. region a 4)) [0] 0 0x1FFFF 1 s' = Inr (ERR_PROTECTED, s')"
  by (rule flash_init_protects_environment) simp_all

section \<open>Erasing\<close>

lemma erase_banks_sign:
  "flash_sect_erase_banks cfg chip a b infos n s = Inr ((erased, rc), s') \<Longrightarrow> 0 \<le> n \<Longrightarrow>
    0 \<le> erased \<and> (rc = 0 \<or> 0 < erased)"
proof (induction infos arbitrary: n s)
  case (Cons info infos)
  show ?case
  proof (cases "flash_id info = FLASH_UNKNOWN")
    case True
    with Cons show ?thesis by simp
  next
    case False
    with Cons.prems(1) obtain sf sl where f: "find_sects a b info [0..<sector_count info] (-1, -1) = Inr (sf, sl)"
      by (auto elim!: sbind_InrE)
    show ?thesis
    proof (cases "0 \<le> sf \<and> sf \<le> sl")
      case False2: False
      with Cons False f show ?thesis by auto
    next
      case True
      with Cons.prems(1) False f obtain r s1 where
        "flash_erase cfg chip info sf sl s = Inr (r, s1)" by (auto elim!: sbind_InrE)
      with Cons False f True show ?thesis by (auto simp: Let_def split: if_splits)
    qed
  qed
qed simp

text \<open>
  \<open>flash_sect_erase\<close> never reports an error.  It counts the sectors before it erases them, and returns
  the count whenever there is one; for a protected range it returns as many sectors as the range has, with
  nothing erased.
\<close>

theorem flash_sect_erase_hides_errors:
  assumes "flash_sect_erase cfg chip a b s = Inr (n, s')"
  shows "0 \<le> n \<and> (\<forall>info sf sl. flash_info s = [info] \<and> flash_id info = INTEL_MANUFACT
    \<and> find_sects a b info [0..<sector_count info] (-1, -1) = Inr (sf, sl) \<and> 0 \<le> sf \<and> sf \<le> sl
    \<and> any_protected info [nat sf..<nat (sl + 1)] = Inr True \<longrightarrow> n = sl - sf + 1 \<and> s' = s)"
proof -
  have "0 \<le> n"
    using assms erase_banks_sign [of cfg chip a b "flash_info s" 0 s]
    by (fastforce simp: flash_sect_erase_def elim!: sbind_InrE split: if_splits)
  with assms show ?thesis by (auto simp: flash_sect_erase_def flash_erase_def Let_def)
qed

theorem flash_sect_erase_hides_errors_witness:
  "\<exists>n s'. flash_sect_erase dnp1110 (nor_chip (\<lambda>a. region a 0x1000)) 0x10000 0x10FFF
      ((reset_sys 0)\<lparr>flash_info := [(one_bank 1)\<lparr>flash_id := INTEL_MANUFACT\<rparr>]\<rparr>) = Inr (n, s') \<and> n = 1 \<and> 0 \<le> n"
proof -
  let ?s = "(reset_sys 0)\<lparr>flash_info := [(one_bank 1)\<lparr>flash_id := INTEL_MANUFACT\<rparr>]\<rparr>"
  have "flash_sect_erase dnp1110 (nor_chip (\<lambda>a. region a 0x1000)) 0x10000 0x10FFF ?s = Inr (1, ?s)"
    by (simp add: flash_sect_erase_def one_bank_def flash_erase_def sect_last_def sect_start_def sect_prot_def
        ub_def Let_def)
  with flash_sect_erase_hides_errors [OF this] show ?thesis by blast
qed

lemma any_protected_False:
  "bank_wf info \<Longrightarrow> \<forall>i\<in>set is. i < sector_count info \<and> fi_protect info ! i = 0 \<Longrightarrow> any_protected info is = Inr False"
  by (induction "is") (simp_all add: sect_lookup)

text \<open>
  A control-C during an erase is reported as success: with the key waiting before the first sector,
  \<open>flash_erase\<close> returns \<open>ERR_OK\<close> and has erased nothing.
\<close>

theorem flash_erase_interrupted:
  assumes "bank_wf info" "flash_id info AND FLASH_VENDMASK = INTEL_MANUFACT AND FLASH_VENDMASK"
    and "flash_id info \<noteq> FLASH_UNKNOWN" "i \<le> j" "j < sector_count info" "\<forall>k < sector_count info. fi_protect info ! k = 0"
    and "con_in s = [3]" "\<not> ctrlc_disabled s"
  shows "flash_erase cfg chip info (int i) (int j) s = Inr (ERR_OK, s\<lparr>con_in := [], ctrlc_was_pressed := True\<rparr>)"
proof -
  have "any_protected info [i..<j + 1] = Inr False"
    by (rule any_protected_False [OF assms(1)]) (use assms(5,6) in \<open>auto dest: less_le_trans\<close>)
  moreover have "nat (int i) = i" "nat (int j + 1) = j + 1" by simp_all
  moreover have "ctrlc s = Inr (True, s\<lparr>con_in := [], ctrlc_was_pressed := True\<rparr>)"
    using assms(7,8) by (simp add: ctrlc_def tstc_def getc_def)
  moreover have "[i..<j + 1] = i # [i + 1..<j + 1]" using assms(4) by (simp add: upt_conv_Cons)
  ultimately show ?thesis
    using assms(2-4) by (simp add: flash_erase_def erase_end_def ctrlc_def tstc_def Let_def del: upt_Suc)
qed

theorem flash_erase_interrupted_witness:
  "flash_erase dnp1110 (nor_chip (\<lambda>a. region a 4)) ((dnp1110_bank 39)\<lparr>fi_protect := replicate 39 0\<rparr>) 2 5
      ((reset_sys 0)\<lparr>con_in := [3]\<rparr>) = Inr (ERR_OK, (reset_sys 0)\<lparr>con_in := [], ctrlc_was_pressed := True\<rparr>)"
proof -
  let ?info = "(dnp1110_bank 39)\<lparr>fi_protect := replicate 39 0\<rparr>" and ?s = "(reset_sys 0)\<lparr>con_in := [3]\<rparr>"
  have "flash_erase dnp1110 (nor_chip (\<lambda>a. region a 4)) ?info (int 2) (int 5) ?s
      = Inr (ERR_OK, ?s\<lparr>con_in := [], ctrlc_was_pressed := True\<rparr>)"
    by (rule flash_erase_interrupted) (simp_all add: dnp1110_bank_def bank_wf_def reset_sys_def)
  then show ?thesis by simp
qed

end
