(* ===== verification/LoadSpec.thy ===== *)
theory LoadSpec
  imports FlashSpec
begin

text \<open>
  What crosses components: the environment saved to flash and found again after a reset, and the
  image \<open>img2srec\<close> writes on the host, loaded by \<open>loads\<close>.
\<close>

section \<open>The saved environment\<close>

lemma env_at_bytes:
  assumes "bytes_at m a (length (env_bytes e)) = env_bytes e"
  shows "env_at m a (length (env_data e)) = e"
proof -
  have "length (env_bytes e) = 4 + length (env_data e)" by (simp add: env_bytes_def le_bytes_def)
  with assms have "bytes_at m a 4 @ bytes_at m (a + of_nat 4) (length (env_data e)) = le_bytes (env_crc e) @ env_data e"
    by (simp only: bytes_at_append env_bytes_def)
  moreover have "length (le_bytes (env_crc e)) = 4" by (simp add: le_bytes_def)
  ultimately have "bytes_at m a 4 = le_bytes (env_crc e)" "bytes_at m (a + 4) (length (env_data e)) = env_data e"
    by (simp_all add: append_eq_append_conv)
  then show ?thesis by (simp add: env_at_def le_word_bytes)
qed

text \<open>
  C24: an environment that \<open>flash_write\<close> stored is the one the next start finds: after the reset the checksum
  holds and \<open>env_relocate\<close> brings back every variable, whatever the default environment says.
\<close>

theorem saved_env_survives_reset:
  assumes "chip_ok chip sector" "bi_env s = Some e" "env_rep (env_data e) vars rest"
    and "env_crc e = crc32 0 (Some (env_data e))"
    and "flash_write cfg chip (env_bytes e) 0 a cnt s = Inr (ERR_OK, s1)" "unat cnt = length (env_bytes e)"
    and "unat a + unat cnt \<le> 2 ^ 32" "addr2info a s = Some i" "addr2info (a + cnt - 1) s = Some i"
    and "fi_size (flash_info s ! i) \<noteq> 0"
    and "length (env_data block) = length (env_data e)" "length (default_environment cfg) \<le> length (env_data block)"
    and "34 < CFG_PBSIZE cfg"
  defines "s2 \<equiv> s1\<lparr>flash_env := env_at (memory s1) a (length (env_data e)), bi_env := None, env_crc_valid := 0\<rparr>"
  shows "\<exists>s'. env_relocate cfg (Some block) s2 = Inr ((), s') \<and> env_inv s' \<and> env_look cfg s' = env_look cfg s"
proof -
  have "cnt \<noteq> 0"
  proof
    assume "cnt = 0"
    with assms(6) show False by (simp add: env_bytes_def le_bytes_def)
  qed
  from flash_write_mem [OF assms(1,5,6) this assms(7-10)]
  have "bytes_at (memory s1) a (length (env_bytes e)) = env_bytes e" by blast
  then have fe: "flash_env s2 = e" by (simp add: s2_def env_at_bytes)
  have "check_crc s2 = (True, s2\<lparr>env_crc_valid := 1\<rparr>)"
    using fe assms(4) by (simp add: check_crc_def s2_def)
  then have act: "env_rep (active cfg s2) vars rest" using assms(3) fe by (simp add: active_def s2_def)
  have n: "bi_env s2 = None" by (simp add: s2_def)
  have len: "length (entries vars) \<le> length (env_data (flash_env s2))"
    using assms(3) fe by (simp add: env_rep_def)
  from env_relocate_keeps [OF n act len _ _ assms(13)] assms(11,12) fe obtain s' where
    s': "env_relocate cfg (Some block) s2 = Inr ((), s')" "env_inv s'" "env_look cfg s' = env_look cfg s2" by auto
  have "env_look cfg s2 k = env_look cfg s k" for k
  proof (cases "valid_name k")
    case True
    then have "env_look cfg s k = map_of vars k" by (rule env_look_rep [OF assms(2,3)])
    moreover have "env_look cfg s2 k = map_of vars k"
    proof -
      have "length (entries vars) \<le> sizeof_env_data s2" using n len by (simp add: sizeof_env_data_def)
      from getenv_lookup [OF act True this] show ?thesis by (auto simp: env_look_def True)
    qed
    ultimately show ?thesis by simp
  qed (simp add: env_look_def)
  with s' show ?thesis by (metis ext)
qed

text \<open>On a good chip a write of whole words to an erased range succeeds.\<close>

lemma le_word_erased:
  assumes "bytes_at m a 4 = replicate 4 0xFF"
  shows "le_word (bytes_at m a 4) AND d = d"
proof -
  have "replicate 4 (0xFF :: byte) = [0xFF, 0xFF, 0xFF, 0xFF]" by (simp add: eval_nat_numeral)
  then have "le_word (bytes_at m a 4) = 0xFFFFFFFF" unfolding assms by (simp add: le_word4)
  moreover have "(0xFFFFFFFF :: u32) = - 1" by simp
  ultimately show ?thesis by (simp only: and.left_neutral)
qed

lemma write_word_erased:
  assumes "bytes_at (memory s) a 4 = replicate 4 0xFF" "length bs = 4"
  shows "write_word cfg (nor_chip sector) a (le_word bs) s = Inr (0, s\<lparr>memory := store_bytes (memory s) a bs\<rparr>)"
  using le_word_erased [OF assms(1)] le_bytes_list [OF assms(2)]
  by (simp add: write_word_def nor_chip_def flash_error_def loop_result_def)

lemma list_of_4: "length xs = 4 \<Longrightarrow> \<exists>a b c d. xs = [a, b, c, d]"
  by (auto simp: eval_nat_numeral length_Suc_conv)

lemma write_words_erased:
  assumes "al mod 4 = 0" "length src = 4 * n" "length src < 2 ^ 32"
    and "bytes_at (memory s) wp (length src) = replicate (length src) 0xFF"
  shows "\<exists>s'. write_words cfg (nor_chip sector) src al wp s = Inr ((0, [], wp + of_nat (length src)), s')"
  using assms(2-4)
proof (induction n arbitrary: src wp s)
  case (Suc n)
  then have "length (take 4 src) = 4" by simp
  then obtain b0 b1 b2 b3 where "take 4 src = [b0, b1, b2, b3]" using list_of_4 by blast
  then obtain rest where src: "src = [b0, b1, b2, b3] @ rest" "length rest = 4 * n"
    using append_take_drop_id [of 4 src] Suc.prems(1) by (metis add_left_cancel length_append length_drop
        diff_add_inverse mult_Suc_right)
  let ?w = "[b0, b1, b2, b3]" and ?s = "s\<lparr>memory := store_bytes (memory s) wp [b0, b1, b2, b3]\<rparr>"
  have "bytes_at (memory s) wp (4 + length rest) = replicate 4 0xFF @ replicate (length rest) 0xFF"
  proof -
    have "length src = 4 + length rest" using src(1) by simp
    with Suc.prems(3) show ?thesis by (simp only: replicate_add)
  qed
  then have old: "bytes_at (memory s) wp 4 = replicate 4 0xFF"
    "bytes_at (memory s) (wp + 4) (length rest) = replicate (length rest) 0xFF"
    unfolding bytes_at_append by (simp_all add: append_eq_append_conv)
  have "region (wp + of_nat 4) (length rest) \<inter> region wp 4 = {}"
    by (rule region_before) (use Suc.prems(2) src in simp)
  moreover have w4: "length ?w = 4" by simp
  ultimately have "region (wp + 4) (length rest) \<inter> region wp (length ?w) = {}" "length ?w < 2 ^ 32"
    unfolding w4 by simp_all
  from bytes_at_other [OF this, of "memory s"] old(2)
  have "bytes_at (memory ?s) (wp + 4) (length rest) = replicate (length rest) 0xFF" by (simp del: store_bytes.simps)
  from Suc.IH [OF src(2) _ this] Suc.prems(2) src obtain s' where
    s': "write_words cfg (nor_chip sector) rest al (wp + 4) ?s = Inr ((0, [], wp + 4 + of_nat (length rest)), s')" by auto
  have "write_word cfg (nor_chip sector) wp (le_word ?w) s = Inr (0, ?s)"
    by (rule write_word_erased [OF old(1)]) simp
  with s' assms(1) show ?case by (simp add: src add.assoc)
qed simp

definition saved_env :: env_t where
  "saved_env = \<lparr>env_crc = crc32 0 (Some (lit ''ipaddr=10.0.0.1'' @ replicate 13 0)),
    env_data = lit ''ipaddr=10.0.0.1'' @ replicate 13 0\<rparr>"

theorem saved_env_survives_reset_witness:
  "\<exists>s1 s'. flash_write (dnp1110\<lparr>default_environment := [0, 0]\<rparr>) (nor_chip (\<lambda>a. region a 0x1000)) (env_bytes saved_env) 0 0x10000 32
        ((reset_sys 28)\<lparr>bi_env := Some saved_env, memory := \<lambda>_. 0xFF, flash_info := [one_bank 0]\<rparr>) = Inr (ERR_OK, s1)
    \<and> env_relocate (dnp1110\<lparr>default_environment := [0, 0]\<rparr>) (Some \<lparr>env_crc = 0, env_data = replicate 28 0xFF\<rparr>)
        (s1\<lparr>flash_env := env_at (memory s1) 0x10000 28, bi_env := None, env_crc_valid := 0\<rparr>) = Inr ((), s')
    \<and> env_look (dnp1110\<lparr>default_environment := [0, 0]\<rparr>) s' (lit ''ipaddr'') = Some (lit ''10.0.0.1'')"
proof -
  let ?cfg = "dnp1110\<lparr>default_environment := [0, 0]\<rparr>" and ?chip = "nor_chip (\<lambda>a. region a 0x1000)"
  let ?s = "(reset_sys 28)\<lparr>bi_env := Some saved_env, memory := \<lambda>_. 0xFF, flash_info := [one_bank 0]\<rparr>"
  let ?block = "\<lparr>env_crc = 0, env_data = replicate 28 0xFF\<rparr>"
  have len: "length (env_data saved_env) = 28" "length (env_bytes saved_env) = 32"
    by (simp_all add: saved_env_def env_bytes_def le_bytes_def lit_def)
  have "replicate 13 (0 :: byte) = 0 # 0 # replicate 11 0" by (simp add: numeral_eq_Suc)
  then have rep: "env_rep (env_data saved_env) [(lit ''ipaddr'', lit ''10.0.0.1'')] (replicate 11 0)"
    by (simp add: env_rep_def saved_env_def entry_def lit_def valid_name_def)
  have crc: "env_crc saved_env = crc32 0 (Some (env_data saved_env))" by (simp add: saved_env_def)
  have a: "addr2info 0x10000 ?s = Some 0" "addr2info (0x10000 + 32 - 1) ?s = Some 0" "fi_size (flash_info ?s ! 0) \<noteq> 0"
    by (simp_all add: addr2info_def in_bank_def one_bank_def)
  have "bytes_at (memory ?s) 0x10000 (length (env_bytes saved_env)) = replicate (length (env_bytes saved_env)) 0xFF"
    by (simp add: bytes_at_def map_replicate_const)
  from write_words_erased [OF _ _ _ this, of 0 8 ?cfg "\<lambda>a. region a 0x1000"] len(2) obtain s1 wp where
    "write_words ?cfg ?chip (env_bytes saved_env) 0 0x10000 ?s = Inr ((0, [], wp), s1)" by auto
  then have "write_buff ?cfg ?chip (env_bytes saved_env) 0 0x10000 ?s = Inr (0, s1)"
    by (simp add: write_buff_def Let_def)
  then have w: "flash_write ?cfg ?chip (env_bytes saved_env) 0 0x10000 32 ?s = Inr (ERR_OK, s1)"
    using flash_write_one_bank [of 32 "env_bytes saved_env" "0x10000" ?s 0] a len(2)
    by (simp add: sect_start_def sect_prot_def ub_def one_bank_def)
  have bi: "bi_env ?s = Some saved_env" by simp
  have pb: "34 < CFG_PBSIZE ?cfg" by (simp add: dnp1110_def)
  have "unat (32 :: u32) = length (env_bytes saved_env)" "unat (0x10000 :: u32) + unat (32 :: u32) \<le> 2 ^ 32"
    by (simp_all add: len(2))
  from saved_env_survives_reset [OF nor_chip_ok bi rep crc w this a _ _ pb, of ?block] obtain s' where
    s': "env_relocate ?cfg (Some ?block)
        (s1\<lparr>flash_env := env_at (memory s1) 0x10000 28, bi_env := None, env_crc_valid := 0\<rparr>) = Inr ((), s')"
      "env_look ?cfg s' = env_look ?cfg ?s" by (auto simp: len(1))
  have "env_look ?cfg ?s (lit ''ipaddr'') = Some (lit ''10.0.0.1'')"
    using env_look_rep [OF bi rep, of "lit ''ipaddr''"] valid_literals by simp
  with w s' show ?thesis by auto
qed

section \<open>An image from the host\<close>



























text \<open>
  where control-C is looked for, \<open>read_record\<close> drops characters: after each one it stores it takes
  one that is already waiting, and forgets it.  Of a line that has arrived as a whole every second character is lost.
\<close>

theorem read_record_drops_waiting:
  assumes "\<not> ctrlc_disabled s" "con_in s = concat (map (\<lambda>(c, d). [c, d]) ps) @ e # rest" "e = 13 \<or> e = 10"
    and "\<forall>(c, d)\<in>set ps. c \<notin> {0, 3, 10, 13} \<and> d \<noteq> 3" "length ps < n"
  shows "\<exists>s'. read_record_loop echo n s = Inr (Some (map fst ps), s') \<and> con_in s' = rest"
  using assms
proof (induction ps arbitrary: n s)
  case Nil
  then show ?case by (cases n) (auto simp: getc_def serial_putc_def Let_def)
next
  case (Cons p ps)
  obtain c d where p: "p = (c, d)" by fastforce
  from Cons.prems obtain n' where n: "n = Suc n'" "length ps < n'" by (cases n) auto
  let ?tail = "concat (map (\<lambda>(c, d). [c, d]) ps) @ e # rest"
  let ?s = "let s = s\<lparr>con_in := d # ?tail\<rparr> in if echo then serial_putc c s else s"
  have "con_in (?s\<lparr>con_in := ?tail\<rparr>) = ?tail" "\<not> ctrlc_disabled (?s\<lparr>con_in := ?tail\<rparr>)"
    "\<forall>(c, d)\<in>set ps. c \<notin> {0, 3, 10, 13} \<and> d \<noteq> 3"
    using Cons.prems by (simp_all add: serial_putc_def Let_def)
  from Cons.IH [OF this(2,1) Cons.prems(3) this(3) n(2)] obtain s' where
    "read_record_loop echo n' (?s\<lparr>con_in := ?tail\<rparr>) = Inr (Some (map fst ps), s')" "con_in s' = rest" by blast
  moreover have "ctrlc ?s = Inr (False, ?s\<lparr>con_in := ?tail\<rparr>)"
    using Cons.prems p by (simp add: ctrlc_def tstc_def getc_def serial_putc_def Let_def)
  moreover have "getc s = Inr (c, s\<lparr>con_in := d # ?tail\<rparr>)" using Cons.prems(2) p by (simp add: getc_def)
  ultimately show ?case using Cons.prems(4) p by (simp add: n(1) Let_def)
qed

theorem read_record_drops_waiting_witness:
  "\<exists>s'. read_record_loop False 516 ((reset_sys 0)\<lparr>con_in := lit ''S705'' @ [13, 10]\<rparr>) = Inr (Some (lit ''S0''), s')
    \<and> con_in s' = [10]"
  using read_record_drops_waiting [of "(reset_sys 0)\<lparr>con_in := lit ''S705'' @ [13, 10]\<rparr>"
      "[(ch CHR ''S'', ch CHR ''7''), (ch CHR ''0'', ch CHR ''5'')]" 13 "[10]" 516 False]
  by (simp add: lit_def reset_sys_def)

section \<open>Sector ranges\<close>

text \<open>
  \<open>abbrev_spec\<close> assigns the first sector to an \<open>int\<close> and tests it against the upper end only: a number
  above \<^verbatim>\<open>0x7FFFFFFF\<close> passes as a negative sector, and \<open>do_protect\<close> writes in front of \<open>protect\<close>.
\<close>

theorem protect_before_first_sector:
  assumes "flash_info s = [info]" "flash_id info \<noteq> FLASH_UNKNOWN" "0 < sector_count info"
  shows "do_protect cfg cmdtp 3 [Some (lit ''protect''), Some (lit ''on''), Some (lit ''1:4294967295-0''), None] s
    = Inl BadAccess"
proof -
  have n: "whole_number (lit ''1'') = Some 1" "whole_number (lit ''4294967295'') = Some (-1)"
    "whole_number (lit ''0'') = Some 0" by code_simp+
  have sp: "split_at (ch CHR '':'') (lit ''1:4294967295-0'') = Some (lit ''1'', lit ''4294967295-0'')"
    "split_at (ch CHR ''-'') (lit ''4294967295-0'') = Some (lit ''4294967295'', lit ''0'')"
    by (simp_all add: split_at_def lit_def)
  have ab: "abbrev_spec (lit ''1:4294967295-0'') [info] = (1, 0, -1, 0)"
    using assms(2,3) unfolding abbrev_spec_def Let_def sp option.case prod.case n by (simp add: sp(2) [simplified] n)
  have lits: "lit ''on'' \<noteq> lit ''off''" "lit ''1:4294967295-0'' \<noteq> lit ''all''" by (simp_all add: lit_def)
  have up: "[-1..0] = [-1, 0 :: int]" by (simp add: upto.simps)
  let ?fmt = "lit ''%sProtect Flash Sectors %d-%d in Bank # %d\<newline>''"
  have "sbind (printf cfg ?fmt args s) (\<lambda>(_, s). sbind (protect_sects 1 [-1..0] (flash_info s ! 0)) (\<lambda>info.
      Inr (0, s\<lparr>flash_info := (flash_info s)[0 := info]\<rparr>))) = (Inl BadAccess :: stop + int \<times> sys)" for args
    unfolding up by (auto simp: printf_def split: option.splits)
  with ab lits assms(1) show ?thesis by (simp add: do_protect_def argv_str_def Let_def)
qed

theorem protect_before_first_sector_witness:
  "do_protect dnp1110 tbl_ques 3 [Some (lit ''protect''), Some (lit ''on''), Some (lit ''1:4294967295-0''), None]
    ((reset_sys 0)\<lparr>flash_info := [one_bank 0]\<rparr>) = Inl BadAccess"
  by (rule protect_before_first_sector [where info = "one_bank 0"]) (simp_all add: one_bank_def)

end
