(* ===== verification/NetBase.thy ===== *)
theory NetBase
  imports EnvStore
begin

text \<open>
  What the network protocols share: the globals of \<^verbatim>\<open>net/*.c\<close>, the packet layouts of
  \<^verbatim>\<open>include/net.h\<close> and the helpers at the end of \<^verbatim>\<open>net/net.c\<close> that read and build packets.

  A packet buffer is the list of its bytes.  The receive buffers and \<open>NetTxPacket\<close> have
  \<open>PKTSIZE_ALIGN\<close> bytes; fields at fixed offsets are inside them, and every access whose place
  depends on received data is checked.
\<close>

section \<open>Constants\<close>

abbreviation (input) PKTSIZE :: nat where "PKTSIZE \<equiv> 1518"
abbreviation (input) PKTSIZE_ALIGN :: nat where "PKTSIZE_ALIGN \<equiv> 1536"
abbreviation (input) CFG_HZ :: u32 where "CFG_HZ \<equiv> 3686400"

text \<open>\<open>Ethernet_t\<close>: the offsets of its fields.\<close>

abbreviation (input) et_dest :: nat where "et_dest \<equiv> 0"
abbreviation (input) et_src :: nat where "et_src \<equiv> 6"
abbreviation (input) et_protlen :: nat where "et_protlen \<equiv> 12"
abbreviation (input) et_prot :: nat where "et_prot \<equiv> 20"
abbreviation (input) ETHER_HDR_SIZE :: nat where "ETHER_HDR_SIZE \<equiv> 14"
abbreviation (input) E802_HDR_SIZE :: nat where "E802_HDR_SIZE \<equiv> 22"
abbreviation (input) PROT_IP :: u32 where "PROT_IP \<equiv> 0x0800"
abbreviation (input) PROT_ARP :: u32 where "PROT_ARP \<equiv> 0x0806"
abbreviation (input) PROT_RARP :: u32 where "PROT_RARP \<equiv> 0x8035"
abbreviation (input) IPPROTO_ICMP :: byte where "IPPROTO_ICMP \<equiv> 1"
abbreviation (input) IPPROTO_UDP :: byte where "IPPROTO_UDP \<equiv> 17"

text \<open>\<open>IP_t\<close>, the IP header followed by the UDP header.\<close>

abbreviation (input) ip_hl_v :: nat where "ip_hl_v \<equiv> 0"
abbreviation (input) ip_len :: nat where "ip_len \<equiv> 2"
abbreviation (input) ip_off :: nat where "ip_off \<equiv> 6"
abbreviation (input) ip_p :: nat where "ip_p \<equiv> 9"
abbreviation (input) ip_dst :: nat where "ip_dst \<equiv> 16"
abbreviation (input) udp_src :: nat where "udp_src \<equiv> 20"
abbreviation (input) udp_dst :: nat where "udp_dst \<equiv> 22"
abbreviation (input) udp_len :: nat where "udp_len \<equiv> 24"
abbreviation (input) IP_HDR_SIZE_NO_UDP :: nat where "IP_HDR_SIZE_NO_UDP \<equiv> 20"
abbreviation (input) IP_HDR_SIZE :: nat where "IP_HDR_SIZE \<equiv> 28"

text \<open>\<open>ARP_t\<close>.\<close>

abbreviation (input) ar_hrd :: nat where "ar_hrd \<equiv> 0"
abbreviation (input) ar_pro :: nat where "ar_pro \<equiv> 2"
abbreviation (input) ar_hln :: nat where "ar_hln \<equiv> 4"
abbreviation (input) ar_pln :: nat where "ar_pln \<equiv> 5"
abbreviation (input) ar_op :: nat where "ar_op \<equiv> 6"
abbreviation (input) ar_data :: nat where "ar_data \<equiv> 8"
abbreviation (input) ARP_HDR_SIZE :: nat where "ARP_HDR_SIZE \<equiv> 28"
abbreviation (input) ARP_ETHER :: u32 where "ARP_ETHER \<equiv> 1"
abbreviation (input) ARPOP_REQUEST :: u32 where "ARPOP_REQUEST \<equiv> 1"
abbreviation (input) ARPOP_REPLY :: u32 where "ARPOP_REPLY \<equiv> 2"
abbreviation (input) RARPOP_REQUEST :: u32 where "RARPOP_REQUEST \<equiv> 3"
abbreviation (input) RARPOP_REPLY :: u32 where "RARPOP_REPLY \<equiv> 4"
abbreviation (input) ICMP_REDIRECT :: byte where "ICMP_REDIRECT \<equiv> 5"
abbreviation (input) ICMP_REDIR_HOST :: byte where "ICMP_REDIR_HOST \<equiv> 1"

section \<open>State\<close>

text \<open>What the two function pointers \<open>packetHandler\<close> and \<open>timeHandler\<close> can point to.\<close>

datatype rxhand = ArpHandler | RarpHandler | TftpHandler | BootpHandler | StartAgainHandler
datatype thand = ArpTimeout | RarpTimeout | BootpTimeout | TftpTimeout | StartAgainTimeout

datatype proto_t = BOOTP | RARP | ARP | TFTP | DHCP
datatype netloop = NETLOOP_CONTINUE | NETLOOP_RESTART | NETLOOP_SUCCESS | NETLOOP_FAIL
datatype tftp_state = STATE_RRQ | STATE_DATA | STATE_TOO_LARGE | STATE_BAD_MAGIC

text \<open>
  The globals of \<^verbatim>\<open>net.c\<close>, \<^verbatim>\<open>arp.c\<close>, \<^verbatim>\<open>rarp.c\<close>, \<^verbatim>\<open>tftp.c\<close> and \<^verbatim>\<open>bootp.c\<close>, and two of the machine:
  \<open>timer\<close>, what \<open>get_timer(0)\<close> returns, and \<open>eth_sent\<close>, the frames given to \<open>eth_send\<close> so far.
\<close>

record net =
  NetOurSubnetMask :: u32
  NetOurGatewayIP :: u32
  NetOurDNSIP :: u32
  NetOurNISDomain :: "byte list"
  NetOurHostName :: "byte list"
  NetOurRootPath :: "byte list"
  NetBootFileSize :: u16
  NetBootFileXferSize :: u32
  NetOurEther :: "byte list"
  NetServerEther :: "byte list"
  NetOurIP :: u32
  NetServerIP :: u32
  NetRxPkt :: "byte list"
  NetIPID :: u32
  NetState :: netloop
  packetHandler :: "rxhand option"
  timeHandler :: "thand option"
  timeValue :: u32
  NetTxPacket :: "byte list"
  ArpTry :: u32
  RarpTry :: u32
  BootpTry :: u32
  BootpID :: u32
  TftpServerPort :: u32
  TftpOurPort :: u32
  TftpTimeoutCount :: u32
  TftpBlock :: u32
  TftpLastBlock :: u32
  TftpState :: tftp_state
  tftp_filename :: "byte list"
  timer :: u32
  eth_sent :: "byte list list"

text \<open>
  The globals before the first command.  \<open>NetState\<close> and \<open>TftpState\<close> are written before they are
  read, their zero is not a value of the type.
\<close>

definition net_bss :: net where
  "net_bss =
     \<lparr>NetOurSubnetMask = 0, NetOurGatewayIP = 0, NetOurDNSIP = 0,
      NetOurNISDomain = replicate 32 0, NetOurHostName = replicate 32 0, NetOurRootPath = replicate 64 0,
      NetBootFileSize = 0, NetBootFileXferSize = 0,
      NetOurEther = replicate 6 0, NetServerEther = replicate 6 0xFF, NetOurIP = 0, NetServerIP = 0,
      NetRxPkt = [], NetIPID = 0, NetState = NETLOOP_CONTINUE,
      packetHandler = None, timeHandler = None, timeValue = 0,
      NetTxPacket = replicate PKTSIZE_ALIGN 0,
      ArpTry = 0, RarpTry = 0, BootpTry = 0, BootpID = 0,
      TftpServerPort = 0, TftpOurPort = 0, TftpTimeoutCount = 0, TftpBlock = 0, TftpLastBlock = 0,
      TftpState = STATE_RRQ, tftp_filename = [], timer = 0, eth_sent = []\<rparr>"

definition NetBcastAddr :: "byte list" where
  "NetBcastAddr = replicate 6 0xFF"

section \<open>Bytes of a packet\<close>

text \<open>A \<^verbatim>\<open>ushort\<close> in memory, low byte first, and the macros of \<^verbatim>\<open>include/armboot.h\<close>.\<close>

definition ld16 :: "byte list \<Rightarrow> nat \<Rightarrow> u32" where
  "ld16 p i = push_bit 8 (ucast (p ! (i + 1))) OR ucast (p ! i)"

definition st16 :: "u32 \<Rightarrow> byte list" where
  "st16 x = [ucast x, ucast (drop_bit 8 x)]"

definition SWAP16 :: "u32 \<Rightarrow> u32" where
  "SWAP16 x = push_bit 8 (x AND 0xFF) OR drop_bit 8 x"

definition ld32 :: "byte list \<Rightarrow> nat \<Rightarrow> u32" where
  "ld32 p i = push_bit 24 (ucast (p ! (i + 3))) OR push_bit 16 (ucast (p ! (i + 2)))
     OR push_bit 8 (ucast (p ! (i + 1))) OR ucast (p ! i)"

definition st32 :: "u32 \<Rightarrow> byte list" where
  "st32 x = [ucast x, ucast (drop_bit 8 x), ucast (drop_bit 16 x), ucast (drop_bit 24 x)]"

definition SWAP32 :: "u32 \<Rightarrow> u32" where
  "SWAP32 x = (drop_bit 24 x AND 0x000000FF) OR (drop_bit 8 x AND 0x0000FF00)
     OR (push_bit 8 x AND 0x00FF0000) OR (push_bit 24 x AND 0xFF000000)"

text \<open>\<open>field p i k\<close>: the \<open>k\<close> bytes at offset \<open>i\<close>; \<open>put_bytes i bs p\<close> writes \<open>bs\<close> there.\<close>

definition field :: "byte list \<Rightarrow> nat \<Rightarrow> nat \<Rightarrow> byte list" where
  "field p i k = take k (drop i p)"

definition put_bytes :: "nat \<Rightarrow> byte list \<Rightarrow> byte list \<Rightarrow> byte list" where
  "put_bytes i bs p = take i p @ bs @ drop (i + length bs) p"

section \<open>Helpers of \<^verbatim>\<open>net.c\<close>\<close>

primrec NetCksum_loop :: "nat \<Rightarrow> byte list \<Rightarrow> u32 \<Rightarrow> u32" where
  "NetCksum_loop 0 p xsum = xsum"
| "NetCksum_loop (Suc len) p xsum = NetCksum_loop len (drop 2 p) (xsum + ld16 p 0)"

definition NetCksum :: "byte list \<Rightarrow> nat \<Rightarrow> u32" where
  "NetCksum p len =
     (let xsum = NetCksum_loop len p 0;
          xsum = (xsum AND 0xFFFF) + drop_bit 16 xsum;
          xsum = (xsum AND 0xFFFF) + drop_bit 16 xsum
      in xsum AND 0xFFFF)"

definition NetCksumOk :: "byte list \<Rightarrow> nat \<Rightarrow> bool" where
  "NetCksumOk p len = ((NetCksum p len + 1) AND 0xFFFE = 0)"

primrec NetWriteIP_loop :: "nat \<Rightarrow> u32 \<Rightarrow> byte list" where
  "NetWriteIP_loop 0 ip = []"
| "NetWriteIP_loop (Suc i) ip = ucast (drop_bit 24 ip) # NetWriteIP_loop i (push_bit 8 ip)"

definition NetWriteIP :: "u32 \<Rightarrow> byte list" where
  "NetWriteIP ip = NetWriteIP_loop 4 ip"

definition NetReadIP :: "byte list \<Rightarrow> u32" where
  "NetReadIP from = foldl (\<lambda>ip b. push_bit 8 ip OR ucast b) 0 (take 4 from)"

definition NetCopyEther :: "byte list \<Rightarrow> byte list" where
  "NetCopyEther from = take 6 from"

definition NetSetEther :: "byte list \<Rightarrow> u32 \<Rightarrow> net \<Rightarrow> byte list \<Rightarrow> byte list" where
  "NetSetEther a prot n et =
     put_bytes et_protlen (st16 (SWAP16 prot))
       (put_bytes et_src (NetCopyEther (NetOurEther n)) (put_bytes et_dest (NetCopyEther a) et))"

text \<open>
  \<open>NetSetIP\<close>, the header for \<open>len\<close> bytes of UDP payload.  The macro \<open>SWAP16\<close> evaluates its argument
  \<^verbatim>\<open>NetIPID++\<close> twice, here from left to right.
\<close>

definition ip_header :: "byte list \<Rightarrow> u32 \<Rightarrow> u32 \<Rightarrow> u32 \<Rightarrow> u32 \<Rightarrow> u32 \<Rightarrow> net \<Rightarrow> byte list" where
  "ip_header cks dest dport sport len ipid n =
     [0x45, 0] @ st16 (SWAP16 (28 + len)) @ st16 ipid @ st16 (SWAP16 0x4000) @ [255, 17]
     @ cks @ NetWriteIP (NetOurIP n) @ NetWriteIP dest
     @ st16 (SWAP16 sport) @ st16 (SWAP16 dport) @ st16 (SWAP16 (8 + len)) @ st16 0"

definition NetSetIP :: "nat \<Rightarrow> u32 \<Rightarrow> u32 \<Rightarrow> u32 \<Rightarrow> u32 \<Rightarrow> net \<Rightarrow> net" where
  "NetSetIP xip dest dport sport len n =
     (let p = NetTxPacket n;
          p = (if len AND 1 \<noteq> 0 then put_bytes (xip + IP_HDR_SIZE + unat len) [0] p else p);
          ipid = push_bit 8 (NetIPID n AND 0xFF) OR drop_bit 8 (NetIPID n + 1);
          ip = ip_header (st16 0) dest dport sport len ipid n;
          ip_sum = NOT (NetCksum ip (IP_HDR_SIZE_NO_UDP div 2))
      in n\<lparr>NetIPID := NetIPID n + 2,
            NetTxPacket := put_bytes xip (ip_header (st16 ip_sum) dest dport sport len ipid n) p\<rparr>)"

definition NetSendPacket :: "byte list \<Rightarrow> nat \<Rightarrow> net \<Rightarrow> net" where
  "NetSendPacket pkt len n = n\<lparr>eth_sent := eth_sent n @ [take len pkt]\<rparr>"

definition NetSetHandler :: "rxhand \<Rightarrow> net \<Rightarrow> net" where
  "NetSetHandler f n = n\<lparr>packetHandler := Some f\<rparr>"

definition NetSetTimeout :: "u32 \<Rightarrow> thand option \<Rightarrow> net \<Rightarrow> net" where
  "NetSetTimeout iv f n =
     (if iv = 0 then n\<lparr>timeHandler := None\<rparr>
      else n\<lparr>timeHandler := f, timeValue := timer n + iv\<rparr>)"

definition NetStartAgain :: "net \<Rightarrow> net" where
  "NetStartAgain n =
     NetSetHandler StartAgainHandler (NetSetTimeout (10 * CFG_HZ) (Some StartAgainTimeout) n)"

definition startAgainTimeout :: "net \<Rightarrow> net" where
  "startAgainTimeout n = n\<lparr>NetState := NETLOOP_RESTART\<rparr>"

section \<open>Printing\<close>

text \<open>
  \<open>ip_to_string\<close>: the text without its NUL.  The array of \<open>print_IPaddr\<close> has 12 bytes.
\<close>

definition ip_to_string :: "u32 \<Rightarrow> byte list option" where
  "ip_to_string x =
     sprintf (lit ''%d.%d.%d.%d'')
       [AInt (drop_bit 24 x AND 0xFF), AInt (drop_bit 16 x AND 0xFF),
        AInt (drop_bit 8 x AND 0xFF), AInt (x AND 0xFF)]"

definition print_IPaddr :: "u32 \<Rightarrow> sys \<Rightarrow> unit result" where
  "print_IPaddr x s =
     (case ip_to_string x of None \<Rightarrow> Inl BadAccess
      | Some tmp \<Rightarrow> if length tmp < 12 then Inr ((), puts tmp s) else Inl BadAccess)"

primrec NetPrintEther_loop :: "config \<Rightarrow> nat \<Rightarrow> byte list \<Rightarrow> sys \<Rightarrow> unit result" where
  "NetPrintEther_loop cfg 0 a s = printf cfg (lit ''\<newline>'') [] s"
| "NetPrintEther_loop cfg (Suc k) a s =
     sbind (printf cfg (lit ''%02x'') [AInt (ucast (a ! (5 - k)))] s) (\<lambda>(_, s).
     sbind (if k \<noteq> 0 then printf cfg (lit '':'') [] s else Inr ((), s)) (\<lambda>(_, s).
       NetPrintEther_loop cfg k a s))"

definition NetPrintEther :: "config \<Rightarrow> byte list \<Rightarrow> sys \<Rightarrow> unit result" where
  "NetPrintEther cfg a s = NetPrintEther_loop cfg 6 a s"

section \<open>Words of a packet read back\<close>

lemma ld32_bytes:
  "push_bit 24 (ucast (ucast (drop_bit 24 x) :: byte)) OR push_bit 16 (ucast (ucast (drop_bit 16 x) :: byte))
     OR push_bit 8 (ucast (ucast (drop_bit 8 x) :: byte)) OR ucast (ucast x :: byte) = (x :: u32)" (is "?w = x")
proof (rule bit_word_eqI)
  fix k :: nat assume "k < LENGTH(32)"
  then show "bit ?w k = bit x k"
    by (cases "k < 8"; cases "k < 16"; cases "k < 24") (auto simp: bit_simps)
qed

lemma length_st32 [simp]: "length (st32 x) = 4"
  by (simp add: st32_def)

lemma ld32_st32: "ld32 (st32 x @ r) 0 = x"
  by (simp add: ld32_def st32_def ld32_bytes)

lemma ld32_skip: "length p = i \<Longrightarrow> ld32 (p @ q) (i + j) = ld32 q j"
  by (simp add: ld32_def nth_append)

lemma length_st16 [simp]: "length (st16 x) = 2"
  by (simp add: st16_def)

text \<open>Fields by their offsets.\<close>

lemma ld32_field:
  "ld32 (st32 x) 0 = x" "ld32 (st32 x @ q) 0 = x"
  "length p \<le> i \<Longrightarrow> ld32 (p @ q) i = ld32 q (i - length p)" "0 < i \<Longrightarrow> ld32 (c # q) i = ld32 q (i - 1)"
  by (simp_all add: ld32_def st32_def ld32_bytes nth_append nth_Cons' Suc_diff_le)

end
