(* ===== verification/NetProto.thy ===== *)
theory NetProto
  imports NetBase
begin

text \<open>
  The protocols: \<^verbatim>\<open>net/tftp.c\<close>, \<^verbatim>\<open>net/arp.c\<close>, \<^verbatim>\<open>net/rarp.c\<close> and \<^verbatim>\<open>net/bootp.c\<close> without
  \<open>CFG_CMD_DHCP\<close>, which the default command set does not have.

  A 16-bit access at an odd address (\<^verbatim>\<open>tftp.c\<close> makes some) reads or writes the two bytes there.
\<close>

section \<open>TFTP\<close>

abbreviation (input) WELL_KNOWN_PORT :: u32 where "WELL_KNOWN_PORT \<equiv> 69"
abbreviation (input) TFTP_RRQ :: u32 where "TFTP_RRQ \<equiv> 1"
abbreviation (input) TFTP_DATA :: u32 where "TFTP_DATA \<equiv> 3"
abbreviation (input) TFTP_ACK :: u32 where "TFTP_ACK \<equiv> 4"
abbreviation (input) TFTP_ERROR :: u32 where "TFTP_ERROR \<equiv> 5"

text \<open>Writing past the end of the receive buffer's bytes, or reading there, is \<open>BadAccess\<close>.\<close>

definition store_block :: "u32 \<Rightarrow> byte list \<Rightarrow> u32 \<Rightarrow> net \<Rightarrow> sys \<Rightarrow> net result" where
  "store_block block src len n s =
     (let offset = block * 512; newsize = offset + len in
      if length src < unat len then Inl BadAccess
      else
        let s = s\<lparr>memory := store_bytes (memory s) (load_addr s + offset) (take (unat len) src)\<rparr>
        in Inr (if NetBootFileXferSize n < newsize then n\<lparr>NetBootFileXferSize := newsize\<rparr> else n, s))"

text \<open>
  The packets \<open>TftpSend\<close> puts behind the headers.  \<^verbatim>\<open>pkt += sizeof(*pkt)\<close> advances by the size of a
  \<^verbatim>\<open>uchar\<close>: each 16-bit field is overwritten by its successor from the second byte on.
\<close>

definition tftp_packet :: "tftp_state \<Rightarrow> u32 \<Rightarrow> byte list \<Rightarrow> nat \<Rightarrow> byte list \<Rightarrow> nat \<times> byte list" where
  "tftp_packet st block filename pkt p =
     (let xp = pkt in
      case st of
        STATE_RRQ \<Rightarrow>
          let p = put_bytes pkt (st16 (SWAP16 TFTP_RRQ)) p;
              pkt = pkt + 1;
              p = put_bytes pkt (filename @ [0]) p;
              pkt = pkt + length filename + 1;
              p = put_bytes pkt (lit ''octet'' @ [0]) p;
              pkt = pkt + 5 + 1
          in (pkt - xp, p)
      | STATE_DATA \<Rightarrow>
          let p = put_bytes pkt (st16 (SWAP16 TFTP_ACK)) p;
              pkt = pkt + 1;
              p = put_bytes pkt (st16 (SWAP16 block)) p;
              pkt = pkt + 1
          in (pkt - xp, p)
      | STATE_TOO_LARGE \<Rightarrow>
          let p = put_bytes pkt (st16 (SWAP16 TFTP_ERROR)) p;
              pkt = pkt + 1;
              p = put_bytes pkt (st16 (SWAP16 3)) p;
              pkt = pkt + 1;
              p = put_bytes pkt (lit ''File too large'' @ [0]) p;
              pkt = pkt + 14 + 1
          in (pkt - xp, p)
      | STATE_BAD_MAGIC \<Rightarrow>
          let p = put_bytes pkt (st16 (SWAP16 TFTP_ERROR)) p;
              pkt = pkt + 1;
              p = put_bytes pkt (st16 (SWAP16 2)) p;
              pkt = pkt + 1;
              p = put_bytes pkt (lit ''File has bad magic'' @ [0]) p;
              pkt = pkt + 18 + 1
          in (pkt - xp, p))"

definition TftpSend :: "net \<Rightarrow> net" where
  "TftpSend n =
     (let (len, p) = tftp_packet (TftpState n) (TftpBlock n) (tftp_filename n)
            (ETHER_HDR_SIZE + IP_HDR_SIZE) (NetTxPacket n);
          n = n\<lparr>NetTxPacket := NetSetEther (NetServerEther n) PROT_IP n p\<rparr>;
          n = NetSetIP ETHER_HDR_SIZE (NetServerIP n) (TftpServerPort n) (TftpOurPort n) (of_nat len) n
      in NetSendPacket (NetTxPacket n) (ETHER_HDR_SIZE + IP_HDR_SIZE + len) n)"

definition TftpTimeout_handler :: "net \<Rightarrow> sys \<Rightarrow> net result" where
  "TftpTimeout_handler n s =
     (let n = n\<lparr>TftpTimeoutCount := TftpTimeoutCount n + 1\<rparr> in
      if TftpTimeoutCount n \<ge> 10 then
        Inr (NetStartAgain n, puts (lit ''\<newline>Retry count exceeded; starting again\<newline>'') s)
      else
        Inr (TftpSend (NetSetTimeout (2 * CFG_HZ) (Some TftpTimeout) n), puts (lit ''T '') s))"

text \<open>The data packet behind its opcode, \<open>pkt\<close> one byte into the packet; \<open>len\<close> is unsigned.\<close>

definition tftp_data :: "config \<Rightarrow> byte list \<Rightarrow> u32 \<Rightarrow> u32 \<Rightarrow> net \<Rightarrow> sys \<Rightarrow> net result" where
  "tftp_data cfg pkt src len n s =
     (if len < 2 then Inr (n, s)
      else
        let len = len - 2;
            n = n\<lparr>TftpBlock := SWAP16 (ld16 pkt 0)\<rparr>;
            s = (if (TftpBlock n - 1) mod 10 = 0 then putc (ch CHR ''#'') s else s);
            first = (TftpState n = STATE_RRQ);
            n = (if first then n\<lparr>TftpState := STATE_DATA, TftpServerPort := src, TftpLastBlock := 0\<rparr> else n)
        in
        if first \<and> TftpBlock n \<noteq> 1 then
          sbind (printf cfg (lit ''\<newline>TFTP error: First block is not block 1 (%d)\<newline>Starting again\<newline>\<newline>'')
            [AInt (TftpBlock n)] s) (\<lambda>(_, s). Inr (NetStartAgain n, s))
        else if TftpBlock n = TftpLastBlock n then Inr (n, s)
        else
          let n = n\<lparr>TftpLastBlock := TftpBlock n\<rparr>;
              n = NetSetTimeout (2 * CFG_HZ) (Some TftpTimeout) n
          in
          sbind (store_block (TftpBlock n - 1) (drop 2 pkt) len n s) (\<lambda>(n, s).
            let n = TftpSend n in
            if len < 512 then Inr (n\<lparr>NetState := NETLOOP_SUCCESS\<rparr>, puts (lit ''\<newline>done\<newline>'') s)
            else Inr (n, s)))"

definition tftp_error :: "config \<Rightarrow> byte list \<Rightarrow> net \<Rightarrow> sys \<Rightarrow> net result" where
  "tftp_error cfg pkt n s =
     (if 0 \<notin> set (drop 2 pkt) then Inl BadAccess
      else
        sbind (printf cfg (lit ''\<newline>TFTP error: '%s' (%d)\<newline>'')
          [AStr (Some (cstr_of (drop 2 pkt))), AInt (SWAP16 (ld16 pkt 0))] s) (\<lambda>(_, s).
          Inr (NetStartAgain n, puts (lit ''Starting again\<newline>\<newline>'') s)))"

definition TftpHandler_rx ::
  "config \<Rightarrow> byte list \<Rightarrow> u32 \<Rightarrow> u32 \<Rightarrow> u32 \<Rightarrow> net \<Rightarrow> sys \<Rightarrow> net result" where
  "TftpHandler_rx cfg pkt dest src len n s =
     (if dest \<noteq> TftpOurPort n then Inr (n, s)
      else if TftpState n \<noteq> STATE_RRQ \<and> src \<noteq> TftpServerPort n then Inr (n, s)
      else if len < 2 then Inr (n, s)
      else
        let len = len - 2;
            proto = SWAP16 (ld16 pkt 0);
            pkt = drop 1 pkt
        in
        if proto = TFTP_DATA then tftp_data cfg pkt src len n s
        else if proto = TFTP_ERROR then tftp_error cfg pkt n s
        else Inr (n, s))"

text \<open>The file name; the array \<open>default_filename\<close> has 13 bytes.\<close>

definition tftp_name :: "config \<Rightarrow> net \<Rightarrow> sys \<Rightarrow> net result" where
  "tftp_name cfg n s =
     (if hd (BootFile s) = 0 then
        (case sprintf (lit ''%02lX%02lX%02lX%02lX.img'')
                [AInt (NetOurIP n AND 0xFF), AInt (drop_bit 8 (NetOurIP n) AND 0xFF),
                 AInt (drop_bit 16 (NetOurIP n) AND 0xFF), AInt (drop_bit 24 (NetOurIP n) AND 0xFF)] of
           None \<Rightarrow> Inl BadAccess
         | Some default_filename \<Rightarrow>
             if length default_filename < 13 then
               let n = n\<lparr>tftp_filename := default_filename\<rparr> in
               sbind (printf cfg (lit ''*** Warning: no boot file name; using '%s'\<newline>'')
                 [AStr (Some (tftp_filename n))] s) (\<lambda>(_, s). Inr (n, s))
             else Inl BadAccess)
      else Inr (n\<lparr>tftp_filename := cstr_of (BootFile s)\<rparr>, s))"

definition tftp_announce :: "config \<Rightarrow> net \<Rightarrow> sys \<Rightarrow> unit result" where
  "tftp_announce cfg n s =
     (let s = puts (lit ''TFTP from server '') s in
      sbind (print_IPaddr (NetServerIP n) s) (\<lambda>(_, s).
      let s = puts (lit ''; our IP address is '') s in
      sbind (print_IPaddr (NetOurIP n) s) (\<lambda>(_, s).
      sbind (if NetOurGatewayIP n \<noteq> 0 \<and> NetOurSubnetMask n \<noteq> 0
                \<and> NetOurIP n AND NetOurSubnetMask n \<noteq> NetServerIP n AND NetOurSubnetMask n
             then print_IPaddr (NetOurGatewayIP n) (puts (lit ''; sending throught gateway '') s)
             else Inr ((), s)) (\<lambda>(_, s).
      let s = putc 10 s in
      sbind (printf cfg (lit ''Filename '%s'.'') [AStr (Some (tftp_filename n))] s) (\<lambda>(_, s).
      sbind (if NetBootFileSize n \<noteq> 0
             then printf cfg (lit '' Size is %d%s kB => %x Bytes'')
                    [AInt (ucast (NetBootFileSize n) div 2),
                     AStr (Some (if ucast (NetBootFileSize n) mod (2 :: u32) \<noteq> 0 then lit ''.5'' else [])),
                     AInt (push_bit 9 (ucast (NetBootFileSize n)))] s
             else Inr ((), s)) (\<lambda>(_, s).
      let s = putc 10 s in
      sbind (printf cfg (lit ''Load address: 0x%lx\<newline>'') [AInt (load_addr s)] s) (\<lambda>(_, s).
        Inr ((), puts (lit ''Loading: *'' @ [8]) s))))))))"

definition TftpStart :: "config \<Rightarrow> net \<Rightarrow> sys \<Rightarrow> net result" where
  "TftpStart cfg n s =
     sbind (tftp_name cfg n s) (\<lambda>(n, s).
     sbind (tftp_announce cfg n s) (\<lambda>(_, s).
     let n = NetSetTimeout (2 * CFG_HZ) (Some TftpTimeout) n;
         n = NetSetHandler TftpHandler n;
         n = n\<lparr>TftpServerPort := WELL_KNOWN_PORT, TftpTimeoutCount := 0, TftpState := STATE_RRQ,
               TftpOurPort := 1024 + timer n mod 3072\<rparr>
     in Inr (TftpSend n, s)))"

section \<open>ARP\<close>

definition ArpRequest :: "config \<Rightarrow> net \<Rightarrow> sys \<Rightarrow> net result" where
  "ArpRequest cfg n s =
     (let n = n\<lparr>ArpTry := ArpTry n + 1\<rparr> in
      sbind (printf cfg (lit ''ARP broadcast %d\<newline>'') [AInt (ArpTry n)] s) (\<lambda>(_, s).
      let p = NetSetEther NetBcastAddr PROT_ARP n (NetTxPacket n);
          arp = st16 (SWAP16 ARP_ETHER) @ st16 (SWAP16 PROT_IP) @ [6, 4] @ st16 (SWAP16 ARPOP_REQUEST)
            @ NetCopyEther (NetOurEther n) @ NetWriteIP (NetOurIP n) @ replicate 6 0
            @ NetWriteIP (if NetOurGatewayIP n \<noteq> 0 then NetOurGatewayIP n else NetServerIP n);
          n = n\<lparr>NetTxPacket := put_bytes ETHER_HDR_SIZE arp p\<rparr>;
          n = NetSendPacket (NetTxPacket n) (ETHER_HDR_SIZE + ARP_HDR_SIZE) n;
          n = NetSetTimeout (5 * CFG_HZ) (Some ArpTimeout) n
      in Inr (NetSetHandler ArpHandler n, s)))"

definition ArpHandler_rx :: "config \<Rightarrow> net \<Rightarrow> sys \<Rightarrow> net result" where
  "ArpHandler_rx cfg n s = TftpStart cfg n s"

definition ArpTimeout_handler :: "config \<Rightarrow> net \<Rightarrow> sys \<Rightarrow> net result" where
  "ArpTimeout_handler cfg n s = ArpRequest cfg n s"

section \<open>RARP\<close>

text \<open>The 16-bit fields are stored without \<open>SWAP16\<close>.\<close>

definition RarpRequest :: "config \<Rightarrow> net \<Rightarrow> sys \<Rightarrow> net result" where
  "RarpRequest cfg n s =
     (let n = n\<lparr>RarpTry := RarpTry n + 1\<rparr> in
      sbind (printf cfg (lit ''RARP broadcast %d\<newline>'') [AInt (RarpTry n)] s) (\<lambda>(_, s).
      let p = NetSetEther NetBcastAddr PROT_RARP n (NetTxPacket n);
          rarp = st16 ARP_ETHER @ st16 PROT_IP @ [6, 4] @ st16 RARPOP_REQUEST
            @ NetCopyEther (NetOurEther n) @ st32 (SWAP32 (NetOurIP n)) @ NetCopyEther (NetOurEther n)
            @ replicate 4 0xFF;
          n = n\<lparr>NetTxPacket := put_bytes ETHER_HDR_SIZE rarp p\<rparr>;
          n = NetSendPacket (NetTxPacket n) (ETHER_HDR_SIZE + ARP_HDR_SIZE) n;
          n = NetSetTimeout (5 * CFG_HZ) (Some RarpTimeout) n
      in Inr (NetSetHandler RarpHandler n, s)))"

definition RarpHandler_rx :: "config \<Rightarrow> net \<Rightarrow> sys \<Rightarrow> net result" where
  "RarpHandler_rx cfg n s = TftpStart cfg n s"

definition RarpTimeout_handler :: "config \<Rightarrow> net \<Rightarrow> sys \<Rightarrow> net result" where
  "RarpTimeout_handler cfg n s = RarpRequest cfg n s"

section \<open>BOOTP\<close>

abbreviation (input) PORT_BOOTPS :: u32 where "PORT_BOOTPS \<equiv> 67"
abbreviation (input) PORT_BOOTPC :: u32 where "PORT_BOOTPC \<equiv> 68"
abbreviation (input) BOOTP_VENDOR_MAGIC :: u32 where "BOOTP_VENDOR_MAGIC \<equiv> 0x63825363"
abbreviation (input) OPT_SIZE :: nat where "OPT_SIZE \<equiv> 64"
abbreviation (input) OP_BOOTREQUEST :: byte where "OP_BOOTREQUEST \<equiv> 1"
abbreviation (input) OP_BOOTREPLY :: byte where "OP_BOOTREPLY \<equiv> 2"
abbreviation (input) HWT_ETHER :: byte where "HWT_ETHER \<equiv> 1"
abbreviation (input) HWL_ETHER :: byte where "HWL_ETHER \<equiv> 6"
abbreviation (input) DHCP_OFFER :: byte where "DHCP_OFFER \<equiv> 2"
abbreviation (input) DHCP_ACK :: byte where "DHCP_ACK \<equiv> 5"
abbreviation (input) DHCP_NAK :: byte where "DHCP_NAK \<equiv> 6"

text \<open>\<open>Bootp_t\<close>: the offsets of its fields, and its size with the vendor area of \<open>OPT_SIZE\<close> bytes.\<close>

abbreviation (input) bp_op :: nat where "bp_op \<equiv> 0"
abbreviation (input) bp_htype :: nat where "bp_htype \<equiv> 1"
abbreviation (input) bp_hlen :: nat where "bp_hlen \<equiv> 2"
abbreviation (input) bp_id :: nat where "bp_id \<equiv> 4"
abbreviation (input) bp_yiaddr :: nat where "bp_yiaddr \<equiv> 16"
abbreviation (input) bp_siaddr :: nat where "bp_siaddr \<equiv> 20"
abbreviation (input) bp_file :: nat where "bp_file \<equiv> 108"
abbreviation (input) bp_vend :: nat where "bp_vend \<equiv> 236"
abbreviation (input) BOOTP_HDR_SIZE :: nat where "BOOTP_HDR_SIZE \<equiv> 300"
abbreviation (input) BOOTP_SIZE :: nat where "BOOTP_SIZE \<equiv> 342"

definition BootpCheckPkt :: "byte list \<Rightarrow> u32 \<Rightarrow> u32 \<Rightarrow> u32 \<Rightarrow> net \<Rightarrow> int" where
  "BootpCheckPkt pkt dest src len n =
     (let retval = 0;
          retval = (if dest \<noteq> PORT_BOOTPC \<or> src \<noteq> PORT_BOOTPS then -1 else retval);
          retval = (if len < 236 then -2 else retval);
          retval = (if pkt ! bp_op \<notin> set [OP_BOOTREQUEST, OP_BOOTREPLY, DHCP_OFFER, DHCP_ACK, DHCP_NAK]
                    then -3 else retval);
          retval = (if pkt ! bp_htype \<noteq> HWT_ETHER then -4 else retval);
          retval = (if pkt ! bp_hlen \<noteq> HWL_ETHER then -5 else retval);
          retval = (if ld32 pkt bp_id \<noteq> BootpID n then -6 else retval)
      in retval)"

definition BootpCopyNetParams :: "config \<Rightarrow> byte list \<Rightarrow> net \<Rightarrow> sys \<Rightarrow> net result" where
  "BootpCopyNetParams cfg bp n s =
     (let n = n\<lparr>NetOurIP := NetReadIP (field bp bp_yiaddr 4),
                NetServerIP := NetReadIP (field bp bp_siaddr 4),
                NetServerEther := NetCopyEther (field (NetRxPkt n) et_src 6)\<rparr>;
          s = set_BootFile (cstr_of (field bp bp_file 128)) s
      in sbind (setenv cfg (lit ''bootfile'') (Some (cstr_of (BootFile s))) s) (\<lambda>(_, s). Inr (n, s)))"

definition truncate_sz :: "config \<Rightarrow> byte list \<Rightarrow> nat \<Rightarrow> nat \<Rightarrow> sys \<Rightarrow> nat result" where
  "truncate_sz cfg name maxlen curlen s =
     (if curlen \<ge> maxlen then
        sbind (printf cfg (lit ''*** WARNING: %s is too long (%d - max: %d) - truncated\<newline>'')
          [AStr (Some name), AInt (of_nat curlen), AInt (of_nat maxlen)] s) (\<lambda>(_, s). Inr (maxlen - 1, s))
      else Inr (curlen, s))"

text \<open>
  The option at the front of \<open>ext\<close>.  \<open>vend_string\<close>: a name is cut to its array and stored with a NUL;
  \<open>vend_word\<close>: an address is copied as it is.
\<close>

definition vend_string ::
  "config \<Rightarrow> byte list \<Rightarrow> byte list \<Rightarrow> byte list \<Rightarrow> nat \<Rightarrow> sys \<Rightarrow> byte list result" where
  "vend_string cfg name old ext k s =
     sbind (truncate_sz cfg name (length old) k s) (\<lambda>(k, s).
       if length ext < 2 + k then Inl BadAccess
       else Inr (put_bytes 0 (field ext 2 k @ [0]) old, s))"

definition vend_word :: "byte list \<Rightarrow> stop + u32" where
  "vend_word ext = (if length ext < 6 then Inl BadAccess else Inr (ld32 ext 2))"

definition BootpVendorFieldProcess :: "config \<Rightarrow> byte list \<Rightarrow> net \<Rightarrow> sys \<Rightarrow> net result" where
  "BootpVendorFieldProcess cfg ext n s =
     (let sz = unat (ext ! 1); n = n\<lparr>NetBootFileSize := 0\<rparr>; opt = ext ! 0 in
      if opt = 1 then
        if NetOurSubnetMask n = 0
        then sbind (vend_word ext) (\<lambda>w. Inr (n\<lparr>NetOurSubnetMask := w\<rparr>, s)) else Inr (n, s)
      else if opt = 3 then
        if NetOurGatewayIP n = 0
        then sbind (vend_word ext) (\<lambda>w. Inr (n\<lparr>NetOurGatewayIP := w\<rparr>, s)) else Inr (n, s)
      else if opt = 6 then
        if NetOurDNSIP n = 0
        then sbind (vend_word ext) (\<lambda>w. Inr (n\<lparr>NetOurDNSIP := w\<rparr>, s)) else Inr (n, s)
      else if opt = 12 then
        if hd (NetOurHostName n) = 0
        then sbind (vend_string cfg (lit ''Host Name'') (NetOurHostName n) ext sz s)
               (\<lambda>(t, s). Inr (n\<lparr>NetOurHostName := t\<rparr>, s)) else Inr (n, s)
      else if opt = 13 then
        if sz > 2 \<or> length ext < 2 + sz then Inl BadAccess
        else
          let old = st16 (ucast (NetBootFileSize n));
              new = put_bytes 0 (field ext 2 sz) old
          in Inr (n\<lparr>NetBootFileSize := ucast (ld16 new 0)\<rparr>, s)
      else if opt = 17 then
        if hd (NetOurRootPath n) = 0
        then sbind (vend_string cfg (lit ''Root Path'') (NetOurRootPath n) ext sz s)
               (\<lambda>(t, s). Inr (n\<lparr>NetOurRootPath := t\<rparr>, s)) else Inr (n, s)
      else if opt = 40 then
        if hd (NetOurNISDomain n) = 0
        then sbind (vend_string cfg (lit ''NIS Domain Name'') (NetOurNISDomain n) ext sz s)
               (\<lambda>(t, s). Inr (n\<lparr>NetOurNISDomain := t\<rparr>, s)) else Inr (n, s)
      else Inr (n, s))"

text \<open>\<open>BootpVendorProcess\<close>: \<open>left\<close> is what is left up to \<open>end\<close>.\<close>

function BootpVendorProcess :: "config \<Rightarrow> byte list \<Rightarrow> int \<Rightarrow> net \<Rightarrow> sys \<Rightarrow> net result" where
  "BootpVendorProcess cfg ext left n s =
     (if left \<le> 0 then Inr (n, s)
      else if ext = [] then Inl BadAccess
      else if hd ext = 0xFF then Inr (n, s)
      else if hd ext = 0 then BootpVendorProcess cfg (tl ext) (left - 1) n s
      else if tl ext = [] then Inl BadAccess
      else
        let k = unat (hd (tl ext)) + 2 in
        case (if int k \<le> left then BootpVendorFieldProcess cfg ext n s else Inr (n, s)) of
          Inl e \<Rightarrow> Inl e
        | Inr (n, s) \<Rightarrow> BootpVendorProcess cfg (drop k ext) (left - int k) n s)"
  by pat_completeness auto
termination by (relation "measure (\<lambda>(_, ext, _). length ext)") auto

text \<open>
  \<open>BootpExtended\<close> writes code and length of each wanted field and leaves its bytes; it returns how far
  it came.  \<open>CONFIG_BOOTP_MASK\<close> has its default value.
\<close>

abbreviation (input) CONFIG_BOOTP_SUBNETMASK :: u32 where "CONFIG_BOOTP_SUBNETMASK \<equiv> 0x01"
abbreviation (input) CONFIG_BOOTP_GATEWAY :: u32 where "CONFIG_BOOTP_GATEWAY \<equiv> 0x02"
abbreviation (input) CONFIG_BOOTP_HOSTNAME :: u32 where "CONFIG_BOOTP_HOSTNAME \<equiv> 0x04"
abbreviation (input) CONFIG_BOOTP_NISDOMAIN :: u32 where "CONFIG_BOOTP_NISDOMAIN \<equiv> 0x08"
abbreviation (input) CONFIG_BOOTP_BOOTPATH :: u32 where "CONFIG_BOOTP_BOOTPATH \<equiv> 0x10"
abbreviation (input) CONFIG_BOOTP_BOOTFILESIZE :: u32 where "CONFIG_BOOTP_BOOTFILESIZE \<equiv> 0x20"
abbreviation (input) CONFIG_BOOTP_DNS :: u32 where "CONFIG_BOOTP_DNS \<equiv> 0x40"

definition CONFIG_BOOTP_MASK :: u32 where
  "CONFIG_BOOTP_MASK = CONFIG_BOOTP_SUBNETMASK OR CONFIG_BOOTP_GATEWAY OR CONFIG_BOOTP_HOSTNAME
     OR CONFIG_BOOTP_BOOTPATH"

primrec ext_fields :: "u32 \<Rightarrow> (u32 \<times> byte \<times> byte) list \<Rightarrow> nat \<Rightarrow> byte list \<Rightarrow> nat \<times> byte list" where
  "ext_fields wanted [] e p = (e, p)"
| "ext_fields wanted (f # fs) e p =
     (case f of (b, code, k) \<Rightarrow>
        if wanted AND b \<noteq> 0 then ext_fields wanted fs (e + 2 + unat k) (put_bytes e [code, k] p)
        else ext_fields wanted fs e p)"

definition BootpExtended :: "u32 \<Rightarrow> nat \<Rightarrow> byte list \<Rightarrow> nat \<times> byte list" where
  "BootpExtended wanted start p =
     (let p = put_bytes start [99, 130, 83, 99] p;
          (e, p) = ext_fields wanted
            [(CONFIG_BOOTP_SUBNETMASK, 1, 4), (CONFIG_BOOTP_GATEWAY, 3, 4), (CONFIG_BOOTP_DNS, 6, 4),
             (CONFIG_BOOTP_HOSTNAME, 12, 32), (CONFIG_BOOTP_BOOTFILESIZE, 13, 2),
             (CONFIG_BOOTP_BOOTPATH, 17, 32), (CONFIG_BOOTP_NISDOMAIN, 40, 32)] (start + 4) p
      in (e + 1 - start, put_bytes e [255] p))"

definition bootp_id :: "net \<Rightarrow> u32" where
  "bootp_id n =
     (push_bit 24 (ucast (NetOurEther n ! 2)) OR push_bit 16 (ucast (NetOurEther n ! 3))
      OR push_bit 8 (ucast (NetOurEther n ! 4)) OR ucast (NetOurEther n ! 5)) + timer n"

definition BootpRequest :: "config \<Rightarrow> net \<Rightarrow> sys \<Rightarrow> net result" where
  "BootpRequest cfg n s =
     (let n = n\<lparr>BootpTry := BootpTry n + 1\<rparr> in
      sbind (printf cfg (lit ''BOOTP broadcast %d\<newline>'') [AInt (BootpTry n)] s) (\<lambda>(_, s).
      let p = put_bytes 0 (replicate PKTSIZE 0) (NetTxPacket n);
          p = NetSetEther NetBcastAddr PROT_IP n p;
          iphdr = ETHER_HDR_SIZE;
          bp = iphdr + IP_HDR_SIZE;
          p = put_bytes bp [OP_BOOTREQUEST, HWT_ETHER, HWL_ETHER, 0] p;
          p = put_bytes (bp + 8) (st16 (SWAP16 (timer n div CFG_HZ))) p;
          p = put_bytes (bp + 12) (concat (replicate 4 (NetWriteIP 0))) p;
          p = put_bytes (bp + 28) (NetCopyEther (NetOurEther n)) p;
          p = put_bytes (bp + bp_file) (copy_filename (cstr_of (BootFile s)) 128) p;
          (ext_len, p) = BootpExtended CONFIG_BOOTP_MASK (bp + bp_vend) p;
          n = n\<lparr>BootpID := bootp_id n\<rparr>;
          n = n\<lparr>NetTxPacket := put_bytes (bp + bp_id) (st32 (BootpID n)) p\<rparr>;
          pktlen = BOOTP_SIZE - OPT_SIZE + ext_len;
          iplen = BOOTP_HDR_SIZE - OPT_SIZE + ext_len;
          n = NetSetIP iphdr 0xFFFFFFFF PORT_BOOTPS PORT_BOOTPC (of_nat iplen) n;
          n = NetSetTimeout (3 * CFG_HZ) (Some BootpTimeout) n;
          n = NetSetHandler BootpHandler n
      in Inr (NetSendPacket (NetTxPacket n) pktlen n, s)))"

definition BootpTimeout_handler :: "config \<Rightarrow> net \<Rightarrow> sys \<Rightarrow> net result" where
  "BootpTimeout_handler cfg n s = BootpRequest cfg n s"

definition BootpHandler_rx ::
  "config \<Rightarrow> byte list \<Rightarrow> u32 \<Rightarrow> u32 \<Rightarrow> u32 \<Rightarrow> net \<Rightarrow> sys \<Rightarrow> net result" where
  "BootpHandler_rx cfg pkt dest src len n s =
     (if BootpCheckPkt pkt dest src len n \<noteq> 0 then Inr (n, s)
      else
        sbind (BootpCopyNetParams cfg pkt n s) (\<lambda>(n, s).
        sbind (if SWAP32 (ld32 pkt bp_vend) = BOOTP_VENDOR_MAGIC
               then BootpVendorProcess cfg (drop (bp_vend + 4) pkt) (sint len) n s
               else Inr (n, s)) (\<lambda>(n, s).
        let n = NetSetTimeout 0 None n in
        sbind (getenv cfg s (lit ''autoload'')) (\<lambda>(p, s).
          if (case p of None \<Rightarrow> False | Some p \<Rightarrow> hd0 p = ch CHR ''n'')
          then Inr (n\<lparr>NetState := NETLOOP_SUCCESS\<rparr>, s)
          else ArpRequest cfg n s))))"

end
