(* ===== verification/Net.thy ===== *)
theory Net
  imports NetProto
begin

text \<open>
  The network loop of \<^verbatim>\<open>net/net.c\<close> and the commands of \<^verbatim>\<open>common/cmd_net.c\<close>.

  The driver is outside the model: \<open>eth_rx\<close> hands over the frames of the input, \<open>eth_init\<close> and
  \<open>eth_halt\<close> leave no trace.  A frame is the content of the receive buffer with the length the driver
  found; what lies behind is left from earlier frames.
\<close>

section \<open>Dispatch\<close>

text \<open>\<open>(*packetHandler)(...)\<close> and \<open>(*timeHandler)()\<close>; a call through a null pointer is \<open>BadAccess\<close>.\<close>

definition call_handler ::
  "config \<Rightarrow> byte list \<Rightarrow> u32 \<Rightarrow> u32 \<Rightarrow> u32 \<Rightarrow> net \<Rightarrow> sys \<Rightarrow> net result" where
  "call_handler cfg pkt dest src len n s =
     (case packetHandler n of
        None \<Rightarrow> Inl BadAccess
      | Some ArpHandler \<Rightarrow> ArpHandler_rx cfg n s
      | Some RarpHandler \<Rightarrow> RarpHandler_rx cfg n s
      | Some TftpHandler \<Rightarrow> TftpHandler_rx cfg pkt dest src len n s
      | Some BootpHandler \<Rightarrow> BootpHandler_rx cfg pkt dest src len n s
      | Some StartAgainHandler \<Rightarrow> Inr (n, s))"

text \<open>\<open>(*packetHandler)(0,0,0,0)\<close>: the packet is what stands at address 0.\<close>

definition call_handler_null :: "config \<Rightarrow> net \<Rightarrow> sys \<Rightarrow> net result" where
  "call_handler_null cfg n s = call_handler cfg (bytes_at (memory s) 0 PKTSIZE_ALIGN) 0 0 0 n s"

definition call_timeout :: "config \<Rightarrow> thand \<Rightarrow> net \<Rightarrow> sys \<Rightarrow> net result" where
  "call_timeout cfg h n s =
     (case h of
        ArpTimeout \<Rightarrow> ArpTimeout_handler cfg n s
      | RarpTimeout \<Rightarrow> RarpTimeout_handler cfg n s
      | BootpTimeout \<Rightarrow> BootpTimeout_handler cfg n s
      | TftpTimeout \<Rightarrow> TftpTimeout_handler n s
      | StartAgainTimeout \<Rightarrow> Inr (startAgainTimeout n, s))"

section \<open>Receiving\<close>

definition bad_length :: "config \<Rightarrow> int \<Rightarrow> net \<Rightarrow> sys \<Rightarrow> net result" where
  "bad_length cfg len n s =
     sbind (printf cfg (lit ''bad length %d < %d\<newline>'') [AInt (word_of_int len), AInt 28] s)
       (\<lambda>(_, s). Inr (n, s))"

text \<open>The answer is built in the receive buffer, whose ARP header starts at \<open>arp_at\<close>.\<close>

definition arp_answer :: "byte list \<Rightarrow> nat \<Rightarrow> net \<Rightarrow> net" where
  "arp_answer pkt arp_at n =
     (let et = NetSetEther (field pkt et_src 6) PROT_ARP n pkt;
          et = put_bytes (arp_at + ar_op) (st16 (SWAP16 ARPOP_REPLY)) et;
          et = put_bytes (arp_at + ar_data) (NetCopyEther (NetOurEther n)) et;
          et = put_bytes (arp_at + ar_data + 6) (NetWriteIP (NetOurIP n)) et;
          et = put_bytes (arp_at + ar_data + 10) (NetCopyEther (NetOurEther n)) et;
          et = put_bytes (arp_at + ar_data + 16) (NetWriteIP (NetOurIP n)) et
      in NetSendPacket et (arp_at + ARP_HDR_SIZE) (n\<lparr>NetRxPkt := et\<rparr>))"

definition receive_arp :: "config \<Rightarrow> byte list \<Rightarrow> nat \<Rightarrow> int \<Rightarrow> net \<Rightarrow> sys \<Rightarrow> net result" where
  "receive_arp cfg pkt arp_at len n s =
     (let arp = drop arp_at pkt in
      if len < 28 then bad_length cfg len n s
      else if SWAP16 (ld16 arp ar_hrd) \<noteq> ARP_ETHER then Inr (n, s)
      else if SWAP16 (ld16 arp ar_pro) \<noteq> PROT_IP then Inr (n, s)
      else if arp ! ar_hln \<noteq> 6 then Inr (n, s)
      else if arp ! ar_pln \<noteq> 4 then Inr (n, s)
      else if NetOurIP n = 0 then Inr (n, s)
      else if NetReadIP (field arp (ar_data + 16) 4) \<noteq> NetOurIP n then Inr (n, s)
      else if SWAP16 (ld16 arp ar_op) = ARPOP_REQUEST then Inr (arp_answer pkt arp_at n, s)
      else if SWAP16 (ld16 arp ar_op) = ARPOP_REPLY then
        if NetOurEther n \<noteq> field arp (ar_data + 10) 6 then Inr (n, s)
        else
          let n = n\<lparr>NetServerEther := NetCopyEther (field arp ar_data 6)\<rparr> in
          sbind (printf cfg (lit ''eth addr: '') [] s) (\<lambda>(_, s).
          sbind (NetPrintEther cfg (NetServerEther n) s) (\<lambda>(_, s).
            call_handler_null cfg n s))
      else Inr (n, s))"

definition receive_rarp :: "config \<Rightarrow> byte list \<Rightarrow> nat \<Rightarrow> int \<Rightarrow> net \<Rightarrow> sys \<Rightarrow> net result" where
  "receive_rarp cfg pkt arp_at len n s =
     (let arp = drop arp_at pkt in
      if len < 28 then bad_length cfg len n s
      else if SWAP16 (ld16 arp ar_op) \<noteq> RARPOP_REPLY \<or> SWAP16 (ld16 arp ar_hrd) \<noteq> ARP_ETHER
          \<or> SWAP16 (ld16 arp ar_pro) \<noteq> PROT_IP \<or> arp ! ar_hln \<noteq> 6 \<or> arp ! ar_pln \<noteq> 4 then
        sbind (printf cfg (lit ''invalid RARP header\<newline>'') [] s) (\<lambda>(_, s). Inr (n, s))
      else
        call_handler_null cfg
          (n\<lparr>NetOurIP := NetReadIP (field arp (ar_data + 16) 4),
             NetServerIP := NetReadIP (field arp (ar_data + 6) 4),
             NetServerEther := NetCopyEther (field arp ar_data 6)\<rparr>) s)"

text \<open>
  The first test compares the signed \<open>len\<close> with an unsigned \<open>sizeof\<close>.  An ICMP host redirect is
  printed and then given to the packet handler like a UDP packet.
\<close>

definition receive_ip :: "config \<Rightarrow> byte list \<Rightarrow> nat \<Rightarrow> int \<Rightarrow> net \<Rightarrow> sys \<Rightarrow> net result" where
  "receive_ip cfg pkt ip_at len n s =
     (let ip = drop ip_at pkt in
      if (word_of_int len :: u32) < 28 then Inr (n, s)
      else if len < uint (SWAP16 (ld16 ip ip_len)) then
        sbind (printf cfg (lit ''len bad %d < %d\<newline>'')
          [AInt (word_of_int len), AInt (SWAP16 (ld16 ip ip_len))] s) (\<lambda>(_, s). Inr (n, s))
      else if ip ! ip_hl_v AND 0xF0 \<noteq> 0x40 then
        sbind (printf cfg (lit ''version bad %x\<newline>'') [AInt (ucast (ip ! ip_hl_v AND 0xF0))] s)
          (\<lambda>(_, s). Inr (n, s))
      else if ld16 ip ip_off AND SWAP16 0x1FFF \<noteq> 0 then
        sbind (printf cfg (lit ''can't deal with fragments\<newline>'') [] s) (\<lambda>(_, s). Inr (n, s))
      else if \<not> NetCksumOk ip (IP_HDR_SIZE_NO_UDP div 2) then
        sbind (printf cfg (lit ''checksum bad\<newline>'') [] s) (\<lambda>(_, s). Inr (n, s))
      else if NetOurIP n \<noteq> 0 \<and> NetReadIP (field ip ip_dst 4) \<noteq> NetOurIP n
          \<and> NetReadIP (field ip ip_dst 4) \<noteq> 0xFFFFFFFF then Inr (n, s)
      else
        let deliver = (\<lambda>s. call_handler cfg (drop IP_HDR_SIZE ip) (SWAP16 (ld16 ip udp_dst))
              (SWAP16 (ld16 ip udp_src)) (SWAP16 (ld16 ip udp_len) - 8) n s) in
        if ip ! ip_p = IPPROTO_ICMP then
          if ip ! udp_src \<noteq> ICMP_REDIRECT then Inr (n, s)
          else if ip ! (udp_src + 1) \<noteq> ICMP_REDIR_HOST then Inr (n, s)
          else
            sbind (print_IPaddr (ld32 ip (udp_src + 4)) (puts (lit '' ICMP Host Redirect to '') s))
              (\<lambda>(_, s). deliver (putc (ch CHR '' '') s))
        else if ip ! ip_p \<noteq> IPPROTO_UDP then Inr (n, s)
        else deliver s)"

definition NetReceive :: "config \<Rightarrow> byte list \<Rightarrow> int \<Rightarrow> net \<Rightarrow> sys \<Rightarrow> net result" where
  "NetReceive cfg pkt len n s =
     (let n = n\<lparr>NetRxPkt := pkt\<rparr>;
          x = SWAP16 (ld16 pkt et_protlen);
          (x, ip_at) = (if x < 1514 then (SWAP16 (ld16 pkt et_prot), E802_HDR_SIZE)
                        else (x, ETHER_HDR_SIZE));
          len = len - int ip_at
      in
      if x = PROT_ARP then receive_arp cfg pkt ip_at len n s
      else if x = PROT_RARP then receive_rarp cfg pkt ip_at len n s
      else if x = PROT_IP then receive_ip cfg pkt ip_at len n s
      else Inr (n, s))"

section \<open>The loop\<close>

definition net_check_prereq :: "proto_t \<Rightarrow> net \<Rightarrow> sys \<Rightarrow> int \<times> sys" where
  "net_check_prereq protocol n s =
     (if protocol = ARP then (0, s)
      else if protocol = TFTP \<and> NetServerIP n = 0 then
        (1, puts (lit ''*** ERROR: `serverip' not set\<newline>'') s)
      else if protocol = TFTP \<and> NetOurIP n = 0 then
        (1, puts (lit ''*** ERROR: `ipaddr' not set\<newline>'') s)
      else if NetOurEther n = replicate 6 0 then
        (1, puts (lit ''*** ERROR: `ethaddr' not set\<newline>'') s)
      else (0, s))"

text \<open>From the label \<open>restart\<close> to the loop; \<open>False\<close> is the early return.\<close>

definition net_begin :: "config \<Rightarrow> proto_t \<Rightarrow> net \<Rightarrow> sys \<Rightarrow> (bool \<times> net) result" where
  "net_begin cfg protocol n s =
     (let n = n\<lparr>NetState := NETLOOP_CONTINUE\<rparr> in
      sbind
        (if protocol = TFTP then
           let n = n\<lparr>NetOurIP := bi_ip_addr s\<rparr> in
           sbind (getenv cfg s (lit ''serverip'')) (\<lambda>(p, s).
           let n = n\<lparr>NetServerIP := parse_ip_addr (map_option cstr_of p)\<rparr>;
               (rc, s) = net_check_prereq protocol n s in
           if rc \<noteq> 0 then Inr ((False, n), s)
           else
             sbind (ArpRequest cfg (n\<lparr>ArpTry := 0\<rparr>) s) (\<lambda>(n, s). Inr ((True, n), s)))
         else
           let n = n\<lparr>NetOurIP := 0, NetServerIP := 0\<rparr>;
               (rc, s) = net_check_prereq protocol n s in
           if rc \<noteq> 0 then Inr ((False, n), s)
           else if protocol = BOOTP then
             sbind (BootpRequest cfg (n\<lparr>BootpTry := 0\<rparr>) s) (\<lambda>(n, s). Inr ((True, n), s))
           else
             sbind (RarpRequest cfg (n\<lparr>RarpTry := 0\<rparr>) s) (\<lambda>(n, s). Inr ((True, n), s)))
        (\<lambda>((ok, n), s). Inr ((ok, if ok then n\<lparr>NetBootFileXferSize := 0\<rparr> else n), s)))"

text \<open>One round of the loop: the frames \<open>eth_rx\<close> finds and the time.\<close>

type_synonym round_input = "(byte list \<times> int) list \<times> u32"

primrec eth_rx :: "config \<Rightarrow> (byte list \<times> int) list \<Rightarrow> net \<Rightarrow> sys \<Rightarrow> net result" where
  "eth_rx cfg [] n s = Inr (n, s)"
| "eth_rx cfg (f # fs) n s =
     (case f of (pkt, len) \<Rightarrow> sbind (NetReceive cfg pkt len n s) (\<lambda>(n, s). eth_rx cfg fs n s))"

definition net_timeout :: "config \<Rightarrow> net \<Rightarrow> sys \<Rightarrow> net result" where
  "net_timeout cfg n s =
     (case timeHandler n of
        None \<Rightarrow> Inr (n, s)
      | Some x \<Rightarrow>
          if timer n > timeValue n then call_timeout cfg x (n\<lparr>timeHandler := None\<rparr>) s
          else Inr (n, s))"

definition net_success :: "config \<Rightarrow> net \<Rightarrow> sys \<Rightarrow> unit result" where
  "net_success cfg n s =
     (if NetBootFileXferSize n > 0 then
        sbind (printf cfg (lit ''Bytes transferred = %ld (%lx hex)\<newline>'')
          [AInt (NetBootFileXferSize n), AInt (NetBootFileXferSize n)] s) (\<lambda>(_, s).
        case sprintf (lit ''%lx'') [AInt (NetBootFileXferSize n)] of
          None \<Rightarrow> Inl BadAccess
        | Some buf \<Rightarrow>
            if length buf < 10 then setenv cfg (lit ''filesize'') (Some buf) s else Inl BadAccess)
      else Inr ((), s))"

definition net_switch :: "config \<Rightarrow> proto_t \<Rightarrow> net \<Rightarrow> sys \<Rightarrow> (int option \<times> net) result" where
  "net_switch cfg protocol n s =
     (case NetState n of
        NETLOOP_RESTART \<Rightarrow>
          sbind (net_begin cfg protocol n s) (\<lambda>((ok, n), s). Inr ((if ok then None else Some 0, n), s))
      | NETLOOP_SUCCESS \<Rightarrow> sbind (net_success cfg n s) (\<lambda>(_, s). Inr ((Some 1, n), s))
      | NETLOOP_FAIL \<Rightarrow> Inr ((Some 0, n), s)
      | NETLOOP_CONTINUE \<Rightarrow> Inr ((None, n), s))"

definition net_round :: "config \<Rightarrow> proto_t \<Rightarrow> round_input \<Rightarrow> net \<Rightarrow> sys \<Rightarrow> (int option \<times> net) result" where
  "net_round cfg protocol r n s =
     sbind (eth_rx cfg (fst r) (n\<lparr>timer := snd r\<rparr>) s) (\<lambda>(n, s).
     sbind (ctrlc s) (\<lambda>(c, s).
     if c then sbind (printf cfg (lit ''\<newline>Abort\<newline>'') [] s) (\<lambda>(_, s). Inr ((Some 0, n), s))
     else sbind (net_timeout cfg n s) (\<lambda>(n, s). net_switch cfg protocol n s)))"

text \<open>\<open>NoInput\<close>: the loop is still waiting when the input ends.\<close>

fun net_rounds :: "config \<Rightarrow> proto_t \<Rightarrow> round_input list \<Rightarrow> net \<Rightarrow> sys \<Rightarrow> (int \<times> net) result" where
  "net_rounds cfg protocol [] n s = Inl NoInput"
| "net_rounds cfg protocol (r # rs) n s =
     sbind (net_round cfg protocol r n s) (\<lambda>((ret, n), s).
       case ret of Some rc \<Rightarrow> Inr ((rc, n), s) | None \<Rightarrow> net_rounds cfg protocol rs n s)"

definition NetLoop :: "config \<Rightarrow> proto_t \<Rightarrow> round_input list \<Rightarrow> net \<Rightarrow> sys \<Rightarrow> (int \<times> net) result" where
  "NetLoop cfg protocol rs n s =
     sbind (net_begin cfg protocol (n\<lparr>NetOurEther := NetCopyEther (bi_enetaddr s)\<rparr>) s)
       (\<lambda>((ok, n), s). if ok then net_rounds cfg protocol rs n s else Inr ((0, n), s))"

section \<open>Commands\<close>

definition set_ip_var :: "config \<Rightarrow> string \<Rightarrow> u32 \<Rightarrow> sys \<Rightarrow> unit result" where
  "set_ip_var cfg name x s =
     (if x \<noteq> 0 then
        (case ip_to_string x of
           None \<Rightarrow> Inl BadAccess
         | Some tmp \<Rightarrow>
             if length tmp < 16 then setenv cfg (lit name) (Some tmp) s else Inl BadAccess)
      else Inr ((), s))"

definition set_name_var :: "config \<Rightarrow> string \<Rightarrow> byte list \<Rightarrow> sys \<Rightarrow> unit result" where
  "set_name_var cfg name t s =
     (if hd t \<noteq> 0 then setenv cfg (lit name) (Some (cstr_of t)) s else Inr ((), s))"

definition netboot_update_env :: "config \<Rightarrow> net \<Rightarrow> sys \<Rightarrow> unit result" where
  "netboot_update_env cfg n s =
     sbind (set_ip_var cfg ''gatewayip'' (NetOurGatewayIP n) s) (\<lambda>(_, s).
     sbind (set_ip_var cfg ''netmask'' (NetOurSubnetMask n) s) (\<lambda>(_, s).
     sbind (set_name_var cfg ''hostname'' (NetOurHostName n) s) (\<lambda>(_, s).
     sbind (set_name_var cfg ''rootpath'' (NetOurRootPath n) s) (\<lambda>(_, s).
     sbind (set_ip_var cfg ''ipaddr'' (NetOurIP n) s) (\<lambda>(_, s).
     sbind (set_ip_var cfg ''serverip'' (NetServerIP n) s) (\<lambda>(_, s).
       set_ip_var cfg ''dnsip'' (NetOurDNSIP n) s))))))"

text \<open>The arguments; \<open>False\<close> is a wrong number of them.  \<open>do_bootm\<close> is a parameter.\<close>

definition netboot_args :: "nat \<Rightarrow> byte list option list \<Rightarrow> sys \<Rightarrow> bool result" where
  "netboot_args argc argv s =
     (if argc = 1 then Inr (True, s)
      else if argc = 2 then
        sbind (argv_str argv 1) (\<lambda>a.
          if hd0 a = ch CHR ''\"'' then Inr (True, set_BootFile a s)
          else Inr (True, s\<lparr>load_addr := fst (simple_strtoul a 16)\<rparr>))
      else if argc = 3 then
        sbind (argv_str argv 1) (\<lambda>a. sbind (argv_str argv 2) (\<lambda>b.
          Inr (True, set_BootFile b (s\<lparr>load_addr := fst (simple_strtoul a 16)\<rparr>))))
      else Inr (False, s))"

definition netboot_common ::
  "config \<Rightarrow> (byte list option list \<Rightarrow> sys \<Rightarrow> int result) \<Rightarrow> proto_t \<Rightarrow> round_input list \<Rightarrow> byte list option
    \<Rightarrow> nat \<Rightarrow> byte list option list \<Rightarrow> net \<Rightarrow> sys \<Rightarrow> (int \<times> net) result" where
  "netboot_common cfg bootm protocol rs usage argc argv n s =
     sbind (netboot_args argc argv s) (\<lambda>(ok, s).
     if \<not> ok then
       sbind (printf cfg (lit ''Usage:\<newline>%s\<newline>'') [AStr usage] s) (\<lambda>(_, s). Inr ((1, n), s))
     else
       sbind (NetLoop cfg protocol rs n s) (\<lambda>((rc, n), s).
       if rc = 0 then Inr ((0, n), s)
       else
         sbind (netboot_update_env cfg n s) (\<lambda>(_, s).
         sbind (getenv cfg s (lit ''autostart'')) (\<lambda>(p, s).
         if map_option cstr_of p = Some (lit ''yes'') then
           sbind (printf cfg (lit ''Automatic boot of image at addr 0x%08lX ...\<newline>'')
             [AInt (load_addr s)] s) (\<lambda>(_, s).
           sbind (bootm [argv ! 0, None] s) (\<lambda>(rc, s). Inr ((rc, n), s)))
         else Inr ((0, n), s)))))"

definition do_bootp where "do_bootp cfg bootm = netboot_common cfg bootm BOOTP"
definition do_tftpb where "do_tftpb cfg bootm = netboot_common cfg bootm TFTP"
definition do_rarpb where "do_rarpb cfg bootm = netboot_common cfg bootm RARP"

end
