(* ===== verification/NetSpec.thy ===== *)
theory NetSpec
  imports Net
begin

text \<open>
  The properties of the network code: what its packets look like on the wire, that a packet it
  builds is understood by the same code at the other end, and how far a download gets.
\<close>

section \<open>Bytes\<close>

lemma take_16_iff: "take_bit 16 (x :: u32) = x \<longleftrightarrow> x < 0x10000"
proof -
  have t: "unat (take_bit 16 x) = take_bit 16 (unat x)" by (rule unsigned_take_bit_eq)
  have "take_bit 16 x = x \<longleftrightarrow> unat (take_bit 16 x) = unat x" by (simp only: word_unat_eq_iff)
  also have "\<dots> \<longleftrightarrow> unat x mod 2 ^ 16 = unat x" unfolding t by (simp only: take_bit_eq_mod)
  also have "\<dots> \<longleftrightarrow> unat x < 2 ^ 16" by (metis mod_less mod_less_divisor zero_less_numeral zero_less_power)
  also have "\<dots> \<longleftrightarrow> x < 0x10000" by (simp add: word_less_nat_alt)
  finally show ?thesis .
qed

lemma ld16_st16:
  "ld16 (st16 x @ r) 0 = take_bit 16 x"
  unfolding ld16_def st16_def
  by (rule bit_word_eqI) (auto simp: bit_simps)

lemma SWAP16_twice: "x < 0x10000 \<Longrightarrow> SWAP16 (take_bit 16 (SWAP16 x)) = x"
proof (rule bit_word_eqI)
  fix n assume x: "x < 0x10000" and n: "n < LENGTH(32)"
  have "take_bit 16 x = x" using x by (simp add: take_16_iff)
  then have hi: "bit x k \<Longrightarrow> k < 16" for k by (metis bit_take_bit_iff)
  have ff: "(0xFF :: u32) = mask 8" by (simp add: mask_eq_exp_minus_1)
  show "bit (SWAP16 (take_bit 16 (SWAP16 x))) n = bit x n"
    unfolding SWAP16_def ff using n hi [of n] hi [of "16 + n"]
    by (cases "n < 8"; cases "n < 16"; auto simp: bit_simps)
qed

lemma ld16_swapped: "x < 0x10000 \<Longrightarrow> SWAP16 (ld16 (st16 (SWAP16 x) @ r) 0) = x"
  by (simp add: ld16_st16 SWAP16_twice)

lemma four: "(4 :: nat) = Suc (Suc (Suc (Suc 0)))"
  by simp

lemma NetWriteIP_bytes:
  "NetWriteIP x = [ucast (drop_bit 24 x), ucast (drop_bit 16 x), ucast (drop_bit 8 x), ucast x]"
proof -
  have 1: "ucast (drop_bit 24 (push_bit 8 x)) = (ucast (drop_bit 16 x) :: byte)"
    by (rule bit_word_eqI) (auto simp: bit_simps)
  have 2: "ucast (drop_bit 24 (push_bit 8 (push_bit 8 x))) = (ucast (drop_bit 8 x) :: byte)"
    by (rule bit_word_eqI) (auto simp: bit_simps)
  have 3: "ucast (drop_bit 24 (push_bit 8 (push_bit 8 (push_bit 8 x)))) = (ucast x :: byte)"
    by (rule bit_word_eqI) (auto simp: bit_simps)
  show ?thesis unfolding NetWriteIP_def four NetWriteIP_loop.simps 1 2 3 ..
qed

lemma NetReadIP_bytes:
  "NetReadIP [a, b, c, d] = push_bit 24 (ucast a) OR push_bit 16 (ucast b) OR push_bit 8 (ucast c) OR ucast d"
proof -
  have "NetReadIP [a, b, c, d] =
      push_bit 8 (push_bit 8 (push_bit 8 (push_bit 8 0 OR ucast a) OR ucast b) OR ucast c) OR ucast d"
    unfolding NetReadIP_def four take_Suc_Cons take_0 foldl_Cons foldl_Nil ..
  also have "\<dots> = push_bit 24 (ucast a) OR push_bit 16 (ucast b) OR push_bit 8 (ucast c) OR ucast d"
    by (rule bit_word_eqI) (auto simp: bit_simps)
  finally show ?thesis .
qed

lemma read_write_ip: "NetReadIP (NetWriteIP x) = x"
  unfolding NetWriteIP_bytes NetReadIP_bytes
proof (rule bit_word_eqI)
  fix n assume "n < LENGTH(32)"
  then show "bit (push_bit 24 (ucast (ucast (drop_bit 24 x) :: byte) :: u32) OR push_bit 16 (ucast (ucast (drop_bit 16 x) :: byte))
      OR push_bit 8 (ucast (ucast (drop_bit 8 x) :: byte)) OR ucast (ucast x :: byte)) n = bit (x :: u32) n"
    by (cases "n < 8"; cases "n < 16"; cases "n < 24") (auto simp: bit_simps)
qed

lemma length_NetWriteIP [simp]: "length (NetWriteIP x) = 4"
  by (simp add: NetWriteIP_bytes)

lemma ld16_less: "ld16 p i < 0x10000"
proof -
  have "take_bit 16 (ld16 p i) = ld16 p i"
    unfolding ld16_def by (rule bit_word_eqI) (auto simp: bit_simps dest: bit_imp_le_length)
  then show ?thesis by (simp add: take_16_iff)
qed

lemma ld16_drop: "i + j + 1 < length p \<Longrightarrow> ld16 (drop i p) j = ld16 p (i + j)"
  by (simp add: ld16_def add.assoc)

text \<open>A halfword of a list that is put together.\<close>

lemma ld16_append:
  "i + 1 < length p \<Longrightarrow> ld16 (p @ q) i = ld16 p i"
  "length p \<le> i \<Longrightarrow> ld16 (p @ q) i = ld16 q (i - length p)"
  by (auto simp: ld16_def nth_append Suc_diff_le)

section \<open>The checksum\<close>

lemma NetCksum_loop_sum:
  "2 * k \<le> length p \<Longrightarrow> NetCksum_loop k p x = x + (\<Sum>i<k. ld16 p (2 * i))"
proof (induction k arbitrary: p x)
  case (Suc k)
  have "ld16 (drop 2 p) (2 * i) = ld16 p (2 * Suc i)" if "i < k" for i
    using ld16_drop [of 2 "2 * i" p] Suc.prems that by simp
  then have "(\<Sum>i<k. ld16 (drop 2 p) (2 * i)) = (\<Sum>i<k. ld16 p (2 * Suc i))" by simp
  with Suc show ?case by (simp add: sum.lessThan_Suc_shift del: sum.lessThan_Suc)
qed simp

text \<open>Adding the carries back keeps the sum modulo \<open>0xFFFF\<close>; twice is enough for it to fit.\<close>

definition carry :: "nat \<Rightarrow> nat" where
  "carry k = k mod 0x10000 + k div 0x10000"

lemma carry_mod: "carry k mod 0xFFFF = k mod 0xFFFF"
proof -
  have "k = 0x10000 * (k div 0x10000) + k mod 0x10000" by simp
  then have "k = carry k + 0xFFFF * (k div 0x10000)" unfolding carry_def by linarith
  then show ?thesis by (metis mod_mult_self2)
qed

lemma carry_small: "k < 0x20000 \<Longrightarrow> carry k = (if k < 0x10000 then k else k - 0xFFFF)"
  by (auto simp: carry_def div_if mod_if [of k])

lemma carry_twice_less:
  assumes "k < 0x100000"
  shows "carry (carry k) < 0x10000"
proof -
  have "k div 0x10000 < 0x10" using assms by (simp add: less_mult_imp_div_less)
  moreover have "k mod 0x10000 < 0x10000" by simp
  ultimately have "carry k < 0x10010" unfolding carry_def by linarith
  then show ?thesis using carry_small [of "carry k"] by (simp split: if_splits)
qed

lemma unat_carry: "unat ((x AND 0xFFFF) + drop_bit 16 x) = carry (unat (x :: u32))"
proof -
  have m: "(0xFFFF :: u32) = mask 16" by (simp add: mask_eq_exp_minus_1)
  have a: "unat (x AND 0xFFFF) = unat x mod 0x10000"
    unfolding m take_bit_eq_mask [symmetric] by (simp only: unsigned_take_bit_eq) (simp add: take_bit_eq_mod)
  have b: "unat (drop_bit 16 x) = unat x div 0x10000"
    using unat_u32_less [of x]
    by (simp only: unsigned_drop_bit_eq) (simp add: drop_bit_eq_div take_bit_nat_eq_self)
  have "unat x mod 0x10000 < 0x10000" by simp
  moreover have "unat x div 0x10000 < 0x10000" using unat_u32_less [of x] by (simp add: less_mult_imp_div_less)
  ultimately have "unat x mod 0x10000 + unat x div 0x10000 < 2 ^ 32" by simp
  then have "unat (x AND 0xFFFF) + unat (drop_bit 16 x) < 2 ^ LENGTH(32)" by (simp add: a b)
  then show ?thesis by (simp add: unat_plus_if_size word_size a b carry_def)
qed

lemma unat_NetCksum:
  assumes "unat (NetCksum_loop k p 0) < 0x100000"
  shows "unat (NetCksum p k) = carry (carry (unat (NetCksum_loop k p 0)))"
proof -
  define x where "x = NetCksum_loop k p 0"
  define y where "y = (x AND 0xFFFF) + drop_bit 16 x"
  define z where "z = (y AND 0xFFFF) + drop_bit 16 y"
  have z: "unat z = carry (carry (unat x))" by (simp only: z_def y_def unat_carry)
  then have "unat z < 0x10000" using carry_twice_less assms by (simp add: x_def)
  then have "take_bit 16 z = z" by (simp only: take_16_iff) (simp add: word_less_nat_alt)
  moreover have "(0xFFFF :: u32) = mask 16" by (simp add: mask_eq_exp_minus_1)
  ultimately have "z AND 0xFFFF = z" by (simp only: take_bit_eq_mask)
  then have "NetCksum p k = z" by (simp add: NetCksum_def Let_def x_def y_def z_def)
  with z show ?thesis by (simp add: x_def)
qed

lemma unat_sum_le:
  fixes f :: "nat \<Rightarrow> u32"
  assumes "\<And>i. unat (f i) \<le> b"
  shows "unat (\<Sum>i<k. f i) \<le> k * b"
proof (induction k)
  case (Suc k)
  have "unat ((\<Sum>i<k. f i) + f k) \<le> unat (\<Sum>i<k. f i) + unat (f k)"
    by (simp add: unat_word_ariths)
  with Suc.IH assms [of k] show ?case by simp
qed simp

text \<open>
  A header whose checksum field holds the complement of the sum of the others is accepted: ten
  halfwords, the sixth of them the sum.
\<close>

lemma NetCksum_complement:
  assumes "length A = 10" "10 \<le> length (B :: byte list)"
  shows "NetCksumOk (A @ st16 (NOT (NetCksum (A @ st16 0 @ B) 10)) @ B) 10"
proof -
  let ?p = "\<lambda>w. A @ st16 w @ B" and ?C = "NetCksum (A @ st16 0 @ B) 10"
  have l: "2 * 10 \<le> length (?p w)" for w using assms by simp
  have at: "ld16 (?p w) (2 * i) = ld16 (?p 0) (2 * i) + (if i = 5 then take_bit 16 w else 0)"
    if "i < 10" for w i
  proof -
    consider "i < 5" | "i = 5" | "5 < i" by linarith
    then show ?thesis
    proof cases
      case 1 with assms show ?thesis by (simp add: ld16_append(1))
    next
      case 2 with assms show ?thesis by (simp add: ld16_append(2) ld16_st16)
    next
      case 3 with assms show ?thesis by (simp add: ld16_append(2))
    qed
  qed
  have sum: "NetCksum_loop 10 (?p w) 0 = NetCksum_loop 10 (?p 0) 0 + take_bit 16 w" for w
    unfolding NetCksum_loop_sum [OF l] using at [of _ w] by (simp add: sum.distrib)
  define K where "K = unat (NetCksum_loop 10 (?p 0) 0)"
  have "unat (ld16 p i) \<le> 0xFFFF" for p i using ld16_less [of p i] by (simp add: word_less_nat_alt)
  then have K: "K \<le> 10 * 0xFFFF"
    unfolding K_def NetCksum_loop_sum [OF l] by (simp only: add_0) (rule unat_sum_le)
  define c where "c = carry (carry K)"
  have C: "unat ?C = c" unfolding c_def K_def by (rule unat_NetCksum) (use K in \<open>simp add: K_def\<close>)
  have c: "c < 0x10000" "c mod 0xFFFF = K mod 0xFFFF"
    unfolding c_def carry_mod by (rule carry_twice_less) (use K in simp)+
  have "take_bit 16 ?C = ?C" using c(1) C by (simp only: take_16_iff) (simp add: word_less_nat_alt)
  then have "take_bit 16 (NOT ?C) = 0xFFFF - ?C"
    by (simp add: take_bit_not_eq_mask_diff mask_eq_exp_minus_1 del: take_bit_not_iff)
  then have n: "unat (take_bit 16 (NOT ?C)) = 0xFFFF - c"
    using c(1) C by (simp add: unat_sub_if_size word_size)
  define r where "r = carry (carry (K + (0xFFFF - c)))"
  have "unat (NetCksum_loop 10 (?p (NOT ?C)) 0) = K + (0xFFFF - c)"
    by (subst sum, subst unat_plus_if_size) (use K c(1) in \<open>simp add: n K_def [symmetric] word_size\<close>)
  then have R: "unat (NetCksum (?p (NOT ?C)) 10) = r"
    using K c(1) by (simp add: unat_NetCksum r_def)
  have "(K + (0xFFFF - c)) mod 0xFFFF = (c + (0xFFFF - c)) mod 0xFFFF"
    by (rule mod_add_cong) (simp_all add: c(2))
  then have "r mod 0xFFFF = 0" unfolding r_def carry_mod using c(1) by simp
  moreover have "r < 0x10000" unfolding r_def by (rule carry_twice_less) (use K c(1) in simp)
  ultimately have "r = 0 \<or> r = 0xFFFF" by (auto elim!: dvdE simp: mod_eq_0_iff_dvd)
  then have "NetCksum (?p (NOT ?C)) 10 = 0 \<or> NetCksum (?p (NOT ?C)) 10 = 0xFFFF"
    using R by (auto simp: word_unat_eq_iff)
  then show ?thesis by (auto simp: NetCksumOk_def)
qed

section \<open>Frames\<close>

lemma length_put_bytes [simp]:
  "i + length bs \<le> length p \<Longrightarrow> length (put_bytes i bs p) = length p"
  by (simp add: put_bytes_def)

lemma take_put_bytes: "k \<le> i \<Longrightarrow> take k (put_bytes i bs p) = take k p" if "i \<le> length p"
  using that by (simp add: put_bytes_def min_def)

lemma length_ip_header [simp]: "length cks = 2 \<Longrightarrow> length (ip_header cks dest dport sport len ipid n) = 28"
  by (simp add: ip_header_def)

lemma length_NetSetEther [simp]:
  "length a = 6 \<Longrightarrow> length (NetOurEther n) = 6 \<Longrightarrow> 14 \<le> length p \<Longrightarrow> length (NetSetEther a prot n p) = length p"
  by (simp add: NetSetEther_def NetCopyEther_def)

lemma NetSetEther_bytes:
  assumes "length a = 6" "length (NetOurEther n) = 6" "14 \<le> length p"
  shows "NetSetEther a prot n p = a @ NetOurEther n @ st16 (SWAP16 prot) @ drop 14 p"
  using assms by (simp add: NetSetEther_def NetCopyEther_def put_bytes_def)

text \<open>What \<open>NetSetEther\<close> and \<open>NetSetIP\<close> put in front of \<open>k\<close> bytes of payload.\<close>

definition net_header :: "byte list \<Rightarrow> u32 \<Rightarrow> u32 \<Rightarrow> u32 \<Rightarrow> nat \<Rightarrow> net \<Rightarrow> byte list" where
  "net_header a dest dport sport k n =
     (let ipid = push_bit 8 (NetIPID n AND 0xFF) OR drop_bit 8 (NetIPID n + 1) in
      a @ NetOurEther n @ st16 (SWAP16 PROT_IP)
      @ ip_header (st16 (NOT (NetCksum (ip_header (st16 0) dest dport sport (of_nat k) ipid n) 10)))
          dest dport sport (of_nat k) ipid n)"

lemma length_net_header: "length a = 6 \<Longrightarrow> length (NetOurEther n) = 6 \<Longrightarrow> length (net_header a dest dport sport k n) = 42"
  by (simp add: net_header_def Let_def)

lemma NetSetIP_frame:
  assumes "length p = PKTSIZE_ALIGN" "length a = 6" "length (NetOurEther n) = 6" "k \<le> 1400"
  shows "take (42 + k) (NetTxPacket (NetSetIP 14 dest dport sport (of_nat k)
      (n\<lparr>NetTxPacket := NetSetEther a PROT_IP n p\<rparr>)))
    = net_header a dest dport sport k n @ field p 42 k"
proof -
  define q where "q = NetSetEther a PROT_IP n p"
  define r where "r = (if (of_nat k :: u32) AND 1 \<noteq> 0 then put_bytes (42 + k) [0] q else q)"
  define ipid where "ipid = push_bit 8 (NetIPID n AND 0xFF) OR drop_bit 8 (NetIPID n + 1)"
  let ?H = "ip_header (st16 (NOT (NetCksum (ip_header (st16 0) dest dport sport (of_nat k) ipid n) 10)))
          dest dport sport (of_nat k) ipid n"
  have l: "length q = 1536" "unat (of_nat k :: u32) = k"
    using assms by (simp_all add: q_def unat_of_nat)
  then have r: "length r = 1536" "take 14 r = take 14 q" "take k (drop 42 r) = take k (drop 42 q)"
    using assms(4) by (simp_all add: r_def take_put_bytes) (simp add: put_bytes_def drop_take)
  have q: "take 14 q = a @ NetOurEther n @ st16 (SWAP16 PROT_IP)" "drop 42 q = drop 42 p"
    using assms by (simp_all add: q_def NetSetEther_bytes)
  have "NetTxPacket (NetSetIP 14 dest dport sport (of_nat k) (n\<lparr>NetTxPacket := q\<rparr>)) = put_bytes 14 ?H r"
    by (simp add: NetSetIP_def Let_def l(2) r_def ipid_def ip_header_def)
  then show ?thesis
    using r q assms(2,3) by (simp add: q_def [symmetric] put_bytes_def net_header_def Let_def ipid_def field_def)
qed

text \<open>The fields of a header, read as \<open>NetReceive\<close> reads them.\<close>

lemma half: "push_bit 8 (ucast (ucast (drop_bit 8 x) :: byte)) OR ucast (ucast x :: byte) = take_bit 16 (x :: u32)"
  using ld16_st16 [of x "[]"] by (simp add: ld16_def st16_def)

lemma swapped_field: "x < 0x10000 \<Longrightarrow>
    SWAP16 (push_bit 8 (ucast (ucast (drop_bit 8 (SWAP16 x)) :: byte)) OR ucast (ucast (SWAP16 x) :: byte)) = x"
  unfolding half by (rule SWAP16_twice)

lemma ip_header_fields:
  assumes "length cks = 2"
  shows "ip_header cks dest dport sport len ipid n ! ip_hl_v = 0x45"
    and "ip_header cks dest dport sport len ipid n ! ip_p = IPPROTO_UDP"
    and "28 + len < 0x10000 \<Longrightarrow> SWAP16 (ld16 (ip_header cks dest dport sport len ipid n) ip_len) = 28 + len"
    and "ld16 (ip_header cks dest dport sport len ipid n) ip_off = 0x40"
    and "field (ip_header cks dest dport sport len ipid n) ip_dst 4 = NetWriteIP dest"
    and "dport < 0x10000 \<Longrightarrow> SWAP16 (ld16 (ip_header cks dest dport sport len ipid n) udp_dst) = dport"
    and "sport < 0x10000 \<Longrightarrow> SWAP16 (ld16 (ip_header cks dest dport sport len ipid n) udp_src) = sport"
    and "8 + len < 0x10000 \<Longrightarrow> SWAP16 (ld16 (ip_header cks dest dport sport len ipid n) udp_len) = 8 + len"
proof -
  obtain a b where c: "cks = [a, b]" using assms by (auto simp: numeral_2_eq_2 length_Suc_conv)
  note d = ip_header_def st16_def NetWriteIP_bytes ld16_def field_def c
  show "ip_header cks dest dport sport len ipid n ! ip_hl_v = 0x45" by (simp add: d)
  show "ip_header cks dest dport sport len ipid n ! ip_p = IPPROTO_UDP" by (simp add: d)
  show "28 + len < 0x10000 \<Longrightarrow> SWAP16 (ld16 (ip_header cks dest dport sport len ipid n) ip_len) = 28 + len"
    using swapped_field [of "28 + len"] by (simp add: d)
  show "ld16 (ip_header cks dest dport sport len ipid n) ip_off = 0x40"
    using half [of "SWAP16 0x4000"] by (simp add: d SWAP16_def)
  show "field (ip_header cks dest dport sport len ipid n) ip_dst 4 = NetWriteIP dest"
    by (simp add: d)
  show "dport < 0x10000 \<Longrightarrow> SWAP16 (ld16 (ip_header cks dest dport sport len ipid n) udp_dst) = dport"
    using swapped_field [of dport] by (simp add: d)
  show "sport < 0x10000 \<Longrightarrow> SWAP16 (ld16 (ip_header cks dest dport sport len ipid n) udp_src) = sport"
    using swapped_field [of sport] by (simp add: d)
  show "8 + len < 0x10000 \<Longrightarrow> SWAP16 (ld16 (ip_header cks dest dport sport len ipid n) udp_len) = 8 + len"
    using swapped_field [of "8 + len"] by (simp add: d)
qed

lemma ld16_left: "i + 1 < length p \<Longrightarrow> ld16 (p @ q) i = ld16 p i"
  by (rule ld16_append(1))

lemma field_left: "i + k \<le> length p \<Longrightarrow> field (p @ q) i k = field p i k"
  by (simp add: field_def)

lemma NetCksumOk_left: "20 \<le> length p \<Longrightarrow> NetCksumOk (p @ q) 10 = NetCksumOk p 10"
  by (simp add: NetCksumOk_def NetCksum_def Let_def NetCksum_loop_sum ld16_left)

lemma header_checksum_ok:
  "NetCksumOk (ip_header (st16 (NOT (NetCksum (ip_header (st16 0) dest dport sport len ipid n) 10)))
    dest dport sport len ipid n @ q) 10"
proof -
  let ?A = "[0x45, 0] @ st16 (SWAP16 (28 + len)) @ st16 ipid @ st16 (SWAP16 0x4000) @ [255, 17]"
  let ?B = "NetWriteIP (NetOurIP n) @ NetWriteIP dest
     @ st16 (SWAP16 sport) @ st16 (SWAP16 dport) @ st16 (SWAP16 (8 + len)) @ st16 0"
  have h: "ip_header cks dest dport sport len ipid n = ?A @ cks @ ?B" for cks
    by (simp add: ip_header_def)
  have "NetCksumOk (?A @ st16 (NOT (NetCksum (?A @ st16 0 @ ?B) 10)) @ ?B) 10"
    by (rule NetCksum_complement) simp_all
  then show ?thesis unfolding h by (subst NetCksumOk_left) simp_all
qed

text \<open>An Ethernet frame with an IP packet, as \<open>NetReceive\<close> takes it apart.\<close>

lemma NetReceive_ip:
  assumes "length e = 12"
  shows "NetReceive cfg (e @ st16 (SWAP16 PROT_IP) @ ip) len m s =
    receive_ip cfg (e @ st16 (SWAP16 PROT_IP) @ ip) 14 (len - 14) (m\<lparr>NetRxPkt := e @ st16 (SWAP16 PROT_IP) @ ip\<rparr>) s"
proof -
  have "ld16 (e @ st16 (SWAP16 PROT_IP) @ ip) et_protlen = ld16 (st16 (SWAP16 PROT_IP) @ ip) 0"
    using assms by (simp add: ld16_append(2))
  then have "SWAP16 (ld16 (e @ st16 (SWAP16 PROT_IP) @ ip) et_protlen) = PROT_IP"
    by (simp only: ld16_swapped) (simp add: ld16_swapped)
  then show ?thesis by (simp add: NetReceive_def Let_def)
qed

lemma receive_udp:
  fixes len :: u32
  assumes "length cks = 2" "unat len \<le> 1400" "dport < 0x10000" "sport < 0x10000" "length e = 14"
    and "NetCksumOk (ip_header cks dest dport sport len ipid n @ q) 10"
    and "NetOurIP m = 0 \<or> NetOurIP m = dest \<or> dest = 0xFFFFFFFF"
  shows "receive_ip cfg (e @ ip_header cks dest dport sport len ipid n @ q) 14 (28 + int (unat len)) m s
    = call_handler cfg q dport sport len m s"
proof -
  let ?H = "ip_header cks dest dport sport len ipid n"
  have u: "unat (28 + len) = 28 + unat len" "unat (8 + len) = 8 + unat len"
    using assms(2) by (simp_all add: unat_plus_if_size word_size)
  then have small: "28 + len < 0x10000" "8 + len < 0x10000"
    using assms(2) by (simp_all add: word_less_nat_alt)
  note f = ip_header_fields [OF assms(1), where dest = dest and dport = dport and sport = sport and len = len
      and ipid = ipid and n = n]
  have len: "SWAP16 (ld16 (?H @ q) ip_len) = 28 + len" using f(3) small(1) assms(1) by (simp add: ld16_left)
  have off: "ld16 (?H @ q) ip_off AND SWAP16 0x1FFF = 0"
    using f(4) assms(1) by (simp add: ld16_left SWAP16_def)
  have ports: "SWAP16 (ld16 (?H @ q) udp_dst) = dport" "SWAP16 (ld16 (?H @ q) udp_src) = sport"
    "SWAP16 (ld16 (?H @ q) udp_len) - 8 = len"
    using f(6-8) assms(1,3,4) small by (simp_all add: ld16_left)
  have dst: "NetReadIP (field (?H @ q) ip_dst 4) = dest"
    using f(5) assms(1) by (simp add: field_left read_write_ip)
  have b: "(?H @ q) ! ip_hl_v = 0x45" "(?H @ q) ! ip_p = IPPROTO_UDP"
    using f(1,2) assms(1) by (simp_all add: nth_append)
  have d: "drop 14 (e @ ?H @ q) = ?H @ q" "drop 28 (?H @ q) = q" using assms(1,5) by simp_all
  have w1: "(word_of_int (28 + int (unat len)) :: u32) = 28 + len" by simp
  have "int (unat (28 + len)) = int (28 + unat len)" using u(1) by (rule arg_cong)
  then have w2: "uint (28 + len) = 28 + int (unat len)" by simp
  show ?thesis
    unfolding receive_ip_def d Let_def b len off ports dst w1 w2
    using assms(6,7) small u by (auto simp: word_less_nat_alt)
qed

text \<open>
  C27: a packet is understood by the same code at the other end.  Whatever \<open>k\<close> bytes stand behind the
  headers in the transmit buffer, a station that receives the frame built by \<open>NetSetEther\<close> and
  \<open>NetSetIP\<close> and whose address is the destination (or is unknown yet, or the packet is a broadcast)
  accepts its length, version, fragment field and checksum and hands exactly these bytes, with the
  two ports and the length, to its packet handler.
\<close>

theorem ip_packet_delivered:
  assumes "length p = PKTSIZE_ALIGN" "length a = 6" "length (NetOurEther n) = 6" "k \<le> 1400"
    and "dport < 0x10000" "sport < 0x10000"
    and "NetOurIP m = 0 \<or> NetOurIP m = dest \<or> dest = 0xFFFFFFFF"
    and "f = take (42 + k) (NetTxPacket (NetSetIP 14 dest dport sport (of_nat k)
      (n\<lparr>NetTxPacket := NetSetEther a PROT_IP n p\<rparr>)))"
  shows "NetReceive cfg (f @ rest) (42 + int k) m s
    = call_handler cfg (field p 42 k @ rest) dport sport (of_nat k) (m\<lparr>NetRxPkt := f @ rest\<rparr>) s"
proof -
  let ?id = "push_bit 8 (NetIPID n AND 0xFF) OR drop_bit 8 (NetIPID n + 1)"
  let ?cks = "st16 (NOT (NetCksum (ip_header (st16 0) dest dport sport (of_nat k) ?id n) 10))"
  let ?H = "ip_header ?cks dest dport sport (of_nat k) ?id n" and ?q = "field p 42 k @ rest"
  have k: "unat (of_nat k :: u32) = k" using assms(4) by (simp add: unat_of_nat)
  have f: "f @ rest = (a @ NetOurEther n) @ st16 (SWAP16 PROT_IP) @ ?H @ ?q"
    unfolding assms(8) NetSetIP_frame [OF assms(1-4)] by (simp add: net_header_def Let_def)
  have "receive_ip cfg (((a @ NetOurEther n) @ st16 (SWAP16 PROT_IP)) @ ?H @ ?q) 14
      (28 + int (unat (of_nat k :: u32))) (m\<lparr>NetRxPkt := f @ rest\<rparr>) s
    = call_handler cfg ?q dport sport (of_nat k) (m\<lparr>NetRxPkt := f @ rest\<rparr>) s"
    by (rule receive_udp) (use assms(2-7) k header_checksum_ok in simp_all)
  with f k assms(2,3) show ?thesis
    by (simp add: NetReceive_ip [of "a @ NetOurEther n", simplified])
qed

theorem ip_packet_delivered_witness:
  "NetReceive dnp1110 (take (42 + 5) (NetTxPacket (NetSetIP 14 0xAC160216 69 1024 (of_nat 5)
        (net_bss\<lparr>NetTxPacket := NetSetEther (replicate 6 9) PROT_IP net_bss (replicate 1536 7)\<rparr>))) @ [3])
      (42 + int 5) net_bss (reset_sys 0)
    = call_handler dnp1110 (field (replicate 1536 7) 42 5 @ [3]) 69 1024 (of_nat 5)
        (net_bss\<lparr>NetRxPkt := take (42 + 5) (NetTxPacket (NetSetIP 14 0xAC160216 69 1024 (of_nat 5)
        (net_bss\<lparr>NetTxPacket := NetSetEther (replicate 6 9) PROT_IP net_bss (replicate 1536 7)\<rparr>))) @ [3]\<rparr>)
        (reset_sys 0)"
  by (rule ip_packet_delivered [where a = "replicate 6 9" and n = net_bss and dest = "0xAC160216", OF _ _ _ _ _ _ _ refl])
    (simp_all add: net_bss_def)

end
