(* ===== verification/NetInv.thy ===== *)
theory NetInv
  imports NetSpec
begin

text \<open>
  What stays true however long the network loop runs: the loop as a step relation, and the
  invariants of its reachable states.
\<close>

section \<open>What an operation leaves alone\<close>

text \<open>The memory that is loaded into, and the size of the array \<open>BootFile\<close>.\<close>

definition kept :: "sys \<Rightarrow> sys \<Rightarrow> bool" where
  "kept s s' = (memory s' = memory s \<and> (BootFile s \<noteq> [] \<longrightarrow> length (BootFile s') = length (BootFile s)))"

lemma kept_refl [simp]: "kept s s"
  by (simp add: kept_def)

lemma kept_trans: "kept s s' \<Longrightarrow> kept s' s'' \<Longrightarrow> kept s s''"
  by (auto simp: kept_def)

named_theorems keeping \<open>operations that keep the memory and the size of BootFile\<close>

lemma kept_out [simp]:
  "kept s (putc c t) = kept s t" "kept s (puts u t) = kept s t"
  "kept (putc c s) t = kept s t" "kept (puts u s) t = kept s t"
  by (simp_all add: kept_def putc_out puts_out)

lemma kept_printf [keeping]: "printf cfg f as s = Inr (u, s') \<Longrightarrow> kept s s'"
  by (auto simp: kept_def dest!: printf_out)

lemma kept_ctrlc [keeping]: "ctrlc s = Inr (c, s') \<Longrightarrow> kept s s'"
  using arg_cong [OF ctrlc_frame, of s c s' memory] arg_cong [OF ctrlc_frame, of s c s' BootFile]
  by (simp add: kept_def)

lemma kept_check_crc: "check_crc s = (b, s') \<Longrightarrow> kept s s'"
  by (auto simp: check_crc_def kept_def Let_def)

lemma kept_get_env_char [keeping]: "get_env_char cfg s i = Inr (c, s') \<Longrightarrow> kept s s'"
  by (auto simp: get_env_char_def board_env_getchar_def kept_check_crc
      split: option.splits if_splits prod.splits)

lemma kept_get_env_addr [keeping]: "get_env_addr cfg s i = Inr (c, s') \<Longrightarrow> kept s s'"
  by (auto simp: get_env_addr_def board_env_getaddr_def kept_check_crc
      split: option.splits if_splits prod.splits)

lemma kept_envmatch [keeping]: "envmatch cfg s t i = Inr (r, s') \<Longrightarrow> kept s s'"
proof (induction t arbitrary: s i)
  case Nil
  then show ?case by (auto elim!: sbind_InrE split: if_splits intro: kept_trans dest!: keeping)
next
  case (Cons c t)
  then show ?case by (auto elim!: sbind_InrE split: if_splits intro: kept_trans dest!: keeping)
qed

lemma kept_getenv_next [keeping]: "getenv_next cfg s i = Inr (r, s') \<Longrightarrow> kept s s'"
proof (induction cfg s i arbitrary: r s' rule: getenv_next.induct)
  case (1 cfg s i)
  from 1(2) obtain c s1 where g: "get_env_char cfg s i = Inr (c, s1)"
    by (subst (asm) getenv_next.simps) (auto elim!: sbind_InrE)
  then have k: "kept s s1" by (rule keeping)
  show ?case
  proof (cases "c \<noteq> 0 \<and> \<not> sizeof_env_data s1 \<le> i")
    case True
    then have "getenv_next cfg s1 (i + 1) = Inr (r, s')"
      using 1(2) by (subst (asm) getenv_next.simps) (simp add: g)
    from 1(1) [OF g refl _ _ this] True k show ?thesis by (auto intro: kept_trans)
  next
    case False
    then show ?thesis using 1(2) k by (subst (asm) getenv_next.simps) (auto simp: g split: if_splits)
  qed
qed

lemma kept_getenv_loop [keeping]: "getenv_loop cfg s name i = Inr (r, s') \<Longrightarrow> kept s s'"
proof (induction cfg s name i arbitrary: r s' rule: getenv_loop.induct)
  case (1 cfg s name i)
  from 1(2) obtain c s1 where g: "get_env_char cfg s i = Inr (c, s1)"
    by (subst (asm) getenv_loop.simps) (auto elim!: sbind_InrE)
  then have k1: "kept s s1" by (rule keeping)
  show ?case
  proof (cases "c = 0")
    case True
    then show ?thesis using 1(2) k1 by (subst (asm) getenv_loop.simps) (auto simp: g)
  next
    case False
    with 1(2) g obtain n s2 where n: "getenv_next cfg s1 i = Inr (n, s2)"
      by (subst (asm) getenv_loop.simps) (auto elim!: sbind_InrE)
    then have k2: "kept s s2" using k1 by (blast intro: kept_trans keeping)
    show ?thesis
    proof (cases n)
      case None
      then show ?thesis using 1(2) False k2 by (subst (asm) getenv_loop.simps) (auto simp: g n)
    next
      case (Some nxt)
      with 1(2) g n False obtain v s3 where v: "envmatch cfg s2 name i = Inr (v, s3)"
        by (subst (asm) getenv_loop.simps) (auto elim!: sbind_InrE)
      then have k3: "kept s s3" using k2 by (blast intro: kept_trans keeping)
      show ?thesis
      proof (cases v)
        case None
        then have "getenv_loop cfg s3 name (nxt + 1) = Inr (r, s')"
          using 1(2) False by (subst (asm) getenv_loop.simps) (simp add: g n v Some)
        from 1(1) [OF g refl False n refl Some v refl None this] k3 show ?thesis by (rule kept_trans [rotated])
      next
        case (Some w)
        then show ?thesis using 1(2) False k3 \<open>n = Some nxt\<close>
          by (subst (asm) getenv_loop.simps)
            (auto simp: g n v elim!: sbind_InrE intro: kept_trans dest: keeping)
      qed
    qed
  qed
qed

lemma kept_getenv [keeping]: "getenv cfg s name = Inr (r, s') \<Longrightarrow> kept s s'"
  unfolding getenv_def by (rule keeping)

lemma kept_env_search [keeping]: "env_search cfg name s env nxt = Inr (r, s') \<Longrightarrow> kept s s'"
proof (induction cfg name s env nxt arbitrary: r s' rule: env_search.induct)
  case (1 cfg name s env nxt)
  from 1(2) obtain d where d: "ub (ram_data s) = Inr d" "env < length d"
    by (subst (asm) env_search.simps) (auto elim!: sbind_InrE split: if_splits)
  show ?case
  proof (cases "d ! env = 0")
    case True
    then show ?thesis using 1(2) d by (subst (asm) env_search.simps) auto
  next
    case False
    with 1(2) d obtain n v s1 where n: "ub (seek0 d env) = Inr n" and v: "envmatch cfg s name env = Inr (v, s1)"
      by (subst (asm) env_search.simps) (auto elim!: sbind_InrE)
    then have k: "kept s s1" by (blast intro: keeping)
    show ?thesis
    proof (cases v)
      case None
      then have "env_search cfg name s1 (n + 1) n = Inr (r, s')"
        using 1(2) d False by (subst (asm) env_search.simps) (simp add: n v)
      from 1(1) [OF d(1) _ False n v refl None this] d(2) k show ?thesis by (auto intro: kept_trans)
    next
      case (Some w)
      then show ?thesis using 1(2) d False k by (subst (asm) env_search.simps) (auto simp: n v)
    qed
  qed
qed

lemma length_copy_filename_loop: "length (copy_filename_loop src k) \<le> k - 1"
  by (induction src k rule: copy_filename_loop.induct) auto

lemma length_copy_filename: "0 < k \<Longrightarrow> length (copy_filename src k) \<le> k"
  using length_copy_filename_loop [of src k] length_copy_filename_loop [of "tl src" "k - 1"]
  by (auto simp: copy_filename_def Let_def)

lemma kept_set_BootFile [simp]: "kept s (set_BootFile t s)"
  using length_copy_filename [of "length (BootFile s)" t] by (auto simp: kept_def set_BootFile_def Let_def)

lemma kept_hooks: "kept s (setenv_hooks name v s)"
  by (auto simp: setenv_hooks_def) (auto simp: kept_def)

lemma kept_data [simp]:
  "kept s (set_ram_data d t) = kept s t" "kept s (update_crc t) = kept s t"
  by (simp_all add: kept_def set_ram_data_def update_crc_def)

lemma kept_hooked [simp]: "kept s (setenv_hooks name v (update_crc (set_ram_data d s)))"
  by (rule kept_trans [OF _ kept_hooks]) simp

lemma kept_setenv_baudrate [keeping]: "setenv_baudrate cfg argv s = Inr (x, s') \<Longrightarrow> kept s s'"
  by (auto simp: setenv_baudrate_def serial_setbrg_def Let_def kept_def
      elim!: sbind_InrE split: if_splits option.splits dest!: printf_out)

lemma kept_setenv_delete [keeping]: "setenv_delete cfg name argv env nxt s = Inr (r, s') \<Longrightarrow> kept s s'"
  by (auto simp: setenv_delete_def elim!: sbind_InrE split: if_splits option.splits dest!: keeping)

lemma kept_u_do_setenv [keeping]:
  assumes "u_do_setenv cfg argc argv s = Inr (r, s')"
  shows "kept s s'"
proof -
  from assms obtain name o' env nxt s1 ret s2 where
    1: "env_search cfg name s 0 0 = Inr ((o', env, nxt), s1)"
    and 2: "(case o' of None \<Rightarrow> Inr (None, s1) | Some _ \<Rightarrow> setenv_delete cfg name argv env nxt s1) = Inr (ret, s2)"
    and 3: "(case ret of Some r \<Rightarrow> Inr (r, s2) | None \<Rightarrow>
             if argc < 3 \<or> argv ! 2 = None then Inr (0, update_crc s2)
             else
               sbind (argv_strs argv [2..<argc]) (\<lambda>vals.
               sbind (ub (ram_data s2)) (\<lambda>d.
               sbind (ub (env_end d 0)) (\<lambda>env.
                 if length d < setenv_len name vals then
                   sbind (printf cfg (lit ''## Error: environment overflow, \"%s\" deleted\<newline>'')
                     [AStr (Some name)] s2) (\<lambda>(_, s). Inr (1, s))
                 else
                   sbind (ub (env_append d env name vals)) (\<lambda>d.
                     Inr (0, setenv_hooks name (hd vals) (update_crc (set_ram_data d s2)))))))) = Inr (r, s')"
    by (auto simp: u_do_setenv_def elim!: sbind_InrE)
  have "kept s s2"
    using kept_env_search [OF 1] 2 by (auto split: option.splits intro: kept_trans dest: keeping)
  moreover have "kept s2 s'"
    using 3 by (auto elim!: sbind_InrE split: if_splits option.splits dest!: keeping)
  ultimately show ?thesis by (rule kept_trans)
qed

lemma kept_setenv [keeping]: "setenv cfg name v s = Inr (r, s') \<Longrightarrow> kept s s'"
  by (auto simp: setenv_def elim!: sbind_InrE dest: keeping)

section \<open>The globals of the network code\<close>

text \<open>
  Every array has its declared size and every name is NUL-terminated; the receive buffer, where
  there is one, has \<open>PKTSIZE_ALIGN\<close> bytes.
\<close>

definition name_wf :: "nat \<Rightarrow> byte list \<Rightarrow> bool" where
  "name_wf k t = (length t = k \<and> 0 \<in> set t)"

definition net_wf :: "net \<Rightarrow> bool" where
  "net_wf n =
     (length (NetTxPacket n) = PKTSIZE_ALIGN \<and> length (NetOurEther n) = 6 \<and> length (NetServerEther n) = 6
      \<and> name_wf 32 (NetOurHostName n) \<and> name_wf 64 (NetOurRootPath n) \<and> name_wf 32 (NetOurNISDomain n)
      \<and> length (tftp_filename n) \<le> 128 \<and> (NetRxPkt n = [] \<or> length (NetRxPkt n) = PKTSIZE_ALIGN))"

lemma net_wf_update [simp]:
  "net_wf (n\<lparr>NetOurSubnetMask := a\<rparr>) = net_wf n" "net_wf (n\<lparr>NetOurGatewayIP := a\<rparr>) = net_wf n"
  "net_wf (n\<lparr>NetOurDNSIP := a\<rparr>) = net_wf n" "net_wf (n\<lparr>NetBootFileSize := c\<rparr>) = net_wf n"
  "net_wf (n\<lparr>NetBootFileXferSize := a\<rparr>) = net_wf n" "net_wf (n\<lparr>NetOurIP := a\<rparr>) = net_wf n"
  "net_wf (n\<lparr>NetServerIP := a\<rparr>) = net_wf n" "net_wf (n\<lparr>NetIPID := a\<rparr>) = net_wf n"
  "net_wf (n\<lparr>NetState := st\<rparr>) = net_wf n" "net_wf (n\<lparr>packetHandler := h\<rparr>) = net_wf n"
  "net_wf (n\<lparr>timeHandler := th\<rparr>) = net_wf n" "net_wf (n\<lparr>timeValue := a\<rparr>) = net_wf n"
  "net_wf (n\<lparr>ArpTry := a\<rparr>) = net_wf n" "net_wf (n\<lparr>RarpTry := a\<rparr>) = net_wf n"
  "net_wf (n\<lparr>BootpTry := a\<rparr>) = net_wf n" "net_wf (n\<lparr>BootpID := a\<rparr>) = net_wf n"
  "net_wf (n\<lparr>TftpServerPort := a\<rparr>) = net_wf n" "net_wf (n\<lparr>TftpOurPort := a\<rparr>) = net_wf n"
  "net_wf (n\<lparr>TftpTimeoutCount := a\<rparr>) = net_wf n" "net_wf (n\<lparr>TftpBlock := a\<rparr>) = net_wf n"
  "net_wf (n\<lparr>TftpLastBlock := a\<rparr>) = net_wf n" "net_wf (n\<lparr>TftpState := ts\<rparr>) = net_wf n"
  "net_wf (n\<lparr>timer := a\<rparr>) = net_wf n" "net_wf (n\<lparr>eth_sent := es\<rparr>) = net_wf n"
  by (simp_all add: net_wf_def)

lemma net_wf_tx: "net_wf n \<Longrightarrow> length p = PKTSIZE_ALIGN \<Longrightarrow> net_wf (n\<lparr>NetTxPacket := p\<rparr>)"
  by (simp add: net_wf_def)

lemma net_wf_set_ip:
  assumes "net_wf n" "unat len \<le> 1400" "i = 14"
  shows "net_wf (NetSetIP i dest dport sport len n)"
  using assms by (auto simp: NetSetIP_def Let_def net_wf_def)

lemma tftp_packet_fits:
  assumes "length p = PKTSIZE_ALIGN" "length t \<le> 128" "tftp_packet st b t 42 p = (len, q)"
  shows "length q = PKTSIZE_ALIGN \<and> len \<le> 140"
  using assms by (auto simp: tftp_packet_def Let_def lit_def split: tftp_state.splits)

lemma TftpSend_wf:
  assumes "net_wf n"
  shows "net_wf (TftpSend n)"
proof -
  obtain len q where t: "tftp_packet (TftpState n) (TftpBlock n) (tftp_filename n) 42 (NetTxPacket n) = (len, q)"
    by fastforce
  from tftp_packet_fits [OF _ _ this] assms have q: "length q = 1536" "len \<le> 140"
    by (auto simp: net_wf_def)
  then have "net_wf (n\<lparr>NetTxPacket := NetSetEther (NetServerEther n) PROT_IP n q\<rparr>)"
    using assms by (simp add: net_wf_def)
  from net_wf_set_ip [OF this, of "of_nat len" 14] q(2) show ?thesis
    by (simp add: TftpSend_def t Let_def NetSendPacket_def unat_of_nat)
qed

lemma TftpSend_frame [simp]:
  "packetHandler (TftpSend n) = packetHandler n" "timeHandler (TftpSend n) = timeHandler n"
  "NetState (TftpSend n) = NetState n" "TftpState (TftpSend n) = TftpState n"
  "NetRxPkt (TftpSend n) = NetRxPkt n" "TftpTimeoutCount (TftpSend n) = TftpTimeoutCount n"
  "timeValue (TftpSend n) = timeValue n" "timer (TftpSend n) = timer n"
  by (simp_all add: TftpSend_def NetSetIP_def NetSendPacket_def Let_def split: prod.splits)

lemma NetStartAgain_simps [simp]:
  "packetHandler (NetStartAgain n) = Some StartAgainHandler"
  "timeHandler (NetStartAgain n) = Some StartAgainTimeout"
  "NetState (NetStartAgain n) = NetState n" "net_wf (NetStartAgain n) = net_wf n"
  "timeValue (NetStartAgain n) = timer n + 10 * CFG_HZ" "timer (NetStartAgain n) = timer n"
  by (simp_all add: NetStartAgain_def NetSetHandler_def NetSetTimeout_def)

text \<open>
  How far the handlers get: TFTP never leaves its first state while it is the handler, and
  without BOOTP nothing ends the loop successfully.
\<close>

definition handlers_ok :: "proto_t \<Rightarrow> net \<Rightarrow> bool" where
  "handlers_ok p n =
     ((packetHandler n = Some TftpHandler \<longrightarrow> TftpState n = STATE_RRQ)
      \<and> (p \<noteq> BOOTP \<longrightarrow> packetHandler n \<noteq> Some BootpHandler \<and> timeHandler n \<noteq> Some BootpTimeout
           \<and> NetState n \<noteq> NETLOOP_SUCCESS))"

definition good :: "proto_t \<Rightarrow> sys \<Rightarrow> net \<Rightarrow> sys \<Rightarrow> bool" where
  "good p s0 n s = (net_wf n \<and> handlers_ok p n \<and> length (BootFile s) = 128 \<and> kept s0 s)"

lemma be16: "SWAP16 (ld16 p i) = push_bit 8 (ucast (p ! i)) OR ucast (p ! (i + 1))"
proof -
  have ff: "(0xFF :: u32) = mask 8" by (simp add: mask_eq_exp_minus_1)
  have lo: "(push_bit 8 (ucast b) OR ucast c) AND mask 8 = (ucast c :: u32)" for b c :: byte
    by (rule bit_word_eqI) (auto simp: bit_simps dest: bit_imp_le_length)
  have hi: "drop_bit 8 (push_bit 8 (ucast b) OR ucast c) = (ucast b :: u32)" for b c :: byte
    by (rule bit_word_eqI) (auto simp: bit_simps dest: bit_imp_le_length)
  show ?thesis unfolding SWAP16_def ld16_def ff lo hi ..
qed

text \<open>
  The handler advances by one byte past the opcode, so the block number it reads begins with the
  opcode's own second byte.
\<close>

lemma first_block_never_1:
  assumes "1 < length pkt" "SWAP16 (ld16 pkt 0) = TFTP_DATA"
  shows "SWAP16 (ld16 (drop 1 pkt) 0) \<noteq> 1"
proof
  let ?w = "push_bit 8 (ucast (pkt ! 1) :: u32) OR ucast (drop 1 pkt ! 1)"
  have a: "(ucast (push_bit 8 (ucast (pkt ! 0) :: u32) OR ucast (pkt ! 1)) :: byte) = pkt ! 1"
    by (rule bit_word_eqI) (auto simp: bit_simps)
  have b: "(ucast (drop_bit 8 ?w) :: byte) = pkt ! 1"
    by (rule bit_word_eqI) (auto simp: bit_simps dest: bit_imp_le_length)
  assume "SWAP16 (ld16 (drop 1 pkt) 0) = 1"
  then have "?w = 1" using assms(1) unfolding be16 by simp
  then have "pkt ! 1 = 0" using b by simp
  moreover have "pkt ! 1 = 3" using a assms(2) unfolding be16 by simp
  ultimately show False by simp
qed

lemma tftp_data_first:
  assumes "TftpState n = STATE_RRQ" "SWAP16 (ld16 pkt 0) \<noteq> 1" "tftp_data cfg pkt src len n s = Inr (n', s')"
  shows "n' = n \<and> s' = s \<or> n' = NetStartAgain (n\<lparr>TftpBlock := SWAP16 (ld16 pkt 0), TftpState := STATE_DATA,
      TftpServerPort := src, TftpLastBlock := 0\<rparr>) \<and> kept s s'"
proof (cases "len < 2")
  case True
  with assms(3) show ?thesis by (simp add: tftp_data_def)
next
  case False
  let ?s = "if (SWAP16 (ld16 pkt 0) - 1) mod 10 = 0 then putc (ch CHR ''#'') s else s"
  from assms False obtain u where
    "printf cfg (lit ''\<newline>TFTP error: First block is not block 1 (%d)\<newline>Starting again\<newline>\<newline>'')
        [AInt (SWAP16 (ld16 pkt 0))] ?s = Inr (u, s')"
    and n': "n' = NetStartAgain (n\<lparr>TftpBlock := SWAP16 (ld16 pkt 0), TftpState := STATE_DATA,
      TftpServerPort := src, TftpLastBlock := 0\<rparr>)"
    by (simp add: tftp_data_def Let_def) (auto elim!: sbind_InrE)
  then have "kept ?s s'" by (blast intro: keeping)
  then have "kept s s'" by (rule kept_trans [rotated]) simp
  with n' show ?thesis by simp
qed

lemma good_start_again:
  assumes "good p s0 n s" "net_wf m" "NetState m = NetState n" "kept s s'"
  shows "good p s0 (NetStartAgain m) s'"
  using assms by (auto simp: good_def handlers_ok_def kept_def)

text \<open>Where the condition of a branch does not matter.\<close>

lemma ifE: "(if a then x else y) = r \<Longrightarrow> (x = r \<Longrightarrow> Q) \<Longrightarrow> (y = r \<Longrightarrow> Q) \<Longrightarrow> Q"
  by (simp split: if_splits)

lemma if2_cases: "(if a then x else if b then y else z) = r \<Longrightarrow> a \<and> x = r \<or> y = r \<or> z = r"
  by (simp split: if_splits)

lemma tftp_wf [simp]: "net_wf (n\<lparr>TftpServerPort := a, TftpTimeoutCount := b, TftpState := st, TftpOurPort := c\<rparr>) = net_wf n"
  by simp

lemma TftpHandler_good:
  assumes "TftpHandler_rx cfg pkt dest src len n s = Inr (n', s')" "good p s0 n s"
    and "packetHandler n = Some TftpHandler" "1 < length pkt \<or> len < 2"
  shows "good p s0 n' s'"
proof -
  have rrq: "TftpState n = STATE_RRQ" using assms(2,3) by (simp add: good_def handlers_ok_def)
  let ?pkt = "drop 1 pkt" and ?proto = "SWAP16 (ld16 pkt 0)"
  consider "n' = n" "s' = s" | "?proto = TFTP_DATA" "1 < length pkt" "tftp_data cfg ?pkt src (len - 2) n s = Inr (n', s')"
    | "tftp_error cfg ?pkt n s = Inr (n', s')"
  proof (cases "dest = TftpOurPort n \<and> \<not> len < 2")
    case True
    then have "TftpHandler_rx cfg pkt dest src len n s =
        (if ?proto = TFTP_DATA then tftp_data cfg ?pkt src (len - 2) n s
         else if ?proto = TFTP_ERROR then tftp_error cfg ?pkt n s else Inr (n, s))"
      by (simp add: TftpHandler_rx_def Let_def rrq)
    with assms(1) have "(if ?proto = TFTP_DATA then tftp_data cfg ?pkt src (len - 2) n s
        else if ?proto = TFTP_ERROR then tftp_error cfg ?pkt n s else Inr (n, s)) = Inr (n', s')" by (rule trans [OF sym, rotated])
    from if2_cases [OF this] show ?thesis
    proof (elim disjE conjE)
      assume "?proto = TFTP_DATA" "tftp_data cfg ?pkt src (len - 2) n s = Inr (n', s')"
      with assms(4) True show ?thesis by (intro that(2)) blast+
    next
      assume "tftp_error cfg ?pkt n s = Inr (n', s')" then show ?thesis by (rule that(3))
    next
      assume "Inr (n, s) = Inr (n', s')" then show ?thesis by (intro that(1)) simp_all
    qed
  next
    case False
    then have "TftpHandler_rx cfg pkt dest src len n s = Inr (n, s)"
      by (cases "dest = TftpOurPort n") (simp_all add: TftpHandler_rx_def rrq)
    with assms(1) show ?thesis by (intro that(1)) simp_all
  qed
  then show ?thesis
  proof cases
    case 2
    then have b: "SWAP16 (ld16 ?pkt 0) \<noteq> 1" by (intro first_block_never_1)
    from tftp_data_first [OF rrq b 2(3)] good_start_again [OF assms(2)] assms(2) show ?thesis
      by (auto simp: good_def)
  next
    case 3
    then have "\<exists>t. n' = NetStartAgain n \<and> s' = puts (lit ''Starting again\<newline>\<newline>'') t \<and> kept s t"
      by (auto simp: tftp_error_def elim!: sbind_InrE split: if_splits dest!: keeping)
    with good_start_again [OF assms(2), of n] assms(2) show ?thesis by (auto simp: good_def)
  qed (use assms in simp)
qed

lemma good_TftpSend:
  assumes "net_wf n" "kept s0 s" "length (BootFile s) = 128" "handlers_ok p n"
  shows "good p s0 (TftpSend n) s"
  using assms by (simp add: good_def TftpSend_wf handlers_ok_def)

lemma TftpTimeout_good:
  assumes "TftpTimeout_handler n s = Inr (n', s')" "good p s0 n s"
  shows "good p s0 n' s'"
proof (cases "TftpTimeoutCount n + 1 \<ge> 10")
  case True
  with assms(1) have "n' = NetStartAgain (n\<lparr>TftpTimeoutCount := TftpTimeoutCount n + 1\<rparr>)"
    "kept s s'" by (auto simp: TftpTimeout_handler_def Let_def)
  moreover have "net_wf n" using assms(2) by (simp add: good_def)
  ultimately show ?thesis using good_start_again [OF assms(2), of "n\<lparr>TftpTimeoutCount := TftpTimeoutCount n + 1\<rparr>"]
    by simp
next
  case False
  let ?n = "NetSetTimeout (2 * CFG_HZ) (Some TftpTimeout) (n\<lparr>TftpTimeoutCount := TftpTimeoutCount n + 1\<rparr>)"
  from False assms(1) have n': "n' = TftpSend ?n" and s': "s' = puts (lit ''T '') s"
    by (auto simp: TftpTimeout_handler_def Let_def)
  have "net_wf ?n" "handlers_ok p ?n" using assms(2) by (auto simp: good_def handlers_ok_def NetSetTimeout_def)
  then show ?thesis unfolding n' s' using assms(2)
    by (intro good_TftpSend) (auto simp: good_def kept_def puts_out)
qed

lemma tftp_name_wf:
  assumes "tftp_name cfg n s = Inr (n', s')" "net_wf n" "length (BootFile s) = 128"
  shows "(\<exists>t. n' = n\<lparr>tftp_filename := t\<rparr> \<and> length t \<le> 128) \<and> kept s s'"
proof (cases "hd (BootFile s) = 0")
  case True
  with assms(1) show ?thesis
    by (auto simp: tftp_name_def Let_def elim!: sbind_InrE split: option.splits if_splits dest: kept_printf)
next
  case False
  then have "n' = n\<lparr>tftp_filename := cstr_of (BootFile s)\<rparr>" "s' = s"
    using assms(1) by (auto simp: tftp_name_def)
  moreover have "length (cstr_of (BootFile s)) \<le> length (BootFile s)"
    by (simp add: cstr_of_def length_takeWhile_le)
  ultimately show ?thesis using assms(3) by auto
qed

lemma kept_print_IPaddr [keeping]: "print_IPaddr x s = Inr (u, s') \<Longrightarrow> kept s s'"
  by (auto simp: print_IPaddr_def split: option.splits if_splits)

lemma kept_announce [keeping]:
  assumes "tftp_announce cfg n s = Inr (u, s')"
  shows "kept s s'"
proof -
  note [simp del] = kept_out
  show ?thesis
    using assms unfolding tftp_announce_def Let_def
    by (elim sbind_InrE) (auto split: if_splits dest!: keeping simp: kept_def putc_out puts_out elim!: sbind_InrE)
qed

lemma net_wf_name: "net_wf n \<Longrightarrow> length t \<le> 128 \<Longrightarrow> net_wf (n\<lparr>tftp_filename := t\<rparr>)"
  by (simp add: net_wf_def)

lemma kept_length: "kept s s' \<Longrightarrow> length (BootFile s) = 128 \<Longrightarrow> length (BootFile s') = 128"
  by (auto simp: kept_def)

lemma TftpStart_good:
  assumes "TftpStart cfg n s = Inr (n', s')" "net_wf n" "length (BootFile s) = 128" "kept s0 s"
    and "p \<noteq> BOOTP \<longrightarrow> NetState n \<noteq> NETLOOP_SUCCESS"
  shows "good p s0 n' s'"
proof -
  from assms(1) obtain m s1 u where m: "tftp_name cfg n s = Inr (m, s1)" "tftp_announce cfg m s1 = Inr (u, s')"
    and n': "n' = TftpSend ((NetSetHandler TftpHandler (NetSetTimeout (2 * CFG_HZ) (Some TftpTimeout) m))
      \<lparr>TftpServerPort := WELL_KNOWN_PORT, TftpTimeoutCount := 0, TftpState := STATE_RRQ,
       TftpOurPort := 1024 + timer m mod 3072\<rparr>)" (is "_ = TftpSend ?m")
    by (auto simp: TftpStart_def Let_def NetSetHandler_def NetSetTimeout_def elim!: sbind_InrE)
  from tftp_name_wf [OF m(1) assms(2,3)] obtain t where
    t: "m = n\<lparr>tftp_filename := t\<rparr>" "length t \<le> 128" "kept s s1" by auto
  have "net_wf ?m" "handlers_ok p ?m"
    using assms(2,5) t by (auto simp: NetSetHandler_def NetSetTimeout_def handlers_ok_def net_wf_name)
  moreover have "kept s s'" using t(3) kept_announce [OF m(2)] by (rule kept_trans)
  ultimately show ?thesis unfolding n'
    using assms(3,4) by (intro good_TftpSend) (auto intro: kept_trans kept_length)
qed

text \<open>A request replaces both handlers, whatever they were.\<close>

lemma ArpRequest_wf:
  assumes "ArpRequest cfg n s = Inr (n', s')" "net_wf n"
  shows "net_wf n' \<and> packetHandler n' = Some ArpHandler \<and> timeHandler n' = Some ArpTimeout
    \<and> NetState n' = NetState n \<and> kept s s'"
  using assms
  by (auto simp: ArpRequest_def Let_def NetSendPacket_def NetSetTimeout_def NetSetHandler_def net_wf_def
      NetBcastAddr_def NetCopyEther_def elim!: sbind_InrE dest: kept_printf)

lemma RarpRequest_wf:
  assumes "RarpRequest cfg n s = Inr (n', s')" "net_wf n"
  shows "net_wf n' \<and> packetHandler n' = Some RarpHandler \<and> timeHandler n' = Some RarpTimeout
    \<and> NetState n' = NetState n \<and> kept s s'"
  using assms
  by (auto simp: RarpRequest_def Let_def NetSendPacket_def NetSetTimeout_def NetSetHandler_def net_wf_def
      NetBcastAddr_def NetCopyEther_def st32_def elim!: sbind_InrE dest: kept_printf)

lemma ext_fields_length:
  "e + 36 * length fs \<le> 1000 \<Longrightarrow> \<forall>f\<in>set fs. unat (snd (snd f)) \<le> 34 \<Longrightarrow> length p = PKTSIZE_ALIGN \<Longrightarrow>
    length (snd (ext_fields m fs e p)) = PKTSIZE_ALIGN \<and> fst (ext_fields m fs e p) \<le> e + 36 * length fs"
proof (induction fs arbitrary: e p)
  case (Cons f fs)
  obtain b c k where f: "f = (b, c, k)" by (cases f)
  with Cons.prems have k: "unat k \<le> 34" by simp
  show ?case
  proof (cases "m AND b = 0")
    case True
    with Cons.IH [of e p] Cons.prems f show ?thesis by simp
  next
    case False
    with Cons.IH [of "e + 2 + unat k" "put_bytes e [c, k] p"] Cons.prems k f show ?thesis by auto
  qed
qed simp

lemma BootpExtended_length:
  assumes "length p = PKTSIZE_ALIGN" "start \<le> 400" "BootpExtended m start p = (k, q)"
  shows "length q = PKTSIZE_ALIGN \<and> k \<le> 257"
proof -
  let ?fs = "[(CONFIG_BOOTP_SUBNETMASK, 1, 4), (CONFIG_BOOTP_GATEWAY, 3, 4), (CONFIG_BOOTP_DNS, 6, 4),
             (CONFIG_BOOTP_HOSTNAME, 12, 32), (CONFIG_BOOTP_BOOTFILESIZE, 13, 2),
             (CONFIG_BOOTP_BOOTPATH, 17, 32), (CONFIG_BOOTP_NISDOMAIN, 40, 32)] :: (u32 \<times> byte \<times> byte) list"
  let ?p = "put_bytes start [99, 130, 83, 99] p"
  have "length ?p = 1536" using assms by simp
  then have "length (snd (ext_fields m ?fs (start + 4) ?p)) = 1536
    \<and> fst (ext_fields m ?fs (start + 4) ?p) \<le> start + 4 + 36 * length ?fs"
    using assms(2) by (intro ext_fields_length) simp_all
  then show ?thesis
    using assms(2,3) by (cases "ext_fields m ?fs (start + 4) ?p") (auto simp: BootpExtended_def Let_def)
qed

lemma BootpRequest_wf:
  assumes "BootpRequest cfg n s = Inr (n', s')" "net_wf n"
  shows "net_wf n' \<and> packetHandler n' = Some BootpHandler \<and> timeHandler n' = Some BootpTimeout
    \<and> NetState n' = NetState n \<and> kept s s'"
proof -
  from assms(1) obtain u where pr: "printf cfg (lit ''BOOTP broadcast %d\<newline>'') [AInt (BootpTry n + 1)] s = Inr (u, s')"
    by (auto simp: BootpRequest_def Let_def elim!: sbind_InrE split: prod.splits)
  let ?p = "put_bytes 150 (copy_filename (cstr_of (BootFile s')) 128)
      (put_bytes 70 (NetCopyEther (NetOurEther n))
      (put_bytes 54 (concat (replicate 4 (NetWriteIP 0)))
      (put_bytes 50 (st16 (SWAP16 (timer n div CFG_HZ)))
      (put_bytes 42 [OP_BOOTREQUEST, HWT_ETHER, HWL_ETHER, 0]
      (NetSetEther NetBcastAddr PROT_IP n (put_bytes 0 (replicate PKTSIZE 0) (NetTxPacket n)))))))"
  obtain k q where x: "BootpExtended CONFIG_BOOTP_MASK 278 ?p = (k, q)" by fastforce
  have "length (copy_filename (cstr_of (BootFile s')) 128) \<le> 128" by (rule length_copy_filename) simp
  moreover have "length (concat (replicate 4 (NetWriteIP 0))) = 16" by (simp add: eval_nat_numeral)
  ultimately have "length ?p = 1536"
    using assms(2) by (simp add: net_wf_def NetBcastAddr_def NetCopyEther_def)
  from BootpExtended_length [OF this _ x] have q: "length q = 1536" "k \<le> 257" by simp_all
  define m where "m = n\<lparr>BootpTry := BootpTry n + 1, BootpID := bootp_id n,
      NetTxPacket := put_bytes 46 (st32 (bootp_id n)) q\<rparr>"
  have ids: "NetOurEther (n\<lparr>BootpTry := b\<rparr>) = NetOurEther n" "NetTxPacket (n\<lparr>BootpTry := b\<rparr>) = NetTxPacket n"
    "timer (n\<lparr>BootpTry := b\<rparr>) = timer n" "NetSetEther a pr (n\<lparr>BootpTry := b\<rparr>) = NetSetEther a pr n"
    "bootp_id (n\<lparr>BootpTry := b\<rparr>) = bootp_id n" for b a pr
    by (simp_all add: NetSetEther_def bootp_id_def fun_eq_iff)
  have "net_wf m" using assms(2) q(1) unfolding m_def by (simp add: net_wf_def st32_def)
  moreover have "unat (of_nat (236 + k) :: u32) \<le> 1400" using q(2) by (simp add: unat_of_nat del: of_nat_add)
  ultimately have w: "net_wf (NetSetIP 14 0xFFFFFFFF PORT_BOOTPS PORT_BOOTPC (of_nat (236 + k)) m)"
    by (rule net_wf_set_ip) simp
  let ?n = "NetSetHandler BootpHandler (NetSetTimeout (3 * CFG_HZ) (Some BootpTimeout)
        (NetSetIP 14 0xFFFFFFFF PORT_BOOTPS PORT_BOOTPC (of_nat (236 + k)) m))"
  have "BootpRequest cfg n s = Inr (NetSendPacket (NetTxPacket ?n) (278 + k) ?n, s')"
    by (simp add: BootpRequest_def Let_def x ids m_def pr)
  with assms(1) w kept_printf [OF pr] show ?thesis
    by (auto simp: NetSendPacket_def NetSetTimeout_def NetSetHandler_def NetSetIP_def Let_def m_def)
qed

section \<open>The answer of a BOOTP server\<close>

lemma kept_truncate_sz [keeping]: "truncate_sz cfg t k c s = Inr (r, s') \<Longrightarrow> kept s s'"
  by (auto simp: truncate_sz_def elim!: sbind_InrE split: if_splits dest: kept_printf)

text \<open>A name from the vendor area is cut to its array and NUL-terminated.\<close>

lemma vend_string_wf:
  assumes "vend_string cfg t old ext k s = Inr (r, s')" "length old = m" "0 < m"
  shows "name_wf m r \<and> kept s s'"
proof -
  from assms(1) obtain j where j: "truncate_sz cfg t (length old) k s = Inr (j, s')"
    and r: "r = put_bytes 0 (field ext 2 j @ [0]) old" "2 + j \<le> length ext"
    by (auto simp: vend_string_def elim!: sbind_InrE split: if_splits)
  have "j < m" using j assms(2,3) by (auto simp: truncate_sz_def elim!: sbind_InrE split: if_splits)
  then have "length r = m \<and> 0 \<in> set r"
    unfolding r(1) using r(2) assms(2) by (simp add: put_bytes_def field_def)
  with j show ?thesis by (auto simp: name_wf_def dest: keeping)
qed

lemma net_wf_names [simp]:
  "net_wf n \<Longrightarrow> net_wf (n\<lparr>NetOurHostName := t\<rparr>) = name_wf 32 t"
  "net_wf n \<Longrightarrow> net_wf (n\<lparr>NetOurRootPath := t\<rparr>) = name_wf 64 t"
  "net_wf n \<Longrightarrow> net_wf (n\<lparr>NetOurNISDomain := t\<rparr>) = name_wf 32 t"
  by (auto simp: net_wf_def)

text \<open>An option changes what the server told, never the state of the loop.\<close>

definition same_loop :: "net \<Rightarrow> net \<Rightarrow> bool" where
  "same_loop n n' = (packetHandler n' = packetHandler n \<and> timeHandler n' = timeHandler n
     \<and> NetState n' = NetState n \<and> TftpState n' = TftpState n)"

lemma BootpVendorFieldProcess_wf:
  assumes "BootpVendorFieldProcess cfg ext n s = Inr (n', s')" "net_wf n"
  shows "net_wf n' \<and> same_loop n n' \<and> kept s s'"
proof -
  have names: "length (NetOurHostName n) = 32" "length (NetOurRootPath n) = 64" "length (NetOurNISDomain n) = 32"
    using assms(2) by (simp_all add: net_wf_def name_wf_def)
  note d = BootpVendorFieldProcess_def Let_def same_loop_def
  consider "ext ! 0 = 1" | "ext ! 0 = 3" | "ext ! 0 = 6" | "ext ! 0 = 12" | "ext ! 0 = 13" | "ext ! 0 = 17"
    | "ext ! 0 = 40" | "ext ! 0 \<notin> {1, 3, 6, 12, 13, 17, 40}" by blast
  then show ?thesis
  proof cases
    case 1
    with assms show ?thesis by (auto simp: d split: if_splits elim!: sbind_InrE)
  next
    case 2
    with assms show ?thesis by (auto simp: d split: if_splits elim!: sbind_InrE)
  next
    case 3
    with assms show ?thesis by (auto simp: d split: if_splits elim!: sbind_InrE)
  next
    case 4
    with assms show ?thesis by (auto simp: d split: if_splits elim!: sbind_InrE dest: vend_string_wf [OF _ names(1)])
  next
    case 5
    with assms show ?thesis by (auto simp: d split: if_splits elim!: sbind_InrE)
  next
    case 6
    with assms show ?thesis by (auto simp: d split: if_splits elim!: sbind_InrE dest: vend_string_wf [OF _ names(2)])
  next
    case 7
    with assms show ?thesis by (auto simp: d split: if_splits elim!: sbind_InrE dest: vend_string_wf [OF _ names(3)])
  next
    case 8
    with assms show ?thesis by (auto simp: d split: if_splits elim!: sbind_InrE)
  qed
qed

lemma BootpVendorProcess_wf:
  "BootpVendorProcess cfg ext left n s = Inr (n', s') \<Longrightarrow> net_wf n \<Longrightarrow> net_wf n' \<and> same_loop n n' \<and> kept s s'"
proof (induction cfg ext left n s arbitrary: n' s' rule: BootpVendorProcess.induct)
  case (1 cfg ext left n s)
  let ?k = "unat (hd (tl ext)) + 2"
  let ?opt = "if int ?k \<le> left then BootpVendorFieldProcess cfg ext n s else Inr (n, s)"
  have stop: ?case if "n' = n" "s' = s" using that 1(4) by (simp add: same_loop_def)
  show ?case
  proof (cases "left \<le> 0 \<or> ext = [] \<or> hd ext = 0xFF")
    case True
    with 1(3) have "n' = n \<and> s' = s" by (subst (asm) BootpVendorProcess.simps) (auto split: if_splits)
    then show ?thesis using stop by blast
  next
    case go: False
    show ?thesis
    proof (cases "hd ext = 0")
      case True
      with 1(3) go have "BootpVendorProcess cfg (tl ext) (left - 1) n s = Inr (n', s')"
        by (subst (asm) BootpVendorProcess.simps) simp
      with 1(1) go True 1(4) show ?thesis by blast
    next
      case False
      have tl: "tl ext \<noteq> []"
      proof
        assume "tl ext = []"
        with 1(3) go False show False by (subst (asm) BootpVendorProcess.simps) simp
      qed
      have "BootpVendorProcess cfg ext left n s =
          (case ?opt of Inl e \<Rightarrow> Inl e | Inr (n, s) \<Rightarrow> BootpVendorProcess cfg (drop ?k ext) (left - int ?k) n s)"
        using go False tl by (subst BootpVendorProcess.simps) (simp only: Let_def if_False de_Morgan_disj)
      with 1(3) have "(case ?opt of Inl e \<Rightarrow> Inl e
          | Inr (n, s) \<Rightarrow> BootpVendorProcess cfg (drop ?k ext) (left - int ?k) n s) = Inr (n', s')"
        by (rule trans [OF sym, rotated])
      then obtain m t where m: "tl ext \<noteq> []" "?opt = Inr (m, t)"
        "BootpVendorProcess cfg (drop ?k ext) (left - int ?k) m t = Inr (n', s')"
        using tl by (cases ?opt) (auto simp only: sum.case prod.case split: prod.splits)
      then have "net_wf m \<and> same_loop n m \<and> kept s t"
        using BootpVendorFieldProcess_wf [of cfg ext n s m t] 1(4)
        by (auto simp: same_loop_def split: if_splits)
      with 1(2) [OF _ _ _ _ m(1) refl m(2) refl m(3)] go False show ?thesis
        by (auto simp: same_loop_def intro: kept_trans)
    qed
  qed
qed

lemma BootpHandler_good:
  assumes "BootpHandler_rx cfg pkt dest src len n s = Inr (n', s')" "good BOOTP s0 n s"
    and "packetHandler n = Some BootpHandler" "length (NetRxPkt n) = PKTSIZE_ALIGN"
  shows "good BOOTP s0 n' s'"
proof (cases "BootpCheckPkt pkt dest src len n = 0")
  case False
  with assms(1,2) show ?thesis by (simp add: BootpHandler_rx_def)
next
  case True
  with assms(1) obtain n1 s1 n2 s2 r s3 where
    1: "BootpCopyNetParams cfg pkt n s = Inr (n1, s1)" and
    2: "(if SWAP32 (ld32 pkt bp_vend) = BOOTP_VENDOR_MAGIC
         then BootpVendorProcess cfg (drop (bp_vend + 4) pkt) (sint len) n1 s1 else Inr (n1, s1)) = Inr (n2, s2)" and
    3: "getenv cfg s2 (lit ''autoload'') = Inr (r, s3)" and
    4: "(if (case r of None \<Rightarrow> False | Some p \<Rightarrow> hd0 p = ch CHR ''n'')
         then Inr ((NetSetTimeout 0 None n2)\<lparr>NetState := NETLOOP_SUCCESS\<rparr>, s3)
         else ArpRequest cfg (NetSetTimeout 0 None n2) s3) = Inr (n', s')"
    by (auto simp: BootpHandler_rx_def Let_def elim!: sbind_InrE)
  have wf: "net_wf n" using assms(2) by (simp add: good_def)
  have n1: "net_wf n1 \<and> same_loop n n1"
    using 1 wf assms(4)
    by (auto simp: BootpCopyNetParams_def Let_def same_loop_def net_wf_def NetCopyEther_def field_def
        elim!: sbind_InrE)
  have k1: "kept s s1"
    using 1 by (auto simp: BootpCopyNetParams_def Let_def elim!: sbind_InrE
        intro: kept_trans [OF kept_set_BootFile kept_setenv])
  have n2: "net_wf n2 \<and> same_loop n1 n2 \<and> kept s1 s2"
  proof (cases "SWAP32 (ld32 pkt bp_vend) = BOOTP_VENDOR_MAGIC")
    case True
    with 2 have "BootpVendorProcess cfg (drop (bp_vend + 4) pkt) (sint len) n1 s1 = Inr (n2, s2)"
      by (simp only: if_True simp_thms)
    then show ?thesis using n1 by (blast dest: BootpVendorProcess_wf)
  next
    case False
    with 2 have "n2 = n1 \<and> s2 = s1" by (simp only: if_False sum.inject prod.inject)
    then show ?thesis using n1 by (simp add: same_loop_def)
  qed
  have k3: "kept s s3" using k1 n2 kept_getenv [OF 3] by (blast intro: kept_trans)
  have st: "net_wf (NetSetTimeout 0 None n2)" "packetHandler n2 = Some BootpHandler"
    using n1 n2 assms(3) by (auto simp: NetSetTimeout_def same_loop_def)
  have "net_wf n' \<and> packetHandler n' \<noteq> Some TftpHandler \<and> kept s3 s'"
  proof (cases "case r of None \<Rightarrow> False | Some p \<Rightarrow> hd0 p = ch CHR ''n''")
    case True
    with 4 st show ?thesis by (auto simp: NetSetTimeout_def)
  next
    case False
    with 4 have "ArpRequest cfg (NetSetTimeout 0 None n2) s3 = Inr (n', s')" by simp
    from ArpRequest_wf [OF this st(1)] show ?thesis by simp
  qed
  then have n': "net_wf n'" "packetHandler n' \<noteq> Some TftpHandler" "kept s s'"
    using k3 by (auto intro: kept_trans [OF k3])
  moreover have "kept s0 s'" "length (BootFile s') = 128"
    using assms(2) kept_trans [OF _ n'(3)] kept_length [OF n'(3)] by (simp_all add: good_def)
  ultimately show ?thesis by (simp add: good_def handlers_ok_def)
qed

section \<open>The loop\<close>

lemma call_handler_good:
  assumes "call_handler cfg pkt dest src len n s = Inr (n', s')" "good p s0 n s"
    and "length (NetRxPkt n) = PKTSIZE_ALIGN" "1 < length pkt \<or> len < 2"
  shows "good p s0 n' s'"
proof -
  have g: "net_wf n" "length (BootFile s) = 128" "kept s0 s" "p \<noteq> BOOTP \<longrightarrow> NetState n \<noteq> NETLOOP_SUCCESS"
    "packetHandler n = Some BootpHandler \<Longrightarrow> p = BOOTP"
    using assms(2) by (auto simp: good_def handlers_ok_def)
  from assms(1) obtain h where h: "packetHandler n = Some h" by (auto simp: call_handler_def split: option.splits)
  show ?thesis
  proof (cases h)
    case ArpHandler
    with assms(1) h have "TftpStart cfg n s = Inr (n', s')" by (simp add: call_handler_def ArpHandler_rx_def)
    then show ?thesis by (rule TftpStart_good) (use g in simp_all)
  next
    case RarpHandler
    with assms(1) h have "TftpStart cfg n s = Inr (n', s')" by (simp add: call_handler_def RarpHandler_rx_def)
    then show ?thesis by (rule TftpStart_good) (use g in simp_all)
  next
    case TftpHandler
    with assms(1) h have "TftpHandler_rx cfg pkt dest src len n s = Inr (n', s')" by (simp add: call_handler_def)
    then show ?thesis by (rule TftpHandler_good) (use assms(2,4) h TftpHandler in simp_all)
  next
    case BootpHandler
    then have p: "p = BOOTP" using g(5) h by simp
    from assms(1) h BootpHandler have "BootpHandler_rx cfg pkt dest src len n s = Inr (n', s')"
      by (simp add: call_handler_def)
    then show ?thesis unfolding p by (rule BootpHandler_good) (use assms(2,3) h BootpHandler p in simp_all)
  next
    case StartAgainHandler
    with assms(1,2) h show ?thesis by (simp add: call_handler_def)
  qed
qed

lemma good_update:
  assumes "good p s0 n s" "net_wf m" "packetHandler m = packetHandler n" "timeHandler m = timeHandler n"
    "NetState m = NetState n" "TftpState m = TftpState n" "kept s s'"
  shows "good p s0 m s'"
  using assms(1-6) kept_trans [OF _ assms(7)] kept_length [OF assms(7)]
  by (simp add: good_def handlers_ok_def)

lemma kept_NetPrintEther [keeping]: "NetPrintEther cfg a s = Inr (u, s') \<Longrightarrow> kept s s'"
proof -
  have "NetPrintEther_loop cfg k a s = Inr (u, s') \<Longrightarrow> kept s s'" for k
  proof (induction k arbitrary: s)
    case 0
    then show ?case by (auto dest: kept_printf)
  next
    case (Suc k)
    from Suc.prems obtain u0 s1 v s2 where s1: "printf cfg (lit ''%02x'') [AInt (ucast (a ! (5 - k)))] s = Inr (u0, s1)"
      and s2: "(if k \<noteq> 0 then printf cfg (lit '':'') [] s1 else Inr ((), s1)) = Inr (v, s2)"
      and l: "NetPrintEther_loop cfg k a s2 = Inr (u, s')" by (auto elim!: sbind_InrE)
    have "kept s1 s2" using s2 by (cases "k = 0") (auto dest: kept_printf)
    with kept_printf [OF s1] have "kept s s2" by (rule kept_trans)
    then show ?case using Suc.IH [OF l] by (rule kept_trans)
  qed
  then show "NetPrintEther cfg a s = Inr (u, s') \<Longrightarrow> kept s s'" by (simp add: NetPrintEther_def)
qed

text \<open>Receiving: a frame is a whole receive buffer.\<close>

lemma call_handler_null_good:
  assumes "call_handler_null cfg n s = Inr (n', s')" "good p s0 n s" "length (NetRxPkt n) = PKTSIZE_ALIGN"
  shows "good p s0 n' s'"
  using call_handler_good [OF assms(1) [unfolded call_handler_null_def] assms(2,3)] by simp

lemma good_kept: "good p s0 n s \<Longrightarrow> kept s s' \<Longrightarrow> good p s0 n s'"
  by (rule good_update) (simp_all add: good_def)

lemma arp_answer_good:
  assumes "good p s0 n s" "length pkt = PKTSIZE_ALIGN" "i \<le> 22"
  shows "good p s0 (arp_answer pkt i n) s"
proof -
  have "net_wf (arp_answer pkt i n)"
    using assms by (auto simp: arp_answer_def Let_def NetSendPacket_def net_wf_def good_def NetCopyEther_def field_def)
  then show ?thesis
    by (rule good_update [OF assms(1)]) (simp_all add: arp_answer_def Let_def NetSendPacket_def)
qed

lemma length_field: "i + k \<le> length p \<Longrightarrow> length (field p i k) = k"
  by (simp add: field_def)

lemma good_server_ether:
  assumes "good p s0 n s" "length e = 6"
  shows "good p s0 (n\<lparr>NetServerEther := e\<rparr>) s"
  by (rule good_update [OF assms(1)]) (use assms in \<open>simp_all add: good_def net_wf_def\<close>)

lemma receive_arp_good:
  assumes "receive_arp cfg pkt i len n s = Inr (n', s')" "good p s0 n s"
    and "length pkt = PKTSIZE_ALIGN" "i \<le> 22" "length (NetRxPkt n) = PKTSIZE_ALIGN"
  shows "good p s0 n' s'"
proof -
  let ?n = "n\<lparr>NetServerEther := NetCopyEther (field (drop i pkt) ar_data 6)\<rparr>"
  have "length (NetCopyEther (field (drop i pkt) ar_data 6)) = 6"
    using assms(3,4) by (simp add: NetCopyEther_def length_field)
  then have g: "good p s0 ?n s" by (rule good_server_ether [OF assms(2)])
  have "n' = n \<and> kept s s' \<or> n' = arp_answer pkt i n \<and> s' = s
      \<or> (\<exists>s1. kept s s1 \<and> call_handler_null cfg ?n s1 = Inr (n', s'))"
    using assms(1) unfolding receive_arp_def bad_length_def Let_def
    by (elim ifE) (auto elim!: sbind_InrE dest!: kept_printf kept_NetPrintEther intro: kept_trans)
  then show ?thesis
  proof (elim disjE conjE exE)
    fix s1 assume s1: "kept s s1" "call_handler_null cfg ?n s1 = Inr (n', s')"
    from s1(2) good_kept [OF g s1(1)] show ?thesis
      by (rule call_handler_null_good) (use assms(5) in simp)
  qed (use assms good_kept arp_answer_good in auto)
qed

lemma receive_rarp_good:
  assumes "receive_rarp cfg pkt i len n s = Inr (n', s')" "good p s0 n s"
    and "length pkt = PKTSIZE_ALIGN" "i \<le> 22" "length (NetRxPkt n) = PKTSIZE_ALIGN"
  shows "good p s0 n' s'"
proof -
  let ?e = "NetCopyEther (field (drop i pkt) ar_data 6)"
  let ?n = "n\<lparr>NetOurIP := NetReadIP (field (drop i pkt) (ar_data + 16) 4),
     NetServerIP := NetReadIP (field (drop i pkt) (ar_data + 6) 4), NetServerEther := ?e\<rparr>"
  have "length ?e = 6" using assms(3,4) by (simp add: NetCopyEther_def length_field)
  then have g: "good p s0 ?n s"
    by (intro good_server_ether good_update [OF assms(2)]) (use assms(2) in \<open>simp_all add: good_def\<close>)
  have "n' = n \<and> kept s s' \<or> call_handler_null cfg ?n s = Inr (n', s')"
    using assms(1) unfolding receive_rarp_def bad_length_def Let_def
    by (elim ifE) (auto elim!: sbind_InrE dest!: kept_printf)
  then show ?thesis
  proof (elim disjE conjE)
    assume "call_handler_null cfg ?n s = Inr (n', s')"
    then show ?thesis using g by (rule call_handler_null_good) (use assms(5) in simp)
  qed (use assms good_kept in auto)
qed

lemma receive_ip_good:
  assumes "receive_ip cfg pkt i len n s = Inr (n', s')" "good p s0 n s"
    and "length pkt = PKTSIZE_ALIGN" "i \<le> 22" "length (NetRxPkt n) = PKTSIZE_ALIGN"
  shows "good p s0 n' s'"
proof -
  let ?ip = "drop i pkt"
  let ?call = "call_handler cfg (drop IP_HDR_SIZE ?ip) (SWAP16 (ld16 ?ip udp_dst))
              (SWAP16 (ld16 ?ip udp_src)) (SWAP16 (ld16 ?ip udp_len) - 8) n"
  have "n' = n \<and> kept s s' \<or> (\<exists>s1. kept s s1 \<and> ?call s1 = Inr (n', s'))"
    using assms(1) unfolding receive_ip_def Let_def
    by (elim ifE) (auto elim!: sbind_InrE dest!: kept_printf kept_print_IPaddr)
  then show ?thesis
  proof (elim disjE conjE exE)
    fix s1 assume s1: "kept s s1" "?call s1 = Inr (n', s')"
    have "1 < length (drop IP_HDR_SIZE ?ip)" using assms(3,4) unfolding length_drop by linarith
    from call_handler_good [OF s1(2) good_kept [OF assms(2) s1(1)] assms(5) disjI1 [OF this]]
    show ?thesis .
  qed (use assms good_kept in auto)
qed

lemma NetReceive_good:
  assumes "NetReceive cfg pkt len n s = Inr (n', s')" "good p s0 n s" "length pkt = PKTSIZE_ALIGN"
  shows "good p s0 n' s'"
proof -
  let ?n = "n\<lparr>NetRxPkt := pkt\<rparr>"
  have g: "good p s0 ?n s"
    by (rule good_update [OF assms(2)]) (use assms(2,3) in \<open>simp_all add: good_def net_wf_def\<close>)
  have l: "length (NetRxPkt ?n) = 1536" using assms(3) by simp
  obtain x i where xi: "(if SWAP16 (ld16 pkt et_protlen) < 1514 then (SWAP16 (ld16 pkt et_prot), E802_HDR_SIZE)
      else (SWAP16 (ld16 pkt et_protlen), ETHER_HDR_SIZE)) = (x, i)" by fastforce
  then have i: "i \<le> 22" by (auto split: if_splits)
  have "(if x = PROT_ARP then receive_arp cfg pkt i (len - int i) ?n s
      else if x = PROT_RARP then receive_rarp cfg pkt i (len - int i) ?n s
      else if x = PROT_IP then receive_ip cfg pkt i (len - int i) ?n s
      else Inr (?n, s)) = Inr (n', s')"
    using assms(1) xi unfolding NetReceive_def Let_def by simp
  then show ?thesis
    by (elim ifE)
      (use g receive_arp_good [OF _ g assms(3) i l] receive_rarp_good [OF _ g assms(3) i l]
        receive_ip_good [OF _ g assms(3) i l] in auto)
qed

lemma call_timeout_good:
  assumes "call_timeout cfg x (n\<lparr>timeHandler := None\<rparr>) s = Inr (n', s')" "good p s0 n s" "timeHandler n = Some x"
  shows "good p s0 n' s'"
proof -
  let ?n = "n\<lparr>timeHandler := None\<rparr>"
  have g: "good p s0 ?n s" using assms(2) by (auto simp: good_def handlers_ok_def)
  have wf: "net_wf ?n" "net_wf n" using assms(2) by (simp_all add: good_def)
  have b: "x = BootpTimeout \<Longrightarrow> p = BOOTP" using assms(2,3) by (auto simp: good_def handlers_ok_def)
  have new: "good p s0 n' s'" if "net_wf n'" "NetState n' = NetState n" "kept s s'"
    "packetHandler n' \<noteq> Some TftpHandler" "packetHandler n' = Some BootpHandler \<Longrightarrow> p = BOOTP"
    "timeHandler n' = Some BootpTimeout \<Longrightarrow> p = BOOTP"
    using that assms(2) kept_trans [OF _ that(3)] kept_length [OF that(3)]
    by (auto simp: good_def handlers_ok_def)
  show ?thesis
  proof (cases x)
    case ArpTimeout
    with assms(1) have "ArpRequest cfg ?n s = Inr (n', s')" by (simp add: call_timeout_def ArpTimeout_handler_def)
    from ArpRequest_wf [OF this wf(1)] show ?thesis by (intro new) simp_all
  next
    case RarpTimeout
    with assms(1) have "RarpRequest cfg ?n s = Inr (n', s')" by (simp add: call_timeout_def RarpTimeout_handler_def)
    from RarpRequest_wf [OF this wf(1)] show ?thesis by (intro new) simp_all
  next
    case BootpTimeout
    with assms(1) have "BootpRequest cfg ?n s = Inr (n', s')" by (simp add: call_timeout_def BootpTimeout_handler_def)
    from BootpRequest_wf [OF this wf(1)] b [OF BootpTimeout] show ?thesis by (intro new) simp_all
  next
    case TftpTimeout
    with assms(1) have "TftpTimeout_handler ?n s = Inr (n', s')" by (simp add: call_timeout_def)
    then show ?thesis using g by (rule TftpTimeout_good)
  next
    case StartAgainTimeout
    with assms(1) have "n' = ?n\<lparr>NetState := NETLOOP_RESTART\<rparr>" "s' = s"
      by (simp_all add: call_timeout_def startAgainTimeout_def)
    with g show ?thesis by (simp add: good_def handlers_ok_def)
  qed
qed

lemma kept_check_prereq: "net_check_prereq p n s = (rc, s') \<Longrightarrow> kept s s'"
  by (auto simp: net_check_prereq_def split: if_splits)

lemma net_begin_good:
  assumes "net_begin cfg p n s = Inr ((ok, n'), s')" "net_wf n" "length (BootFile s) = 128"
  shows "kept s s' \<and> (ok \<longrightarrow> good p s n' s')"
proof (cases "p = TFTP")
  case True
  with assms(1) obtain r s1 rc s2 where 1: "getenv cfg s (lit ''serverip'') = Inr (r, s1)"
    and 2: "net_check_prereq TFTP (n\<lparr>NetState := NETLOOP_CONTINUE, NetOurIP := bi_ip_addr s,
      NetServerIP := parse_ip_addr (map_option cstr_of r)\<rparr>) s1 = (rc, s2)"
    and 3: "(if rc \<noteq> 0 then \<not> ok \<and> s' = s2 else ok \<and> (\<exists>m. ArpRequest cfg (n\<lparr>NetState := NETLOOP_CONTINUE,
      NetOurIP := bi_ip_addr s, NetServerIP := parse_ip_addr (map_option cstr_of r), ArpTry := 0\<rparr>) s2 = Inr (m, s')
        \<and> n' = m\<lparr>NetBootFileXferSize := 0\<rparr>))"
    by (fastforce simp: net_begin_def Let_def elim!: sbind_InrE split: if_splits prod.splits)
  have k: "kept s s2" using kept_getenv [OF 1] kept_check_prereq [OF 2] by (rule kept_trans)
  show ?thesis
  proof (cases "rc = 0")
    case True
    with 3 obtain m where ok: "ok" "n' = m\<lparr>NetBootFileXferSize := 0\<rparr>" and
      "ArpRequest cfg (n\<lparr>NetState := NETLOOP_CONTINUE,
      NetOurIP := bi_ip_addr s, NetServerIP := parse_ip_addr (map_option cstr_of r), ArpTry := 0\<rparr>) s2 = Inr (m, s')"
      by auto
    from ArpRequest_wf [OF this(3)] assms(2) k show ?thesis
      using kept_length [of s s'] assms(3) by (auto simp: ok good_def handlers_ok_def intro: kept_trans)
  qed (use 3 k in simp)
next
  case False
  let ?n = "n\<lparr>NetState := NETLOOP_CONTINUE, NetOurIP := 0, NetServerIP := 0\<rparr>"
  from assms(1) False obtain rc s2 where 2: "net_check_prereq p ?n s = (rc, s2)"
    and 3: "(if rc \<noteq> 0 then \<not> ok \<and> s' = s2 else ok \<and> (\<exists>m.
      (if p = BOOTP then BootpRequest cfg (?n\<lparr>BootpTry := 0\<rparr>) s2 else RarpRequest cfg (?n\<lparr>RarpTry := 0\<rparr>) s2)
        = Inr (m, s') \<and> n' = m\<lparr>NetBootFileXferSize := 0\<rparr>))"
    by (fastforce simp: net_begin_def Let_def elim!: sbind_InrE split: if_splits prod.splits)
  have k: "kept s s2" by (rule kept_check_prereq [OF 2])
  show ?thesis
  proof (cases "rc = 0")
    case True
    with 3 obtain m where ok: "ok" "n' = m\<lparr>NetBootFileXferSize := 0\<rparr>" and r:
      "(if p = BOOTP then BootpRequest cfg (?n\<lparr>BootpTry := 0\<rparr>) s2 else RarpRequest cfg (?n\<lparr>RarpTry := 0\<rparr>) s2)
        = Inr (m, s')" by auto
    have "net_wf m \<and> packetHandler m = Some (if p = BOOTP then BootpHandler else RarpHandler)
      \<and> timeHandler m = Some (if p = BOOTP then BootpTimeout else RarpTimeout)
      \<and> NetState m = NETLOOP_CONTINUE \<and> kept s2 s'"
      using r assms(2) BootpRequest_wf [of cfg "?n\<lparr>BootpTry := 0\<rparr>" s2 m s']
        RarpRequest_wf [of cfg "?n\<lparr>RarpTry := 0\<rparr>" s2 m s']
      by (cases "p = BOOTP") simp_all
    then show ?thesis
      using k kept_length [of s s'] assms(3) by (auto simp: ok good_def handlers_ok_def intro: kept_trans)
  qed (use 3 k in simp)
qed

text \<open>
  The loop as a step relation: the clock goes on, a frame or a key arrives, a timer expires, a
  restart is carried out.
\<close>

inductive net_step :: "config \<Rightarrow> proto_t \<Rightarrow> net \<times> sys \<Rightarrow> net \<times> sys \<Rightarrow> bool" for cfg p where
  clock: "net_step cfg p (n, s) (n\<lparr>timer := t\<rparr>, s)"
| frame: "length pkt = PKTSIZE_ALIGN \<Longrightarrow> NetReceive cfg pkt len n s = Inr (n', s') \<Longrightarrow>
    net_step cfg p (n, s) (n', s')"
| key: "ctrlc s = Inr (c, s') \<Longrightarrow> net_step cfg p (n, s) (n, s')"
| expire: "timeHandler n = Some x \<Longrightarrow> timeValue n < timer n \<Longrightarrow>
    call_timeout cfg x (n\<lparr>timeHandler := None\<rparr>) s = Inr (n', s') \<Longrightarrow> net_step cfg p (n, s) (n', s')"
| restart: "NetState n = NETLOOP_RESTART \<Longrightarrow> net_begin cfg p n s = Inr ((True, n'), s') \<Longrightarrow>
    net_step cfg p (n, s) (n', s')"

inductive_cases net_stepE: "net_step cfg p (n, s) (n', s')"

lemma net_step_good:
  assumes "net_step cfg p (n, s) (n', s')" "good p s0 n s"
  shows "good p s0 n' s'"
  using assms(1)
proof (elim net_stepE)
  fix t assume "n' = n\<lparr>timer := t\<rparr>" "s' = s"
  with assms(2) show ?thesis by (simp add: good_def handlers_ok_def)
next
  fix pkt len assume "length pkt = PKTSIZE_ALIGN" "NetReceive cfg pkt len n s = Inr (n', s')"
  then show ?thesis using assms(2) by (blast intro: NetReceive_good)
next
  fix c assume "n' = n" "ctrlc s = Inr (c, s')"
  then show ?thesis using good_kept [OF assms(2)] by (auto dest: kept_ctrlc)
next
  fix x assume "timeHandler n = Some x" "call_timeout cfg x (n\<lparr>timeHandler := None\<rparr>) s = Inr (n', s')"
  then show ?thesis using assms(2) by (blast intro: call_timeout_good)
next
  assume b: "net_begin cfg p n s = Inr ((True, n'), s')"
  have w: "net_wf n" "length (BootFile s) = 128" "kept s0 s" using assms(2) by (simp_all add: good_def)
  from net_begin_good [OF b w(1,2)] w(3) show ?thesis by (auto simp: good_def intro: kept_trans)
qed

lemma net_reachable_good:
  assumes "(net_step cfg p)\<^sup>*\<^sup>* (n, s) (n', s')" "good p s0 n s"
  shows "good p s0 n' s'"
  using assms
proof (induction "(n', s')" arbitrary: n' s' rule: rtranclp_induct)
  case (step y)
  obtain m t where "y = (m, t)" by fastforce
  with step show ?case by (blast intro: net_step_good)
qed simp

text \<open>The function follows the relation: every state it passes is reached by steps.\<close>

lemma eth_rx_steps:
  "eth_rx cfg fs n s = Inr (n', s') \<Longrightarrow> \<forall>f \<in> set fs. length (fst f) = PKTSIZE_ALIGN \<Longrightarrow>
    (net_step cfg p)\<^sup>*\<^sup>* (n, s) (n', s')"
proof (induction fs arbitrary: n s)
  case (Cons f fs)
  obtain pkt len where f: "f = (pkt, len)" by (cases f)
  with Cons.prems obtain m t where "NetReceive cfg pkt len n s = Inr (m, t)" "eth_rx cfg fs m t = Inr (n', s')"
    by (auto elim!: sbind_InrE)
  then have "net_step cfg p (n, s) (m, t)" using Cons.prems(2) f by (auto intro: net_step.frame)
  then show ?case using Cons.IH [OF \<open>eth_rx cfg fs m t = _\<close>] Cons.prems(2)
    by (auto intro: converse_rtranclp_into_rtranclp)
qed simp

lemma net_timeout_steps: "net_timeout cfg n s = Inr (n', s') \<Longrightarrow> (net_step cfg p)\<^sup>*\<^sup>* (n, s) (n', s')"
  by (auto simp: net_timeout_def split: option.splits if_splits intro: net_step.expire)

text \<open>A round is some steps; where it ends the loop, the value tells how.\<close>

definition ended :: "int option \<Rightarrow> net \<Rightarrow> bool" where
  "ended ret n = (case ret of None \<Rightarrow> True | Some rc \<Rightarrow> rc = 0 \<or> rc = 1 \<and> NetState n = NETLOOP_SUCCESS)"

lemma net_round_steps:
  assumes "net_round cfg p r n s = Inr ((ret, n'), s')" "\<forall>f \<in> set (fst r). length (fst f) = PKTSIZE_ALIGN"
  shows "\<exists>n1 s1. (net_step cfg p)\<^sup>*\<^sup>* (n, s) (n1, s1) \<and> ended ret n1
    \<and> (ret = None \<longrightarrow> n' = n1 \<and> s' = s1) \<and> (net_wf n1 \<and> length (BootFile s1) = 128 \<longrightarrow> kept s1 s')"
proof -
  from assms(1) obtain m t c t1 where m: "eth_rx cfg (fst r) (n\<lparr>timer := snd r\<rparr>) s = Inr (m, t)"
    and c: "ctrlc t = Inr (c, t1)"
    and rest: "(if c then sbind (printf cfg (lit ''\<newline>Abort\<newline>'') [] t1) (\<lambda>(_, s). Inr ((Some 0, m), s))
     else sbind (net_timeout cfg m t1) (\<lambda>(n, s). net_switch cfg p n s)) = Inr ((ret, n'), s')"
    by (auto simp: net_round_def elim!: sbind_InrE)
  have a: "(net_step cfg p)\<^sup>*\<^sup>* (n, s) (m, t1)"
    using eth_rx_steps [OF m assms(2), of p] net_step.clock net_step.key [OF c]
    by (blast intro: converse_rtranclp_into_rtranclp rtranclp.rtrancl_into_rtrancl)
  show ?thesis
  proof (cases c)
    case True
    with rest have "ret = Some 0" "n' = m" "kept t1 s'" by (auto elim!: sbind_InrE dest: kept_printf)
    then show ?thesis using a by (intro exI [of _ m] exI [of _ t1]) (simp add: ended_def)
  next
    case False
    with rest obtain n1 s1 where n1: "net_timeout cfg m t1 = Inr (n1, s1)" and
      sw: "net_switch cfg p n1 s1 = Inr ((ret, n'), s')" by (auto elim!: sbind_InrE)
    have b: "(net_step cfg p)\<^sup>*\<^sup>* (n, s) (n1, s1)" using a net_timeout_steps [OF n1] by (rule rtranclp_trans)
    show ?thesis
    proof (cases "NetState n1")
      case NETLOOP_RESTART
      with sw obtain ok where ok: "net_begin cfg p n1 s1 = Inr ((ok, n'), s')" "ret = (if ok then None else Some 0)"
        by (auto simp: net_switch_def elim!: sbind_InrE)
      show ?thesis
      proof (cases ok)
        case True
        with ok NETLOOP_RESTART have "net_step cfg p (n1, s1) (n', s')" by (auto intro: net_step.restart)
        with b have "(net_step cfg p)\<^sup>*\<^sup>* (n, s) (n', s')" by (rule rtranclp.rtrancl_into_rtrancl)
        then show ?thesis using ok True by (intro exI [of _ n'] exI [of _ s']) (simp add: ended_def)
      next
        case False
        with b ok net_begin_good [OF ok(1)] show ?thesis
          by (intro exI [of _ n1] exI [of _ s1]) (simp add: ended_def)
      qed
    next
      case NETLOOP_SUCCESS
      with sw have "ret = Some 1" "kept s1 s'"
        by (auto simp: net_switch_def net_success_def elim!: sbind_InrE split: if_splits option.splits
          dest!: kept_printf kept_setenv intro: kept_trans)
      with b NETLOOP_SUCCESS show ?thesis by (intro exI [of _ n1] exI [of _ s1]) (simp add: ended_def)
    next
      case NETLOOP_FAIL
      with sw b show ?thesis by (intro exI [of _ n1] exI [of _ s1]) (auto simp: net_switch_def ended_def)
    next
      case NETLOOP_CONTINUE
      with sw b show ?thesis by (intro exI [of _ n1] exI [of _ s1]) (simp add: net_switch_def ended_def)
    qed
  qed
qed

lemma net_rounds_end:
  assumes "net_rounds cfg p rs n s = Inr ((rc, n'), s')" "good p s0 n s"
    "\<forall>r \<in> set rs. \<forall>f \<in> set (fst r). length (fst f) = PKTSIZE_ALIGN"
  shows "kept s0 s' \<and> (rc = 0 \<or> rc = 1 \<and> p = BOOTP)"
  using assms
proof (induction rs arbitrary: n s)
  case (Cons r rs)
  from Cons.prems(1) obtain ret m t where r: "net_round cfg p r n s = Inr ((ret, m), t)"
    and k: "(case ret of Some rc \<Rightarrow> Inr ((rc, m), t) | None \<Rightarrow> net_rounds cfg p rs m t) = Inr ((rc, n'), s')"
    by (auto elim!: sbind_InrE)
  from net_round_steps [OF r] Cons.prems(3) obtain n1 s1 where 1: "(net_step cfg p)\<^sup>*\<^sup>* (n, s) (n1, s1)"
    "ended ret n1" "ret = None \<longrightarrow> m = n1 \<and> t = s1" "net_wf n1 \<and> length (BootFile s1) = 128 \<longrightarrow> kept s1 t"
    by auto
  have g: "good p s0 n1 s1" by (rule net_reachable_good [OF 1(1) Cons.prems(2)])
  show ?case
  proof (cases ret)
    case None
    with k 1(3) g Cons show ?thesis by auto
  next
    case (Some x)
    with k have "x = rc" "t = s'" by auto
    moreover have "kept s0 t" using g 1(4) by (auto simp: good_def intro: kept_trans)
    ultimately show ?thesis using g 1(2) Some by (auto simp: ended_def good_def handlers_ok_def)
  qed
qed simp

text \<open>
  C26: a download over the network never puts a byte into memory.  For every protocol, every
  sequence of frames, keys and clock readings: when \<open>NetLoop\<close> returns, memory is what it was, and
  for TFTP and RARP it has returned 0.  (\<open>TftpHandler\<close> advances by one byte past the two bytes of
  the opcode, so the block number it reads has the opcode as its high byte and is never 1.)
\<close>

theorem tftp_never_loads:
  assumes "NetLoop cfg p rs n s = Inr ((rc, n'), s')" "net_wf n"
    and "length (bi_enetaddr s) = 6" "length (BootFile s) = 128"
    and "\<forall>r \<in> set rs. \<forall>f \<in> set (fst r). length (fst f) = PKTSIZE_ALIGN"
  shows "memory s' = memory s \<and> (p \<noteq> BOOTP \<longrightarrow> rc = 0)"
proof -
  have wf: "net_wf (n\<lparr>NetOurEther := NetCopyEther (bi_enetaddr s)\<rparr>)"
    using assms(2,3) by (simp add: net_wf_def NetCopyEther_def)
  from assms(1) obtain ok m t where
    b: "net_begin cfg p (n\<lparr>NetOurEther := NetCopyEther (bi_enetaddr s)\<rparr>) s = Inr ((ok, m), t)"
    and r: "(if ok then net_rounds cfg p rs m t else Inr ((0, m), t)) = Inr ((rc, n'), s')"
    by (auto simp: NetLoop_def elim!: sbind_InrE)
  from net_begin_good [OF b wf assms(4)] have k: "kept s t" "ok \<Longrightarrow> good p s m t" by auto
  have "kept s s' \<and> (rc = 0 \<or> rc = 1 \<and> p = BOOTP)"
  proof (cases ok)
    case True
    with r have "net_rounds cfg p rs m t = Inr ((rc, n'), s')" by simp
    then show ?thesis using k(2) [OF True] assms(5) by (rule net_rounds_end)
  qed (use r k in simp)
  then show ?thesis by (auto simp: kept_def)
qed

text \<open>
  C28: the sizes of the arrays.  Whatever steps the loop takes, the transmit buffer, the Ethernet
  addresses and the three names the BOOTP server can set keep their declared sizes, the names stay
  NUL-terminated and the file name stays within \<open>BootFile\<close>'s 128 bytes: no packet makes the code write
  outside them.
\<close>

theorem net_arrays_keep_size:
  assumes "net_begin cfg p n s = Inr ((True, n1), s1)" "net_wf n" "length (BootFile s) = 128"
    and "(net_step cfg p)\<^sup>*\<^sup>* (n1, s1) (n2, s2)"
  shows "net_wf n2 \<and> length (BootFile s2) = 128"
proof -
  have "good p s n1 s1" using net_begin_good [OF assms(1-3)] by simp
  from net_reachable_good [OF assms(4) this] show ?thesis by (simp add: good_def)
qed

end
