(* ===== verification/NetProps.thy ===== *)
theory NetProps
  imports NetInv
begin

text \<open>
  What the protocols send and how they react, message by message.
\<close>

section \<open>TFTP\<close>

text \<open>
  the read request has no operation code.  What \<open>TftpSend\<close> puts on the wire for it is one byte 0
  followed by the file name, so the 16-bit operation code a server reads is the name's first
  character instead of 1.
\<close>

theorem tftp_request_without_opcode:
  assumes "net_wf n" "TftpState n = STATE_RRQ"
  shows "eth_sent (TftpSend n) = eth_sent n @
    [net_header (NetServerEther n) (NetServerIP n) (TftpServerPort n) (TftpOurPort n)
       (length (tftp_filename n) + 8) n
     @ 0 # tftp_filename n @ 0 # lit ''octet'' @ [0]]"
proof -
  let ?t = "tftp_filename n" and ?p = "NetTxPacket n" and ?a = "NetServerEther n"
  let ?k = "length ?t + 8"
  let ?q = "put_bytes (44 + length ?t) (lit ''octet'' @ [0]) (put_bytes 43 (?t @ [0]) (put_bytes 42 [0, 1] ?p))"
  have l: "length ?p = 1536" "length ?t \<le> 128" "length ?a = 6" "length (NetOurEther n) = 6"
    using assms(1) by (simp_all add: net_wf_def)
  have o: "lit ''octet'' @ [0] = [0x6F, 0x63, 0x74, 0x65, 0x74, 0 :: byte]" by (simp add: lit_def)
  have q: "length ?q = 1536" using l by (simp add: o)
  have w: "st16 (SWAP16 TFTP_RRQ) = [0, 1]" by (simp add: st16_def SWAP16_def)
  have k: "tftp_packet STATE_RRQ b ?t 42 ?p = (?k, ?q)" for b
    by (simp add: tftp_packet_def Let_def w add.commute)
  have "\<exists>r. drop 42 ?q = (0 # ?t @ [0, 0x6F, 0x63, 0x74, 0x65, 0x74, 0]) @ r"
    using l(1,2) unfolding o by (simp add: put_bytes_def min_def)
  then obtain r where "drop 42 ?q = (0 # ?t @ [0, 0x6F, 0x63, 0x74, 0x65, 0x74, 0]) @ r" by blast
  then have "take (length (0 # ?t @ [0, 0x6F, 0x63, 0x74, 0x65, 0x74, 0])) (drop 42 ?q)
      = 0 # ?t @ [0, 0x6F, 0x63, 0x74, 0x65, 0x74, 0]" by (metis append_eq_conv_conj)
  moreover have "length (0 # ?t @ [0, 0x6F, 0x63, 0x74, 0x65, 0x74, 0 :: byte]) = ?k" by simp
  ultimately have "field ?q 42 ?k = 0 # ?t @ 0 # lit ''octet'' @ [0]"
    unfolding o field_def by (simp only: append_Cons append_Nil)
  moreover have "take (42 + ?k) (NetTxPacket (NetSetIP 14 (NetServerIP n) (TftpServerPort n) (TftpOurPort n) (of_nat ?k)
      (n\<lparr>NetTxPacket := NetSetEther ?a PROT_IP n ?q\<rparr>)))
    = net_header ?a (NetServerIP n) (TftpServerPort n) (TftpOurPort n) ?k n @ field ?q 42 ?k"
    by (rule NetSetIP_frame) (use q l in simp_all)
  moreover have "eth_sent (NetSetIP i d dp sp x n') = eth_sent n'" for i d dp sp x n'
    by (simp add: NetSetIP_def Let_def)
  ultimately show ?thesis
    by (simp add: TftpSend_def assms(2) k NetSendPacket_def Let_def)
qed

section \<open>ARP\<close>

lemma list4: "length xs = 4 \<Longrightarrow> \<exists>a b c d. xs = [a, b, c, d]"
  by (auto simp: numeral_eq_Suc length_Suc_conv)

lemma list6: "length xs = 6 \<Longrightarrow> \<exists>a b c d e f. xs = [a, b, c, d, e, f]"
  by (auto simp: numeral_eq_Suc length_Suc_conv)

lemma put_bytes_exact:
  "length xs = i \<Longrightarrow> length ys = length bs \<Longrightarrow> put_bytes i bs (xs @ ys @ zs) = xs @ bs @ zs"
  by (simp add: put_bytes_def)

text \<open>The answer, written field by field over the request.\<close>

lemma arp_answer_frame:
  assumes "length d = 6" "length e = 6" "length sha = 6" "length spa = 4" "length tha = 6" "length tpa = 4"
    and "length (NetOurEther n) = 6"
  shows "eth_sent (arp_answer (d @ e @ [8, 6] @ [0, 1, 8, 0, 6, 4] @ [0, 1] @ sha @ spa @ tha @ tpa @ rest) 14 n) =
    eth_sent n @ [e @ NetOurEther n @ [8, 6, 0, 1, 8, 0, 6, 4, 0, 2] @ NetOurEther n @ NetWriteIP (NetOurIP n)
       @ NetOurEther n @ NetWriteIP (NetOurIP n)]"
proof -
  let ?o = "NetOurEther n" and ?ip = "NetWriteIP (NetOurIP n)"
  let ?pkt = "d @ e @ [8, 6] @ [0, 1, 8, 0, 6, 4] @ [0, 1] @ sha @ spa @ tha @ tpa @ rest"
  have h: "st16 (SWAP16 PROT_ARP) = [8, 6]" "st16 (SWAP16 ARPOP_REPLY) = [0, 2]"
    by (simp_all add: SWAP16_def st16_def)
  let ?h = "e @ ?o @ [8, 6] @ [0, 1, 8, 0, 6, 4]"
  have 0: "NetSetEther (field ?pkt et_src 6) PROT_ARP n ?pkt = ?h @ [0, 1] @ sha @ spa @ tha @ tpa @ rest"
    using assms by (simp add: NetSetEther_bytes field_def h)
  have 1: "put_bytes 20 [0, 2] (?h @ [0, 1] @ sha @ spa @ tha @ tpa @ rest)
      = ?h @ [0, 2] @ sha @ spa @ tha @ tpa @ rest"
    by (rule put_bytes_exact) (use assms in simp_all)
  have 2: "put_bytes 22 ?o ((?h @ [0, 2]) @ sha @ spa @ tha @ tpa @ rest)
      = (?h @ [0, 2]) @ ?o @ spa @ tha @ tpa @ rest"
    by (rule put_bytes_exact) (use assms in simp_all)
  have 3: "put_bytes 28 ?ip ((?h @ [0, 2] @ ?o) @ spa @ tha @ tpa @ rest)
      = (?h @ [0, 2] @ ?o) @ ?ip @ tha @ tpa @ rest"
    by (rule put_bytes_exact) (use assms in simp_all)
  have 4: "put_bytes 32 ?o ((?h @ [0, 2] @ ?o @ ?ip) @ tha @ tpa @ rest)
      = (?h @ [0, 2] @ ?o @ ?ip) @ ?o @ tpa @ rest"
    by (rule put_bytes_exact) (use assms in simp_all)
  have 5: "put_bytes 38 ?ip ((?h @ [0, 2] @ ?o @ ?ip @ ?o) @ tpa @ rest)
      = (?h @ [0, 2] @ ?o @ ?ip @ ?o) @ ?ip @ rest"
    by (rule put_bytes_exact) (use assms in simp_all)
  have c: "NetCopyEther ?o = ?o" using assms(7) by (simp add: NetCopyEther_def)
  show ?thesis
    unfolding arp_answer_def Let_def 0 h(2) c
    using 1 2 3 4 5 assms by (simp add: NetSendPacket_def)
qed

text \<open>
  a station that asks for our address gets it.  A well-formed ARP request for the IP address we
  have is answered by one frame to the sender's Ethernet address that carries operation 2 and our
  two addresses; nothing else changes but the receive buffer, in which the answer is built.  (The
  target fields hold our own addresses again, not the asking station's.)
\<close>

theorem arp_request_answered:
  assumes "length d = 6" "length e = 6" "length sha = 6" "length spa = 4" "length tha = 6"
    and "length (NetOurEther n) = 6" "NetOurIP n \<noteq> 0" "42 \<le> len"
    and "pkt = d @ e @ [8, 6, 0, 1, 8, 0, 6, 4, 0, 1] @ sha @ spa @ tha @ NetWriteIP (NetOurIP n) @ rest"
  shows "\<exists>rx. NetReceive cfg pkt len n s = Inr (n\<lparr>NetRxPkt := rx, eth_sent := eth_sent n @
    [e @ NetOurEther n @ [8, 6, 0, 1, 8, 0, 6, 4, 0, 2] @ NetOurEther n @ NetWriteIP (NetOurIP n)
       @ NetOurEther n @ NetWriteIP (NetOurIP n)]\<rparr>, s)"
proof -
  let ?ip = "NetOurIP n"
  obtain a where a: "NetWriteIP ?ip = a" "length a = 4" by simp
  obtain d0 d1 d2 d3 d4 d5 where d: "d = [d0, d1, d2, d3, d4, d5]" using list6 [OF assms(1)] by blast
  obtain e0 e1 e2 e3 e4 e5 where e: "e = [e0, e1, e2, e3, e4, e5]" using list6 [OF assms(2)] by blast
  obtain s0 s1 s2 s3 s4 s5 where sh: "sha = [s0, s1, s2, s3, s4, s5]" using list6 [OF assms(3)] by blast
  obtain p0 p1 p2 p3 where sp: "spa = [p0, p1, p2, p3]" using list4 [OF assms(4)] by blast
  obtain t0 t1 t2 t3 t4 t5 where t: "tha = [t0, t1, t2, t3, t4, t5]" using list6 [OF assms(5)] by blast
  obtain o0 o1 o2 o3 o4 o5 where o: "NetOurEther n = [o0, o1, o2, o3, o4, o5]" using list6 [OF assms(6)] by blast
  obtain a0 a1 a2 a3 where l7: "a = [a0, a1, a2, a3]" using list4 [OF a(2)] by blast
  note l = d e sh sp t o l7
  have r: "NetReadIP [a0, a1, a2, a3] = ?ip" using read_write_ip [of ?ip] a(1) l7 by simp
  have h: "SWAP16 0x608 = 0x806" "SWAP16 0x100 = 1" "SWAP16 8 = 0x800" "st16 (SWAP16 PROT_ARP) = [8, 6]"
    "st16 (SWAP16 ARPOP_REPLY) = [0, 2]" by (simp_all add: SWAP16_def st16_def)
  have pl: "SWAP16 (ld16 pkt et_protlen) = PROT_ARP" by (simp add: assms(9) l ld16_def h)
  have ar: "drop 14 pkt = [0, 1, 8, 0, 6, 4, 0, 1] @ sha @ spa @ tha @ NetWriteIP ?ip @ rest"
    by (simp add: assms(9) l)
  have f: "SWAP16 (ld16 (drop 14 pkt) ar_hrd) = ARP_ETHER" "SWAP16 (ld16 (drop 14 pkt) ar_pro) = PROT_IP"
    "drop 14 pkt ! ar_hln = 6" "drop 14 pkt ! ar_pln = 4" "SWAP16 (ld16 (drop 14 pkt) ar_op) = ARPOP_REQUEST"
    "NetReadIP (field (drop 14 pkt) 24 4) = ?ip"
    unfolding ar a(1) by (simp_all add: l ld16_def h field_def r)
  have "eth_sent (arp_answer pkt 14 n) = eth_sent n @
    [e @ NetOurEther n @ [8, 6, 0, 1, 8, 0, 6, 4, 0, 2] @ NetOurEther n @ NetWriteIP ?ip
       @ NetOurEther n @ NetWriteIP ?ip]"
    using arp_answer_frame [OF assms(1-5) length_NetWriteIP assms(6), of "NetOurIP n" rest] by (simp add: assms(9))
  then have "arp_answer pkt 14 (n\<lparr>NetRxPkt := pkt\<rparr>) = n\<lparr>NetRxPkt := NetRxPkt (arp_answer pkt 14 n), eth_sent := eth_sent n @
    [e @ NetOurEther n @ [8, 6, 0, 1, 8, 0, 6, 4, 0, 2] @ NetOurEther n @ NetWriteIP ?ip
       @ NetOurEther n @ NetWriteIP ?ip]\<rparr>"
    by (simp add: arp_answer_def Let_def NetSendPacket_def NetSetEther_def)
  moreover have "NetReceive cfg pkt len n s = Inr (arp_answer pkt 14 (n\<lparr>NetRxPkt := pkt\<rparr>), s)"
    using assms(7,8) by (simp add: NetReceive_def receive_arp_def Let_def pl f)
  ultimately show ?thesis by metis
qed

section \<open>BOOTP\<close>

lemma write_read_ip: "NetWriteIP (NetReadIP [d, c, b, a]) = [d, c, b, a]"
proof -
  let ?w = "push_bit 24 (ucast d) OR push_bit 16 (ucast c) OR push_bit 8 (ucast b) OR ucast a :: u32"
  have "ucast (drop_bit 24 ?w) = d" "ucast (drop_bit 16 ?w) = c" "ucast (drop_bit 8 ?w) = b" "ucast ?w = a"
    by (rule bit_word_eqI; auto simp: bit_simps dest: bit_imp_le_length)+
  then show ?thesis by (simp only: NetReadIP_bytes NetWriteIP_bytes)
qed

text \<open>The address an ARP request asks for is at the end of its frame.\<close>

lemma ArpRequest_target:
  assumes "ArpRequest cfg n s = Inr (n', s')" "net_wf n"
  shows "drop 38 (last (eth_sent n'))
    = NetWriteIP (if NetOurGatewayIP n \<noteq> 0 then NetOurGatewayIP n else NetServerIP n)"
proof -
  let ?n = "n\<lparr>ArpTry := ArpTry n + 1\<rparr>"
  define t where "t = NetWriteIP (if NetOurGatewayIP n \<noteq> 0 then NetOurGatewayIP n else NetServerIP n)"
  define p where "p = NetSetEther NetBcastAddr PROT_ARP ?n (NetTxPacket n)"
  define u where "u = st16 (SWAP16 ARP_ETHER) @ st16 (SWAP16 PROT_IP) @ [6, 4] @ st16 (SWAP16 ARPOP_REQUEST)
            @ NetCopyEther (NetOurEther n) @ NetWriteIP (NetOurIP n) @ replicate 6 0"
  have "length p = 1536" "length u = 24"
    using assms(2) by (simp_all add: p_def u_def net_wf_def NetBcastAddr_def NetCopyEther_def)
  then have "drop 38 (take 42 (put_bytes 14 (u @ t) p)) = t" by (simp add: put_bytes_def t_def)
  moreover have "last (eth_sent n') = take 42 (put_bytes 14 (u @ t) p)"
    using assms(1) by (auto simp: ArpRequest_def Let_def NetSendPacket_def NetSetTimeout_def NetSetHandler_def
        u_def t_def p_def elim!: sbind_InrE)
  ultimately show ?thesis by (simp add: t_def)
qed

text \<open>
  the gateway's address is sent backwards.  A BOOTP answer whose vendor area gives the gateway
  \<open>a.b.c.d\<close>, where none was known, makes the next ARP request ask for \<open>d.c.b.a\<close>: the option's bytes are
  copied into a word of the little-endian machine, and \<open>NetWriteIP\<close> sends the word's high byte first.
\<close>

theorem bootp_gateway_reversed:
  assumes "BootpVendorProcess cfg (3 # 4 # a # b # c # d # 0xFF # rest) left n s = Inr (n1, s1)"
    and "NetOurGatewayIP n = 0" "[a, b, c, d] \<noteq> [0, 0, 0, 0]" "6 \<le> left" "net_wf n"
    and "ArpRequest cfg n1 s1 = Inr (n2, s2)"
  shows "drop 38 (last (eth_sent n2)) = [d, c, b, a]"
proof -
  let ?w = "NetReadIP [d, c, b, a]"
  have "?w \<noteq> 0"
  proof
    assume "?w = 0"
    then have "NetWriteIP 0 = [d, c, b, a]" using write_read_ip [of d c b a] by simp
    then show False using assms(3) by (simp add: NetWriteIP_bytes)
  qed
  have ld: "ld32 (3 # 4 # a # b # c # d # 0xFF # rest) 2 = ?w" by (simp add: ld32_def NetReadIP_bytes)
  have "BootpVendorFieldProcess cfg (3 # 4 # a # b # c # d # 0xFF # rest) n s
      = Inr (n\<lparr>NetBootFileSize := 0, NetOurGatewayIP := ?w\<rparr>, s)"
    using assms(2) by (simp add: BootpVendorFieldProcess_def vend_word_def Let_def ld)
  then have "BootpVendorProcess cfg (3 # 4 # a # b # c # d # 0xFF # rest) left n s
      = BootpVendorProcess cfg (0xFF # rest) (left - 6) (n\<lparr>NetBootFileSize := 0, NetOurGatewayIP := ?w\<rparr>) s"
    using assms(4) by (subst BootpVendorProcess.simps) simp
  also have "\<dots> = Inr (n\<lparr>NetBootFileSize := 0, NetOurGatewayIP := ?w\<rparr>, s)"
    by (subst BootpVendorProcess.simps) simp
  finally have "n1 = n\<lparr>NetBootFileSize := 0, NetOurGatewayIP := ?w\<rparr>" using assms(1) by simp
  with ArpRequest_target [OF assms(6)] assms(5) \<open>?w \<noteq> 0\<close> write_read_ip [of d c b a] show ?thesis by simp
qed

section \<open>Silence\<close>

text \<open>Clock readings that each lie beyond the deadline of 2 s set at the one before.\<close>

fun late :: "u32 \<Rightarrow> u32 list \<Rightarrow> bool" where
  "late prev [] = True"
| "late prev (t # ts) = (unat prev + 7372800 < unat t \<and> late t ts)"

text \<open>The loop waits for the TFTP server, for the \<open>k\<close>-th time.\<close>

definition waiting :: "nat \<Rightarrow> net \<Rightarrow> sys \<Rightarrow> bool" where
  "waiting k n s = (NetState n = NETLOOP_CONTINUE \<and> timeHandler n = Some TftpTimeout
     \<and> timeValue n = timer n + 2 * CFG_HZ \<and> unat (TftpTimeoutCount n) = k \<and> con_in s = [])"

lemma deadline: "unat t + 7372800 < unat t' \<Longrightarrow> t + 2 * CFG_HZ < (t' :: u32)"
  using unsigned_less [of t', where 'a = nat] by (simp add: word_less_nat_alt unat_word_ariths)

lemma deadline_again: "unat t + 36864000 < unat t' \<Longrightarrow> t + 10 * CFG_HZ < (t' :: u32)"
  using unsigned_less [of t', where 'a = nat] by (simp add: word_less_nat_alt unat_word_ariths)

lemma quiet_round:
  assumes "con_in s = []" "timeHandler n = Some x" "timeValue n < t"
  shows "net_round cfg p ([], t) n s =
    sbind (call_timeout cfg x (n\<lparr>timer := t, timeHandler := None\<rparr>) s) (\<lambda>(n, s). net_switch cfg p n s)"
  using assms by (simp add: net_round_def ctrlc_def tstc_def net_timeout_def)

lemma TftpSend_sends: "length (eth_sent (TftpSend n)) = Suc (length (eth_sent n))"
  by (simp add: TftpSend_def NetSetIP_def NetSendPacket_def Let_def split: prod.split)

lemma quiet_resend:
  assumes "waiting k n s" "k < 9" "unat (timer n) + 7372800 < unat t"
  shows "\<exists>n' s'. net_round cfg p ([], t) n s = Inr ((None, n'), s') \<and> waiting (Suc k) n' s' \<and> timer n' = t
    \<and> length (eth_sent n') = Suc (length (eth_sent n)) \<and> kept s s'"
proof -
  have c: "unat (TftpTimeoutCount n + 1) = Suc k" "\<not> TftpTimeoutCount n + 1 \<ge> 10"
    using assms(1,2) by (simp_all add: waiting_def word_le_nat_alt unat_word_ariths)
  show ?thesis
    using assms c deadline [OF assms(3)] TftpSend_sends
    by (simp add: waiting_def quiet_round call_timeout_def TftpTimeout_handler_def Let_def net_switch_def
        NetSetTimeout_def puts_out kept_def)
qed

lemma quiet_resends:
  assumes "waiting k n s" "k + length ts < 10" "late (timer n) ts"
  shows "\<exists>n' s'. net_rounds cfg p (map (Pair []) ts @ rs) n s = net_rounds cfg p rs n' s'
    \<and> waiting (k + length ts) n' s' \<and> timer n' = last (timer n # ts)
    \<and> length (eth_sent n') = length (eth_sent n) + length ts \<and> kept s s'"
  using assms
proof (induction ts arbitrary: k n s)
  case Nil then show ?case by fastforce
next
  case (Cons t ts)
  then obtain n1 s1 where 1: "net_round cfg p ([], t) n s = Inr ((None, n1), s1)" "waiting (Suc k) n1 s1"
    "timer n1 = t" "length (eth_sent n1) = Suc (length (eth_sent n))" "kept s s1"
    using quiet_resend [of k n s t cfg p] by auto
  from Cons.IH [OF 1(2)] Cons.prems(2,3) 1(3) obtain n2 s2 where
    "net_rounds cfg p (map (Pair []) ts @ rs) n1 s1 = net_rounds cfg p rs n2 s2"
    "waiting (Suc k + length ts) n2 s2" "timer n2 = last (timer n1 # ts)"
    "length (eth_sent n2) = length (eth_sent n1) + length ts" "kept s1 s2" by auto
  with 1 show ?case by (intro exI [of _ n2] exI [of _ s2]) (auto intro: kept_trans)
qed

text \<open>
  C29: a silent TFTP server is given up, never waited for without end.  After the first request the
  loop sends it nine times more, each time the 2 s have passed; at the tenth time it stops listening to
  TFTP and, 10 s later, begins the whole protocol again.
\<close>

theorem tftp_gives_up:
  assumes "waiting 0 n s" "length ts = 9" "late (timer n) (ts @ [t])" "unat t + 36864000 < unat t'"
  shows "\<exists>n' s'. net_rounds cfg p (map (Pair []) (ts @ [t, t']) @ rs) n s =
      sbind (net_begin cfg p n' s')
        (\<lambda>((ok, n), s). if ok then net_rounds cfg p rs n s else Inr ((0, n), s))
    \<and> length (eth_sent n') = length (eth_sent n) + 9 \<and> packetHandler n' = Some StartAgainHandler
    \<and> memory s' = memory s"
proof -
  have "late x (xs @ ys) = (late x xs \<and> late (last (x # xs)) ys)" for x xs ys
    by (induction xs arbitrary: x) auto
  with assms(3) have l: "late (timer n) ts" "unat (last (timer n # ts)) + 7372800 < unat t" by simp_all
  obtain n1 s1 where 1: "waiting 9 n1 s1" "timer n1 = last (timer n # ts)"
    "length (eth_sent n1) = length (eth_sent n) + 9" "kept s s1"
    "net_rounds cfg p (map (Pair []) ts @ ([], t) # ([], t') # rs) n s
      = net_rounds cfg p (([], t) # ([], t') # rs) n1 s1"
    using quiet_resends [of 0 n s ts cfg p "([], t) # ([], t') # rs"] assms(1,2) l(1) by auto
  have c: "TftpTimeoutCount n1 + 1 \<ge> 10"
    using 1(1) by (simp add: waiting_def word_le_nat_alt unat_word_ariths)
  define n2 where "n2 = NetStartAgain (n1\<lparr>timer := t, TftpTimeoutCount := TftpTimeoutCount n1 + 1\<rparr>)"
  define s2 where "s2 = puts (lit ''\<newline>Retry count exceeded; starting again\<newline>'') s1"
  have 2: "net_round cfg p ([], t) n1 s1 = Inr ((None, n2), s2)"
    using 1(1) c deadline [OF l(2)]
    by (simp add: waiting_def quiet_round 1(2) call_timeout_def TftpTimeout_handler_def Let_def net_switch_def
        n2_def s2_def NetStartAgain_def NetSetTimeout_def NetSetHandler_def)
  have n2: "timeHandler n2 = Some StartAgainTimeout" "timeValue n2 = t + 10 * CFG_HZ" "con_in s2 = []"
    "eth_sent n2 = eth_sent n1" "packetHandler n2 = Some StartAgainHandler" "memory s2 = memory s1"
    using 1(1) by (simp_all add: n2_def s2_def NetStartAgain_def NetSetTimeout_def NetSetHandler_def puts_out waiting_def)
  define n3 where "n3 = n2\<lparr>timer := t', timeHandler := None, NetState := NETLOOP_RESTART\<rparr>"
  have 3: "net_round cfg p ([], t') n2 s2 =
      sbind (net_begin cfg p n3 s2) (\<lambda>((ok, n), s). Inr ((if ok then None else Some 0, n), s))"
    using n2(1-3) deadline_again [OF assms(4)]
    by (simp add: quiet_round call_timeout_def startAgainTimeout_def net_switch_def n3_def)
  have "net_rounds cfg p (map (Pair []) (ts @ [t, t']) @ rs) n s =
      sbind (net_begin cfg p n3 s2) (\<lambda>((ok, n), s). if ok then net_rounds cfg p rs n s else Inr ((0, n), s))"
    using 1(5) by (cases "net_begin cfg p n3 s2") (auto simp: 2 3 split: prod.splits)
  moreover have "memory s2 = memory s" using 1(4) n2(6) by (simp add: kept_def)
  ultimately show ?thesis using 1(3) n2(4,5) by (intro exI [of _ n3] exI [of _ s2]) (simp add: n3_def)
qed

section \<open>Runs\<close>

text \<open>A RARP download that is interrupted by control-C.\<close>

definition rarp_sys :: sys where
  "rarp_sys = (reset_sys 0)\<lparr>bi_enetaddr := replicate 6 1, con_in := [3]\<rparr>"

lemma printf_known: "sprintf fmt args = Some t \<Longrightarrow> length t < CFG_PBSIZE cfg \<Longrightarrow> 0 \<notin> set t \<Longrightarrow>
    printf cfg fmt args s = Inr ((), puts t s)"
  by (simp add: printf_def)

lemma printf_try:
  "printf dnp1110 (lit ''RARP broadcast %d\<newline>'') [AInt 1] s = Inr ((), puts (lit ''RARP broadcast 1\<newline>'') s)"
  "printf dnp1110 (lit ''ARP broadcast %d\<newline>'') [AInt 1] s = Inr ((), puts (lit ''ARP broadcast 1\<newline>'') s)"
  by (rule printf_known, code_simp, simp add: lit_def dnp1110_def, simp add: lit_def)+

lemma printf_abort:
  "printf dnp1110 (lit ''\<newline>Abort\<newline>'') [] s = Inr ((), puts (lit ''\<newline>Abort\<newline>'') s)"
  by (subst printf_plain) (simp_all add: lit_def dnp1110_def)

definition rarp_net :: net where
  "rarp_net = net_bss\<lparr>NetOurEther := replicate 6 1\<rparr>"

lemma rarp_net [simp]: "net_wf rarp_net" "net_wf net_bss" "NetOurEther rarp_net = replicate 6 1"
  "RarpTry (rarp_net\<lparr>NetState := a, NetOurIP := b, NetServerIP := c, RarpTry := d\<rparr>) = d"
  by (simp_all add: rarp_net_def net_wf_def name_wf_def net_bss_def)

lemma rarp_begin: "\<exists>n1 s1. net_begin dnp1110 RARP rarp_net rarp_sys = Inr ((True, n1), s1)
    \<and> con_in s1 = [3] \<and> \<not> ctrlc_disabled s1 \<and> memory s1 = memory rarp_sys"
  by (simp add: net_begin_def net_check_prereq_def RarpRequest_def Let_def printf_try
    NetSendPacket_def NetSetTimeout_def NetSetHandler_def puts_out rarp_sys_def reset_sys_def)

lemma rarp_run: "\<exists>n' s'. NetLoop dnp1110 RARP [([], 0)] net_bss rarp_sys = Inr ((0, n'), s')"
proof -
  obtain n1 s1 where "net_begin dnp1110 RARP rarp_net rarp_sys = Inr ((True, n1), s1)" "con_in s1 = [3]"
    "\<not> ctrlc_disabled s1" using rarp_begin by blast
  moreover have "net_bss\<lparr>NetOurEther := NetCopyEther (bi_enetaddr rarp_sys)\<rparr> = rarp_net"
    by (simp add: rarp_net_def rarp_sys_def NetCopyEther_def)
  ultimately show ?thesis
    by (simp add: NetLoop_def net_round_def ctrlc_def tstc_def getc_def printf_abort)
qed

text \<open>The properties at concrete inputs.\<close>

theorem tftp_never_loads_witness:
  "\<exists>n' s'. NetLoop dnp1110 RARP [([], 0)] net_bss rarp_sys = Inr ((0, n'), s') \<and> memory s' = memory rarp_sys"
proof -
  obtain n' s' where "NetLoop dnp1110 RARP [([], 0)] net_bss rarp_sys = Inr ((0, n'), s')" using rarp_run by blast
  with tftp_never_loads [OF this] show ?thesis by (simp add: rarp_sys_def reset_sys_def)
qed

theorem net_arrays_keep_size_witness:
  "\<exists>n1 s1. net_begin dnp1110 RARP rarp_net rarp_sys = Inr ((True, n1), s1)
    \<and> net_wf (n1\<lparr>timer := 5\<rparr>) \<and> length (BootFile s1) = 128"
proof -
  obtain n1 s1 where b: "net_begin dnp1110 RARP rarp_net rarp_sys = Inr ((True, n1), s1)"
    using rarp_begin by blast
  have "net_wf (n1\<lparr>timer := 5\<rparr>) \<and> length (BootFile s1) = 128"
    by (rule net_arrays_keep_size [OF b _ _ r_into_rtranclp [of "net_step dnp1110 RARP", OF net_step.clock]])
      (simp_all add: rarp_sys_def reset_sys_def)
  with b show ?thesis by blast
qed

theorem tftp_request_without_opcode_witness:
  "eth_sent (TftpSend (rarp_net\<lparr>tftp_filename := [65, 66]\<rparr>)) =
    [net_header (replicate 6 0xFF) 0 0 0 10 (rarp_net\<lparr>tftp_filename := [65, 66]\<rparr>)
      @ 0 # [65, 66] @ 0 # lit ''octet'' @ [0]]"
  using tftp_request_without_opcode [of "rarp_net\<lparr>tftp_filename := [65, 66]\<rparr>"]
  by (simp add: net_wf_name rarp_net_def net_wf_def name_wf_def net_bss_def)

theorem arp_request_answered_witness:
  "\<exists>rx. NetReceive dnp1110 (replicate 6 0xFF @ replicate 6 2 @ [8, 6, 0, 1, 8, 0, 6, 4, 0, 1] @ replicate 6 2
      @ [10, 0, 0, 1] @ replicate 6 0 @ NetWriteIP 0x0A000002 @ []) 42 (rarp_net\<lparr>NetOurIP := 0x0A000002\<rparr>) rarp_sys
    = Inr (rarp_net\<lparr>NetOurIP := 0x0A000002, NetRxPkt := rx, eth_sent :=
        [replicate 6 2 @ replicate 6 1 @ [8, 6, 0, 1, 8, 0, 6, 4, 0, 2] @ replicate 6 1 @ NetWriteIP 0x0A000002
          @ replicate 6 1 @ NetWriteIP 0x0A000002]\<rparr>, rarp_sys)"
  using arp_request_answered [OF _ _ _ _ _ _ _ _ refl, of "replicate 6 0xFF" "replicate 6 2" "replicate 6 2" "[10, 0, 0, 1]"
    "replicate 6 0" "rarp_net\<lparr>NetOurIP := 0x0A000002\<rparr>" 42 dnp1110 "[]" rarp_sys]
  by (simp add: rarp_net_def net_bss_def)

theorem bootp_gateway_reversed_witness:
  "\<exists>n1 s1 n2 s2. BootpVendorProcess dnp1110 (3 # 4 # 192 # 168 # 1 # 9 # 0xFF # []) 7 rarp_net rarp_sys = Inr (n1, s1)
    \<and> ArpRequest dnp1110 n1 s1 = Inr (n2, s2) \<and> drop 38 (last (eth_sent n2)) = [9, 1, 168, 192]"
proof -
  have g: "NetOurGatewayIP rarp_net = 0" by (simp add: rarp_net_def net_bss_def)
  obtain n1 s1 where 1: "BootpVendorProcess dnp1110 (3 # 4 # 192 # 168 # 1 # 9 # 0xFF # []) 7 rarp_net rarp_sys = Inr (n1, s1)"
    "ArpTry n1 = 0"
    by (simp add: BootpVendorProcess.simps [of _ "_ # _"] BootpVendorFieldProcess_def vend_word_def Let_def
      rarp_net_def net_bss_def)
  obtain n2 s2 where 2: "ArpRequest dnp1110 n1 s1 = Inr (n2, s2)"
    using 1(2) by (simp add: ArpRequest_def Let_def printf_try)
  from bootp_gateway_reversed [OF 1(1) g _ _ _ 2] 1(1) 2 show ?thesis by simp
qed

theorem tftp_gives_up_witness:
  "\<exists>n' s'. net_rounds dnp1110 TFTP (map (Pair []) ([8000000, 16000000, 24000000, 32000000, 40000000, 48000000, 56000000, 64000000, 72000000]
      @ [80000000, 120000000]) @ [])
      (rarp_net\<lparr>timeHandler := Some TftpTimeout, timeValue := 7372800\<rparr>) (reset_sys 0) =
      sbind (net_begin dnp1110 TFTP n' s')
        (\<lambda>((ok, n), s). if ok then net_rounds dnp1110 TFTP [] n s else Inr ((0, n), s))
    \<and> length (eth_sent n') = length (eth_sent (rarp_net\<lparr>timeHandler := Some TftpTimeout, timeValue := 7372800\<rparr>)) + 9
    \<and> packetHandler n' = Some StartAgainHandler \<and> memory s' = memory (reset_sys 0)"
  by (rule tftp_gives_up)
    (simp_all add: waiting_def rarp_net_def net_bss_def reset_sys_def)

end
