(* ===== verification/Printing.thy ===== *)
theory Printing
  imports Console
begin

text \<open>
  When a call of \<open>printf\<close> succeeds: a bound of the text's length, read off the format.
\<close>

section \<open>Numbers\<close>

lemma number_tmp_length: "unat n < 10 ^ k \<Longrightarrow> 10 \<le> base \<Longrightarrow> length (number_tmp ds base n) \<le> k"
proof (induction k arbitrary: n)
  case 0
  then have "n = 0" by (simp add: unat_eq_zero)
  then show ?case by (simp add: number_tmp.simps)
next
  case (Suc k)
  have "unat (n div base) < 10 ^ k" if "n \<noteq> 0"
  proof -
    have "10 \<le> unat base" using Suc.prems(2) by (simp add: word_le_nat_alt)
    then have "unat n div unat base \<le> unat n div 10" by (intro div_le_mono2) simp_all
    moreover have "unat n div 10 < 10 ^ k" using Suc.prems(1) by simp
    ultimately show ?thesis by (simp add: unat_div)
  qed
  with Suc.IH [of "n div base"] Suc.prems(2) show ?case by (subst number_tmp.simps) simp
qed

lemma number_room:
  assumes "base = 10 \<or> base = 16" "w \<le> 13" "p \<le> 10"
  shows "\<exists>out. number num base w p ty = Some out \<and> length out \<le> 13"
proof -
  define ty' where "ty' = (if flag_set ty LEFT then ty AND NOT ZEROPAD else ty)"
  define ds where "ds = (if flag_set ty LARGE then digits_large else digits_small)"
  obtain sign n r where sg: "number_sign num w ty' = (sign, n, r)" by (metis prod_cases3)
  then have s: "r = w - int (length sign)" "length sign \<le> 1"
    by (auto simp: number_sign_def split: if_splits)
  define tmp where "tmp = (if n = 0 then [0x30] else number_tmp ds (of_int base) n)"
  have "unat n < 10 ^ 10" using unat_u32_less [of n] by simp
  then have t: "length tmp \<le> 10"
    using assms(1) by (auto simp: tmp_def intro!: number_tmp_length)
  define q where "q = max (int (length tmp)) p"
  define px where "px = number_prefix ds base ty'"
  have px: "length px \<le> (if flag_set ty' SPECIAL \<and> base = 16 then 2 else 0)"
    using assms(1) by (auto simp: px_def number_prefix_def)
  let ?r = "if flag_set ty' SPECIAL then if base = 16 then r - 2 else r else r"
  obtain b f l where pads: "number_pads (?r - q) ty' = (b, f, l)"
    by (metis prod_cases3)
  have "number num base w p ty = Some (b @ sign @ px @ f @ replicate (nat (q - int (length tmp))) 0x30 @ rev tmp @ l)"
    using assms(1) sg pads
    unfolding number_def ty'_def [symmetric] ds_def [symmetric]
    by (cases "flag_set ty' SPECIAL") (auto simp: Let_def tmp_def [symmetric] px_def [symmetric] q_def max_def)
  with number_pads_length [OF pads] show ?thesis
    using s t px assms(2,3) by (auto simp: q_def split: if_splits)
qed

section \<open>Formats\<close>

text \<open>\<open>room fmt args k\<close>: the format fits its arguments and writes at most \<open>k\<close> bytes.\<close>

definition room :: "byte list \<Rightarrow> arg list \<Rightarrow> nat \<Rightarrow> bool" where
  "room fmt args k =
     (\<forall>st. fs_args st = args \<longrightarrow>
       (\<exists>st'. vsprintf_loop fmt st = Some st' \<and> length (fs_out st') \<le> length (fs_out st) + k))"

lemma room_Nil: "room [] args k"
  by (simp add: room_def)

lemma room_step:
  assumes "\<And>st. fs_args st = args \<Longrightarrow> \<exists>st'. vsprintf_loop fmt st = vsprintf_loop fmt' st'
      \<and> fs_args st' = args' \<and> length (fs_out st') \<le> length (fs_out st) + j"
    and "j \<le> k" "room fmt' args' (k - j)"
  shows "room fmt args k"
  unfolding room_def
proof (intro allI impI)
  fix st :: fmt_state assume "fs_args st = args"
  from assms(1) [OF this] obtain st1 where 1: "vsprintf_loop fmt st = vsprintf_loop fmt' st1" "fs_args st1 = args'"
    "length (fs_out st1) \<le> length (fs_out st) + j" by blast
  from assms(3) 1(2) obtain st2 where "vsprintf_loop fmt' st1 = Some st2"
    "length (fs_out st2) \<le> length (fs_out st1) + (k - j)" unfolding room_def by blast
  with 1 assms(2) show "\<exists>st'. vsprintf_loop fmt st = Some st' \<and> length (fs_out st') \<le> length (fs_out st) + k"
    by (intro exI [of _ st2]) simp
qed

lemma room_char: "c \<noteq> ch CHR ''%'' \<Longrightarrow> 1 \<le> k \<Longrightarrow> room fmt args (k - 1) \<Longrightarrow> room (c # fmt) args k"
  by (rule room_step [of args _ fmt args 1]) auto

lemma room_int:
  assumes "\<And>st. fmt_directive fmt st = map_option (Pair fmt') (fmt_int st base flags w p q)"
    and "base = 10 \<or> base = 16" "w \<le> 13" "p \<le> 10" "13 \<le> k" "room fmt' as (k - 13)"
  shows "room (ch CHR ''%'' # fmt) (AInt a # as) k"
proof (rule room_step [OF _ assms(5,6)])
  fix st :: fmt_state assume a: "fs_args st = AInt a # as"
  then obtain num where "fmt_int st base flags w p q =
      Option.bind (number num base w p flags) (\<lambda>out. Some (st\<lparr>fs_out := fs_out st @ out, fs_args := as\<rparr>))"
    by (simp add: fmt_int_def Let_def)
  moreover obtain out where "number num base w p flags = Some out" "length out \<le> 13"
    using number_room [OF assms(2-4)] by blast
  ultimately show "\<exists>st'. vsprintf_loop (ch CHR ''%'' # fmt) st = vsprintf_loop fmt' st'
      \<and> fs_args st' = as \<and> length (fs_out st') \<le> length (fs_out st) + 13"
    using assms(1) [of st] by (intro exI [of _ "st\<lparr>fs_out := fs_out st @ out, fs_args := as\<rparr>"]) simp
qed

lemma directive_int:
  "fmt_directive (ch CHR ''d'' # fmt) st = map_option (Pair fmt) (fmt_int st 10 SIGN (-1) (-1) None)"
  "fmt_directive (ch CHR ''x'' # fmt) st = map_option (Pair fmt) (fmt_int st 16 0 (-1) (-1) None)"
  "fmt_directive (ch CHR ''l'' # ch CHR ''d'' # fmt) st = map_option (Pair fmt) (fmt_int st 10 SIGN (-1) (-1) (Some (ch CHR ''l'')))"
  "fmt_directive (ch CHR ''l'' # ch CHR ''x'' # fmt) st = map_option (Pair fmt) (fmt_int st 16 0 (-1) (-1) (Some (ch CHR ''l'')))"
  "fmt_directive (ch CHR ''0'' # ch CHR ''8'' # ch CHR ''x'' # fmt) st = map_option (Pair fmt) (fmt_int st 16 ZEROPAD 8 (-1) None)"
  "fmt_directive (ch CHR ''0'' # ch CHR ''8'' # ch CHR ''l'' # ch CHR ''x'' # fmt) st
    = map_option (Pair fmt) (fmt_int st 16 ZEROPAD 8 (-1) (Some (ch CHR ''l'')))"
  "fmt_directive (ch CHR ''8'' # ch CHR ''l'' # ch CHR ''d'' # fmt) st
    = map_option (Pair fmt) (fmt_int st 10 SIGN 8 (-1) (Some (ch CHR ''l'')))"
  by (simp_all add: fmt_directive_def fmt_width_def fmt_precision_def fmt_qualifier_def fmt_convert_def is_digit_def
    map_option_case split: option.split bind_split)

lemmas room_ints = directive_int [THEN room_int]

lemma fmt_str_plain: "length t < 2 ^ 32 \<Longrightarrow> fmt_str (-1) (-1) 0 (Some t) = t"
  by (simp add: fmt_str_def Let_def flag_set_def blanks_def unsigned_minus_1_eq_mask mask_eq_exp_minus_1)

lemma room_s:
  assumes "length t \<le> j" "j \<le> k" "k < 2 ^ 32" "room fmt as (k - j)"
  shows "room (ch CHR ''%'' # ch CHR ''s'' # fmt) (AStr (Some t) # as) k"
proof (rule room_step [OF _ assms(2,4)])
  fix st :: fmt_state assume "fs_args st = AStr (Some t) # as"
  moreover have "fmt_str (-1) (-1) 0 (Some t) = t" using assms(1-3) by (simp add: fmt_str_plain)
  ultimately show "\<exists>st'. vsprintf_loop (ch CHR ''%'' # ch CHR ''s'' # fmt) st = vsprintf_loop fmt st'
      \<and> fs_args st' = as \<and> length (fs_out st') \<le> length (fs_out st) + j"
    using assms(1)
    by (intro exI [of _ "st\<lparr>fs_out := fs_out st @ t, fs_args := as\<rparr>"])
       (simp add: fmt_directive_def fmt_width_def fmt_precision_def fmt_qualifier_def fmt_convert_def is_digit_def)
qed

text \<open>\<^verbatim>\<open>%.*s\<close>: the string up to the precision given.\<close>

lemma room_prec:
  assumes "sint w \<ge> 0" "unat w \<le> j" "j \<le> k" "room fmt as (k - j)"
  shows "room (ch CHR ''%'' # ch CHR ''.'' # ch CHR ''*'' # ch CHR ''s'' # fmt) (AInt w # AStr (Some t) # as) k"
proof (rule room_step [OF _ assms(3,4)])
  fix st :: fmt_state assume a: "fs_args st = AInt w # AStr (Some t) # as"
  let ?t = "fmt_str (-1) (sint w) 0 (Some t)"
  have "length ?t \<le> unat w" by (simp add: fmt_str_def Let_def flag_set_def blanks_def)
  with a assms(1,2) show "\<exists>st'. vsprintf_loop (ch CHR ''%'' # ch CHR ''.'' # ch CHR ''*'' # ch CHR ''s'' # fmt) st
      = vsprintf_loop fmt st' \<and> fs_args st' = as \<and> length (fs_out st') \<le> length (fs_out st) + j"
    by (intro exI [of _ "st\<lparr>fs_out := fs_out st @ ?t, fs_args := as\<rparr>"])
       (simp add: fmt_directive_def fmt_width_def fmt_precision_def fmt_qualifier_def fmt_convert_def is_digit_def)
qed

lemma printf_room: "room fmt args k \<Longrightarrow> k < CFG_PBSIZE cfg \<Longrightarrow> \<exists>t. printf cfg fmt args s = Inr ((), puts t s)"
  by (force simp: room_def printf_def sprintf_def vsprintf_def dest: spec [of _ "\<lparr>fs_out = [], fs_args = args, fs_stores = []\<rparr>"])

text \<open>The text a format writes, for states that differ in nothing but the output.\<close>

definition prints :: "config \<Rightarrow> byte list \<Rightarrow> arg list \<Rightarrow> bool" where
  "prints cfg fmt args = (\<exists>k < CFG_PBSIZE cfg. room fmt args k)"

lemma prints_room: "room fmt args 120 \<Longrightarrow> 120 < CFG_PBSIZE cfg \<Longrightarrow> prints cfg fmt args"
  by (auto simp: prints_def)

lemma prints_plain: "ch CHR ''%'' \<notin> set t \<Longrightarrow> length t < CFG_PBSIZE cfg \<Longrightarrow> prints cfg t args"
proof -
  have "ch CHR ''%'' \<notin> set t \<Longrightarrow> room t args (length t)"
    by (induction t) (auto intro: room_Nil room_char)
  then show "ch CHR ''%'' \<notin> set t \<Longrightarrow> length t < CFG_PBSIZE cfg \<Longrightarrow> prints cfg t args"
    by (auto simp: prints_def)
qed

definition printed :: "config \<Rightarrow> byte list \<Rightarrow> arg list \<Rightarrow> byte list" where
  "printed cfg fmt args = (case sprintf fmt args of None \<Rightarrow> [] | Some t \<Rightarrow> cstr_of t)"

lemma printf_prints: "prints cfg fmt args \<Longrightarrow> printf cfg fmt args s = Inr ((), puts (printed cfg fmt args) s)"
  by (force simp: prints_def room_def printf_def printed_def sprintf_def vsprintf_def
      dest: spec [of _ "\<lparr>fs_out = [], fs_args = args, fs_stores = []\<rparr>"])

lemma length_lit [simp]: "length (lit t) = length t"
  by (simp add: lit_def)

lemma plain_prints:
  assumes "120 < CFG_PBSIZE cfg"
  shows "ch CHR ''%'' \<notin> set t \<Longrightarrow> length t < 120 \<Longrightarrow> prints cfg t args"
  using assms by (intro prints_plain) simp_all

lemma ch_eq: "ch c = ch d \<longleftrightarrow> c = d"
proof
  have "(of_char c :: nat) < 256" for c
    using horner_sum_of_bool_2_less [of "[digit0 c, digit1 c, digit2 c, digit3 c, digit4 c, digit5 c, digit6 c, digit7 c]"]
    by (simp only: of_char_def) simp
  then have "unat (of_nat (of_char c) :: byte) = of_char c" for c by (simp add: unat_of_nat)
  moreover assume "ch c = ch d"
  ultimately have "(of_char c :: nat) = of_char d" by (metis of_nat_of_char)
  then show "c = d" by (simp add: inj_of_char [THEN inj_eq])
qed simp

lemma says:
  assumes "120 < CFG_PBSIZE cfg"
  shows "CHR ''%'' \<notin> set t \<Longrightarrow> length t < 120 \<Longrightarrow> printf cfg (lit t) as s = Inr ((), puts (printed cfg (lit t) as) s)"
  by (rule printf_prints, rule plain_prints [OF assms]) (auto simp: lit_def ch_eq simp del: of_char_Char)

lemma room_c:
  assumes "1 \<le> k" "room fmt as (k - 1)"
  shows "room (ch CHR ''%'' # ch CHR ''c'' # fmt) (AInt a # as) k"
proof (rule room_step [OF _ assms])
  fix st :: fmt_state assume "fs_args st = AInt a # as"
  then show "\<exists>st'. vsprintf_loop (ch CHR ''%'' # ch CHR ''c'' # fmt) st = vsprintf_loop fmt st'
      \<and> fs_args st' = as \<and> length (fs_out st') \<le> length (fs_out st) + 1"
    by (intro exI [of _ "st\<lparr>fs_out := fs_out st @ [ucast a], fs_args := as\<rparr>"])
       (simp add: fmt_directive_def fmt_width_def fmt_precision_def fmt_qualifier_def fmt_convert_def is_digit_def
         fmt_char_def blanks_def flag_set_def)
qed

end
