(* ===== verification/Image.thy ===== *)
theory Image
  imports NetBase Printing
begin

text \<open>
  Boot images: the header of \<^verbatim>\<open>include/image.h\<close>, the tests and the listing of
  \<^verbatim>\<open>common/cmd_bootm.c\<close>, and what \<^verbatim>\<open>tools/mkimage.c\<close> writes.

  A field of the header is held as the little-endian machine loads it; the code swaps it where it
  is used.
\<close>

section \<open>The header\<close>

abbreviation (input) IH_OS_INVALID :: byte where "IH_OS_INVALID \<equiv> 0"
abbreviation (input) IH_OS_NETBSD :: byte where "IH_OS_NETBSD \<equiv> 2"
abbreviation (input) IH_OS_LINUX :: byte where "IH_OS_LINUX \<equiv> 5"
abbreviation (input) IH_OS_PPCBOOT :: byte where "IH_OS_PPCBOOT \<equiv> 17"
abbreviation (input) IH_CPU_ARM :: byte where "IH_CPU_ARM \<equiv> 2"
abbreviation (input) IH_TYPE_INVALID :: byte where "IH_TYPE_INVALID \<equiv> 0"
abbreviation (input) IH_TYPE_STANDALONE :: byte where "IH_TYPE_STANDALONE \<equiv> 1"
abbreviation (input) IH_TYPE_KERNEL :: byte where "IH_TYPE_KERNEL \<equiv> 2"
abbreviation (input) IH_TYPE_RAMDISK :: byte where "IH_TYPE_RAMDISK \<equiv> 3"
abbreviation (input) IH_TYPE_MULTI :: byte where "IH_TYPE_MULTI \<equiv> 4"
abbreviation (input) IH_TYPE_FIRMWARE :: byte where "IH_TYPE_FIRMWARE \<equiv> 5"
abbreviation (input) IH_TYPE_SCRIPT :: byte where "IH_TYPE_SCRIPT \<equiv> 6"
abbreviation (input) IH_COMP_NONE :: byte where "IH_COMP_NONE \<equiv> 0"
abbreviation (input) IH_COMP_GZIP :: byte where "IH_COMP_GZIP \<equiv> 1"
abbreviation (input) IH_COMP_BZIP2 :: byte where "IH_COMP_BZIP2 \<equiv> 2"
abbreviation (input) IH_MAGIC :: u32 where "IH_MAGIC \<equiv> 0x27051956"
abbreviation (input) IH_NMLEN :: nat where "IH_NMLEN \<equiv> 32"

record image_header_t =
  ih_magic :: u32
  ih_hcrc :: u32
  ih_time :: u32
  ih_size :: u32
  ih_load :: u32
  ih_ep :: u32
  ih_dcrc :: u32
  ih_os :: byte
  ih_arch :: byte
  ih_type :: byte
  ih_comp :: byte
  ih_name :: "byte list"

abbreviation (input) sizeof_header :: nat where "sizeof_header \<equiv> 64"

text \<open>The bytes of a header in memory, and the header they are.\<close>

definition hdr_bytes :: "image_header_t \<Rightarrow> byte list" where
  "hdr_bytes h =
     st32 (ih_magic h) @ st32 (ih_hcrc h) @ st32 (ih_time h) @ st32 (ih_size h) @ st32 (ih_load h)
     @ st32 (ih_ep h) @ st32 (ih_dcrc h) @ [ih_os h, ih_arch h, ih_type h, ih_comp h] @ ih_name h"

definition hdr_of :: "byte list \<Rightarrow> image_header_t" where
  "hdr_of b =
     \<lparr>ih_magic = ld32 b 0, ih_hcrc = ld32 b 4, ih_time = ld32 b 8, ih_size = ld32 b 12,
      ih_load = ld32 b 16, ih_ep = ld32 b 20, ih_dcrc = ld32 b 24,
      ih_os = b ! 28, ih_arch = b ! 29, ih_type = b ! 30, ih_comp = b ! 31,
      ih_name = take IH_NMLEN (drop 32 b)\<rparr>"

definition header_at :: "mem \<Rightarrow> addr \<Rightarrow> image_header_t" where
  "header_at m addr = hdr_of (bytes_at m addr sizeof_header)"

section \<open>Listing\<close>

definition os_text :: "byte \<Rightarrow> byte list" where
  "os_text x = lit
     (if x = IH_OS_INVALID then ''Invalid OS'' else if x = IH_OS_NETBSD then ''NetBSD''
      else if x = IH_OS_LINUX then ''Linux'' else if x = IH_OS_PPCBOOT then ''ARMBoot''
      else ''Unknown OS'')"

definition arch_text :: "byte \<Rightarrow> byte list" where
  "arch_text x = lit
     (if x = 0 then ''Invalid CPU'' else if x = 1 then ''Alpha'' else if x = IH_CPU_ARM then ''ARM''
      else if x = 3 then ''Intel x86'' else if x = 4 then ''IA64'' else if x = 5 then ''MIPS''
      else if x = 6 then ''MIPS 64 Bit'' else if x = 7 then ''PowerPC'' else if x = 8 then ''IBM S390''
      else if x = 9 then ''SuperH'' else if x = 10 then ''SPARC'' else if x = 11 then ''SPARC 64 Bit''
      else ''Unknown Architecture'')"

definition type_text :: "byte \<Rightarrow> byte list" where
  "type_text x = lit
     (if x = IH_TYPE_INVALID then ''Invalid Image'' else if x = IH_TYPE_STANDALONE then ''Standalone Program''
      else if x = IH_TYPE_KERNEL then ''Kernel Image'' else if x = IH_TYPE_RAMDISK then ''RAMDisk Image''
      else if x = IH_TYPE_MULTI then ''Multi-File Image'' else if x = IH_TYPE_FIRMWARE then ''Firmware''
      else ''Unknown Image'')"

definition comp_text :: "byte \<Rightarrow> byte list" where
  "comp_text x = lit
     (if x = IH_COMP_NONE then ''uncompressed'' else if x = IH_COMP_GZIP then ''gzip compressed''
      else if x = IH_COMP_BZIP2 then ''bzip2 compressed'' else ''unknown compression'')"

definition print_type :: "config \<Rightarrow> image_header_t \<Rightarrow> sys \<Rightarrow> unit result" where
  "print_type cfg hdr s =
     printf cfg (lit ''%s %s %s (%s)'')
       [AStr (Some (arch_text (ih_arch hdr))), AStr (Some (os_text (ih_os hdr))),
        AStr (Some (type_text (ih_type hdr))), AStr (Some (comp_text (ih_comp hdr)))] s"

text \<open>The list of lengths that starts at \<open>a\<close>, up to its zero; None where no zero ever comes.\<close>

definition word_at :: "mem \<Rightarrow> addr \<Rightarrow> u32" where
  "word_at m a = ld32 (bytes_at m a 4) 0"

partial_function (option) len_ptrs :: "mem \<Rightarrow> addr \<Rightarrow> u32 list option" where
  "len_ptrs m a =
     (if word_at m a = 0 then Some [] else Option.bind (len_ptrs m (a + 4)) (\<lambda>ws. Some (word_at m a # ws)))"

primrec print_contents :: "config \<Rightarrow> u32 \<Rightarrow> u32 list \<Rightarrow> sys \<Rightarrow> unit result" where
  "print_contents cfg i [] s = Inr ((), s)"
| "print_contents cfg i (w # ws) s =
     (let len = SWAP32 w in
      sbind (printf cfg (lit ''   Image %d: %8ld Bytes = %ld kB = %ld MB\<newline>'')
        [AInt i, AInt len, AInt (drop_bit 10 len), AInt (drop_bit 20 len)] s) (\<lambda>(_, s).
        print_contents cfg (i + 1) ws s))"

text \<open>
  \<open>print_image_hdr\<close> of a header with what follows it in memory: the lengths, or None where the header
  is the global \<open>header\<close>, behind which nothing belongs to the object.
\<close>

definition print_image_hdr :: "config \<Rightarrow> image_header_t \<Rightarrow> addr option \<Rightarrow> sys \<Rightarrow> unit result" where
  "print_image_hdr cfg hdr at s =
     sbind (printf cfg (lit ''   Image Name:   %.*s\<newline>'') [AInt 32, AStr (Some (cstr_of (ih_name hdr)))] s) (\<lambda>(_, s).
     sbind (printf cfg (lit ''   Image Type:   '') [] s) (\<lambda>(_, s).
     sbind (print_type cfg hdr s) (\<lambda>(_, s).
     sbind (printf cfg (lit ''\<newline>'') [] s) (\<lambda>(_, s).
     sbind (printf cfg (lit ''   Data Size:    %d Bytes = %d kB = %d MB\<newline>'')
       [AInt (SWAP32 (ih_size hdr)), AInt (drop_bit 10 (SWAP32 (ih_size hdr))),
        AInt (drop_bit 20 (SWAP32 (ih_size hdr)))] s) (\<lambda>(_, s).
     sbind (printf cfg (lit ''   Load Address: %08x\<newline>'') [AInt (SWAP32 (ih_load hdr))] s) (\<lambda>(_, s).
     sbind (printf cfg (lit ''   Entry Point:  %08x\<newline>'') [AInt (SWAP32 (ih_ep hdr))] s) (\<lambda>(_, s).
     if ih_type hdr = IH_TYPE_MULTI then
       sbind (printf cfg (lit ''   Contents:\<newline>'') [] s) (\<lambda>(_, s).
         case at of
           None \<Rightarrow> Inl BadAccess
         | Some len_ptr \<Rightarrow>
             (case len_ptrs (memory s) len_ptr of
                None \<Rightarrow> Inl Hang | Some ws \<Rightarrow> print_contents cfg 0 ws s))
     else Inr ((), s))))))))"

section \<open>\<open>iminfo\<close>\<close>

text \<open>The two CRCs: of the header with its own field zero, and of the data.\<close>

definition header_crc :: "image_header_t \<Rightarrow> u32" where
  "header_crc hdr = crc32 0 (Some (hdr_bytes (hdr\<lparr>ih_hcrc := 0\<rparr>)))"

definition data_crc :: "mem \<Rightarrow> addr \<Rightarrow> u32 \<Rightarrow> u32" where
  "data_crc m a len = crc32 0 (Some (bytes_at m a (unat len)))"

definition fails :: "config \<Rightarrow> string \<Rightarrow> image_header_t \<Rightarrow> sys \<Rightarrow> (int \<times> image_header_t) result" where
  "fails cfg msg hdr s = sbind (printf cfg (lit msg) [] s) (\<lambda>(_, s). Inr ((1, hdr), s))"

text \<open>The second component is what is in the global \<open>header\<close> afterwards.\<close>

definition image_info :: "config \<Rightarrow> u32 \<Rightarrow> sys \<Rightarrow> (int \<times> image_header_t) result" where
  "image_info cfg addr s =
     sbind (printf cfg (lit ''\<newline>## Checking Image at %08lx ...\<newline>'') [AInt addr] s) (\<lambda>(_, s).
     let hdr = header_at (memory s) addr in
     if SWAP32 (ih_magic hdr) \<noteq> IH_MAGIC then fails cfg ''   Bad Magic Number\<newline>'' hdr s
     else
       let checksum = SWAP32 (ih_hcrc hdr); hdr = hdr\<lparr>ih_hcrc := 0\<rparr> in
       if header_crc hdr \<noteq> checksum then fails cfg ''   Bad Header Checksum\<newline>'' hdr s
       else
         sbind (print_image_hdr cfg (header_at (memory s) addr) (Some (addr + 64)) s) (\<lambda>(_, s).
         let data = addr + 64; len = SWAP32 (ih_size hdr) in
         sbind (printf cfg (lit ''   Verifying Checksum ... '') [] s) (\<lambda>(_, s).
         if data_crc (memory s) data len \<noteq> SWAP32 (ih_dcrc hdr) then fails cfg ''   Bad Data CRC\<newline>'' hdr s
         else sbind (printf cfg (lit ''OK\<newline>'') [] s) (\<lambda>(_, s). Inr ((0, hdr), s)))))"

primrec iminfo_args :: "config \<Rightarrow> byte list option list \<Rightarrow> nat list \<Rightarrow> image_header_t \<Rightarrow> sys \<Rightarrow> (int \<times> image_header_t) result" where
  "iminfo_args cfg argv [] hdr s = Inr ((0, hdr), s)"
| "iminfo_args cfg argv (arg # args) hdr s =
     sbind (argv_str argv arg) (\<lambda>a.
     sbind (image_info cfg (fst (simple_strtoul a 16)) s) (\<lambda>((rc, hdr), s).
       if rc = 0 then iminfo_args cfg argv args hdr s else Inr ((rc, hdr), s)))"

definition do_iminfo :: "config \<Rightarrow> nat \<Rightarrow> byte list option list \<Rightarrow> image_header_t \<Rightarrow> sys \<Rightarrow> (int \<times> image_header_t) result" where
  "do_iminfo cfg argc argv hdr s =
     (if argc < 2 then image_info cfg (load_addr s) s else iminfo_args cfg argv [1..<argc] hdr s)"

section \<open>\<open>mkimage\<close>\<close>

text \<open>
  The contents of the data files stand for the files; a file is shorter than 4 GB.  \<open>htonl\<close> swaps on
  the little-endian host.  The sizes of a multi-file or script image come first, with a zero.
\<close>

definition mk_sizes :: "byte list list \<Rightarrow> byte list" where
  "mk_sizes files = concat (map (\<lambda>f. st32 (SWAP32 (of_nat (length f)))) files) @ st32 0"

definition copy_file :: "byte list \<Rightarrow> bool \<Rightarrow> byte list" where
  "copy_file f padded =
     (let tail = length f mod 4 in f @ (if padded \<and> tail \<noteq> 0 then replicate (4 - tail) 0 else []))"

fun copy_files :: "byte list list \<Rightarrow> byte list" where
  "copy_files [] = []"
| "copy_files [f] = copy_file f False"
| "copy_files (f # fs) = copy_file f True @ copy_files fs"

definition mk_data :: "byte \<Rightarrow> byte list list \<Rightarrow> byte list" where
  "mk_data opt_type files =
     (if opt_type = IH_TYPE_MULTI \<or> opt_type = IH_TYPE_SCRIPT then mk_sizes files @ copy_files files
      else copy_file (hd files) False)"

definition mkimage ::
  "byte \<Rightarrow> byte \<Rightarrow> byte \<Rightarrow> byte \<Rightarrow> u32 \<Rightarrow> u32 \<Rightarrow> u32 \<Rightarrow> byte list \<Rightarrow> byte list list \<Rightarrow> byte list" where
  "mkimage opt_os opt_arch opt_type opt_comp addr ep mtime name files =
     (let data = mk_data opt_type files;
          checksum = crc32 0 (Some data);
          hdr = \<lparr>ih_magic = SWAP32 IH_MAGIC, ih_hcrc = 0, ih_time = SWAP32 mtime,
                 ih_size = SWAP32 (of_nat (length data)), ih_load = SWAP32 addr, ih_ep = SWAP32 ep,
                 ih_dcrc = SWAP32 checksum, ih_os = opt_os, ih_arch = opt_arch, ih_type = opt_type,
                 ih_comp = opt_comp, ih_name = take IH_NMLEN (cstr_of name @ replicate IH_NMLEN 0)\<rparr>;
          checksum = crc32 0 (Some (hdr_bytes hdr));
          hdr = hdr\<lparr>ih_hcrc := SWAP32 checksum\<rparr>
      in hdr_bytes hdr @ data)"

end
