(* ===== verification/Bootm.thy ===== *)
theory Bootm
  imports Image FlashCmd CmdLine CString Printing
begin

text \<open>
  \<^verbatim>\<open>common/cmd_bootm.c\<close>, \<^verbatim>\<open>common/armlinux.c\<close> and \<^verbatim>\<open>common/cmd_autoscript.c\<close>: starting an image.

  Interrupts are not used (\<open>CONFIG_USE_IRQ\<close> is not defined), so enabling and disabling them does
  nothing.  The global \<open>header\<close> is passed in and out.
\<close>

text \<open>
  The code outside: the kernel and a standalone program, called with what the loader passes; zlib, with
  the memory it reads and writes, the input's place and length, the output's place and room, which gives
  back its code, \<open>next_out\<close> and the memory; whether \<open>malloc\<close> finds that many bytes.
\<close>

record external =
  theKernel :: "u32 \<Rightarrow> u32 \<Rightarrow> u32 \<Rightarrow> sys \<Rightarrow> unit result"
  appl :: "u32 \<Rightarrow> nat \<Rightarrow> byte list option list \<Rightarrow> sys \<Rightarrow> int result"
  inflateInit2 :: int
  inflate :: "mem \<Rightarrow> addr \<Rightarrow> u32 \<Rightarrow> addr \<Rightarrow> u32 \<Rightarrow> int \<times> addr \<times> mem"
  malloc_ok :: "u32 \<Rightarrow> bool"

text \<open>\<open>do_reset\<close> of \<^verbatim>\<open>cpu/sa1100/cpu.c\<close> does not return.\<close>

definition do_reset :: "config \<Rightarrow> sys \<Rightarrow> 'a result" where
  "do_reset cfg s = sbind (printf cfg (lit ''reseting ...\<newline>'') [] s) (\<lambda>_. Inl Gone)"

section \<open>\<open>gunzip\<close>\<close>

text \<open>\<^verbatim>\<open>while (src[i++] != 0);\<close>\<close>

definition skip_string :: "mem \<Rightarrow> addr \<Rightarrow> int \<Rightarrow> stop + int" where
  "skip_string m src i =
     (case strlen m (src + of_int i) of None \<Rightarrow> Inl Hang | Some k \<Rightarrow> Inr (i + uint k + 1))"

definition gunzip_header :: "mem \<Rightarrow> addr \<Rightarrow> byte \<Rightarrow> stop + int" where
  "gunzip_header m src flags =
     (let i = (if flags AND 4 \<noteq> 0 then 12 + uint (m (src + 10)) + 256 * uint (m (src + 11)) else 10) in
      sbind (if flags AND 8 \<noteq> 0 then skip_string m src i else Inr i) (\<lambda>i.
      sbind (if flags AND 0x10 \<noteq> 0 then skip_string m src i else Inr i) (\<lambda>i.
        Inr (if flags AND 2 \<noteq> 0 then i + 2 else i))))"

text \<open>The result: 0 or -1, and the length in \<open>*lenp\<close>.\<close>

definition gunzip :: "config \<Rightarrow> external \<Rightarrow> addr \<Rightarrow> u32 \<Rightarrow> addr \<Rightarrow> u32 \<Rightarrow> sys \<Rightarrow> (int \<times> u32) result" where
  "gunzip cfg ext dst dstlen src len s =
     (let m = memory s; flags = m (src + 3) in
      if m (src + 2) \<noteq> 8 \<or> flags AND 0xE0 \<noteq> 0 then
        sbind (printf cfg (lit ''Error: Bad gzipped data\<newline>'') [] s) (\<lambda>(_, s). Inr ((-1, len), s))
      else
        sbind (gunzip_header m src flags) (\<lambda>i.
        if i \<ge> sint len then
          sbind (printf cfg (lit ''Error: gunzip out of data in header\<newline>'') [] s) (\<lambda>(_, s). Inr ((-1, len), s))
        else if inflateInit2 ext \<noteq> 0 then
          sbind (printf cfg (lit ''Error: inflateInit2() returned %d\<newline>'') [AInt (of_int (inflateInit2 ext))] s)
            (\<lambda>(_, s). Inr ((-1, len), s))
        else
          let (r, next_out, m) = inflate ext m (src + of_int i) (len - of_int i) dst dstlen;
              s = s\<lparr>memory := m\<rparr>
          in
          if r \<noteq> 0 \<and> r \<noteq> 1 then
            sbind (printf cfg (lit ''Error: inflate() returned %d\<newline>'') [AInt (of_int r)] s)
              (\<lambda>(_, s). Inr ((-1, len), s))
          else Inr ((0, next_out - dst), s)))"

section \<open>The kernel's parameters\<close>

abbreviation (input) ATAG_NONE :: u32 where "ATAG_NONE \<equiv> 0"
abbreviation (input) ATAG_CORE :: u32 where "ATAG_CORE \<equiv> 0x54410001"
abbreviation (input) ATAG_MEM :: u32 where "ATAG_MEM \<equiv> 0x54410002"
abbreviation (input) ATAG_INITRD :: u32 where "ATAG_INITRD \<equiv> 0x54410005"
abbreviation (input) ATAG_CMDLINE :: u32 where "ATAG_CMDLINE \<equiv> 0x54410009"

text \<open>A tag is its size in words, its kind and its data; \<open>tag_next\<close> reads the size back.\<close>

definition put32 :: "addr \<Rightarrow> u32 \<Rightarrow> mem \<Rightarrow> mem" where
  "put32 a w m = store_bytes m a (st32 w)"

definition tag_next :: "mem \<Rightarrow> addr \<Rightarrow> addr" where
  "tag_next m t = t + 4 * word_at m t"

definition setup_start_tag :: "addr \<Rightarrow> mem \<Rightarrow> mem \<times> addr" where
  "setup_start_tag params m =
     (let m = put32 (params + 4) ATAG_CORE m;
          m = put32 params 5 m;
          m = put32 (params + 8) 0 m;
          m = put32 (params + 12) 0 m;
          m = put32 (params + 16) 0 m
      in (m, tag_next m params))"

primrec setup_memory_tags :: "(u32 \<times> u32) list \<Rightarrow> mem \<times> addr \<Rightarrow> mem \<times> addr" where
  "setup_memory_tags [] mp = mp"
| "setup_memory_tags (bank # banks) mp =
     setup_memory_tags banks
       (case (bank, mp) of ((start, sz), (m, params)) \<Rightarrow>
          let m = put32 (params + 4) ATAG_MEM m;
              m = put32 params 4 m;
              m = put32 (params + 12) start m;
              m = put32 (params + 8) sz m
          in (m, tag_next m params))"

definition setup_commandline_tag :: "byte list \<Rightarrow> mem \<times> addr \<Rightarrow> mem \<times> addr" where
  "setup_commandline_tag commandline mp =
     (case mp of (m, params) \<Rightarrow>
        let p = dropWhile (\<lambda>c. c = ch CHR '' '') commandline in
        if p = [] then (m, params)
        else
          let m = put32 (params + 4) ATAG_CMDLINE m;
              m = put32 params (drop_bit 2 (8 + of_nat (length p) + 1 + 4)) m;
              m = store_bytes m (params + 8) (p @ [0])
          in (m, tag_next m params))"

definition setup_initrd_tag :: "u32 \<Rightarrow> u32 \<Rightarrow> mem \<times> addr \<Rightarrow> mem \<times> addr" where
  "setup_initrd_tag initrd_start initrd_end mp =
     (case mp of (m, params) \<Rightarrow>
        let m = put32 (params + 4) ATAG_INITRD m;
            m = put32 params 4 m;
            m = put32 (params + 8) initrd_start m;
            m = put32 (params + 12) (initrd_end - initrd_start) m
        in (m, tag_next m params))"

definition setup_end_tag :: "mem \<times> addr \<Rightarrow> mem" where
  "setup_end_tag mp = (case mp of (m, params) \<Rightarrow> put32 params 0 (put32 (params + 4) ATAG_NONE m))"

section \<open>\<open>boot_linux\<close>\<close>

text \<open>The ramdisk given as an argument: its place, its length, and its header, now in \<open>header\<close>.\<close>

definition load_ramdisk :: "config \<Rightarrow> u32 \<Rightarrow> bool \<Rightarrow> sys \<Rightarrow> (u32 \<times> u32 \<times> image_header_t) result" where
  "load_ramdisk cfg addr verify s =
     sbind (printf cfg (lit ''## Loading Ramdisk Image at %08lx ...\<newline>'') [AInt addr] s) (\<lambda>(_, s).
     let hdr = header_at (memory s) addr in
     if SWAP32 (ih_magic hdr) \<noteq> IH_MAGIC then
       sbind (printf cfg (lit ''Bad Magic Number\<newline>'') [] s) (\<lambda>(_, s). do_reset cfg s)
     else
       let checksum = SWAP32 (ih_hcrc hdr); hdr = hdr\<lparr>ih_hcrc := 0\<rparr> in
       if header_crc hdr \<noteq> checksum then
         sbind (printf cfg (lit ''Bad Header Checksum\<newline>'') [] s) (\<lambda>(_, s). do_reset cfg s)
       else
         sbind (print_image_hdr cfg hdr None s) (\<lambda>(_, s).
         let data = addr + 64; len = SWAP32 (ih_size hdr) in
         sbind
           (if verify then
              sbind (printf cfg (lit ''   Verifying Checksum ... '') [] s) (\<lambda>(_, s).
              if data_crc (memory s) data len \<noteq> SWAP32 (ih_dcrc hdr) then
                sbind (printf cfg (lit ''Bad Data CRC\<newline>'') [] s) (\<lambda>(_, s). do_reset cfg s)
              else printf cfg (lit ''OK\<newline>'') [] s)
            else Inr ((), s)) (\<lambda>(_, s).
         if ih_os hdr \<noteq> IH_OS_LINUX \<or> ih_arch hdr \<noteq> IH_CPU_ARM \<or> ih_type hdr \<noteq> IH_TYPE_RAMDISK then
           sbind (printf cfg (lit ''No Linux ARM Ramdisk Image\<newline>'') [] s) (\<lambda>(_, s). do_reset cfg s)
         else Inr ((data, len, hdr), s))))"

text \<open>The second image of a multi-file image.\<close>

definition multi_ramdisk :: "mem \<Rightarrow> addr \<Rightarrow> stop + (u32 \<times> u32)" where
  "multi_ramdisk m len_ptr =
     (case len_ptrs m (len_ptr + 4) of
        None \<Rightarrow> Inl Hang
      | Some ws \<Rightarrow>
          let tail = SWAP32 (word_at m len_ptr) mod 4;
              data = len_ptr + 8 + 4 * of_nat (length ws) + SWAP32 (word_at m len_ptr);
              data = (if tail \<noteq> 0 then data + (4 - tail) else data)
          in Inr (data, SWAP32 (word_at m (len_ptr + 4))))"

text \<open>Without \<open>bootargs\<close> the command line is the string at address 0.\<close>

definition null_string :: "mem \<Rightarrow> stop + byte list" where
  "null_string m = (case strlen m 0 of None \<Rightarrow> Inl Hang | Some k \<Rightarrow> Inr (bytes_at m 0 (unat k)))"

definition boot_linux ::
  "config \<Rightarrow> external \<Rightarrow> nat \<Rightarrow> byte list option list \<Rightarrow> addr \<Rightarrow> bool \<Rightarrow> image_header_t \<Rightarrow> sys
    \<Rightarrow> image_header_t result" where
  "boot_linux cfg ext argc argv len_ptr verify hdr s =
     sbind (getenv cfg s (lit ''bootargs'')) (\<lambda>(commandline, s).
     sbind
       (if argc \<ge> 3 then
          sbind (argv_str argv 2) (\<lambda>a. load_ramdisk cfg (fst (simple_strtoul a 16)) verify s)
        else if ih_type hdr = IH_TYPE_MULTI \<and> word_at (memory s) (len_ptr + 4) \<noteq> 0 then
          sbind (multi_ramdisk (memory s) len_ptr) (\<lambda>(data, len). Inr ((data, len, hdr), s))
        else Inr ((0, 0, hdr), s)) (\<lambda>((data, len, hdr), s).
     sbind
       (if data \<noteq> 0 then
          sbind (printf cfg (lit ''   Loading Ramdisk to %08lx, end %08lx ... '') [AInt data, AInt (data + len)] s)
            (\<lambda>(_, s).
          let s = s\<lparr>memory := fst (memmove (memory s) data data len)\<rparr> in
          sbind (printf cfg (lit ''OK\<newline>'') [] s) (\<lambda>(_, s). Inr ((data, data + len), s)))
        else Inr ((0, 0), s)) (\<lambda>((initrd_start, initrd_end), s).
     let mp = setup_memory_tags (bi_dram s) (setup_start_tag (bi_boot_params s) (memory s)) in
     sbind (case commandline of None \<Rightarrow> null_string (fst mp) | Some t \<Rightarrow> Inr (cstr_of t)) (\<lambda>commandline.
     let m = setup_end_tag (setup_initrd_tag initrd_start initrd_end (setup_commandline_tag commandline mp));
         s = s\<lparr>memory := m\<rparr>
     in
     sbind (printf cfg (lit ''\<newline>Starting kernel ...\<newline>\<newline>'') [] s) (\<lambda>(_, s).
     sbind (theKernel ext (SWAP32 (ih_ep hdr)) 0 (bi_arch_number s) s) (\<lambda>(_, s). Inr (hdr, s)))))))"

section \<open>\<open>bootm\<close>\<close>

text \<open>
  The type of the image: its name, the data's place and length.  In a multi-file image the kernel
  is the first one, behind the list of lengths.
\<close>

definition kernel_part :: "mem \<Rightarrow> image_header_t \<Rightarrow> addr \<Rightarrow> u32 \<Rightarrow> stop + (string \<times> addr \<times> u32) option" where
  "kernel_part m hdr data len =
     (if ih_type hdr = IH_TYPE_STANDALONE then Inr (Some (''Standalone Application'', data, len))
      else if ih_type hdr = IH_TYPE_KERNEL then Inr (Some (''Kernel Image'', data, len))
      else if ih_type hdr = IH_TYPE_MULTI then
        (case len_ptrs m (data + 4) of
           None \<Rightarrow> Inl Hang
         | Some ws \<Rightarrow> Inr (Some (''Multi-File Image'', data + 8 + 4 * of_nat (length ws), SWAP32 (word_at m data))))
      else Inr None)"

text \<open>Loading; None where the compression is not known.\<close>

definition load_image ::
  "config \<Rightarrow> external \<Rightarrow> image_header_t \<Rightarrow> string \<Rightarrow> addr \<Rightarrow> u32 \<Rightarrow> sys \<Rightarrow> bool result" where
  "load_image cfg ext hdr name data len s =
     (if ih_comp hdr = IH_COMP_NONE then
        sbind (printf cfg (lit ''   Loading %s ... '') [AStr (Some (lit name))] s) (\<lambda>(_, s).
          Inr (True, s\<lparr>memory := fst (memcpy (memory s) (SWAP32 (ih_load hdr)) data len)\<rparr>))
      else if ih_comp hdr = IH_COMP_GZIP then
        sbind (printf cfg (lit ''   Uncompressing %s ... '') [AStr (Some (lit name))] s) (\<lambda>(_, s).
        sbind (gunzip cfg ext (SWAP32 (ih_load hdr)) 0x400000 data len s) (\<lambda>((r, len), s).
          if r \<noteq> 0 then
            sbind (printf cfg (lit ''GUNZIP ERROR - must RESET board to recover\<newline>'') [] s) (\<lambda>(_, s). do_reset cfg s)
          else Inr (True, s)))
      else
        sbind (printf cfg (lit ''Unimplemented compression type %d\<newline>'') [AInt (ucast (ih_comp hdr))] s)
          (\<lambda>(_, s). Inr (False, s)))"

text \<open>What follows the tests: loading, the program, and in every case \<open>boot_linux\<close>.\<close>

definition start_image ::
  "config \<Rightarrow> external \<Rightarrow> nat \<Rightarrow> byte list option list \<Rightarrow> addr \<Rightarrow> bool \<Rightarrow> string \<Rightarrow> addr \<Rightarrow> u32
    \<Rightarrow> image_header_t \<Rightarrow> sys \<Rightarrow> (int \<times> image_header_t) result" where
  "start_image cfg ext argc argv len_ptr verify name data len hdr s =
     sbind (load_image cfg ext hdr name data len s) (\<lambda>(ok, s).
     if \<not> ok then Inr ((1, hdr), s)
     else
       sbind (printf cfg (lit ''OK\<newline>'') [] s) (\<lambda>(_, s).
       sbind
         (if ih_type hdr = IH_TYPE_STANDALONE then appl ext (SWAP32 (ih_ep hdr)) (argc - 1) (tl argv) s
          else Inr (0, s)) (\<lambda>(_, s).
       sbind (boot_linux cfg ext argc argv len_ptr verify hdr s) (\<lambda>(hdr, s).
       sbind (printf cfg (lit ''\<newline>## Control returned to monitor\<newline>'') [] s) (\<lambda>(_, s). Inr ((0, hdr), s))))))"

text \<open>An image in flash is copied to \<open>load_addr\<close>; the result is where it is then.\<close>

definition from_flash :: "config \<Rightarrow> u32 \<Rightarrow> image_header_t \<Rightarrow> sys \<Rightarrow> u32 result" where
  "from_flash cfg addr hdr s =
     (if addr2info addr s \<noteq> None then
        sbind (printf cfg (lit ''## Copy image from flash %08lx to ram %08lx ...\<newline>'') [AInt addr, AInt (load_addr s)] s)
          (\<lambda>(_, s). Inr (load_addr s,
             s\<lparr>memory := fst (memcpy (memory s) (load_addr s) addr (SWAP32 (ih_size hdr) + 64))\<rparr>))
      else Inr (addr, s))"

definition do_bootm ::
  "config \<Rightarrow> external \<Rightarrow> byte list \<Rightarrow> nat \<Rightarrow> byte list option list \<Rightarrow> sys \<Rightarrow> (int \<times> image_header_t) result" where
  "do_bootm cfg ext cmdname argc argv s =
     sbind (getenv cfg s (lit ''verify'')) (\<lambda>(p, s).
     let verify = (case p of None \<Rightarrow> True | Some t \<Rightarrow> hd0 t \<noteq> ch CHR ''n'') in
     sbind (if argc < 2 then Inr (load_addr s)
            else sbind (argv_str argv 1) (\<lambda>a. Inr (fst (simple_strtoul a 16)))) (\<lambda>addr.
     sbind (printf cfg (lit ''## Booting image at %08lx ...\<newline>'') [AInt addr] s) (\<lambda>(_, s).
     let hdr = header_at (memory s) addr in
     if SWAP32 (ih_magic hdr) \<noteq> IH_MAGIC then fails cfg ''Bad Magic Number\<newline>'' hdr s
     else
       let checksum = SWAP32 (ih_hcrc hdr); hdr = hdr\<lparr>ih_hcrc := 0\<rparr> in
       if header_crc hdr \<noteq> checksum then fails cfg ''Bad Header Checksum\<newline>'' hdr s
       else
         sbind (from_flash cfg addr hdr s) (\<lambda>(addr, s).
         sbind (print_image_hdr cfg (header_at (memory s) addr) (Some (addr + 64)) s) (\<lambda>(_, s).
         let data = addr + 64; len = SWAP32 (ih_size hdr) in
         sbind
           (if verify then
              sbind (printf cfg (lit ''   Verifying Checksum ... '') [] s) (\<lambda>(_, s).
              if data_crc (memory s) data len \<noteq> SWAP32 (ih_dcrc hdr) then
                sbind (printf cfg (lit ''Bad Data CRC\<newline>'') [] s) (\<lambda>(_, s). Inr (False, s))
              else sbind (printf cfg (lit ''OK\<newline>'') [] s) (\<lambda>(_, s). Inr (True, s)))
            else Inr (True, s)) (\<lambda>(ok, s).
         if \<not> ok then Inr ((1, hdr), s)
         else if ih_arch hdr \<noteq> IH_CPU_ARM then fails cfg ''Unsupported Architecture\<newline>'' hdr s
         else
           sbind (kernel_part (memory s) hdr data len) (\<lambda>part.
           case part of
             None \<Rightarrow>
               sbind (printf cfg (lit ''Wrong Image Type for %s command\<newline>'') [AStr (Some cmdname)] s)
                 (\<lambda>(_, s). Inr ((1, hdr), s))
           | Some (name, kdata, klen) \<Rightarrow>
               start_image cfg ext argc argv data verify name kdata klen hdr s)))))))"

section \<open>\<open>autoscr\<close>\<close>

text \<open>
  The length in front of the script is used as it is loaded.  The list of lengths is skipped, the
  script copied behind a \<open>malloc\<close>, its line feeds exchanged for semicolons.
\<close>

definition autoscript ::
  "config \<Rightarrow> external \<Rightarrow> cmd_tbl_t list \<Rightarrow> exec \<Rightarrow> u32 \<Rightarrow> sys \<Rightarrow> int result" where
  "autoscript cfg ext tbl exec addr s =
     (let hdr = header_at (memory s) addr;
          fail = (\<lambda>msg. sbind (printf cfg (lit msg) [] s) (\<lambda>(_, s). Inr (1, s)))
      in
      if SWAP32 (ih_magic hdr) \<noteq> IH_MAGIC then fail ''Bad magic number\<newline>''
      else
        let crc = SWAP32 (ih_hcrc hdr); hdr = hdr\<lparr>ih_hcrc := 0\<rparr> in
        if header_crc hdr \<noteq> crc then fail ''Bad header crc\<newline>''
        else
          let data = addr + 64; len = SWAP32 (ih_size hdr) in
          if data_crc (memory s) data len \<noteq> SWAP32 (ih_dcrc hdr) then fail ''Bad data crc\<newline>''
          else if ih_type hdr \<noteq> IH_TYPE_SCRIPT then fail ''Bad image type\<newline>''
          else
            let len = word_at (memory s) data in
            if len = 0 then run_command cfg tbl exec None 0 s
            else if \<not> malloc_ok ext (len + 1) then Inr (1, s)
            else
              (case len_ptrs (memory s) data of
                 None \<Rightarrow> Inl Hang
               | Some ws \<Rightarrow>
                   let text = bytes_at (memory s) (data + 4 * of_nat (length ws) + 4) (unat len);
                       cmd = map (\<lambda>c. if c = 10 then ch CHR '';'' else c) text
                   in run_command cfg tbl exec (Some (cstr_of cmd)) 0 s))"

definition do_autoscript ::
  "config \<Rightarrow> external \<Rightarrow> cmd_tbl_t list \<Rightarrow> exec \<Rightarrow> nat \<Rightarrow> byte list option list \<Rightarrow> sys \<Rightarrow> int result" where
  "do_autoscript cfg ext tbl exec argc argv s =
     sbind (if argc < 2 then Inr 0xC0200000
            else sbind (argv_str argv 1) (\<lambda>a. Inr (fst (simple_strtoul a 16)))) (\<lambda>addr.
     sbind (printf cfg (lit ''## Executing script at %08lx\<newline>'') [AInt addr] s) (\<lambda>(_, s).
       autoscript cfg ext tbl exec addr s))"

end
