(* ===== verification/BootSpec.thy ===== *)
theory BootSpec
  imports Bootm
begin

text \<open>
  What starting an image does: the images of \<open>mkimage\<close> are accepted, damaged ones are not, the kernel
  is loaded and finds its parameters.
\<close>

section \<open>Headers\<close>

lemma byte_masks:
  "(0x000000FF :: u32) = mask 8" "(0x0000FF00 :: u32) = push_bit 8 (mask 8)"
  "(0x00FF0000 :: u32) = push_bit 16 (mask 8)" "(0xFF000000 :: u32) = push_bit 24 (mask 8)"
  by (simp_all add: mask_eq_exp_minus_1 push_bit_eq_mult)

lemma bit_SWAP32: "k < 32 \<Longrightarrow> bit (SWAP32 x) k =
  (if k < 8 then bit x (k + 24) else if k < 16 then bit x (k + 8) else if k < 24 then bit x (k - 8) else bit x (k - 24))"
  unfolding SWAP32_def byte_masks
  by (cases "k < 8"; cases "k < 16"; cases "k < 24") (auto simp: bit_simps ac_simps)

lemma SWAP32_twice [simp]: "SWAP32 (SWAP32 x) = x"
proof (rule bit_word_eqI)
  fix k :: nat assume "k < LENGTH(32)"
  then show "bit (SWAP32 (SWAP32 x)) k = bit x k"
    by (cases "k < 8"; cases "k < 16"; cases "k < 24") (auto simp: bit_SWAP32)
qed

lemma SWAP32_0 [simp]: "SWAP32 0 = 0"
  by (simp add: SWAP32_def)

lemma SWAP32_eq_0 [simp]: "SWAP32 x = 0 \<longleftrightarrow> x = 0"
  by (metis SWAP32_0 SWAP32_twice)

lemma length_hdr_bytes: "length (ih_name h) = 32 \<Longrightarrow> length (hdr_bytes h) = 64"
  by (simp add: hdr_bytes_def)

lemma hdr_of_bytes:
  assumes "length (ih_name h) = 32"
  shows "hdr_of (hdr_bytes h) = h"
proof -
  let ?b = "hdr_bytes h"
  let ?r = "[ih_os h, ih_arch h, ih_type h, ih_comp h] @ ih_name h"
  have "ld32 (p @ st32 x @ q) (length p) = x" for p x q
    using ld32_skip [of p "length p" "st32 x @ q" 0] ld32_st32 by simp
  note ld = this [where p = "[]", simplified] this [where p = "st32 a" for a, simplified]
    this [where p = "st32 a @ st32 b" for a b, simplified]
    this [where p = "st32 a @ st32 b @ st32 c" for a b c, simplified]
    this [where p = "st32 a @ st32 b @ st32 c @ st32 d" for a b c d, simplified]
    this [where p = "st32 a @ st32 b @ st32 c @ st32 d @ st32 e" for a b c d e, simplified]
    this [where p = "st32 a @ st32 b @ st32 c @ st32 d @ st32 e @ st32 f" for a b c d e f, simplified]
  show ?thesis
    using assms by (simp add: hdr_of_def hdr_bytes_def ld nth_append)
qed

lemma header_at_bytes: "bytes_at m a 64 = hdr_bytes h \<Longrightarrow> length (ih_name h) = 32 \<Longrightarrow> header_at m a = h"
  by (simp add: header_at_def hdr_of_bytes)

text \<open>The header \<open>mkimage\<close> writes.\<close>

definition mk_header :: "byte \<Rightarrow> byte \<Rightarrow> byte \<Rightarrow> byte \<Rightarrow> u32 \<Rightarrow> u32 \<Rightarrow> u32 \<Rightarrow> byte list \<Rightarrow> byte list \<Rightarrow> image_header_t" where
  "mk_header os arch type cmp ad ep time name data =
     \<lparr>ih_magic = SWAP32 IH_MAGIC, ih_hcrc = 0, ih_time = SWAP32 time,
      ih_size = SWAP32 (of_nat (length data)), ih_load = SWAP32 ad, ih_ep = SWAP32 ep,
      ih_dcrc = SWAP32 (crc32 0 (Some data)), ih_os = os, ih_arch = arch, ih_type = type,
      ih_comp = cmp, ih_name = take 32 (cstr_of name @ replicate 32 0)\<rparr>"

definition image_at :: "mem \<Rightarrow> addr \<Rightarrow> image_header_t \<Rightarrow> byte list \<Rightarrow> bool" where
  "image_at m a h data =
     (header_at m a = h\<lparr>ih_hcrc := SWAP32 (header_crc h)\<rparr> \<and> bytes_at m (a + 64) (length data) = data
      \<and> ih_magic h = SWAP32 IH_MAGIC \<and> ih_hcrc h = 0 \<and> ih_size h = SWAP32 (of_nat (length data))
      \<and> ih_dcrc h = SWAP32 (crc32 0 (Some data)) \<and> length data < 2 ^ 32)"

lemma mkimage_parts:
  assumes "h = mk_header os arch type cmp ad ep time name (mk_data type files)"
  shows "mkimage os arch type cmp ad ep time name files = hdr_bytes (h\<lparr>ih_hcrc := SWAP32 (header_crc h)\<rparr>) @ mk_data type files"
    "length (hdr_bytes (h\<lparr>ih_hcrc := SWAP32 (header_crc h)\<rparr>)) = 64"
    "bytes_at m a 64 = hdr_bytes (h\<lparr>ih_hcrc := SWAP32 (header_crc h)\<rparr>) \<Longrightarrow> header_at m a = h\<lparr>ih_hcrc := SWAP32 (header_crc h)\<rparr>"
proof -
  have n: "length (ih_name (h\<lparr>ih_hcrc := SWAP32 (header_crc h)\<rparr>)) = 32" by (simp add: assms mk_header_def)
  have "header_crc h = crc32 0 (Some (hdr_bytes h))" by (simp add: header_crc_def assms mk_header_def)
  then show "mkimage os arch type cmp ad ep time name files = hdr_bytes (h\<lparr>ih_hcrc := SWAP32 (header_crc h)\<rparr>) @ mk_data type files"
    by (simp add: mkimage_def assms mk_header_def Let_def)
  show "length (hdr_bytes (h\<lparr>ih_hcrc := SWAP32 (header_crc h)\<rparr>)) = 64" by (rule length_hdr_bytes [OF n])
  show "bytes_at m a 64 = hdr_bytes (h\<lparr>ih_hcrc := SWAP32 (header_crc h)\<rparr>) \<Longrightarrow> header_at m a = h\<lparr>ih_hcrc := SWAP32 (header_crc h)\<rparr>"
    by (rule header_at_bytes [OF _ n])
qed

lemma mkimage_at:
  assumes "img = mkimage os arch type cmp ad ep time name files" "bytes_at m a (length img) = img"
    "length img < 2 ^ 32"
  shows "image_at m a (mk_header os arch type cmp ad ep time name (mk_data type files)) (mk_data type files)"
proof -
  let ?d = "mk_data type files"
  let ?h = "mk_header os arch type cmp ad ep time name ?d"
  let ?k = "?h\<lparr>ih_hcrc := SWAP32 (header_crc ?h)\<rparr>"
  note q = mkimage_parts [of ?h os arch type cmp ad ep time name files, OF refl]
  have i: "img = hdr_bytes ?k @ ?d" unfolding assms(1) by (rule q(1))
  then have l: "length img = 64 + length ?d" using q(2) by simp
  have "bytes_at m a 64 @ bytes_at m (a + of_nat 64) (length ?d) = hdr_bytes ?k @ ?d"
    using assms(2) unfolding l bytes_at_append by (simp only: i)
  then have "bytes_at m a 64 = hdr_bytes ?k" "bytes_at m (a + 64) (length ?d) = ?d"
    using q(2) by simp_all
  with q(3) assms(3) l show ?thesis by (simp add: image_at_def mk_header_def)
qed

lemma header_crcs:
  assumes "header_at m a = h\<lparr>ih_hcrc := SWAP32 (header_crc h)\<rparr>" "ih_magic h = SWAP32 IH_MAGIC" "ih_hcrc h = 0"
  shows "header_crc (header_at m a\<lparr>ih_hcrc := 0\<rparr>) = header_crc h" "SWAP32 (ih_hcrc (header_at m a)) = header_crc h"
    "header_at m a\<lparr>ih_hcrc := 0\<rparr> = h" "SWAP32 (ih_magic (header_at m a)) = IH_MAGIC"
  using assms by (simp_all add: header_crc_def)

lemma image_at_crcs:
  assumes "image_at m a h data"
  shows "header_crc (header_at m a\<lparr>ih_hcrc := 0\<rparr>) = header_crc h" "SWAP32 (ih_hcrc (header_at m a)) = header_crc h"
    "header_at m a\<lparr>ih_hcrc := 0\<rparr> = h" "SWAP32 (ih_magic (header_at m a)) = IH_MAGIC"
    "data_crc m (a + 64) (SWAP32 (ih_size h)) = SWAP32 (ih_dcrc h)"
proof -
  from assms have h: "header_at m a = h\<lparr>ih_hcrc := SWAP32 (header_crc h)\<rparr>" "ih_magic h = SWAP32 IH_MAGIC" "ih_hcrc h = 0"
    by (simp_all add: image_at_def)
  show "header_crc (header_at m a\<lparr>ih_hcrc := 0\<rparr>) = header_crc h"
    "SWAP32 (ih_hcrc (header_at m a)) = header_crc h" "header_at m a\<lparr>ih_hcrc := 0\<rparr> = h"
    "SWAP32 (ih_magic (header_at m a)) = IH_MAGIC"
    by (fact header_crcs [OF h])+
  have "unat (of_nat (length data) :: u32) = length data" using assms by (simp add: image_at_def unat_of_nat)
  with assms show "data_crc m (a + 64) (SWAP32 (ih_size h)) = SWAP32 (ih_dcrc h)"
    by (simp add: image_at_def data_crc_def)
qed

section \<open>What is printed\<close>

lemma length_texts:
  "length (arch_text x) \<le> 20" "length (os_text x) \<le> 20" "length (type_text x) \<le> 20" "length (comp_text x) \<le> 20"
  by (simp_all add: arch_text_def os_text_def type_text_def comp_text_def lit_def)

lemma boot_prints:
  assumes "120 < CFG_PBSIZE cfg"
  shows "prints cfg (lit ''\<newline>## Checking Image at %08lx ...\<newline>'') [AInt a]"
    "prints cfg (lit ''## Booting image at %08lx ...\<newline>'') [AInt a]"
    "prints cfg (lit ''## Copy image from flash %08lx to ram %08lx ...\<newline>'') [AInt a, AInt b]"
    "prints cfg (lit ''## Loading Ramdisk Image at %08lx ...\<newline>'') [AInt a]"
    "prints cfg (lit ''   Loading Ramdisk to %08lx, end %08lx ... '') [AInt a, AInt b]"
    "prints cfg (lit ''   Data Size:    %d Bytes = %d kB = %d MB\<newline>'') [AInt a, AInt b, AInt c]"
    "prints cfg (lit ''   Load Address: %08x\<newline>'') [AInt a]"
    "prints cfg (lit ''   Entry Point:  %08x\<newline>'') [AInt a]"
    "prints cfg (lit ''   Image %d: %8ld Bytes = %ld kB = %ld MB\<newline>'') [AInt a, AInt b, AInt c, AInt d]"
  by (unfold lit_def list.map, (rule prints_room [OF _ assms],
      (rule room_Nil | rule room_ints, simp, simp, simp, simp | rule room_char, simp, simp)+)+)

lemma name_prints:
  assumes "120 < CFG_PBSIZE cfg"
  shows "prints cfg (lit ''   Image Name:   %.*s\<newline>'') [AInt 32, AStr (Some t)]"
  by (rule prints_room [OF _ assms], unfold lit_def list.map, (rule room_char, simp, simp)+,
      rule room_prec [where j = 32], simp, simp, simp, (rule room_Nil | rule room_char, simp, simp)+)

lemma text_prints:
  assumes "120 < CFG_PBSIZE cfg" "length t \<le> 30"
  shows "prints cfg (lit ''   Loading %s ... '') [AStr (Some t)]"
  by (rule prints_room [OF _ assms(1)], unfold lit_def list.map, (rule room_char, simp, simp)+,
      rule room_s [OF assms(2)], simp, simp, (rule room_Nil | rule room_char, simp, simp)+)

lemma type_prints:
  assumes "120 < CFG_PBSIZE cfg" "length t \<le> 20" "length u \<le> 20" "length v \<le> 20" "length w \<le> 20"
  shows "prints cfg (lit ''%s %s %s (%s)'') [AStr (Some t), AStr (Some u), AStr (Some v), AStr (Some w)]"
  by (rule prints_room [OF _ assms(1)], unfold lit_def list.map,
      rule room_s [OF assms(2)], simp, simp, rule room_char, simp, simp,
      rule room_s [OF assms(3)], simp, simp, rule room_char, simp, simp,
      rule room_s [OF assms(4)], simp, simp, (rule room_char, simp, simp)+,
      rule room_s [OF assms(5)], simp, simp, (rule room_Nil | rule room_char, simp, simp)+)

lemma print_contents_out:
  assumes "120 < CFG_PBSIZE cfg"
  shows "\<exists>u. print_contents cfg i ws s = Inr ((), s\<lparr>con_out := u\<rparr>)"
proof (induction ws arbitrary: i s)
  case Nil show ?case by (rule exI [of _ "con_out s"]) simp
next
  case (Cons w ws)
  have "\<exists>u. print_contents cfg j ws (s\<lparr>con_out := c\<rparr>) = Inr ((), s\<lparr>con_out := u\<rparr>)" for j c
    using Cons.IH [of j "s\<lparr>con_out := c\<rparr>"] by simp
  then show ?case by (simp add: Let_def printf_prints boot_prints [OF assms] puts_out)
qed

lemma print_image_out:
  assumes "120 < CFG_PBSIZE cfg"
    and "ih_type hdr = IH_TYPE_MULTI \<Longrightarrow> \<exists>a ws. at = Some a \<and> len_ptrs (memory s) a = Some ws"
  shows "\<exists>u. print_image_hdr cfg hdr at s = Inr ((), s\<lparr>con_out := u\<rparr>)"
proof -
  have c: "\<exists>u. print_contents cfg j ws (s\<lparr>con_out := c\<rparr>) = Inr ((), s\<lparr>con_out := u\<rparr>)" for j c ws
    using print_contents_out [OF assms(1), of j ws "s\<lparr>con_out := c\<rparr>"] by simp
  show ?thesis
  proof (cases "ih_type hdr = IH_TYPE_MULTI")
    case True
    then obtain a ws where "at = Some a" "len_ptrs (memory s) a = Some ws" using assms(2) by blast
    with True c show ?thesis
      by (simp add: print_image_hdr_def print_type_def says printf_prints boot_prints name_prints type_prints
          length_texts assms(1) puts_out)
  next
    case False
    then show ?thesis
      by (simp add: print_image_hdr_def print_type_def says printf_prints boot_prints name_prints type_prints
          length_texts assms(1) puts_out) (rule exI, rule refl)
  qed
qed

section \<open>Lists of lengths\<close>

lemma len_ptrs_stops: "word_at m (a + 4 * of_nat k) = 0 \<Longrightarrow> \<exists>ws. len_ptrs m a = Some ws \<and> length ws \<le> k"
proof (induction k arbitrary: a)
  case 0 then show ?case by (simp add: len_ptrs.simps)
next
  case (Suc k)
  have "word_at m (a + 4 + 4 * of_nat k) = 0" using Suc.prems by (simp add: add.assoc distrib_left)
  with Suc.IH [of "a + 4"] show ?case by (subst len_ptrs.simps) auto
qed

lemma word_at_bytes: "bytes_at m a 4 = st32 w \<Longrightarrow> word_at m a = w"
  using ld32_st32 [of w "[]"] by (simp add: word_at_def)

lemma multi_list_ends:
  assumes "bytes_at m a (length (mk_data IH_TYPE_MULTI files)) = mk_data IH_TYPE_MULTI files"
  shows "\<exists>ws. len_ptrs m a = Some ws"
proof -
  let ?l = "concat (map (\<lambda>f. st32 (SWAP32 (of_nat (length f)))) files)"
  have l: "length ?l = 4 * length files" by (induction files) simp_all
  have "bytes_at m (a + of_nat (length ?l)) (length (st32 0)) = st32 0"
    by (rule bytes_at_part [where r = "copy_files files"]) (use assms in \<open>simp add: mk_data_def mk_sizes_def\<close>)
  then have "word_at m (a + 4 * of_nat (length files)) = 0" by (intro word_at_bytes) (simp add: l)
  then show ?thesis using len_ptrs_stops by blast
qed

section \<open>\<open>iminfo\<close>\<close>

lemma strncpy_name:
  assumes "0 \<notin> set t"
  shows "cstr_of (take 32 (t @ replicate 32 0)) = take 32 t"
proof (cases "32 \<le> length t")
  case True
  then show ?thesis using assms by (auto intro!: cstr_of_id dest: in_set_takeD)
next
  case False
  then have "take 32 (t @ replicate 32 0) = t @ 0 # replicate (31 - length t) 0"
    by (simp flip: replicate_Suc add: Suc_diff_le)
  with False assms show ?thesis by simp
qed

text \<open>
  C30: what \<open>mkimage\<close> writes, \<open>iminfo\<close> accepts.  An image of any system, processor, type and
  compression, wherever it stands in memory, passes the three tests of \<open>image_info\<close>, which returns 0,
  changes nothing but the console and leaves in \<open>header\<close> the load address, entry point and name given.
\<close>

theorem mkimage_passes_iminfo:
  assumes "img = mkimage os arch type cmp ad ep time name files" "bytes_at (memory s) a (length img) = img"
    and "length img < 2 ^ 32" "120 < CFG_PBSIZE cfg"
  shows "\<exists>hdr u. image_info cfg a s = Inr ((0, hdr), s\<lparr>con_out := u\<rparr>)
    \<and> SWAP32 (ih_load hdr) = ad \<and> SWAP32 (ih_ep hdr) = ep \<and> SWAP32 (ih_time hdr) = time
    \<and> cstr_of (ih_name hdr) = take 32 (cstr_of name)
    \<and> (ih_os hdr, ih_arch hdr, ih_type hdr, ih_comp hdr) = (os, arch, type, cmp)"
proof -
  let ?d = "mk_data type files"
  let ?h = "mk_header os arch type cmp ad ep time name ?d"
  note i = mkimage_at [OF assms(1-3)] and c = image_at_crcs [OF mkimage_at [OF assms(1-3)]]
  have "ih_type (header_at (memory s) a) = ih_type (header_at (memory s) a\<lparr>ih_hcrc := 0\<rparr>)" by simp
  then have t: "ih_type (header_at (memory s) a) = type" by (simp only: c(3)) (simp add: mk_header_def)
  have m: "\<exists>ws. len_ptrs (memory s) (a + 64) = Some ws" if "type = IH_TYPE_MULTI"
    using i multi_list_ends [of "memory s" "a + 64" files] that by (simp add: image_at_def)
  have "\<exists>u. print_image_hdr cfg (header_at (memory s) a) (Some (a + 64)) (s\<lparr>con_out := v\<rparr>)
      = Inr ((), s\<lparr>con_out := u\<rparr>)" for v
    using print_image_out [OF assms(4), of "header_at (memory s) a" "Some (a + 64)" "s\<lparr>con_out := v\<rparr>"] t m by simp
  then obtain f where p: "print_image_hdr cfg (header_at (memory s) a) (Some (a + 64)) (s\<lparr>con_out := v\<rparr>)
      = Inr ((), s\<lparr>con_out := f v\<rparr>)" for v by metis
  have "\<exists>u. image_info cfg a s = Inr ((0, ?h), s\<lparr>con_out := u\<rparr>)"
    by (simp add: image_info_def Let_def printf_prints boot_prints assms(4) puts_out c p says) (rule exI, rule refl)
  moreover have "cstr_of (take 32 (cstr_of name @ replicate 32 0)) = take 32 (cstr_of name)"
    by (rule strncpy_name) (simp add: cstr_of_nonzero)
  ultimately show ?thesis by (auto simp: mk_header_def)
qed

section \<open>The kernel's parameters\<close>

text \<open>
  The list as a kernel reads it, in the way \<^verbatim>\<open>for_each_tag\<close> of \<^verbatim>\<open>include/asm/setup.h\<close> does.
\<close>

datatype tag = Core | Mem u32 u32 | Cmdline "byte list" | Initrd u32 u32 | Other u32

definition read_tag :: "mem \<Rightarrow> addr \<Rightarrow> tag" where
  "read_tag m t =
     (let k = word_at m (t + 4) in
      if k = ATAG_CORE then Core
      else if k = ATAG_MEM then Mem (word_at m (t + 12)) (word_at m (t + 8))
      else if k = ATAG_CMDLINE then Cmdline (cstr_of (bytes_at m (t + 8) (4 * unat (word_at m t) - 8)))
      else if k = ATAG_INITRD then Initrd (word_at m (t + 8)) (word_at m (t + 12))
      else Other k)"

primrec read_tags :: "nat \<Rightarrow> mem \<Rightarrow> addr \<Rightarrow> tag list" where
  "read_tags 0 m t = []"
| "read_tags (Suc n) m t =
     (if word_at m t = 0 then [] else read_tag m t # read_tags n m (tag_next m t))"

text \<open>The words of a tag; behind a command line there is what was in memory.\<close>

definition tag_words :: "tag \<Rightarrow> nat" where
  "tag_words t =
     (case t of Core \<Rightarrow> 5 | Mem _ _ \<Rightarrow> 4 | Cmdline s \<Rightarrow> (length s + 13) div 4 | Initrd _ _ \<Rightarrow> 4 | Other _ \<Rightarrow> 0)"

fun tag_bytes :: "tag \<Rightarrow> byte list \<Rightarrow> byte list" where
  "tag_bytes Core r = st32 5 @ st32 ATAG_CORE @ st32 0 @ st32 0 @ st32 0"
| "tag_bytes (Mem start sz) r = st32 4 @ st32 ATAG_MEM @ st32 sz @ st32 start"
| "tag_bytes (Cmdline s) r =
     st32 (of_nat ((length s + 13) div 4)) @ st32 ATAG_CMDLINE @ s @ 0 # take (4 * ((length s + 13) div 4) - (length s + 9)) r"
| "tag_bytes (Initrd start sz) r = st32 4 @ st32 ATAG_INITRD @ st32 start @ st32 sz"
| "tag_bytes (Other k) r = []"

lemma store_bytes_swap:
  assumes "region a (length xs) \<inter> region b (length ys) = {}" "length xs < 2 ^ 32" "length ys < 2 ^ 32"
  shows "store_bytes (store_bytes m a xs) b ys = store_bytes (store_bytes m b ys) a xs"
proof
  have v: "store_bytes m c zs (c + of_nat i) = zs ! i" if "i < length zs" "length zs < 2 ^ 32" for m c zs i
    using bytes_at_store_bytes [OF that(2), of m c] that(1) nth_bytes_at by metis
  fix x
  consider i where "x = a + of_nat i" "i < length xs" | i where "x = b + of_nat i" "i < length ys"
    | "x \<notin> region a (length xs)" "x \<notin> region b (length ys)" unfolding region_def by blast
  then show "store_bytes (store_bytes m a xs) b ys x = store_bytes (store_bytes m b ys) a xs x"
  proof cases
    case 1
    then have "x \<notin> region b (length ys)" using assms(1) by blast
    with 1 assms v show ?thesis by (simp add: memory_store_bytes)
  next
    case 2
    then have "x \<notin> region a (length xs)" using assms(1) by blast
    with 2 assms v show ?thesis by (simp add: memory_store_bytes)
  qed (use assms in \<open>simp add: memory_store_bytes\<close>)
qed

lemma put32_header: "put32 p x (put32 (p + 4) y m) = store_bytes m p (st32 x @ st32 y)"
proof -
  have "region (p + of_nat 4) 4 \<inter> region p 4 = {}" by (rule region_before) simp
  then have "store_bytes (store_bytes m (p + 4) (st32 y)) p (st32 x) = store_bytes (store_bytes m p (st32 x)) (p + 4) (st32 y)"
    by (intro store_bytes_swap) simp_all
  then show ?thesis by (simp add: put32_def store_bytes_append)
qed

lemma put32_pair: "put32 (p + 8) x (put32 (p + 12) y m) = store_bytes m (p + 8) (st32 x @ st32 y)"
  using put32_header [of "p + 8" x y m] by (simp add: add.assoc)

lemma word_part:
  assumes "bytes_at m p (length (a @ st32 w @ b)) = a @ st32 w @ b"
  shows "word_at m (p + of_nat (length a)) = w"
  using bytes_at_part [OF assms] by (intro word_at_bytes) simp

lemma tag_next_stored: "length r + 4 < 2 ^ 32 \<Longrightarrow> tag_next (store_bytes m p (st32 w @ r)) p = p + 4 * w"
  using word_part [of "store_bytes m p (st32 w @ r)" p "[]" w r] bytes_at_store_bytes [of "st32 w @ r" m p]
  by (simp add: tag_next_def)

lemma start_tag: "setup_start_tag p m = (store_bytes m p (tag_bytes Core r), p + 20)"
proof -
  have "put32 (p + 16) 0 (put32 (p + 12) 0 (put32 (p + 8) 0 (put32 p 5 (put32 (p + 4) ATAG_CORE m))))
      = store_bytes m p (tag_bytes Core r)"
    unfolding put32_header by (simp add: put32_def store_bytes_append add.assoc)
  then show ?thesis using tag_next_stored [of "st32 ATAG_CORE @ st32 0 @ st32 0 @ st32 0" m p 5]
    by (simp add: setup_start_tag_def Let_def)
qed

lemma memory_tags:
  "setup_memory_tags banks (m, p)
    = (store_bytes m p (concat (map (\<lambda>b. tag_bytes (Mem (fst b) (snd b)) []) banks)), p + of_nat (16 * length banks))"
proof (induction banks arbitrary: m p)
  case (Cons b banks)
  let ?t = "tag_bytes (Mem (fst b) (snd b)) []"
  have "put32 (p + 8) (snd b) (put32 (p + 12) (fst b) (put32 p 4 (put32 (p + 4) ATAG_MEM m))) = store_bytes m p ?t"
    unfolding put32_header put32_pair by (simp add: store_bytes_append add.assoc)
  moreover have "tag_next (store_bytes m p ?t) p = p + 16"
    using tag_next_stored [of "st32 ATAG_MEM @ st32 (snd b) @ st32 (fst b)" m p 4] by simp
  moreover have "length ?t = 16" by simp
  ultimately show ?case
    using Cons.IH by (simp add: Let_def case_prod_unfold store_bytes_append add.assoc del: tag_bytes.simps)
qed simp

lemma cmdline_size:
  assumes "n < 2 ^ 31"
  shows "drop_bit 2 (8 + of_nat n + 1 + 4 :: u32) = of_nat ((n + 13) div 4)"
proof -
  have "8 + of_nat n + 1 + 4 = (of_nat (n + 13) :: u32)" by simp
  moreover have "unat (of_nat (n + 13) div 4 :: u32) = unat (of_nat ((n + 13) div 4) :: u32)"
    using assms by (simp add: unat_div unat_of_nat del: of_nat_add)
  then have "of_nat (n + 13) div 4 = (of_nat ((n + 13) div 4) :: u32)" by (rule unsigned_word_eqI)
  ultimately show ?thesis by (simp add: drop_bit_eq_div add.commute)
qed

lemma commandline_tag:
  assumes "length c < 2 ^ 31" "t = dropWhile (\<lambda>c. c = ch CHR '' '') c" "t \<noteq> []"
  shows "\<exists>r. length r = 4 \<and> setup_commandline_tag c (m, p)
    = (store_bytes m p (tag_bytes (Cmdline t) r), p + of_nat (4 * tag_words (Cmdline t)))"
proof -
  let ?k = "(length t + 13) div 4"
  let ?r = "bytes_at m (p + of_nat (length t + 9)) 4"
  let ?j = "4 * ?k - (length t + 9)"
  have t: "length t < 2 ^ 31" using assms(1,2) length_dropWhile_le [of _ c] by (metis le_less_trans)
  have j: "?j \<le> 4" by simp
  have old: "take ?j ?r = bytes_at m (p + of_nat (length t + 9)) ?j"
    using j by (simp add: bytes_at_def take_map)
  have "store_bytes m p (st32 (of_nat ?k) @ st32 ATAG_CMDLINE @ (t @ [0]) @ take ?j ?r)
      = store_bytes m p (st32 (of_nat ?k) @ st32 ATAG_CMDLINE @ t @ [0])"
    using store_around [of 0 "st32 (of_nat ?k) @ st32 ATAG_CMDLINE @ t @ [0]" ?j m p] t j old by (simp add: add.commute)
  moreover define m' where "m' = store_bytes m p (tag_bytes (Cmdline t) ?r)"
  ultimately have b: "store_bytes (store_bytes m p (st32 (of_nat ?k) @ st32 ATAG_CMDLINE)) (p + 8) (t @ [0]) = m'"
    by (simp add: store_bytes_append add.assoc)
  have "tag_next m' p = p + 4 * of_nat ?k"
    using tag_next_stored [of "st32 ATAG_CMDLINE @ t @ 0 # take ?j ?r" m p "of_nat ?k"] t by (simp add: m'_def)
  moreover have "dropWhile (\<lambda>c. c = 0x20) c = t" using assms(2) by simp
  ultimately have "setup_commandline_tag c (m, p) = (m', p + of_nat (4 * tag_words (Cmdline t)))"
    using assms(3) cmdline_size [OF t]
    by (simp add: setup_commandline_tag_def Let_def put32_header b tag_words_def del: dropWhile_eq_Nil_conv)
  then show ?thesis unfolding m'_def by (intro exI [of _ ?r]) simp
qed

lemma initrd_tag:
  "setup_initrd_tag a b (m, p) = (store_bytes m p (tag_bytes (Initrd a (b - a)) r), p + 16)"
proof -
  let ?t = "tag_bytes (Initrd a (b - a)) r"
  have "put32 (p + 12) (b - a) (put32 (p + 8) a (put32 p 4 (put32 (p + 4) ATAG_INITRD m))) = store_bytes m p ?t"
    unfolding put32_header by (simp add: put32_def store_bytes_append add.assoc)
  moreover have "tag_next (store_bytes m p ?t) p = p + 16"
    using tag_next_stored [of "st32 ATAG_INITRD @ st32 a @ st32 (b - a)" m p 4] by simp
  ultimately show ?thesis by (simp add: setup_initrd_tag_def Let_def del: tag_bytes.simps)
qed

lemma end_tag: "setup_end_tag (m, p) = store_bytes m p (st32 0 @ st32 0)"
  by (simp add: setup_end_tag_def put32_header)

definition tag_ok :: "tag \<times> byte list \<Rightarrow> bool" where
  "tag_ok x = (case x of (t, r) \<Rightarrow>
     case t of Cmdline s \<Rightarrow> 0 \<notin> set s \<and> length s < 2 ^ 16 \<and> length r = 4 | Other _ \<Rightarrow> False | _ \<Rightarrow> True)"

lemma tag_bytes_length: "tag_ok (t, r) \<Longrightarrow> length (tag_bytes t r) = 4 * tag_words t"
  by (cases t) (simp_all add: tag_ok_def tag_words_def)

lemma tag_words_bounds: "tag_ok (t, r) \<Longrightarrow> 0 < tag_words t \<and> tag_words t < 2 ^ 16"
  by (cases t) (simp_all add: tag_ok_def tag_words_def div_greater_zero_iff less_mult_imp_div_less)

lemma tag_size_stored:
  assumes "tag_ok (t, r)" "bytes_at m p (length (tag_bytes t r)) = tag_bytes t r"
  shows "word_at m p = of_nat (tag_words t)"
proof -
  have "\<exists>b. tag_bytes t r = [] @ st32 (of_nat (tag_words t)) @ b"
    using assms(1) by (cases t) (simp_all add: tag_ok_def tag_words_def)
  then obtain b where "tag_bytes t r = [] @ st32 (of_nat (tag_words t)) @ b" by blast
  from word_part [OF assms(2) [unfolded this]] show ?thesis by simp
qed

lemma read_tag_stored:
  assumes "tag_ok (t, r)" "bytes_at m p (length (tag_bytes t r)) = tag_bytes t r"
  shows "read_tag m p = t"
proof -
  have w: "tag_bytes t r = st32 a @ st32 b @ q \<Longrightarrow> word_at m (p + 4) = b" for a b q
    using word_part [of m p "st32 a" b q] assms(2) by simp
  have w2: "tag_bytes t r = st32 a @ st32 b @ st32 c @ q \<Longrightarrow> word_at m (p + 8) = c" for a b c q
    using word_part [of m p "st32 a @ st32 b" c q] assms(2) by simp
  have w3: "tag_bytes t r = st32 a @ st32 b @ st32 c @ st32 d \<Longrightarrow> word_at m (p + 12) = d" for a b c d
    using word_part [of m p "st32 a @ st32 b @ st32 c" d "[]"] assms(2) by simp
  note z = tag_size_stored [OF assms]
  show ?thesis
  proof (cases t)
    case Core
    then show ?thesis using w by (simp add: read_tag_def Let_def)
  next
    case (Mem start sz)
    then show ?thesis using w w2 w3 by (simp add: read_tag_def Let_def)
  next
    case (Initrd start sz)
    then show ?thesis using w w2 w3 by (simp add: read_tag_def Let_def)
  next
    case (Cmdline s)
    let ?k = "(length s + 13) div 4"
    let ?q = "s @ 0 # take (4 * ?k - (length s + 9)) r"
    have s: "0 \<notin> set s" "length s < 2 ^ 16" "length r = 4" using assms(1) by (simp_all add: tag_ok_def Cmdline)
    have b: "bytes_at m (p + of_nat (length (st32 (of_nat ?k) @ st32 ATAG_CMDLINE))) (length ?q) = ?q"
      using bytes_at_part [of m p "st32 (of_nat ?k) @ st32 ATAG_CMDLINE" ?q "[]"] assms(2) by (simp add: Cmdline)
    have l: "length ?q = 4 * ?k - 8" using s(3) by simp
    have u: "unat (word_at m p) = ?k" using z s(2) by (simp add: Cmdline tag_words_def unat_of_nat)
    have "bytes_at m (p + 8) (4 * unat (word_at m p) - 8) = ?q" using b unfolding l u by simp
    then show ?thesis using s w Cmdline by (simp add: read_tag_def Let_def)
  next
    case (Other k)
    with assms(1) show ?thesis by (simp add: tag_ok_def)
  qed
qed

lemma read_tags_stored:
  assumes "\<forall>x \<in> set ts. tag_ok x" "length ts < n"
    and "bytes_at m p (length (concat (map (\<lambda>(t, r). tag_bytes t r) ts) @ st32 0 @ q))
      = concat (map (\<lambda>(t, r). tag_bytes t r) ts) @ st32 0 @ q"
  shows "read_tags n m p = map fst ts"
  using assms
proof (induction ts arbitrary: p n)
  case Nil
  then show ?case using word_part [of m p "[]" 0 q] by (cases n) simp_all
next
  case (Cons x ts)
  obtain t r where x: "x = (t, r)" by (cases x)
  obtain k where n: "n = Suc k" "length ts < k" using Cons.prems(2) by (cases n) simp_all
  let ?b = "tag_bytes t r" and ?c = "concat (map (\<lambda>(t, r). tag_bytes t r) ts) @ st32 0 @ q"
  have ok: "tag_ok (t, r)" using Cons.prems(1) x by simp
  have "bytes_at m p (length ?b + length ?c) = ?b @ ?c" using Cons.prems(3) by (simp add: x)
  then have 1: "bytes_at m p (length ?b) = ?b" "bytes_at m (p + of_nat (length ?b)) (length ?c) = ?c"
    unfolding bytes_at_append by simp_all
  note z = tag_size_stored [OF ok 1(1)]
  have "of_nat (tag_words t) \<noteq> (0 :: u32)"
  proof
    assume "of_nat (tag_words t) = (0 :: u32)"
    then have "unat (of_nat (tag_words t) :: u32) = 0" by simp
    then show False using tag_words_bounds [OF ok] by (simp add: unat_of_nat)
  qed
  moreover have "tag_next m p = p + of_nat (length ?b)"
    unfolding tag_next_def z tag_bytes_length [OF ok] by simp
  ultimately show ?case
    using Cons.IH [OF _ n(2) 1(2)] n(1) Cons.prems(1) read_tag_stored [OF ok 1(1)] z x by simp
qed

end
