(* ===== verification/BootProps.thy ===== *)
theory BootProps
  imports BootSpec
begin

text \<open>
  \<open>bootm\<close> from the command to the kernel's first instruction.
\<close>

section \<open>The parameter block\<close>

text \<open>The tags the loader writes, and the room they take.\<close>

definition boot_tags :: "(u32 \<times> u32) list \<Rightarrow> byte list \<Rightarrow> u32 \<Rightarrow> u32 \<Rightarrow> tag list" where
  "boot_tags banks c start sz =
     Core # map (\<lambda>b. Mem (fst b) (snd b)) banks
     @ (let t = dropWhile (\<lambda>c. c = ch CHR '' '') c in if t = [] then [] else [Cmdline t]) @ [Initrd start sz]"

definition params_size :: "(u32 \<times> u32) list \<Rightarrow> byte list \<Rightarrow> nat" where
  "params_size banks c = 4 * sum_list (map tag_words (boot_tags banks c 0 0)) + 8"

lemma params_stored:
  assumes "0 \<notin> set c" "length c < 2 ^ 16" "length banks < 2 ^ 16"
  shows "\<exists>B. setup_end_tag (setup_initrd_tag a b (setup_commandline_tag c
        (setup_memory_tags banks (setup_start_tag p m)))) = store_bytes m p B
    \<and> length B = params_size banks c \<and> length B < 2 ^ 32
    \<and> read_tags (length banks + 4) (store_bytes m p B) p = boot_tags banks c a (b - a)"
proof -
  define t where "t = dropWhile (\<lambda>c. c = ch CHR '' '') c"
  have t: "0 \<notin> set t" "length t < 2 ^ 16"
    using assms(1,2) length_dropWhile_le [of _ c] unfolding t_def by (auto dest: set_dropWhileD intro: le_less_trans)
  let ?mem = "map (\<lambda>b. (Mem (fst b) (snd b), [])) banks"
  let ?by = "\<lambda>ts. concat (map (\<lambda>(t, r). tag_bytes t r) ts)"
  let ?B1 = "?by ((Core, []) # ?mem)"
  have l1: "length ?B1 = 20 + 16 * length banks"
    by (simp add: o_def length_concat case_prod_unfold sum_list_triv)
  have 1: "setup_memory_tags banks (setup_start_tag p m) = (store_bytes m p ?B1, p + of_nat (length ?B1))"
    unfolding start_tag [of p m "[]"] memory_tags l1
    by (simp add: store_bytes_append o_def case_prod_unfold add.assoc del: tag_bytes.simps)
       (simp add: store_bytes_append add.assoc)
  obtain cs where cs: "setup_commandline_tag c (store_bytes m p ?B1, p + of_nat (length ?B1))
      = (store_bytes m p (?B1 @ ?by cs), p + of_nat (length (?B1 @ ?by cs)))"
    "\<forall>x \<in> set cs. tag_ok x" "map fst cs = (if t = [] then [] else [Cmdline t])"
  proof (cases "t = []")
    case True
    show thesis by (rule that [of "[]"]) (use True in \<open>simp_all add: setup_commandline_tag_def t_def Let_def\<close>)
  next
    case False
    obtain r where r: "length r = 4" "setup_commandline_tag c (store_bytes m p ?B1, p + of_nat (length ?B1))
        = (store_bytes (store_bytes m p ?B1) (p + of_nat (length ?B1)) (tag_bytes (Cmdline t) r),
           p + of_nat (length ?B1) + of_nat (4 * tag_words (Cmdline t)))"
      using commandline_tag [OF _ t_def False] assms(2) by fastforce
    have ok: "tag_ok (Cmdline t, r)" using t r(1) by (simp add: tag_ok_def)
    show thesis
      by (rule that [of "[(Cmdline t, r)]"])
         (use r(2) ok False tag_bytes_length [OF ok] in
          \<open>simp_all only: store_bytes_append list.map concat.simps prod.case append_Nil2 length_append of_nat_add
            add.assoc fst_conv if_False list.set ball_simps simp_thms\<close>)
  qed
  let ?ts = "(Core, []) # ?mem @ cs @ [(Initrd a (b - a), [])]"
  let ?B = "?by ?ts @ st32 0 @ st32 0"
  have ok: "\<forall>x \<in> set ?ts. tag_ok x" using cs(2) by (auto simp: tag_ok_def)
  have "?by ?ts = (?B1 @ ?by cs) @ tag_bytes (Initrd a (b - a)) []" by simp
  moreover have "length (tag_bytes (Initrd a (b - a)) []) = 16" by simp
  ultimately have s: "setup_end_tag (setup_initrd_tag a b (setup_commandline_tag c
        (setup_memory_tags banks (setup_start_tag p m)))) = store_bytes m p ?B"
    unfolding 1 cs(1) initrd_tag [of _ _ _ _ "[]"] end_tag
    by (simp only: store_bytes_append length_append of_nat_add add.assoc) simp
  have f: "map fst ?ts = boot_tags banks c a (b - a)"
    using cs(3) by (simp add: boot_tags_def t_def Let_def o_def)
  have "length (?by ts) = 4 * sum_list (map tag_words (map fst ts))" if "\<forall>x \<in> set ts. tag_ok x" for ts
    using that by (induction ts) (auto simp: tag_bytes_length)
  from this [OF ok] have l: "length ?B = params_size banks c"
    by (simp only: f) (simp add: params_size_def boot_tags_def tag_words_def Let_def)
  have "params_size banks c = 44 + 16 * length banks + (if t = [] then 0 else 4 * ((length t + 13) div 4))"
    by (simp add: params_size_def boot_tags_def tag_words_def Let_def o_def sum_list_triv t_def)
  moreover have "4 * ((length t + 13) div 4) \<le> length t + 13" by simp
  ultimately have z: "params_size banks c < 2 ^ 32" using assms(3) t(2) by (simp split: if_splits)
  then have "bytes_at (store_bytes m p ?B) p (length ?B) = ?B" by (intro bytes_at_store_bytes) (simp only: l)
  moreover have "length ?ts < length banks + 4"
    using arg_cong [OF cs(3), of length] by (simp split: if_splits)
  ultimately have "read_tags (length banks + 4) (store_bytes m p ?B) p = boot_tags banks c a (b - a)"
    unfolding f [symmetric] by (intro read_tags_stored [OF ok])
  moreover have "length ?B < 2 ^ 32" using l z by (simp only:)
  ultimately show ?thesis using s l by blast
qed

section \<open>\<open>boot_linux\<close>\<close>

text \<open>The machine as the command finds it: an environment in memory with a command line.\<close>

definition boot_env :: "sys \<Rightarrow> (byte list \<times> byte list) list \<Rightarrow> byte list \<Rightarrow> bool" where
  "boot_env s vars c =
     ((\<exists>e rest. bi_env s = Some e \<and> env_rep (env_data e) vars rest)
      \<and> map_of vars (lit ''bootargs'') = Some c \<and> 0 \<notin> set c \<and> length c < 2 ^ 16 \<and> length (bi_dram s) < 2 ^ 16)"

lemma boot_env_update [simp]:
  "boot_env (s\<lparr>con_out := o1\<rparr>) vars c = boot_env s vars c" "boot_env (s\<lparr>memory := m\<rparr>) vars c = boot_env s vars c"
  by (simp_all add: boot_env_def)

lemma boot_getenv:
  assumes "boot_env s vars c" "valid_name name"
  shows "\<exists>p. getenv cfg s name = Inr (p, s) \<and> map_option cstr_of p = map_of vars name"
  using assms ram_getenv by (fastforce simp: boot_env_def)

lemma valid_boot_names: "valid_name (lit ''bootargs'')" "valid_name (lit ''verify'')"
  by (simp_all add: valid_name_def lit_def)

text \<open>Without a ramdisk the kernel is entered with the parameter block written and nothing else changed.\<close>

lemma boot_linux_plain:
  assumes "boot_env s vars c" "argc < 3" "ih_type hdr \<noteq> IH_TYPE_MULTI" "120 < CFG_PBSIZE cfg"
  shows "\<exists>B u. boot_linux cfg ext argc argv lp v hdr s =
      sbind (theKernel ext (SWAP32 (ih_ep hdr)) 0 (bi_arch_number s)
        (s\<lparr>memory := store_bytes (memory s) (bi_boot_params s) B, con_out := u\<rparr>)) (\<lambda>(_, t). Inr (hdr, t))
    \<and> length B = params_size (bi_dram s) c \<and> length B < 2 ^ 32
    \<and> read_tags (length (bi_dram s) + 4) (store_bytes (memory s) (bi_boot_params s) B) (bi_boot_params s)
        = boot_tags (bi_dram s) c 0 0"
proof -
  obtain p where p: "getenv cfg s (lit ''bootargs'') = Inr (p, s)" "map_option cstr_of p = map_of vars (lit ''bootargs'')"
    using boot_getenv [OF assms(1) valid_boot_names(1)] by blast
  then obtain t where t: "p = Some t" "cstr_of t = c" using assms(1) by (auto simp: boot_env_def)
  from assms(1) have "0 \<notin> set c" "length c < 2 ^ 16" "length (bi_dram s) < 2 ^ 16" by (simp_all add: boot_env_def)
  from params_stored [OF this, of 0 0 "bi_boot_params s" "memory s"] obtain B where
    B: "setup_end_tag (setup_initrd_tag 0 0 (setup_commandline_tag c (setup_memory_tags (bi_dram s)
        (setup_start_tag (bi_boot_params s) (memory s))))) = store_bytes (memory s) (bi_boot_params s) B"
    "length B = params_size (bi_dram s) c" "length B < 2 ^ 32"
    "read_tags (length (bi_dram s) + 4) (store_bytes (memory s) (bi_boot_params s) B) (bi_boot_params s)
      = boot_tags (bi_dram s) c 0 0" by auto
  have "\<exists>u. boot_linux cfg ext argc argv lp v hdr s =
      sbind (theKernel ext (SWAP32 (ih_ep hdr)) 0 (bi_arch_number s)
        (s\<lparr>memory := store_bytes (memory s) (bi_boot_params s) B, con_out := u\<rparr>)) (\<lambda>(_, t). Inr (hdr, t))"
    using assms(2,3) p(1) t
    by (simp add: boot_linux_def Let_def B(1) says assms(4) puts_out) (rule exI, rule refl)
  with B(2-4) show ?thesis by blast
qed

text \<open>
  A ramdisk given as a second argument, accepted: its header replaces the kernel's in \<open>header\<close>, and the
  entry point is read after that.
\<close>

lemma load_ramdisk_ok:
  assumes "image_at (memory s) a h data" "ih_os h = IH_OS_LINUX" "ih_arch h = IH_CPU_ARM" "ih_type h = IH_TYPE_RAMDISK"
    and "120 < CFG_PBSIZE cfg"
  shows "\<exists>u. load_ramdisk cfg a v s = Inr ((a + 64, SWAP32 (ih_size h), h), s\<lparr>con_out := u\<rparr>)"
proof -
  note c = image_at_crcs [OF assms(1)]
  have "\<exists>u. print_image_hdr cfg h None (s\<lparr>con_out := v\<rparr>) = Inr ((), s\<lparr>con_out := u\<rparr>)" for v
    using print_image_out [OF assms(5), of h None "s\<lparr>con_out := v\<rparr>"] assms(4) by simp
  then obtain f where p: "print_image_hdr cfg h None (s\<lparr>con_out := v\<rparr>) = Inr ((), s\<lparr>con_out := f v\<rparr>)" for v by metis
  show ?thesis
    by (cases v) (simp_all add: load_ramdisk_def Let_def printf_prints boot_prints assms puts_out c p says,
        (rule exI, rule refl)+)
qed

section \<open>\<open>bootm\<close>\<close>

lemma addr2info_out [simp]: "addr2info a (s\<lparr>con_out := u\<rparr>) = addr2info a s"
  by (simp add: addr2info_def)

text \<open>An image outside the flash that is intact gets to \<open>start_image\<close>, verified or not.\<close>

lemma bootm_accepts:
  assumes "image_at (memory s) (load_addr s) h data" "boot_env s vars c" "addr2info (load_addr s) s = None"
    and "argc < 2" "120 < CFG_PBSIZE cfg" "ih_arch h = IH_CPU_ARM"
    and "ih_type h = IH_TYPE_KERNEL \<and> name = ''Kernel Image'' \<or> ih_type h = IH_TYPE_STANDALONE \<and> name = ''Standalone Application''"
  shows "\<exists>v u. do_bootm cfg ext cmdname argc argv s =
    start_image cfg ext argc argv (load_addr s + 64) v name (load_addr s + 64) (SWAP32 (ih_size h)) h (s\<lparr>con_out := u\<rparr>)"
proof -
  let ?a = "load_addr s" and ?h = "header_at (memory s) (load_addr s)"
  note cr = image_at_crcs [OF assms(1)]
  obtain p where p: "getenv cfg s (lit ''verify'') = Inr (p, s)"
    using boot_getenv [OF assms(2) valid_boot_names(2)] by blast
  have "ih_type ?h = ih_type (?h\<lparr>ih_hcrc := 0\<rparr>)" by simp
  then have t: "ih_type ?h = ih_type h" by (simp only: cr(3))
  have "\<exists>u. print_image_hdr cfg ?h (Some (?a + 64)) (s\<lparr>con_out := v\<rparr>) = Inr ((), s\<lparr>con_out := u\<rparr>)" for v
    using print_image_out [OF assms(5), of ?h "Some (?a + 64)" "s\<lparr>con_out := v\<rparr>"] t assms(7) by auto
  then obtain f where q: "print_image_hdr cfg ?h (Some (?a + 64)) (s\<lparr>con_out := v\<rparr>) = Inr ((), s\<lparr>con_out := f v\<rparr>)" for v
    by metis
  have k: "kernel_part (memory s) h (?a + 64) (SWAP32 (ih_size h)) = Inr (Some (name, ?a + 64, SWAP32 (ih_size h)))"
    using assms(7) by (auto simp: kernel_part_def)
  define v where "v = (case p of None \<Rightarrow> True | Some t \<Rightarrow> hd0 t \<noteq> ch CHR ''n'')"
  have "\<exists>u. do_bootm cfg ext cmdname argc argv s =
    start_image cfg ext argc argv (?a + 64) v name (?a + 64) (SWAP32 (ih_size h)) h (s\<lparr>con_out := u\<rparr>)"
    by (cases v) (simp_all add: do_bootm_def p v_def [symmetric] Let_def printf_prints boot_prints assms(3-6) puts_out cr q says
        from_flash_def k, (rule exI, rule refl)+)
  then show ?thesis by blast
qed

lemma memcpy_moves:
  assumes "up_safe dest src (unat n)"
  shows "bytes_at (fst (memcpy m dest src n)) dest (unat n) = bytes_at m src (unat n)"
  by (rule bytes_at_eqI) (simp add: memcpy_def copy_up_moves [OF assms])

lemma load_plain:
  assumes "ih_comp h = IH_COMP_NONE" "120 < CFG_PBSIZE cfg" "length name \<le> 30"
  shows "\<exists>u. load_image cfg ext h name data len (s\<lparr>con_out := o1\<rparr>) =
    Inr (True, s\<lparr>con_out := u, memory := fst (memcpy (memory s) (SWAP32 (ih_load h)) data len)\<rparr>)"
  using assms by (simp add: load_image_def printf_prints text_prints puts_out) (rule exI, rule refl)

text \<open>
  C31: \<open>bootm\<close> starts the kernel it was given.  An uncompressed ARM kernel image as \<open>mkimage\<close> writes it,
  at the load address and outside the flash, with the variable \<open>bootargs\<close> set: the kernel is entered at its entry
  point with 0 and the architecture number; at its load address is the data file, byte for byte; and
  the parameter list reads as the core tag, a memory tag for every bank, the command line without its
  leading blanks and an empty ramdisk.
\<close>

theorem bootm_starts_kernel:
  assumes "img = mkimage os IH_CPU_ARM IH_TYPE_KERNEL IH_COMP_NONE ad ep time name [f]"
    and "bytes_at (memory s) (load_addr s) (length img) = img" "length img < 2 ^ 32"
    and "boot_env s vars c" "addr2info (load_addr s) s = None" "argc < 2" "120 < CFG_PBSIZE cfg"
    and "up_safe ad (load_addr s + 64) (length f)"
    and "region ad (length f) \<inter> region (bi_boot_params s) (params_size (bi_dram s) c) = {}"
  shows "\<exists>hdr s'. do_bootm cfg ext cmdname argc argv s =
      sbind (theKernel ext ep 0 (bi_arch_number s) s') (\<lambda>(_, t).
      sbind (printf cfg (lit ''\<newline>## Control returned to monitor\<newline>'') [] t) (\<lambda>(_, t). Inr ((0, hdr), t)))
    \<and> bytes_at (memory s') ad (length f) = f
    \<and> read_tags (length (bi_dram s) + 4) (memory s') (bi_boot_params s) = boot_tags (bi_dram s) c 0 0"
proof -
  let ?h = "mk_header os IH_CPU_ARM IH_TYPE_KERNEL IH_COMP_NONE ad ep time name f"
  have d: "mk_data IH_TYPE_KERNEL [f] = f" by (simp add: mk_data_def copy_file_def Let_def)
  have i: "image_at (memory s) (load_addr s) ?h f" using mkimage_at [OF assms(1-3)] by (simp add: d)
  have h: "ih_arch ?h = IH_CPU_ARM" "ih_comp ?h = IH_COMP_NONE" "ih_type ?h = IH_TYPE_KERNEL"
    "SWAP32 (ih_load ?h) = ad" "SWAP32 (ih_ep ?h) = ep" "unat (SWAP32 (ih_size ?h)) = length f"
    using i by (simp_all add: mk_header_def image_at_def unat_of_nat)
  have n: "length ''Kernel Image'' \<le> 30" by simp
  obtain v u where 1: "do_bootm cfg ext cmdname argc argv s = start_image cfg ext argc argv (load_addr s + 64) v
      ''Kernel Image'' (load_addr s + 64) (SWAP32 (ih_size ?h)) ?h (s\<lparr>con_out := u\<rparr>)"
    using bootm_accepts [OF i assms(4-7) h(1)] h(3) by blast
  define m where "m = fst (memcpy (memory s) ad (load_addr s + 64) (SWAP32 (ih_size ?h)))"
  obtain u' where 2: "load_image cfg ext ?h ''Kernel Image'' (load_addr s + 64) (SWAP32 (ih_size ?h)) (s\<lparr>con_out := u\<rparr>)
      = Inr (True, s\<lparr>con_out := u', memory := m\<rparr>)"
    using load_plain [OF h(2) assms(7) n] h(4) unfolding m_def by metis
  define s1 where "s1 = puts (printed cfg (lit ''OK\<newline>'') []) (s\<lparr>con_out := u', memory := m\<rparr>)"
  have s1: "boot_env s1 vars c" "memory s1 = m" "bi_dram s1 = bi_dram s" "bi_boot_params s1 = bi_boot_params s"
    "bi_arch_number s1 = bi_arch_number s" using assms(4) by (simp_all add: s1_def puts_out)
  have "argc < 3" "ih_type ?h \<noteq> IH_TYPE_MULTI" using assms(6) h(3) by simp_all
  from boot_linux_plain [OF s1(1) this assms(7), of ext argv "load_addr s + 64" v]
  obtain B w where 3: "boot_linux cfg ext argc argv (load_addr s + 64) v ?h s1 =
      sbind (theKernel ext (SWAP32 (ih_ep ?h)) 0 (bi_arch_number s1)
        (s1\<lparr>memory := store_bytes (memory s1) (bi_boot_params s1) B, con_out := w\<rparr>)) (\<lambda>(_, t). Inr (?h, t))"
    "length B = params_size (bi_dram s1) c" "length B < 2 ^ 32"
    "read_tags (length (bi_dram s1) + 4) (store_bytes (memory s1) (bi_boot_params s1) B) (bi_boot_params s1)
      = boot_tags (bi_dram s1) c 0 0" by auto
  let ?s' = "s1\<lparr>memory := store_bytes m (bi_boot_params s) B, con_out := w\<rparr>"
  have "do_bootm cfg ext cmdname argc argv s = sbind (theKernel ext ep 0 (bi_arch_number s) ?s') (\<lambda>(_, t).
      sbind (printf cfg (lit ''\<newline>## Control returned to monitor\<newline>'') [] t) (\<lambda>(_, t). Inr ((0, ?h), t)))"
    unfolding 1 start_image_def 2 using 3(1) h(3,5) s1(2,4,5)
    by (simp add: says assms(7) s1_def [symmetric]) (cases "theKernel ext ep 0 (bi_arch_number s) ?s'", auto)
  moreover have "bytes_at (memory ?s') ad (length f) = bytes_at m ad (length f)"
    using assms(9) 3(2,3) s1(3) by (simp add: bytes_at_other)
  then have "bytes_at (memory ?s') ad (length f) = f"
    using memcpy_moves [of ad "load_addr s + 64" "SWAP32 (ih_size ?h)" "memory s"] assms(8) h(6) i
    by (simp add: m_def image_at_def)
  moreover have "read_tags (length (bi_dram s) + 4) (memory ?s') (bi_boot_params s) = boot_tags (bi_dram s) c 0 0"
    using 3(4) s1(2-4) by simp
  ultimately show ?thesis by blast
qed

section \<open>Refusals\<close>

lemma crc32_list_update:
  assumes "i < length xs" "b \<noteq> xs ! i"
  shows "crc32 0 (Some (xs[i := b])) \<noteq> crc32 0 (Some xs)"
proof
  assume "crc32 0 (Some (xs[i := b])) = crc32 0 (Some xs)"
  then have "crc32 0 (Some (take i xs @ b # drop (Suc i) xs)) = crc32 0 (Some (take i xs @ xs ! i # drop (Suc i) xs))"
    using assms(1) by (simp add: upd_conv_take_nth_drop id_take_nth_drop [symmetric])
  then have "foldl crc_byte (0 XOR 0xffffffff) (take i xs @ b # drop (Suc i) xs)
      = foldl crc_byte (0 XOR 0xffffffff) (take i xs @ xs ! i # drop (Suc i) xs)"
    unfolding crc32_foldl using xor_ones_twice by metis
  then show False using assms(2) by (auto dest!: foldl_crc_byte_inj crc_byte_inj_byte)
qed

lemma hd0_cstr_of: "hd0 (cstr_of t) = hd0 t"
  by (cases t) (simp_all add: cstr_of_def)

text \<open>The address \<open>bootm\<close> takes: of its argument, or \<open>load_addr\<close>.\<close>

definition bootm_address :: "sys \<Rightarrow> nat \<Rightarrow> byte list option list \<Rightarrow> u32 \<Rightarrow> bool" where
  "bootm_address s argc argv a =
     (if argc < 2 then a = load_addr s
      else \<exists>t. argv_str argv 1 = Inr t \<and> fst (simple_strtoul t 16) = a)"

lemma from_flash_out:
  assumes "120 < CFG_PBSIZE cfg" "unat (SWAP32 (ih_size hdr) + 64) = n"
    "addr2info a s \<noteq> None \<longrightarrow> up_safe (load_addr s) a n"
  shows "\<exists>b m u. from_flash cfg a hdr s = Inr (b, s\<lparr>con_out := u, memory := m\<rparr>)
    \<and> bytes_at m b n = bytes_at (memory s) a n
    \<and> (if addr2info a s = None then b = a \<and> m = memory s
       else b = load_addr s \<and> (\<forall>x. x \<notin> region (load_addr s) n \<longrightarrow> m x = memory s x))"
proof (cases "addr2info a s = None")
  case True
  then show ?thesis
    by (intro exI [of _ a] exI [of _ "memory s"] exI [of _ "con_out s"]) (simp add: from_flash_def)
next
  case False
  let ?m = "fst (memcpy (memory s) (load_addr s) a (SWAP32 (ih_size hdr) + 64))"
  obtain u where "from_flash cfg a hdr s = Inr (load_addr s, s\<lparr>con_out := u, memory := ?m\<rparr>)"
    using False by (auto simp: from_flash_def printf_prints boot_prints [OF assms(1)] puts_out)
  moreover have "bytes_at ?m (load_addr s) n = bytes_at (memory s) a n"
    using memcpy_moves [of "load_addr s" a "SWAP32 (ih_size hdr) + 64" "memory s"] assms(2,3) False by simp
  moreover have "\<forall>x. x \<notin> region (load_addr s) n \<longrightarrow> ?m x = memory s x"
    by (simp add: memcpy_def copy_up_frame assms(2))
  ultimately show ?thesis using False
    by (intro exI [of _ "load_addr s"] exI [of _ ?m] exI [of _ u]) auto
qed

text \<open>
  C32: a damaged image is not started.  Any image of \<open>mkimage\<close> but a multi-file one with one byte of
  its data exchanged, at the address on the command line or at \<open>load_addr\<close>, in RAM or in flash, with
  \<open>verify\<close> not set or set to anything but a word that starts with \<open>n\<close>: \<open>bootm\<close> returns 1.  Neither
  the kernel nor an application is entered, and nothing is written to the load address.  An image in RAM
  leaves everything but the console as it was; an image in flash has been copied to \<open>load_addr\<close>
  before the check, and nothing else.
\<close>

theorem bootm_refuses_damaged_data:
  assumes "img = mkimage os arch type cmp ad ep time name files" "type \<noteq> IH_TYPE_MULTI"
    and "bootm_address s argc argv a"
    and "bytes_at (memory s) a (length img) = img[64 + i := b]" "b \<noteq> img ! (64 + i)"
    and "64 + i < length img" "length img < 2 ^ 32"
    and "bi_env s = Some e" "env_rep (env_data e) vars rest"
    and "\<nexists>v. map_of vars (lit ''verify'') = Some (ch CHR ''n'' # v)"
    and "addr2info a s \<noteq> None \<longrightarrow> up_safe (load_addr s) a (length img)" "120 < CFG_PBSIZE cfg"
  shows "\<exists>hdr u m. do_bootm cfg ext cmdname argc argv s = Inr ((1, hdr), s\<lparr>con_out := u, memory := m\<rparr>)
    \<and> (if addr2info a s = None then m = memory s
       else bytes_at m (load_addr s) (length img) = img[64 + i := b]
         \<and> (\<forall>x. x \<notin> region (load_addr s) (length img) \<longrightarrow> m x = memory s x))"
proof -
  let ?d = "mk_data type files"
  define h where "h = mk_header os arch type cmp ad ep time name ?d"
  let ?k = "hdr_bytes (h\<lparr>ih_hcrc := SWAP32 (header_crc h)\<rparr>)"
  note q = mkimage_parts [OF h_def]
  have i: "img = ?k @ ?d" unfolding assms(1) by (rule q(1))
  then have l: "length img = 64 + length ?d" using q(2) by simp
  have u: "img[64 + i := b] = ?k @ ?d[i := b]" using q(2) by (simp add: i list_update_append)
  have d: "bytes_at m x 64 = ?k" "bytes_at m (x + 64) (length ?d) = ?d[i := b]"
    if "bytes_at m x (length img) = img[64 + i := b]" for m x
  proof -
    have "bytes_at m x 64 @ bytes_at m (x + of_nat 64) (length ?d) = ?k @ ?d[i := b]"
      using that unfolding l bytes_at_append u .
    then show "bytes_at m x 64 = ?k" "bytes_at m (x + 64) (length ?d) = ?d[i := b]"
      using q(2) by simp_all
  qed
  have hm: "ih_magic h = SWAP32 IH_MAGIC" "ih_hcrc h = 0" "ih_type h = type" by (simp_all add: h_def mk_header_def)
  note cr = header_crcs [OF q(3) [OF d(1) [OF assms(4)]] hm(1,2)]
  have s: "unat (SWAP32 (ih_size h)) = length ?d" "SWAP32 (ih_dcrc h) = crc32 0 (Some ?d)"
    using assms(7) l by (simp_all add: h_def mk_header_def unat_of_nat)
  have len: "unat (SWAP32 (ih_size h) + 64) = length img"
    using s(1) l assms(7) by (simp add: unat_word_ariths)
  obtain p where p: "getenv cfg s (lit ''verify'') = Inr (p, s)" "map_option cstr_of p = map_of vars (lit ''verify'')"
    using ram_getenv [OF assms(8,9) valid_boot_names(2)] by blast
  have verify: "case p of None \<Rightarrow> True | Some t \<Rightarrow> hd0 t \<noteq> ch CHR ''n''"
  proof (cases p)
    case (Some t)
    then have "map_of vars (lit ''verify'') = Some (cstr_of t)" using p(2) by simp
    with assms(10) have "hd0 (cstr_of t) \<noteq> ch CHR ''n''" by (cases "cstr_of t") simp_all
    then show ?thesis using Some by (simp add: hd0_cstr_of)
  qed simp
  let ?h = "header_at (memory s) a\<lparr>ih_hcrc := 0\<rparr>"
  define s0 where "s0 = puts (printed cfg (lit ''## Booting image at %08lx ...\<newline>'') [AInt a]) s"
  have s0: "memory s0 = memory s" "load_addr s0 = load_addr s" "addr2info a s0 = addr2info a s"
    by (simp_all add: s0_def puts_out)
  have "addr2info a s0 \<noteq> None \<longrightarrow> up_safe (load_addr s0) a (length img)" using assms(11) by (simp add: s0)
  from from_flash_out [OF assms(12) len this, unfolded s0] obtain x m v where
    f: "from_flash cfg a h s0 = Inr (x, s0\<lparr>con_out := v, memory := m\<rparr>)"
      "bytes_at m x (length img) = bytes_at (memory s) a (length img)"
      "if addr2info a s = None then x = a \<and> m = memory s
       else x = load_addr s \<and> (\<forall>y. y \<notin> region (load_addr s) (length img) \<longrightarrow> m y = memory s y)"
    by (elim exE conjE)
  note copied = f(2) [unfolded assms(4)]
  have bad: "data_crc m (x + 64) (SWAP32 (ih_size h)) \<noteq> SWAP32 (ih_dcrc h)"
    using crc32_list_update [of i ?d b] assms(5,6) l q(2) by (simp add: data_crc_def s d(2) [OF copied] i nth_append)
  have "ih_type (header_at m x) \<noteq> IH_TYPE_MULTI"
    using assms(2) hm(3) q(3) [OF d(1) [OF copied]] by simp
  with print_image_out [OF assms(12), of "header_at m x" "Some (x + 64)" "s0\<lparr>con_out := v, memory := m\<rparr>"]
  obtain w where "print_image_hdr cfg (header_at m x) (Some (x + 64)) (s0\<lparr>con_out := v, memory := m\<rparr>)
      = Inr ((), s0\<lparr>con_out := v, memory := m\<rparr>\<lparr>con_out := w\<rparr>)" by blast
  then have w: "print_image_hdr cfg (header_at m x) (Some (x + 64)) (s0\<lparr>con_out := v, memory := m\<rparr>)
      = Inr ((), s0\<lparr>con_out := w, memory := m\<rparr>)" by simp
  have a: "(if argc < 2 then Inr (load_addr s) else sbind (argv_str argv 1) (\<lambda>a. Inr (fst (simple_strtoul a 16)))) = Inr a"
    using assms(3) by (auto simp: bootm_address_def)
  let ?s1 = "puts (printed cfg (lit ''Bad Data CRC\<newline>'') []) (puts (printed cfg (lit ''   Verifying Checksum ... '') [])
    (s0\<lparr>con_out := w, memory := m\<rparr>))"
  have pm: "memory (puts t z) = memory z" for t z by (simp add: puts_out)
  have v: "(case p of None \<Rightarrow> True | Some t \<Rightarrow> hd0 t \<noteq> ch CHR ''n'') = True" using verify by simp
  have "do_bootm cfg ext cmdname argc argv s = Inr ((1, h), ?s1)"
    unfolding do_bootm_def p(1) sbind.simps prod.case Let_def a v
      printf_prints [OF boot_prints(2) [OF assms(12)]] s0_def [symmetric]
    by (simp add: s0 cr f(1) w says [OF assms(12)] bad pm)
  moreover have "\<exists>u. ?s1 = s\<lparr>con_out := u, memory := m\<rparr>"
    by (rule exI [of _ "con_out ?s1"]) (simp add: s0_def puts_out)
  ultimately have "\<exists>u. do_bootm cfg ext cmdname argc argv s = Inr ((1, h), s\<lparr>con_out := u, memory := m\<rparr>)"
    by simp
  moreover have "if addr2info a s = None then m = memory s
       else bytes_at m (load_addr s) (length img) = img[64 + i := b]
         \<and> (\<forall>x. x \<notin> region (load_addr s) (length img) \<longrightarrow> m x = memory s x)"
    using f(3) copied by auto
  ultimately show ?thesis by blast
qed

lemma copy_up_same: "copy_up n m a a = m"
  by (induction n arbitrary: m a) simp_all

text \<open>
  C39: with a ramdisk on the command line the kernel is entered at the ramdisk's entry point.
  \<open>boot_linux\<close> reads the ramdisk's header into the same \<open>header\<close> and takes the entry point from it
  afterwards, whatever the kernel's header said.
\<close>

theorem ramdisk_replaces_entry_point:
  assumes "img = mkimage IH_OS_LINUX IH_CPU_ARM IH_TYPE_RAMDISK cmp ad ep time name [f]"
    and "bytes_at (memory s) a (length img) = img" "length img < 2 ^ 32"
    and "argv_str argv 2 = Inr t" "fst (simple_strtoul t 16) = a" "a + 64 \<noteq> 0"
    and "boot_env s vars c" "3 \<le> argc" "120 < CFG_PBSIZE cfg"
  shows "\<exists>hdr' s'. boot_linux cfg ext argc argv lp v hdr s =
      sbind (theKernel ext ep 0 (bi_arch_number s) s') (\<lambda>(_, t). Inr (hdr', t))
    \<and> read_tags (length (bi_dram s) + 4) (memory s') (bi_boot_params s)
      = boot_tags (bi_dram s) c (a + 64) (of_nat (length f))"
proof -
  let ?h = "mk_header IH_OS_LINUX IH_CPU_ARM IH_TYPE_RAMDISK cmp ad ep time name f"
  have d: "mk_data IH_TYPE_RAMDISK [f] = f" by (simp add: mk_data_def copy_file_def Let_def)
  have i: "image_at (memory s) a ?h f" using mkimage_at [OF assms(1-3)] by (simp add: d)
  have h: "ih_os ?h = IH_OS_LINUX" "ih_arch ?h = IH_CPU_ARM" "ih_type ?h = IH_TYPE_RAMDISK"
    "SWAP32 (ih_ep ?h) = ep" "SWAP32 (ih_size ?h) = of_nat (length f)" by (simp_all add: mk_header_def)
  obtain p where p: "getenv cfg s (lit ''bootargs'') = Inr (p, s)" "map_option cstr_of p = map_of vars (lit ''bootargs'')"
    using boot_getenv [OF assms(7) valid_boot_names(1)] by blast
  then obtain x where x: "p = Some x" "cstr_of x = c" using assms(7) by (auto simp: boot_env_def)
  obtain u where r: "load_ramdisk cfg a v s = Inr ((a + 64, of_nat (length f), ?h), s\<lparr>con_out := u\<rparr>)"
    using load_ramdisk_ok [OF i h(1-3) assms(9)] h(5) by metis
  from assms(7) have "0 \<notin> set c" "length c < 2 ^ 16" "length (bi_dram s) < 2 ^ 16" by (simp_all add: boot_env_def)
  from params_stored [OF this, of "a + 64" "a + 64 + of_nat (length f)" "bi_boot_params s" "memory s"] obtain B where
    B: "setup_end_tag (setup_initrd_tag (a + 64) (a + 64 + of_nat (length f)) (setup_commandline_tag c
        (setup_memory_tags (bi_dram s) (setup_start_tag (bi_boot_params s) (memory s)))))
      = store_bytes (memory s) (bi_boot_params s) B"
    "read_tags (length (bi_dram s) + 4) (store_bytes (memory s) (bi_boot_params s) B) (bi_boot_params s)
      = boot_tags (bi_dram s) c (a + 64) (of_nat (length f))" by auto
  have "\<exists>w. boot_linux cfg ext argc argv lp v hdr s = sbind (theKernel ext ep 0 (bi_arch_number s)
      (s\<lparr>memory := store_bytes (memory s) (bi_boot_params s) B, con_out := w\<rparr>)) (\<lambda>(_, t). Inr (?h, t))"
    using assms(6,8) x
    by (simp add: boot_linux_def p(1) assms(4,5) r Let_def B(1) says printf_prints boot_prints assms(9) puts_out
        memmove_def copy_up_same h(4)) (rule exI, rule refl)
  with B(2) show ?thesis by force
qed

section \<open>Runs\<close>

text \<open>A machine with an image at its load address, and code outside that returns at once.\<close>

definition boot_sys :: "byte list \<Rightarrow> sys" where
  "boot_sys img = (reset_sys 0)\<lparr>bi_env := Some \<lparr>env_crc = 0, env_data = entries [(lit ''bootargs'', lit '' ro'')] @ [0, 0]\<rparr>,
     memory := store_bytes zero_mem 0x8000 img, load_addr := 0x8000, bi_boot_params := 0x100,
     bi_arch_number := 25, bi_dram := [(0xC0000000, 0x1000000)]\<rparr>"

definition returning :: external where
  "returning = \<lparr>theKernel = (\<lambda>_ _ _ s. Inr ((), s)), appl = (\<lambda>_ _ _ s. Inr (0, s)), inflateInit2 = 0,
     inflate = (\<lambda>m i l dst k. (0, dst, m)), malloc_ok = (\<lambda>_. True)\<rparr>"

lemma length_single: "type \<noteq> IH_TYPE_MULTI \<Longrightarrow> type \<noteq> IH_TYPE_SCRIPT \<Longrightarrow> length (mkimage os arch type cmp ad ep time name [f]) = 64 + length f"
  using mkimage_parts(1,2) [of _ os arch type cmp ad ep time name "[f]", OF refl]
  by (simp add: mk_data_def copy_file_def Let_def)

definition kernel_file :: "byte list" where
  "kernel_file = [1, 2, 3]"

definition kernel_image :: "byte list" where
  "kernel_image = mkimage IH_OS_LINUX IH_CPU_ARM IH_TYPE_KERNEL IH_COMP_NONE 0x4000 0x4004 0 (lit ''linux'') [kernel_file]"

definition ramdisk_image :: "byte list" where
  "ramdisk_image = mkimage IH_OS_LINUX IH_CPU_ARM IH_TYPE_RAMDISK IH_COMP_NONE 0 0x1234 0 [] [kernel_file]"

lemma length_images [simp]: "length kernel_file = 3" "length kernel_image = 67" "length ramdisk_image = 67"
  by (simp_all add: kernel_file_def kernel_image_def ramdisk_image_def length_single)

lemma boot_sys_facts:
  "length img < 2 ^ 32 \<Longrightarrow> bytes_at (memory (boot_sys img)) 0x8000 (length img) = img"
  "load_addr (boot_sys img) = 0x8000" "addr2info a (boot_sys img) = None" "bi_boot_params (boot_sys img) = 0x100"
  "bi_dram (boot_sys img) = [(0xC0000000, 0x1000000)]" "bi_arch_number (boot_sys img) = 25"
  "boot_env (boot_sys img) [(lit ''bootargs'', lit '' ro'')] (lit '' ro'')" "120 < CFG_PBSIZE dnp1110"
proof -
  show "length img < 2 ^ 32 \<Longrightarrow> bytes_at (memory (boot_sys img)) 0x8000 (length img) = img"
    using bytes_at_store_bytes [of img zero_mem "0x8000"] by (simp add: boot_sys_def)
  have "\<exists>rest. env_rep (entries [(lit ''bootargs'', lit '' ro'')] @ [0, 0]) [(lit ''bootargs'', lit '' ro'')] rest"
    by (rule exI [of _ "[0]"]) (simp add: env_rep_def valid_name_def lit_def)
  then show "boot_env (boot_sys img) [(lit ''bootargs'', lit '' ro'')] (lit '' ro'')"
    by (simp add: boot_env_def boot_sys_def) (simp add: lit_def)
qed (simp_all add: boot_sys_def addr2info_def reset_sys_def dnp1110_def)

theorem mkimage_passes_iminfo_witness:
  "\<exists>hdr u. image_info dnp1110 0x8000 (boot_sys kernel_image) = Inr ((0, hdr), boot_sys kernel_image\<lparr>con_out := u\<rparr>)
    \<and> SWAP32 (ih_load hdr) = 0x4000 \<and> SWAP32 (ih_ep hdr) = 0x4004 \<and> SWAP32 (ih_time hdr) = 0
    \<and> cstr_of (ih_name hdr) = take 32 (cstr_of (lit ''linux''))
    \<and> (ih_os hdr, ih_arch hdr, ih_type hdr, ih_comp hdr) = (5, 2, 2, 0)"
  using boot_sys_facts(1) [of kernel_image]
  by (intro mkimage_passes_iminfo [OF kernel_image_def]) (simp_all add: boot_sys_facts(2-))

theorem bootm_starts_kernel_witness:
  "\<exists>hdr s'. do_bootm dnp1110 returning (lit ''bootm'') 1 [Some (lit ''bootm''), None] (boot_sys kernel_image) =
      sbind (theKernel returning 0x4004 0 (bi_arch_number (boot_sys kernel_image)) s') (\<lambda>(_, t).
      sbind (printf dnp1110 (lit ''\<newline>## Control returned to monitor\<newline>'') [] t) (\<lambda>(_, t). Inr ((0, hdr), t)))
    \<and> bytes_at (memory s') 0x4000 (length kernel_file) = kernel_file
    \<and> read_tags (length (bi_dram (boot_sys kernel_image)) + 4) (memory s') (bi_boot_params (boot_sys kernel_image))
      = boot_tags (bi_dram (boot_sys kernel_image)) (lit '' ro'') 0 0"
proof -
  have "params_size [(0xC0000000, 0x1000000)] (lit '' ro'') = 44 + 16 + 12"
    by (simp add: params_size_def boot_tags_def tag_words_def lit_def)
  then have "region (0x4000 :: addr) 3 \<inter> region 0x100 (params_size [(0xC0000000, 0x1000000)] (lit '' ro'')) = {}"
    by (intro region_disjoint) simp_all
  moreover have "up_safe (0x4000 :: addr) (0x8000 + 64) 3" by (rule up_safe_below) (simp_all add: no_wrap_def)
  ultimately show ?thesis using boot_sys_facts(1) [of kernel_image]
    by (intro bootm_starts_kernel [OF kernel_image_def, where vars = "[(lit ''bootargs'', lit '' ro'')]"])
      (simp_all add: boot_sys_facts(2-))
qed

text \<open>The image in a flash bank, \<open>verify\<close> set to \<open>yes\<close>, and its address given to the command.\<close>

definition flash_boot_sys :: "byte list \<Rightarrow> sys" where
  "flash_boot_sys img = (reset_sys 0)\<lparr>
     bi_env := Some \<lparr>env_crc = 0, env_data = entries [(lit ''verify'', lit ''yes'')] @ [0, 0]\<rparr>,
     memory := store_bytes zero_mem 0x8000 img, load_addr := 0x100000,
     flash_info := [\<lparr>fi_size = 0x10000, sector_count = 1, flash_id = 0, fi_start = [0], fi_protect = [0]\<rparr>]\<rparr>"

theorem bootm_refuses_damaged_data_witness:
  "\<exists>hdr u m. do_bootm dnp1110 returning (lit ''bootm'') 2 [Some (lit ''bootm''), Some (lit ''8000''), None]
      (flash_boot_sys (kernel_image[64 + 1 := kernel_image ! (64 + 1) + 1]))
    = Inr ((1, hdr), flash_boot_sys (kernel_image[64 + 1 := kernel_image ! (64 + 1) + 1])\<lparr>con_out := u, memory := m\<rparr>)
    \<and> bytes_at m 0x100000 67 = kernel_image[64 + 1 := kernel_image ! (64 + 1) + 1]"
proof -
  let ?img = "kernel_image[64 + 1 := kernel_image ! (64 + 1) + 1]" and ?e = "\<lparr>env_crc = 0, env_data = entries [(lit ''verify'', lit ''yes'')] @ [0, 0]\<rparr>"
  let ?s = "flash_boot_sys ?img"
  have b: "bytes_at (memory ?s) 0x8000 (length kernel_image) = ?img"
    using bytes_at_store_bytes [of ?img zero_mem "0x8000"] by (simp add: flash_boot_sys_def)
  have e: "bi_env ?s = Some ?e" by (simp add: flash_boot_sys_def)
  have r: "env_rep (env_data ?e) [(lit ''verify'', lit ''yes'')] [0]"
    by (simp add: env_rep_def valid_name_def lit_def)
  have v: "\<nexists>v. map_of [(lit ''verify'', lit ''yes'')] (lit ''verify'') = Some (ch CHR ''n'' # v)"
    by (simp add: lit_def)
  have "fst (simple_strtoul (lit ''8000'') 16) = 0x8000" by code_simp
  then have a: "bootm_address ?s 2 [Some (lit ''bootm''), Some (lit ''8000''), None] 0x8000"
    by (simp add: bootm_address_def argv_str_def)
  have l: "load_addr ?s = 0x100000" by (simp add: flash_boot_sys_def)
  have i: "addr2info 0x8000 ?s \<noteq> None"
    by (simp add: flash_boot_sys_def addr2info_def in_bank_def)
  have "region 0x100000 67 \<inter> region (0x8000 :: addr) 67 = {}" by (rule region_disjoint) simp_all
  then have u: "up_safe (load_addr ?s) 0x8000 (length kernel_image)"
    unfolding l by (intro up_safe_disjoint) simp_all
  have n: "kernel_image ! (64 + 1) + 1 \<noteq> kernel_image ! (64 + 1)" by simp
  have "IH_TYPE_KERNEL \<noteq> IH_TYPE_MULTI" "64 + 1 < length kernel_image" "length kernel_image < 2 ^ 32"
    "120 < CFG_PBSIZE dnp1110" by (simp_all add: dnp1110_def)
  from bootm_refuses_damaged_data [OF kernel_image_def this(1) a b n this(2,3) e r v _ this(4), of returning "lit ''bootm''"] i u
  obtain hdr w m where "do_bootm dnp1110 returning (lit ''bootm'') 2 [Some (lit ''bootm''), Some (lit ''8000''), None] ?s
      = Inr ((1, hdr), ?s\<lparr>con_out := w, memory := m\<rparr>)" "bytes_at m (load_addr ?s) (length kernel_image) = ?img"
    by (auto simp only: if_False simp_thms)
  then show ?thesis unfolding l by (intro exI [of _ hdr] exI [of _ w] exI [of _ m]) simp
qed

theorem ramdisk_replaces_entry_point_witness:
  "\<exists>hdr' s'. boot_linux dnp1110 returning 3 [Some (lit ''bootm''), Some (lit ''0''), Some (lit ''8000''), None] 0 True
      (hdr_of (replicate 64 0)) (boot_sys ramdisk_image) =
      sbind (theKernel returning 0x1234 0 (bi_arch_number (boot_sys ramdisk_image)) s') (\<lambda>(_, t). Inr (hdr', t))
    \<and> read_tags (length (bi_dram (boot_sys ramdisk_image)) + 4) (memory s') (bi_boot_params (boot_sys ramdisk_image))
      = boot_tags (bi_dram (boot_sys ramdisk_image)) (lit '' ro'') (0x8000 + 64) (of_nat (length kernel_file))"
proof -
  have "fst (simple_strtoul (lit ''8000'') 16) = 0x8000" by code_simp
  with boot_sys_facts(1) [of ramdisk_image] show ?thesis
    by (intro ramdisk_replaces_entry_point [OF ramdisk_image_def, where t = "lit ''8000''"
          and vars = "[(lit ''bootargs'', lit '' ro'')]"])
      (simp_all add: boot_sys_facts(2-) argv_str_def)
qed

end
