(* ===== verification/Loop.thy ===== *)
theory Loop
  imports Console CString
begin

text \<open>
  Loops that can end by returning, by stopping the program or not at all, and the copy of a
  byte string within itself that decompressors use.
\<close>

section \<open>Loops\<close>

text \<open>
  A loop whose body gives the next state, or what the loop is left with.  A loop that never ends is
  \<open>Hang\<close>.
\<close>

partial_function (option) iterate :: "('s \<Rightarrow> 'e + ('s + 'r)) \<Rightarrow> 's \<Rightarrow> ('e + 'r) option" where
  "iterate body s =
     (case body s of
        Inl e \<Rightarrow> Some (Inl e)
      | Inr (Inl s') \<Rightarrow> iterate body s'
      | Inr (Inr r) \<Rightarrow> Some (Inr r))"

definition loop :: "('s \<Rightarrow> stop + ('s + 'r)) \<Rightarrow> 's \<Rightarrow> stop + 'r" where
  "loop body s = (case iterate body s of None \<Rightarrow> Inl Hang | Some r \<Rightarrow> r)"

lemma sbind_assoc: "sbind (sbind r f) g = sbind r (\<lambda>x. sbind (f x) g)"
  by (cases r) simp_all

lemma loop_simps:
  "body s = Inl e \<Longrightarrow> loop body s = Inl e"
  "body s = Inr (Inl s') \<Longrightarrow> loop body s = loop body s'"
  "body s = Inr (Inr r) \<Longrightarrow> loop body s = Inr r"
  unfolding loop_def by (subst iterate.simps, simp)+

lemma loop_unfold:
  "loop body s = sbind (body s) (\<lambda>x. case x of Inl s' \<Rightarrow> loop body s' | Inr r \<Rightarrow> Inr r)"
  by (cases "body s") (auto simp: loop_simps split: sum.split)

text \<open>Total correctness: an invariant, a measure, and what holds at the end.\<close>

lemma loop_total:
  assumes "P s"
    and step: "\<And>s. P s \<Longrightarrow> (\<exists>s'. body s = Inr (Inl s') \<and> P s' \<and> (m s' :: nat) < m s) \<or> (\<exists>r. body s = Inr (Inr r) \<and> Q r)"
  shows "\<exists>r. loop body s = Inr r \<and> Q r"
  using assms(1)
proof (induction "m s" arbitrary: s rule: less_induct)
  case less
  from step [OF less.prems] show ?case
  proof
    assume "\<exists>s'. body s = Inr (Inl s') \<and> P s' \<and> m s' < m s"
    then obtain s' where "body s = Inr (Inl s')" "P s'" "m s' < m s" by blast
    then show ?thesis using less.hyps [of s'] by (simp add: loop_simps)
  qed (auto simp: loop_simps)
qed

text \<open>A loop that never leaves what it keeps never ends.\<close>

lemma loop_hangs:
  assumes "P s" and step: "\<And>s. P s \<Longrightarrow> \<exists>s'. body s = Inr (Inl s') \<and> P s'"
  shows "loop body s = Inl Hang"
proof -
  have "b = body \<longrightarrow> \<not> P s" if "iterate b s = Some r" for b s r
  proof (rule iterate.raw_induct [where P = "\<lambda>b s r. b = body \<longrightarrow> \<not> P s", OF _ that], intro impI notI)
    fix it b s r
    assume ih: "\<And>b s r. it b s = Some r \<Longrightarrow> b = body \<longrightarrow> \<not> P s"
      and i: "(case b s of Inl e \<Rightarrow> Some (Inl e) | Inr (Inl s') \<Rightarrow> it b s' | Inr (Inr r) \<Rightarrow> Some (Inr r)) = Some r"
      and b: "b = body" and "P s"
    then obtain s' where "body s = Inr (Inl s')" "P s'" using step by blast
    then show False using ih [of b s' r] i b by simp
  qed
  then have "iterate body s = None" using assms(1) by (cases "iterate body s") auto
  then show ?thesis by (simp add: loop_def)
qed

lemma sint_unat_small:
  fixes w :: u32
  assumes "unat w < 2 ^ 31"
  shows "sint w = int (unat w)"
proof -
  have "int (unat w) < 2 ^ 31" using assms by (simp only: of_nat_less_iff [symmetric, where 'a = int]) simp
  then have "signed_take_bit 31 (int (unat w)) = int (unat w)" 
    by (intro signed_take_bit_int_eq_self) (rule order_trans [of _ 0], simp_all)
  then show ?thesis by (simp add: sint_uint)
qed

section \<open>Copies within the output\<close>

lemma region_numeral: "region a (numeral k) = insert a (region (a + 1) (pred_numeral k))" "region a 1 = {a}"
  by (simp_all add: numeral_eq_Suc region_Suc)

lemma bytes_at_numeral: "bytes_at m a (numeral k) = m a # bytes_at m (a + 1) (pred_numeral k)" "bytes_at m a 1 = [m a]"
  by (simp_all add: numeral_eq_Suc bytes_at_Suc)

lemma region_sub:
  assumes "i + k \<le> n"
  shows "region (a + of_nat i) k \<subseteq> region a n"
proof
  fix x assume "x \<in> region (a + of_nat i) k"
  then obtain j where "j < k" "x = a + of_nat (i + j)" by (auto simp: region_def add.assoc)
  then show "x \<in> region a n" using assms by (simp add: in_region_offset del: of_nat_add)
qed

primrec lz_copy :: "nat \<Rightarrow> nat \<Rightarrow> 'a list \<Rightarrow> 'a list" where
  "lz_copy 0 b out = out"
| "lz_copy (Suc n) b out = lz_copy n (Suc b) (out @ [out ! b])"

lemma length_lz_copy [simp]: "length (lz_copy n b out) = length out + n"
  by (induction n arbitrary: b out) simp_all

lemma copy_up_lz:
  assumes "bytes_at m d (length out) = out" "b < length out" "length out + n < 2 ^ 32"
  shows "bytes_at (copy_up n m (d + of_nat (length out)) (d + of_nat b)) d (length out + n) = lz_copy n b out"
  using assms
proof (induction n arbitrary: m b out)
  case (Suc n)
  let ?m = "m(d + of_nat (length out) := m (d + of_nat b))"
  have "bytes_at ?m d (length out) = bytes_at m d (length out)"
  proof (rule bytes_at_eqI)
    fix i assume "i < length out"
    then have "d + of_nat i \<noteq> d + of_nat (length out)"
      using Suc.prems(3) by (subst of_nat_word_inj) simp_all
    then show "?m (d + of_nat i) = m (d + of_nat i)" by simp
  qed
  moreover have "m (d + of_nat b) = out ! b" using Suc.prems(1,2) nth_bytes_at by metis
  ultimately have "bytes_at ?m d (length (out @ [out ! b])) = out @ [out ! b]"
    using Suc.prems(1) bytes_at_append [of ?m d "length out" 1] by (simp add: bytes_at_Suc)
  from Suc.IH [OF this, of "Suc b"] show ?case using Suc.prems(2,3) by (simp add: add_ac fun_upd_def)
qed simp

lemma lz_copy_match:
  assumes "b < p" "p + n \<le> length xs" "\<And>k. k < n \<Longrightarrow> xs ! (b + k) = xs ! (p + k)"
  shows "lz_copy n b (take p xs) = take (p + n) xs"
  using assms
proof (induction n arbitrary: b p)
  case (Suc n)
  have "take p xs @ [take p xs ! b] = take (Suc p) xs"
    using Suc.prems(1,2) Suc.prems(3) [of 0] by (simp add: take_Suc_conv_app_nth)
  moreover have "lz_copy n (Suc b) (take (Suc p) xs) = take (Suc p + n) xs"
    using Suc.prems by (intro Suc.IH) (auto dest: Suc.prems(3) [of "Suc k" for k, simplified])
  ultimately show ?case by simp
qed simp

end
