(* ===== verification/Inflate.thy ===== *)
theory Inflate
  imports Loop Image
begin

text \<open>
  The inflater of the flash file system: \<^verbatim>\<open>fs/jffs2/mini_inflate.c\<close>, with \<^verbatim>\<open>fs/jffs2/compr_zlib.c\<close>.

  The arrays of \<open>struct bitstream\<close> are lists of their declared sizes; an access outside is
  \<open>BadAccess\<close>.  They start with what is on the stack, the function \<open>junk\<close>.
\<close>

section \<open>State\<close>

record huffman_set =
  hs_bits :: nat
  num_symbols :: nat
  hs_lengths :: "int list"
  hs_symbols :: "int list"
  hs_count :: "int list"
  hs_first :: "int list"
  hs_pos :: "int list"

record bitstream =
  bs_data :: addr
  bs_bit :: nat
  bs_decoded :: u32
  bs_error :: int
  bs_codes :: huffman_set
  bs_lengths :: huffman_set
  bs_distance :: huffman_set

abbreviation (input) NO_ERROR :: int where "NO_ERROR \<equiv> 0"
abbreviation (input) COMP_UNKNOWN :: int where "COMP_UNKNOWN \<equiv> 1"
abbreviation (input) CODE_NOT_FOUND :: int where "CODE_NOT_FOUND \<equiv> 2"
abbreviation (input) NO_COMP :: int where "NO_COMP \<equiv> 0"
abbreviation (input) FIXED_COMP :: int where "FIXED_COMP \<equiv> 1"
abbreviation (input) DYNAMIC_COMP :: int where "DYNAMIC_COMP \<equiv> 2"

definition huffman_order :: "nat list" where
  "huffman_order = [16, 17, 18, 0, 8, 7, 9, 6, 10, 5, 11, 4, 12, 3, 13, 2, 14, 1, 15]"

definition init_set :: "(nat \<Rightarrow> int) \<Rightarrow> nat \<Rightarrow> nat \<Rightarrow> huffman_set" where
  "init_set junk bits n =
     \<lparr>hs_bits = bits, num_symbols = n, hs_lengths = map junk [0..<n], hs_symbols = map junk [0..<n],
      hs_count = map junk [0..<bits], hs_first = map junk [0..<bits], hs_pos = map junk [0..<bits]\<rparr>"

definition init_stream :: "(nat \<Rightarrow> int) \<Rightarrow> addr \<Rightarrow> bitstream" where
  "init_stream junk data =
     \<lparr>bs_data = data, bs_bit = 0, bs_decoded = 0, bs_error = NO_ERROR, bs_codes = init_set junk 8 19,
      bs_lengths = init_set junk 16 288, bs_distance = init_set junk 16 32\<rparr>"

text \<open>An index of type \<open>int\<close>.\<close>

definition rd_int :: "int list \<Rightarrow> int \<Rightarrow> stop + int" where
  "rd_int xs i = (if 0 \<le> i \<and> nat i < length xs then Inr (xs ! nat i) else Inl BadAccess)"

definition wr_int :: "int list \<Rightarrow> int \<Rightarrow> int \<Rightarrow> stop + int list" where
  "wr_int xs i x = (if 0 \<le> i \<and> nat i < length xs then Inr (xs[nat i := x]) else Inl BadAccess)"

section \<open>Bits\<close>

definition pull_bit :: "mem \<Rightarrow> bitstream \<Rightarrow> int \<times> bitstream" where
  "pull_bit m st =
     (let ret = uint (drop_bit (bs_bit st) (m (bs_data st)) AND 1)
      in if bs_bit st = 7 then (ret, st\<lparr>bs_bit := 0, bs_data := bs_data st + 1\<rparr>)
         else (ret, st\<lparr>bs_bit := bs_bit st + 1\<rparr>))"

primrec pull_bits_loop :: "mem \<Rightarrow> nat \<Rightarrow> nat \<Rightarrow> int \<Rightarrow> bitstream \<Rightarrow> int \<times> bitstream" where
  "pull_bits_loop m 0 i ret st = (ret, st)"
| "pull_bits_loop m (Suc n) i ret st =
     (let (b, st) = pull_bit m st in pull_bits_loop m n (i + 1) (ret + b * 2 ^ i) st)"

definition pull_bits :: "mem \<Rightarrow> nat \<Rightarrow> bitstream \<Rightarrow> int \<times> bitstream" where
  "pull_bits m bits st = pull_bits_loop m bits 0 0 st"

definition discard_bits :: "bitstream \<Rightarrow> bitstream" where
  "discard_bits st = (if bs_bit st \<noteq> 0 then st\<lparr>bs_bit := 0, bs_data := bs_data st + 1\<rparr> else st)"

definition decompress_none :: "addr \<Rightarrow> mem \<times> bitstream \<Rightarrow> mem \<times> bitstream" where
  "decompress_none dest mst =
     (case mst of (m, st) \<Rightarrow>
        let st = discard_bits st;
            length = ucast (m (bs_data st)) + push_bit 8 (ucast (m (bs_data st + 1)));
            st = st\<lparr>bs_data := bs_data st + 2\<rparr>;
            (_, st) = pull_bits m 16 st;
            st = st\<lparr>bs_decoded := bs_decoded st + length\<rparr>;
            m = fst (memcpy m dest (bs_data st) length)
        in (m, st\<lparr>bs_data := bs_data st + length\<rparr>))"

section \<open>Symbols\<close>

function read_symbol_loop :: "mem \<Rightarrow> huffman_set \<Rightarrow> nat \<Rightarrow> int \<Rightarrow> bitstream \<Rightarrow> stop + int \<times> bitstream" where
  "read_symbol_loop m hs bits code st =
     sbind (rd_int (hs_count hs) (int bits)) (\<lambda>count.
     sbind (rd_int (hs_first hs) (int bits)) (\<lambda>first.
       if count \<noteq> 0 \<and> code < first + count then
         sbind (rd_int (hs_pos hs) (int bits)) (\<lambda>pos.
         sbind (rd_int (hs_symbols hs) (pos + code - first)) (\<lambda>symbol. Inr (symbol, st)))
       else
         let (b, st) = pull_bit m st; code = 2 * code + b; bits = bits + 1
         in if bits > hs_bits hs then Inr (-1, st\<lparr>bs_error := CODE_NOT_FOUND\<rparr>)
            else read_symbol_loop m hs bits code st))"
  by pat_completeness auto

termination by (relation "measure (\<lambda>(_, hs, bits, _, _). hs_bits hs + 1 - bits)") auto

definition read_symbol :: "mem \<Rightarrow> huffman_set \<Rightarrow> bitstream \<Rightarrow> stop + int \<times> bitstream" where
  "read_symbol m hs st = read_symbol_loop m hs 0 0 st"

definition length_of :: "mem \<Rightarrow> int \<Rightarrow> bitstream \<Rightarrow> int \<times> bitstream" where
  "length_of m symbol st =
     (if symbol < 265 then (symbol - 254, st)
      else if symbol = 285 then (258, st)
      else
        let k = nat ((symbol - 261) div 4); (x, st) = pull_bits m k st
        in (x + 4 * 2 ^ k + 3 + (symbol - 1) mod 4 * 2 ^ k, st))"

definition distance_of :: "mem \<Rightarrow> int \<Rightarrow> bitstream \<Rightarrow> int \<times> bitstream" where
  "distance_of m symbol st =
     (if symbol < 4 then (symbol + 1, st)
      else
        let k = nat ((symbol - 2) div 2); (x, st) = pull_bits m k st
        in (x + 2 * 2 ^ k + 1 + symbol mod 2 * 2 ^ k, st))"

text \<open>One turn of the loop of \<open>decompress_huffman\<close>: what it is left with, or the next state.\<close>

definition huffman_step ::
  "mem \<times> addr \<times> bitstream \<Rightarrow> stop + (mem \<times> addr \<times> bitstream) + (mem \<times> bitstream)" where
  "huffman_step ms =
     (case ms of (m, dest, st) \<Rightarrow>
        sbind (read_symbol m (bs_lengths st) st) (\<lambda>(symbol, st).
        if symbol < 0 then Inr (Inr (m, st))
        else if symbol < 256 then
          Inr (Inl (m(dest := of_int symbol), dest + 1, st\<lparr>bs_decoded := bs_decoded st + 1\<rparr>))
        else if symbol > 256 then
          let (length, st) = length_of m symbol st in
          sbind (read_symbol m (bs_distance st) st) (\<lambda>(symbol, st).
          if symbol < 0 then Inr (Inr (m, st))
          else
            let (dist, st) = distance_of m symbol st;
                st = st\<lparr>bs_decoded := bs_decoded st + of_int length\<rparr>
            in Inr (Inl (copy_up (nat length) m dest (dest - of_int dist), dest + of_int length, st)))
        else Inr (Inr (m, st))))"

definition decompress_huffman :: "addr \<Rightarrow> mem \<times> bitstream \<Rightarrow> stop + (mem \<times> bitstream)" where
  "decompress_huffman dest mst = (case mst of (m, st) \<Rightarrow> loop huffman_step (m, dest, st))"

section \<open>Tables\<close>

definition fill_first :: "nat \<Rightarrow> int \<times> huffman_set \<Rightarrow> int \<times> huffman_set" where
  "fill_first i = (\<lambda>(code, hs).
     let code = (code + hs_count hs ! (i - 1)) * 2
     in (code, hs\<lparr>hs_first := (hs_first hs)[i := code],
                 hs_pos := (hs_pos hs)[i := hs_pos hs ! (i - 1) + hs_count hs ! (i - 1)]\<rparr>))"

primrec fill_symbols :: "nat list \<Rightarrow> huffman_set \<Rightarrow> stop + huffman_set" where
  "fill_symbols [] hs = Inr hs"
| "fill_symbols (i # is) hs =
     (let length = hs_lengths hs ! i in
      if length \<noteq> 0 then
        sbind (rd_int (hs_pos hs) length) (\<lambda>p.
        sbind (wr_int (hs_symbols hs) p (int i)) (\<lambda>symbols.
          fill_symbols is (hs\<lparr>hs_symbols := symbols, hs_pos := (hs_pos hs)[nat length := p + 1]\<rparr>)))
      else fill_symbols is hs)"

text \<open>The arrays of \<open>count\<close>, \<open>first\<close> and \<open>pos\<close> have \<open>bits\<close> elements, those of the symbols \<open>num_symbols\<close>.\<close>

definition fill_code_tables :: "huffman_set \<Rightarrow> stop + huffman_set" where
  "fill_code_tables hs =
     (let hs = hs\<lparr>hs_pos := (hs_pos hs)[0 := 0]\<rparr>;
          (_, hs) = fold fill_first [1..<hs_bits hs] (0, hs)
      in sbind (fill_symbols [0..<num_symbols hs] hs) (\<lambda>hs.
           Inr (fold (\<lambda>i hs. hs\<lparr>hs_pos := (hs_pos hs)[i := hs_pos hs ! i - hs_count hs ! i]\<rparr>)
                  [1..<hs_bits hs] hs)))"

definition cramfs_memset :: "nat \<Rightarrow> int \<Rightarrow> nat \<Rightarrow> int list \<Rightarrow> int list" where
  "cramfs_memset s c n xs = take s xs @ replicate n c @ drop (s + n) xs"

definition init_code_tables :: "huffman_set \<Rightarrow> huffman_set" where
  "init_code_tables hs =
     hs\<lparr>hs_lengths := cramfs_memset 0 0 (num_symbols hs) (hs_lengths hs),
        hs_count := cramfs_memset 0 0 (hs_bits hs) (hs_count hs),
        hs_first := cramfs_memset 0 0 (hs_bits hs) (hs_first hs)\<rparr>"

section \<open>Blocks\<close>

text \<open>\<^verbatim>\<open>set->lengths[curr_code] = len; set->count[len]++;\<close>\<close>

definition set_length :: "int \<Rightarrow> int \<Rightarrow> huffman_set \<Rightarrow> stop + huffman_set" where
  "set_length curr_code len hs =
     sbind (wr_int (hs_lengths hs) curr_code len) (\<lambda>ls.
     sbind (rd_int (hs_count hs) len) (\<lambda>c.
     sbind (wr_int (hs_count hs) len (c + 1)) (\<lambda>cs.
       Inr (hs\<lparr>hs_lengths := ls, hs_count := cs\<rparr>))))"

primrec code_lengths :: "mem \<Rightarrow> nat list \<Rightarrow> huffman_set \<times> bitstream \<Rightarrow> huffman_set \<times> bitstream" where
  "code_lengths m [] hst = hst"
| "code_lengths m (i # is) hst =
     (case hst of (hs, st) \<Rightarrow>
        let (length, st) = pull_bits m 3 st;
            hs = hs\<lparr>hs_lengths := (hs_lengths hs)[huffman_order ! i := length]\<rparr>;
            hs = (if length \<noteq> 0
                  then hs\<lparr>hs_count := (hs_count hs)[nat length := hs_count hs ! nat length + 1]\<rparr> else hs)
        in code_lengths m is (hs, st))"

text \<open>Symbol 16 in the lengths of the literals; the second component is the set of the distances.\<close>

primrec repeat_length ::
  "nat \<Rightarrow> int \<Rightarrow> int \<Rightarrow> int \<Rightarrow> huffman_set \<times> huffman_set \<Rightarrow> stop + int \<times> huffman_set \<times> huffman_set" where
  "repeat_length 0 hlit last_code curr_code ld = Inr (curr_code, ld)"
| "repeat_length (Suc n) hlit last_code curr_code ld =
     (case ld of (lengths, distance) \<Rightarrow>
        sbind (if curr_code < hlit
               then sbind (set_length curr_code last_code lengths) (\<lambda>lengths. Inr (lengths, distance))
               else sbind (set_length (curr_code - hlit) last_code distance) (\<lambda>distance. Inr (lengths, distance)))
          (repeat_length n hlit last_code (curr_code + 1)))"

text \<open>
  One turn of each of the two loops that read the lengths: None behind the last one, else the current and
  the last code, the set or sets, and the stream; \<open>Inr (Inr None)\<close> is the return on an error.  In the second
  loop the repetition never has a code below \<open>hlit\<close>, which is 0 there.
\<close>

definition literal_lengths_step ::
  "mem \<Rightarrow> int \<Rightarrow> int \<times> int \<times> (huffman_set \<times> huffman_set) \<times> bitstream \<Rightarrow>
    stop + (int \<times> int \<times> (huffman_set \<times> huffman_set) \<times> bitstream)
      + ((int \<times> int \<times> (huffman_set \<times> huffman_set)) option \<times> bitstream)" where
  "literal_lengths_step m hlit cs =
     (case cs of (curr_code, last_code, ld, st) \<Rightarrow>
        if \<not> curr_code < hlit then Inr (Inr (Some (curr_code, last_code, ld), st))
        else
          sbind (read_symbol m (bs_codes st) st) (\<lambda>(symbol, st).
          if symbol < 0 then Inr (Inr (None, st))
          else if symbol = 0 then Inr (Inl (curr_code + 1, 0, ld, st))
          else if symbol < 16 then
            sbind (set_length curr_code symbol (fst ld)) (\<lambda>lengths.
              Inr (Inl (curr_code + 1, symbol, (lengths, snd ld), st)))
          else if symbol = 16 then
            let (x, st) = pull_bits m 2 st in
            sbind (repeat_length (nat (3 + x)) hlit last_code curr_code ld) (\<lambda>(curr_code, ld).
              Inr (Inl (curr_code, last_code, ld, st)))
          else if symbol = 17 then
            let (x, st) = pull_bits m 3 st in Inr (Inl (curr_code + 3 + x, 0, ld, st))
          else
            let (x, st) = pull_bits m 7 st in Inr (Inl (curr_code + 11 + x, 0, ld, st))))"

definition distance_lengths_step ::
  "mem \<Rightarrow> int \<Rightarrow> int \<times> int \<times> huffman_set \<times> bitstream \<Rightarrow>
    stop + (int \<times> int \<times> huffman_set \<times> bitstream) + (huffman_set option \<times> bitstream)" where
  "distance_lengths_step m hdist cs =
     (case cs of (curr_code, last_code, distance, st) \<Rightarrow>
        if \<not> curr_code < hdist then Inr (Inr (Some distance, st))
        else
          sbind (read_symbol m (bs_codes st) st) (\<lambda>(symbol, st).
          if symbol < 0 then Inr (Inr (None, st))
          else if symbol = 0 then Inr (Inl (curr_code + 1, 0, distance, st))
          else if symbol < 16 then
            sbind (set_length curr_code symbol distance) (\<lambda>distance.
              Inr (Inl (curr_code + 1, symbol, distance, st)))
          else if symbol = 16 then
            let (x, st) = pull_bits m 2 st in
            sbind (repeat_length (nat (3 + x)) 0 last_code curr_code (distance, distance)) (\<lambda>(curr_code, _, distance).
              Inr (Inl (curr_code, last_code, distance, st)))
          else if symbol = 17 then
            let (x, st) = pull_bits m 3 st in Inr (Inl (curr_code + 3 + x, 0, distance, st))
          else
            let (x, st) = pull_bits m 7 st in Inr (Inl (curr_code + 11 + x, 0, distance, st))))"

definition decompress_dynamic :: "addr \<Rightarrow> mem \<times> bitstream \<Rightarrow> stop + (mem \<times> bitstream)" where
  "decompress_dynamic dest mst =
     (case mst of (m, st) \<Rightarrow>
        let (x, st) = pull_bits m 5 st; hlit = x + 257;
            (x, st) = pull_bits m 5 st; hdist = x + 1;
            (x, st) = pull_bits m 4 st; hclen = x + 4;
            st = st\<lparr>bs_codes := init_code_tables (bs_codes st), bs_lengths := init_code_tables (bs_lengths st),
                    bs_distance := init_code_tables (bs_distance st)\<rparr>;
            (codes, st) = code_lengths m [0..<nat hclen] (bs_codes st, st)
        in
        sbind (fill_code_tables codes) (\<lambda>codes.
        let st = st\<lparr>bs_codes := codes\<rparr> in
        sbind (loop (literal_lengths_step m hlit) (0, 0, (bs_lengths st, bs_distance st), st)) (\<lambda>(r, st).
        case r of
          None \<Rightarrow> Inr (m, st)
        | Some (curr_code, last_code, lengths, distance) \<Rightarrow>
            sbind (fill_code_tables lengths) (\<lambda>lengths.
            let st = st\<lparr>bs_lengths := lengths\<rparr> in
            sbind (loop (distance_lengths_step m hdist) (curr_code - hlit, last_code, distance, st)) (\<lambda>(r, st).
            case r of
              None \<Rightarrow> Inr (m, st)
            | Some distance \<Rightarrow>
                sbind (fill_code_tables distance) (\<lambda>distance.
                  decompress_huffman dest (m, st\<lparr>bs_distance := distance\<rparr>)))))))"

definition decompress_fixed :: "addr \<Rightarrow> mem \<times> bitstream \<Rightarrow> stop + (mem \<times> bitstream)" where
  "decompress_fixed dest mst =
     (case mst of (m, st) \<Rightarrow>
        let l = bs_lengths st;
            l = l\<lparr>hs_count := cramfs_memset 0 0 16 (hs_count l), hs_first := cramfs_memset 0 0 16 (hs_first l),
                  hs_lengths := cramfs_memset 0 8 144 (hs_lengths l)\<rparr>;
            l = l\<lparr>hs_lengths := cramfs_memset 144 9 112 (hs_lengths l)\<rparr>;
            l = l\<lparr>hs_lengths := cramfs_memset 256 7 24 (hs_lengths l)\<rparr>;
            l = l\<lparr>hs_lengths := cramfs_memset 280 8 8 (hs_lengths l)\<rparr>;
            l = l\<lparr>hs_count := (hs_count l)[7 := 24, 8 := 152, 9 := 112]\<rparr>;
            d = bs_distance st;
            d = d\<lparr>hs_count := cramfs_memset 0 0 16 (hs_count d), hs_first := cramfs_memset 0 0 16 (hs_first d),
                  hs_lengths := cramfs_memset 0 5 32 (hs_lengths d)\<rparr>;
            d = d\<lparr>hs_count := (hs_count d)[5 := 32]\<rparr>
        in
        sbind (fill_code_tables l) (\<lambda>l.
        sbind (fill_code_tables d) (\<lambda>d.
          decompress_huffman dest (m, st\<lparr>bs_lengths := l, bs_distance := d\<rparr>))))"

definition block_step :: "addr \<Rightarrow> mem \<times> bitstream \<Rightarrow> stop + (mem \<times> bitstream) + (mem \<times> bitstream)" where
  "block_step dest mst =
     (case mst of (m, st) \<Rightarrow>
        let (bfinal, st) = pull_bit m st; (btype, st) = pull_bits m 2 st; dest = dest + bs_decoded st in
        sbind (if btype = NO_COMP then Inr (decompress_none dest (m, st))
               else if btype = DYNAMIC_COMP then decompress_dynamic dest (m, st)
               else if btype = FIXED_COMP then decompress_fixed dest (m, st)
               else Inr (m, st\<lparr>bs_error := COMP_UNKNOWN\<rparr>)) (\<lambda>(m, st).
          if bfinal = 0 \<and> bs_error st = NO_ERROR then Inr (Inl (m, st)) else Inr (Inr (m, st))))"

definition decompress_block :: "(nat \<Rightarrow> int) \<Rightarrow> addr \<Rightarrow> addr \<Rightarrow> mem \<Rightarrow> stop + int \<times> mem" where
  "decompress_block junk dest source m =
     sbind (loop (block_step dest) (m, init_stream junk source)) (\<lambda>(m, st).
       Inr (if bs_error st \<noteq> NO_ERROR then - bs_error st else sint (bs_decoded st), m))"

definition zlib_decompress :: "(nat \<Rightarrow> int) \<Rightarrow> addr \<Rightarrow> addr \<Rightarrow> u32 \<Rightarrow> u32 \<Rightarrow> mem \<Rightarrow> stop + int \<times> mem" where
  "zlib_decompress junk data_in cpage_out srclen destlen m = decompress_block junk cpage_out (data_in + 2) m"

end
