(* ===== verification/InflateCode.thy ===== *)
theory InflateCode
  imports Inflate
begin

text \<open>
  What the inflater computes, up to one run of compressed tokens: the bit reader, the canonical code its
  tables hold, and the literals and matches it decodes.
\<close>

section \<open>Reading bits\<close>

text \<open>The \<open>k\<close>th bit from here; the reader after \<open>n\<close> bits; a list of bits to come.\<close>

definition sbit :: "mem \<Rightarrow> bitstream \<Rightarrow> nat \<Rightarrow> bool" where
  "sbit m st k = bit (m (bs_data st + of_nat ((bs_bit st + k) div 8))) ((bs_bit st + k) mod 8)"

definition skip :: "nat \<Rightarrow> bitstream \<Rightarrow> bitstream" where
  "skip n st = st\<lparr>bs_data := bs_data st + of_nat ((bs_bit st + n) div 8), bs_bit := (bs_bit st + n) mod 8\<rparr>"

definition coming :: "mem \<Rightarrow> bitstream \<Rightarrow> bool list \<Rightarrow> bool" where
  "coming m st bs = (bs_bit st < 8 \<and> (\<forall>k<length bs. sbit m st k = bs ! k))"

lemma skip_fields [simp]:
  "bs_decoded (skip n st) = bs_decoded st" "bs_error (skip n st) = bs_error st"
  "bs_codes (skip n st) = bs_codes st" "bs_lengths (skip n st) = bs_lengths st"
  "bs_distance (skip n st) = bs_distance st" "bs_bit (skip n st) = (bs_bit st + n) mod 8"
  "bs_data (skip n st) = bs_data st + of_nat ((bs_bit st + n) div 8)"
  by (simp_all add: skip_def)

lemma skip_update [simp]:
  "skip n (st\<lparr>bs_decoded := d\<rparr>) = skip n st\<lparr>bs_decoded := d\<rparr>"
  "skip n (st\<lparr>bs_lengths := l\<rparr>) = skip n st\<lparr>bs_lengths := l\<rparr>"
  "skip n (st\<lparr>bs_distance := l\<rparr>) = skip n st\<lparr>bs_distance := l\<rparr>"
  by (simp_all add: skip_def)

lemma skip_0: "bs_bit st < 8 \<Longrightarrow> skip 0 st = st"
  by (simp add: skip_def)

lemma add_div8: "(x :: nat) div 8 + (x mod 8 + b) div 8 = (x + b) div 8"
proof -
  have "x + b = (x mod 8 + b) + (x div 8) * 8" by simp
  then have "(x + b) div 8 = ((x mod 8 + b) + (x div 8) * 8) div 8" by (rule arg_cong)
  also have "\<dots> = x div 8 + (x mod 8 + b) div 8" by (rule div_mult_self1) simp
  finally show ?thesis by (rule sym)
qed

lemma skip_skip [simp]: "skip b (skip a st) = skip (a + b) st"
proof -
  have "(bs_bit st + a) div 8 + ((bs_bit st + a) mod 8 + b) div 8 = (bs_bit st + (a + b)) div 8"
    unfolding add_div8 by (simp only: add.assoc)
  then have "of_nat ((bs_bit st + a) div 8) + of_nat (((bs_bit st + a) mod 8 + b) div 8)
      = (of_nat ((bs_bit st + (a + b)) div 8) :: addr)" by (simp flip: of_nat_add)
  then show ?thesis by (simp add: skip_def add.assoc mod_add_left_eq)
qed

lemma sbit_skip [simp]: "sbit m (skip n st) k = sbit m st (n + k)"
proof -
  have "(bs_bit st + n) div 8 + ((bs_bit st + n) mod 8 + k) div 8 = (bs_bit st + (n + k)) div 8"
    unfolding add_div8 by (simp only: add.assoc)
  then have "of_nat ((bs_bit st + n) div 8) + of_nat (((bs_bit st + n) mod 8 + k) div 8)
      = (of_nat ((bs_bit st + (n + k)) div 8) :: addr)" by (simp flip: of_nat_add)
  then show ?thesis by (simp add: sbit_def add.assoc mod_add_left_eq)
qed

lemma coming_update [simp]:
  "coming m (st\<lparr>bs_decoded := d\<rparr>) bs = coming m st bs"
  "coming m (st\<lparr>bs_lengths := l\<rparr>) bs = coming m st bs"
  "coming m (st\<lparr>bs_distance := l\<rparr>) bs = coming m st bs"
  by (simp_all add: coming_def sbit_def)

lemma coming_append: "coming m st (bs @ cs) \<longleftrightarrow> coming m st bs \<and> coming m (skip (length bs) st) cs"
proof -
  have "(\<forall>k<length (bs @ cs). sbit m st k = (bs @ cs) ! k)
      \<longleftrightarrow> (\<forall>k<length bs. sbit m st k = bs ! k) \<and> (\<forall>k<length cs. sbit m st (length bs + k) = cs ! k)"
  proof safe
    fix k assume a: "\<forall>k<length bs. sbit m st k = bs ! k" "\<forall>k<length cs. sbit m st (length bs + k) = cs ! k"
    fix k assume "k < length (bs @ cs)"
    then show "sbit m st k \<Longrightarrow> (bs @ cs) ! k" "(bs @ cs) ! k \<Longrightarrow> sbit m st k"
      using a(1) a(2) [rule_format, of "k - length bs"] by (auto simp: nth_append split: if_splits)
  qed (force simp: nth_append dest: spec [of _ "length bs + _"])+
  then show ?thesis by (auto simp: coming_def)
qed

lemma coming_Cons: "coming m st (b # bs) \<longleftrightarrow> bs_bit st < 8 \<and> sbit m st 0 = b \<and> coming m (skip 1 st) bs"
  using coming_append [of m st "[b]" bs] by (auto simp: coming_def)

lemma pull_bit: "bs_bit st < 8 \<Longrightarrow> pull_bit m st = (of_bool (sbit m st 0), skip 1 st)"
proof -
  assume "bs_bit st < 8"
  moreover have "uint (drop_bit n (w :: byte) AND 1) = of_bool (bit w n)" for w n
    by (simp add: and_one_eq bit_iff_odd_drop_bit odd_iff_mod_2_eq_one of_bool_def uint_word_of_int)
  ultimately show ?thesis
    by (auto simp: pull_bit_def Let_def sbit_def skip_def)
qed

lemma coming_Nil: "coming m st [] \<longleftrightarrow> bs_bit st < 8"
  by (simp add: coming_def)

text \<open>A number with its low bit first.\<close>

definition lsb :: "nat \<Rightarrow> nat \<Rightarrow> bool list" where
  "lsb n v = map (bit v) [0..<n]"

lemma length_lsb [simp]: "length (lsb n v) = n"
  by (simp add: lsb_def)

lemma lsb_Suc: "lsb (Suc n) v = odd v # lsb n (v div 2)"
  by (simp add: lsb_def upt_conv_Cons map_Suc_upt [symmetric] bit_Suc bit_0 del: upt_Suc)

lemma pull_bits_loop:
  "coming m st (lsb n v) \<Longrightarrow> v < 2 ^ n \<Longrightarrow>
   pull_bits_loop m n i ret st = (ret + int v * 2 ^ i, skip n st)"
proof (induction n arbitrary: v i ret st)
  case 0
  then show ?case by (simp add: coming_def skip_0)
next
  case (Suc n)
  from Suc.prems(1) have c: "bs_bit st < 8" "sbit m st 0 = odd v" "coming m (skip 1 st) (lsb n (v div 2))"
    by (simp_all add: lsb_Suc coming_Cons)
  have "of_bool (odd v) + 2 * (v div 2) = v" by (cases "odd v") simp_all
  then have "int (of_bool (odd v) + 2 * (v div 2)) = int v" by (rule arg_cong)
  then have "int v = of_bool (odd v) + 2 * int (v div 2)" unfolding of_nat_add of_nat_mult of_nat_of_bool by simp
  then have "ret + of_bool (odd v) * 2 ^ i + int (v div 2) * 2 ^ (i + 1) = ret + int v * 2 ^ i"
    by (simp add: algebra_simps)
  with c Suc.IH [OF c(3), of "i + 1" "ret + of_bool (odd v) * 2 ^ i"] Suc.prems(2) show ?case
    by (simp add: pull_bit)
qed

lemma pull_bits: "coming m st (lsb n v) \<Longrightarrow> v < 2 ^ n \<Longrightarrow> pull_bits m n st = (int v, skip n st)"
  by (simp add: pull_bits_def pull_bits_loop)

section \<open>The canonical code\<close>

text \<open>
  RFC 1951, section 3.2.2, for a list of code lengths, 0 for a symbol that is not used: how many symbols
  have a length, the first code of a length, and a symbol's code, numbered within its length.
\<close>

definition cnt :: "nat list \<Rightarrow> nat \<Rightarrow> nat" where
  "cnt L l = (if l = 0 then 0 else count_list L l)"

primrec first_code :: "nat list \<Rightarrow> nat \<Rightarrow> nat" where
  "first_code L 0 = 0"
| "first_code L (Suc l) = (first_code L l + cnt L l) * 2"

definition rank :: "nat list \<Rightarrow> nat \<Rightarrow> nat" where
  "rank L s = count_list (take s L) (L ! s)"

definition canonical :: "nat list \<Rightarrow> nat \<Rightarrow> nat" where
  "canonical L s = first_code L (L ! s) + rank L s"

text \<open>A code goes with its high bit first.  No length has more codes than there are.\<close>

definition msb :: "nat \<Rightarrow> nat \<Rightarrow> bool list" where
  "msb n v = rev (lsb n v)"

definition code_bits :: "nat list \<Rightarrow> nat \<Rightarrow> bool list" where
  "code_bits L s = msb (L ! s) (canonical L s)"

definition code_fits :: "nat list \<Rightarrow> nat \<Rightarrow> bool" where
  "code_fits L bits = (\<forall>l<bits. first_code L l + cnt L l \<le> 2 ^ l)"

text \<open>The places of the symbols, ordered by length and then by symbol.\<close>

primrec place :: "nat list \<Rightarrow> nat \<Rightarrow> nat" where
  "place L 0 = 0"
| "place L (Suc l) = place L l + cnt L l"

definition slot :: "nat list \<Rightarrow> nat \<Rightarrow> nat" where
  "slot L s = place L (L ! s) + rank L s"

lemma rank_less:
  assumes "s < length L" "0 < L ! s"
  shows "rank L s < cnt L (L ! s)"
proof -
  have "L = take s L @ L ! s # drop (Suc s) L" using assms(1) by (rule id_take_nth_drop)
  then have "count_list L (L ! s) = count_list (take s L @ L ! s # drop (Suc s) L) (L ! s)" by (rule arg_cong)
  also have "\<dots> = rank L s + Suc (count_list (drop (Suc s) L) (L ! s))" by (simp add: rank_def)
  finally show ?thesis using assms(2) by (simp add: cnt_def)
qed

lemma place_mono: "l \<le> l' \<Longrightarrow> place L l \<le> place L l'"
  by (rule lift_Suc_mono_le) simp_all

lemma place_le: "place L l \<le> length (filter (\<lambda>x. x < l) L)"
proof (induction l)
  case (Suc l)
  have "length (filter (\<lambda>x. x < Suc l) L) = length (filter (\<lambda>x. x < l) L) + count_list L l"
    by (induction L) auto
  then show ?case using Suc by (simp add: cnt_def)
qed simp

lemma slot_less: "s < length L \<Longrightarrow> 0 < L ! s \<Longrightarrow> slot L s < length L"
  using rank_less [of s L] place_le [of L "Suc (L ! s)"]
    length_filter_le [of "\<lambda>x. x < Suc (L ! s)" L]
  by (simp add: slot_def del: length_filter_le)

lemma slot_inj:
  assumes "s < t" "t < length L" "0 < L ! s" "0 < L ! t"
  shows "slot L s \<noteq> slot L t"
proof (cases "L ! s" "L ! t" rule: linorder_cases)
  case less
  then show ?thesis
    using rank_less [of s L] place_mono [of "Suc (L ! s)" "L ! t" L] assms by (simp add: slot_def)
next
  case equal
  have "take t L = take (Suc s) L @ take (t - Suc s) (drop (Suc s) L)"
    using assms(1) take_add [of "Suc s" "t - Suc s" L] by simp
  then show ?thesis using equal assms by (simp add: slot_def rank_def take_Suc_conv_app_nth)
next
  case greater
  then show ?thesis
    using rank_less [of t L] place_mono [of "Suc (L ! t)" "L ! s" L] assms by (simp add: slot_def)
qed

section \<open>The tables\<close>

definition tables :: "nat list \<Rightarrow> nat \<Rightarrow> huffman_set \<Rightarrow> bool" where
  "tables L bits hs =
     (hs_bits hs = bits \<and> hs_count hs = map (int \<circ> cnt L) [0..<bits]
      \<and> hs_first hs = map (int \<circ> first_code L) [0..<bits] \<and> hs_pos hs = map (int \<circ> place L) [0..<bits]
      \<and> length (hs_symbols hs) = length L
      \<and> (\<forall>s<length L. 0 < L ! s \<longrightarrow> hs_symbols hs ! slot L s = int s))"

lemma fill_first_tables:
  assumes "1 \<le> n" "n \<le> bits" "hs_count hs = map (int \<circ> cnt L) [0..<bits]"
    and "length (hs_first hs) = bits" "length (hs_pos hs) = bits" "hs_first hs ! 0 = 0" "hs_pos hs ! 0 = 0"
  shows "\<exists>f p. fold fill_first [1..<n] (0, hs) = (int (first_code L (n - 1)), hs\<lparr>hs_first := f, hs_pos := p\<rparr>)
    \<and> length f = bits \<and> length p = bits
    \<and> (\<forall>i<n. f ! i = int (first_code L i) \<and> p ! i = int (place L i))"
  using assms(1,2)
proof (induction n rule: nat_induct_at_least)
  case base
  have "hs = hs\<lparr>hs_first := hs_first hs, hs_pos := hs_pos hs\<rparr>" by simp
  then show ?case using assms(4-7) by (intro exI [of _ "hs_first hs"] exI [of _ "hs_pos hs"]) simp
next
  case (Suc n)
  from Suc.IH Suc.prems obtain f p where
    fp: "fold fill_first [1..<n] (0, hs) = (int (first_code L (n - 1)), hs\<lparr>hs_first := f, hs_pos := p\<rparr>)"
      "length f = bits" "length p = bits" "\<forall>i<n. f ! i = int (first_code L i) \<and> p ! i = int (place L i)" by auto
  from Suc.hyps obtain k where n: "n = Suc k" by (cases n) auto
  have "hs_count hs ! k = int (cnt L k)" using assms(3) Suc.prems n by simp
  then have "fill_first n (int (first_code L k), hs\<lparr>hs_first := f, hs_pos := p\<rparr>) =
      (int (first_code L n), hs\<lparr>hs_first := f[n := int (first_code L n)], hs_pos := p[n := int (place L n)]\<rparr>)"
    using fp(4) by (simp add: fill_first_def Let_def n)
  then show ?case using fp Suc.prems Suc.hyps n
    by (intro exI [of _ "f[n := int (first_code L n)]"] exI [of _ "p[n := int (place L n)]"])
      (auto simp: nth_list_update less_Suc_eq)
qed

lemma fill_symbols_append:
  "fill_symbols (xs @ ys) hs = sbind (fill_symbols xs hs) (fill_symbols ys)"
  by (induction xs arbitrary: hs) (simp_all add: Let_def sbind_assoc)

lemma fill_symbols_tables:
  assumes "n \<le> length L" "hs_lengths hs = map int L" "\<forall>l\<in>set L. l < bits" "length (hs_symbols hs) = length L"
    and "hs_pos hs = map (int \<circ> place L) [0..<bits]"
  shows "\<exists>y p. fill_symbols [0..<n] hs = Inr (hs\<lparr>hs_symbols := y, hs_pos := p\<rparr>) \<and> length y = length L
    \<and> p = map (\<lambda>l. int (place L l + (if l = 0 then 0 else count_list (take n L) l))) [0..<bits]
    \<and> (\<forall>s<n. 0 < L ! s \<longrightarrow> y ! slot L s = int s)"
  using assms(1)
proof (induction n)
  case 0
  have "hs = hs\<lparr>hs_symbols := hs_symbols hs, hs_pos := hs_pos hs\<rparr>" by simp
  then show ?case using assms(4,5) by (intro exI [of _ "hs_symbols hs"] exI [of _ "hs_pos hs"]) simp
next
  case (Suc n)
  let ?p = "\<lambda>n. map (\<lambda>l. int (place L l + (if l = 0 then 0 else count_list (take n L) l))) [0..<bits]"
  from Suc obtain y where y: "fill_symbols [0..<n] hs = Inr (hs\<lparr>hs_symbols := y, hs_pos := ?p n\<rparr>)"
    "length y = length L" "\<forall>s<n. 0 < L ! s \<longrightarrow> y ! slot L s = int s" by auto
  have n: "n < length L" "hs_lengths hs ! n = int (L ! n)" using Suc.prems assms(2) by simp_all
  have t: "take (Suc n) L = take n L @ [L ! n]" using n by (simp add: take_Suc_conv_app_nth)
  show ?case
  proof (cases "L ! n = 0")
    case True
    have "?p (Suc n) = ?p n" by (simp add: t True)
    moreover have "fill_symbols [0..<Suc n] hs = Inr (hs\<lparr>hs_symbols := y, hs_pos := ?p n\<rparr>)"
      using y(1) n(2) True by (simp add: fill_symbols_append Let_def)
    ultimately show ?thesis using y(2,3) True by (intro exI [of _ y] exI [of _ "?p n"]) (auto simp: less_Suc_eq)
  next
    case False
    then have l: "0 < L ! n" "L ! n < bits" using assms(3) n(1) by simp_all
    have s: "slot L n < length y" using slot_less [OF n(1) l(1)] y(2) by simp
    have p: "?p n ! (L ! n) = int (slot L n)" using l by (simp add: slot_def rank_def)
    have p': "(?p n)[L ! n := int (slot L n) + 1] = ?p (Suc n)"
    proof (rule nth_equalityI)
      fix i assume "i < length ((?p n)[L ! n := int (slot L n) + 1])"
      then show "(?p n)[L ! n := int (slot L n) + 1] ! i = ?p (Suc n) ! i"
        using l by (cases "i = L ! n") (simp_all add: t slot_def rank_def)
    qed simp
    have r: "rd_int (?p n) (int (L ! n)) = Inr (int (slot L n))" using l p by (simp add: rd_int_def)
    obtain q q' where q: "q = ?p n" "q' = ?p (Suc n)" by blast
    have "fill_symbols [0..<Suc n] hs = Inr (hs\<lparr>hs_symbols := y[slot L n := int n], hs_pos := q'\<rparr>)"
      using y(1) n(2) l s False r p' unfolding q [symmetric]
      by (simp add: fill_symbols_append Let_def wr_int_def)
    then have "fill_symbols [0..<Suc n] hs = Inr (hs\<lparr>hs_symbols := y[slot L n := int n], hs_pos := ?p (Suc n)\<rparr>)"
      unfolding q .
    moreover have "y[slot L n := int n] ! slot L i = int i" if "i < Suc n" "0 < L ! i" for i
    proof (cases "i = n")
      case False
      then have "slot L i \<noteq> slot L n" using slot_inj [of i n L] that n(1) l(1) by simp
      then show ?thesis using y(3) that False by simp
    qed (use s in simp)
    ultimately show ?thesis using y(2) by (intro exI [of _ "y[slot L n := int n]"] exI [of _ "?p (Suc n)"]) simp
  qed
qed

lemma fold_less_pos:
  "length (hs_pos hs) = bits \<Longrightarrow> n \<le> bits \<Longrightarrow> 1 \<le> n \<Longrightarrow>
   \<exists>p. fold (\<lambda>i hs. hs\<lparr>hs_pos := (hs_pos hs)[i := hs_pos hs ! i - hs_count hs ! i]\<rparr>) [1..<n] hs = hs\<lparr>hs_pos := p\<rparr>
     \<and> length p = bits
     \<and> (\<forall>i<bits. p ! i = (if 1 \<le> i \<and> i < n then hs_pos hs ! i - hs_count hs ! i else hs_pos hs ! i))"
proof (induction n)
  case (Suc n)
  show ?case
  proof (cases "n = 0")
    case True
    have "hs = hs\<lparr>hs_pos := hs_pos hs\<rparr>" by simp
    then show ?thesis using True Suc.prems by (intro exI [of _ "hs_pos hs"]) simp
  next
    case False
    with Suc obtain p where p: "length p = bits"
      "fold (\<lambda>i hs. hs\<lparr>hs_pos := (hs_pos hs)[i := hs_pos hs ! i - hs_count hs ! i]\<rparr>) [1..<n] hs = hs\<lparr>hs_pos := p\<rparr>"
      "\<forall>i<bits. p ! i = (if 1 \<le> i \<and> i < n then hs_pos hs ! i - hs_count hs ! i else hs_pos hs ! i)" by auto
    then show ?thesis using False Suc.prems
      by (intro exI [of _ "p[n := p ! n - hs_count hs ! n]"]) (auto simp: nth_list_update)
  qed
qed simp

lemma fill_code_tables_ok:
  assumes "num_symbols hs = length L" "hs_lengths hs = map int L" "\<forall>l\<in>set L. l < bits" "0 < bits"
    and "hs_count hs = map (int \<circ> cnt L) [0..<bits]" "hs_first hs ! 0 = 0" "length (hs_first hs) = bits"
    and "length (hs_pos hs) = bits" "length (hs_symbols hs) = length L" "hs_bits hs = bits"
  shows "\<exists>hs'. fill_code_tables hs = Inr hs' \<and> tables L bits hs' \<and> hs_lengths hs' = hs_lengths hs
    \<and> num_symbols hs' = num_symbols hs"
proof -
  let ?h = "hs\<lparr>hs_pos := (hs_pos hs)[0 := 0]\<rparr>"
  obtain f p where fp: "fold fill_first [1..<bits] (0, ?h) = (int (first_code L (bits - 1)), ?h\<lparr>hs_first := f, hs_pos := p\<rparr>)"
    "length f = bits" "length p = bits" "\<forall>i<bits. f ! i = int (first_code L i) \<and> p ! i = int (place L i)"
    using fill_first_tables [of bits bits ?h L] assms by auto
  have f: "f = map (int \<circ> first_code L) [0..<bits]" and p: "p = map (int \<circ> place L) [0..<bits]"
    using fp(2-4) by (auto intro: nth_equalityI)
  define h where "h = hs\<lparr>hs_first := f, hs_pos := p\<rparr>"
  have h: "hs_lengths h = map int L" "length (hs_symbols h) = length L" "hs_pos h = map (int \<circ> place L) [0..<bits]"
    "num_symbols h = length L" "hs_bits h = bits" "hs_count h = map (int \<circ> cnt L) [0..<bits]"
    "hs_first h = map (int \<circ> first_code L) [0..<bits]"
    using assms by (simp_all add: h_def f p)
  from fill_symbols_tables [OF _ h(1) assms(3) h(2,3), of "length L"] obtain y q where
    y: "fill_symbols [0..<length L] h = Inr (h\<lparr>hs_symbols := y, hs_pos := q\<rparr>)" "length y = length L"
      "q = map (\<lambda>l. int (place L l + (if l = 0 then 0 else count_list (take (length L) L) l))) [0..<bits]"
      "\<forall>s<length L. 0 < L ! s \<longrightarrow> y ! slot L s = int s" by auto
  have q: "q = map (\<lambda>l. int (place L l + cnt L l)) [0..<bits]" using y(3) by (simp add: cnt_def)
  obtain r where r: "fold (\<lambda>i hs. hs\<lparr>hs_pos := (hs_pos hs)[i := hs_pos hs ! i - hs_count hs ! i]\<rparr>) [1..<bits]
      (h\<lparr>hs_symbols := y, hs_pos := q\<rparr>) = h\<lparr>hs_symbols := y, hs_pos := r\<rparr>" "length r = bits"
    "\<forall>i<bits. r ! i = (if 1 \<le> i \<and> i < bits then q ! i - hs_count h ! i else q ! i)"
    using fold_less_pos [of "h\<lparr>hs_symbols := y, hs_pos := q\<rparr>" bits bits] assms(4) q by auto
  have "r ! i = int (place L i)" if "i < bits" for i
    using r(3) that q h(6) by (cases "i = 0") (simp_all add: cnt_def)
  then have "r = map (int \<circ> place L) [0..<bits]" using r(2) by (auto intro: nth_equalityI)
  then have "tables L bits (h\<lparr>hs_symbols := y, hs_pos := r\<rparr>)" using h y(2,4) by (simp add: tables_def)
  moreover have "fill_code_tables hs = Inr (h\<lparr>hs_symbols := y, hs_pos := r\<rparr>)"
    using fp(1) y(1) r(1) h(4) assms(10) by (simp add: fill_code_tables_def h_def [symmetric] h(5) assms(1))
  moreover have "hs_lengths h = hs_lengths hs" "num_symbols h = num_symbols hs" by (simp_all add: h_def)
  ultimately show ?thesis by (intro exI [of _ "h\<lparr>hs_symbols := y, hs_pos := r\<rparr>"]) simp
qed

section \<open>Decoding a symbol\<close>

lemma first_code_shift: "k < l \<Longrightarrow> (first_code L k + cnt L k) * 2 ^ (l - k) \<le> first_code L l"
proof (induction l)
  case (Suc l)
  show ?case
  proof (cases "k = l")
    case False
    then have "(first_code L k + cnt L k) * 2 ^ (l - k) \<le> first_code L l" using Suc by simp
    then have "(first_code L k + cnt L k) * 2 ^ (l - k) * 2 \<le> first_code L l * 2" by simp
    moreover have "2 ^ (Suc l - k) = 2 ^ (l - k) * (2 :: nat)" using Suc.prems by (simp add: Suc_diff_le)
    ultimately show ?thesis by (simp add: mult.assoc)
  qed simp
qed simp

lemma canonical_prefix:
  assumes "k < L ! s"
  shows "first_code L k + cnt L k \<le> canonical L s div 2 ^ (L ! s - k)"
proof -
  have "(first_code L k + cnt L k) * 2 ^ (L ! s - k) \<le> canonical L s"
    using first_code_shift [OF assms, of L] by (simp add: canonical_def)
  then show ?thesis by (simp add: less_eq_div_iff_mult_less_eq)
qed

lemma canonical_less:
  assumes "code_fits L bits" "s < length L" "0 < L ! s" "L ! s < bits"
  shows "canonical L s < 2 ^ (L ! s)"
proof -
  have "canonical L s < first_code L (L ! s) + cnt L (L ! s)" using rank_less [OF assms(2,3)] by (simp add: canonical_def)
  then show ?thesis using assms(1,4) by (auto simp: code_fits_def intro: less_le_trans)
qed

lemma msb_nth: "i < n \<Longrightarrow> msb n v ! i = bit v (n - Suc i)"
  by (simp add: msb_def lsb_def rev_nth)

lemma length_msb [simp]: "length (msb n v) = n"
  by (simp add: msb_def)

declare read_symbol_loop.simps [simp del]

lemma read_symbol_loop_ok:
  assumes t: "tables L bits hs" and s: "s < length L" "0 < L ! s" "L ! s < bits"
    and c: "coming m st (code_bits L s)" and k: "k \<le> L ! s"
  shows "read_symbol_loop m hs k (int (canonical L s div 2 ^ (L ! s - k))) (skip k st) = Inr (int s, skip (L ! s) st)"
  using k
proof (induction "L ! s - k" arbitrary: k)
  case 0
  then have k: "k = L ! s" by simp
  have r: "canonical L s < first_code L k + cnt L k" "cnt L k \<noteq> 0"
    using rank_less [OF s(1,2)] by (simp_all add: canonical_def k)
  have p: "int (place L k) + int (canonical L s) - int (first_code L k) = int (slot L s)"
    by (simp add: canonical_def slot_def k)
  have "rd_int (hs_symbols hs) (int (slot L s)) = Inr (int s)"
    using t s slot_less [OF s(1,2)] by (simp add: rd_int_def tables_def)
  moreover have "rd_int (hs_count hs) (int k) = Inr (int (cnt L k))" "rd_int (hs_first hs) (int k) = Inr (int (first_code L k))"
    "rd_int (hs_pos hs) (int k) = Inr (int (place L k))"
    using t k s(3) by (simp_all add: rd_int_def tables_def)
  moreover have "int (cnt L k) \<noteq> 0 \<and> int (canonical L s div 2 ^ (L ! s - k)) < int (first_code L k) + int (cnt L k)"
    using r k by simp
  moreover have "int (place L k) + int (canonical L s div 2 ^ (L ! s - k)) - int (first_code L k) = int (slot L s)"
    using p by (simp add: k)
  ultimately show ?case
    by (subst read_symbol_loop.simps) (simp only: sbind.simps if_True, simp add: k)
next
  case (Suc d)
  then have k: "k < L ! s" by simp
  let ?c = "canonical L s" and ?l = "L ! s"
  have "\<not> (cnt L k \<noteq> 0 \<and> ?c div 2 ^ (?l - k) < first_code L k + cnt L k)"
    using canonical_prefix [OF k] by simp
  then have no: "\<not> (int (cnt L k) \<noteq> 0 \<and> int (?c div 2 ^ (?l - k)) < int (first_code L k) + int (cnt L k))" by linarith
  have b: "bs_bit st < 8" using c by (simp add: coming_def)
  have "code_bits L s ! k = bit ?c (?l - Suc k)" using k by (simp add: code_bits_def msb_nth)
  then have "sbit m st k = bit ?c (?l - Suc k)" using c k by (simp add: coming_def code_bits_def)
  then have p: "pull_bit m (skip k st) = (of_bool (odd (?c div 2 ^ (?l - Suc k))), skip (Suc k) st)"
    by (simp add: pull_bit bit_iff_odd)
  have "?c div 2 ^ (?l - k) = ?c div 2 ^ (?l - Suc k) div 2"
    using k by (simp add: Suc_diff_Suc [symmetric] div_mult2_eq [symmetric] mult.commute)
  then have "2 * (?c div 2 ^ (?l - k)) + of_bool (odd (?c div 2 ^ (?l - Suc k))) = ?c div 2 ^ (?l - Suc k)"
    by (cases "odd (?c div 2 ^ (?l - Suc k))") simp_all
  then have "int (2 * (?c div 2 ^ (?l - k)) + of_bool (odd (?c div 2 ^ (?l - Suc k)))) = int (?c div 2 ^ (?l - Suc k))"
    by (rule arg_cong)
  then have n: "2 * int (?c div 2 ^ (?l - k)) + of_bool (odd (?c div 2 ^ (?l - Suc k))) = int (?c div 2 ^ (?l - Suc k))"
    unfolding of_nat_add of_nat_mult of_nat_of_bool by simp
  have "rd_int (hs_count hs) (int k) = Inr (int (cnt L k))" "rd_int (hs_first hs) (int k) = Inr (int (first_code L k))"
    "\<not> hs_bits hs < k + 1"
    using t k s(3) by (simp_all add: rd_int_def tables_def)
  then have "read_symbol_loop m hs k (int (?c div 2 ^ (?l - k))) (skip k st)
      = read_symbol_loop m hs (Suc k) (int (?c div 2 ^ (?l - Suc k))) (skip (Suc k) st)"
    by (subst read_symbol_loop.simps) (simp only: sbind.simps no if_False p Let_def prod.case n Suc_eq_plus1 [symmetric])
  also have "\<dots> = Inr (int s, skip ?l st)" using Suc by simp
  finally show ?case .
qed

lemma read_symbol_ok:
  assumes "tables L bits hs" "code_fits L bits" "s < length L" "0 < L ! s" "L ! s < bits"
    and "coming m st (code_bits L s)"
  shows "read_symbol m hs st = Inr (int s, skip (L ! s) st)"
  using read_symbol_loop_ok [OF assms(1,3-6), of 0] canonical_less [OF assms(2-5)] assms(6)
  by (simp add: read_symbol_def coming_def skip_0)

section \<open>Literals and matches\<close>

text \<open>
  RFC 1951, section 3.2.5: a literal, or a match as the place \<open>i\<close> of its length's symbol and the place \<open>j\<close> of its
  distance's symbol in the tables, each with its extra bits.
\<close>

datatype token = Lit byte | Match nat nat nat nat

definition len_base :: "nat list" where
  "len_base = [3, 4, 5, 6, 7, 8, 9, 10, 11, 13, 15, 17, 19, 23, 27, 31, 35, 43, 51, 59, 67, 83, 99, 115,
     131, 163, 195, 227, 258]"

definition len_extra :: "nat list" where
  "len_extra = [0, 0, 0, 0, 0, 0, 0, 0, 1, 1, 1, 1, 2, 2, 2, 2, 3, 3, 3, 3, 4, 4, 4, 4, 5, 5, 5, 5, 0]"

definition dist_base :: "nat list" where
  "dist_base = [1, 2, 3, 4, 5, 7, 9, 13, 17, 25, 33, 49, 65, 97, 129, 193, 257, 385, 513, 769, 1025, 1537,
     2049, 3073, 4097, 6145, 8193, 12289, 16385, 24577]"

definition dist_extra :: "nat list" where
  "dist_extra = [0, 0, 0, 0, 1, 1, 2, 2, 3, 3, 4, 4, 5, 5, 6, 6, 7, 7, 8, 8, 9, 9, 10, 10, 11, 11, 12, 12, 13, 13]"

fun token_bits :: "nat list \<Rightarrow> nat list \<Rightarrow> token \<Rightarrow> bool list" where
  "token_bits L D (Lit b) = code_bits L (unat b)"
| "token_bits L D (Match i x j y) =
     code_bits L (257 + i) @ lsb (len_extra ! i) x @ code_bits D j @ lsb (dist_extra ! j) y"

fun expand :: "token list \<Rightarrow> byte list \<Rightarrow> byte list" where
  "expand [] out = out"
| "expand (Lit b # ts) out = expand ts (out @ [b])"
| "expand (Match i x j y # ts) out =
     expand ts (lz_copy (len_base ! i + x) (length out - (dist_base ! j + y)) out)"

fun valid_tokens :: "token list \<Rightarrow> byte list \<Rightarrow> bool" where
  "valid_tokens [] out = True"
| "valid_tokens (Lit b # ts) out = valid_tokens ts (out @ [b])"
| "valid_tokens (Match i x j y # ts) out =
     (i < 29 \<and> x < 2 ^ (len_extra ! i) \<and> j < 30 \<and> y < 2 ^ (dist_extra ! j) \<and> dist_base ! j + y \<le> length out
      \<and> valid_tokens ts (lz_copy (len_base ! i + x) (length out - (dist_base ! j + y)) out))"

lemma length_expand: "length out \<le> length (expand ts out)"
  by (induction ts out rule: expand.induct) auto

lemma len_tables:
  "i < 29 \<Longrightarrow> (i < 8 \<and> len_extra ! i = 0 \<and> len_base ! i = i + 3) \<or> (i = 28 \<and> len_extra ! i = 0 \<and> len_base ! i = 258)
   \<or> (8 \<le> i \<and> i < 28 \<and> len_extra ! i = (i - 4) div 4
      \<and> len_base ! i = 4 * 2 ^ ((i - 4) div 4) + 3 + i mod 4 * 2 ^ ((i - 4) div 4))"
proof -
  have "\<forall>i\<in>set [0..<29]. (i < 8 \<and> len_extra ! i = 0 \<and> len_base ! i = i + 3) \<or> (i = 28 \<and> len_extra ! i = 0 \<and> len_base ! i = 258)
   \<or> (8 \<le> i \<and> i < 28 \<and> len_extra ! i = (i - 4) div 4
      \<and> len_base ! i = 4 * 2 ^ ((i - 4) div 4) + 3 + i mod 4 * 2 ^ ((i - 4) div 4))"
    by (simp add: len_base_def len_extra_def upt_rec)
  then show "i < 29 \<Longrightarrow> ?thesis" by simp
qed

lemma dist_tables:
  "j < 30 \<Longrightarrow> (j < 4 \<and> dist_extra ! j = 0 \<and> dist_base ! j = j + 1)
   \<or> (4 \<le> j \<and> dist_extra ! j = (j - 2) div 2
      \<and> dist_base ! j = 2 * 2 ^ ((j - 2) div 2) + 1 + j mod 2 * 2 ^ ((j - 2) div 2))"
proof -
  have "\<forall>j\<in>set [0..<30]. (j < 4 \<and> dist_extra ! j = 0 \<and> dist_base ! j = j + 1)
   \<or> (4 \<le> j \<and> dist_extra ! j = (j - 2) div 2
      \<and> dist_base ! j = 2 * 2 ^ ((j - 2) div 2) + 1 + j mod 2 * 2 ^ ((j - 2) div 2))"
    by (simp add: dist_base_def dist_extra_def upt_rec)
  then show "j < 30 \<Longrightarrow> ?thesis" by simp
qed

lemma length_of_ok:
  assumes "i < 29" "x < 2 ^ (len_extra ! i)" "coming m st (lsb (len_extra ! i) x)"
  shows "length_of m (int (257 + i)) st = (int (len_base ! i + x), skip (len_extra ! i) st)"
proof -
  have b: "bs_bit st < 8" using assms(3) by (simp add: coming_def)
  consider "i < 8" "len_extra ! i = 0" "len_base ! i = i + 3" | "i = 28" "len_extra ! i = 0" "len_base ! i = 258"
    | "8 \<le> i" "i < 28" "len_extra ! i = (i - 4) div 4"
      "len_base ! i = 4 * 2 ^ ((i - 4) div 4) + 3 + i mod 4 * 2 ^ ((i - 4) div 4)" using len_tables [OF assms(1)] by auto
  then show ?thesis
  proof cases
    case 3
    let ?k = "(i - 4) div 4"
    have k: "nat ((int (257 + i) - 261) div 4) = ?k" using 3(1) by (simp add: nat_div_distrib)
    have "int (257 + i) - 1 = int i + 64 * 4" by simp
    then have "(int (257 + i) - 1) mod 4 = int i mod 4" by (simp only: mod_mult_self1)
    then have r: "(int (257 + i) - 1) mod 4 = int (i mod 4)" by (simp add: zmod_int)
    have "pull_bits m ?k st = (int x, skip ?k st)" using assms(2,3) 3(3) by (intro pull_bits) simp_all
    then show ?thesis using 3 by (simp only: length_of_def k r Let_def) simp
  qed (use assms(2) b in \<open>simp_all add: length_of_def skip_0\<close>)
qed

lemma distance_of_ok:
  assumes "j < 30" "y < 2 ^ (dist_extra ! j)" "coming m st (lsb (dist_extra ! j) y)"
  shows "distance_of m (int j) st = (int (dist_base ! j + y), skip (dist_extra ! j) st)"
proof -
  have b: "bs_bit st < 8" using assms(3) by (simp add: coming_def)
  consider "j < 4" "dist_extra ! j = 0" "dist_base ! j = j + 1"
    | "4 \<le> j" "dist_extra ! j = (j - 2) div 2"
      "dist_base ! j = 2 * 2 ^ ((j - 2) div 2) + 1 + j mod 2 * 2 ^ ((j - 2) div 2)" using dist_tables [OF assms(1)] by auto
  then show ?thesis
  proof cases
    case 2
    let ?k = "(j - 2) div 2"
    have k: "nat ((int j - 2) div 2) = ?k" using 2(1) by (simp add: nat_div_distrib)
    have r: "int j mod 2 = int (j mod 2)" by (simp add: zmod_int)
    have "pull_bits m ?k st = (int y, skip ?k st)" using assms(2,3) 2(2) by (intro pull_bits) simp_all
    then show ?thesis using 2 by (simp only: distance_of_def k r Let_def) simp
  qed (use assms(2) b in \<open>simp add: distance_of_def skip_0\<close>)
qed

section \<open>A compressed block\<close>

text \<open>The bytes that hold the next \<open>n\<close> bits.\<close>

definition reads :: "bitstream \<Rightarrow> nat \<Rightarrow> addr set" where
  "reads st n = (\<lambda>k. bs_data st + of_nat ((bs_bit st + k) div 8)) ` {..<n}"

lemma reads_skip: "reads (skip k st) n \<subseteq> reads st (k + n)"
proof
  fix a assume "a \<in> reads (skip k st) n"
  then obtain i where "i < n"
    "a = bs_data st + of_nat ((bs_bit st + k) div 8) + of_nat (((bs_bit st + k) mod 8 + i) div 8)"
    by (auto simp: reads_def)
  then have "a = bs_data st + of_nat ((bs_bit st + (k + i)) div 8)" "k + i < k + n"
    using add_div8 [of "bs_bit st + k" i] by (simp_all add: add.assoc flip: of_nat_add)
  then show "a \<in> reads st (k + n)" unfolding reads_def by blast
qed

lemma coming_cong:
  assumes "\<And>x. x \<in> reads st (length bs) \<Longrightarrow> m' x = m x"
  shows "coming m' st bs = coming m st bs"
proof -
  have "sbit m' st k = sbit m st k" if "k < length bs" for k
    using assms [of "bs_data st + of_nat ((bs_bit st + k) div 8)"] that by (auto simp: sbit_def reads_def)
  then show ?thesis by (simp add: coming_def)
qed

text \<open>Codes for the literals, the end of the block and the lengths, and for the distances.\<close>

definition block_codes :: "nat list \<Rightarrow> nat list \<Rightarrow> bitstream \<Rightarrow> bool" where
  "block_codes L D st =
     (tables L 16 (bs_lengths st) \<and> tables D 16 (bs_distance st) \<and> code_fits L 16 \<and> code_fits D 16
      \<and> 286 \<le> length L \<and> 30 \<le> length D \<and> (\<forall>s<286. 0 < L ! s \<and> L ! s < 16) \<and> (\<forall>j<30. 0 < D ! j \<and> D ! j < 16))"

lemma block_codes_skip [simp]:
  "block_codes L D (skip n st) = block_codes L D st" "block_codes L D (st\<lparr>bs_decoded := x\<rparr>) = block_codes L D st"
  by (simp_all add: block_codes_def)

lemma read_literal:
  "block_codes L D st \<Longrightarrow> s < 286 \<Longrightarrow> coming m st (code_bits L s) \<Longrightarrow>
   read_symbol m (bs_lengths st) st = Inr (int s, skip (length (code_bits L s)) st)"
  using read_symbol_ok [of L 16 "bs_lengths st" s m st] by (simp add: block_codes_def code_bits_def)

lemma read_distance:
  "block_codes L D st \<Longrightarrow> j < 30 \<Longrightarrow> coming m st (code_bits D j) \<Longrightarrow>
   read_symbol m (bs_distance st) st = Inr (int j, skip (length (code_bits D j)) st)"
  using read_symbol_ok [of D 16 "bs_distance st" j m st] by (simp add: block_codes_def code_bits_def)

lemma step_literal:
  assumes "block_codes L D st" "coming m st (token_bits L D (Lit b))"
  shows "huffman_step (m, dest, st) = Inr (Inl (m(dest := b), dest + 1,
    skip (length (token_bits L D (Lit b))) st\<lparr>bs_decoded := bs_decoded st + 1\<rparr>))"
proof -
  have "read_symbol m (bs_lengths st) st = Inr (int (unat b), skip (length (code_bits L (unat b))) st)"
    using assms unat_byte_less [of b] by (intro read_literal) simp_all
  moreover have "int (unat b) < int 256" using unat_byte_less [of b] by (simp only: of_nat_less_iff)
  then have "\<not> int (unat b) < 0" "int (unat b) < 256" "of_int (int (unat b)) = b" by simp_all
  ultimately show ?thesis
    by (simp only: huffman_step_def prod.case sbind.simps if_True if_False skip_fields token_bits.simps)
qed

lemma step_match:
  assumes b: "block_codes L D st" and c: "coming m st (token_bits L D (Match i x j y))"
    and v: "i < 29" "x < 2 ^ (len_extra ! i)" "j < 30" "y < 2 ^ (dist_extra ! j)"
  shows "huffman_step (m, dest, st) = Inr (Inl
    (copy_up (len_base ! i + x) m dest (dest - of_nat (dist_base ! j + y)), dest + of_nat (len_base ! i + x),
     skip (length (token_bits L D (Match i x j y))) st\<lparr>bs_decoded := bs_decoded st + of_nat (len_base ! i + x)\<rparr>))"
proof -
  let ?a = "length (code_bits L (257 + i))" and ?b = "len_extra ! i" and ?c = "length (code_bits D j)"
  from c have c: "coming m st (code_bits L (257 + i))" "coming m (skip ?a st) (lsb ?b x)"
    "coming m (skip (?a + ?b) st) (code_bits D j)" "coming m (skip (?a + ?b + ?c) st) (lsb (dist_extra ! j) y)"
    by (simp_all add: coming_append add.assoc)
  have 1: "read_symbol m (bs_lengths st) st = Inr (int (257 + i), skip ?a st)"
    using b c(1) v(1) by (intro read_literal) simp_all
  have 2: "length_of m (int (257 + i)) (skip ?a st) = (int (len_base ! i + x), skip (?a + ?b) st)"
    using length_of_ok [OF v(1,2) c(2)] by simp
  have 3: "read_symbol m (bs_distance (skip (?a + ?b) st)) (skip (?a + ?b) st) = Inr (int j, skip (?a + ?b + ?c) st)"
    using read_distance [of L D "skip (?a + ?b) st" j m] b c(3) v(3) by (simp only: block_codes_skip skip_skip)
  note 3 = 3 [unfolded skip_fields]
  have 4: "distance_of m (int j) (skip (?a + ?b + ?c) st)
      = (int (dist_base ! j + y), skip (?a + ?b + ?c + dist_extra ! j) st)"
    using distance_of_ok [OF v(3,4) c(4)] by simp
  have n: "\<not> int (257 + i) < 0" "\<not> int (257 + i) < 256" "int (257 + i) > 256" "\<not> int j < 0" by simp_all
  have l: "length (token_bits L D (Match i x j y)) = ?a + ?b + ?c + dist_extra ! j" by simp
  show ?thesis
    by (simp only: huffman_step_def prod.case 1 2 3 4 sbind.simps Let_def n if_True if_False nat_int
        of_int_of_nat_eq skip_fields l)
qed

lemma step_end:
  assumes "block_codes L D st" "coming m st (code_bits L 256)"
  shows "huffman_step (m, dest, st) = Inr (Inr (m, skip (length (code_bits L 256)) st))"
proof -
  have "read_symbol m (bs_lengths st) st = Inr (int 256, skip (length (code_bits L 256)) st)"
    using assms by (intro read_literal) simp_all
  then show ?thesis by (simp add: huffman_step_def)
qed

lemma region_mono_len: "n \<le> k \<Longrightarrow> x \<notin> region a k \<Longrightarrow> x \<notin> region a n"
  using region_mono [of n k a] by blast

text \<open>One token: the output grows by what it stands for, and the rest of the input is still there.\<close>

lemma token_step:
  assumes b: "block_codes L D st" and c: "coming m st (token_bits L D t @ rest)" and v: "valid_tokens [t] out"
    and o: "bytes_at m d (length out) = out" "length (expand [t] out) \<le> n" "n < 2 ^ 32"
    and r: "reads st (length (token_bits L D t @ rest)) \<inter> region d n = {}"
  shows "\<exists>m'. huffman_step (m, d + of_nat (length out), st) = Inr (Inl (m', d + of_nat (length (expand [t] out)),
      skip (length (token_bits L D t)) st\<lparr>bs_decoded := bs_decoded st + of_nat (length (expand [t] out) - length out)\<rparr>))
    \<and> bytes_at m' d (length (expand [t] out)) = expand [t] out \<and> (\<forall>x. x \<notin> region d n \<longrightarrow> m' x = m x)
    \<and> coming m' (skip (length (token_bits L D t)) st) rest"
proof -
  have now: "coming m st (token_bits L D t)" and later: "coming m (skip (length (token_bits L D t)) st) rest"
    using c by (simp_all add: coming_append)
  have keep: "coming m' (skip (length (token_bits L D t)) st) rest" if "\<forall>x. x \<notin> region d n \<longrightarrow> m' x = m x" for m'
  proof (subst coming_cong [of _ _ m' m])
    fix x assume "x \<in> reads (skip (length (token_bits L D t)) st) (length rest)"
    then have "x \<in> reads st (length (token_bits L D t @ rest))"
      using reads_skip [of "length (token_bits L D t)" st "length rest"] by auto
    then show "m' x = m x" using r that by blast
  qed (rule later)
  show ?thesis
  proof (cases t)
    case (Lit b)
    let ?m = "m(d + of_nat (length out) := b)"
    have lt: "length out < n" using o(2) Lit by simp
    have "bytes_at ?m d (length out) = bytes_at m d (length out)"
    proof (rule bytes_at_eqI)
      fix i assume "i < length out"
      then have "d + of_nat i \<noteq> d + of_nat (length out)" using lt o(3) by (subst of_nat_word_inj) simp_all
      then show "?m (d + of_nat i) = m (d + of_nat i)" by simp
    qed
    then have "bytes_at ?m d (length out + 1) = out @ [b]"
      using o(1) by (simp only: bytes_at_append) (simp add: bytes_at_Suc)
    moreover have f: "\<forall>x. x \<notin> region d n \<longrightarrow> ?m x = m x" using lt by auto
    ultimately show ?thesis using step_literal [of L D st m b "d + of_nat (length out)"] b now keep [OF f] Lit
      by (intro exI [of _ ?m]) (simp add: add_ac fun_upd_def)
  next
    case (Match i x j y)
    let ?n = "len_base ! i + x" and ?k = "dist_base ! j + y"
    let ?m = "copy_up ?n m (d + of_nat (length out)) (d + of_nat (length out - ?k))"
    from v Match have v: "i < 29" "x < 2 ^ (len_extra ! i)" "j < 30" "y < 2 ^ (dist_extra ! j)" "?k \<le> length out" by simp_all
    have "0 < dist_base ! j" using dist_tables [OF v(3)] by auto
    then have k: "length out - ?k < length out" using v(5) by linarith
    have e: "d + of_nat (length out) - of_nat ?k = d + of_nat (length out - ?k)"
      using v(5) by (simp only: of_nat_diff) (simp add: algebra_simps)
    have "bytes_at ?m d (length out + ?n) = lz_copy ?n (length out - ?k) out"
      using o k Match by (intro copy_up_lz) simp_all
    moreover have f: "\<forall>x. x \<notin> region d n \<longrightarrow> ?m x = m x"
    proof (intro allI impI copy_up_frame)
      fix x assume "x \<notin> region d n"
      then show "x \<notin> region (d + of_nat (length out)) ?n"
        using region_sub [of "length out" ?n n d] o(2) Match by auto
    qed
    moreover note s = step_match [OF b now [unfolded Match] v(1-4), of "d + of_nat (length out)", unfolded e]
    ultimately show ?thesis using keep [OF f] Match
      by (intro exI [of _ ?m]) (simp add: s add_ac)
  qed
qed

lemma expand_Cons: "expand (t # ts) out = expand ts (expand [t] out)"
  by (cases t) simp_all

lemma valid_tokens_Cons: "valid_tokens (t # ts) out \<longleftrightarrow> valid_tokens [t] out \<and> valid_tokens ts (expand [t] out)"
  by (cases t) auto

lemma tokens_decoded:
  assumes "block_codes L D st" "coming m st (concat (map (token_bits L D) ts) @ code_bits L 256)"
    and "valid_tokens ts out" "bytes_at m d (length out) = out" "length (expand ts out) \<le> n" "n < 2 ^ 32"
    and "reads st (length (concat (map (token_bits L D) ts) @ code_bits L 256)) \<inter> region d n = {}"
  shows "\<exists>m'. loop huffman_step (m, d + of_nat (length out), st) =
      Inr (m', skip (length (concat (map (token_bits L D) ts) @ code_bits L 256)) st
        \<lparr>bs_decoded := bs_decoded st + of_nat (length (expand ts out) - length out)\<rparr>)
    \<and> bytes_at m' d (length (expand ts out)) = expand ts out \<and> (\<forall>x. x \<notin> region d n \<longrightarrow> m' x = m x)"
  using assms
proof (induction ts arbitrary: m st out)
  case Nil
  then show ?case by (simp add: loop_simps(3) step_end)
next
  case (Cons t ts)
  let ?rest = "concat (map (token_bits L D) ts) @ code_bits L 256" and ?o = "expand [t] out"
  let ?l = "length (token_bits L D t)"
  let ?st = "skip ?l st\<lparr>bs_decoded := bs_decoded st + of_nat (length ?o - length out)\<rparr>"
  have v: "valid_tokens [t] out \<and> valid_tokens ts ?o" by (rule iffD1 [OF valid_tokens_Cons Cons.prems(3)])
  have e: "expand (t # ts) out = expand ts ?o" by (rule expand_Cons)
  have le: "length ?o \<le> length (expand ts ?o)" "length out \<le> length ?o" by (rule length_expand)+
  obtain m' where m': "huffman_step (m, d + of_nat (length out), st) = Inr (Inl (m', d + of_nat (length ?o), ?st))"
    "bytes_at m' d (length ?o) = ?o" "\<forall>x. x \<notin> region d n \<longrightarrow> m' x = m x" "coming m' (skip ?l st) ?rest"
    using token_step [of L D st m t ?rest out d n] Cons.prems v le e by auto
  have r: "reads ?st (length ?rest) \<inter> region d n = {}"
    using reads_skip [of ?l st "length ?rest"] Cons.prems(7) by (auto simp: reads_def)
  have "block_codes L D ?st" "coming m' ?st ?rest" using Cons.prems(1) m'(4) by simp_all
  from Cons.IH [OF this conjunct2 [OF v] m'(2) _ Cons.prems(6) r] Cons.prems(5) e obtain m'' where
    m'': "loop huffman_step (m', d + of_nat (length ?o), ?st) = Inr (m'', skip (length ?rest) ?st
        \<lparr>bs_decoded := bs_decoded ?st + of_nat (length (expand ts ?o) - length ?o)\<rparr>)"
    "bytes_at m'' d (length (expand ts ?o)) = expand ts ?o" "\<forall>x. x \<notin> region d n \<longrightarrow> m'' x = m' x" by auto
  have "of_nat (length ?o - length out) + of_nat (length (expand ts ?o) - length ?o)
      = (of_nat (length (expand ts ?o) - length out) :: u32)" using le by (simp flip: of_nat_add)
  then have "loop huffman_step (m, d + of_nat (length out), st) = Inr (m'', skip (length (concat (map (token_bits L D) (t # ts)) @ code_bits L 256)) st
      \<lparr>bs_decoded := bs_decoded st + of_nat (length (expand ts ?o) - length out)\<rparr>)"
    using m''(1) by (simp add: loop_simps(2) [of huffman_step, OF m'(1)] add.assoc)
  then show ?case unfolding e using m''(2,3) m'(3) by auto
qed

end
