(* ===== verification/InflateSpec.thy ===== *)
theory InflateSpec
  imports InflateCode
begin

text \<open>
  The inflater on a whole stream: stored blocks and blocks of the fixed codes, one after the other, are
  read back as what they hold.
\<close>

section \<open>The fixed codes\<close>

definition fixed_lens :: "nat list" where
  "fixed_lens = replicate 144 8 @ replicate 112 9 @ replicate 24 7 @ replicate 8 8"

definition fixed_dists :: "nat list" where
  "fixed_dists = replicate 32 5"

lemma first_code_numeral [simp]:
  "first_code L (numeral k) = (first_code L (pred_numeral k) + cnt L (pred_numeral k)) * 2"
  "first_code L 1 = 0"
  by (simp_all add: numeral_eq_Suc cnt_def)

lemma count_list_replicate [simp]: "count_list (replicate n x) y = (if x = y then n else 0)"
  by (induction n) auto

lemma cnt_fixed:
  "cnt fixed_lens l = (if l = 7 then 24 else if l = 8 then 152 else if l = 9 then 112 else 0)"
  "cnt fixed_dists l = (if l = 5 then 32 else 0)"
  by (simp_all add: cnt_def fixed_lens_def fixed_dists_def)

lemma fixed_fits: "code_fits fixed_lens 16" "code_fits fixed_dists 16"
proof -
  have "\<forall>l\<in>set [0..<16]. first_code fixed_lens l + cnt fixed_lens l \<le> 2 ^ l"
    by (simp add: upt_rec cnt_fixed)
  then show "code_fits fixed_lens 16" by (simp add: code_fits_def)
  have "\<forall>l\<in>set [0..<16]. first_code fixed_dists l + cnt fixed_dists l \<le> 2 ^ l"
    by (simp add: upt_rec cnt_fixed)
  then show "code_fits fixed_dists 16" by (simp add: code_fits_def)
qed

lemma fixed_counts:
  "(replicate 16 (0 :: int))[7 := 24, 8 := 152, 9 := 112] = map (int \<circ> cnt fixed_lens) [0..<16]"
  "(replicate 16 (0 :: int))[5 := 32] = map (int \<circ> cnt fixed_dists) [0..<16]"
  by (rule nth_equalityI, simp, simp add: nth_list_update cnt_fixed)+

lemma memset_all: "length xs = n \<Longrightarrow> cramfs_memset 0 c n xs = replicate n c"
  by (simp add: cramfs_memset_def)

lemma memset_fixed:
  "length xs = 288 \<Longrightarrow> cramfs_memset 280 8 8 (cramfs_memset 256 7 24 (cramfs_memset 144 9 112 (cramfs_memset 0 8 144 xs)))
    = map int fixed_lens"
  by (simp add: cramfs_memset_def fixed_lens_def)

section \<open>Blocks\<close>

text \<open>
  A stored block, shorter than 64 kB, or one with the fixed codes, with its bits: a stored block goes on at
  the next byte, with its length and the complement of it.  \<open>p\<close> is how many bits came before.
\<close>

datatype block = Stored "byte list" | Fixed "token list"

definition byte_bits :: "byte list \<Rightarrow> bool list" where
  "byte_bits bs = concat (map (\<lambda>b. map (bit b) [0..<8]) bs)"

definition padding :: "nat \<Rightarrow> nat" where
  "padding p = (8 - p mod 8) mod 8"

fun block_bits :: "bool \<Rightarrow> nat \<Rightarrow> block \<Rightarrow> bool list" where
  "block_bits fin p (Stored d) =
     [fin, False, False] @ replicate (padding (p + 3)) False
     @ byte_bits ([of_nat (length d), of_nat (length d div 256), NOT (of_nat (length d)), NOT (of_nat (length d div 256))] @ d)"
| "block_bits fin p (Fixed ts) =
     [fin, True, False] @ concat (map (token_bits fixed_lens fixed_dists) ts) @ code_bits fixed_lens 256"

fun stream_bits :: "nat \<Rightarrow> block list \<Rightarrow> bool list" where
  "stream_bits p [] = []"
| "stream_bits p (b # bs) = (let c = block_bits (bs = []) p b in c @ stream_bits (p + length c) bs)"

fun expand_block :: "block \<Rightarrow> byte list \<Rightarrow> byte list" where
  "expand_block (Stored d) out = out @ d"
| "expand_block (Fixed ts) out = expand ts out"

fun valid_block :: "block \<Rightarrow> byte list \<Rightarrow> bool" where
  "valid_block (Stored d) out = (length d < 65536)"
| "valid_block (Fixed ts) out = valid_tokens ts out"

fun expand_blocks :: "block list \<Rightarrow> byte list \<Rightarrow> byte list" where
  "expand_blocks [] out = out"
| "expand_blocks (b # bs) out = expand_blocks bs (expand_block b out)"

fun valid_blocks :: "block list \<Rightarrow> byte list \<Rightarrow> bool" where
  "valid_blocks [] out = True"
| "valid_blocks (b # bs) out = (valid_block b out \<and> valid_blocks bs (expand_block b out))"

lemma length_expand_block: "length out \<le> length (expand_block b out)"
  by (cases b) (simp_all add: length_expand)

lemma length_expand_blocks: "length out \<le> length (expand_blocks bs out)"
  by (induction bs arbitrary: out) (auto intro: order_trans [OF length_expand_block])

text \<open>What every block keeps: the sizes of the arrays, and no error.\<close>

definition shaped :: "nat \<Rightarrow> huffman_set \<Rightarrow> bool" where
  "shaped n hs = (hs_bits hs = 16 \<and> num_symbols hs = n \<and> length (hs_lengths hs) = n \<and> length (hs_symbols hs) = n
     \<and> length (hs_count hs) = 16 \<and> length (hs_first hs) = 16 \<and> length (hs_pos hs) = 16)"

definition stream_ok :: "bitstream \<Rightarrow> bool" where
  "stream_ok st = (shaped 288 (bs_lengths st) \<and> shaped 32 (bs_distance st) \<and> bs_error st = 0 \<and> bs_bit st < 8)"

lemma same_place:
  assumes "bs_data a = bs_data b" "bs_bit a = bs_bit b"
  shows "coming m a bs = coming m b bs" "reads a n = reads b n"
  using assms by (simp_all add: coming_def sbit_def reads_def)

lemma tables_shaped: "tables L 16 hs \<Longrightarrow> hs_lengths hs = map int L \<Longrightarrow> num_symbols hs = length L \<Longrightarrow> shaped (length L) hs"
  by (simp add: tables_def shaped_def)

lemma fixed_tables:
  assumes "shaped 288 (bs_lengths st)" "shaped 32 (bs_distance st)"
  shows "\<exists>l d. decompress_fixed dest (m, st) = decompress_huffman dest (m, st\<lparr>bs_lengths := l, bs_distance := d\<rparr>)
    \<and> block_codes fixed_lens fixed_dists (st\<lparr>bs_lengths := l, bs_distance := d\<rparr>) \<and> shaped 288 l \<and> shaped 32 d"
proof -
  let ?l = "bs_lengths st\<lparr>hs_first := replicate 16 0, hs_lengths := map int fixed_lens,
      hs_count := (replicate 16 0)[7 := 24, 8 := 152, 9 := 112]\<rparr>"
  let ?d = "bs_distance st\<lparr>hs_first := replicate 16 0, hs_lengths := map int fixed_dists,
      hs_count := (replicate 16 0)[5 := 32]\<rparr>"
  note sh = assms [unfolded shaped_def]
  have L: "length fixed_lens = 288" "length fixed_dists = 32" "\<forall>l\<in>set fixed_lens. 0 < l \<and> l < 16" "\<forall>l\<in>set fixed_dists. 0 < l \<and> l < 16"
    by (auto simp: fixed_lens_def fixed_dists_def)
  obtain l where l: "fill_code_tables ?l = Inr l" "tables fixed_lens 16 l" "hs_lengths l = map int fixed_lens" "num_symbols l = 288"
    using fill_code_tables_ok [of ?l fixed_lens 16] sh(1) L by (auto simp: fixed_counts)
  obtain d where d: "fill_code_tables ?d = Inr d" "tables fixed_dists 16 d" "hs_lengths d = map int fixed_dists" "num_symbols d = 32"
    using fill_code_tables_ok [of ?d fixed_dists 16] sh(2) L by (auto simp: fixed_counts)
  have md: "cramfs_memset 0 5 32 (hs_lengths (bs_distance st)) = map int fixed_dists"
    using sh(2) by (simp add: memset_all fixed_dists_def)
  have "decompress_fixed dest (m, st) = decompress_huffman dest (m, st\<lparr>bs_lengths := l, bs_distance := d\<rparr>)"
    using l(1) d(1) sh by (simp add: decompress_fixed_def Let_def memset_all memset_fixed md)
  moreover have "block_codes fixed_lens fixed_dists (st\<lparr>bs_lengths := l, bs_distance := d\<rparr>)"
    using l(2) d(2) L by (simp add: block_codes_def fixed_fits)
  ultimately show ?thesis using tables_shaped [OF l(2)] tables_shaped [OF d(2)] l(3,4) d(3,4) L by auto
qed

lemma coming_bytes:
  "bs_bit st = 0 \<Longrightarrow> coming m st (byte_bits bs) \<Longrightarrow> bytes_at m (bs_data st) (length bs) = bs"
proof (induction bs arbitrary: st)
  case (Cons b bs)
  from Cons.prems(2) have c: "coming m st (map (bit b) [0..<8])" "coming m (skip 8 st) (byte_bits bs)"
    by (simp_all add: byte_bits_def coming_append del: upt_Suc)
  have "m (bs_data st) = b"
  proof (rule bit_word_eqI)
    fix n :: nat assume "n < LENGTH(8)"
    then have "n < 8" by simp
    with c(1) have "sbit m st n = map (bit b) [0..<8] ! n" unfolding coming_def by simp
    then show "bit (m (bs_data st)) n = bit b n" using \<open>n < 8\<close> Cons.prems(1) by (simp add: sbit_def)
  qed
  moreover have "bytes_at m (bs_data (skip 8 st)) (length bs) = bs" using c(2) Cons.prems(1) by (intro Cons.IH) simp_all
  ultimately show ?case using Cons.prems(1) by (simp add: bytes_at_Suc)
qed simp

lemma length_byte_bits [simp]: "length (byte_bits bs) = 8 * length bs"
  by (induction bs) (simp_all add: byte_bits_def)

lemma byte_bits_append: "byte_bits (xs @ ys) = byte_bits xs @ byte_bits ys"
  by (simp add: byte_bits_def)

lemma pull_bits_state: "bs_bit st < 8 \<Longrightarrow> snd (pull_bits_loop m n i ret st) = skip n st"
  by (induction n arbitrary: i ret st) (simp_all add: skip_0 pull_bit)

lemma discard_bits_skip: "bs_bit st < 8 \<Longrightarrow> discard_bits st = skip (padding (bs_bit st)) st"
proof -
  assume b: "bs_bit st < 8"
  show ?thesis
  proof (cases "bs_bit st = 0")
    case False
    then have "padding (bs_bit st) = 8 - bs_bit st" using b by (simp add: padding_def)
    then show ?thesis using b False by (simp add: discard_bits_def skip_def)
  qed (simp add: discard_bits_def padding_def skip_def)
qed

lemma padding_mod: "p mod 8 = q mod 8 \<Longrightarrow> padding p = padding q" "(p + padding p) mod 8 = 0"
proof -
  show "p mod 8 = q mod 8 \<Longrightarrow> padding p = padding q" by (simp add: padding_def)
  have "(p mod 8 + padding p) mod 8 = 0"
    by (cases "p mod 8 = 0") (simp_all add: padding_def)
  then show "(p + padding p) mod 8 = 0" by (simp add: mod_add_left_eq)
qed

lemma stored_length:
  assumes "n < 65536"
  shows "ucast (of_nat n :: byte) + push_bit 8 (ucast (of_nat (n div 256) :: byte)) = (of_nat n :: u32)"
proof -
  have "n div 256 < 256" using assms by (simp add: less_mult_imp_div_less)
  then have "unat (ucast (of_nat (n div 256) :: byte) :: u32) = n div 256"
    by (simp add: unsigned_ucast_eq unat_of_nat take_bit_eq_mod)
  moreover have "unat (ucast (of_nat n :: byte) :: u32) = n mod 256"
    by (simp add: unsigned_ucast_eq unat_of_nat take_bit_eq_mod)
  ultimately have "unat (ucast (of_nat n :: byte) + push_bit 8 (ucast (of_nat (n div 256) :: byte)) :: u32)
      = n mod 256 + 256 * (n div 256)"
    using assms by (simp add: push_bit_eq_mult unat_word_ariths)
  then show ?thesis using assms by (simp add: word_unat_eq_iff unat_of_nat)
qed

lemma block_header:
  assumes "coming m st ([fin, a, b] @ rest)"
  shows "pull_bit m st = (of_bool fin, skip 1 st)" "pull_bits m 2 (skip 1 st) = (of_bool a + 2 * of_bool b, skip 3 st)"
    "coming m (skip 3 st) rest"
proof -
  have h: "coming m st ([fin] @ [a, b])" "coming m (skip (length [fin, a, b]) st) rest"
    using iffD1 [OF coming_append assms] by simp_all
  have f: "coming m st [fin]" "coming m (skip (length [fin]) st) [a, b]" using iffD1 [OF coming_append h(1)] by simp_all
  have c: "bs_bit st < 8" "sbit m st 0 = fin" "coming m (skip 1 st) [a, b]" "coming m (skip 3 st) rest"
    using f h(2) by (simp_all add: coming_def [of m st] numeral_3_eq_3)
  show "pull_bit m st = (of_bool fin, skip 1 st)" using pull_bit [OF c(1), of m] c(2) by simp
  show "coming m (skip 3 st) rest" by (rule c(4))
  have "lsb 2 v = [odd v, odd (v div 2)]" for v by (simp add: lsb_def upt_rec bit_0 bit_Suc)
  then have "[a, b] = lsb 2 (of_bool a + 2 * of_bool b)" by (cases a; cases b) simp_all
  then have "pull_bits m 2 (skip 1 st) = (int (of_bool a + 2 * of_bool b), skip 2 (skip 1 st))"
    using c(3) by (intro pull_bits) simp_all
  then show "pull_bits m 2 (skip 1 st) = (of_bool a + 2 * of_bool b, skip 3 st)"
    by (simp add: numeral_3_eq_3)
qed

definition after_block ::
  "addr \<Rightarrow> nat \<Rightarrow> mem \<Rightarrow> bitstream \<Rightarrow> nat \<Rightarrow> byte list \<Rightarrow> mem \<Rightarrow> bitstream \<Rightarrow> bool" where
  "after_block d n m st k out m' st' =
     (bytes_at m' d (length out) = out \<and> (\<forall>x. x \<notin> region d n \<longrightarrow> m' x = m x) \<and> stream_ok st'
      \<and> bs_data st' = bs_data (skip k st) \<and> bs_bit st' = bs_bit (skip k st) \<and> bs_decoded st' = of_nat (length out))"

lemma fixed_decoded:
  assumes ok: "stream_ok st" and c: "coming m st (concat (map (token_bits fixed_lens fixed_dists) ts) @ code_bits fixed_lens 256)"
    and v: "valid_tokens ts out" "bytes_at m d (length out) = out" "bs_decoded st = of_nat (length out)"
    and n: "length (expand ts out) \<le> n" "n < 2 ^ 32"
    and r: "reads st (length (concat (map (token_bits fixed_lens fixed_dists) ts) @ code_bits fixed_lens 256)) \<inter> region d n = {}"
  shows "\<exists>m' st'. decompress_fixed (d + bs_decoded st) (m, st) = Inr (m', st')
    \<and> after_block d n m st (length (concat (map (token_bits fixed_lens fixed_dists) ts) @ code_bits fixed_lens 256)) (expand ts out) m' st'"
proof -
  let ?bits = "concat (map (token_bits fixed_lens fixed_dists) ts) @ code_bits fixed_lens 256"
  obtain l e where t: "decompress_fixed (d + bs_decoded st) (m, st)
      = decompress_huffman (d + bs_decoded st) (m, st\<lparr>bs_lengths := l, bs_distance := e\<rparr>)"
    "block_codes fixed_lens fixed_dists (st\<lparr>bs_lengths := l, bs_distance := e\<rparr>)" "shaped 288 l" "shaped 32 e"
    using fixed_tables [of st "d + bs_decoded st" m] ok unfolding stream_ok_def by blast
  let ?st = "st\<lparr>bs_lengths := l, bs_distance := e\<rparr>"
  have "coming m ?st ?bits" "reads ?st (length ?bits) \<inter> region d n = {}"
    using c r by (simp_all add: coming_def sbit_def reads_def)
  from tokens_decoded [OF t(2) this(1) v(1,2) n this(2)] obtain m' where
    m': "loop huffman_step (m, d + of_nat (length out), ?st) = Inr (m', skip (length ?bits) ?st
        \<lparr>bs_decoded := bs_decoded ?st + of_nat (length (expand ts out) - length out)\<rparr>)"
      "bytes_at m' d (length (expand ts out)) = expand ts out" "\<forall>x. x \<notin> region d n \<longrightarrow> m' x = m x" by blast
  let ?st' = "skip (length ?bits) ?st\<lparr>bs_decoded := bs_decoded ?st + of_nat (length (expand ts out) - length out)\<rparr>"
  have "bs_decoded ?st' = of_nat (length (expand ts out))"
    using v(3) length_expand [of out ts] by (simp flip: of_nat_add)
  moreover have "stream_ok ?st'" using ok t(3,4) by (simp add: stream_ok_def)
  ultimately have "after_block d n m st (length ?bits) (expand ts out) m' ?st'"
    using m'(2,3) by (simp add: after_block_def)
  moreover have "decompress_fixed (d + bs_decoded st) (m, st) = Inr (m', ?st')"
    unfolding t(1) using m'(1) v(3) by (simp add: decompress_huffman_def)
  ultimately show ?thesis by blast
qed

lemma skip_bytes:
  "bs_bit st = 0 \<Longrightarrow> bs_data (skip (8 * k) st) = bs_data st + of_nat k \<and> bs_bit (skip (8 * k) st) = 0"
  by simp

lemmas bs_simps = bitstream.select_convs bitstream.update_convs bitstream.simps

lemma stored_decoded:
  fixes data :: "byte list"
  defines "hdr \<equiv> [of_nat (length data), of_nat (length data div 256), NOT (of_nat (length data)), NOT (of_nat (length data div 256))]"
  assumes ok: "stream_ok st" and c: "coming m st (replicate (padding (bs_bit st)) False @ byte_bits (hdr @ data))"
    and v: "length data < 65536" "bytes_at m d (length out) = out" "bs_decoded st = of_nat (length out)"
    and n: "length (out @ data) \<le> n" "n < 2 ^ 32"
    and r: "reads st (length (replicate (padding (bs_bit st)) False @ byte_bits (hdr @ data))) \<inter> region d n = {}"
  shows "\<exists>m' st'. decompress_none (d + bs_decoded st) (m, st) = (m', st')
    \<and> after_block d n m st (length (replicate (padding (bs_bit st)) False @ byte_bits (hdr @ data))) (out @ data) m' st'"
proof -
  let ?k = "padding (bs_bit st)" and ?len = "of_nat (length data) :: u32"
  let ?s0 = "skip ?k st"
  have b: "bs_bit st < 8" using ok by (simp add: stream_ok_def)
  have z: "bs_bit ?s0 = 0" using padding_mod(2) [of "bs_bit st"] by simp
  have "coming m ?s0 (byte_bits (hdr @ data))" using c by (simp add: coming_append)
  from coming_bytes [OF z this] have bytes: "bytes_at m (bs_data ?s0) (length (hdr @ data)) = hdr @ data" .
  have l: "ucast (m (bs_data ?s0)) + push_bit 8 (ucast (m (bs_data ?s0 + 1))) = ?len"
    using bytes stored_length [OF v(1)] by (simp add: hdr_def bytes_at_Suc)
  have data: "bytes_at m (bs_data ?s0 + 4) (length data) = data"
    using bytes by (simp add: hdr_def bytes_at_Suc add.assoc)
  let ?s1 = "?s0\<lparr>bs_data := bs_data ?s0 + 2\<rparr>"
  have "snd (pull_bits m 16 ?s1) = skip 16 ?s1" using z by (simp add: pull_bits_def pull_bits_state)
  also have "\<dots> = ?s0\<lparr>bs_data := bs_data ?s0 + 4\<rparr>" using z by (simp add: skip_def)
  finally have s1: "snd (pull_bits m 16 ?s1) = ?s0\<lparr>bs_data := bs_data ?s0 + 4\<rparr>" .
  let ?m' = "fst (memcpy m (d + bs_decoded st) (bs_data ?s0 + 4) ?len)"
  let ?st' = "?s0\<lparr>bs_decoded := bs_decoded st + ?len, bs_data := bs_data ?s0 + 4 + ?len\<rparr>"
  have "decompress_none (d + bs_decoded st) (m, st) = (?m', ?st')"
    using s1 by (cases "pull_bits m 16 ?s1") (simp add: decompress_none_def discard_bits_skip [OF b] Let_def l [unfolded skip_fields])
  moreover have un: "unat ?len = length data" using v(1) by (simp add: unat_of_nat)
  have sub: "region (bs_data ?s0 + 4) (length data) \<inter> region (d + of_nat (length out)) (length data) = {}"
  proof -
    have "x \<in> reads st (?k + 8 * (4 + length data))" if "x \<in> region (bs_data ?s0 + 4) (length data)" for x
    proof -
      from that obtain i where i: "i < length data" "x = bs_data ?s0 + 4 + of_nat i" by (auto simp: region_def)
      have "bs_data ?s0 + of_nat ((bs_bit ?s0 + 8 * (4 + i)) div 8) \<in> reads ?s0 (8 * (4 + length data))"
        using i(1) unfolding reads_def by (intro imageI) simp
      moreover have "bs_data ?s0 + of_nat ((bs_bit ?s0 + 8 * (4 + i)) div 8) = x" unfolding z i(2) by (simp add: add.assoc)
      ultimately show ?thesis using reads_skip [of ?k st "8 * (4 + length data)"] by blast
    qed
    moreover have "region (d + of_nat (length out)) (length data) \<subseteq> region d n" using n by (intro region_sub) simp
    ultimately show ?thesis using r by (auto simp: hdr_def)
  qed
  then have "up_safe (d + of_nat (length out)) (bs_data ?s0 + 4) (length data)"
    using v(1) by (intro up_safe_disjoint) auto
  then have "bytes_at ?m' (d + of_nat (length out)) (length data) = data"
    using memcpy.block_moved [of "d + of_nat (length out)" "bs_data ?s0 + 4" ?len m] data un v(3) by simp
  moreover have f: "?m' x = m x" if "x \<notin> region (d + of_nat (length out)) (length data)" for x
    using memcpy.outside [of x "d + of_nat (length out)" ?len m "bs_data ?s0 + 4"] that un v(3) by simp
  moreover have "bytes_at ?m' d (length out) = bytes_at m d (length out)"
  proof (intro bytes_at_eqI f)
    fix i assume i: "i < length out"
    have "region (d + of_nat (length out)) (length data) \<inter> region d (length out) = {}"
      by (rule region_before) (use n in simp)
    then show "d + of_nat i \<notin> region (d + of_nat (length out)) (length data)" using i by blast
  qed
  ultimately have "bytes_at ?m' d (length (out @ data)) = out @ data" using v(2) by (simp add: bytes_at_append)
  moreover have "\<forall>x. x \<notin> region d n \<longrightarrow> ?m' x = m x"
    using f region_sub [of "length out" "length data" n d] n by auto
  moreover have "stream_ok ?st'" using ok by (simp add: stream_ok_def)
  moreover have "bs_data ?st' = bs_data (skip (length (replicate ?k False @ byte_bits (hdr @ data))) st)"
    "bs_bit ?st' = bs_bit (skip (length (replicate ?k False @ byte_bits (hdr @ data))) st)"
  proof -
    have "skip (length (replicate ?k False @ byte_bits (hdr @ data))) st = skip (8 * (4 + length data)) ?s0" by (simp add: hdr_def)
    then show "bs_data ?st' = bs_data (skip (length (replicate ?k False @ byte_bits (hdr @ data))) st)"
      "bs_bit ?st' = bs_bit (skip (length (replicate ?k False @ byte_bits (hdr @ data))) st)"
      using skip_bytes [OF z, of "4 + length data"] z by (simp_all only: bs_simps) (simp_all add: add.assoc)
  qed
  ultimately have "after_block d n m st (length (replicate ?k False @ byte_bits (hdr @ data))) (out @ data) ?m' ?st'"
    using v(3) by (simp add: after_block_def)
  with \<open>decompress_none (d + bs_decoded st) (m, st) = (?m', ?st')\<close> show ?thesis by blast
qed

text \<open>One block: its three bits of header, and what they announce.\<close>

lemma block_decoded:
  assumes ok: "stream_ok st" and p: "bs_bit st = p mod 8" and c: "coming m st (block_bits fin p b)"
    and v: "valid_block b out" "bytes_at m d (length out) = out" "bs_decoded st = of_nat (length out)"
    and n: "length (expand_block b out) \<le> n" "n < 2 ^ 32"
    and r: "reads st (length (block_bits fin p b)) \<inter> region d n = {}"
  shows "\<exists>m' st'. block_step d (m, st) = Inr (if fin then Inr (m', st') else Inl (m', st'))
    \<and> after_block d n m st (length (block_bits fin p b)) (expand_block b out) m' st'"
proof -
  have b: "bs_bit st < 8" using ok by (simp add: stream_ok_def)
  have ok3: "stream_ok (skip 3 st)" using ok by (simp add: stream_ok_def)
  have after: "after_block d n m st (3 + k) out' m' st'" if "after_block d n m (skip 3 st) k out' m' st'" for k out' m' st'
    using that by (simp add: after_block_def)
  have r3: "reads (skip 3 st) k \<inter> region d n = {}" if "3 + k = length (block_bits fin p b)" for k
    using reads_skip [of 3 st k] r that by auto
  have ending: "\<exists>m' st'. block_step d (m, st) = Inr (if fin then Inr (m', st') else Inl (m', st'))
      \<and> after_block d n m st (length (block_bits fin p b)) (expand_block b out) m' st'"
    if "block_step d (m, st) = Inr (if of_bool fin = (0 :: int) \<and> bs_error st' = NO_ERROR then Inl (m', st') else Inr (m', st'))"
      "after_block d n m st (length (block_bits fin p b)) (expand_block b out) m' st'" for m' st'
    using that by (intro exI [of _ m'] exI [of _ st']) (simp add: after_block_def stream_ok_def)
  show ?thesis
  proof (cases b)
    case (Stored data)
    note h = block_header [OF c [unfolded Stored block_bits.simps]]
    have k: "padding (p + 3) = padding (bs_bit (skip 3 st))"
      by (rule padding_mod(1)) (simp add: p mod_add_left_eq)
    obtain m' st' where d': "decompress_none (d + bs_decoded st) (m, skip 3 st) = (m', st')"
      "after_block d n m (skip 3 st) (length (block_bits fin p b) - 3) (out @ data) m' st'"
      using stored_decoded [OF ok3 h(3) [unfolded k], of d out n] v n r3 [of "length (block_bits fin p b) - 3"]
      by (auto simp: Stored k add_ac)
    have "block_step d (m, st) = Inr (if of_bool fin = (0 :: int) \<and> bs_error st' = NO_ERROR then Inl (m', st') else Inr (m', st'))"
      using h(1,2) d'(1) by (simp add: block_step_def)
    then show ?thesis using after [OF d'(2)] by (intro ending) (simp_all add: Stored numeral_3_eq_3)
  next
    case (Fixed ts)
    note h = block_header [OF c [unfolded Fixed block_bits.simps]]
    obtain m' st' where d': "decompress_fixed (d + bs_decoded st) (m, skip 3 st) = Inr (m', st')"
      "after_block d n m (skip 3 st) (length (block_bits fin p b) - 3) (expand ts out) m' st'"
      using fixed_decoded [OF ok3 h(3), of out d n] v n r3 [of "length (block_bits fin p b) - 3"]
      by (auto simp: Fixed)
    have "block_step d (m, st) = Inr (if of_bool fin = (0 :: int) \<and> bs_error st' = NO_ERROR then Inl (m', st') else Inr (m', st'))"
      using h(1,2) d'(1) by (simp add: block_step_def)
    then show ?thesis using after [OF d'(2)] by (intro ending) (simp_all add: Fixed numeral_3_eq_3)
  qed
qed

lemma reads_mono: "k \<le> n \<Longrightarrow> reads st k \<subseteq> reads st n"
  unfolding reads_def by (rule image_mono) auto

text \<open>A stream of blocks, from the first to the one marked as the last.\<close>

lemma blocks_decoded:
  assumes "blocks \<noteq> []" "stream_ok st" "bs_bit st = p mod 8" "coming m st (stream_bits p blocks)"
    and "valid_blocks blocks out" "bytes_at m d (length out) = out" "bs_decoded st = of_nat (length out)"
    and "length (expand_blocks blocks out) \<le> n" "n < 2 ^ 32"
    and "reads st (length (stream_bits p blocks)) \<inter> region d n = {}"
  shows "\<exists>m' st'. loop (block_step d) (m, st) = Inr (m', st')
    \<and> bytes_at m' d (length (expand_blocks blocks out)) = expand_blocks blocks out
    \<and> (\<forall>x. x \<notin> region d n \<longrightarrow> m' x = m x) \<and> bs_error st' = 0 \<and> bs_decoded st' = of_nat (length (expand_blocks blocks out))"
  using assms
proof (induction blocks arbitrary: m st p out)
  case (Cons b bs)
  let ?c = "block_bits (bs = []) p b" and ?o = "expand_block b out"
  have c: "coming m st ?c" "coming m (skip (length ?c) st) (stream_bits (p + length ?c) bs)"
    using Cons.prems(4) by (simp_all add: Let_def coming_append)
  have r: "reads st (length ?c) \<inter> region d n = {}"
    "reads (skip (length ?c) st) (length (stream_bits (p + length ?c) bs)) \<inter> region d n = {}"
    using Cons.prems(10) reads_skip [of "length ?c" st "length (stream_bits (p + length ?c) bs)"]
      reads_mono [of "length ?c" "length (stream_bits p (b # bs))" st] by (auto simp: Let_def)
  obtain m1 st1 where s: "block_step d (m, st) = Inr (if bs = [] then Inr (m1, st1) else Inl (m1, st1))"
    "after_block d n m st (length ?c) ?o m1 st1"
    using block_decoded [OF Cons.prems(2,3) c(1) _ Cons.prems(6,7) _ Cons.prems(9) r(1)] Cons.prems(5,8)
      length_expand_blocks [of ?o bs] by auto
  note a = s(2) [unfolded after_block_def]
  show ?case
  proof (cases "bs = []")
    case True
    then show ?thesis using s(1) a loop_simps(3) [of "block_step d" "(m, st)"] by (auto simp: stream_ok_def)
  next
    case False
    let ?bits = "stream_bits (p + length ?c) bs"
    have "coming m1 (skip (length ?c) st) ?bits" using coming_cong [of "skip (length ?c) st" ?bits m1 m] c(2) r(2) a by blast
    then have "coming m1 st1 ?bits" "reads st1 (length ?bits) \<inter> region d n = {}"
      using same_place [of st1 "skip (length ?c) st"] a r(2) by simp_all
    moreover have "bs_bit st1 = (p + length ?c) mod 8" using a Cons.prems(3) by (simp add: mod_add_left_eq)
    ultimately obtain m' st' where i: "loop (block_step d) (m1, st1) = Inr (m', st')"
      "bytes_at m' d (length (expand_blocks bs ?o)) = expand_blocks bs ?o" "\<forall>x. x \<notin> region d n \<longrightarrow> m' x = m1 x"
      "bs_error st' = 0" "bs_decoded st' = of_nat (length (expand_blocks bs ?o))"
      using Cons.IH [OF False, of st1 "p + length ?c" m1 ?o] a Cons.prems(5,8,9) by auto
    moreover have "loop (block_step d) (m, st) = loop (block_step d) (m1, st1)"
      using s(1) False by (intro loop_simps(2)) simp
    ultimately show ?thesis using a by auto
  qed
qed simp

section \<open>The inflater reads back a stream, and the tables decode their code\<close>

text \<open>A stream that is decoded whole.\<close>

lemma inflated:
  assumes "blocks \<noteq> []" "valid_blocks blocks []" "length (expand_blocks blocks []) < 2 ^ 31"
    and "\<forall>k<length (stream_bits 0 blocks).
           bit (m (data_in + 2 + of_nat (k div 8))) (k mod 8) = stream_bits 0 blocks ! k"
    and "\<forall>k<length (stream_bits 0 blocks).
           data_in + 2 + of_nat (k div 8) \<notin> region cpage_out (length (expand_blocks blocks []))"
  shows "\<exists>m'. zlib_decompress junk data_in cpage_out srclen destlen m = Inr (int (length (expand_blocks blocks [])), m')
    \<and> bytes_at m' cpage_out (length (expand_blocks blocks [])) = expand_blocks blocks []
    \<and> (\<forall>x. x \<notin> region cpage_out (length (expand_blocks blocks [])) \<longrightarrow> m' x = m x)"
proof -
  let ?st = "init_stream junk (data_in + 2)" and ?n = "length (expand_blocks blocks [])"
  have ok: "stream_ok ?st" by (simp add: stream_ok_def shaped_def init_stream_def init_set_def)
  have c: "coming m ?st (stream_bits 0 blocks)" using assms(4) by (simp add: coming_def sbit_def init_stream_def)
  have r: "reads ?st (length (stream_bits 0 blocks)) \<inter> region cpage_out ?n = {}"
    using assms(5) by (auto simp: reads_def init_stream_def)
  have n: "?n < 2 ^ 32" using assms(3) by simp
  have z: "bs_bit ?st = 0 mod 8" "bs_decoded ?st = of_nat (length [])" by (simp_all add: init_stream_def)
  obtain m' st' where l: "loop (block_step cpage_out) (m, ?st) = Inr (m', st')"
    "bytes_at m' cpage_out ?n = expand_blocks blocks []" "\<forall>x. x \<notin> region cpage_out ?n \<longrightarrow> m' x = m x"
    "bs_error st' = 0" "bs_decoded st' = of_nat ?n"
    using blocks_decoded [OF assms(1) ok z(1) c assms(2) _ z(2) order_refl n r] by auto
  have "unat (of_nat ?n :: u32) = ?n" using n by (simp add: unat_of_nat)
  then have "sint (of_nat ?n :: u32) = int ?n" using assms(3) sint_unat_small [of "of_nat ?n"] by simp
  then show ?thesis using l by (simp add: zlib_decompress_def decompress_block_def)
qed

text \<open>
  C15: the inflater undoes the format.  Where the bytes from two behind \<open>data_in\<close> hold, low bit first, the blocks of
  a valid stream - stored data, and literals and matches in the fixed codes of RFC 1951 - \<open>zlib_decompress\<close> writes
  what they stand for to \<open>cpage_out\<close>, changes nothing else and returns the length.
\<close>

theorem inflate_roundtrip:
  assumes "blocks \<noteq> []" "valid_blocks blocks []" "length (expand_blocks blocks []) < 2 ^ 31"
    and "\<forall>k<length (stream_bits 0 blocks).
           bit (m (data_in + 2 + of_nat (k div 8))) (k mod 8) = stream_bits 0 blocks ! k"
    and "\<forall>k<length (stream_bits 0 blocks).
           data_in + 2 + of_nat (k div 8) \<notin> region cpage_out (length (expand_blocks blocks []))"
  shows "\<exists>m'. zlib_decompress junk data_in cpage_out srclen destlen m = Inr (int (length (expand_blocks blocks [])), m')
    \<and> bytes_at m' cpage_out (length (expand_blocks blocks [])) = expand_blocks blocks []
    \<and> (\<forall>x. x \<notin> region cpage_out (length (expand_blocks blocks [])) \<longrightarrow> m' x = m x)"
  using assms by (rule inflated)

lemma bits_cover: "(\<forall>k<(n :: nat). P k) \<longleftrightarrow> (\<forall>k\<in>set [0..<n]. P k)"
  by auto

text \<open>The stream that \<open>zlib\<close> makes of \<open>abcabcabc\<close>: four literals and one match that overlaps itself.\<close>

definition abc :: mem where
  "abc x = (if x < 9 then [0x78, 0x01, 0x4b, 0x4c, 0x4a, 0x4e, 0x04, 0x23, 0x00] ! unat x else 0)"

lemma abc_code:
  "code_bits fixed_lens 97 = msb 8 145" "code_bits fixed_lens 98 = msb 8 146" "code_bits fixed_lens 99 = msb 8 147"
  "code_bits fixed_lens 259 = msb 7 3" "code_bits fixed_dists 2 = msb 5 2" "code_bits fixed_lens 256 = msb 7 0"
proof -
  have "fixed_lens ! 97 = 8" "fixed_lens ! 98 = 8" "fixed_lens ! 99 = 8" "fixed_lens ! 259 = 7" "fixed_dists ! 2 = 5"
    "fixed_lens ! 256 = 7" by (simp_all add: fixed_lens_def fixed_dists_def nth_append)
  moreover from this have "rank fixed_lens 97 = 97" "rank fixed_lens 98 = 98" "rank fixed_lens 99 = 99"
    "rank fixed_lens 259 = 3" "rank fixed_dists 2 = 2" "rank fixed_lens 256 = 0"
    unfolding rank_def by (simp_all only:) (simp_all add: fixed_lens_def fixed_dists_def)
  ultimately show "code_bits fixed_lens 97 = msb 8 145" "code_bits fixed_lens 98 = msb 8 146"
    "code_bits fixed_lens 99 = msb 8 147" "code_bits fixed_lens 259 = msb 7 3" "code_bits fixed_dists 2 = msb 5 2"
    "code_bits fixed_lens 256 = msb 7 0"
    by (simp_all add: code_bits_def canonical_def cnt_fixed numeral_2_eq_2)
qed

lemma abc_stream:
  "stream_bits 0 [Fixed [Lit 97, Lit 98, Lit 99, Lit 97, Match 2 0 2 0]]
    = lsb 8 0x4b @ lsb 8 0x4c @ lsb 8 0x4a @ lsb 8 0x4e @ lsb 8 0x04 @ lsb 8 0x23 @ lsb 6 0"
  by (simp add: abc_code len_extra_def dist_extra_def msb_def lsb_def upt_rec bit_0)

theorem inflate_roundtrip_witness:
  "\<exists>m'. zlib_decompress (\<lambda>_. 0) 0 0x1000 13 9 abc = Inr (9, m')
     \<and> bytes_at m' 0x1000 9 = [97, 98, 99, 97, 98, 99, 97, 98, 99]"
proof -
  let ?b = "[Fixed [Lit 97, Lit 98, Lit 99, Lit 97, Match 2 0 2 0]]"
  have e: "expand_blocks ?b [] = [97, 98, 99, 97, 98, 99, 97, 98, 99]"
    by (simp add: len_base_def dist_base_def eval_nat_numeral)
  have v: "valid_blocks ?b []" by (simp add: len_base_def dist_base_def len_extra_def dist_extra_def)
  have n: "length (stream_bits 0 ?b) = 54" unfolding abc_stream by simp
  have b: "\<forall>k<54. bit (abc (0 + 2 + of_nat (k div 8))) (k mod 8) = stream_bits 0 ?b ! k"
    unfolding bits_cover abc_stream by (simp add: upt_rec abc_def lsb_def bit_0)
  have r: "\<forall>k<54. (0 :: addr) + 2 + of_nat (k div 8) \<notin> region 0x1000 9"
  proof -
    have "region 0x1000 9 = {0x1000, 0x1001, 0x1002, 0x1003, 0x1004, 0x1005, 0x1006, 0x1007, 0x1008}"
      by (simp add: region_numeral region_Suc)
    then show ?thesis unfolding bits_cover by (simp add: upt_rec)
  qed
  have l: "length [97 :: byte, 98, 99, 97, 98, 99, 97, 98, 99] = 9" by simp
  show ?thesis
    using inflate_roundtrip [where blocks = ?b and m = abc and data_in = 0 and cpage_out = "0x1000"
        and junk = "\<lambda>_. 0" and srclen = 13 and destlen = 9, unfolded n e l, OF _ v _ b r] by auto
qed

text \<open>
  C16: the tables that \<open>fill_code_tables\<close> makes from the lengths of a code that fits decode that code: for every
  symbol that has a code, \<open>read_symbol\<close> at the symbol's canonical code gives the symbol and reads just these bits.
\<close>

theorem huffman_tables_decode:
  assumes "num_symbols hs = length L" "hs_lengths hs = map int L" "\<forall>l\<in>set L. l < bits" "0 < bits" "code_fits L bits"
    and "hs_count hs = map (int \<circ> cnt L) [0..<bits]" "hs_first hs ! 0 = 0" "length (hs_first hs) = bits"
    and "length (hs_pos hs) = bits" "length (hs_symbols hs) = length L" "hs_bits hs = bits"
  shows "\<exists>hs'. fill_code_tables hs = Inr hs' \<and>
    (\<forall>m st s. s < length L \<and> 0 < L ! s \<and> coming m st (code_bits L s) \<longrightarrow>
       read_symbol m hs' st = Inr (int s, skip (L ! s) st))"
proof -
  obtain hs' where "fill_code_tables hs = Inr hs'" "tables L bits hs'"
    using fill_code_tables_ok [OF assms(1-4,6-11)] by blast
  then show ?thesis using read_symbol_ok [OF _ assms(5)] assms(3) by auto
qed

theorem huffman_tables_decode_witness:
  "\<exists>hs'. fill_code_tables \<lparr>hs_bits = 4, num_symbols = 4, hs_lengths = [2, 1, 3, 3], hs_symbols = [0, 0, 0, 0],
        hs_count = [0, 1, 1, 2], hs_first = [0, 0, 0, 0], hs_pos = [0, 0, 0, 0]\<rparr> = Inr hs'
     \<and> read_symbol (\<lambda>_. 3) hs' (init_stream (\<lambda>_. 0) 0) = Inr (2, skip 3 (init_stream (\<lambda>_. 0) 0))"
proof -
  let ?L = "[2, 1, 3, 3] :: nat list"
  have "\<forall>l\<in>set [0..<4]. first_code ?L l + cnt ?L l \<le> 2 ^ l" by (simp add: upt_rec cnt_def)
  then have f: "code_fits ?L 4" by (simp add: code_fits_def)
  have b: "code_bits ?L 2 = [True, True, False]"
    by (simp add: code_bits_def canonical_def rank_def cnt_def msb_def lsb_def upt_rec bit_0)
  have "coming (\<lambda>_. 3) (init_stream (\<lambda>_. 0) 0) (code_bits ?L 2)"
    unfolding b by (simp add: coming_Cons coming_Nil sbit_def init_stream_def bit_0)
  moreover obtain hs' where "fill_code_tables \<lparr>hs_bits = 4, num_symbols = 4, hs_lengths = [2, 1, 3, 3],
        hs_symbols = [0, 0, 0, 0], hs_count = [0, 1, 1, 2], hs_first = [0, 0, 0, 0], hs_pos = [0, 0, 0, 0]\<rparr> = Inr hs'"
    "\<forall>m st s. s < length ?L \<and> 0 < ?L ! s \<and> coming m st (code_bits ?L s) \<longrightarrow>
       read_symbol m hs' st = Inr (int s, skip (?L ! s) st)"
    using huffman_tables_decode [of "\<lparr>hs_bits = 4, num_symbols = 4, hs_lengths = [2, 1, 3, 3], hs_symbols = [0, 0, 0, 0],
        hs_count = [0, 1, 1, 2], hs_first = [0, 0, 0, 0], hs_pos = [0, 0, 0, 0]\<rparr>" ?L 4] f
    by (auto simp: cnt_def upt_rec)
  moreover from this(2) [rule_format, of 2 "\<lambda>_. 3" "init_stream (\<lambda>_. 0) 0"] calculation(1)
  have "read_symbol (\<lambda>_. 3) hs' (init_stream (\<lambda>_. 0) 0) = Inr (2, skip 3 (init_stream (\<lambda>_. 0) 0))" by simp
  ultimately show ?thesis by blast
qed

end
