(* ===== verification/Compr.thy ===== *)
theory Compr
  imports Loop Image
begin

text \<open>
  The simple decompressors of the flash file system: \<^verbatim>\<open>fs/jffs2/compr_rtime.c\<close> and
  \<^verbatim>\<open>fs/jffs2/compr_rubin.c\<close>.

  Input and output are in the same memory.  \<open>outpos\<close> and \<open>pos\<close> are of type \<open>int\<close>; a page has a few
  thousand bytes, and they are numbers here.
\<close>

section \<open>Run lengths\<close>

text \<open>\<^verbatim>\<open>for (i = 0; i < repeat; i++) *(cpage_out + outpos + i) = *(cpage_out + backoffs + i);\<close>\<close>

definition rtime_run :: "addr \<Rightarrow> nat \<Rightarrow> nat \<Rightarrow> nat \<Rightarrow> mem \<Rightarrow> mem" where
  "rtime_run cpage_out outpos backoffs repeat m =
     (if outpos \<le> backoffs + repeat
      then copy_up repeat m (cpage_out + of_nat outpos) (cpage_out + of_nat backoffs)
      else foldl (\<lambda>m i. m(cpage_out + of_nat outpos + of_nat i := m (cpage_out + of_nat backoffs + of_nat i)))
             m [0..<repeat])"

function rtime_loop :: "addr \<Rightarrow> addr \<Rightarrow> nat \<Rightarrow> nat list \<Rightarrow> nat \<Rightarrow> nat \<Rightarrow> mem \<Rightarrow> mem" where
  "rtime_loop data_in cpage_out destlen positions outpos pos m =
     (if outpos < destlen then
        let value = m (data_in + of_nat pos);
            m = m(cpage_out + of_nat outpos := value);
            outpos = outpos + 1;
            repeat = unat (m (data_in + of_nat (pos + 1)));
            backoffs = positions ! unat value;
            positions = positions[unat value := outpos];
            m = (if repeat \<noteq> 0 then rtime_run cpage_out outpos backoffs repeat m else m)
        in rtime_loop data_in cpage_out destlen positions (outpos + repeat) (pos + 2) m
      else m)"
  by pat_completeness auto

termination by (relation "measure (\<lambda>(_, _, destlen, _, outpos, _, _). destlen - outpos)") (auto simp: Let_def)

definition rtime_decompress :: "addr \<Rightarrow> addr \<Rightarrow> u32 \<Rightarrow> u32 \<Rightarrow> mem \<Rightarrow> mem" where
  "rtime_decompress data_in cpage_out srclen destlen m =
     rtime_loop data_in cpage_out (unat destlen) (replicate 256 0) 0 0 m"

section \<open>Arithmetic coding\<close>

abbreviation (input) UPPER_BIT_RUBIN :: u32 where "UPPER_BIT_RUBIN \<equiv> 0x8000"

record rubin =
  temp :: u32
  ru_bit :: u32
  ru_q :: u32
  ru_p :: u32
  rec_q :: u32
  ru_in :: addr

text \<open>The body of the loop that scales the interval up.\<close>

definition rubin_shift :: "mem \<Rightarrow> rubin \<Rightarrow> rubin" where
  "rubin_shift m r =
     (let r = r\<lparr>ru_q := push_bit 1 (ru_q r AND NOT UPPER_BIT_RUBIN), ru_p := push_bit 1 (ru_p r),
                rec_q := push_bit 1 (rec_q r AND NOT UPPER_BIT_RUBIN)
                  OR (drop_bit (unat (ru_bit r XOR 7)) (temp r) AND 1),
                ru_bit := ru_bit r + 1\<rparr>
      in if ru_bit r > 31 then r\<lparr>ru_bit := 0, temp := word_at m (ru_in r + 4), ru_in := ru_in r + 4\<rparr> else r)"

definition rubin_scale :: "mem \<Rightarrow> rubin \<Rightarrow> stop + rubin" where
  "rubin_scale m = loop (\<lambda>r.
     if ru_q r AND UPPER_BIT_RUBIN \<noteq> 0 \<or> ru_p r + ru_q r \<le> UPPER_BIT_RUBIN
     then Inr (Inl (rubin_shift m r)) else Inr (Inr r))"

text \<open>One bit; the bits of a byte, from the lowest.\<close>

definition rubin_bit :: "byte \<Rightarrow> rubin \<Rightarrow> bool \<times> rubin" where
  "rubin_bit prob r =
     (let i0 = drop_bit 8 (ucast prob * ru_p r);
          i0 = (if sint i0 \<le> 0 then 1 else i0)
      in if rec_q r < ru_q r + i0 then (False, r\<lparr>ru_p := i0\<rparr>)
         else (True, r\<lparr>ru_p := ru_p r - i0, ru_q := ru_q r + i0\<rparr>))"

primrec rubin_bits :: "byte list \<Rightarrow> byte \<Rightarrow> mem \<Rightarrow> rubin \<Rightarrow> stop + byte \<times> rubin" where
  "rubin_bits [] result m r = Inr (result, r)"
| "rubin_bits (prob # probs) result m r =
     sbind (rubin_scale m r) (\<lambda>r.
       let (b, r) = rubin_bit prob r; result = drop_bit 1 result
       in rubin_bits probs (if b then result OR 0x80 else result) m r)"

primrec rubin_bytes :: "nat \<Rightarrow> byte list \<Rightarrow> addr \<Rightarrow> rubin \<Rightarrow> mem \<Rightarrow> stop + mem" where
  "rubin_bytes 0 bits cur r m = Inr m"
| "rubin_bytes (Suc n) bits cur r m =
     sbind (rubin_bits bits 0 m r) (\<lambda>(result, r). rubin_bytes n bits (cur + 1) r (m(cur := result)))"

text \<open>\<open>curr < end\<close> compares pointers: where the output would wrap around, nothing is written.\<close>

definition rubin_do_decompress :: "byte list \<Rightarrow> addr \<Rightarrow> addr \<Rightarrow> u32 \<Rightarrow> mem \<Rightarrow> stop + mem" where
  "rubin_do_decompress bits inp page_out destlen m =
     (let r = \<lparr>temp = word_at m inp, ru_bit = 16, ru_q = 0, ru_p = 2 * UPPER_BIT_RUBIN,
               rec_q = push_bit 8 (ucast (m inp)) OR ucast (m (inp + 1)), ru_in = inp\<rparr>;
          stop = page_out + destlen
      in rubin_bytes (if page_out < stop then unat (stop - page_out) else 0) bits page_out r m)"

definition dynrubin_decompress :: "addr \<Rightarrow> addr \<Rightarrow> u32 \<Rightarrow> u32 \<Rightarrow> mem \<Rightarrow> stop + mem" where
  "dynrubin_decompress data_in cpage_out sourcelen dstlen m =
     (let bits = map (\<lambda>c. 256 - m (data_in + of_nat c)) [0..<8]
      in rubin_do_decompress bits (data_in + 8) cpage_out dstlen m)"

section \<open>What \<open>rtime_decompress\<close> undoes\<close>

text \<open>
  The format's compressor, as the flash file system's writers have it: each byte is followed by how far
  the text repeats what followed the byte's last occurrence.
\<close>

definition match_len :: "byte list \<Rightarrow> nat \<Rightarrow> nat \<Rightarrow> nat" where
  "match_len xs b p = length (takeWhile (\<lambda>(x, y). x = y) (zip (drop p xs) (drop b xs)))"

function rtime_code :: "byte list \<Rightarrow> nat \<Rightarrow> nat list \<Rightarrow> byte list" where
  "rtime_code xs pos positions =
     (if pos < length xs then
        let v = xs ! pos; n = min 255 (match_len xs (positions ! unat v) (pos + 1))
        in v # of_nat n # rtime_code xs (pos + 1 + n) (positions[unat v := pos + 1])
      else [])"
  by pat_completeness auto

termination by (relation "measure (\<lambda>(xs, pos, _). length xs - pos)") (auto simp: Let_def)

declare rtime_code.simps [simp del] rtime_loop.simps [simp del]

definition rtime_compress :: "byte list \<Rightarrow> byte list" where
  "rtime_compress xs = rtime_code xs 0 (replicate 256 0)"

lemma match_len_le: "p \<le> length xs \<Longrightarrow> p + match_len xs b p \<le> length xs"
  using length_takeWhile_le [of "\<lambda>(x, y). x = y" "zip (drop p xs) (drop b xs)"]
  by (simp add: match_len_def) linarith

lemma match_len_nth:
  assumes "k < match_len xs b p" "b < p"
  shows "xs ! (b + k) = xs ! (p + k)"
proof -
  let ?z = "zip (drop p xs) (drop b xs)"
  have "k < length (takeWhile (\<lambda>(x, y). x = y) ?z)" using assms(1) by (simp add: match_len_def)
  moreover from this have "k < length ?z" using length_takeWhile_le [of "\<lambda>(x, y). x = y" ?z] by linarith
  ultimately have "case ?z ! k of (x, y) \<Rightarrow> x = y" using nth_mem set_takeWhileD takeWhile_nth by metis
  with \<open>k < length ?z\<close> show ?thesis using assms(2) by simp
qed

lemma foldl_copy_up:
  fixes m :: mem
  shows "foldl (\<lambda>m i. m(t + of_nat i := m (s + of_nat i))) m [0..<n] = copy_up n m t s"
proof (induction n arbitrary: m t s)
  case (Suc n)
  let ?f = "\<lambda>(m :: mem) i. m(t + of_nat i := m (s + of_nat i))"
  have "foldl ?f m [0..<Suc n] = foldl (\<lambda>m i. ?f m (Suc i)) (?f m 0) [0..<n]"
    by (simp only: upt_conv_Cons [OF zero_less_Suc] foldl.simps map_Suc_upt [symmetric] foldl_map)
  also have "\<dots> = foldl (\<lambda>m i. m(t + 1 + of_nat i := m (s + 1 + of_nat i))) (m(t := m s)) [0..<n]"
    by (simp only: offset_Suc) simp
  also have "\<dots> = copy_up n (m(t := m s)) (t + 1) (s + 1)" by (rule Suc)
  finally show ?case by (simp only: copy_up.simps)
qed simp

lemma rtime_run_copy: "rtime_run d i b n m = copy_up n m (d + of_nat i) (d + of_nat b)"
  by (simp add: rtime_run_def foldl_copy_up)

lemma rtime_loop_code:
  assumes "\<forall>i<256. positions ! i \<le> pos" "length positions = 256" "pos \<le> length xs" "length xs < 2 ^ 32"
    and "bytes_at m out pos = take pos xs"
    and "bytes_at m (inp + of_nat ip) (length (rtime_code xs pos positions)) = rtime_code xs pos positions"
    and "region (inp + of_nat ip) (length (rtime_code xs pos positions)) \<inter> region out (length xs) = {}"
  shows "bytes_at (rtime_loop inp out (length xs) positions pos ip m) out (length xs) = xs
    \<and> (\<forall>x. x \<notin> region out (length xs) \<longrightarrow> rtime_loop inp out (length xs) positions pos ip m x = m x)"
  using assms
proof (induction xs pos positions arbitrary: m ip rule: rtime_code.induct)
  case (1 xs pos positions)
  show ?case
  proof (cases "pos < length xs")
    case False
    with 1 show ?thesis by (simp add: rtime_loop.simps)
  next
    case True
    let ?v = "xs ! pos" let ?b = "positions ! unat ?v" let ?p = "pos + 1"
    let ?n = "min 255 (match_len xs ?b ?p)" and ?pos = "positions[unat ?v := pos + 1]"
    let ?code = "rtime_code xs (?p + ?n) ?pos"
    have code: "rtime_code xs pos positions = ?v # of_nat ?n # ?code"
      using True by (subst rtime_code.simps) (simp add: Let_def)
    have n: "?p + ?n \<le> length xs" using match_len_le [of ?p xs ?b] True by simp
    have b: "?b < ?p" using 1(2) unat_byte_less [of ?v] by (simp add: less_Suc_eq_le)
    have v: "m (inp + of_nat ip) = ?v" and c: "m (inp + of_nat ip + 1) = of_nat ?n"
      and r: "bytes_at m (inp + of_nat (ip + 2)) (length ?code) = ?code"
      using 1(7) unfolding code by (simp_all add: bytes_at_Suc add_ac)
    have sub: "region (out + of_nat i) k \<subseteq> region out (length xs)" if "i + k \<le> length xs" for i k
      by (rule region_sub) (rule that)
    have dis: "inp + of_nat ip + 1 \<notin> region out (length xs)"
      "region (inp + of_nat (ip + 2)) (length ?code) \<inter> region out (length xs) = {}"
      using 1(8) unfolding code by (auto simp: region_Suc add_ac)
    define m1 where "m1 = m(out + of_nat pos := ?v)"
    have o: "out + of_nat pos \<in> region out (length xs)" using True by blast
    have c1: "m1 (inp + of_nat (ip + 1)) = of_nat ?n" using c dis(1) o by (auto simp: m1_def add_ac)
    have un: "unat (of_nat ?n :: byte) = ?n" by (simp add: unat_of_nat)
    have "bytes_at m1 out pos = bytes_at m out pos"
    proof (rule bytes_at_eqI)
      fix i assume "i < pos"
      then have "out + of_nat i \<noteq> out + of_nat pos" using True 1(5) by (subst of_nat_word_inj) simp_all
      then show "m1 (out + of_nat i) = m (out + of_nat i)" by (simp add: m1_def)
    qed
    then have m1: "bytes_at m1 out ?p = take ?p xs"
      using 1(6) True bytes_at_append [of m1 out pos 1] by (simp add: m1_def bytes_at_Suc take_Suc_conv_app_nth)
    define m2 where "m2 = copy_up ?n m1 (out + of_nat ?p) (out + of_nat ?b)"
    have "bytes_at m2 out (?p + ?n) = lz_copy ?n ?b (take ?p xs)"
      using copy_up_lz [of m1 out "take ?p xs" ?b ?n] m1 b n True 1(5) by (simp add: m2_def)
    also have "\<dots> = take (?p + ?n) xs"
    proof (rule lz_copy_match [OF b n])
      fix k assume "k < ?n"
      then have "k < match_len xs ?b ?p" by simp
      then show "xs ! (?b + k) = xs ! (?p + k)" using b by (rule match_len_nth)
    qed
    finally have m2: "bytes_at m2 out (?p + ?n) = take (?p + ?n) xs" .
    have f: "m2 x = m x" if "x \<notin> region out (length xs)" for x
      using that sub [of ?p ?n] n o by (auto simp: m2_def m1_def copy_up_frame subset_eq)
    have "bytes_at m2 (inp + of_nat (ip + 2)) (length ?code) = bytes_at m (inp + of_nat (ip + 2)) (length ?code)"
      using dis(2) by (intro bytes_at_eqI f) blast
    then have r2: "bytes_at m2 (inp + of_nat (ip + 2)) (length ?code) = ?code" using r by simp
    have le: "\<forall>i<256. ?pos ! i \<le> ?p + ?n"
    proof (intro allI impI)
      fix i :: nat assume "i < 256"
      then show "?pos ! i \<le> ?p + ?n" using 1(2,3) by (cases "i = unat ?v") (auto simp: le_SucI trans_le_add1)
    qed
    have "rtime_loop inp out (length xs) positions pos ip m = rtime_loop inp out (length xs) ?pos
        (?p + unat (m1 (inp + of_nat (ip + 1)))) (ip + 2)
        (if unat (m1 (inp + of_nat (ip + 1))) \<noteq> 0
         then rtime_run out ?p ?b (unat (m1 (inp + of_nat (ip + 1)))) m1 else m1)"
      by (subst rtime_loop.simps) (simp only: True if_True v m1_def Let_def)
    then have step: "rtime_loop inp out (length xs) positions pos ip m
        = rtime_loop inp out (length xs) ?pos (?p + ?n) (ip + 2) m2"
      unfolding c1 un rtime_run_copy m2_def by (cases "?n = 0") (simp_all only: if_True if_False if_cancel copy_up.simps not_False_eq_True)
    show ?thesis
      using 1(1) [OF True refl refl le _ n 1(5) m2 r2 dis(2)] 1(3) f by (auto simp: step)
  qed
qed

text \<open>
  C10: what the format's compressor makes of a page, \<open>rtime_decompress\<close> turns back into the page, and
  it writes nothing else.
\<close>

theorem rtime_roundtrip:
  assumes "bytes_at m inp (length (rtime_compress xs)) = rtime_compress xs" "length xs < 2 ^ 32"
    and "region inp (length (rtime_compress xs)) \<inter> region out (length xs) = {}"
  shows "bytes_at (rtime_decompress inp out n (of_nat (length xs)) m) out (length xs) = xs
    \<and> (\<forall>x. x \<notin> region out (length xs) \<longrightarrow> rtime_decompress inp out n (of_nat (length xs)) m x = m x)"
  using rtime_loop_code [of "replicate 256 0" 0 xs m out inp 0] assms
  by (simp_all add: rtime_decompress_def rtime_compress_def unat_of_nat)

text \<open>Five times the same byte: one literal and a run.\<close>

theorem rtime_roundtrip_witness:
  "bytes_at (rtime_decompress 0 0x100 2 5 (\<lambda>x. if x = 1 then 4 else 0x61)) 0x100 5 = [0x61, 0x61, 0x61, 0x61, 0x61]"
proof -
  let ?xs = "[0x61, 0x61, 0x61, 0x61, 0x61] :: byte list" and ?m = "\<lambda>x :: addr. if x = 1 then 4 else 0x61 :: byte"
  have p: "(replicate 256 (0 :: nat)) ! 97 = 0" "(replicate 256 (0 :: nat))[97 := 1] ! 97 = 1" by simp_all
  have c: "rtime_compress ?xs = [0x61, 4]"
    by (simp add: rtime_compress_def rtime_code.simps Let_def match_len_def)
  have "bytes_at ?m 0 2 = [0x61, 4]" by (simp add: bytes_at_Suc eval_nat_numeral)
  moreover have "region (0 :: addr) 2 \<inter> region 0x100 5 = {}" by (simp add: region_numeral region_Suc)
  moreover have "length [0x61 :: byte, 4] = 2" "length ?xs = 5" by simp_all
  ultimately show ?thesis
    using rtime_roundtrip [where m = ?m and inp = 0 and xs = ?xs and out = "0x100" and n = 2]
    unfolding c by (simp only:) simp
qed

section \<open>The arithmetic decoder returns\<close>

text \<open>The interval stays inside the register.\<close>

definition rubin_ok :: "rubin \<Rightarrow> bool" where
  "rubin_ok r = (0 < unat (ru_p r) \<and> unat (ru_p r) + unat (ru_q r) \<le> 0x10000)"

lemma upper_bit:
  fixes q :: u32
  assumes "unat q < 0x10000"
  shows "q AND 0x8000 \<noteq> 0 \<longleftrightarrow> 0x8000 \<le> unat q" and "unat (q AND NOT 0x8000) = unat q mod 0x8000"
proof -
  have q: "q = take_bit 16 q" using assms by (simp add: word_unat_eq_iff unsigned_take_bit_eq take_bit_nat_eq_self)
  have b: "bit (0x8000 :: u32) n \<longleftrightarrow> n = 15" for n
    using bit_push_bit_iff [of 15 "1 :: u32" n] by (auto simp: push_bit_of_1 bit_1_iff possible_bit_word)
  have "q AND 0x8000 \<noteq> 0 \<longleftrightarrow> (\<exists>n. bit q n \<and> bit (0x8000 :: u32) n)"
    by (auto simp: bit_eq_iff [of _ 0] bit_and_iff dest: bit_imp_le_length)
  also have "\<dots> \<longleftrightarrow> bit q 15" unfolding b by simp
  also have "bit q 15 \<longleftrightarrow> odd (unat q div 2 ^ 15)" 
  proof -
    have "bit (unat q) 15 = bit q 15" by (simp add: bit_unsigned_iff)
    then show ?thesis by (simp only: bit_iff_odd)
  qed
  also have "\<dots> \<longleftrightarrow> 0x8000 \<le> unat q"
  proof (cases "0x8000 \<le> unat q")
    case True
    then have "unat q div 2 ^ 15 = 1" using assms by (simp add: div_nat_eqI)
    then show ?thesis using True by simp
  qed simp
  finally show "q AND 0x8000 \<noteq> 0 \<longleftrightarrow> 0x8000 \<le> unat q" .
  have "q AND NOT 0x8000 = take_bit 15 q"
    by (subst q) (rule bit_word_eqI, simp only: bit_and_iff bit_not_iff bit_take_bit_iff b, auto simp: possible_bit_word)
  then show "unat (q AND NOT 0x8000) = unat q mod 0x8000" by (simp add: take_bit_eq_mod unat_mod)
qed

lemma rubin_shift_ok:
  assumes "rubin_ok r" "ru_q r AND UPPER_BIT_RUBIN \<noteq> 0 \<or> ru_p r + ru_q r \<le> UPPER_BIT_RUBIN"
  shows "rubin_ok (rubin_shift m r)" and "unat (ru_p (rubin_shift m r)) = 2 * unat (ru_p r)"
proof -
  let ?p = "unat (ru_p r)" and ?q = "unat (ru_q r)"
  have ok: "0 < ?p" "?p + ?q \<le> 0x10000" using assms(1) by (simp_all add: rubin_ok_def)
  then have q: "?q < 0x10000" by simp
  have "unat (ru_p r + ru_q r) = ?p + ?q" using ok(2) by (simp add: unat_word_ariths)
  then have "?q \<ge> 0x8000 \<or> ?p + ?q \<le> 0x8000"
    using assms(2) upper_bit(1) [OF q] by (simp add: word_le_nat_alt)
  moreover have "?q mod 0x8000 = (if ?q \<ge> 0x8000 then ?q - 0x8000 else ?q)" using q by (simp add: mod_if)
  ultimately have s: "2 * ?p \<le> 0x10000" "2 * ?p + 2 * (?q mod 0x8000) \<le> 0x10000" using ok by (auto split: if_splits)
  have p: "ru_p (rubin_shift m r) = 2 * ru_p r"
    by (simp add: rubin_shift_def Let_def push_bit_eq_mult)
  have "ru_q (rubin_shift m r) = 2 * (ru_q r AND NOT UPPER_BIT_RUBIN)"
    by (simp add: rubin_shift_def Let_def push_bit_eq_mult)
  then have q': "unat (ru_q (rubin_shift m r)) = 2 * (?q mod 0x8000)"
    using upper_bit(2) [OF q] by (simp add: unat_word_ariths)
  show p': "unat (ru_p (rubin_shift m r)) = 2 * ?p" using s(1) by (simp add: p unat_word_ariths)
  show "rubin_ok (rubin_shift m r)" using s(2) ok(1) by (simp add: rubin_ok_def p' q')
qed

lemma rubin_scale_ok:
  assumes "rubin_ok r"
  shows "\<exists>r'. rubin_scale m r = Inr r' \<and> rubin_ok r' \<and> 2 \<le> unat (ru_p r')"
  unfolding rubin_scale_def
proof (rule loop_total [where P = rubin_ok and m = "\<lambda>r. 0x10000 - unat (ru_p r)"])
  fix r assume ok: "rubin_ok r"
  show "(\<exists>r'. (if ru_q r AND UPPER_BIT_RUBIN \<noteq> 0 \<or> ru_p r + ru_q r \<le> UPPER_BIT_RUBIN
        then Inr (Inl (rubin_shift m r)) else Inr (Inr r)) = Inr (Inl r') \<and> rubin_ok r'
      \<and> 0x10000 - unat (ru_p r') < 0x10000 - unat (ru_p r))
    \<or> (\<exists>r'. (if ru_q r AND UPPER_BIT_RUBIN \<noteq> 0 \<or> ru_p r + ru_q r \<le> UPPER_BIT_RUBIN
        then Inr (Inl (rubin_shift m r)) else Inr (Inr r)) = Inr (Inr r') \<and> rubin_ok r' \<and> 2 \<le> unat (ru_p r'))"
  proof (cases "ru_q r AND UPPER_BIT_RUBIN \<noteq> 0 \<or> ru_p r + ru_q r \<le> UPPER_BIT_RUBIN")
    case True
    note s = rubin_shift_ok [OF ok True, of m]
    then have "0 < unat (ru_p r)" "2 * unat (ru_p r) \<le> 0x10000" using ok by (simp_all add: rubin_ok_def)
    then have "0x10000 - unat (ru_p (rubin_shift m r)) < 0x10000 - unat (ru_p r)" using s(2) by linarith
    then show ?thesis using True s(1) by simp
  next
    case False
    have p: "0 < unat (ru_p r)" "unat (ru_p r) + unat (ru_q r) \<le> 0x10000" using ok by (simp_all add: rubin_ok_def)
    then have "unat (ru_q r) < 0x8000" using upper_bit(1) [of "ru_q r"] False by auto
    moreover have "unat (ru_p r + ru_q r) = unat (ru_p r) + unat (ru_q r)" using p by (simp add: unat_word_ariths)
    then have "0x8000 < unat (ru_p r) + unat (ru_q r)" using False by (simp add: word_le_nat_alt not_le)
    ultimately have "2 \<le> unat (ru_p r)" by linarith
    then show ?thesis using False ok by simp
  qed
qed (rule assms)

lemma rubin_bit_ok:
  assumes "rubin_ok r" "2 \<le> unat (ru_p r)"
  shows "rubin_ok (snd (rubin_bit prob r))"
proof -
  let ?p = "unat (ru_p r)" and ?i = "drop_bit 8 (ucast prob * ru_p r) :: u32"
  have p: "?p + unat (ru_q r) \<le> 0x10000" using assms(1) by (simp add: rubin_ok_def)
  have "unat (ucast prob :: u32) = unat prob"
    using unat_byte_less [of prob] by (simp add: unsigned_ucast_eq take_bit_nat_eq_self)
  moreover have "unat prob * ?p \<le> 255 * 0x10000" using p unat_byte_less [of prob] by (intro mult_mono) simp_all
  ultimately have "unat (ucast prob * ru_p r :: u32) = unat prob * ?p" by (simp add: unat_word_ariths)
  moreover have "unat prob * ?p \<le> 255 * ?p" using unat_byte_less [of prob] by (intro mult_right_mono) simp_all
  moreover have "unat ?i = unat (ucast prob * ru_p r :: u32) div 256" by (simp add: drop_bit_eq_div unat_div)
  ultimately have i: "unat ?i \<le> (255 * ?p) div 256" by (simp add: div_le_mono)
  then have i': "unat ?i < ?p" using assms(2) by linarith
  have "unat ?i < 2 ^ 31" using i' p by simp
  then have "sint ?i = int (unat ?i)" by (rule sint_unat_small)
  then have "\<exists>i0. 0 < unat i0 \<and> unat i0 < ?p \<and> (if sint ?i \<le> 0 then 1 else ?i) = i0"
    using i' assms(2) by (cases "?i = 0") (auto simp: unat_gt_0)
  then obtain i0 where i0: "0 < unat i0" "unat i0 < ?p" "(if sint ?i \<le> 0 then 1 else ?i) = i0" by blast
  have "unat (ru_p r - i0) = ?p - unat i0" using i0(2) by (simp add: unat_sub word_le_nat_alt)
  moreover have "unat (ru_q r + i0) = unat (ru_q r) + unat i0" using p i0(2) by (simp add: unat_word_ariths)
  ultimately show ?thesis using i0(1,2) p by (auto simp: rubin_bit_def Let_def i0(3) rubin_ok_def)
qed

lemma rubin_bits_ok:
  "rubin_ok r \<Longrightarrow> \<exists>b r'. rubin_bits probs result m r = Inr (b, r') \<and> rubin_ok r'"
proof (induction probs arbitrary: result r)
  case (Cons prob probs)
  obtain r' where "rubin_scale m r = Inr r'" "rubin_ok (snd (rubin_bit prob r'))"
    using rubin_scale_ok [OF Cons.prems] rubin_bit_ok by blast
  then show ?case using Cons.IH by (cases "rubin_bit prob r'") (simp add: Let_def)
qed simp

lemma rubin_bytes_ok: "rubin_ok r \<Longrightarrow> \<exists>m'. rubin_bytes n bits cur r m = Inr m' \<and> (\<forall>x. x \<notin> region cur n \<longrightarrow> m' x = m x)"
proof (induction n arbitrary: cur r m)
  case (Suc n)
  obtain b r' where b: "rubin_bits bits 0 m r = Inr (b, r')" "rubin_ok r'" using rubin_bits_ok [OF Suc.prems] by blast
  from Suc.IH [OF b(2), of "cur + 1" "m(cur := b)"] obtain m' where
    "rubin_bytes n bits (cur + 1) r' (m(cur := b)) = Inr m'"
    "\<forall>x. x \<notin> region (cur + 1) n \<longrightarrow> m' x = (m(cur := b)) x" by blast
  then show ?case by (simp add: b(1) region_Suc)
qed simp

text \<open>
  C11: the arithmetic decoder always returns, whatever the input, and writes only the output.  The loop
  that scales the interval would not end at an empty one, but the interval never gets empty.
\<close>

theorem dynrubin_returns:
  "\<exists>m'. dynrubin_decompress inp out srclen dstlen m = Inr m'
    \<and> (\<forall>x. x \<notin> region out (unat dstlen) \<longrightarrow> m' x = m x)"
proof -
  let ?n = "if out < out + dstlen then unat (out + dstlen - out) else 0"
  have "region out ?n \<subseteq> region out (unat dstlen)" by (auto intro: region_mono [THEN subsetD])
  then show ?thesis
    using rubin_bytes_ok [of "\<lparr>temp = word_at m (inp + 8), ru_bit = 16, ru_q = 0, ru_p = 2 * UPPER_BIT_RUBIN,
        rec_q = push_bit 8 (ucast (m (inp + 8))) OR ucast (m (inp + 8 + 1)), ru_in = inp + 8\<rparr>"
        ?n "map (\<lambda>c. 256 - m (inp + of_nat c)) [0..<8]" out m]
    by (auto simp: dynrubin_decompress_def rubin_do_decompress_def Let_def rubin_ok_def subset_iff)
qed

theorem dynrubin_returns_witness:
  "\<exists>m'. dynrubin_decompress 0 0x100 16 4 (\<lambda>_. 7) = Inr m' \<and> m' 0 = 7 \<and> m' 0x104 = 7"
proof -
  have "(0 :: addr) \<notin> region 0x100 (unat (4 :: u32))" "(0x104 :: addr) \<notin> region 0x100 (unat (4 :: u32))"
    by (simp_all add: region_numeral region_Suc)
  then show ?thesis using dynrubin_returns [where inp = 0 and out = "0x100" and srclen = 16 and dstlen = 4 and m = "\<lambda>_. 7"]
    by blast
qed

end
