(* ===== verification/MemCmd.thy ===== *)
theory MemCmd
  imports FlashCmd Loop Printing
begin

text \<open>
  The memory commands of \<^verbatim>\<open>common/cmd_mem.c\<close>: display, modify, write, compare, copy, base address,
  loop, test and checksum.  They act on \<open>memory\<close>; an access to device registers or to a chip in a command mode
  has no model, and an object at an address that is no multiple of its width is an access C leaves undefined.
\<close>

section \<open>Objects in memory\<close>

text \<open>The width of an access: the commands test for 4 and 2 and take anything else for bytes.\<close>

definition width :: "u32 \<Rightarrow> nat" where
  "width sz = (if sz = 4 then 4 else if sz = 2 then 2 else 1)"

primrec obj_val :: "byte list \<Rightarrow> u32" where
  "obj_val [] = 0"
| "obj_val (b # bs) = ucast b OR push_bit 8 (obj_val bs)"

primrec obj_bytes :: "nat \<Rightarrow> u32 \<Rightarrow> byte list" where
  "obj_bytes 0 v = []"
| "obj_bytes (Suc n) v = ucast v # obj_bytes n (drop_bit 8 v)"

definition rd_obj :: "u32 \<Rightarrow> addr \<Rightarrow> mem \<Rightarrow> stop + u32" where
  "rd_obj sz a m =
     (if unat a mod width sz \<noteq> 0 then Inl BadAccess else Inr (obj_val (bytes_at m a (width sz))))"

definition wr_obj :: "u32 \<Rightarrow> addr \<Rightarrow> u32 \<Rightarrow> mem \<Rightarrow> stop + mem" where
  "wr_obj sz a v m =
     (if unat a mod width sz \<noteq> 0 then Inl BadAccess else Inr (store_bytes m a (obj_bytes (width sz) v)))"

section \<open>Arguments\<close>

text \<open>A character of a word; behind its NUL the word has none.\<close>

definition char_at :: "byte list \<Rightarrow> nat \<Rightarrow> stop + byte" where
  "char_at a i = (if i \<le> length a then Inr ((a @ [0]) ! i) else Inl BadAccess)"

text \<open>\<^verbatim>\<open>.b\<close> or \<^verbatim>\<open>.w\<close> behind the \<open>i\<close> characters of the command's name.\<close>

definition size_spec :: "byte list option list \<Rightarrow> nat \<Rightarrow> stop + u32" where
  "size_spec argv i =
     sbind (argv_str argv 0) (\<lambda>a.
     sbind (char_at a i) (\<lambda>c.
       if c = ch CHR ''.'' then
         sbind (char_at a (i + 1)) (\<lambda>d.
           Inr (if d = ch CHR ''b'' then 1 else if d = ch CHR ''w'' then 2 else 4))
       else Inr 4))"

text \<open>\<^verbatim>\<open>simple_strtoul(argv[i], NULL, 16)\<close>.\<close>

definition argv_num :: "byte list option list \<Rightarrow> nat \<Rightarrow> stop + u32" where
  "argv_num argv i = sbind (argv_str argv i) (\<lambda>a. Inr (fst (simple_strtoul a 16)))"

section \<open>Display\<close>

abbreviation (input) DISP_LINE_LEN :: u32 where "DISP_LINE_LEN \<equiv> 16"

text \<open>The objects of a line: printed as numbers, and kept in \<open>linebuf\<close>.\<close>

primrec md_objs ::
  "nat \<Rightarrow> config \<Rightarrow> u32 \<Rightarrow> u32 \<Rightarrow> byte list \<Rightarrow> sys \<Rightarrow> (u32 \<times> byte list) result" where
  "md_objs 0 cfg sz addr linebuf s = Inr ((addr, linebuf), s)"
| "md_objs (Suc n) cfg sz addr linebuf s =
     sbind (rd_obj sz addr (memory s)) (\<lambda>v.
     sbind (printf cfg (lit (if sz = 4 then '' %08x'' else if sz = 2 then '' %04x'' else '' %02x'')) [AInt v] s) (\<lambda>(_, s).
       md_objs n cfg sz (addr + sz) (linebuf @ obj_bytes (width sz) v) s))"

primrec md_text :: "config \<Rightarrow> byte list \<Rightarrow> sys \<Rightarrow> unit result" where
  "md_text cfg [] s = Inr ((), s)"
| "md_text cfg (c # cs) s =
     sbind (if c < 0x20 \<or> c > 0x7e then printf cfg (lit ''.'') [] s else printf cfg (lit ''%c'') [AInt (ucast c)] s)
       (\<lambda>(_, s). md_text cfg cs s)"

definition md_line :: "config \<Rightarrow> u32 \<Rightarrow> u32 \<Rightarrow> u32 \<Rightarrow> sys \<Rightarrow> u32 result" where
  "md_line cfg sz linebytes addr s =
     sbind (printf cfg (lit ''%08lx:'') [AInt addr] s) (\<lambda>(_, s).
     let n = (if sz = 0 then 0 else (unat linebytes + unat sz - 1) div unat sz) in
     sbind (md_objs n cfg sz addr [] s) (\<lambda>((addr, linebuf), s).
     sbind (printf cfg (lit ''    '') [] s) (\<lambda>(_, s).
     sbind (md_text cfg (take (unat linebytes) linebuf) s) (\<lambda>(_, s).
     sbind (printf cfg (lit ''\<newline>'') [] s) (\<lambda>(_, s).
       Inr (addr, s))))))"

function md_lines :: "config \<Rightarrow> u32 \<Rightarrow> u32 \<Rightarrow> u32 \<Rightarrow> sys \<Rightarrow> u32 result" where
  "md_lines cfg sz nbytes addr s =
     (let linebytes = (if nbytes > DISP_LINE_LEN then DISP_LINE_LEN else nbytes) in
      sbind (md_line cfg sz linebytes addr s) (\<lambda>(addr, s).
        let nbytes = nbytes - linebytes in
        if nbytes > 0 then md_lines cfg sz nbytes addr s else Inr (addr, s)))"
  by pat_completeness auto
termination
proof (relation "measure (\<lambda>(_, _, nbytes, _, _). unat nbytes)")
  fix cfg sz nbytes addr s linebytes x and addr' :: u32 and s' and nb :: u32
  assume l: "linebytes = (if nbytes > DISP_LINE_LEN then DISP_LINE_LEN else nbytes)" "nb = nbytes - linebytes" "nb > 0"
  then have "nbytes > DISP_LINE_LEN" by (auto split: if_splits)
  then have "unat nb = unat nbytes - 16" "16 < unat nbytes"
    using l by (simp_all add: unat_sub word_le_nat_alt word_less_nat_alt)
  then show "((cfg, sz, nb, addr', s'), cfg, sz, nbytes, addr, s) \<in> measure (\<lambda>(_, _, nbytes, _, _). unat nbytes)"
    by simp
qed simp

declare md_lines.simps [simp del]

definition do_mem_md :: "config \<Rightarrow> cmd_tbl_t \<Rightarrow> nat \<Rightarrow> nat \<Rightarrow> byte list option list \<Rightarrow> sys \<Rightarrow> int result" where
  "do_mem_md cfg cmdtp flag argc argv s =
     (let g = mem_cmds s in
      if argc < 2 then print_usage cfg cmdtp s
      else
        sbind (if flag AND CMD_FLAG_REPEAT = 0 then
                 sbind (size_spec argv 2) (\<lambda>sz.
                 sbind (argv_num argv 1) (\<lambda>addr.
                 sbind (if 2 < argc then argv_num argv 2 else Inr (dp_last_length g)) (\<lambda>len.
                   Inr (addr + base_address g, sz, len))))
               else Inr (dp_last_addr g, dp_last_size g, dp_last_length g)) (\<lambda>(addr, sz, len).
        sbind (md_lines cfg sz (len * sz) addr s) (\<lambda>(addr, s).
          Inr (0, s\<lparr>mem_cmds := (mem_cmds s)
            \<lparr>dp_last_addr := addr, dp_last_size := sz, dp_last_length := len\<rparr>\<rparr>))))"

section \<open>Modify\<close>

text \<open>One turn of the loop of \<open>mod_mem\<close>: the next address, or the one it ends with.\<close>

definition mod_step :: "config \<Rightarrow> bool \<Rightarrow> u32 \<Rightarrow> u32 \<times> sys \<Rightarrow> stop + (u32 \<times> sys) + (u32 \<times> sys)" where
  "mod_step cfg incrflag sz as =
     (case as of (addr, s) \<Rightarrow>
        sbind (printf cfg (lit ''%08lx:'') [AInt addr] s) (\<lambda>(_, s).
        sbind (rd_obj sz addr (memory s)) (\<lambda>v.
        sbind (printf cfg (lit (if sz = 4 then '' %08x'' else if sz = 2 then '' %04x'' else '' %02x'')) [AInt v] s) (\<lambda>(_, s).
        sbind (readline cfg (lit '' ? '') s) (\<lambda>(nbytes, s).
          let next_addr = (if incrflag then addr + sz else addr) in
          if nbytes = 0 then Inr (Inl (next_addr, s))
          else
            let line = cstr_of (console_buffer s); (i, endp) = simple_strtoul line 16 in
            if length line - length endp \<noteq> 0 then
              sbind (wr_obj sz addr i (memory s)) (\<lambda>m. Inr (Inl (next_addr, s\<lparr>memory := m\<rparr>)))
            else Inr (Inr (addr, s)))))))"

definition mod_mem :: "config \<Rightarrow> cmd_tbl_t \<Rightarrow> bool \<Rightarrow> nat \<Rightarrow> nat \<Rightarrow> byte list option list \<Rightarrow> sys \<Rightarrow> int result" where
  "mod_mem cfg cmdtp incrflag flag argc argv s =
     (let g = mem_cmds s in
      if argc \<noteq> 2 then print_usage cfg cmdtp s
      else
        sbind (if flag AND CMD_FLAG_REPEAT = 0 then
                 sbind (size_spec argv 2) (\<lambda>sz.
                 sbind (argv_num argv 1) (\<lambda>addr. Inr (addr + base_address g, sz)))
               else Inr (mm_last_addr g, mm_last_size g)) (\<lambda>(addr, sz).
        sbind (loop (mod_step cfg incrflag sz) (addr, s)) (\<lambda>(addr, s).
          Inr (0, s\<lparr>mem_cmds := (mem_cmds s)\<lparr>mm_last_addr := addr, mm_last_size := sz\<rparr>\<rparr>))))"

definition do_mem_mm :: "config \<Rightarrow> cmd_tbl_t \<Rightarrow> nat \<Rightarrow> nat \<Rightarrow> byte list option list \<Rightarrow> sys \<Rightarrow> int result" where
  "do_mem_mm cfg cmdtp flag argc argv s = mod_mem cfg cmdtp True flag argc argv s"

definition do_mem_nm :: "config \<Rightarrow> cmd_tbl_t \<Rightarrow> nat \<Rightarrow> nat \<Rightarrow> byte list option list \<Rightarrow> sys \<Rightarrow> int result" where
  "do_mem_nm cfg cmdtp flag argc argv s = mod_mem cfg cmdtp False flag argc argv s"

section \<open>Write\<close>

primrec mw_loop :: "nat \<Rightarrow> u32 \<Rightarrow> u32 \<Rightarrow> u32 \<Rightarrow> mem \<Rightarrow> stop + mem" where
  "mw_loop 0 sz addr writeval m = Inr m"
| "mw_loop (Suc count) sz addr writeval m =
     sbind (wr_obj sz addr writeval m) (\<lambda>m. mw_loop count sz (addr + sz) writeval m)"

definition do_mem_mw :: "config \<Rightarrow> cmd_tbl_t \<Rightarrow> nat \<Rightarrow> byte list option list \<Rightarrow> sys \<Rightarrow> int result" where
  "do_mem_mw cfg cmdtp argc argv s =
     (if argc < 3 \<or> 4 < argc then print_usage cfg cmdtp s
      else
        sbind (size_spec argv 2) (\<lambda>sz.
        sbind (argv_num argv 1) (\<lambda>addr.
        sbind (argv_num argv 2) (\<lambda>writeval.
        sbind (if argc = 4 then argv_num argv 3 else Inr 1) (\<lambda>count.
        sbind (mw_loop (unat count) sz (addr + base_address (mem_cmds s)) writeval (memory s)) (\<lambda>m.
          Inr (0, s\<lparr>memory := m\<rparr>)))))))"

section \<open>Compare\<close>

definition cmp_message :: "u32 \<Rightarrow> string" where
  "cmp_message sz =
     (if sz = 4 then ''word at 0x%08lx (0x%08lx) != word at 0x%08lx (0x%08lx)\<newline>''
      else if sz = 2 then ''halfword at 0x%08lx (0x%04x) != halfword at 0x%08lx (0x%04x)\<newline>''
      else ''byte at 0x%08lx (0x%02x) != byte at 0x%08lx (0x%02x)\<newline>'')"

text \<open>How many objects are the same before the first that differ, which are reported.\<close>

primrec cmp_loop :: "nat \<Rightarrow> config \<Rightarrow> u32 \<Rightarrow> u32 \<Rightarrow> u32 \<Rightarrow> u32 \<Rightarrow> sys \<Rightarrow> u32 result" where
  "cmp_loop 0 cfg sz addr1 addr2 ngood s = Inr (ngood, s)"
| "cmp_loop (Suc count) cfg sz addr1 addr2 ngood s =
     sbind (rd_obj sz addr1 (memory s)) (\<lambda>v1.
     sbind (rd_obj sz addr2 (memory s)) (\<lambda>v2.
       if v1 \<noteq> v2 then
         sbind (printf cfg (lit (cmp_message sz)) [AInt addr1, AInt v1, AInt addr2, AInt v2] s)
           (\<lambda>(_, s). Inr (ngood, s))
       else cmp_loop count cfg sz (addr1 + sz) (addr2 + sz) (ngood + 1) s))"

definition do_mem_cmp :: "config \<Rightarrow> cmd_tbl_t \<Rightarrow> nat \<Rightarrow> byte list option list \<Rightarrow> sys \<Rightarrow> int result" where
  "do_mem_cmp cfg cmdtp argc argv s =
     (if argc \<noteq> 4 then print_usage cfg cmdtp s
      else
        sbind (size_spec argv 3) (\<lambda>sz.
        sbind (argv_num argv 1) (\<lambda>addr1.
        sbind (argv_num argv 2) (\<lambda>addr2.
        sbind (argv_num argv 3) (\<lambda>count.
        let base = base_address (mem_cmds s) in
        sbind (cmp_loop (unat count) cfg sz (addr1 + base) (addr2 + base) 0 s) (\<lambda>(ngood, s).
        sbind (printf cfg (lit ''Total of %ld %s%s were the same\<newline>'')
                 [AInt ngood, AStr (Some (lit (if sz = 4 then ''word'' else if sz = 2 then ''halfword'' else ''byte''))),
                  AStr (Some (lit (if ngood = 1 then '''' else ''s'')))] s) (\<lambda>(_, s).
          Inr (0, s))))))))"

section \<open>Copy\<close>

primrec cp_loop :: "nat \<Rightarrow> u32 \<Rightarrow> u32 \<Rightarrow> u32 \<Rightarrow> mem \<Rightarrow> stop + mem" where
  "cp_loop 0 sz addr dest m = Inr m"
| "cp_loop (Suc count) sz addr dest m =
     sbind (rd_obj sz addr m) (\<lambda>v.
     sbind (wr_obj sz dest v m) (\<lambda>m. cp_loop count sz (addr + sz) (dest + sz) m))"

text \<open>A destination in flash is written through \<open>flash_write\<close>, which reads the source as it was before.\<close>

definition do_mem_cp :: "config \<Rightarrow> chip \<Rightarrow> cmd_tbl_t \<Rightarrow> nat \<Rightarrow> byte list option list \<Rightarrow> sys \<Rightarrow> int result" where
  "do_mem_cp cfg chip cmdtp argc argv s =
     (if argc \<noteq> 4 then print_usage cfg cmdtp s
      else
        sbind (size_spec argv 2) (\<lambda>sz.
        sbind (argv_num argv 1) (\<lambda>addr.
        sbind (argv_num argv 2) (\<lambda>dest.
        sbind (argv_num argv 3) (\<lambda>count.
        let addr = addr + base_address (mem_cmds s); dest = dest + base_address (mem_cmds s) in
        if addr2info dest s \<noteq> None then
          sbind (printf cfg (lit ''Copy to Flash... '') [] s) (\<lambda>(_, s).
          sbind (flash_write cfg chip (bytes_at (memory s) addr (unat (count * sz))) (unat addr mod 4) dest (count * sz) s)
            (\<lambda>(rc, s).
              if rc < 0 then sbind (flash_perror cfg rc s) (\<lambda>(_, s). Inr (1, s))
              else sbind (printf cfg (lit ''done.\<newline>'') [] s) (\<lambda>(_, s). Inr (0, s))))
        else
          sbind (cp_loop (unat count) sz addr dest (memory s)) (\<lambda>m. Inr (0, s\<lparr>memory := m\<rparr>)))))))"

section \<open>Base address, loop, checksum\<close>

definition do_mem_base :: "config \<Rightarrow> nat \<Rightarrow> byte list option list \<Rightarrow> sys \<Rightarrow> int result" where
  "do_mem_base cfg argc argv s =
     sbind (if 1 < argc then
              sbind (argv_num argv 1) (\<lambda>b. Inr (s\<lparr>mem_cmds := (mem_cmds s)\<lparr>base_address := b\<rparr>\<rparr>))
            else Inr s) (\<lambda>s.
     sbind (printf cfg (lit ''Base Address: 0x%08lx\<newline>'') [AInt (base_address (mem_cmds s))] s) (\<lambda>(_, s).
       Inr (0, s)))"

text \<open>Reads the range again and again; no character ends it.\<close>

definition do_mem_loop :: "config \<Rightarrow> cmd_tbl_t \<Rightarrow> nat \<Rightarrow> byte list option list \<Rightarrow> sys \<Rightarrow> int result" where
  "do_mem_loop cfg cmdtp argc argv s =
     (if argc < 3 then print_usage cfg cmdtp s
      else
        sbind (size_spec argv 4) (\<lambda>sz.
        sbind (argv_num argv 1) (\<lambda>addr.
        sbind (argv_num argv 2) (\<lambda>len.
        sbind (if len = 0 then Inr 0 else rd_obj sz addr (memory s)) (\<lambda>_. Inl Hang)))))"

text \<open>\<open>crc32\<close> takes the address 0 for a NULL pointer.\<close>

definition do_mem_crc :: "config \<Rightarrow> cmd_tbl_t \<Rightarrow> nat \<Rightarrow> byte list option list \<Rightarrow> sys \<Rightarrow> int result" where
  "do_mem_crc cfg cmdtp argc argv s =
     (if argc < 3 then print_usage cfg cmdtp s
      else
        sbind (argv_num argv 1) (\<lambda>addr.
        sbind (argv_num argv 2) (\<lambda>len.
        let addr = addr + base_address (mem_cmds s);
            crc = crc32 0 (if addr = 0 then None else Some (bytes_at (memory s) addr (unat len))) in
        sbind (printf cfg (lit ''CRC32 for %08lx ... %08lx ==> %08lx\<newline>'')
                 [AInt addr, AInt (addr + len - 1), AInt crc] s) (\<lambda>(_, s). Inr (0, s)))))"

section \<open>Test\<close>

text \<open>\<^verbatim>\<open>include/configs/config_dnp1110.h\<close>: the words from 4 to 8 MB of the DRAM.\<close>

abbreviation (input) CFG_MEMTEST_START :: u32 where "CFG_MEMTEST_START \<equiv> 0xc0400000"
abbreviation (input) CFG_MEMTEST_END :: u32 where "CFG_MEMTEST_END \<equiv> 0xc0800000"

definition mtest_words :: nat where
  "mtest_words = unat (CFG_MEMTEST_END - CFG_MEMTEST_START) div 4"

primrec mtest_write :: "nat \<Rightarrow> u32 \<Rightarrow> u32 \<Rightarrow> mem \<Rightarrow> stop + mem" where
  "mtest_write 0 memaddr memval m = Inr m"
| "mtest_write (Suc n) memaddr memval m =
     sbind (wr_obj 4 memaddr memval m) (\<lambda>m. mtest_write n (memaddr + 4) (memval + 1) m)"

primrec mtest_read :: "nat \<Rightarrow> config \<Rightarrow> u32 \<Rightarrow> u32 \<Rightarrow> sys \<Rightarrow> unit result" where
  "mtest_read 0 cfg memaddr memval s = Inr ((), s)"
| "mtest_read (Suc n) cfg memaddr memval s =
     sbind (rd_obj 4 memaddr (memory s)) (\<lambda>v.
     sbind (if v \<noteq> memval then
              printf cfg (lit ''Mem error @ 0x%08x: found %08x, expected 0x%08x\<newline>'')
                [AInt memaddr, AInt v, AInt memval] s
            else Inr ((), s)) (\<lambda>(_, s).
       mtest_read n cfg (memaddr + 4) (memval + 1) s))"

definition mtest_pass :: "config \<Rightarrow> sys \<Rightarrow> unit result" where
  "mtest_pass cfg s =
     sbind (printf cfg (lit ''\<newline>Writing: %08x, '') [AInt (baseval (mem_cmds s))] s) (\<lambda>(_, s).
     sbind (mtest_write mtest_words CFG_MEMTEST_START (baseval (mem_cmds s)) (memory s)) (\<lambda>m.
     let s = s\<lparr>memory := m\<rparr> in
     sbind (printf cfg (lit ''Reading: %08x'') [AInt (baseval (mem_cmds s))] s) (\<lambda>(_, s).
     sbind (mtest_read mtest_words cfg CFG_MEMTEST_START (baseval (mem_cmds s)) s) (\<lambda>(_, s).
       Inr ((), s\<lparr>mem_cmds := (mem_cmds s)\<lparr>baseval := baseval (mem_cmds s) + 1\<rparr>\<rparr>)))))"

definition mtest_step :: "config \<Rightarrow> sys \<Rightarrow> stop + sys + (int \<times> sys)" where
  "mtest_step cfg s =
     sbind (ctrlc s) (\<lambda>(c, s).
       if c then Inr (Inr (1, s)) else sbind (mtest_pass cfg s) (\<lambda>(_, s). Inr (Inl s)))"

definition do_mem_mtest :: "config \<Rightarrow> sys \<Rightarrow> int result" where
  "do_mem_mtest cfg s = loop (mtest_step cfg) s"

end
