(* ===== verification/MemSpec.thy ===== *)
theory MemSpec
  imports MemCmd Interpreter FlashSpec
begin

text \<open>
  What the memory commands do: objects as bytes, copying and comparing, filling, showing, modifying and
  testing memory.
\<close>

section \<open>Objects as bytes\<close>

lemma length_obj_bytes [simp]: "length (obj_bytes n v) = n"
  by (induction n arbitrary: v) simp_all

lemma obj_bytes_nth: "i < n \<Longrightarrow> obj_bytes n v ! i = ucast (drop_bit (8 * i) v)"
  by (induction n arbitrary: v i) (auto simp: nth_Cons drop_bit_drop_bit add.commute split: nat.splits)

lemma bit_obj_val: "bit (obj_val bs) n \<longleftrightarrow> n < 32 \<and> n div 8 < length bs \<and> bit (bs ! (n div 8)) (n mod 8)"
proof (induction bs arbitrary: n)
  case (Cons b bs)
  show ?case
  proof (cases "n < 8")
    case True
    then show ?thesis by (simp add: bit_or_iff bit_push_bit_iff bit_ucast_iff)
  next
    case False
    then obtain k where n: "n = k + 8" by (metis add.commute le_Suc_ex not_less)
    have "\<not> bit b n" using False bit_imp_le_length [of b n] by auto
    moreover have "(k + 8) div 8 = Suc (k div 8)" "(k + 8) mod 8 = k mod 8" by simp_all
    ultimately show ?thesis using Cons.IH [of k] unfolding n
      by (auto simp: bit_or_iff bit_push_bit_iff bit_ucast_iff)
  qed
qed simp

lemma obj_bytes_val: "length bs \<le> 4 \<Longrightarrow> obj_bytes (length bs) (obj_val bs) = bs"
proof (rule nth_equalityI)
  fix i assume "length bs \<le> 4" "i < length (obj_bytes (length bs) (obj_val bs))"
  then have i: "i < length bs" "i < 4" by simp_all
  show "obj_bytes (length bs) (obj_val bs) ! i = bs ! i"
  proof (rule bit_word_eqI)
    fix n :: nat assume "n < LENGTH(8)"
    then have n: "n < 8" by simp
    then have "(8 * i + n) div 8 = i" "(8 * i + n) mod 8 = n" "8 * i + n < 32" using i(2) by simp_all
    then show "bit (obj_bytes (length bs) (obj_val bs) ! i) n = bit (bs ! i) n"
      using i n by (simp add: obj_bytes_nth bit_ucast_iff bit_drop_bit_eq bit_obj_val)
  qed
qed simp

lemma obj_val_bytes: "n \<le> 4 \<Longrightarrow> obj_val (obj_bytes n v) = take_bit (8 * n) v"
proof (rule bit_word_eqI)
  fix k :: nat assume n: "n \<le> 4" and "k < LENGTH(32)"
  then have "k < 32" by simp
  moreover have "k div 8 < n \<longleftrightarrow> k < 8 * n" by (simp add: less_mult_imp_div_less div_less_iff_less_mult mult.commute)
  ultimately show "bit (obj_val (obj_bytes n v)) k = bit (take_bit (8 * n) v) k"
    by (auto simp: bit_obj_val obj_bytes_nth bit_ucast_iff bit_drop_bit_eq bit_take_bit_iff)
qed

text \<open>The sizes the commands use, and what their width is.\<close>

definition obj_size :: "u32 \<Rightarrow> bool" where
  "obj_size sz = (sz = 1 \<or> sz = 2 \<or> sz = 4)"

lemma width_cases [simp]: "width 1 = 1" "width 2 = 2" "width 4 = 4"
  by (simp_all add: width_def)

lemma width_le: "0 < width sz" "width sz \<le> 4"
  by (simp_all add: width_def)

lemma of_nat_width: "obj_size sz \<Longrightarrow> of_nat (width sz) = sz" "obj_size sz \<Longrightarrow> unat sz = width sz"
  by (auto simp: obj_size_def)

lemma size_spec_size: "size_spec argv i = Inr sz \<Longrightarrow> obj_size sz"
  by (auto simp: size_spec_def obj_size_def elim!: sbind_InrE split: if_splits)

text \<open>The widths divide the address space, so objects behind one another stay aligned.\<close>

lemma aligned_step: "unat a mod width sz = 0 \<Longrightarrow> obj_size sz \<Longrightarrow> unat (a + sz) mod width sz = 0"
proof -
  assume a: "unat a mod width sz = 0" and s: "obj_size sz"
  have "(unat a + unat sz) mod width sz = 0" using a s by (simp add: of_nat_width mod_add_left_eq)
  moreover have "width sz dvd 2 ^ 32" using s by (auto simp: obj_size_def)
  ultimately show ?thesis by (simp add: unat_word_ariths mod_mod_cancel)
qed

text \<open>An object copied is its bytes copied.\<close>

lemma copy_up_add: "copy_up (k + n) m d a = copy_up n (copy_up k m d a) (d + of_nat k) (a + of_nat k)"
  by (induction k arbitrary: m d a) (simp_all add: add.assoc)

lemma aligned_apart:
  fixes a d :: addr
  assumes "unat a mod w = 0" "unat d mod w = 0" "a \<noteq> d" "w dvd 2 ^ 32" "0 < w"
  shows "region d w \<inter> region a w = {}"
proof -
  obtain i j k where w: "unat a = w * i" "unat d = w * j" "(2 :: nat) ^ 32 = w * k"
    using assms(1,2,4) unfolding mod_eq_0_iff_dvd dvd_def by blast
  have "i < k" "j < k" using w assms(5) unat_u32_less [of a] unat_u32_less [of d]
    by (simp_all only: mult_less_cancel1)
  then have "w * i + w \<le> 2 ^ 32" "w * j + w \<le> 2 ^ 32"
    unfolding w(3) using mult_le_mono2 [of "Suc i" k w] mult_le_mono2 [of "Suc j" k w] by simp_all
  moreover have "i \<noteq> j" using assms(3) w by (auto simp: word_unat_eq_iff)
  then have "w * j + w \<le> w * i \<or> w * i + w \<le> w * j"
    using mult_le_mono2 [of "Suc i" j w] mult_le_mono2 [of "Suc j" i w] by (cases i j rule: linorder_cases) auto
  ultimately show ?thesis unfolding w(1,2) [symmetric] by (intro region_disjoint) simp_all
qed

lemma copy_up_self: "copy_up n m a a = m"
  by (induction n arbitrary: a) simp_all

lemma store_copy: "region d n \<inter> region a n = {} \<Longrightarrow> store_bytes m d (bytes_at m a n) = copy_up n m d a"
proof (induction n arbitrary: m a d)
  case (Suc n)
  let ?m = "m(d := m a)"
  have "bytes_at ?m (a + 1) n = bytes_at m (a + 1) n"
  proof (rule bytes_at_eqI)
    fix i assume "i < n"
    then have "a + 1 + of_nat i \<in> region a (Suc n)" by (auto simp: region_Suc)
    moreover have "d \<in> region d (Suc n)" by (simp add: region_Suc)
    ultimately have "a + 1 + of_nat i \<noteq> d" using Suc.prems by blast
    then show "?m (a + 1 + of_nat i) = m (a + 1 + of_nat i)" by simp
  qed
  moreover have "store_bytes ?m (d + 1) (bytes_at ?m (a + 1) n) = copy_up n ?m (d + 1) (a + 1)"
    using Suc.prems by (intro Suc.IH) (auto simp: region_Suc)
  ultimately show ?case by (simp add: bytes_at_Suc)
qed simp

lemma rd_aligned: "unat a mod width sz = 0 \<Longrightarrow> rd_obj sz a m = Inr (obj_val (bytes_at m a (width sz)))"
  by (simp add: rd_obj_def)

lemma wr_aligned: "unat a mod width sz = 0 \<Longrightarrow> wr_obj sz a v m = Inr (store_bytes m a (obj_bytes (width sz) v))"
  by (simp add: wr_obj_def)

lemma obj_copied:
  assumes "obj_size sz" "unat a mod width sz = 0" "unat d mod width sz = 0"
  shows "store_bytes m d (obj_bytes (width sz) (obj_val (bytes_at m a (width sz)))) = copy_up (width sz) m d a"
proof -
  have "obj_bytes (width sz) (obj_val (bytes_at m a (width sz))) = bytes_at m a (width sz)"
    using obj_bytes_val [of "bytes_at m a (width sz)"] width_le(2) by simp
  moreover have "store_bytes m d (bytes_at m a (width sz)) = copy_up (width sz) m d a"
  proof (cases "a = d")
    case True
    then show ?thesis using store_bytes_same [of m d "bytes_at m d (width sz)"] by (simp add: copy_up_self)
  next
    case False
    have "width sz dvd 2 ^ 32" using assms(1) by (auto simp: obj_size_def)
    then show ?thesis using aligned_apart [OF assms(2,3) False _ width_le(1)] by (intro store_copy) simp
  qed
  ultimately show ?thesis by simp
qed

text \<open>The loop of \<open>cp\<close> is the byte copy of the string library.\<close>

lemma cp_loop_copies:
  assumes "obj_size sz" "unat a mod width sz = 0" "unat d mod width sz = 0"
  shows "cp_loop n sz a d m = Inr (copy_up (n * width sz) m d a)"
  using assms
proof (induction n arbitrary: a d m)
  case (Suc n)
  then show ?case
    using aligned_step [of a sz] aligned_step [of d sz]
    by (simp add: rd_aligned wr_aligned obj_copied copy_up_add of_nat_width del: add_mult_distrib)
qed simp

text \<open>What \<open>cmp\<close> counts: the objects before the first that differ.\<close>

definition obj_same :: "mem \<Rightarrow> u32 \<Rightarrow> addr \<Rightarrow> addr \<Rightarrow> nat \<Rightarrow> bool" where
  "obj_same m sz a b i =
     (bytes_at m (a + of_nat i * sz) (width sz) = bytes_at m (b + of_nat i * sz) (width sz))"

lemma obj_val_inj: "length xs \<le> 4 \<Longrightarrow> length xs = length ys \<Longrightarrow> obj_val xs = obj_val ys \<longleftrightarrow> xs = ys"
  using obj_bytes_val [of xs] obj_bytes_val [of ys] by metis

lemma obj_same_Suc: "obj_same m sz a b (Suc i) = obj_same m sz (a + sz) (b + sz) i"
  by (simp add: obj_same_def distrib_right add_ac)

lemma obj_same_0: "obj_same m sz a b 0 \<longleftrightarrow> obj_val (bytes_at m a (width sz)) = obj_val (bytes_at m b (width sz))"
  using width_le(2) [of sz] by (simp add: obj_same_def obj_val_inj)

section \<open>Formats\<close>

lemma directive_hex:
  "fmt_directive (ch CHR ''0'' # ch CHR ''2'' # ch CHR ''x'' # fmt) st = map_option (Pair fmt) (fmt_int st 16 ZEROPAD 2 (-1) None)"
  "fmt_directive (ch CHR ''0'' # ch CHR ''4'' # ch CHR ''x'' # fmt) st = map_option (Pair fmt) (fmt_int st 16 ZEROPAD 4 (-1) None)"
  by (simp_all add: fmt_directive_def fmt_width_def fmt_precision_def fmt_qualifier_def fmt_convert_def is_digit_def
    map_option_case split: option.split bind_split)

lemmas room_hex = directive_hex [THEN room_int]

lemma mem_prints:
  assumes "120 < CFG_PBSIZE cfg"
  shows "prints cfg (lit ''%08lx:'') [AInt a]" "prints cfg (lit '' %08x'') [AInt a]" "prints cfg (lit '' %04x'') [AInt a]"
    "prints cfg (lit '' %02x'') [AInt a]" "prints cfg (lit ''%c'') [AInt a]"
    "prints cfg (lit ''word at 0x%08lx (0x%08lx) != word at 0x%08lx (0x%08lx)\<newline>'') [AInt a, AInt b, AInt c, AInt d]"
    "prints cfg (lit ''halfword at 0x%08lx (0x%04x) != halfword at 0x%08lx (0x%04x)\<newline>'') [AInt a, AInt b, AInt c, AInt d]"
    "prints cfg (lit ''byte at 0x%08lx (0x%02x) != byte at 0x%08lx (0x%02x)\<newline>'') [AInt a, AInt b, AInt c, AInt d]"
    "prints cfg (lit ''\<newline>Writing: %08x, '') [AInt a]" "prints cfg (lit ''Reading: %08x'') [AInt a]"
    "prints cfg (lit ''Mem error @ 0x%08x: found %08x, expected 0x%08x\<newline>'') [AInt a, AInt b, AInt c]"
  by (unfold lit_def list.map, (rule prints_room [OF _ assms],
      (rule room_Nil | rule room_ints, simp, simp, simp, simp | rule room_hex, simp, simp, simp, simp
       | rule room_c, simp | rule room_char, simp, simp)+)+)

lemma total_prints:
  assumes "120 < CFG_PBSIZE cfg" "length t \<le> 8" "length u \<le> 1"
  shows "prints cfg (lit ''Total of %ld %s%s were the same\<newline>'') [AInt n, AStr (Some t), AStr (Some u)]"
  by (rule prints_room [OF _ assms(1)], unfold lit_def list.map, (rule room_char, simp, simp)+,
      rule room_ints, simp, simp, simp, simp, (rule room_char, simp, simp)+,
      rule room_s [OF assms(2)], simp, simp, rule room_s [OF assms(3)], simp, simp,
      (rule room_Nil | rule room_char, simp, simp)+)

section \<open>Comparing\<close>

lemma cmp_loop_counts:
  assumes "120 < CFG_PBSIZE cfg" "obj_size sz" "unat a mod width sz = 0" "unat b mod width sz = 0"
  shows "\<exists>k u. k \<le> n \<and> (\<forall>i<k. obj_same (memory s) sz a b i) \<and> (k < n \<longrightarrow> \<not> obj_same (memory s) sz a b k)
    \<and> (k = n \<longrightarrow> u = con_out s)
    \<and> cmp_loop n cfg sz a b g s = Inr (g + of_nat k, s\<lparr>con_out := u\<rparr>)"
  using assms(3,4)
proof (induction n arbitrary: a b g)
  case (Suc n)
  note al = aligned_step [OF Suc.prems(1) assms(2)] aligned_step [OF Suc.prems(2) assms(2)]
  show ?case
  proof (cases "obj_same (memory s) sz a b 0")
    case True
    obtain k u where k: "k \<le> n" "\<forall>i<k. obj_same (memory s) sz (a + sz) (b + sz) i"
      "k < n \<longrightarrow> \<not> obj_same (memory s) sz (a + sz) (b + sz) k" "k = n \<longrightarrow> u = con_out s"
      "cmp_loop n cfg sz (a + sz) (b + sz) (g + 1) s = Inr (g + 1 + of_nat k, s\<lparr>con_out := u\<rparr>)"
      using Suc.IH [OF al, of "g + 1"] by blast
    have "\<forall>i<Suc k. obj_same (memory s) sz a b i"
      using k(2) True by (auto simp: obj_same_Suc less_Suc_eq_0_disj)
    moreover have "cmp_loop (Suc n) cfg sz a b g s = Inr (g + of_nat (Suc k), s\<lparr>con_out := u\<rparr>)"
      using True k(5) Suc.prems by (simp add: obj_same_0 rd_aligned add.assoc)
    ultimately show ?thesis using k(1,3,4) by (intro exI [of _ "Suc k"] exI [of _ u]) (simp add: obj_same_Suc)
  next
    case False
    then have "cmp_loop (Suc n) cfg sz a b g s
        = Inr (g, puts (printed cfg (lit (cmp_message sz)) [AInt a, AInt (obj_val (bytes_at (memory s) a (width sz))),
                          AInt b, AInt (obj_val (bytes_at (memory s) b (width sz)))]) s)"
      using Suc.prems by (simp add: obj_same_0 rd_aligned cmp_message_def printf_prints mem_prints [OF assms(1)])
    then show ?thesis using False by (intro exI [of _ 0]) (simp add: puts_out, rule exI, rule refl)
  qed
qed simp

text \<open>The last line that \<open>cmp\<close> prints.\<close>

definition total_line :: "config \<Rightarrow> u32 \<Rightarrow> u32 \<Rightarrow> byte list" where
  "total_line cfg sz n =
     printed cfg (lit ''Total of %ld %s%s were the same\<newline>'')
       [AInt n, AStr (Some (lit (if sz = 4 then ''word'' else if sz = 2 then ''halfword'' else ''byte''))),
        AStr (Some (lit (if n = 1 then '''' else ''s'')))]"

lemma cmp_total:
  assumes "120 < CFG_PBSIZE cfg"
    "size_spec argv 3 = Inr sz" "argv_num argv 1 = Inr a" "argv_num argv 2 = Inr b" "argv_num argv 3 = Inr n"
    "cmp_loop (unat n) cfg sz (a + base_address (mem_cmds s)) (b + base_address (mem_cmds s)) 0 s = Inr (k, s')"
  shows "do_mem_cmp cfg cmdtp 4 argv s = Inr (0, puts (total_line cfg sz k) s')"
  using assms by (simp add: do_mem_cmp_def printf_prints total_prints total_line_def)

lemma cp_plain:
  assumes "size_spec argv 2 = Inr sz" "argv_num argv 1 = Inr a" "argv_num argv 2 = Inr d" "argv_num argv 3 = Inr n"
    and "src = a + base_address (mem_cmds s)" "dst = d + base_address (mem_cmds s)"
    and "unat src mod width sz = 0" "unat dst mod width sz = 0" "addr2info dst s = None"
  shows "do_mem_cp cfg chip cmdtp 4 argv s
    = Inr (0, s\<lparr>memory := copy_up (unat n * width sz) (memory s) dst src\<rparr>)"
  using assms cp_loop_copies [OF size_spec_size [OF assms(1)], of src dst "unat n" "memory s"]
  by (simp add: do_mem_cp_def)

text \<open>
  C33: \<open>cp\<close> of a range that does not overlap its destination copies it and changes nothing else, and \<open>cmp\<close>
  with the same addresses and count then finds every object the same.
\<close>

theorem cp_then_cmp:
  assumes "120 < CFG_PBSIZE cfg" "size_spec argv 2 = Inr sz" "size_spec argv' 3 = Inr sz"
    and "argv_num argv 1 = Inr a" "argv_num argv 2 = Inr d" "argv_num argv 3 = Inr n"
    and "argv_num argv' 1 = Inr a" "argv_num argv' 2 = Inr d" "argv_num argv' 3 = Inr n"
    and "src = a + base_address (mem_cmds s)" "dst = d + base_address (mem_cmds s)" "k = unat n * width sz"
    and "unat src mod width sz = 0" "unat dst mod width sz = 0" "addr2info dst s = None"
    and "region dst k \<inter> region src k = {}" "k < 2 ^ 32"
  shows "\<exists>s'. do_mem_cp cfg chip cmdtp 4 argv s = Inr (0, s')
    \<and> bytes_at (memory s') dst k = bytes_at (memory s) src k
    \<and> (\<forall>x. x \<notin> region dst k \<longrightarrow> memory s' x = memory s x)
    \<and> do_mem_cmp cfg cmdtp' 4 argv' s' = Inr (0, puts (total_line cfg sz n) s')"
proof -
  have sz: "obj_size sz" using assms(2) by (rule size_spec_size)
  let ?m = "copy_up k (memory s) dst src" and ?w = "width sz"
  let ?s = "s\<lparr>memory := ?m\<rparr>"
  have cp: "do_mem_cp cfg chip cmdtp 4 argv s = Inr (0, ?s)"
    using cp_plain [OF assms(2,4-6,10,11,13-15)] assms(12) by simp
  have up: "up_safe dst src k" using assms(16,17) by (intro up_safe_disjoint) simp_all
  have moved: "bytes_at ?m dst k = bytes_at (memory s) src k"
    by (intro bytes_at_eqI copy_up_moves [OF up])
  have frame: "\<forall>x. x \<notin> region dst k \<longrightarrow> ?m x = memory s x" by (simp add: copy_up_frame)
  have src: "bytes_at ?m src k = bytes_at (memory s) src k"
    using assms(16) by (intro bytes_at_eqI) (auto intro!: copy_up_frame)
  have same: "obj_same ?m sz src dst i" if "i < unat n" for i
  proof -
    have i: "i * ?w + ?w \<le> k" using that mult_le_mono1 [of "Suc i" "unat n" ?w] assms(12) by simp
    have part: "bytes_at ?m (x + of_nat i * sz) ?w = take ?w (drop (i * ?w) (bytes_at ?m x k))" for x
    proof -
      have "k = i * ?w + (?w + (k - (i * ?w + ?w)))" using i by simp
      then have "bytes_at ?m x k = bytes_at ?m x (i * ?w + (?w + (k - (i * ?w + ?w))))" by (rule arg_cong)
      moreover have "of_nat (i * ?w) = of_nat i * sz" using of_nat_width(1) [OF sz] by simp
      ultimately show ?thesis by (simp add: bytes_at_append)
    qed
    show ?thesis unfolding obj_same_def part moved src ..
  qed
  obtain j u where j: "j \<le> unat n" "j < unat n \<longrightarrow> \<not> obj_same (memory ?s) sz src dst j" "j = unat n \<longrightarrow> u = con_out ?s"
    "cmp_loop (unat n) cfg sz src dst 0 ?s = Inr (0 + of_nat j, ?s\<lparr>con_out := u\<rparr>)"
    using cmp_loop_counts [OF assms(1) sz assms(13,14), of "unat n" ?s 0] by blast
  then have "j = unat n" using same by (cases "j < unat n") auto
  then have "cmp_loop (unat n) cfg sz src dst 0 ?s = Inr (n, ?s)" using j(3,4) by simp
  then have "do_mem_cmp cfg cmdtp' 4 argv' ?s = Inr (0, puts (total_line cfg sz n) ?s)"
    using assms(3,7-11) by (intro cmp_total [OF assms(1)]) simp_all
  with cp moved frame show ?thesis by (intro exI [of _ ?s]) simp
qed

text \<open>Two words, from 0x100 to 0x200.\<close>

lemma small_args:
  "size_spec [Some (lit ''cp'')] 2 = Inr 4" "size_spec [Some (lit ''cmp'')] 3 = Inr 4"
  "fst (simple_strtoul (lit ''100'') 16) = 0x100" "fst (simple_strtoul (lit ''200'') 16) = 0x200"
  "fst (simple_strtoul (lit ''2'') 16) = 2"
  by code_simp+

theorem cp_then_cmp_witness:
  "\<exists>s'. do_mem_cp dnp1110 (nor_chip (\<lambda>_. {})) (hd cmd_tbl) 4 [Some (lit ''cp''), Some (lit ''100''), Some (lit ''200''), Some (lit ''2'')]
      ((reset_sys 0)\<lparr>memory := \<lambda>x. if x = 0x105 then 7 else 0\<rparr>) = Inr (0, s')
    \<and> bytes_at (memory s') 0x200 8 = [0, 0, 0, 0, 0, 7, 0, 0]
    \<and> do_mem_cmp dnp1110 (hd cmd_tbl) 4 [Some (lit ''cmp''), Some (lit ''100''), Some (lit ''200''), Some (lit ''2'')] s'
      = Inr (0, puts (total_line dnp1110 4 2) s')"
proof -
  let ?m = "\<lambda>x :: addr. if x = 0x105 then 7 else 0 :: byte"
  let ?s = "(reset_sys 0)\<lparr>memory := ?m\<rparr>"
  let ?v = "[Some (lit ''cp''), Some (lit ''100''), Some (lit ''200''), Some (lit ''2'')]"
  let ?v' = "[Some (lit ''cmp''), Some (lit ''100''), Some (lit ''200''), Some (lit ''2'')]"
  have a: "size_spec ?v 2 = Inr 4" "size_spec ?v' 3 = Inr 4"
    using small_args(1,2) by (simp_all add: size_spec_def argv_str_def)
  have n: "argv_num w 1 = Inr 0x100" "argv_num w 2 = Inr 0x200" "argv_num w 3 = Inr 2" if "w = ?v \<or> w = ?v'" for w
    using that small_args(3-5) by (auto simp: argv_num_def argv_str_def)
  have r: "region 0x200 8 \<inter> region (0x100 :: addr) 8 = {}" by (simp add: region_numeral region_Suc)
  have b: "bytes_at ?m 0x100 8 = [0, 0, 0, 0, 0, 7, 0, 0]" by (simp add: bytes_at_numeral bytes_at_Suc)
  have base: "base_address (mem_cmds ?s) = 0" "addr2info 0x200 ?s = None"
    by (simp_all add: reset_sys_def addr2info_def)
  have "\<exists>s'. do_mem_cp dnp1110 (nor_chip (\<lambda>_. {})) (hd cmd_tbl) 4 ?v ?s = Inr (0, s') \<and> bytes_at (memory s') 0x200 8 = bytes_at (memory ?s) 0x100 8
      \<and> (\<forall>x. x \<notin> region 0x200 8 \<longrightarrow> memory s' x = memory ?s x)
      \<and> do_mem_cmp dnp1110 (hd cmd_tbl) 4 ?v' s' = Inr (0, puts (total_line dnp1110 4 2) s')"
    by (rule cp_then_cmp [where src = "0x100" and a = "0x100" and d = "0x200" and n = 2])
      (use a n r base in \<open>simp_all add: dnp1110_def\<close>)
  then show ?thesis using b by auto
qed

section \<open>Copying over itself\<close>

lemma copy_up_nth:
  assumes "i < n" "n \<le> 2 ^ 32"
  shows "copy_up n m d a (d + of_nat i) = copy_up i m d a (a + of_nat i)"
proof -
  obtain k where n: "n = i + Suc k" using assms(1) less_imp_Suc_add by auto
  have "d + of_nat i \<notin> region (d + of_nat i + 1) k" using assms(2) n by (intro start_notin_region_Suc) simp
  then show ?thesis unfolding n copy_up_add by (simp add: copy_up_frame)
qed

lemma copy_up_period:
  assumes "0 < p" "p + n \<le> 2 ^ 32" "i < n"
  shows "copy_up n m (a + of_nat p) a (a + of_nat (p + i)) = m (a + of_nat (i mod p))"
  using assms(3)
proof (induction i rule: less_induct)
  case (less i)
  have "copy_up n m (a + of_nat p) a (a + of_nat (p + i)) = copy_up i m (a + of_nat p) a (a + of_nat i)"
    using copy_up_nth [of i n m "a + of_nat p" a] less.prems assms(2) by (simp add: add.assoc)
  also have "\<dots> = m (a + of_nat (i mod p))"
  proof (cases "i < p")
    case True
    have "a + of_nat i \<notin> region (a + of_nat p) i"
      using region_before(1) [of p i a] assms(2) less.prems True by (auto simp del: of_nat_add)
    then show ?thesis using True by (simp add: copy_up_frame)
  next
    case False
    define j where "j = i - p"
    have j: "i = p + j" "j < i" using False assms(1) by (simp_all add: j_def)
    have "copy_up i m (a + of_nat p) a (a + of_nat i) = copy_up j m (a + of_nat p) a (a + of_nat j)"
      using copy_up_nth [of j i m "a + of_nat p" a] j less.prems assms(2) by (simp add: add.assoc)
    also have "\<dots> = copy_up n m (a + of_nat p) a (a + of_nat (p + j))"
      using copy_up_nth [of j n m "a + of_nat p" a] j less.prems assms(2) by (simp add: add.assoc)
    also have "\<dots> = m (a + of_nat (j mod p))" using j less.prems by (intro less.IH) simp_all
    finally show ?thesis by (simp add: j(1))
  qed
  finally show ?case .
qed

text \<open>
  \<open>cp\<close> copies upwards whatever the overlap: onto a destination \<open>p\<close> bytes behind its source it does not move
  the block but repeats the source's first \<open>p\<close> bytes over it.
\<close>

theorem cp_repeats_when_overlapping:
  assumes "size_spec argv 2 = Inr sz" "argv_num argv 1 = Inr a" "argv_num argv 2 = Inr d" "argv_num argv 3 = Inr n"
    and "src = a + base_address (mem_cmds s)" "d + base_address (mem_cmds s) = src + of_nat p" "k = unat n * width sz"
    and "unat src mod width sz = 0" "unat (src + of_nat p) mod width sz = 0" "addr2info (src + of_nat p) s = None"
    and "0 < p" "p + k \<le> 2 ^ 32"
  shows "\<exists>s'. do_mem_cp cfg chip cmdtp 4 argv s = Inr (0, s')
    \<and> (\<forall>i<k. memory s' (src + of_nat (p + i)) = memory s (src + of_nat (i mod p)))"
proof -
  have sz: "obj_size sz" using assms(1) by (rule size_spec_size)
  let ?s = "s\<lparr>memory := copy_up k (memory s) (src + of_nat p) src\<rparr>"
  have "do_mem_cp cfg chip cmdtp 4 argv s = Inr (0, ?s)"
    using cp_plain [OF assms(1-5) assms(6) [symmetric] assms(8-10)] assms(7) by simp
  then show ?thesis using copy_up_period [OF assms(11,12)] by (intro exI [of _ ?s]) simp
qed

text \<open>Bytes 1, 2, 3, 4 from 0x100, four of them copied one behind: all become 1.\<close>

theorem cp_repeats_when_overlapping_witness:
  "\<exists>s'. do_mem_cp dnp1110 (nor_chip (\<lambda>_. {})) (hd cmd_tbl) 4 [Some (lit ''cp.b''), Some (lit ''100''), Some (lit ''101''), Some (lit ''4'')]
      ((reset_sys 0)\<lparr>memory := \<lambda>x. ucast x + 1\<rparr>) = Inr (0, s')
    \<and> bytes_at (memory s') 0x101 4 = [1, 1, 1, 1]"
proof -
  let ?s = "(reset_sys 0)\<lparr>memory := \<lambda>x. ucast x + 1\<rparr>"
  let ?v = "[Some (lit ''cp.b''), Some (lit ''100''), Some (lit ''101''), Some (lit ''4'')]"
  have a: "size_spec [Some (lit ''cp.b'')] 2 = Inr 1" "fst (simple_strtoul (lit ''100'') 16) = 0x100"
    "fst (simple_strtoul (lit ''101'') 16) = 0x101" "fst (simple_strtoul (lit ''4'') 16) = 4" by code_simp+
  have v: "size_spec ?v 2 = Inr 1" "argv_num ?v 1 = Inr 0x100" "argv_num ?v 2 = Inr 0x101" "argv_num ?v 3 = Inr 4"
    using a by (simp_all add: size_spec_def argv_num_def argv_str_def)
  have "\<exists>s'. do_mem_cp dnp1110 (nor_chip (\<lambda>_. {})) (hd cmd_tbl) 4 ?v ?s = Inr (0, s')
      \<and> (\<forall>i<4. memory s' (0x100 + of_nat (1 + i)) = memory ?s (0x100 + of_nat (i mod 1)))"
    by (rule cp_repeats_when_overlapping [where a = "0x100" and d = "0x101" and n = 4 and sz = 1])
      (use v in \<open>simp_all add: reset_sys_def addr2info_def\<close>)
  then obtain s' where s': "do_mem_cp dnp1110 (nor_chip (\<lambda>_. {})) (hd cmd_tbl) 4 ?v ?s = Inr (0, s')"
    "\<forall>i<4. memory s' (0x100 + of_nat (1 + i)) = memory ?s 0x100" by auto
  have "bytes_at (memory s') 0x101 4 = [1, 1, 1, 1]"
    using s'(2) [rule_format, of 0] s'(2) [rule_format, of 1] s'(2) [rule_format, of 2] s'(2) [rule_format, of 3]
    by (simp add: bytes_at_numeral bytes_at_Suc)
  with s'(1) show ?thesis by blast
qed

section \<open>Filling\<close>

lemma mw_loop_stores:
  assumes "obj_size sz" "unat a mod width sz = 0"
  shows "mw_loop n sz a v m = Inr (store_bytes m a (concat (replicate n (obj_bytes (width sz) v))))"
  using assms(2)
proof (induction n arbitrary: a m)
  case (Suc n)
  then show ?case
    using aligned_step [OF Suc.prems assms(1)] of_nat_width(1) [OF assms(1)]
    by (simp add: wr_aligned store_bytes_append)
qed simp

lemma length_concat_replicate [simp]: "length (concat (replicate n xs)) = n * length xs"
  by (induction n) simp_all

text \<open>
  \<open>mw\<close> fills the range with the low bytes of the value, as many times as it is told, and changes nothing
  else.
\<close>

theorem mw_fills:
  assumes "size_spec argv 2 = Inr sz" "argv_num argv 1 = Inr a" "argv_num argv 2 = Inr v"
    and "if argc = 4 then argv_num argv 3 = Inr n else n = 1" "argc = 3 \<or> argc = 4"
    and "dst = a + base_address (mem_cmds s)" "unat dst mod width sz = 0" "unat n * width sz < 2 ^ 32"
  shows "\<exists>s'. do_mem_mw cfg cmdtp argc argv s = Inr (0, s')
    \<and> bytes_at (memory s') dst (unat n * width sz) = concat (replicate (unat n) (obj_bytes (width sz) v))
    \<and> (\<forall>x. x \<notin> region dst (unat n * width sz) \<longrightarrow> memory s' x = memory s x)"
proof -
  let ?bs = "concat (replicate (unat n) (obj_bytes (width sz) v))"
  let ?s = "s\<lparr>memory := store_bytes (memory s) dst ?bs\<rparr>"
  have "do_mem_mw cfg cmdtp argc argv s = Inr (0, ?s)"
    using assms(1-7) mw_loop_stores [OF size_spec_size [OF assms(1)] assms(7), of "unat n" v "memory s"]
    by (auto simp: do_mem_mw_def)
  moreover have "bytes_at (memory ?s) dst (unat n * width sz) = ?bs"
    using bytes_at_store_bytes [of ?bs "memory s" dst] assms(8) by simp
  moreover have "\<forall>x. x \<notin> region dst (unat n * width sz) \<longrightarrow> memory ?s x = memory s x"
    using memory_store_bytes [of ?bs _ dst "memory s"] assms(8) by simp
  ultimately show ?thesis by blast
qed

section \<open>Testing\<close>

definition mtest_data :: "nat \<Rightarrow> u32 \<Rightarrow> byte list" where
  "mtest_data n v = concat (map (\<lambda>i. obj_bytes 4 (v + of_nat i)) [0..<n])"

lemma mtest_data_Suc: "mtest_data (Suc n) v = obj_bytes 4 v @ mtest_data n (v + 1)"
  by (simp add: mtest_data_def map_upt_Suc add.assoc del: upt_Suc)

lemma length_mtest_data [simp]: "length (mtest_data n v) = 4 * n"
  by (induction n arbitrary: v) (simp_all add: mtest_data_Suc mtest_data_def [of 0])

lemma aligned_word: "unat (a :: u32) mod 4 = 0 \<Longrightarrow> unat (a + 4) mod 4 = 0"
  using aligned_step [of a 4] by (simp add: obj_size_def)

lemma mtest_write_ok: "unat a mod 4 = 0 \<Longrightarrow> mtest_write n a v m = Inr (store_bytes m a (mtest_data n v))"
proof (induction n arbitrary: a v m)
  case (Suc n)
  then show ?case using aligned_word [OF Suc.prems]
    by (simp add: wr_obj_def mtest_data_Suc store_bytes_append)
qed (simp add: mtest_data_def)

lemma mtest_read_ok:
  "unat a mod 4 = 0 \<Longrightarrow> bytes_at (memory s) a (4 * n) = mtest_data n v \<Longrightarrow> mtest_read n cfg a v s = Inr ((), s)"
proof (induction n arbitrary: a v)
  case (Suc n)
  have "bytes_at (memory s) a (4 + 4 * n) = obj_bytes 4 v @ mtest_data n (v + 1)"
    using Suc.prems(2) by (simp add: mtest_data_Suc)
  then have "bytes_at (memory s) a 4 @ bytes_at (memory s) (a + 4) (4 * n) = obj_bytes 4 v @ mtest_data n (v + 1)"
    unfolding bytes_at_append by simp
  then have b: "bytes_at (memory s) a 4 = obj_bytes 4 v" "bytes_at (memory s) (a + 4) (4 * n) = mtest_data n (v + 1)"
    by simp_all
  then show ?case using Suc.prems(1) Suc.IH [OF aligned_word [OF Suc.prems(1)] b(2)]
    by (simp add: rd_obj_def obj_val_bytes take_bit_word_eq_self)
qed simp

text \<open>What a pass prints: the value it starts from, twice, and no error.\<close>

definition mtest_report :: "config \<Rightarrow> u32 \<Rightarrow> byte list" where
  "mtest_report cfg v =
     line_out (printed cfg (lit ''\<newline>Writing: %08x, '') [AInt v]) @ line_out (printed cfg (lit ''Reading: %08x'') [AInt v])"

definition mtest_next :: "config \<Rightarrow> sys \<Rightarrow> sys" where
  "mtest_next cfg s =
     s\<lparr>memory := store_bytes (memory s) CFG_MEMTEST_START (mtest_data mtest_words (baseval (mem_cmds s))),
       con_out := con_out s @ mtest_report cfg (baseval (mem_cmds s)),
       mem_cmds := (mem_cmds s)\<lparr>baseval := baseval (mem_cmds s) + 1\<rparr>\<rparr>"

lemma mtest_size: "4 * mtest_words < 2 ^ 32"
  by (simp add: mtest_words_def)

lemma mtest_pass_ok:
  assumes "120 < CFG_PBSIZE cfg"
  shows "mtest_pass cfg s = Inr ((), mtest_next cfg s)"
proof -
  let ?v = "baseval (mem_cmds s)" and ?a = "CFG_MEMTEST_START"
  let ?m = "store_bytes (memory s) ?a (mtest_data mtest_words ?v)"
  have "bytes_at ?m ?a (4 * mtest_words) = mtest_data mtest_words ?v"
    using bytes_at_store_bytes [of "mtest_data mtest_words ?v" "memory s" ?a] mtest_size by simp
  then have "mtest_read mtest_words cfg ?a ?v s' = Inr ((), s')" if "memory s' = ?m" for s'
    using that by (intro mtest_read_ok) simp_all
  then show ?thesis
    by (simp add: mtest_pass_def printf_prints mem_prints [OF assms] mtest_write_ok puts_out Let_def
        mtest_next_def mtest_report_def)
qed

lemma mtest_words_0: "mtest_words \<noteq> 0"
  by (simp add: mtest_words_def)

lemma mtest_step_go:
  assumes "120 < CFG_PBSIZE cfg" "\<not> ctrlc_disabled s" "con_in s = [] \<or> hd (con_in s) \<noteq> 3"
  shows "mtest_step cfg s = Inr (Inl (mtest_next cfg (s\<lparr>con_in := tl (con_in s)\<rparr>)))"
proof (cases "con_in s")
  case Nil
  then have "s\<lparr>con_in := []\<rparr> = s" by (cases s) simp
  then have "mtest_next cfg (s\<lparr>con_in := tl (con_in s)\<rparr>) = mtest_next cfg s" by (simp only: Nil list.sel)
  then show ?thesis using Nil assms(2)
    by (simp add: mtest_step_def ctrlc_def tstc_def mtest_pass_ok [OF assms(1)] del: list.sel)
next
  case (Cons c cs)
  then show ?thesis using assms(2,3)
    by (simp add: mtest_step_def ctrlc_def tstc_def getc_def mtest_pass_ok [OF assms(1)])
qed

lemma mtest_next_fields [simp]:
  "con_in (mtest_next cfg s) = con_in s" "ctrlc_disabled (mtest_next cfg s) = ctrlc_disabled s"
  "baseval (mem_cmds (mtest_next cfg s)) = baseval (mem_cmds s) + 1"
  "con_out (mtest_next cfg s) = con_out s @ mtest_report cfg (baseval (mem_cmds s))"
  "memory (mtest_next cfg s) = store_bytes (memory s) CFG_MEMTEST_START (mtest_data mtest_words (baseval (mem_cmds s)))"
  by (simp_all add: mtest_next_def)

text \<open>The values of the passes before a control-C.\<close>

definition mtest_reports :: "config \<Rightarrow> u32 \<Rightarrow> nat \<Rightarrow> byte list" where
  "mtest_reports cfg v n = concat (map (\<lambda>i. mtest_report cfg (v + of_nat i)) [0..<n])"

lemma mtest_reports_Suc: "mtest_reports cfg v (Suc n) = mtest_report cfg v @ mtest_reports cfg (v + 1) n"
  by (simp add: mtest_reports_def map_upt_Suc add.assoc del: upt_Suc)

lemma mtest_stops:
  assumes "120 < CFG_PBSIZE cfg"
  shows "\<not> ctrlc_disabled s \<Longrightarrow> con_in s = before @ 3 # after \<Longrightarrow> 3 \<notin> set before \<Longrightarrow>
    \<exists>s'. do_mem_mtest cfg s = Inr (1, s') \<and> con_in s' = after
      \<and> con_out s' = con_out s @ mtest_reports cfg (baseval (mem_cmds s)) (length before)
      \<and> (\<forall>x. x \<notin> region CFG_MEMTEST_START (4 * mtest_words) \<longrightarrow> memory s' x = memory s x)
      \<and> (before \<noteq> [] \<longrightarrow> bytes_at (memory s') CFG_MEMTEST_START (4 * mtest_words)
           = mtest_data mtest_words (baseval (mem_cmds s) + of_nat (length before) - 1))"
proof (induction before arbitrary: s)
  case Nil
  let ?s = "s\<lparr>con_in := after, ctrlc_was_pressed := True\<rparr>"
  have "mtest_step cfg s = Inr (Inr (1, ?s))"
    using Nil by (simp add: mtest_step_def ctrlc_def tstc_def getc_def)
  then have "do_mem_mtest cfg s = Inr (1, ?s)" by (simp add: do_mem_mtest_def loop_simps(3) [of "mtest_step cfg"])
  then show ?case by (simp add: mtest_reports_def)
next
  case (Cons c before)
  let ?s = "mtest_next cfg (s\<lparr>con_in := before @ 3 # after\<rparr>)" and ?v = "baseval (mem_cmds s)"
  let ?d = "mtest_data mtest_words ?v"
  have "do_mem_mtest cfg s = do_mem_mtest cfg ?s"
    using mtest_step_go [OF assms Cons.prems(1)] Cons.prems(2,3)
    by (simp add: do_mem_mtest_def loop_simps(2) [of "mtest_step cfg"])
  moreover obtain s' where s': "do_mem_mtest cfg ?s = Inr (1, s')" "con_in s' = after"
    "con_out s' = con_out s @ mtest_report cfg ?v @ mtest_reports cfg (?v + 1) (length before)"
    "\<forall>x. x \<notin> region CFG_MEMTEST_START (4 * mtest_words) \<longrightarrow> memory s' x = store_bytes (memory s) CFG_MEMTEST_START ?d x"
    "before \<noteq> [] \<longrightarrow> bytes_at (memory s') CFG_MEMTEST_START (4 * mtest_words)
       = mtest_data mtest_words (?v + 1 + of_nat (length before) - 1)"
    "before = [] \<longrightarrow> memory s' = store_bytes (memory s) CFG_MEMTEST_START ?d"
  proof (cases "before = []")
    case True
    let ?t = "?s\<lparr>con_in := after, ctrlc_was_pressed := True\<rparr>"
    have "mtest_step cfg ?s = Inr (Inr (1, ?t))"
      using Cons.prems True by (simp add: mtest_step_def ctrlc_def tstc_def getc_def)
    then have "do_mem_mtest cfg ?s = Inr (1, ?t)" by (simp add: do_mem_mtest_def loop_simps(3) [of "mtest_step cfg"])
    with True that [of ?t] show ?thesis by (simp add: mtest_reports_def)
  next
    case False
    then show ?thesis using Cons.IH [of ?s] Cons.prems that by auto
  qed
  moreover have "store_bytes (memory s) CFG_MEMTEST_START ?d x = memory s x"
    if "x \<notin> region CFG_MEMTEST_START (4 * mtest_words)" for x
    using that mtest_size by (intro memory_store_bytes) simp_all
  moreover have "bytes_at (store_bytes (memory s) CFG_MEMTEST_START ?d) CFG_MEMTEST_START (4 * mtest_words) = ?d"
    using bytes_at_store_bytes [of ?d "memory s" CFG_MEMTEST_START] mtest_size by simp
  ultimately show ?case
    by (intro exI [of _ s']) (cases "before = []", simp_all add: mtest_reports_Suc add_ac)
qed

text \<open>
  C35: \<open>mtest\<close> ends exactly when a control-C is among the characters that arrive: it takes one character a pass,
  and at the control-C returns 1 with the range holding the last pass's pattern and no other byte changed;
  it prints the start of each pass and never an error, as memory holds what was stored.
\<close>

theorem mtest_until_ctrlc:
  assumes "120 < CFG_PBSIZE cfg" "\<not> ctrlc_disabled s"
  shows "(3 \<notin> set (con_in s) \<longrightarrow> do_mem_mtest cfg s = Inl Hang)
    \<and> (\<forall>before after. con_in s = before @ 3 # after \<and> 3 \<notin> set before \<longrightarrow>
        (\<exists>s'. do_mem_mtest cfg s = Inr (1, s') \<and> con_in s' = after
          \<and> con_out s' = con_out s @ mtest_reports cfg (baseval (mem_cmds s)) (length before)
          \<and> (\<forall>x. x \<notin> region CFG_MEMTEST_START (4 * mtest_words) \<longrightarrow> memory s' x = memory s x)
          \<and> (before \<noteq> [] \<longrightarrow> bytes_at (memory s') CFG_MEMTEST_START (4 * mtest_words)
               = mtest_data mtest_words (baseval (mem_cmds s) + of_nat (length before) - 1))))"
proof (intro conjI impI allI)
  assume "3 \<notin> set (con_in s)"
  with assms(2) show "do_mem_mtest cfg s = Inl Hang" unfolding do_mem_mtest_def
  proof (intro loop_hangs [of "\<lambda>s :: sys. \<not> ctrlc_disabled s \<and> 3 \<notin> set (con_in s)"] conjI)
    fix s :: sys assume s: "\<not> ctrlc_disabled s \<and> 3 \<notin> set (con_in s)"
    then have "con_in s = [] \<or> hd (con_in s) \<noteq> 3" by (cases "con_in s") auto
    from mtest_step_go [OF assms(1) conjunct1 [OF s] this] s
    show "\<exists>s'. mtest_step cfg s = Inr (Inl s') \<and> \<not> ctrlc_disabled s' \<and> 3 \<notin> set (con_in s')"
      by (cases "con_in s") auto
  qed
qed (use mtest_stops [OF assms] in blast)

theorem mtest_until_ctrlc_witness:
  "do_mem_mtest dnp1110 (reset_sys 0) = Inl Hang
    \<and> (\<exists>s'. do_mem_mtest dnp1110 ((reset_sys 0)\<lparr>con_in := [65, 3, 66]\<rparr>) = Inr (1, s') \<and> con_in s' = [66]
        \<and> bytes_at (memory s') 0xc0400000 (4 * mtest_words) = mtest_data mtest_words 0)"
proof
  show "do_mem_mtest dnp1110 (reset_sys 0) = Inl Hang"
    using mtest_until_ctrlc [of dnp1110 "reset_sys 0"] by (simp add: dnp1110_def reset_sys_def)
  let ?s = "(reset_sys 0)\<lparr>con_in := [65, 3, 66]\<rparr>"
  have "con_in ?s = [65] @ 3 # [66] \<and> 3 \<notin> set [65 :: byte]" by simp
  then show "\<exists>s'. do_mem_mtest dnp1110 ?s = Inr (1, s') \<and> con_in s' = [66]
        \<and> bytes_at (memory s') 0xc0400000 (4 * mtest_words) = mtest_data mtest_words 0"
    using mtest_until_ctrlc [of dnp1110 ?s, THEN conjunct2, rule_format, of "[65]" "[66]"]
    by (auto simp: dnp1110_def reset_sys_def)
qed

theorem mw_fills_witness:
  "\<exists>s'. do_mem_mw dnp1110 (hd cmd_tbl) 4 [Some (lit ''mw.w''), Some (lit ''100''), Some (lit ''1234''), Some (lit ''2'')] (reset_sys 0)
      = Inr (0, s') \<and> bytes_at (memory s') 0x100 4 = [0x34, 0x12, 0x34, 0x12]"
proof -
  let ?v = "[Some (lit ''mw.w''), Some (lit ''100''), Some (lit ''1234''), Some (lit ''2'')]"
  have a: "size_spec [Some (lit ''mw.w'')] 2 = Inr 2" "fst (simple_strtoul (lit ''100'') 16) = 0x100"
    "fst (simple_strtoul (lit ''1234'') 16) = 0x1234" "fst (simple_strtoul (lit ''2'') 16) = 2" by code_simp+
  have v: "size_spec ?v 2 = Inr 2" "argv_num ?v 1 = Inr 0x100" "argv_num ?v 2 = Inr 0x1234" "argv_num ?v 3 = Inr 2"
    using a by (simp_all add: size_spec_def argv_num_def argv_str_def)
  have "\<exists>s'. do_mem_mw dnp1110 (hd cmd_tbl) 4 ?v (reset_sys 0) = Inr (0, s')
      \<and> bytes_at (memory s') 0x100 (unat (2 :: u32) * width 2) = concat (replicate (unat (2 :: u32)) (obj_bytes (width 2) 0x1234))
      \<and> (\<forall>x. x \<notin> region 0x100 (unat (2 :: u32) * width 2) \<longrightarrow> memory s' x = memory (reset_sys 0) x)"
    by (rule mw_fills [where a = "0x100" and v = "0x1234"]) (use v in \<open>simp_all add: reset_sys_def\<close>)
  moreover have "concat (replicate (unat (2 :: u32)) (obj_bytes (width 2) 0x1234)) = [0x34, 0x12, 0x34, 0x12]"
    by code_simp
  ultimately show ?thesis by auto
qed

section \<open>Displaying\<close>

definition obj_fmt :: "u32 \<Rightarrow> byte list" where
  "obj_fmt sz = lit (if sz = 4 then '' %08x'' else if sz = 2 then '' %04x'' else '' %02x'')"

text \<open>
  A line of \<open>md\<close>: the address, \<open>k\<close> objects as numbers, and their bytes as characters; and the lines of a display
  of \<open>n\<close> bytes.
\<close>

definition md_line_text :: "config \<Rightarrow> u32 \<Rightarrow> mem \<Rightarrow> addr \<Rightarrow> nat \<Rightarrow> byte list" where
  "md_line_text cfg sz m a k =
     line_out (printed cfg (lit ''%08lx:'') [AInt a]
       @ concat (map (\<lambda>i. printed cfg (obj_fmt sz) [AInt (obj_val (bytes_at m (a + of_nat i * sz) (width sz)))]) [0..<k])
       @ lit ''    ''
       @ map (\<lambda>c. if c < 0x20 \<or> c > 0x7e then ch CHR ''.'' else c) (bytes_at m a (k * width sz))
       @ lit ''\<newline>'')"

function md_dump :: "config \<Rightarrow> u32 \<Rightarrow> mem \<Rightarrow> addr \<Rightarrow> nat \<Rightarrow> byte list" where
  "md_dump cfg sz m a n =
     (if 16 < n then md_line_text cfg sz m a (16 div width sz) @ md_dump cfg sz m (a + 16) (n - 16)
      else md_line_text cfg sz m a (n div width sz))"
  by pat_completeness auto
termination by (relation "measure (\<lambda>(_, _, _, _, n). n)") auto

declare md_dump.simps [simp del]

lemma obj_fmt_prints: "120 < CFG_PBSIZE cfg \<Longrightarrow> prints cfg (obj_fmt sz) [AInt a]"
  by (simp add: obj_fmt_def mem_prints)

lemma md_objs_shown:
  assumes "120 < CFG_PBSIZE cfg" "obj_size sz" "unat a mod width sz = 0"
  shows "md_objs k cfg sz a lb s = Inr ((a + of_nat k * sz, lb @ bytes_at (memory s) a (k * width sz)),
    puts (concat (map (\<lambda>i. printed cfg (obj_fmt sz) [AInt (obj_val (bytes_at (memory s) (a + of_nat i * sz) (width sz)))])
      [0..<k])) s)"
  using assms(3)
proof (induction k arbitrary: a lb s)
  case (Suc k)
  let ?v = "obj_val (bytes_at (memory s) a (width sz))"
  have "obj_bytes (width sz) ?v = bytes_at (memory s) a (width sz)"
    using obj_bytes_val [of "bytes_at (memory s) a (width sz)"] width_le(2) by simp
  then show ?case
    using Suc aligned_step [OF Suc.prems assms(2)] of_nat_width(1) [OF assms(2)]
    by (simp add: rd_aligned printf_prints obj_fmt_prints [OF assms(1)] puts_out bytes_at_append
        map_upt_Suc distrib_right add_ac flip: obj_fmt_def del: upt_Suc)
qed (simp add: puts_out line_out_def)

lemma printed_char:
  assumes "120 < CFG_PBSIZE cfg" "c \<noteq> 0"
  shows "printed cfg (lit ''%c'') [AInt (ucast c)] = [c]"
proof -
  have "ucast (ucast c :: u32) = c" by (rule bit_word_eqI) (auto simp: bit_simps)
  then show ?thesis using assms(2)
    by (simp add: printed_def sprintf_def vsprintf_def lit_def fmt_directive_def fmt_width_def fmt_precision_def
        fmt_qualifier_def fmt_convert_def is_digit_def fmt_char_def blanks_def flag_set_def cstr_of_def)
qed

lemma md_text_shown:
  assumes "120 < CFG_PBSIZE cfg"
  shows "md_text cfg cs s = Inr ((), puts (map (\<lambda>c. if c < 0x20 \<or> c > 0x7e then ch CHR ''.'' else c) cs) s)"
proof (induction cs arbitrary: s)
  case (Cons c cs)
  have "printed cfg (lit ''.'') [] = [ch CHR ''.'']"
    by (simp add: printed_def sprintf_def vsprintf_def lit_def cstr_of_def)
  moreover have "c \<noteq> 0" if "\<not> (c < 0x20 \<or> c > 0x7e)" using that by auto
  ultimately show ?case
    using Cons.IH by (auto simp: says [OF assms] printf_prints mem_prints [OF assms] printed_char [OF assms] puts_out line_out_def)
qed (simp add: puts_out line_out_def)

lemma md_line_shown:
  assumes "120 < CFG_PBSIZE cfg" "obj_size sz" "unat a mod width sz = 0" "unat l = k * width sz"
  shows "md_line cfg sz l a s = Inr (a + l, s\<lparr>con_out := con_out s @ md_line_text cfg sz (memory s) a k\<rparr>)"
proof -
  have "sz \<noteq> 0" using assms(2) by (auto simp: obj_size_def)
  moreover have "(unat l + unat sz - 1) div unat sz = k"
  proof -
    have "k * width sz + width sz - 1 = (width sz - 1) + k * width sz" using width_le(1) [of sz] by simp
    then show ?thesis unfolding assms(4) of_nat_width(2) [OF assms(2)]
      using width_le(1) [of sz] div_mult_self1 [of "width sz" "width sz - 1" k] by simp
  qed
  moreover have "of_nat k * sz = l"
  proof -
    have "of_nat (unat l) = l" by simp
    then show ?thesis using of_nat_width(1) [OF assms(2)] unfolding assms(4) by simp
  qed
  moreover have "printed cfg (lit ''    '') [] = lit ''    ''" "printed cfg (lit ''\<newline>'') [] = lit ''\<newline>''"
    by (simp_all add: printed_def sprintf_def vsprintf_def lit_def cstr_of_def)
  ultimately show ?thesis
    by (simp add: md_line_def Let_def printf_prints mem_prints [OF assms(1)] md_objs_shown [OF assms(1-3)]
        says [OF assms(1)] md_text_shown [OF assms(1)] puts_out assms(4) md_line_text_def)
qed

lemma md_lines_shown:
  assumes "120 < CFG_PBSIZE cfg" "obj_size sz"
  shows "unat a mod width sz = 0 \<Longrightarrow> unat n mod width sz = 0 \<Longrightarrow>
    md_lines cfg sz n a s = Inr (a + n, s\<lparr>con_out := con_out s @ md_dump cfg sz (memory s) a (unat n)\<rparr>)"
proof (induction "unat n" arbitrary: n a s rule: less_induct)
  case less
  have w: "unat (16 :: u32) = (16 div width sz) * width sz" "16 mod width sz = 0" using assms(2) by (auto simp: obj_size_def)
  have k: "unat n = (unat n div width sz) * width sz" using less.prems(2) by (simp add: mod_0_imp_dvd)
  show ?case
  proof (cases "16 < n")
    case True
    let ?s = "s\<lparr>con_out := con_out s @ md_line_text cfg sz (memory s) a (16 div width sz)\<rparr>"
    have n: "unat (n - 16) = unat n - 16" "16 < unat n" using True by (simp_all add: unat_sub word_le_nat_alt word_less_nat_alt)
    have "(unat a + 16) mod width sz = 0" using less.prems(1) w(2) by (metis mod_add_left_eq add_0)
    moreover have "width sz dvd 2 ^ 32" using assms(2) by (auto simp: obj_size_def)
    ultimately have al: "unat (a + 16) mod width sz = 0" by (simp add: unat_word_ariths mod_mod_cancel)
    have "(unat n - 16) mod width sz = 0" using less.prems(2) w(2) n(2) by (meson dvd_diff_nat mod_0_imp_dvd dvd_imp_mod_0)
    then have "md_lines cfg sz (n - 16) (a + 16) ?s
        = Inr (a + 16 + (n - 16), ?s\<lparr>con_out := con_out ?s @ md_dump cfg sz (memory ?s) (a + 16) (unat (n - 16))\<rparr>)"
      using n al by (intro less.hyps) simp_all
    moreover have "0 < n - 16" using n by (simp add: word_less_nat_alt)
    ultimately show ?thesis
      using True n md_line_shown [OF assms less.prems(1) w(1), of s]
      by (simp add: md_lines.simps [of cfg sz n] md_dump.simps [of cfg sz _ a "unat n"] Let_def)
  next
    case False
    then have "\<not> 16 < unat n" by (simp add: word_less_nat_alt)
    then show ?thesis using False md_line_shown [OF assms less.prems(1) k, of s]
      by (simp add: md_lines.simps [of cfg sz n] md_dump.simps [of cfg sz _ a "unat n"])
  qed
qed

text \<open>
  \<open>md\<close> prints the objects of the range in lines of sixteen bytes, as numbers and as characters, changes
  nothing in memory, and repeated by an empty line goes on with as many objects behind the range.
\<close>

theorem md_dumps_and_continues:
  assumes "120 < CFG_PBSIZE cfg" "size_spec argv 2 = Inr sz" "argv_num argv 1 = Inr a" "argv_num argv 2 = Inr n"
    and "2 < argc" "flag AND CMD_FLAG_REPEAT = 0" "src = a + base_address (mem_cmds s)" "unat src mod width sz = 0"
    and "unat n * width sz < 2 ^ 32"
  shows "\<exists>s' s''. do_mem_md cfg cmdtp flag argc argv s = Inr (0, s')
    \<and> con_out s' = con_out s @ md_dump cfg sz (memory s) src (unat n * width sz) \<and> memory s' = memory s
    \<and> do_mem_md cfg cmdtp CMD_FLAG_REPEAT argc argv s' = Inr (0, s'')
    \<and> con_out s'' = con_out s' @ md_dump cfg sz (memory s) (src + n * sz) (unat n * width sz)"
proof -
  have sz: "obj_size sz" using assms(2) by (rule size_spec_size)
  have n: "unat (n * sz) = unat n * width sz" using assms(9) of_nat_width(2) [OF sz] iffD1 [OF unat_mult_lem, of n sz] by simp
  then have al: "unat (n * sz) mod width sz = 0" by simp
  have "(unat src + unat (n * sz)) mod width sz = 0" using assms(8) n by simp
  moreover have "width sz dvd 2 ^ 32" using sz by (auto simp: obj_size_def)
  ultimately have al2: "unat (src + n * sz) mod width sz = 0" by (simp add: unat_word_ariths mod_mod_cancel)
  let ?s = "s\<lparr>con_out := con_out s @ md_dump cfg sz (memory s) src (unat n * width sz),
    mem_cmds := (mem_cmds s)\<lparr>dp_last_addr := src + n * sz, dp_last_size := sz, dp_last_length := n\<rparr>\<rparr>"
  have "do_mem_md cfg cmdtp flag argc argv s = Inr (0, ?s)"
    using assms(2-6) md_lines_shown [OF assms(1) sz assms(8) al, of s, unfolded n assms(7)]
    by (simp add: do_mem_md_def Let_def assms(7))
  moreover have "CMD_FLAG_REPEAT AND CMD_FLAG_REPEAT \<noteq> 0" by (simp add: CMD_FLAG_REPEAT_def)
  then obtain t where "do_mem_md cfg cmdtp CMD_FLAG_REPEAT argc argv ?s = Inr (0, t)"
    "con_out t = con_out ?s @ md_dump cfg sz (memory s) (src + n * sz) (unat n * width sz)"
    using assms(5) by (simp add: do_mem_md_def Let_def md_lines_shown [OF assms(1) sz al2 al] n)
  ultimately show ?thesis by (intro exI [of _ ?s] exI [of _ t]) simp
qed

section \<open>Modifying\<close>

text \<open>Characters that \<open>readline\<close> takes as they are.\<close>

definition typable :: "byte list \<Rightarrow> bool" where
  "typable t = (\<forall>c\<in>set t. c \<notin> {0, 3, 8, 10, 13, 0x15, 0x17, 0x7F})"

lemma readline_loop_plain:
  assumes "typable t" "n + length t \<le> CFG_CBSIZE cfg - 2" "length (console_buffer s) = CFG_CBSIZE cfg" "2 \<le> CFG_CBSIZE cfg"
  shows "\<exists>b u. readline_loop cfg plen (t @ 13 # later) n col s
      = Inr (int (n + length t), s\<lparr>con_in := later, console_buffer := b, con_out := u\<rparr>)
    \<and> take (n + length t) b = take n (console_buffer s) @ t \<and> b ! (n + length t) = 0 \<and> length b = CFG_CBSIZE cfg"
  using assms(1-3)
proof (induction t arbitrary: n col s)
  case Nil
  then have "n < length (console_buffer s)" using assms(4) by simp
  then show ?case using Nil by (auto simp: store_char_def ub_def puts_out Let_def intro!: exI)
next
  case (Cons c t)
  let ?s = "s\<lparr>con_in := t @ 13 # later\<rparr>"
  obtain col' s1 where e: "echo_char c col ?s = (col', s1)" by fastforce
  then obtain u1 where s1: "s1 = ?s\<lparr>con_out := u1\<rparr>"
    using echo_char_echoed [of ?s c col] by (auto simp: echoed_iff)
  let ?b = "(console_buffer s)[n := c]"
  let ?s2 = "?s\<lparr>con_out := u1, console_buffer := ?b\<rparr>"
  have n: "n < length (console_buffer s)" "n < CFG_CBSIZE cfg - 2" using Cons.prems assms(4) by simp_all
  have c: "c \<notin> {0, 3, 8, 10, 13, 0x15, 0x17, 0x7F}" "typable t" using Cons.prems(1) by (simp_all add: typable_def)
  have r: "readline_loop cfg plen ((c # t) @ 13 # later) n col s = readline_loop cfg plen (t @ 13 # later) (n + 1) col' ?s2"
    using n c(1) e by (simp add: s1 store_char_def ub_def wr_in)
  obtain b u where b: "readline_loop cfg plen (t @ 13 # later) (n + 1) col' ?s2
      = Inr (int (n + 1 + length t), ?s2\<lparr>con_in := later, console_buffer := b, con_out := u\<rparr>)"
    "take (n + 1 + length t) b = take (n + 1) ?b @ t" "b ! (n + 1 + length t) = 0" "length b = CFG_CBSIZE cfg"
    using Cons.IH [of "n + 1" ?s2 col'] Cons.prems c(2) by auto
  have "take (n + 1) ?b = take n (console_buffer s) @ [c]" using n(1) by (simp add: take_Suc_conv_app_nth)
  then show ?case using r b by (intro exI [of _ b] exI [of _ u]) simp
qed

lemma readline_plain:
  assumes "typable t" "length t \<le> CFG_CBSIZE cfg - 2" "length (console_buffer s) = CFG_CBSIZE cfg" "2 \<le> CFG_CBSIZE cfg"
    and "con_in s = t @ 13 # later"
  shows "\<exists>b u. readline cfg prompt s = Inr (int (length t), s\<lparr>con_in := later, console_buffer := b, con_out := u\<rparr>)
    \<and> cstr_of b = t \<and> length b = CFG_CBSIZE cfg"
proof -
  have "length (console_buffer (puts prompt s)) = CFG_CBSIZE cfg" "con_in (puts prompt s) = t @ 13 # later"
    using assms(3,5) by (simp_all add: puts_out)
  with readline_loop_plain [OF assms(1) _ this(1) assms(4), of 0 "length prompt" later "length prompt"] assms(2)
  obtain b u where b: "readline cfg prompt s = Inr (int (length t), s\<lparr>con_in := later, console_buffer := b, con_out := u\<rparr>)"
    "take (length t) b = t" "b ! length t = 0" "length b = CFG_CBSIZE cfg"
    by (auto simp: readline_def puts_out)
  have "length t < length b" using b(4) assms(2,4) by simp
  then have "b = t @ 0 # drop (Suc (length t)) b" using b(2,3) by (metis id_take_nth_drop)
  moreover have "0 \<notin> set t" using assms(1) by (auto simp: typable_def)
  ultimately have "cstr_of b = t" by (metis cstr_of_append0)
  with b show ?thesis by blast
qed

text \<open>A line of the dialogue: one that is a number, what it is, and memory after a list of lines.\<close>

definition is_number :: "byte list \<Rightarrow> bool" where
  "is_number t = (length t - length (snd (simple_strtoul t 16)) \<noteq> 0)"

primrec mm_mem :: "bool \<Rightarrow> u32 \<Rightarrow> addr \<Rightarrow> byte list list \<Rightarrow> mem \<Rightarrow> addr \<times> mem" where
  "mm_mem incrflag sz a [] m = (a, m)"
| "mm_mem incrflag sz a (t # ts) m =
     mm_mem incrflag sz (if incrflag then a + sz else a) ts
       (if t = [] then m else store_bytes m a (obj_bytes (width sz) (fst (simple_strtoul t 16))))"

lemma mm_loop:
  assumes "120 < CFG_PBSIZE cfg" "2 \<le> CFG_CBSIZE cfg" "obj_size sz"
    and "\<forall>t\<in>set ts. typable t \<and> length t \<le> CFG_CBSIZE cfg - 2 \<and> (t = [] \<or> is_number t)"
    and "typable q" "length q \<le> CFG_CBSIZE cfg - 2" "q \<noteq> []" "\<not> is_number q"
  shows "unat a mod width sz = 0 \<Longrightarrow> length (console_buffer s) = CFG_CBSIZE cfg \<Longrightarrow>
      con_in s = concat (map (\<lambda>t. t @ [13]) ts) @ q @ 13 # later \<Longrightarrow>
    \<exists>s'. loop (mod_step cfg incrflag sz) (a, s) = Inr (fst (mm_mem incrflag sz a ts (memory s)), s')
      \<and> memory s' = snd (mm_mem incrflag sz a ts (memory s)) \<and> con_in s' = later \<and> mem_cmds s' = mem_cmds s"
  using assms(4)
proof (induction ts arbitrary: a s)
  case Nil
  let ?s = "puts (printed cfg (obj_fmt sz) [AInt (obj_val (bytes_at (memory s) a (width sz)))])
    (puts (printed cfg (lit ''%08lx:'') [AInt a]) s)"
  obtain b u where r: "readline cfg (lit '' ? '') ?s
      = Inr (int (length q), ?s\<lparr>con_in := later, console_buffer := b, con_out := u\<rparr>)" "cstr_of b = q"
    using readline_plain [OF assms(5,6) _ assms(2), of ?s later "lit '' ? ''"] Nil.prems by (auto simp: puts_out)
  have "mod_step cfg incrflag sz (a, s) = Inr (Inr (a, ?s\<lparr>con_in := later, console_buffer := b, con_out := u\<rparr>))"
    using r assms(7,8) Nil.prems(1)
    by (simp add: mod_step_def printf_prints mem_prints [OF assms(1)] obj_fmt_prints [OF assms(1)] rd_aligned puts_out
        is_number_def split_beta flip: obj_fmt_def)
  then show ?case by (simp add: loop_simps(3) [of "mod_step cfg incrflag sz"] puts_out)
next
  case (Cons t ts)
  let ?s = "puts (printed cfg (obj_fmt sz) [AInt (obj_val (bytes_at (memory s) a (width sz)))])
    (puts (printed cfg (lit ''%08lx:'') [AInt a]) s)"
  let ?later = "concat (map (\<lambda>t. t @ [13]) ts) @ q @ 13 # later"
  have t: "typable t" "length t \<le> CFG_CBSIZE cfg - 2" "t = [] \<or> is_number t" using Cons.prems(4) by simp_all
  obtain b u where r: "readline cfg (lit '' ? '') ?s
      = Inr (int (length t), ?s\<lparr>con_in := ?later, console_buffer := b, con_out := u\<rparr>)" "cstr_of b = t"
    "length b = CFG_CBSIZE cfg"
    using readline_plain [OF t(1,2) _ assms(2), of ?s ?later "lit '' ? ''"] Cons.prems by (auto simp: puts_out)
  let ?a = "if incrflag then a + sz else a"
  let ?m = "if t = [] then memory s else store_bytes (memory s) a (obj_bytes (width sz) (fst (simple_strtoul t 16)))"
  let ?t = "?s\<lparr>con_in := ?later, console_buffer := b, con_out := u, memory := ?m\<rparr>"
  have "mod_step cfg incrflag sz (a, s) = Inr (Inl (?a, ?t))"
    using r t(3) Cons.prems(1)
    by (auto simp: mod_step_def printf_prints mem_prints [OF assms(1)] obj_fmt_prints [OF assms(1)] rd_aligned wr_aligned puts_out
        is_number_def split_beta obj_fmt_def [symmetric])
  then have "loop (mod_step cfg incrflag sz) (a, s) = loop (mod_step cfg incrflag sz) (?a, ?t)"
    by (rule loop_simps(2))
  moreover have "unat ?a mod width sz = 0" using Cons.prems(1) aligned_step [OF _ assms(3)] by simp
  ultimately show ?case using Cons.IH [of ?a ?t] Cons.prems(4) r(3) by (simp add: puts_out)
qed

text \<open>
  C34: a session of \<open>mm\<close> or \<open>nm\<close>: each number typed is stored at the address shown and an empty line leaves the object
  as it is, \<open>mm\<close> then goes on to the next object and \<open>nm\<close> stays; anything else ends the command, and nothing else in
  memory has changed.
\<close>

theorem mm_session:
  assumes "120 < CFG_PBSIZE cfg" "2 \<le> CFG_CBSIZE cfg" "length (console_buffer s) = CFG_CBSIZE cfg"
    and "size_spec argv 2 = Inr sz" "argv_num argv 1 = Inr a" "flag AND CMD_FLAG_REPEAT = 0"
    and "unat (a + base_address (mem_cmds s)) mod width sz = 0"
    and "\<forall>t\<in>set ts. typable t \<and> length t \<le> CFG_CBSIZE cfg - 2 \<and> (t = [] \<or> is_number t)"
    and "typable q" "length q \<le> CFG_CBSIZE cfg - 2" "q \<noteq> []" "\<not> is_number q"
    and "con_in s = concat (map (\<lambda>t. t @ [13]) ts) @ q @ 13 # later"
  shows "\<exists>s'. mod_mem cfg cmdtp incrflag flag 2 argv s = Inr (0, s') \<and> con_in s' = later
    \<and> (mm_last_addr (mem_cmds s'), memory s') = mm_mem incrflag sz (a + base_address (mem_cmds s)) ts (memory s)"
proof -
  obtain s' where s': "loop (mod_step cfg incrflag sz) (a + base_address (mem_cmds s), s)
      = Inr (fst (mm_mem incrflag sz (a + base_address (mem_cmds s)) ts (memory s)), s')"
    "memory s' = snd (mm_mem incrflag sz (a + base_address (mem_cmds s)) ts (memory s))" "con_in s' = later"
    using mm_loop [OF assms(1,2) size_spec_size [OF assms(4)] assms(8-12,7,3,13)] by blast
  then show ?thesis using assms(4-6) by (simp add: mod_mem_def Let_def)
qed

theorem mm_session_witness:
  "\<exists>s'. do_mem_mm dnp1110 (hd cmd_tbl) 0 2 [Some (lit ''mm''), Some (lit ''100'')]
      ((reset_sys 0)\<lparr>con_in := lit ''12ab'' @ [13] @ [13] @ lit ''7'' @ [13] @ lit ''.'' @ [13, 65]\<rparr>) = Inr (0, s')
    \<and> con_in s' = [65] \<and> bytes_at (memory s') 0x100 12 = [0xab, 0x12, 0, 0, 0, 0, 0, 0, 7, 0, 0, 0]
    \<and> mm_last_addr (mem_cmds s') = 0x10c"
proof -
  let ?ts = "[lit ''12ab'', [], lit ''7'']"
  let ?s = "(reset_sys 0)\<lparr>con_in := lit ''12ab'' @ [13] @ [13] @ lit ''7'' @ [13] @ lit ''.'' @ [13, 65]\<rparr>"
  let ?v = "[Some (lit ''mm''), Some (lit ''100'')]"
  have a: "size_spec ?v 2 = Inr 4" "fst (simple_strtoul (lit ''100'') 16) = 0x100" by code_simp+
  have v: "argv_num ?v 1 = Inr 0x100" using a(2) by (simp add: argv_num_def argv_str_def)
  have t: "\<forall>t\<in>set ?ts. typable t \<and> length t \<le> CFG_CBSIZE dnp1110 - 2 \<and> (t = [] \<or> is_number t)" by code_simp
  have q: "typable (lit ''.'')" "length (lit ''.'') \<le> CFG_CBSIZE dnp1110 - 2" "lit ''.'' \<noteq> []" "\<not> is_number (lit ''.'')"
    by code_simp+
  have z: "memory ?s = (\<lambda>_. 0)" by (simp add: reset_sys_def)
  have n: "fst (simple_strtoul (lit ''12ab'') 16) = 0x12ab" "fst (simple_strtoul (lit ''7'') 16) = 7"
    "obj_bytes (width 4) 0x12ab = [0xab, 0x12, 0, 0]" "obj_bytes (width 4) 7 = [7, 0, 0, 0]" by code_simp+
  have "lit ''12ab'' \<noteq> []" "lit ''7'' \<noteq> []" by (simp_all add: lit_def)
  then have m: "mm_mem True 4 0x100 ?ts (memory ?s) = (0x10c, store_bytes (store_bytes (\<lambda>_. 0) 0x100 [0xab, 0x12, 0, 0]) 0x108 [7, 0, 0, 0])"
    using n z by (simp del: store_bytes.simps)
  have "\<exists>s'. mod_mem dnp1110 (hd cmd_tbl) True 0 2 ?v ?s = Inr (0, s') \<and> con_in s' = [65]
      \<and> (mm_last_addr (mem_cmds s'), memory s') = mm_mem True 4 (0x100 + base_address (mem_cmds ?s)) ?ts (memory ?s)"
    by (rule mm_session [where q = "lit ''.''"]) (use a v t q in \<open>simp_all add: dnp1110_def reset_sys_def\<close>)
  moreover have "base_address (mem_cmds ?s) = 0" by (simp add: reset_sys_def)
  ultimately obtain s' where "mod_mem dnp1110 (hd cmd_tbl) True 0 2 ?v ?s = Inr (0, s')" "con_in s' = [65]"
    "(mm_last_addr (mem_cmds s'), memory s')
      = (0x10c, store_bytes (store_bytes (\<lambda>_. 0) 0x100 [0xab, 0x12, 0, 0]) 0x108 [7, 0, 0, 0])"
    using m by (metis add.right_neutral)
  then show ?thesis by (intro exI [of _ s']) (simp add: do_mem_mm_def bytes_at_numeral bytes_at_Suc)
qed

theorem md_dumps_and_continues_witness:
  "\<exists>s' s''. do_mem_md dnp1110 (hd cmd_tbl) 0 3 [Some (lit ''md.b''), Some (lit ''100''), Some (lit ''20'')] (reset_sys 0) = Inr (0, s')
    \<and> do_mem_md dnp1110 (hd cmd_tbl) CMD_FLAG_REPEAT 3 [Some (lit ''md.b''), Some (lit ''100''), Some (lit ''20'')] s' = Inr (0, s'')
    \<and> con_out s'' = md_dump dnp1110 1 (\<lambda>_. 0) 0x100 32 @ md_dump dnp1110 1 (\<lambda>_. 0) 0x120 32"
proof -
  let ?v = "[Some (lit ''md.b''), Some (lit ''100''), Some (lit ''20'')]"
  have a: "size_spec ?v 2 = Inr 1" "fst (simple_strtoul (lit ''100'') 16) = 0x100" "fst (simple_strtoul (lit ''20'') 16) = 0x20"
    by code_simp+
  have v: "argv_num ?v 1 = Inr 0x100" "argv_num ?v 2 = Inr 0x20" using a(2,3) by (simp_all add: argv_num_def argv_str_def)
  have "\<exists>s' s''. do_mem_md dnp1110 (hd cmd_tbl) 0 3 ?v (reset_sys 0) = Inr (0, s')
    \<and> con_out s' = con_out (reset_sys 0) @ md_dump dnp1110 1 (memory (reset_sys 0)) 0x100 (unat (0x20 :: u32) * width 1)
    \<and> memory s' = memory (reset_sys 0)
    \<and> do_mem_md dnp1110 (hd cmd_tbl) CMD_FLAG_REPEAT 3 ?v s' = Inr (0, s'')
    \<and> con_out s'' = con_out s' @ md_dump dnp1110 1 (memory (reset_sys 0)) (0x100 + 0x20 * 1) (unat (0x20 :: u32) * width 1)"
    by (rule md_dumps_and_continues [where a = "0x100"]) (use a v in \<open>simp_all add: dnp1110_def reset_sys_def\<close>)
  then show ?thesis by (auto simp: reset_sys_def)
qed

end
