(* ===== verification/Ctime.thy ===== *)
theory Ctime
  imports Console "HOL-Library.Signed_Division"
begin

text \<open>
  The calendar of \<^verbatim>\<open>include/linux/time.h\<close>, which the file system's listing prints times with:
  \<open>mktime\<close>, \<open>localtime_r\<close>, \<open>asctime_r\<close> and \<open>ctime_r\<close>.  Times are seconds since 1970 as a signed 32-bit \<open>long\<close>, here
  an \<open>int\<close>, whose quotient \<open>sdiv\<close> and remainder \<open>smod\<close> are C's.
\<close>

section \<open>From a date to seconds\<close>

definition mktime :: "u32 \<Rightarrow> u32 \<Rightarrow> u32 \<Rightarrow> u32 \<Rightarrow> u32 \<Rightarrow> u32 \<Rightarrow> u32" where
  "mktime year mon day hour mnt sec =
     (let mon = mon - 2;
          (mon, year) = (if 0 \<ge> sint mon then (mon + 12, year - 1) else (mon, year))
      in ((((year div 4 - year div 100 + year div 400 + 367 * mon div 12 + day) + year * 365 - 719499)
            * 24 + hour) * 60 + mnt) * 60 + sec)"

section \<open>From seconds to a date\<close>

record tm =
  tm_sec :: int
  tm_min :: int
  tm_hour :: int
  tm_mday :: int
  tm_mon :: int
  tm_year :: int
  tm_wday :: int
  tm_yday :: int
  tm_isdst :: int

abbreviation (input) SECSPERMIN :: int where "SECSPERMIN \<equiv> 60"
abbreviation (input) SECSPERHOUR :: int where "SECSPERHOUR \<equiv> 3600"
abbreviation (input) SECSPERDAY :: int where "SECSPERDAY \<equiv> 86400"
abbreviation (input) YEAR_BASE :: int where "YEAR_BASE \<equiv> 1900"
abbreviation (input) EPOCH_YEAR :: int where "EPOCH_YEAR \<equiv> 1970"
abbreviation (input) EPOCH_WDAY :: int where "EPOCH_WDAY \<equiv> 4"

definition isleap :: "int \<Rightarrow> bool" where
  "isleap y = (y smod 4 = 0 \<and> y smod 100 \<noteq> 0 \<or> y smod 400 = 0)"

definition mon_lengths :: "bool \<Rightarrow> int list" where
  "mon_lengths leap = [31, if leap then 29 else 28, 31, 30, 31, 30, 31, 31, 30, 31, 30, 31]"

definition year_length :: "int \<Rightarrow> int" where
  "year_length y = (if isleap y then 366 else 365)"

lemma year_length_pos: "365 \<le> year_length y" "0 < year_length y"
  by (simp_all add: year_length_def)

lemma year_length_less: "days + year_length y < 0 \<Longrightarrow> days < 0"
  using year_length_pos(2) [of y] by linarith

text \<open>The loops that bring the remainder into the day: each turns at most once.\<close>

function rem_up :: "int \<Rightarrow> int \<Rightarrow> int \<times> int" where
  "rem_up days r = (if r < 0 then rem_up (days - 1) (r + SECSPERDAY) else (days, r))"
  by pat_completeness auto
termination by (relation "measure (\<lambda>(_, r). nat (- r))") auto

function rem_down :: "int \<Rightarrow> int \<Rightarrow> int \<times> int" where
  "rem_down days r = (if r \<ge> SECSPERDAY then rem_down (days + 1) (r - SECSPERDAY) else (days, r))"
  by pat_completeness auto
termination by (relation "measure (\<lambda>(_, r). nat r)") auto

text \<open>The year, upwards from 1970 or downwards.\<close>

function years_up :: "int \<Rightarrow> int \<Rightarrow> int \<times> int" where
  "years_up y days = (if days < year_length y then (y, days) else years_up (y + 1) (days - year_length y))"
  by pat_completeness auto
termination
  by (relation "measure (\<lambda>(_, days). nat days)") (use year_length_pos in \<open>auto simp: not_less intro: less_le_trans\<close>)

function years_down :: "int \<Rightarrow> int \<Rightarrow> int \<times> int" where
  "years_down y days =
     (let y = y - 1; days = days + year_length y in if days < 0 then years_down y days else (y, days))"
  by pat_completeness auto
termination
  by (relation "measure (\<lambda>(_, days). nat (- days))", simp) (simp add: Let_def year_length_less year_length_pos)

declare rem_up.simps [simp del] rem_down.simps [simp del] years_up.simps [simp del] years_down.simps [simp del]

text \<open>The month, and what is left of the days.\<close>

fun find_month :: "int list \<Rightarrow> int \<Rightarrow> int \<Rightarrow> int \<times> int" where
  "find_month [] mon days = (mon, days)"
| "find_month (l # ls) mon days = (if days \<ge> l then find_month ls (mon + 1) (days - l) else (mon, days))"

definition localtime_r :: "int \<Rightarrow> tm" where
  "localtime_r tim =
     (let (days, r) = rem_up (tim sdiv SECSPERDAY) (tim smod SECSPERDAY);
          (days, r) = rem_down days r;
          hour = r sdiv SECSPERHOUR;
          r = r smod SECSPERHOUR;
          wday = (EPOCH_WDAY + days) smod 7;
          wday = (if wday < 0 then wday + 7 else wday);
          (y, yday) = (if days \<ge> 0 then years_up EPOCH_YEAR days else years_down EPOCH_YEAR days);
          (mon, mday) = find_month (mon_lengths (isleap y)) 0 yday
      in \<lparr>tm_sec = r smod SECSPERMIN, tm_min = r sdiv SECSPERMIN, tm_hour = hour, tm_mday = mday + 1, tm_mon = mon,
          tm_year = y - YEAR_BASE, tm_wday = wday, tm_yday = yday, tm_isdst = -1\<rparr>)"

section \<open>As text\<close>

definition day_name :: "string list" where
  "day_name = [''Sun'', ''Mon'', ''Tue'', ''Wed'', ''Thu'', ''Fri'', ''Sat'']"

definition mon_name :: "string list" where
  "mon_name = [''Jan'', ''Feb'', ''Mar'', ''Apr'', ''May'', ''Jun'', ''Jul'', ''Aug'', ''Sep'', ''Oct'', ''Nov'', ''Dec'']"

text \<open>The names have three characters and no NUL; the precision keeps \<open>sprintf\<close> inside them.\<close>

definition asctime_r :: "tm \<Rightarrow> byte list option" where
  "asctime_r t =
     sprintf (lit ''%.3s %.3s %.2d %.2d:%.2d:%.2d %d\<newline>'')
       [AStr (Some (lit (day_name ! nat (tm_wday t)))), AStr (Some (lit (mon_name ! nat (tm_mon t)))),
        AInt (of_int (tm_mday t)), AInt (of_int (tm_hour t)), AInt (of_int (tm_min t)), AInt (of_int (tm_sec t)),
        AInt (of_int (1900 + tm_year t))]"

definition ctime_r :: "int \<Rightarrow> byte list option" where
  "ctime_r tim = asctime_r (localtime_r tim)"

section \<open>The calendar\<close>

text \<open>The days before a year, from the beginning of the Gregorian count.\<close>

definition days_before :: "int \<Rightarrow> int" where
  "days_before y = 365 * y + (y - 1) div 4 - (y - 1) div 100 + (y - 1) div 400"

lemma smod_eq_0: "(y :: int) smod k = 0 \<longleftrightarrow> y mod k = 0"
  by (auto simp: smod_int_alt_def sgn_eq_0_iff mod_eq_0_iff_dvd)

lemma div_step:
  assumes "0 < (k :: int)"
  shows "y div k = (y - 1) div k + of_bool (y mod k = 0)"
proof -
  have y: "y = k * (y div k) + y mod k" "0 \<le> y mod k" "y mod k < k" using assms by simp_all
  show ?thesis
  proof (cases "y mod k = 0")
    case True
    then have "y - 1 = k * (y div k - 1) + (k - 1)" using y(1) by (simp add: algebra_simps)
    then have "(y - 1) div k = y div k - 1" by (rule int_div_pos_eq) (use assms in simp_all)
    then show ?thesis using True by simp
  next
    case False
    then have "y - 1 = k * (y div k) + (y mod k - 1)" "0 \<le> y mod k - 1" using y by linarith+
    then have "(y - 1) div k = y div k" using y(3) int_div_pos_eq [of "y - 1" k "y div k" "y mod k - 1"] by simp
    then show ?thesis using False by simp
  qed
qed

lemma isleap_mod: "isleap y \<longleftrightarrow> y mod 4 = 0 \<and> y mod 100 \<noteq> 0 \<or> y mod 400 = 0"
  by (simp add: isleap_def smod_eq_0)

lemma days_before_next: "days_before (y + 1) = days_before y + year_length y"
proof -
  define a b c where "a = (y - 1) div 4" and "b = (y - 1) div 100" and "c = (y - 1) div 400"
  define p q r where "p = (y mod 4 = 0)" and "q = (y mod 100 = 0)" and "r = (y mod 400 = 0)"
  have pqr: "r \<Longrightarrow> q" "q \<Longrightarrow> p" unfolding p_def q_def r_def mod_eq_0_iff_dvd
    by (erule dvd_trans [rotated], simp)+
  have d: "y div 4 = a + of_bool p" "y div 100 = b + of_bool q" "y div 400 = c + of_bool r"
    unfolding a_def b_def c_def p_def q_def r_def by (rule div_step, simp)+
  have "days_before (y + 1) = 365 * (y + 1) + (a + of_bool p) - (b + of_bool q) + (c + of_bool r)"
    unfolding days_before_def d [symmetric] by simp
  moreover have "days_before y = 365 * y + a - b + c" by (simp only: days_before_def a_def b_def c_def)
  moreover have "isleap y \<longleftrightarrow> p \<and> \<not> q \<or> r" by (simp only: isleap_mod p_def q_def r_def)
  ultimately show ?thesis using pqr by (auto simp: year_length_def)
qed

lemma days_before_mono: "y \<le> y' \<Longrightarrow> 365 * (y' - y) \<le> days_before y' - days_before y"
proof (induction y' rule: int_ge_induct)
  case (step y')
  then show ?case using days_before_next [of y'] year_length_pos(1) [of y'] by (simp add: algebra_simps)
qed simp

lemma years_up_date:
  assumes "years_up y days = (y', d)" "0 \<le> days"
  shows "0 \<le> d \<and> d < year_length y' \<and> days_before y' + d = days_before y + days \<and> y \<le> y'"
  using assms
proof (induction y days rule: years_up.induct)
  case (1 y days)
  then show ?case
    using days_before_next [of y] by (cases "days < year_length y") (auto simp: years_up.simps [of y])
qed

lemma years_down_date:
  assumes "years_down y days = (y', d)" "days < 0"
  shows "0 \<le> d \<and> d < year_length y' \<and> days_before y' + d = days_before y + days \<and> y' \<le> y"
  using assms
proof (induction y days rule: years_down.induct)
  case (1 y days)
  show ?case
    using days_before_next [of "y - 1"] "1.IH" [OF refl refl] "1.prems"
    by (cases "days + year_length (y - 1) < 0") (auto simp: years_down.simps [of y] Let_def less_imp_le)
qed

text \<open>The days that \<open>mktime\<close> counts, without bounds.\<close>

definition gauss_days :: "int \<Rightarrow> int \<Rightarrow> int \<Rightarrow> int" where
  "gauss_days y m d =
     (let (m, y) = (if m \<le> 2 then (m + 10, y - 1) else (m - 2, y))
      in y div 4 - y div 100 + y div 400 + 367 * m div 12 + d + y * 365 - 719499)"

lemma find_month_date:
  assumes "0 \<le> d" "d < year_length y" "find_month (mon_lengths (isleap y)) 0 d = (mon, md)"
  shows "0 \<le> mon \<and> mon \<le> 11 \<and> 0 \<le> md \<and> md \<le> 30 \<and> gauss_days y (mon + 1) (md + 1) = days_before y + d - days_before 1970"
proof -
  have l: "y div 4 - y div 100 + y div 400 = days_before y - 365 * y + of_bool (isleap y)"
    using days_before_next [of y] by (cases "isleap y") (simp_all add: days_before_def year_length_def)
  have p: "(y - 1) div 4 - (y - 1) div 100 + (y - 1) div 400 = days_before y - 365 * y"
    by (simp add: days_before_def)
  have e: "days_before 1970 = 719527" by (simp add: days_before_def)
  have g: "gauss_days y m k = (if m \<le> 2 then days_before y - 365 * y + 367 * (m + 10) div 12 + k + (y - 1) * 365 - 719499
      else days_before y - 365 * y + of_bool (isleap y) + 367 * (m - 2) div 12 + k + y * 365 - 719499)" for m k
    by (cases "m \<le> 2") (simp_all only: gauss_days_def Let_def if_True if_False prod.case l p)
  show ?thesis
    using assms unfolding g e
    by (cases "isleap y") (auto simp: mon_lengths_def year_length_def split: if_splits)
qed

section \<open>The two conversions agree\<close>

lemma day_split:
  "rem_up (t sdiv SECSPERDAY) (t smod SECSPERDAY) = (t div SECSPERDAY, t mod SECSPERDAY)"
proof -
  have r: "rem_up d r = (d, r)" if "0 \<le> r" for d r using that by (simp add: rem_up.simps [of d])
  show ?thesis
  proof (cases "0 \<le> t \<or> SECSPERDAY dvd t")
    case True
    then show ?thesis
      by (auto simp: signed_divide_int_eq_divide_int signed_modulo_int_eq_modulo_int sgn_if intro!: r)
  next
    case False
    then have "t sdiv SECSPERDAY = t div SECSPERDAY + 1" "t smod SECSPERDAY = t mod SECSPERDAY - SECSPERDAY"
      by (simp_all add: signed_divide_int_eq_divide_int signed_modulo_int_eq_modulo_int)
    then show ?thesis using r [of "t mod SECSPERDAY" "t div SECSPERDAY"]
      by (simp add: rem_up.simps [of _ "t mod SECSPERDAY - SECSPERDAY"])
  qed
qed

lemma sdiv_pos: "0 \<le> (x :: int) \<Longrightarrow> 0 < k \<Longrightarrow> x sdiv k = x div k" "0 \<le> (x :: int) \<Longrightarrow> 0 < k \<Longrightarrow> x smod k = x mod k"
  by (simp_all add: signed_divide_int_def signed_modulo_int_def sgn_if)

lemma localtime_fields:
  assumes "- (2 ^ 31) \<le> t" "t < 2 ^ 31"
  defines "c \<equiv> localtime_r t"
  shows "\<exists>y. tm_year c = y - 1900 \<and> 1900 \<le> y \<and> y \<le> 2040 \<and> 0 \<le> tm_mon c \<and> tm_mon c \<le> 11
    \<and> 1 \<le> tm_mday c \<and> tm_mday c \<le> 31
    \<and> gauss_days y (tm_mon c + 1) (tm_mday c) = t div 86400
    \<and> tm_hour c = t mod 86400 div 3600 \<and> tm_min c = t mod 3600 div 60 \<and> tm_sec c = t mod 60"
proof -
  let ?D = "t div 86400" and ?r = "t mod 86400"
  have D: "- 24856 \<le> ?D" "?D \<le> 24855" using assms(1,2) by auto
  have r: "0 \<le> ?r" "?r < 86400" by simp_all
  have "\<not> SECSPERDAY \<le> ?r" using r(2) by (simp only: not_le)
  then have down: "rem_down ?D ?r = (?D, ?r)" by (simp only: rem_down.simps [of ?D ?r] if_False)
  obtain y d where yd: "(if 0 \<le> ?D then years_up EPOCH_YEAR ?D else years_down EPOCH_YEAR ?D) = (y, d)" by fastforce
  then have d: "0 \<le> d" "d < year_length y" "days_before y + d = days_before 1970 + ?D"
    using years_up_date [of 1970 ?D y d] years_down_date [of 1970 ?D y d] by (auto split: if_splits)
  have len: "year_length y \<le> 366" by (simp add: year_length_def)
  have y: "1900 \<le> y \<and> y \<le> 2040"
  proof (cases "y \<le> 1970")
    case True
    then show ?thesis using d D len days_before_mono [OF True] by simp
  next
    case False
    then show ?thesis using d D len days_before_mono [of 1970 y] by simp
  qed
  obtain mon md where m: "find_month (mon_lengths (isleap y)) 0 d = (mon, md)" by fastforce
  note g = find_month_date [OF d(1,2) m]
  have c: "c = \<lparr>tm_sec = ?r smod 3600 smod 60, tm_min = ?r smod 3600 sdiv 60, tm_hour = ?r sdiv 3600, tm_mday = md + 1,
      tm_mon = mon, tm_year = y - 1900, tm_wday = (if (4 + ?D) smod 7 < 0 then (4 + ?D) smod 7 + 7 else (4 + ?D) smod 7),
      tm_yday = d, tm_isdst = -1\<rparr>"
    unfolding c_def localtime_r_def day_split Let_def prod.case down yd m by (rule refl)
  have "?r sdiv 3600 = ?r div 3600" "?r smod 3600 = ?r mod 3600" using r by (simp_all only: sdiv_pos)
  moreover have "?r mod 3600 sdiv 60 = ?r mod 3600 div 60" "?r mod 3600 smod 60 = ?r mod 3600 mod 60"
    by (simp_all add: sdiv_pos)
  moreover have "?r mod 3600 = t mod 3600" "t mod 3600 mod 60 = t mod 60" by (simp_all add: mod_mod_cancel)
  ultimately have "tm_sec c = t mod 60" "tm_min c = t mod 3600 div 60" "tm_hour c = ?r div 3600" "tm_mday c = md + 1"
    "tm_mon c = mon" "tm_year c = y - 1900"
    unfolding c tm.select_convs by (simp_all only:)
  then show ?thesis using y g d(3) by (intro exI [of _ y]) simp
qed

lemma word_div_int:
  assumes "0 \<le> x" "x < 2 ^ 32" "0 < k" "k < 2 ^ 32"
  shows "(of_int x :: u32) div of_int k = of_int (x div k)"
proof -
  have "x div k \<le> x" using assms zdiv_mono2 [of x 1 k] by simp
  then have "uint (of_int (x div k) :: u32) = x div k"
    using assms by (simp add: uint_word_of_int_eq take_bit_int_eq_self pos_imp_zdiv_nonneg_iff)
  then show ?thesis using assms
    by (simp add: word_uint_eq_iff uint_div_distrib uint_word_of_int_eq take_bit_int_eq_self)
qed

lemma mktime_days:
  assumes "1900 \<le> y" "y \<le> 2040" "1 \<le> m" "m \<le> 12"
  shows "mktime (of_int y) (of_int m) (of_int d) (of_int hour) (of_int mnt) (of_int sec)
    = of_int (((gauss_days y m d * 24 + hour) * 60 + mnt) * 60 + sec)"
proof -
  have s: "sint (of_int (m - 2) :: u32) = m - 2"
    unfolding signed_of_int using assms(3,4) by (simp add: signed_take_bit_int_eq_self)
  let ?m = "if m \<le> 2 then m + 10 else m - 2" and ?y = "if m \<le> 2 then y - 1 else y"
  have "(if 0 \<ge> sint (of_int m - 2 :: u32) then (of_int m - 2 + 12, of_int y - 1) else (of_int m - 2, of_int y))
      = (of_int ?m :: u32, of_int ?y :: u32)"
    using s by (simp add: algebra_simps)
  moreover have "of_int ?y div (4 :: u32) = of_int (?y div 4)" "of_int ?y div (100 :: u32) = of_int (?y div 100)"
    "of_int ?y div (400 :: u32) = of_int (?y div 400)"
    using assms word_div_int [of ?y 4] word_div_int [of ?y 100] word_div_int [of ?y 400] by simp_all
  moreover have "367 * of_int ?m div (12 :: u32) = of_int (367 * ?m div 12)"
    using assms word_div_int [of "367 * ?m" 12] by simp
  moreover have "gauss_days y m d = ?y div 4 - ?y div 100 + ?y div 400 + 367 * ?m div 12 + d + ?y * 365 - 719499"
    by (simp add: gauss_days_def)
  ultimately show ?thesis unfolding mktime_def Let_def by simp
qed

text \<open>
  C36: \<open>mktime\<close> of the date that \<open>localtime_r\<close> gives is the time again, for every time a signed 32-bit \<open>time_t\<close>
  holds, before and after 1970, leap years included.
\<close>

theorem mktime_localtime:
  assumes "- (2 ^ 31) \<le> t" "t < 2 ^ 31"
  shows "mktime (of_int (1900 + tm_year (localtime_r t))) (of_int (tm_mon (localtime_r t) + 1)) (of_int (tm_mday (localtime_r t)))
      (of_int (tm_hour (localtime_r t))) (of_int (tm_min (localtime_r t))) (of_int (tm_sec (localtime_r t))) = of_int t"
proof -
  let ?c = "localtime_r t"
  obtain y where y: "tm_year ?c = y - 1900" "1900 \<le> y" "y \<le> 2040" "0 \<le> tm_mon ?c" "tm_mon ?c \<le> 11"
    "gauss_days y (tm_mon ?c + 1) (tm_mday ?c) = t div 86400"
    "tm_hour ?c = t mod 86400 div 3600" "tm_min ?c = t mod 3600 div 60" "tm_sec ?c = t mod 60"
    using localtime_fields [OF assms] by blast
  have "t mod 86400 mod 3600 = t mod 3600" "t mod 3600 mod 60 = t mod 60" by (simp_all add: mod_mod_cancel)
  then have "t = t div 86400 * 86400 + (t mod 86400 div 3600 * 3600 + (t mod 3600 div 60 * 60 + t mod 60))"
    by (metis div_mult_mod_eq)
  then have "((t div 86400 * 24 + t mod 86400 div 3600) * 60 + t mod 3600 div 60) * 60 + t mod 60 = t"
    by (simp add: distrib_right)
  moreover have "1900 + tm_year ?c = y" using y(1) by simp
  ultimately show ?thesis
    using mktime_days [OF y(2,3), of "tm_mon ?c + 1" "tm_mday ?c" "tm_hour ?c" "tm_min ?c" "tm_sec ?c"] y(4,5)
    by (simp only: y(6-9))
qed

text \<open>The last day of February 2000, just before midnight.\<close>

theorem mktime_localtime_witness:
  "mktime (of_int (1900 + tm_year (localtime_r 951868799))) (of_int (tm_mon (localtime_r 951868799) + 1))
      (of_int (tm_mday (localtime_r 951868799))) (of_int (tm_hour (localtime_r 951868799)))
      (of_int (tm_min (localtime_r 951868799))) (of_int (tm_sec (localtime_r 951868799))) = 951868799"
  using mktime_localtime [of 951868799] by simp

end
