(* ===== verification/Jffs2.thy ===== *)
theory Jffs2
  imports Compr Inflate Ctime FlashCmd
begin

text \<open>
  The flash file system: \<^verbatim>\<open>fs/jffs2/jffs2_1pass.c\<close>, \<^verbatim>\<open>fs/jffs2/jffs2_private.h\<close>,
  \<^verbatim>\<open>include/jffs2/jffs2.h\<close> and its commands \<^verbatim>\<open>common/cmd_jffs2.c\<close>.  One pass over the partition collects
  the addresses of the directory entries and of the file fragments; every operation then searches these
  two lists.  The lists are linked lists that only ever grow at the end: here HOL lists of addresses.
\<close>

section \<open>Nodes\<close>

abbreviation (input) JFFS2_MAGIC_BITMASK :: u32 where "JFFS2_MAGIC_BITMASK \<equiv> 0x1985"
abbreviation (input) JFFS2_EMPTY_BITMASK :: u32 where "JFFS2_EMPTY_BITMASK \<equiv> 0xffff"
abbreviation (input) JFFS2_NODETYPE_DIRENT :: u32 where "JFFS2_NODETYPE_DIRENT \<equiv> 0xe001"
abbreviation (input) JFFS2_NODETYPE_INODE :: u32 where "JFFS2_NODETYPE_INODE \<equiv> 0xe002"
abbreviation (input) JFFS2_NODETYPE_CLEANMARKER :: u32 where "JFFS2_NODETYPE_CLEANMARKER \<equiv> 0x2003"

abbreviation (input) JFFS2_COMPR_NONE :: byte where "JFFS2_COMPR_NONE \<equiv> 0"
abbreviation (input) JFFS2_COMPR_ZERO :: byte where "JFFS2_COMPR_ZERO \<equiv> 1"
abbreviation (input) JFFS2_COMPR_RTIME :: byte where "JFFS2_COMPR_RTIME \<equiv> 2"
abbreviation (input) JFFS2_COMPR_DYNRUBIN :: byte where "JFFS2_COMPR_DYNRUBIN \<equiv> 5"
abbreviation (input) JFFS2_COMPR_ZLIB :: byte where "JFFS2_COMPR_ZLIB \<equiv> 6"
abbreviation (input) JFFS2_NUM_COMPR :: nat where "JFFS2_NUM_COMPR \<equiv> 7"

abbreviation (input) DT_LNK :: byte where "DT_LNK \<equiv> 10"

text \<open>The packed structures, read from where they lie.\<close>

record unknown_node =
  un_magic :: u32
  un_nodetype :: u32
  un_totlen :: u32
  un_hdr_crc :: u32

record raw_dirent =
  rd_pino :: u32
  rd_version :: u32
  rd_ino :: u32
  rd_nsize :: nat
  rd_type :: byte
  rd_node_crc :: u32
  rd_name_crc :: u32
  rd_name :: "byte list"

record raw_inode =
  ri_ino :: u32
  ri_version :: u32
  ri_mode :: u32
  ri_isize :: u32
  ri_mtime :: u32
  ri_offset :: u32
  ri_csize :: u32
  ri_dsize :: u32
  ri_compr :: byte
  ri_node_crc :: u32

definition unknown_at :: "mem \<Rightarrow> addr \<Rightarrow> unknown_node" where
  "unknown_at m a =
     (let b = bytes_at m a 12
      in \<lparr>un_magic = ld16 b 0, un_nodetype = ld16 b 2, un_totlen = ld32 b 4, un_hdr_crc = ld32 b 8\<rparr>)"

definition dirent_at :: "mem \<Rightarrow> addr \<Rightarrow> raw_dirent" where
  "dirent_at m a =
     (let b = bytes_at m a 40
      in \<lparr>rd_pino = ld32 b 12, rd_version = ld32 b 16, rd_ino = ld32 b 20, rd_nsize = unat (b ! 28), rd_type = b ! 29,
          rd_node_crc = ld32 b 32, rd_name_crc = ld32 b 36, rd_name = bytes_at m (a + 40) (unat (b ! 28))\<rparr>)"

definition inode_at :: "mem \<Rightarrow> addr \<Rightarrow> raw_inode" where
  "inode_at m a =
     (let b = bytes_at m a 68
      in \<lparr>ri_ino = ld32 b 12, ri_version = ld32 b 16, ri_mode = ld32 b 20, ri_isize = ld32 b 28, ri_mtime = ld32 b 36,
          ri_offset = ld32 b 44, ri_csize = ld32 b 48, ri_dsize = ld32 b 52, ri_compr = b ! 56, ri_node_crc = ld32 b 64\<rparr>)"

text \<open>The four checksums; \<open>crc32_no_comp\<close> takes the address 0 for a NULL pointer.\<close>

definition crc_at :: "mem \<Rightarrow> addr \<Rightarrow> nat \<Rightarrow> u32" where
  "crc_at m a n = crc32_no_comp 0 (if a = 0 then None else Some (bytes_at m a n))"

definition hdr_crc :: "mem \<Rightarrow> addr \<Rightarrow> bool" where
  "hdr_crc m node = (un_hdr_crc (unknown_at m node) = crc_at m node (12 - 4))"

definition dirent_crc :: "mem \<Rightarrow> addr \<Rightarrow> bool" where
  "dirent_crc m node = (rd_node_crc (dirent_at m node) = crc_at m node (40 - 8))"

definition dirent_name_crc :: "mem \<Rightarrow> addr \<Rightarrow> bool" where
  "dirent_name_crc m node = (rd_name_crc (dirent_at m node) = crc_at m (node + 40) (rd_nsize (dirent_at m node)))"

definition inode_crc :: "mem \<Rightarrow> addr \<Rightarrow> bool" where
  "inode_crc m node = (ri_node_crc (inode_at m node) = crc_at m node (68 - 8))"

section \<open>The lists\<close>

record part_info =
  pi_size :: u32
  pi_offset :: addr

text \<open>
  \<^verbatim>\<open>struct b_lists\<close>: the heads, tails and \<open>next\<close> pointers are the lists \<open>dirList\<close> and \<open>fragList\<close> of the nodes'
  \<open>offset\<close> fields.
\<close>

record b_lists =
  partOffset :: addr
  dirList :: "addr list"
  dirListCount :: nat
  fragList :: "addr list"
  fragListCount :: nat

definition jffs_init_1pass_list :: "b_lists \<Rightarrow> b_lists" where
  "jffs_init_1pass_list pL = \<lparr>partOffset = 0, dirList = [], dirListCount = 0, fragList = [], fragListCount = 0\<rparr>"

text \<open>What the environment provides: \<open>malloc\<close>, the stack the inflater finds its arrays on, the configuration.\<close>

record jffs2_env =
  chunk_ok :: "nat \<Rightarrow> bool"
  stack_junk :: "nat \<Rightarrow> int"
  CFG_JFFS2_FIRST_BANK :: nat
  CFG_JFFS2_NUM_BANKS :: nat
  CFG_JFFS2_FIRST_SECTOR :: nat
  CFG_LOAD_ADDR :: u32

abbreviation (input) MALLOC_CHUNK :: nat where "MALLOC_CHUNK \<equiv> 10240"

text \<open>
  \<open>add_node\<close>: whether there is room for one node more.  The nodes have 8 bytes; where a chunk begins, \<open>malloc\<close> is
  asked for it, and \<open>chunk_ok\<close> tells for the number of nodes whether it gets one.
\<close>

definition add_node :: "config \<Rightarrow> jffs2_env \<Rightarrow> nat \<Rightarrow> sys \<Rightarrow> bool result" where
  "add_node cfg je count s =
     (let index = count * 8 mod MALLOC_CHUNK in
      if index = 0 \<and> \<not> chunk_ok je count then
        sbind (printf cfg (lit ''%s'') [AStr (Some (lit ''add_node: malloc failed\<newline>''))] s) (\<lambda>(_, s). Inr (False, s))
      else Inr (True, s))"

abbreviation (input) putstr :: "config \<Rightarrow> byte list \<Rightarrow> sys \<Rightarrow> unit result" where
  "putstr cfg t s \<equiv> printf cfg (lit ''%s'') [AStr (Some t)] s"

abbreviation (input) putnstr :: "config \<Rightarrow> byte list \<Rightarrow> u32 \<Rightarrow> sys \<Rightarrow> unit result" where
  "putnstr cfg t n s \<equiv> printf cfg (lit ''%*.*s'') [AInt n, AInt n, AStr (Some (cstr_of t))] s"

abbreviation (input) putLabeledWord :: "config \<Rightarrow> string \<Rightarrow> u32 \<Rightarrow> sys \<Rightarrow> unit result" where
  "putLabeledWord cfg x y s \<equiv> printf cfg (lit ''%s %08x\<newline>'') [AStr (Some (lit x)), AInt y] s"

section \<open>The scan\<close>

text \<open>One turn of \<open>jffs2_scan_empty\<close>: \<open>start_offset\<close> and \<open>offset\<close>, or what is returned.\<close>

definition scan_empty_step :: "mem \<Rightarrow> part_info \<Rightarrow> u32 \<times> u32 \<Rightarrow> stop + (u32 \<times> u32) + u32" where
  "scan_empty_step m part st =
     (case st of (start_offset, offset) \<Rightarrow>
        if offset < pi_size part - 68 then
          let node = pi_offset part + offset in
          if word_at m node = 0xFFFFFFFF \<and> word_at m (node + 4) = 0xFFFFFFFF
          then Inr (Inl (offset + 4, offset + 4 + 32))
          else Inr (Inr start_offset)
        else Inr (Inr start_offset))"

definition jffs2_scan_empty :: "mem \<Rightarrow> u32 \<Rightarrow> part_info \<Rightarrow> stop + u32" where
  "jffs2_scan_empty m start_offset part = loop (scan_empty_step m part) (start_offset + 4, start_offset + 32)"

definition spinner :: "byte list" where
  "spinner = lit ''|'' @ [0x5c] @ lit ''-/''"

record scan_state =
  sc_offset :: u32
  sc_counter :: u32
  sc_counterN :: u32
  sc_lists :: b_lists

text \<open>What is done with a node whose header is sound; False where the scan gives up.\<close>

definition scan_node :: "config \<Rightarrow> jffs2_env \<Rightarrow> addr \<Rightarrow> scan_state \<Rightarrow> sys \<Rightarrow> (bool \<times> scan_state) result" where
  "scan_node cfg je node st s =
     (let u = unknown_at (memory s) node; pL = sc_lists st;
          fail = (\<lambda>s. sbind (putstr cfg (lit ''add_node failed!'' @ [13, 10]) s) (\<lambda>(_, s). Inr ((False, st), s))) in
      if un_nodetype u = JFFS2_NODETYPE_INODE \<and> inode_crc (memory s) node then
        sbind (add_node cfg je (fragListCount pL) s) (\<lambda>(ok, s).
          if \<not> ok then fail s
          else Inr ((True, st\<lparr>sc_lists := pL\<lparr>fragList := fragList pL @ [node], fragListCount := fragListCount pL + 1\<rparr>\<rparr>), s))
      else if un_nodetype u = JFFS2_NODETYPE_DIRENT \<and> dirent_crc (memory s) node \<and> dirent_name_crc (memory s) node then
        sbind (if sc_counterN st mod 100 = 0 then printf cfg ([8, 8] @ lit ''.  '') [] s else Inr ((), s)) (\<lambda>(_, s).
        sbind (add_node cfg je (dirListCount pL) s) (\<lambda>(ok, s).
          if \<not> ok then fail s
          else Inr ((True, st\<lparr>sc_lists := pL\<lparr>dirList := dirList pL @ [node], dirListCount := dirListCount pL + 1\<rparr>,
                              sc_counterN := sc_counterN st + 1\<rparr>), s)))
      else if un_nodetype u = JFFS2_NODETYPE_CLEANMARKER then
        if un_totlen u \<noteq> 12 then
          sbind (printf cfg (lit ''OOPS Cleanmarker has bad size %d != %d\<newline>'') [AInt (un_totlen u), AInt 12] s)
            (\<lambda>(_, s). Inr ((True, st), s))
        else Inr ((True, st), s)
      else
        sbind (printf cfg (lit ''Unknown node type: %x len %d offset 0x%lx\<newline>'')
                 [AInt (un_nodetype u), AInt (un_totlen u), AInt (sc_offset st)] s) (\<lambda>(_, s). Inr ((True, st), s)))"

text \<open>One turn of the scan; the value at the end is what \<open>jffs2_1pass_build_lists\<close> returns.\<close>

definition scan_step ::
  "config \<Rightarrow> jffs2_env \<Rightarrow> part_info \<Rightarrow> scan_state \<times> sys \<Rightarrow> stop + (scan_state \<times> sys) + ((bool \<times> b_lists) \<times> sys)" where
  "scan_step cfg je part sts =
     (case sts of (st, s) \<Rightarrow>
        if sc_offset st < pi_size part - 68 then
          let st = st\<lparr>sc_counter := sc_counter st + 1\<rparr>; n = sc_counter st in
          sbind (if n mod 10000 = 0
                 then printf cfg ([8, 8] @ lit ''%c '') [AInt (ucast (spinner ! unat (n div 10000 mod 4)))] s
                 else Inr ((), s)) (\<lambda>(_, s).
          let node = pi_offset part + sc_offset st; u = unknown_at (memory s) node in
          if un_magic u = JFFS2_MAGIC_BITMASK \<and> hdr_crc (memory s) node then
            sbind (scan_node cfg je node st s) (\<lambda>((ok, st), s).
              if \<not> ok then Inr (Inr ((False, sc_lists st), s))
              else Inr (Inl (st\<lparr>sc_offset := sc_offset st + ((un_totlen u + 3) AND NOT 3)\<rparr>, s)))
          else if un_magic u = JFFS2_EMPTY_BITMASK \<and> un_nodetype u = JFFS2_EMPTY_BITMASK then
            sbind (jffs2_scan_empty (memory s) (sc_offset st) part) (\<lambda>offset. Inr (Inl (st\<lparr>sc_offset := offset\<rparr>, s)))
          else Inr (Inl (st\<lparr>sc_offset := sc_offset st + 4\<rparr>, s)))
        else
          sbind (putstr cfg ([8, 8] @ lit '' done.'' @ [13, 10]) s) (\<lambda>(_, s). Inr (Inr ((True, sc_lists st), s))))"

definition jffs2_1pass_build_lists :: "config \<Rightarrow> jffs2_env \<Rightarrow> part_info \<Rightarrow> b_lists \<Rightarrow> sys \<Rightarrow> (bool \<times> b_lists) result" where
  "jffs2_1pass_build_lists cfg je part pL s =
     (let pL = jffs_init_1pass_list pL\<lparr>partOffset := pi_offset part\<rparr> in
      sbind (printf cfg (lit ''Scanning JFFS2 FS:   '') [] s) (\<lambda>(_, s).
        loop (scan_step cfg je part) (\<lparr>sc_offset = 0, sc_counter = 0, sc_counterN = 0, sc_lists = pL\<rparr>, s)))"

definition jffs2_1pass_rescan_needed :: "mem \<Rightarrow> part_info \<Rightarrow> b_lists \<Rightarrow> bool" where
  "jffs2_1pass_rescan_needed m part pL =
     (fragListCount pL = 0 \<or> partOffset pL \<noteq> pi_offset part
      \<or> (\<exists>b\<in>set (dirList pL). un_nodetype (unknown_at m b) \<noteq> JFFS2_NODETYPE_DIRENT))"

text \<open>None in place of the lists is the NULL pointer.\<close>

definition jffs2_get_list ::
  "config \<Rightarrow> jffs2_env \<Rightarrow> part_info \<Rightarrow> string \<Rightarrow> b_lists \<Rightarrow> sys \<Rightarrow> (bool \<times> b_lists) result" where
  "jffs2_get_list cfg je part who pL s =
     (if jffs2_1pass_rescan_needed (memory s) part pL then
        sbind (jffs2_1pass_build_lists cfg je part pL s) (\<lambda>((ok, pL), s).
          if \<not> ok then
            sbind (printf cfg (lit ''%s: Failed to scan JFFSv2 file structure\<newline>'') [AStr (Some (lit who))] s)
              (\<lambda>(_, s). Inr ((False, pL), s))
          else Inr ((True, pL), s))
      else Inr ((True, pL), s))"

section \<open>Reading a file\<close>

text \<open>
  The variables of \<open>jffs2_1pass_read_inode\<close>.  \<open>fragment\<close> is the \<open>switch\<close>: the memory with the fragment's data, or None for
  a compression it does not know.
\<close>

record read_state =
  rs_totalSize :: u32
  rs_oldTotalSize :: u32
  rs_size :: u32
  rs_totalSizeSet :: bool

definition fragment :: "jffs2_env \<Rightarrow> raw_inode \<Rightarrow> addr \<Rightarrow> addr \<Rightarrow> mem \<Rightarrow> stop + mem option" where
  "fragment je jNode src lDest m =
     (let compr = ri_compr jNode in
      if compr = JFFS2_COMPR_NONE then Inr (Some (fst (memcpy m lDest src (ri_dsize jNode))))
      else if compr = JFFS2_COMPR_ZERO then Inr (Some (store_bytes m lDest (replicate (unat (ri_dsize jNode)) 0)))
      else if compr = JFFS2_COMPR_RTIME then Inr (Some (rtime_decompress src lDest (ri_csize jNode) (ri_dsize jNode) m))
      else if compr = JFFS2_COMPR_DYNRUBIN then
        sbind (dynrubin_decompress src lDest (ri_csize jNode) (ri_dsize jNode) m) (\<lambda>m. Inr (Some m))
      else if compr = JFFS2_COMPR_ZLIB then
        sbind (zlib_decompress (stack_junk je) src lDest (ri_csize jNode) (ri_dsize jNode) m) (\<lambda>(ret, m). Inr (Some m))
      else Inr None)"

definition read_sizes :: "raw_inode \<Rightarrow> read_state \<Rightarrow> read_state" where
  "read_sizes jNode r =
     (let r = (if ri_isize jNode = rs_oldTotalSize r \<and> rs_totalSize r < ri_isize jNode
               then r\<lparr>rs_totalSize := ri_isize jNode, rs_totalSizeSet := True\<rparr>
               else if \<not> rs_totalSizeSet r then r\<lparr>rs_totalSize := rs_size r + ri_dsize jNode + 1\<rparr> else r)
      in r\<lparr>rs_oldTotalSize := ri_isize jNode\<rparr>)"

primrec read_frags :: "config \<Rightarrow> jffs2_env \<Rightarrow> u32 \<Rightarrow> addr \<Rightarrow> addr list \<Rightarrow> read_state \<Rightarrow> sys \<Rightarrow> u32 result" where
  "read_frags cfg je inode dest [] r s = Inr (rs_size r, s)"
| "read_frags cfg je inode dest (b # bs) r s =
     (if rs_size r < rs_totalSize r then
        let jNode = inode_at (memory s) b in
        if inode = ri_ino jNode then
          let r = read_sizes jNode r in
          sbind (if dest \<noteq> 0 then fragment je jNode (b + 68) (dest + ri_offset jNode) (memory s) else Inr (Some (memory s)))
            (\<lambda>mo. case mo of
               None \<Rightarrow>
                 sbind (putLabeledWord cfg ''UNKOWN COMPRESSION METHOD = '' (ucast (ri_compr jNode)) s) (\<lambda>(_, s). Inr (-1, s))
             | Some m \<Rightarrow>
                 read_frags cfg je inode dest bs (r\<lparr>rs_size := rs_size r + ri_dsize jNode\<rparr>) (s\<lparr>memory := m\<rparr>))
        else read_frags cfg je inode dest bs r s
      else Inr (rs_size r, s))"

text \<open>\<open>dest\<close> 0 is the NULL pointer: the sizes are added up and nothing is written.\<close>

definition jffs2_1pass_read_inode :: "config \<Rightarrow> jffs2_env \<Rightarrow> b_lists \<Rightarrow> u32 \<Rightarrow> addr \<Rightarrow> sys \<Rightarrow> u32 result" where
  "jffs2_1pass_read_inode cfg je pL inode dest s =
     read_frags cfg je inode dest (fragList pL)
       \<lparr>rs_totalSize = 1, rs_oldTotalSize = 0, rs_size = 0, rs_totalSizeSet = False\<rparr> s"

section \<open>Directories\<close>

text \<open>
  The entries of a directory that have the name; \<open>name\<close> has no NUL, so comparing \<open>len\<close> characters with \<open>strncmp\<close> is
  comparing the bytes.
\<close>

definition dir_match :: "byte list \<Rightarrow> u32 \<Rightarrow> raw_dirent \<Rightarrow> bool" where
  "dir_match name pino jDir = (pino = rd_pino jDir \<and> length name = rd_nsize jDir \<and> rd_ino jDir \<noteq> 0 \<and> rd_name jDir = name)"

text \<open>What is said of a version that is 0 or has been seen.\<close>

definition version_notes :: "config \<Rightarrow> string \<Rightarrow> string \<Rightarrow> raw_dirent \<Rightarrow> u32 \<Rightarrow> sys \<Rightarrow> unit result" where
  "version_notes cfg zero dup jDir version s =
     (if rd_version jDir = 0 then
        sbind (putstr cfg (lit '' ** WARNING ** '') s) (\<lambda>(_, s).
        sbind (putnstr cfg (rd_name jDir) (of_nat (rd_nsize jDir)) s) (\<lambda>(_, s).
          putstr cfg (lit zero @ [13, 10]) s))
      else if rd_version jDir = version then
        sbind (putstr cfg (lit '' ** ERROR ** '') s) (\<lambda>(_, s).
        sbind (putnstr cfg (rd_name jDir) (of_nat (rd_nsize jDir)) s) (\<lambda>(_, s).
          putLabeledWord cfg dup version s))
      else Inr ((), s))"

primrec find_loop :: "config \<Rightarrow> byte list \<Rightarrow> u32 \<Rightarrow> addr list \<Rightarrow> u32 \<Rightarrow> u32 \<Rightarrow> sys \<Rightarrow> u32 result" where
  "find_loop cfg name pino [] version inode s = Inr (inode, s)"
| "find_loop cfg name pino (b # bs) version inode s =
     (let jDir = dirent_at (memory s) b in
      if dir_match name pino jDir \<and> \<not> rd_version jDir < version then
        sbind (version_notes cfg '' is version 0 (in find, ignoring)'' '' has dup version ='' jDir version s) (\<lambda>(_, s).
          find_loop cfg name pino bs (rd_version jDir) (rd_ino jDir) s)
      else find_loop cfg name pino bs version inode s)"

definition jffs2_1pass_find_inode :: "config \<Rightarrow> b_lists \<Rightarrow> byte list \<Rightarrow> u32 \<Rightarrow> sys \<Rightarrow> u32 result" where
  "jffs2_1pass_find_inode cfg pL name pino s = find_loop cfg name pino (dirList pL) 0 0 s"

definition find_failed :: "config \<Rightarrow> byte list \<Rightarrow> sys \<Rightarrow> u32 result" where
  "find_failed cfg name s =
     sbind (putstr cfg (lit ''find_inode failed for name='') s) (\<lambda>(_, s).
     sbind (putstr cfg name s) (\<lambda>(_, s).
     sbind (putstr cfg [13, 10] s) (\<lambda>(_, s). Inr (0, s))))"

abbreviation (input) slash :: byte where "slash \<equiv> ch CHR ''/''"

lemma rest_shorter: "slash \<in> set tmp \<Longrightarrow> length (tl (dropWhile (\<lambda>c. c \<noteq> slash) tmp)) < length tmp"
  by (induction tmp) auto

text \<open>
  The loop over the components of a path; the part up to the first slash is cut off \<open>tmp\<close> by moving the rest to its
  front.  \<open>lenient\<close>: a component of no characters that is not found does not end the search, as in
  \<open>jffs2_1pass_search_list_inodes\<close>.
\<close>

function search_loop :: "bool \<Rightarrow> config \<Rightarrow> b_lists \<Rightarrow> byte list \<Rightarrow> u32 \<Rightarrow> sys \<Rightarrow> ((byte list \<times> u32) option) result" where
  "search_loop lenient cfg pL tmp pino s =
     (if slash \<in> set tmp then
        let working_tmp = takeWhile (\<lambda>c. c \<noteq> slash) tmp; tmp = tl (dropWhile (\<lambda>c. c \<noteq> slash) tmp) in
        sbind (jffs2_1pass_find_inode cfg pL working_tmp pino s) (\<lambda>(pino, s).
          if pino = 0 \<and> \<not> (lenient \<and> working_tmp = []) then
            sbind (find_failed cfg working_tmp s) (\<lambda>(_, s). Inr (None, s))
          else search_loop lenient cfg pL tmp pino s)
      else Inr (Some (tmp, pino), s))"
  by pat_completeness auto
termination by (relation "measure (\<lambda>(_, _, _, tmp, _, _). length tmp)") (use rest_shorter in auto)

declare search_loop.simps [simp del]

text \<open>\<open>tmp\<close> and \<open>working_tmp\<close> have 256 bytes.\<close>

definition strip_slashes :: "byte list \<Rightarrow> stop + byte list" where
  "strip_slashes fname =
     (let tmp = dropWhile (\<lambda>c. c = slash) fname in if length tmp < 256 then Inr tmp else Inl BadAccess)"

definition jffs2_1pass_search_inode :: "config \<Rightarrow> b_lists \<Rightarrow> byte list \<Rightarrow> u32 \<Rightarrow> sys \<Rightarrow> u32 result" where
  "jffs2_1pass_search_inode cfg pL fname pino s =
     sbind (strip_slashes fname) (\<lambda>tmp.
     sbind (search_loop False cfg pL tmp pino s) (\<lambda>(found, s).
       case found of
         None \<Rightarrow> Inr (0, s)
       | Some (tmp, pino) \<Rightarrow>
           sbind (jffs2_1pass_find_inode cfg pL tmp pino s) (\<lambda>(pino, s).
             if pino = 0 then find_failed cfg tmp s else Inr (pino, s))))"

text \<open>The entry of an inode with the highest version.\<close>

primrec resolve_loop :: "config \<Rightarrow> u32 \<Rightarrow> addr list \<Rightarrow> u32 \<Rightarrow> raw_dirent option \<Rightarrow> sys \<Rightarrow> raw_dirent option result" where
  "resolve_loop cfg ino [] version found s = Inr (found, s)"
| "resolve_loop cfg ino (b # bs) version found s =
     (let jDir = dirent_at (memory s) b in
      if ino = rd_ino jDir \<and> \<not> rd_version jDir < version then
        sbind (version_notes cfg '' is version 0 (in resolve, ignoring)'' '' has dup version (resolve) = '' jDir version s)
          (\<lambda>(_, s). resolve_loop cfg ino bs (rd_version jDir) (Some jDir) s)
      else resolve_loop cfg ino bs version found s)"

text \<open>
  The target of a link: the first fragment's data, into the 256 bytes of \<open>tmp\<close>.  Without a fragment \<open>tmp\<close> is read
  uninitialised.
\<close>

definition link_target :: "mem \<Rightarrow> b_lists \<Rightarrow> u32 \<Rightarrow> stop + byte list" where
  "link_target m pL ino =
     (case filter (\<lambda>b. ri_ino (inode_at m b) = ino) (fragList pL) of
        [] \<Rightarrow> Inl BadAccess
      | b # _ \<Rightarrow>
          let n = unat (ri_dsize (inode_at m b)) in
          if n < 256 then Inr (cstr_of (bytes_at m (b + 68) n)) else Inl BadAccess)"

definition jffs2_1pass_resolve_inode :: "config \<Rightarrow> b_lists \<Rightarrow> u32 \<Rightarrow> sys \<Rightarrow> u32 result" where
  "jffs2_1pass_resolve_inode cfg pL ino s =
     sbind (resolve_loop cfg ino (dirList pL) 0 None s) (\<lambda>(found, s).
       case found of
         None \<Rightarrow> Inl BadAccess
       | Some jDirFound \<Rightarrow>
           if rd_type jDirFound \<noteq> DT_LNK then Inr (rd_ino jDirFound, s)
           else
             sbind (link_target (memory s) pL (rd_ino jDirFound)) (\<lambda>tmp.
               jffs2_1pass_search_inode cfg pL tmp (if hd0 tmp = slash then 1 else rd_pino jDirFound) s))"

section \<open>Listing\<close>

text \<open>\<open>mkmodestr\<close>: the type and the nine permission bits, then the set-id and sticky bits.\<close>

abbreviation (input) S_IFMT :: u32 where "S_IFMT \<equiv> 0xf000"

definition mode_type :: "u32 \<Rightarrow> byte" where
  "mode_type mode =
     (let t = mode AND S_IFMT in
      if t = 0x4000 then ch CHR ''d'' else if t = 0x6000 then ch CHR ''b'' else if t = 0x2000 then ch CHR ''c''
      else if t = 0x1000 then ch CHR ''f'' else if t = 0xa000 then ch CHR ''l'' else if t = 0xc000 then ch CHR ''s''
      else if t = 0x8000 then ch CHR ''-'' else ch CHR ''?'')"

definition mode_bits :: "u32 \<Rightarrow> byte list" where
  "mode_bits mode =
     rev (map (\<lambda>i. if mode AND push_bit i 1 \<noteq> 0 then lit ''xwr'' ! (i mod 3) else ch CHR ''-'') [0..<9])"

definition mkmodestr :: "u32 \<Rightarrow> byte list" where
  "mkmodestr mode =
     (let str = mode_type mode # mode_bits mode;
          str = (if mode AND 0x800 \<noteq> 0 then str[3 := if mode AND 0x40 \<noteq> 0 then ch CHR ''s'' else ch CHR ''S''] else str);
          str = (if mode AND 0x400 \<noteq> 0 then str[6 := if mode AND 8 \<noteq> 0 then ch CHR ''s'' else ch CHR ''S''] else str);
          str = (if mode AND 0x200 \<noteq> 0 then str[9 := if mode AND 1 \<noteq> 0 then ch CHR ''t'' else ch CHR ''T''] else str)
      in str)"

text \<open>The text of \<open>ctime_r\<close> up to its end of line.\<close>

definition dump_stat :: "config \<Rightarrow> u32 \<Rightarrow> u32 \<Rightarrow> u32 \<Rightarrow> byte list \<Rightarrow> sys \<Rightarrow> unit result" where
  "dump_stat cfg st_mode st_size st_mtime name s =
     (let st_mtime = (if st_mtime = -1 then 1 else st_mtime) in
      case ctime_r (sint st_mtime) of
        None \<Rightarrow> Inl BadAccess
      | Some t \<Rightarrow>
          printf cfg (lit '' %s %8ld %s %s'')
            [AStr (Some (mkmodestr st_mode)), AInt st_size,
             AStr (Some (takeWhile (\<lambda>c. c \<noteq> 13) (takeWhile (\<lambda>c. c \<noteq> 10) t))), AStr (Some name)] s)"

text \<open>\<open>i\<close> is None for a NULL pointer; else the address and what is read there.\<close>

definition dump_inode :: "config \<Rightarrow> jffs2_env \<Rightarrow> b_lists \<Rightarrow> raw_dirent \<Rightarrow> addr option \<Rightarrow> sys \<Rightarrow> unit result" where
  "dump_inode cfg je pL d at s =
     (case at of
        None \<Rightarrow> Inr ((), s)
      | Some b \<Rightarrow>
          let i = inode_at (memory s) b; fname = cstr_of (rd_name d) in
          sbind (jffs2_1pass_read_inode cfg je pL (ri_ino i) 0 s) (\<lambda>(st_size, s).
          sbind (dump_stat cfg (ri_mode i) st_size (ri_mtime i) fname s) (\<lambda>(_, s).
          sbind (if rd_type d = DT_LNK then
                   sbind (putstr cfg (lit '' -> '') s) (\<lambda>(_, s).
                     putnstr cfg (bytes_at (memory s) (b + 68) (unat (ri_dsize i))) (ri_dsize i) s)
                 else Inr ((), s)) (\<lambda>(_, s).
            putstr cfg [13, 10] s))))"

text \<open>\<open>i_version\<close> stays 0, so the last fragment of the inode is taken.\<close>

definition last_frag :: "mem \<Rightarrow> b_lists \<Rightarrow> u32 \<Rightarrow> addr option" where
  "last_frag m pL ino =
     fold (\<lambda>b i. if ri_ino (inode_at m b) = ino \<and> 0 \<le> ri_version (inode_at m b) then Some b else i) (fragList pL) None"

primrec list_loop :: "config \<Rightarrow> jffs2_env \<Rightarrow> b_lists \<Rightarrow> u32 \<Rightarrow> addr list \<Rightarrow> sys \<Rightarrow> unit result" where
  "list_loop cfg je pL pino [] s = Inr ((), s)"
| "list_loop cfg je pL pino (b # bs) s =
     (let jDir = dirent_at (memory s) b in
      sbind (if pino = rd_pino jDir \<and> rd_ino jDir \<noteq> 0
             then dump_inode cfg je pL jDir (last_frag (memory s) pL (rd_ino jDir)) s else Inr ((), s))
        (\<lambda>(_, s). list_loop cfg je pL pino bs s))"

definition jffs2_1pass_list_inodes :: "config \<Rightarrow> jffs2_env \<Rightarrow> b_lists \<Rightarrow> u32 \<Rightarrow> sys \<Rightarrow> u32 result" where
  "jffs2_1pass_list_inodes cfg je pL pino s =
     sbind (list_loop cfg je pL pino (dirList pL) s) (\<lambda>(_, s). Inr (pino, s))"

definition jffs2_1pass_search_list_inodes ::
  "config \<Rightarrow> jffs2_env \<Rightarrow> b_lists \<Rightarrow> byte list \<Rightarrow> u32 \<Rightarrow> sys \<Rightarrow> u32 result" where
  "jffs2_1pass_search_list_inodes cfg je pL fname pino s =
     sbind (strip_slashes fname) (\<lambda>tmp.
     sbind (search_loop True cfg pL tmp pino s) (\<lambda>(found, s).
       case found of
         None \<Rightarrow> Inr (0, s)
       | Some (tmp, pino) \<Rightarrow>
           sbind (if tmp \<noteq> [] then jffs2_1pass_find_inode cfg pL tmp pino s else Inr (pino, s)) (\<lambda>(pino, s).
             if tmp \<noteq> [] \<and> pino = 0 then find_failed cfg tmp s
             else
               sbind (jffs2_1pass_list_inodes cfg je pL pino s) (\<lambda>(pino, s).
                 if pino = 0 then find_failed cfg tmp s else Inr (pino, s)))))"

section \<open>The operations\<close>

definition jffs2_1pass_ls ::
  "config \<Rightarrow> jffs2_env \<Rightarrow> part_info \<Rightarrow> byte list \<Rightarrow> b_lists \<Rightarrow> sys \<Rightarrow> (u32 \<times> b_lists) result" where
  "jffs2_1pass_ls cfg je part fname pL s =
     sbind (jffs2_get_list cfg je part ''ls'' pL s) (\<lambda>((ok, pl), s).
       if \<not> ok then Inr ((0, pl), s)
       else
         sbind (jffs2_1pass_search_list_inodes cfg je pl fname 1 s) (\<lambda>(inode, s).
         sbind (if inode = 0 then putstr cfg (lit ''ls: Failed to scan jffs2 file structure'' @ [13, 10]) s else Inr ((), s))
           (\<lambda>(_, s). Inr ((0, pl), s))))"

definition jffs2_1pass_load ::
  "config \<Rightarrow> jffs2_env \<Rightarrow> addr \<Rightarrow> part_info \<Rightarrow> byte list \<Rightarrow> b_lists \<Rightarrow> sys \<Rightarrow> (u32 \<times> b_lists) result" where
  "jffs2_1pass_load cfg je dest part fname pL s =
     sbind (jffs2_get_list cfg je part ''load'' pL s) (\<lambda>((ok, pl), s).
     let fail = (\<lambda>msg s. sbind (putstr cfg (lit msg @ [13, 10]) s) (\<lambda>(_, s). Inr ((0, pl), s))) in
     if \<not> ok then Inr ((0, pl), s)
     else
       sbind (jffs2_1pass_search_inode cfg pl fname 1 s) (\<lambda>(inode, s).
         if inode = 0 then fail ''load: Failed to find inode'' s
         else
           sbind (jffs2_1pass_resolve_inode cfg pl inode s) (\<lambda>(inode, s).
             if inode = 0 then fail ''load: Failed to resolve inode structure'' s
             else
               sbind (jffs2_1pass_read_inode cfg je pl inode dest s) (\<lambda>(ret, s).
                 if sint ret < 0 then fail ''load: Failed to read inode'' s else Inr ((ret, pl), s)))))"

record b_compr_info =
  num_frags :: u32
  compr_sum :: u32
  decompr_sum :: u32

definition jffs2_1pass_fill_info :: "mem \<Rightarrow> b_lists \<Rightarrow> b_compr_info list" where
  "jffs2_1pass_fill_info m pL =
     fold (\<lambda>b info.
       let jNode = inode_at m b; c = unat (ri_compr jNode) in
       if c < JFFS2_NUM_COMPR then
         info[c := \<lparr>num_frags = num_frags (info ! c) + 1, compr_sum = compr_sum (info ! c) + ri_csize jNode,
                    decompr_sum = decompr_sum (info ! c) + ri_dsize jNode\<rparr>]
       else info)
       (fragList pL) (replicate JFFS2_NUM_COMPR \<lparr>num_frags = 0, compr_sum = 0, decompr_sum = 0\<rparr>)"

definition compr_names :: "string list" where
  "compr_names = [''NONE'', ''ZERO'', ''RTIME'', ''RUBINMIPS'', ''COPY'', ''DYNRUBIN'', ''ZLIB'']"

primrec print_info :: "config \<Rightarrow> (string \<times> b_compr_info) list \<Rightarrow> sys \<Rightarrow> unit result" where
  "print_info cfg [] s = Inr ((), s)"
| "print_info cfg (x # xs) s =
     (case x of (name, i) \<Rightarrow>
        sbind (printf cfg (lit ''Compression: %s\<newline>'') [AStr (Some (lit name))] s) (\<lambda>(_, s).
        sbind (printf cfg ([9] @ lit ''frag count: %ld\<newline>'') [AInt (num_frags i)] s) (\<lambda>(_, s).
        sbind (printf cfg ([9] @ lit ''compressed sum: %ld\<newline>'') [AInt (compr_sum i)] s) (\<lambda>(_, s).
        sbind (printf cfg ([9] @ lit ''uncompressed sum: %ld\<newline>'') [AInt (decompr_sum i)] s) (\<lambda>(_, s).
          print_info cfg xs s)))))"

definition jffs2_1pass_info :: "config \<Rightarrow> jffs2_env \<Rightarrow> part_info \<Rightarrow> b_lists \<Rightarrow> sys \<Rightarrow> (u32 \<times> b_lists) result" where
  "jffs2_1pass_info cfg je part pL s =
     sbind (jffs2_get_list cfg je part ''info'' pL s) (\<lambda>((ok, pl), s).
       if \<not> ok then Inr ((0, pl), s)
       else sbind (print_info cfg (zip compr_names (jffs2_1pass_fill_info (memory s) pl)) s) (\<lambda>(_, s). Inr ((1, pl), s)))"

section \<open>The commands\<close>

text \<open>The partition, from the sector \<open>CFG_JFFS2_FIRST_SECTOR\<close> of the first bank to the end of the last one.\<close>

definition get_part_info :: "jffs2_env \<Rightarrow> sys \<Rightarrow> stop + part_info" where
  "get_part_info je s =
     (let first = CFG_JFFS2_FIRST_BANK je; sector = CFG_JFFS2_FIRST_SECTOR je in
      if first + CFG_JFFS2_NUM_BANKS je \<le> length (flash_info s) \<and> first < length (flash_info s)
         \<and> sector < length (fi_start (flash_info s ! first)) then
        let start = fi_start (flash_info s ! first);
            total = sum_list (map (\<lambda>i. fi_size (flash_info s ! i)) [first..<first + CFG_JFFS2_NUM_BANKS je])
        in Inr \<lparr>pi_size = total - (if 0 < sector then start ! sector - start ! 0 else 0), pi_offset = start ! sector\<rparr>
      else Inl BadAccess)"

definition do_jffs2_fsload ::
  "config \<Rightarrow> jffs2_env \<Rightarrow> nat \<Rightarrow> byte list option list \<Rightarrow> b_lists \<Rightarrow> sys \<Rightarrow> (int \<times> b_lists) result" where
  "do_jffs2_fsload cfg je argc argv pL s =
     sbind (if 2 \<le> argc then sbind (argv_str argv 1) (\<lambda>a. Inr (fst (simple_strtoul a 16))) else Inr (CFG_LOAD_ADDR je)) (\<lambda>offset.
     sbind (if argc = 3 then argv_str argv 2 else Inr (lit ''vmlinuz'')) (\<lambda>filename.
     sbind (get_part_info je s) (\<lambda>part.
     sbind (printf cfg (lit ''### JFFS2 loading '%s' to 0x%lx\<newline>'') [AStr (Some filename), AInt offset] s) (\<lambda>(_, s).
     sbind (jffs2_1pass_load cfg je offset part filename pL s) (\<lambda>((sz, pL), s).
     sbind (if 0 < sint sz
            then printf cfg (lit ''### JFFS2 load compleate: %d bytes loaded to 0x%lx\<newline>'') [AInt sz, AInt offset] s
            else printf cfg (lit ''### JFFS2 LOAD ERROR<%x> for %s!\<newline>'') [AInt sz, AStr (Some filename)] s) (\<lambda>(_, s).
       Inr ((if 0 < sint sz then 0 else 1, pL), s)))))))"

definition do_jffs2_ls ::
  "config \<Rightarrow> jffs2_env \<Rightarrow> nat \<Rightarrow> byte list option list \<Rightarrow> b_lists \<Rightarrow> sys \<Rightarrow> (int \<times> b_lists) result" where
  "do_jffs2_ls cfg je argc argv pL s =
     sbind (if argc = 2 then argv_str argv 1 else Inr (lit ''/'')) (\<lambda>filename.
     sbind (get_part_info je s) (\<lambda>part.
     sbind (jffs2_1pass_ls cfg je part filename pL s) (\<lambda>((ret, pL), s).
       Inr ((if ret = 1 then 1 else 0, pL), s))))"

definition do_jffs2_fsinfo :: "config \<Rightarrow> jffs2_env \<Rightarrow> b_lists \<Rightarrow> sys \<Rightarrow> (int \<times> b_lists) result" where
  "do_jffs2_fsinfo cfg je pL s =
     sbind (get_part_info je s) (\<lambda>part.
     sbind (jffs2_1pass_info cfg je part pL s) (\<lambda>((ret, pL), s).
       Inr ((if ret = 1 then 1 else 0, pL), s)))"

end
