(* ===== verification/Jffs2Image.thy ===== *)
theory Jffs2Image
  imports Jffs2 Printing
begin

text \<open>
  Images of the flash file system: the nodes as the format has them and what the code reads of them, the entry a name
  stands for, and paths.
\<close>

section \<open>Images\<close>

text \<open>The node checksum of the format.\<close>

definition crc_of :: "byte list \<Rightarrow> u32" where
  "crc_of bs = crc32_no_comp 0 (Some bs)"

record dirent =
  de_pino :: u32
  de_version :: u32
  de_ino :: u32
  de_mctime :: u32
  de_type :: byte
  de_name :: "byte list"

record frag =
  fr_ino :: u32
  fr_version :: u32
  fr_mode :: u32
  fr_uid :: u32
  fr_gid :: u32
  fr_isize :: u32
  fr_atime :: u32
  fr_mtime :: u32
  fr_ctime :: u32
  fr_offset :: u32
  fr_dsize :: u32
  fr_compr :: byte
  fr_usercompr :: byte
  fr_flags :: u32
  fr_data_crc :: u32
  fr_data :: "byte list"

datatype node = Dirent dirent | Inode frag | Cleanmarker

definition node_header :: "u32 \<Rightarrow> nat \<Rightarrow> byte list" where
  "node_header nodetype totlen =
     (let h = st16 JFFS2_MAGIC_BITMASK @ st16 nodetype @ st32 (of_nat totlen) in h @ st32 (crc_of h))"

definition dirent_part :: "dirent \<Rightarrow> byte list" where
  "dirent_part d =
     node_header JFFS2_NODETYPE_DIRENT (40 + length (de_name d)) @ st32 (de_pino d) @ st32 (de_version d) @ st32 (de_ino d)
     @ st32 (de_mctime d) @ [of_nat (length (de_name d)), de_type d, 0, 0]"

definition inode_part :: "frag \<Rightarrow> byte list" where
  "inode_part f =
     node_header JFFS2_NODETYPE_INODE (68 + length (fr_data f)) @ st32 (fr_ino f) @ st32 (fr_version f) @ st32 (fr_mode f)
     @ st16 (fr_uid f) @ st16 (fr_gid f) @ st32 (fr_isize f) @ st32 (fr_atime f) @ st32 (fr_mtime f) @ st32 (fr_ctime f)
     @ st32 (fr_offset f) @ st32 (of_nat (length (fr_data f))) @ st32 (fr_dsize f) @ [fr_compr f, fr_usercompr f]
     @ st16 (fr_flags f)"

fun node_bytes :: "node \<Rightarrow> byte list" where
  "node_bytes (Dirent d) = dirent_part d @ st32 (crc_of (dirent_part d)) @ st32 (crc_of (de_name d)) @ de_name d"
| "node_bytes (Inode f) = inode_part f @ st32 (fr_data_crc f) @ st32 (crc_of (inode_part f)) @ fr_data f"
| "node_bytes Cleanmarker = node_header JFFS2_NODETYPE_CLEANMARKER 12"

text \<open>The next node begins at a multiple of four bytes.\<close>

definition padded :: "byte list \<Rightarrow> byte list" where
  "padded bs = bs @ replicate ((4 - length bs mod 4) mod 4) 0xFF"

definition image_bytes :: "node list \<Rightarrow> byte list" where
  "image_bytes ns = concat (map (padded \<circ> node_bytes) ns)"

primrec node_addrs :: "addr \<Rightarrow> node list \<Rightarrow> (addr \<times> node) list" where
  "node_addrs a [] = []"
| "node_addrs a (n # ns) = (a, n) # node_addrs (a + of_nat (length (padded (node_bytes n)))) ns"

fun is_dirent :: "node \<Rightarrow> bool" where
  "is_dirent (Dirent d) = True"
| "is_dirent n = False"

fun is_inode :: "node \<Rightarrow> bool" where
  "is_inode (Inode f) = True"
| "is_inode n = False"

section \<open>Nodes read back\<close>

lemma length_node_header [simp]: "length (node_header ty n) = 12"
  by (simp add: node_header_def Let_def)

lemma length_dirent_part [simp]: "length (dirent_part d) = 32"
  by (simp add: dirent_part_def)

lemma length_inode_part [simp]: "length (inode_part f) = 60"
  by (simp add: inode_part_def)

text \<open>A part of what memory holds.\<close>

lemma bytes_at_head: "bytes_at m a (length (x @ q)) = x @ q \<Longrightarrow> bytes_at m a (length x) = x"
  using bytes_at_part [of m a "[]" x q] by simp

lemma bytes_at_known: "bytes_at m a (length x) = x \<Longrightarrow> length x = n \<Longrightarrow> bytes_at m a n = x"
  by simp

lemma crc_at_known: "a \<noteq> 0 \<Longrightarrow> bytes_at m a (length x) = x \<Longrightarrow> length x = n \<Longrightarrow> crc_at m a n = crc_of x"
  by (auto simp: crc_at_def crc_of_def)

text \<open>The header of every node.\<close>

lemma header_read:
  assumes "a \<noteq> 0" "bytes_at m a 12 = node_header ty n"
  shows "unknown_at m a = \<lparr>un_magic = 0x1985, un_nodetype = ld16 (st16 ty) 0, un_totlen = of_nat n,
      un_hdr_crc = un_hdr_crc (unknown_at m a)\<rparr>" "hdr_crc m a"
proof -
  let ?h = "st16 JFFS2_MAGIC_BITMASK @ st16 ty @ st32 (of_nat n)"
  have "bytes_at m a (length (?h @ st32 (crc_of ?h))) = ?h @ st32 (crc_of ?h)"
    using assms(2) by (simp add: node_header_def Let_def)
  then have h: "bytes_at m a (length ?h) = ?h" by (rule bytes_at_head)
  have "un_hdr_crc (unknown_at m a) = crc_of ?h"
    unfolding unknown_at_def Let_def assms(2) node_header_def
    by (simp add: ld32_def) (simp add: st16_def st32_def ld32_bytes)
  then show "hdr_crc m a" using crc_at_known [OF assms(1) h] by (simp add: hdr_crc_def)
  show "unknown_at m a = \<lparr>un_magic = 0x1985, un_nodetype = ld16 (st16 ty) 0, un_totlen = of_nat n,
      un_hdr_crc = un_hdr_crc (unknown_at m a)\<rparr>"
    unfolding unknown_at_def Let_def assms(2) node_header_def
    by (simp add: ld32_def ld16_def) (simp add: st16_def st32_def ld32_bytes)
qed

lemma node_types:
  "ld16 (st16 JFFS2_NODETYPE_DIRENT) 0 = JFFS2_NODETYPE_DIRENT" "ld16 (st16 JFFS2_NODETYPE_INODE) 0 = JFFS2_NODETYPE_INODE"
  "ld16 (st16 JFFS2_NODETYPE_CLEANMARKER) 0 = JFFS2_NODETYPE_CLEANMARKER"
  by (simp_all add: ld16_def st16_def)

text \<open>A directory entry.\<close>

definition as_dirent :: "dirent \<Rightarrow> raw_dirent" where
  "as_dirent d =
     \<lparr>rd_pino = de_pino d, rd_version = de_version d, rd_ino = de_ino d, rd_nsize = length (de_name d), rd_type = de_type d,
      rd_node_crc = crc_of (dirent_part d), rd_name_crc = crc_of (de_name d), rd_name = de_name d\<rparr>"

lemma dirent_read:
  assumes "bytes_at m a (length (node_bytes (Dirent d))) = node_bytes (Dirent d)" "length (de_name d) < 256"
  shows "dirent_at m a = as_dirent d" and "a \<noteq> 0 \<Longrightarrow> dirent_crc m a" "a + 40 \<noteq> 0 \<Longrightarrow> dirent_name_crc m a"
proof -
  let ?p = "dirent_part d" and ?c = "st32 (crc_of (dirent_part d)) @ st32 (crc_of (de_name d))"
  have b: "bytes_at m a (length ((?p @ ?c) @ de_name d)) = (?p @ ?c) @ de_name d" using assms(1) by simp
  then have h: "bytes_at m a 40 = ?p @ ?c" using bytes_at_head [of m a "?p @ ?c" "de_name d"] by simp
  have n: "bytes_at m (a + 40) (length (de_name d)) = de_name d"
    using bytes_at_part [of m a "?p @ ?c" "de_name d" "[]"] b by simp
  have l: "unat (of_nat (length (de_name d)) :: byte) = length (de_name d)"
    using assms(2) by (simp add: unat_of_nat)
  have f: "(?p @ ?c) ! 28 = of_nat (length (de_name d))" "(?p @ ?c) ! 29 = de_type d"
    by (simp_all add: dirent_part_def nth_append)
  have w: "ld32 (?p @ ?c) 12 = de_pino d" "ld32 (?p @ ?c) 16 = de_version d" "ld32 (?p @ ?c) 20 = de_ino d"
    by (simp_all add: dirent_part_def ld32_field)
  have c: "ld32 (?p @ ?c) 32 = crc_of ?p" "ld32 (?p @ ?c) 36 = crc_of (de_name d)"
    by (simp_all add: ld32_field)
  show d: "dirent_at m a = as_dirent d"
    unfolding dirent_at_def Let_def h f l n w c as_dirent_def ..
  have "bytes_at m a (length ?p) = ?p" using bytes_at_head [of m a ?p "?c @ de_name d"] b by simp
  then show "a \<noteq> 0 \<Longrightarrow> dirent_crc m a"
    using crc_at_known [of a m ?p 32] by (simp add: dirent_crc_def d as_dirent_def)
  show "a + 40 \<noteq> 0 \<Longrightarrow> dirent_name_crc m a"
    using crc_at_known [of "a + 40" m "de_name d"] n by (simp add: dirent_name_crc_def d as_dirent_def)
qed

text \<open>A fragment of a file.\<close>

definition as_inode :: "frag \<Rightarrow> raw_inode" where
  "as_inode f =
     \<lparr>ri_ino = fr_ino f, ri_version = fr_version f, ri_mode = fr_mode f, ri_isize = fr_isize f, ri_mtime = fr_mtime f,
      ri_offset = fr_offset f, ri_csize = of_nat (length (fr_data f)), ri_dsize = fr_dsize f, ri_compr = fr_compr f,
      ri_node_crc = crc_of (inode_part f)\<rparr>"

lemma inode_read:
  assumes "bytes_at m a (length (node_bytes (Inode f))) = node_bytes (Inode f)"
  shows "inode_at m a = as_inode f" and "a \<noteq> 0 \<Longrightarrow> inode_crc m a"
    and "bytes_at m (a + 68) (length (fr_data f)) = fr_data f"
proof -
  let ?p = "inode_part f" and ?c = "st32 (fr_data_crc f) @ st32 (crc_of (inode_part f))"
  have b: "bytes_at m a (length ((?p @ ?c) @ fr_data f)) = (?p @ ?c) @ fr_data f" using assms by simp
  then have h: "bytes_at m a 68 = ?p @ ?c" using bytes_at_head [of m a "?p @ ?c" "fr_data f"] by simp
  show "bytes_at m (a + 68) (length (fr_data f)) = fr_data f"
    using bytes_at_part [of m a "?p @ ?c" "fr_data f" "[]"] b by simp
  have f: "(?p @ ?c) ! 56 = fr_compr f"
    by (simp add: inode_part_def nth_append)
  have w: "ld32 (?p @ ?c) 12 = fr_ino f" "ld32 (?p @ ?c) 16 = fr_version f" "ld32 (?p @ ?c) 20 = fr_mode f"
    "ld32 (?p @ ?c) 28 = fr_isize f" "ld32 (?p @ ?c) 36 = fr_mtime f" "ld32 (?p @ ?c) 44 = fr_offset f"
    "ld32 (?p @ ?c) 48 = of_nat (length (fr_data f))" "ld32 (?p @ ?c) 52 = fr_dsize f"
    by (simp_all add: inode_part_def ld32_field)
  have c: "ld32 (?p @ ?c) 64 = crc_of ?p" by (simp add: ld32_field)
  show d: "inode_at m a = as_inode f"
    unfolding inode_at_def Let_def h f w c as_inode_def ..
  have "bytes_at m a (length ?p) = ?p" using bytes_at_head [of m a ?p "?c @ fr_data f"] b by simp
  then show "a \<noteq> 0 \<Longrightarrow> inode_crc m a"
    using crc_at_known [of a m ?p 60] by (simp add: inode_crc_def d as_inode_def)
qed

section \<open>Printing\<close>

text \<open>An operation that returns a value and leaves the memory as it was.\<close>

definition keeps :: "'a result \<Rightarrow> sys \<Rightarrow> 'a \<Rightarrow> bool" where
  "keeps r s v = (\<exists>s'. r = Inr (v, s') \<and> memory s' = memory s)"

lemma keeps_Inr [simp]: "keeps (Inr (v, s')) s w \<longleftrightarrow> v = w \<and> memory s' = memory s"
  by (auto simp: keeps_def)

lemma keeps_bind:
  assumes "keeps r s v" "\<And>s'. memory s' = memory s \<Longrightarrow> keeps (f (v, s')) s' w"
  shows "keeps (sbind r f) s w"
proof -
  obtain s1 where 1: "r = Inr (v, s1)" "memory s1 = memory s" using assms(1) by (auto simp: keeps_def)
  then obtain s2 where "f (v, s1) = Inr (w, s2)" "memory s2 = memory s1" using assms(2) by (auto simp: keeps_def)
  then show ?thesis using 1 by (simp add: keeps_def)
qed

lemma memory_puts [simp]: "memory (puts t s) = memory s"
  by (simp add: puts_out)

lemma keeps_prints: "prints cfg fmt args \<Longrightarrow> keeps (printf cfg fmt args s) s ()"
  by (simp add: printf_prints)

text \<open>The longest text is a name of up to 255 characters.\<close>

definition roomy :: "config \<Rightarrow> bool" where
  "roomy cfg = (280 < CFG_PBSIZE cfg)"

lemma keeps_plain:
  "roomy cfg \<Longrightarrow> ch CHR ''%'' \<notin> set t \<Longrightarrow> length t < 120 \<Longrightarrow> keeps (printf cfg t args s) s ()"
  by (intro keeps_prints plain_prints) (simp_all add: roomy_def)

lemma room_more: "room fmt args k \<Longrightarrow> k \<le> n \<Longrightarrow> room fmt args n"
  by (force simp: room_def)

lemma keeps_putstr: "roomy cfg \<Longrightarrow> length t \<le> 280 \<Longrightarrow> keeps (putstr cfg t s) s ()"
  by (rule keeps_prints)
     (use room_s [of t 280 280 "[]" "[]"] in \<open>auto simp: prints_def roomy_def lit_def room_Nil intro: exI [of _ 280]\<close>)

lemma room_star:
  assumes "unat w < 256" "255 \<le> k" "room fmt as (k - 255)"
  shows "room (ch CHR ''%'' # ch CHR ''*'' # ch CHR ''.'' # ch CHR ''*'' # ch CHR ''s'' # fmt)
    (AInt w # AInt w # AStr (Some t) # as) k"
proof (rule room_step [OF _ assms(2,3)])
  fix st :: fmt_state assume a: "fs_args st = AInt w # AInt w # AStr (Some t) # as"
  let ?t = "fmt_str (sint w) (sint w) 0 (Some t)"
  obtain n where w: "sint w = int n" "n < 256" using that [of "unat w"] assms(1) sint_unat_small [of w] by simp
  then have "length ?t \<le> 255" by (auto simp: fmt_str_def Let_def flag_set_def blanks_def unat_of_nat)
  with a w show "\<exists>st'. vsprintf_loop (ch CHR ''%'' # ch CHR ''*'' # ch CHR ''.'' # ch CHR ''*'' # ch CHR ''s'' # fmt) st
      = vsprintf_loop fmt st' \<and> fs_args st' = as \<and> length (fs_out st') \<le> length (fs_out st) + 255"
    by (intro exI [of _ "st\<lparr>fs_out := fs_out st @ ?t, fs_args := as\<rparr>"])
       (simp add: fmt_directive_def fmt_width_def fmt_precision_def fmt_qualifier_def fmt_convert_def is_digit_def)
qed

lemma keeps_putnstr: "roomy cfg \<Longrightarrow> n < 256 \<Longrightarrow> keeps (putnstr cfg t (of_nat n) s) s ()"
proof -
  assume "roomy cfg" "n < 256"
  then have u: "unat (of_nat n :: u32) = n" by (simp add: unat_of_nat)
  then have "room (lit ''%*.*s'') [AInt (of_nat n), AInt (of_nat n), AStr (Some (cstr_of t))] 280"
    using u \<open>n < 256\<close> room_star [of "of_nat n" 280 "[]" "[]" "cstr_of t"] by (simp add: lit_def room_Nil)
  then show ?thesis using \<open>roomy cfg\<close> by (intro keeps_prints) (auto simp: prints_def roomy_def)
qed

lemma keeps_labeled: "roomy cfg \<Longrightarrow> length x \<le> 100 \<Longrightarrow> keeps (putLabeledWord cfg x w s) s ()"
proof (rule keeps_prints)
  assume "roomy cfg" "length x \<le> 100"
  have "room (lit ''%s %08x\<newline>'') [AStr (Some (lit x)), AInt w] 120"
    unfolding lit_def list.map
    by (rule room_s [where j = 100], use \<open>length x \<le> 100\<close> in simp, simp, simp)
       ((rule room_Nil | rule room_ints, simp, simp, simp, simp | rule room_char, simp add: ch_eq, simp)+)
  then show "prints cfg (lit ''%s %08x\<newline>'') [AStr (Some (lit x)), AInt w]"
    using \<open>roomy cfg\<close> by (intro prints_room) (simp_all add: roomy_def)
qed

section \<open>Which entry a name stands for\<close>

text \<open>The last of the entries with the highest version.\<close>

definition newer :: "raw_dirent \<Rightarrow> raw_dirent option \<Rightarrow> raw_dirent option" where
  "newer d b = (case b of Some e \<Rightarrow> if rd_version d < rd_version e then b else Some d | None \<Rightarrow> Some d)"

definition newest :: "raw_dirent list \<Rightarrow> raw_dirent option" where
  "newest ds = fold newer ds None"

lemma newer_fold:
  "(case fold newer ds b of None \<Rightarrow> ds = [] \<and> b = None
    | Some d \<Rightarrow> (d \<in> set ds \<or> b = Some d) \<and> (\<forall>e\<in>set ds \<union> set_option b. rd_version e \<le> rd_version d))"
proof (induction ds arbitrary: b)
  case (Cons d ds)
  have "(case newer d b of None \<Rightarrow> False | Some e \<Rightarrow> (e = d \<or> b = Some e) \<and> rd_version d \<le> rd_version e
      \<and> (\<forall>e'\<in>set_option b. rd_version e' \<le> rd_version e))"
    by (auto simp: newer_def split: option.split)
  then show ?case using Cons.IH [of "newer d b"] by (auto split: option.splits)
qed (auto split: option.split)

lemma newest_None [simp]: "newest ds = None \<longleftrightarrow> ds = []"
  using newer_fold [of ds None] by (auto simp: newest_def split: option.splits)

lemma newest_Some: "newest ds = Some d \<Longrightarrow> d \<in> set ds \<and> (\<forall>e\<in>set ds. rd_version e \<le> rd_version d)"
  using newer_fold [of ds None] by (auto simp: newest_def split: option.splits)

definition found_version :: "raw_dirent option \<Rightarrow> u32" where
  "found_version b = (case b of None \<Rightarrow> 0 | Some d \<Rightarrow> rd_version d)"

definition found_ino :: "raw_dirent option \<Rightarrow> u32" where
  "found_ino b = (case b of None \<Rightarrow> 0 | Some d \<Rightarrow> rd_ino d)"

lemma found_simps [simp]:
  "found_version None = 0" "found_version (Some d) = rd_version d" "found_ino None = 0" "found_ino (Some d) = rd_ino d"
  by (simp_all add: found_version_def found_ino_def)

lemma newer_simps:
  "rd_version d < found_version b \<Longrightarrow> newer d b = b" "\<not> rd_version d < found_version b \<Longrightarrow> newer d b = Some d"
  by (auto simp: newer_def found_version_def split: option.splits)

lemma nsize_less: "rd_nsize (dirent_at m a) < 256"
  using unsigned_less [of "bytes_at m a 40 ! 28"] by (simp add: dirent_at_def Let_def del: unsigned_less)

lemma version_notes_keeps:
  assumes "roomy cfg" "rd_nsize d < 256" "length zero \<le> 100" "length dup \<le> 100"
  shows "keeps (version_notes cfg zero dup d v s) s ()"
proof -
  have l: "length (lit zero @ [13, 10]) \<le> 280" "length (lit ('' ** WARNING ** '' :: string)) \<le> 280"
    "length (lit ('' ** ERROR ** '' :: string)) \<le> 280" using assms(3) by simp_all
  note k = keeps_putstr [OF assms(1) l(1)] keeps_putstr [OF assms(1) l(2)] keeps_putstr [OF assms(1) l(3)]
    keeps_putnstr [OF assms(1,2)] keeps_labeled [OF assms(1,4)]
  show ?thesis
    unfolding version_notes_def
    by (auto intro!: keeps_bind [where v = "()"] k simp del: length_append)
qed

lemma find_loop_keeps:
  assumes "roomy cfg"
  shows "memory s = m \<Longrightarrow> keeps (find_loop cfg name pino bs (found_version b) (found_ino b) s) s
    (found_ino (fold newer (filter (dir_match name pino) (map (dirent_at m) bs)) b))"
proof (induction bs arbitrary: b s)
  case (Cons a bs)
  let ?d = "dirent_at m a"
  show ?case
  proof (cases "dir_match name pino ?d \<and> \<not> rd_version ?d < found_version b")
    case True
    have k: "keeps (version_notes cfg '' is version 0 (in find, ignoring)'' '' has dup version ='' ?d (found_version b) s) s ()"
      by (rule version_notes_keeps [OF assms nsize_less]) simp_all
    show ?thesis
      using True Cons.prems Cons.IH [where b = "Some ?d"] by (simp add: Let_def newer_simps keeps_bind [OF k])
  next
    case False
    then show ?thesis using Cons.IH [where b = b and s = s] Cons.prems by (auto simp: Let_def newer_simps)
  qed
qed simp

lemma find_inode_keeps:
  assumes "roomy cfg"
  shows "keeps (jffs2_1pass_find_inode cfg pL name pino s) s
    (found_ino (newest (filter (dir_match name pino) (map (dirent_at (memory s)) (dirList pL)))))"
  using find_loop_keeps [OF assms refl, where s = s and pino = pino and name = name and bs = "dirList pL" and b = None]
  by (simp add: jffs2_1pass_find_inode_def newest_def)

lemma resolve_loop_keeps:
  assumes "roomy cfg"
  shows "memory s = m \<Longrightarrow> keeps (resolve_loop cfg ino bs (found_version b) b s) s
    (fold newer (filter (\<lambda>d. ino = rd_ino d) (map (dirent_at m) bs)) b)"
proof (induction bs arbitrary: b s)
  case (Cons a bs)
  let ?d = "dirent_at m a"
  show ?case
  proof (cases "ino = rd_ino ?d \<and> \<not> rd_version ?d < found_version b")
    case True
    have k: "keeps (version_notes cfg '' is version 0 (in resolve, ignoring)'' '' has dup version (resolve) = '' ?d
        (found_version b) s) s ()"
      by (rule version_notes_keeps [OF assms nsize_less]) simp_all
    show ?thesis
      using True Cons.prems Cons.IH [where b = "Some ?d"] by (simp add: Let_def newer_simps keeps_bind [OF k])
  next
    case False
    then show ?thesis using Cons.IH [where b = b and s = s] Cons.prems by (auto simp: Let_def newer_simps)
  qed
qed simp

section \<open>Paths\<close>

definition lookup :: "mem \<Rightarrow> b_lists \<Rightarrow> u32 \<Rightarrow> byte list \<Rightarrow> u32" where
  "lookup m pL pino name = found_ino (newest (filter (dir_match name pino) (map (dirent_at m) (dirList pL))))"

fun walk :: "mem \<Rightarrow> b_lists \<Rightarrow> u32 \<Rightarrow> byte list list \<Rightarrow> u32" where
  "walk m pL pino [] = pino"
| "walk m pL pino (name # names) = (let p = lookup m pL pino name in if p = 0 then 0 else walk m pL p names)"

text \<open>The names of a path with a slash between any two.\<close>

fun join :: "byte list list \<Rightarrow> byte list" where
  "join [] = []"
| "join [n] = n"
| "join (n # ns) = n @ slash # join ns"

text \<open>Where the loop over the directories of a path ends.\<close>

fun dir_of :: "mem \<Rightarrow> b_lists \<Rightarrow> u32 \<Rightarrow> byte list list \<Rightarrow> (byte list \<times> u32) option" where
  "dir_of m pL pino [] = None"
| "dir_of m pL pino [n] = Some (n, pino)"
| "dir_of m pL pino (n # ns) = (let p = lookup m pL pino n in if p = 0 then None else dir_of m pL p ns)"

lemma walk_dir_of:
  "names \<noteq> [] \<Longrightarrow> walk m pL pino names = (case dir_of m pL pino names of None \<Rightarrow> 0 | Some (n, p) \<Rightarrow> lookup m pL p n)"
  by (induction m pL pino names rule: dir_of.induct) (auto simp: Let_def)

lemma dir_of_last: "dir_of m pL pino names = Some (n, p) \<Longrightarrow> n \<in> set names"
  by (induction m pL pino names rule: dir_of.induct) (auto simp: Let_def split: if_splits)

lemma find_inode_lookup:
  "roomy cfg \<Longrightarrow> memory s = m \<Longrightarrow> keeps (jffs2_1pass_find_inode cfg pL name pino s) s (lookup m pL pino name)"
  using find_inode_keeps [where s = s and cfg = cfg and name = name and pino = pino and pL = pL] by (simp add: lookup_def)

lemma find_failed_keeps: "roomy cfg \<Longrightarrow> length name \<le> 280 \<Longrightarrow> keeps (find_failed cfg name s) s 0"
  unfolding find_failed_def by (auto intro!: keeps_bind [where v = "()"] keeps_putstr)

lemma take_component: "slash \<notin> set n \<Longrightarrow> takeWhile (\<lambda>c. c \<noteq> slash) (n @ slash # t) = n \<and> dropWhile (\<lambda>c. c \<noteq> slash) (n @ slash # t) = slash # t"
  by (induction n) auto

definition names_ok :: "byte list list \<Rightarrow> bool" where
  "names_ok names = (names \<noteq> [] \<and> (\<forall>n\<in>set names. slash \<notin> set n \<and> length n \<le> 280))"

lemma search_loop_keeps:
  assumes "roomy cfg"
  shows "names_ok names \<Longrightarrow> memory s = m \<Longrightarrow> keeps (search_loop False cfg pL (join names) pino s) s (dir_of m pL pino names)"
proof (induction m pL pino names arbitrary: s rule: dir_of.induct)
  case (2 m pL pino n)
  then show ?case by (subst search_loop.simps) (simp add: names_ok_def)
next
  case (3 m pL pino n n' ns)
  let ?p = "lookup m pL pino n"
  have n: "slash \<notin> set n" "length n \<le> 280" "names_ok (n' # ns)" using "3.prems" by (auto simp: names_ok_def)
  have f: "keeps (jffs2_1pass_find_inode cfg pL n pino s) s ?p" by (rule find_inode_lookup [OF assms "3.prems"(2)])
  have t: "takeWhile (\<lambda>c. c \<noteq> slash) (join (n # n' # ns)) = n" "tl (dropWhile (\<lambda>c. c \<noteq> slash) (join (n # n' # ns))) = join (n' # ns)"
    "slash \<in> set (join (n # n' # ns))" using take_component [OF n(1)] by simp_all
  show ?case
    unfolding search_loop.simps [of False cfg pL "join (n # n' # ns)"] t Let_def if_P [OF t(3)]
  proof (rule keeps_bind [OF f])
    fix s' :: sys assume s': "memory s' = memory s"
    show "keeps (case (?p, s') of (pino, s) \<Rightarrow>
        if pino = 0 \<and> \<not> (False \<and> n = []) then sbind (find_failed cfg n s) (\<lambda>(_, s). Inr (None, s))
        else search_loop False cfg pL (join (n' # ns)) pino s) s'
      (dir_of m pL pino (n # n' # ns))"
    proof (cases "?p = 0")
      case True
      then show ?thesis by (auto simp: Let_def intro!: keeps_bind [OF find_failed_keeps [OF assms n(2)]])
    next
      case False
      then show ?thesis using "3.IH" [OF refl False n(3)] s' "3.prems"(2) by (simp add: Let_def)
    qed
  qed
qed (simp add: names_ok_def)

lemma search_inode_keeps:
  assumes "roomy cfg" "names_ok names" "hd (names) \<noteq> []" "length (join names) < 256" "memory s = m"
  shows "keeps (jffs2_1pass_search_inode cfg pL (replicate k slash @ join names) pino s) s (walk m pL pino names)"
proof -
  have "join names \<noteq> [] \<and> hd (join names) \<noteq> slash"
    using assms(2,3) by (cases names rule: join.cases) (auto simp: names_ok_def neq_Nil_conv)
  then have "dropWhile (\<lambda>c. c = slash) (replicate k slash @ join names) = join names"
    by (induction k) (auto simp: neq_Nil_conv)
  then have t: "strip_slashes (replicate k slash @ join names) = Inr (join names)"
    using assms(4) by (simp add: strip_slashes_def)
  show ?thesis
    unfolding jffs2_1pass_search_inode_def t sbind.simps
  proof (rule keeps_bind [OF search_loop_keeps [OF assms(1,2,5)]])
    fix s' :: sys assume "memory s' = memory s"
    then have s': "memory s' = m" using assms(5) by simp
    show "keeps (case (dir_of m pL pino names, s') of (found, s) \<Rightarrow>
        (case found of None \<Rightarrow> Inr (0, s) | Some (tmp, pino) \<Rightarrow>
          sbind (jffs2_1pass_find_inode cfg pL tmp pino s)
            (\<lambda>(pino, s). if pino = 0 then find_failed cfg tmp s else Inr (pino, s)))) s' (walk m pL pino names)"
    proof (cases "dir_of m pL pino names")
      case None
      then show ?thesis using assms(2) by (simp add: walk_dir_of names_ok_def)
    next
      case (Some x)
      then obtain n p where x: "dir_of m pL pino names = Some (n, p)" by (cases x) auto
      then have l: "length n \<le> 280" using dir_of_last assms(2) by (auto simp: names_ok_def)
      have w: "walk m pL pino names = lookup m pL p n" using x assms(2) by (simp add: walk_dir_of names_ok_def)
      show ?thesis
        unfolding x w using find_failed_keeps [OF assms(1) l] by (auto intro!: keeps_bind [OF find_inode_lookup [OF assms(1) s']])
    qed
  qed
qed

end
