(* ===== verification/Jffs2Spec.thy ===== *)
theory Jffs2Spec
  imports Jffs2Image InflateSpec FlashSpec
begin

text \<open>
  What the flash file system does with an image: the scan finds its nodes, a name stands for the newest entry, and
  loading a file puts the data of its fragments, decompressed, in memory.
\<close>

section \<open>The scan\<close>

fun node_type :: "node \<Rightarrow> u32" where
  "node_type (Dirent d) = JFFS2_NODETYPE_DIRENT"
| "node_type (Inode f) = JFFS2_NODETYPE_INODE"
| "node_type Cleanmarker = JFFS2_NODETYPE_CLEANMARKER"

fun valid_node :: "node \<Rightarrow> bool" where
  "valid_node (Dirent d) = (length (de_name d) < 256)"
| "valid_node n = True"

fun add_entry :: "addr \<Rightarrow> node \<Rightarrow> b_lists \<Rightarrow> b_lists" where
  "add_entry a (Dirent d) pL = pL\<lparr>dirList := dirList pL @ [a], dirListCount := dirListCount pL + 1\<rparr>"
| "add_entry a (Inode f) pL = pL\<lparr>fragList := fragList pL @ [a], fragListCount := fragListCount pL + 1\<rparr>"
| "add_entry a Cleanmarker pL = pL"

lemma node_length [simp]:
  "length (node_bytes (Dirent d)) = 40 + length (de_name d)" "length (node_bytes (Inode f)) = 68 + length (fr_data f)"
  "length (node_bytes Cleanmarker) = 12"
  by simp_all

lemma node_begins: "\<exists>rest. node_bytes n = node_header (node_type n) (length (node_bytes n)) @ rest"
  by (cases n) (simp_all add: dirent_part_def inode_part_def)

lemma node_header_read:
  assumes "a \<noteq> 0" "bytes_at m a (length (node_bytes n)) = node_bytes n"
  shows "un_magic (unknown_at m a) = 0x1985" "un_nodetype (unknown_at m a) = node_type n"
    "un_totlen (unknown_at m a) = of_nat (length (node_bytes n))" "hdr_crc m a"
proof -
  let ?h = "node_header (node_type n) (length (node_bytes n))"
  obtain rest where "node_bytes n = ?h @ rest" using node_begins by blast
  then have "bytes_at m a 12 = ?h" using bytes_at_head [of m a ?h rest] assms(2) by simp
  note h = header_read [OF assms(1) this]
  show "hdr_crc m a" by (fact h(2))
  show "un_magic (unknown_at m a) = 0x1985" "un_nodetype (unknown_at m a) = node_type n"
    "un_totlen (unknown_at m a) = of_nat (length (node_bytes n))"
    by (subst h(1), cases n, simp_all add: node_types)+
qed

lemma round_up:
  assumes "n + 3 < 2 ^ 32"
  shows "(of_nat n + 3 :: u32) AND NOT 3 = of_nat (n + (4 - n mod 4) mod 4)"
proof -
  let ?x = "of_nat (n + 3) :: u32"
  have "unat (?x AND 3) = (n + 3) mod 4"
    using assms by (simp add: unat_word_ariths unat_of_nat take_bit_eq_mod unsigned_take_bit_eq
      flip: take_bit_eq_mask [of 2 ?x, simplified mask_numeral, simplified])
  then have "?x AND 3 = of_nat ((n + 3) mod 4)" by (simp add: word_unat_eq_iff unat_of_nat)
  then have "?x AND NOT 3 = of_nat (n + 3) - of_nat ((n + 3) mod 4)" using word_low2 [of ?x] by (simp add: algebra_simps)
  also have "\<dots> = of_nat (n + 3 - (n + 3) mod 4)" by (simp only: of_nat_diff [OF mod_less_eq_dividend])
  also have "n + 3 - (n + 3) mod 4 = n + (4 - n mod 4) mod 4"
  proof -
    have "(n + 3) mod 4 = (n mod 4 + 3) mod 4" by (simp add: mod_add_left_eq)
    moreover have "n mod 4 = 0 \<or> n mod 4 = 1 \<or> n mod 4 = 2 \<or> n mod 4 = 3" by linarith
    ultimately show ?thesis by auto
  qed
  finally show ?thesis by simp
qed

lemma spinner_keeps: "roomy cfg \<Longrightarrow> keeps (printf cfg ([8, 8] @ lit ''%c '') [AInt v] s) s ()"
proof (rule keeps_prints)
  assume "roomy cfg"
  moreover have "room ([8, 8] @ lit ''%c '') [AInt v] 120"
    unfolding lit_def list.map append.simps
    by (rule room_Nil | rule room_c, simp | rule room_char, simp, simp)+
  ultimately show "prints cfg ([8, 8] @ lit ''%c '') [AInt v]" by (intro prints_room) (simp_all add: roomy_def)
qed

lemma spins:
  "roomy cfg \<Longrightarrow> \<exists>s'. (if n mod 10000 = 0
      then printf cfg ([8, 8] @ lit ''%c '') [AInt (ucast (spinner ! unat (n div 10000 mod 4)))] s else Inr ((), s)) = Inr ((), s')
    \<and> memory s' = memory s"
  for n :: u32
  using spinner_keeps [of cfg "ucast (spinner ! unat (n div 10000 mod 4))" s] by (auto simp: keeps_def)

lemma scan_node_adds:
  assumes "roomy cfg" "\<forall>k. chunk_ok je k" "valid_node n" "bytes_at (memory s) a (length (node_bytes n)) = node_bytes n"
    and "a \<noteq> 0" "a + 40 \<noteq> 0"
  shows "\<exists>st'. keeps (scan_node cfg je a st s) s (True, st') \<and> sc_lists st' = add_entry a n (sc_lists st)
    \<and> sc_offset st' = sc_offset st"
proof (cases n)
  case (Dirent d)
  have d: "dirent_crc (memory s) a" "dirent_name_crc (memory s) a"
    using dirent_read(2,3) assms(3-6) unfolding Dirent by simp_all
  let ?l = "add_entry a n (sc_lists st)"
  have "keeps (printf cfg (8 # 8 # lit ''.  '') [] s) s ()"
    using keeps_plain [OF assms(1), of "8 # 8 # lit ''.  ''" "[]" s] by (simp add: lit_def)
  then have "keeps (scan_node cfg je a st s) s (True, st\<lparr>sc_lists := ?l, sc_counterN := sc_counterN st + 1\<rparr>)"
      (is "keeps _ _ (_, ?st)")
    using d node_header_read [OF assms(5,4)] assms(2)
    by (simp add: scan_node_def Let_def Dirent add_node_def) (auto intro: keeps_bind)
  then show ?thesis by (intro exI [of _ ?st]) simp
next
  case (Inode f)
  have "keeps (scan_node cfg je a st s) s (True, st\<lparr>sc_lists := add_entry a n (sc_lists st)\<rparr>)"
      (is "keeps _ _ (_, ?st)")
    using inode_read(2) assms(4,5) node_header_read [OF assms(5,4)] assms(2)
    by (simp add: scan_node_def Let_def Inode add_node_def)
  then show ?thesis by (intro exI [of _ ?st]) simp
next
  case Cleanmarker
  have "keeps (scan_node cfg je a st s) s (True, st)"
    using node_header_read [OF assms(5,4)] by (simp add: scan_node_def Let_def Cleanmarker)
  then show ?thesis using Cleanmarker by (intro exI [of _ st]) simp
qed

lemma scan_step_node:
  assumes "roomy cfg" "\<forall>k. chunk_ok je k" "valid_node n" "a = pi_offset part + sc_offset st"
    and "bytes_at (memory s) a (length (node_bytes n)) = node_bytes n" "a \<noteq> 0" "a + 40 \<noteq> 0"
    and "sc_offset st < pi_size part - 68" "length (node_bytes n) + 3 < 2 ^ 32"
  shows "\<exists>st' s'. scan_step cfg je part (st, s) = Inr (Inl (st', s')) \<and> memory s' = memory s
    \<and> sc_lists st' = add_entry a n (sc_lists st)
    \<and> sc_offset st' = sc_offset st + of_nat (length (padded (node_bytes n)))"
proof -
  let ?st = "st\<lparr>sc_counter := sc_counter st + 1\<rparr>"
  obtain s1 where 1: "(if sc_counter ?st mod 10000 = 0
      then printf cfg ([8, 8] @ lit ''%c '') [AInt (ucast (spinner ! unat (sc_counter ?st div 10000 mod 4)))] s else Inr ((), s))
      = Inr ((), s1)" "memory s1 = memory s"
    using spins [OF assms(1), of "sc_counter ?st" s] by auto
  obtain st2 s2 where 2: "scan_node cfg je a ?st s1 = Inr ((True, st2), s2)" "memory s2 = memory s"
    "sc_lists st2 = add_entry a n (sc_lists st)" "sc_offset st2 = sc_offset st"
    using scan_node_adds [OF assms(1-3), of s1 a ?st] assms(5-7) 1(2) by (auto simp: keeps_def)
  note h = node_header_read [OF assms(6,5)]
  have "(of_nat (length (node_bytes n)) + 3 :: u32) AND NOT 3 = of_nat (length (padded (node_bytes n)))"
    using round_up [OF assms(9)] by (simp add: padded_def)
  then have "scan_step cfg je part (st, s)
      = Inr (Inl (st2\<lparr>sc_offset := sc_offset st + of_nat (length (padded (node_bytes n)))\<rparr>, s2))"
    using assms(8) 1 2 h by (simp add: scan_step_def Let_def assms(4) [symmetric] del: node_length)
  then show ?thesis using 2
    by (intro exI [of _ "st2\<lparr>sc_offset := sc_offset st + of_nat (length (padded (node_bytes n)))\<rparr>"] exI [of _ s2]) simp
qed

lemma padded_length: "length bs \<le> length (padded bs)" "length (padded bs) \<le> length bs + 3"
proof -
  have "(4 - length bs mod 4) mod 4 < 4" by simp
  then show "length bs \<le> length (padded bs)" "length (padded bs) \<le> length bs + 3"
    unfolding padded_def length_append length_replicate by linarith+
qed

lemma node_bytes_pos: "12 \<le> length (node_bytes n)"
  by (cases n) simp_all

text \<open>The nodes of an image, one after the other.\<close>

lemma scan_nodes:
  assumes "roomy cfg" "\<forall>k. chunk_ok je k"
  shows "\<lbrakk>\<forall>n\<in>set ns. valid_node n; bytes_at (memory s) (pi_offset part + sc_offset st) (length (image_bytes ns)) = image_bytes ns;
      0 < unat (pi_offset part); unat (pi_offset part) + unat (pi_size part) \<le> 2 ^ 32;
      unat (sc_offset st) + length (image_bytes ns) + 68 \<le> unat (pi_size part)\<rbrakk>
    \<Longrightarrow> \<exists>st' s'. loop (scan_step cfg je part) (st, s) = loop (scan_step cfg je part) (st', s') \<and> memory s' = memory s
      \<and> sc_lists st' = fold (\<lambda>(a, n). add_entry a n) (node_addrs (pi_offset part + sc_offset st) ns) (sc_lists st)
      \<and> unat (sc_offset st') = unat (sc_offset st) + length (image_bytes ns)"
proof (induction ns arbitrary: st s)
  case (Cons n ns)
  let ?a = "pi_offset part + sc_offset st" and ?l = "length (padded (node_bytes n))"
  have img: "image_bytes (n # ns) = node_bytes n @ drop (length (node_bytes n)) (padded (node_bytes n)) @ image_bytes ns"
    "image_bytes (n # ns) = padded (node_bytes n) @ image_bytes ns"
    by (simp_all add: image_bytes_def padded_def)
  then have l: "length (image_bytes (n # ns)) = ?l + length (image_bytes ns)" by simp
  have size: "unat (pi_size part) < 2 ^ 32" using unat_u32_less by blast
  have room: "unat (sc_offset st) + ?l + length (image_bytes ns) + 68 \<le> unat (pi_size part)" using Cons.prems(5) l by simp
  have b: "bytes_at (memory s) ?a (length (node_bytes n)) = node_bytes n"
    using bytes_at_head Cons.prems(2) img(1) by metis
  have rest: "bytes_at (memory s) (?a + of_nat ?l) (length (image_bytes ns)) = image_bytes ns"
    using bytes_at_part [of "memory s" ?a "padded (node_bytes n)" "image_bytes ns" "[]"] Cons.prems(2) unfolding img(2) by simp
  have ua: "unat ?a = unat (pi_offset part) + unat (sc_offset st)"
    using Cons.prems(4) room by (simp add: unat_word_ariths)
  have a0: "?a \<noteq> 0" using ua Cons.prems(3) by (metis add_gr_0 less_irrefl unat_0)
  have a40: "?a + 40 \<noteq> 0"
  proof
    assume "?a + 40 = 0"
    moreover have "unat (?a + 40) = unat ?a + 40" using ua Cons.prems(4) room by (simp add: unat_word_ariths)
    ultimately show False by simp
  qed
  have max: "sc_offset st < pi_size part - 68"
    using room padded_length(1) [of "node_bytes n"] node_bytes_pos [of n]
    by (simp add: word_less_nat_alt unat_sub word_le_nat_alt)
  have small: "length (node_bytes n) + 3 < 2 ^ 32" using room padded_length(1) [of "node_bytes n"] size by linarith
  have "valid_node n" using Cons.prems(1) by simp
  then obtain st1 s1 where 1: "scan_step cfg je part (st, s) = Inr (Inl (st1, s1))" "memory s1 = memory s"
    "sc_lists st1 = add_entry ?a n (sc_lists st)" "sc_offset st1 = sc_offset st + of_nat ?l"
    using scan_step_node [OF assms _ refl b a0 a40 max small] by blast
  have o1: "unat (sc_offset st1) = unat (sc_offset st) + ?l"
    unfolding 1(4) by (rule unat_offset) (use room size in linarith)
  have a1: "pi_offset part + sc_offset st1 = ?a + of_nat ?l" by (simp add: 1(4))
  obtain st' s' where i: "loop (scan_step cfg je part) (st1, s1) = loop (scan_step cfg je part) (st', s')" "memory s' = memory s1"
    "sc_lists st' = fold (\<lambda>(a, n). add_entry a n) (node_addrs (?a + of_nat ?l) ns) (sc_lists st1)"
    "unat (sc_offset st') = unat (sc_offset st1) + length (image_bytes ns)"
    using Cons.IH [of s1 st1] Cons.prems(1,3,4) rest 1(2) o1 room unfolding a1 by auto
  then show ?case using 1 o1 l loop_simps(2) [of "scan_step cfg je part", OF 1(1)]
    by (intro exI [of _ st'] exI [of _ s']) simp
qed (auto simp: image_bytes_def)

text \<open>The erased rest: it is hopped over in steps of at least four bytes.\<close>

lemma scan_empty_returns:
  assumes "68 \<le> unat (pi_size part)" "off < pi_size part - 68"
  shows "\<exists>r. jffs2_scan_empty m off part = Inr r \<and> unat off < unat r"
proof -
  have max: "unat (pi_size part - 68) = unat (pi_size part) - 68" using assms(1) by (simp add: unat_sub word_le_nat_alt)
  have size: "unat (pi_size part) < 2 ^ 32" by (rule unat_u32_less)
  have add: "unat (x + of_nat k) = unat x + k" if "unat x < unat (pi_size part) - 68" "k \<le> 36" for x :: u32 and k
    by (rule unat_offset) (use that size in linarith)
  have o: "unat off < unat (pi_size part) - 68" using assms(2) max by (simp add: word_less_nat_alt)
  show ?thesis
    unfolding jffs2_scan_empty_def
  proof (rule loop_total [where P = "\<lambda>(start, offset). unat off < unat start \<and> unat start \<le> unat offset"
        and m = "\<lambda>(start, offset). 2 ^ 32 - unat offset"])
    show "case (off + 4, off + 32) of (start, offset) \<Rightarrow> unat off < unat start \<and> unat start \<le> unat offset"
      using add [OF o, of 4] add [OF o, of 32] by simp
    fix st :: "u32 \<times> u32"
    obtain start offset where st: "st = (start, offset)" by fastforce
    assume P: "case st of (start, offset) \<Rightarrow> unat off < unat start \<and> unat start \<le> unat offset"
    show "(\<exists>s'. scan_empty_step m part st = Inr (Inl s') \<and>
        (case s' of (start, offset) \<Rightarrow> unat off < unat start \<and> unat start \<le> unat offset) \<and>
        (case s' of (start, offset) \<Rightarrow> 2 ^ 32 - unat offset) < (case st of (start, offset) \<Rightarrow> 2 ^ 32 - unat offset)) \<or>
      (\<exists>r. scan_empty_step m part st = Inr (Inr r) \<and> unat off < unat r)"
    proof (cases "offset < pi_size part - 68")
      case True
      then have "unat offset < unat (pi_size part) - 68" using max by (simp add: word_less_nat_alt)
      with add [OF this, of 4] add [OF this, of 36] P True size show ?thesis
        by (auto simp: st scan_empty_step_def Let_def add.assoc)
    next
      case False
      then show ?thesis using P by (simp add: st scan_empty_step_def)
    qed
  qed
qed

definition erased :: "mem \<Rightarrow> addr \<Rightarrow> nat \<Rightarrow> bool" where
  "erased m a n = (\<forall>x\<in>region a n. m x = 0xFF)"

lemma unknown_erased:
  assumes "erased m a 12"
  shows "un_magic (unknown_at m a) = 0xffff" "un_nodetype (unknown_at m a) = 0xffff"
proof -
  have "bytes_at m a 12 ! i = 0xFF" if "i < 12" for i
    using assms that by (simp add: erased_def in_region_offset)
  then show "un_magic (unknown_at m a) = 0xffff" "un_nodetype (unknown_at m a) = 0xffff"
    by (simp_all add: unknown_at_def Let_def ld16_def del: nth_bytes_at)
qed

lemma scan_rest:
  assumes "roomy cfg" "68 \<le> unat (pi_size part)" "erased m (pi_offset part + of_nat k) (unat (pi_size part) - k)"
    and "unat (pi_offset part) + unat (pi_size part) \<le> 2 ^ 32"
    and "unat (sc_offset st) = k" "memory s = m"
  shows "\<exists>s'. loop (scan_step cfg je part) (st, s) = Inr ((True, sc_lists st), s') \<and> memory s' = m"
proof -
  have max: "unat (pi_size part - 68) = unat (pi_size part) - 68" using assms(2) by (simp add: unat_sub word_le_nat_alt)
  have "\<exists>r. loop (scan_step cfg je part) (st, s) = Inr r \<and> fst r = (True, sc_lists st) \<and> memory (snd r) = m"
  proof (rule loop_total [where P = "\<lambda>(st', s'). sc_lists st' = sc_lists st \<and> memory s' = m \<and> k \<le> unat (sc_offset st')"
        and m = "\<lambda>(st', s'). 2 ^ 32 - unat (sc_offset st')"])
    fix x :: "scan_state \<times> sys"
    obtain st1 s1 where x: "x = (st1, s1)" by fastforce
    assume "case x of (st', s') \<Rightarrow> sc_lists st' = sc_lists st \<and> memory s' = m \<and> k \<le> unat (sc_offset st')"
    then have P: "sc_lists st1 = sc_lists st" "memory s1 = m" "k \<le> unat (sc_offset st1)" by (simp_all add: x)
    let ?st = "st1\<lparr>sc_counter := sc_counter st1 + 1\<rparr>" and ?off = "sc_offset st1"
    show "(\<exists>s'. scan_step cfg je part x = Inr (Inl s') \<and>
        (case s' of (st', s') \<Rightarrow> sc_lists st' = sc_lists st \<and> memory s' = m \<and> k \<le> unat (sc_offset st')) \<and>
        (case s' of (st', s') \<Rightarrow> 2 ^ 32 - unat (sc_offset st')) < (case x of (st', s') \<Rightarrow> 2 ^ 32 - unat (sc_offset st'))) \<or>
      (\<exists>r. scan_step cfg je part x = Inr (Inr r) \<and> fst r = (True, sc_lists st) \<and> memory (snd r) = m)"
    proof (cases "?off < pi_size part - 68")
      case False
      have "keeps (putstr cfg ([8, 8] @ lit '' done.'' @ [13, 10]) s1) s1 ()" by (rule keeps_putstr [OF assms(1)]) simp
      then show ?thesis using False P by (auto simp: x scan_step_def keeps_def)
    next
      case True
      obtain s2 where 2: "(if sc_counter ?st mod 10000 = 0
      then printf cfg ([8, 8] @ lit ''%c '') [AInt (ucast (spinner ! unat (sc_counter ?st div 10000 mod 4)))] s1 else Inr ((), s1))
      = Inr ((), s2)" "memory s2 = m"
    using spins [OF assms(1), of "sc_counter ?st" s1] P(2) by auto
      have o: "unat ?off + 68 < unat (pi_size part)" using True max by (simp add: word_less_nat_alt)
      have "erased m (pi_offset part + ?off) 12"
      proof -
        have "?off = of_nat (k + (unat ?off - k))" using P(3) by simp
        then have "pi_offset part + ?off = pi_offset part + of_nat k + of_nat (unat ?off - k)"
          by (metis add.assoc of_nat_add)
        then have "region (pi_offset part + ?off) 12 \<subseteq> region (pi_offset part + of_nat k) (unat (pi_size part) - k)"
          using region_sub [of "unat ?off - k" 12 "unat (pi_size part) - k" "pi_offset part + of_nat k"] o P(3) by simp
        then show ?thesis using assms(3) by (auto simp: erased_def)
      qed
      note u = unknown_erased [OF this]
      obtain r where r: "jffs2_scan_empty m ?off part = Inr r" "unat ?off < unat r"
        using scan_empty_returns [OF assms(2) True] by blast
      have "unat r < 2 ^ 32" by (rule unat_u32_less)
      have "scan_step cfg je part x = Inr (Inl (?st\<lparr>sc_offset := r\<rparr>, s2))"
        using True 2 u r(1) by (simp add: x scan_step_def Let_def)
      then show ?thesis using P 2 r(2) \<open>unat r < 2 ^ 32\<close> by (simp add: x)
    qed
  qed (use assms(5,6) in simp)
  then show ?thesis by auto
qed

lemma fold_add_entry:
  "fold (\<lambda>(a, n). add_entry a n) ps pL
    = pL\<lparr>dirList := dirList pL @ map fst (filter (is_dirent \<circ> snd) ps),
        dirListCount := dirListCount pL + length (filter (is_dirent \<circ> snd) ps),
        fragList := fragList pL @ map fst (filter (is_inode \<circ> snd) ps),
        fragListCount := fragListCount pL + length (filter (is_inode \<circ> snd) ps)\<rparr>"
proof (induction ps arbitrary: pL)
  case (Cons p ps)
  obtain a n where p: "p = (a, n)" by fastforce
  show ?case unfolding fold_simps o_apply Cons.IH p prod.case by (cases n) simp_all
qed simp

text \<open>What the lists hold after the scan of an image at \<open>a\<close>.\<close>

definition scanned :: "addr \<Rightarrow> node list \<Rightarrow> b_lists" where
  "scanned a ns =
     (let ds = filter (is_dirent \<circ> snd) (node_addrs a ns); fs = filter (is_inode \<circ> snd) (node_addrs a ns)
      in \<lparr>partOffset = a, dirList = map fst ds, dirListCount = length ds, fragList = map fst fs, fragListCount = length fs\<rparr>)"

text \<open>A partition that holds an image and is erased behind it.\<close>

definition holds :: "mem \<Rightarrow> part_info \<Rightarrow> node list \<Rightarrow> bool" where
  "holds m part ns =
     (let k = length (image_bytes ns) in
      (\<forall>n\<in>set ns. valid_node n) \<and> bytes_at m (pi_offset part) k = image_bytes ns
      \<and> erased m (pi_offset part + of_nat k) (unat (pi_size part) - k)
      \<and> 0 < unat (pi_offset part) \<and> unat (pi_offset part) + unat (pi_size part) \<le> 2 ^ 32
      \<and> k + 68 \<le> unat (pi_size part))"

lemma build_lists_image:
  assumes "roomy cfg" "\<forall>k. chunk_ok je k" "holds (memory s) part ns"
  shows "keeps (jffs2_1pass_build_lists cfg je part pL s) s (True, scanned (pi_offset part) ns)"
proof -
  let ?k = "length (image_bytes ns)" and ?pL = "jffs_init_1pass_list pL\<lparr>partOffset := pi_offset part\<rparr>"
  note h = assms(3) [unfolded holds_def Let_def]
  have l: "keeps (loop (scan_step cfg je part) (\<lparr>sc_offset = 0, sc_counter = 0, sc_counterN = 0, sc_lists = ?pL\<rparr>, s1)) s1
      (True, scanned (pi_offset part) ns)" if s1: "memory s1 = memory s" for s1
  proof -
    let ?st = "\<lparr>sc_offset = 0, sc_counter = 0, sc_counterN = 0, sc_lists = ?pL\<rparr>"
    obtain st2 s2 where 2: "loop (scan_step cfg je part) (?st, s1) = loop (scan_step cfg je part) (st2, s2)" "memory s2 = memory s1"
      "sc_lists st2 = fold (\<lambda>(a, n). add_entry a n) (node_addrs (pi_offset part) ns) ?pL" "unat (sc_offset st2) = ?k"
      using scan_nodes [OF assms(1,2), of ns s1 part ?st] h s1 by auto
    have "sc_lists st2 = scanned (pi_offset part) ns"
      unfolding 2(3) fold_add_entry by (simp add: scanned_def Let_def jffs_init_1pass_list_def)
    moreover obtain s3 where "loop (scan_step cfg je part) (st2, s2) = Inr ((True, sc_lists st2), s3)" "memory s3 = memory s"
      using scan_rest [OF assms(1) _ _ _ 2(4), of part "memory s" s2] h 2(2) s1 by auto
    ultimately show ?thesis using 2(1) s1 by simp
  qed
  have p: "keeps (printf cfg (lit ''Scanning JFFS2 FS:   '') [] s) s ()"
    by (rule keeps_plain [OF assms(1)]) (simp_all add: lit_def ch_eq)
  show ?thesis
    unfolding jffs2_1pass_build_lists_def Let_def by (rule keeps_bind [OF p]) (use l in simp)
qed

section \<open>Nodes and their addresses\<close>

fun dirents :: "node list \<Rightarrow> dirent list" where
  "dirents [] = []"
| "dirents (Dirent d # ns) = d # dirents ns"
| "dirents (n # ns) = dirents ns"

fun frags :: "node list \<Rightarrow> frag list" where
  "frags [] = []"
| "frags (Inode f # ns) = f # frags ns"
| "frags (n # ns) = frags ns"

text \<open>The fragments and where they are.\<close>

fun frag_addrs :: "(addr \<times> node) list \<Rightarrow> (addr \<times> frag) list" where
  "frag_addrs [] = []"
| "frag_addrs ((a, Inode f) # ps) = (a, f) # frag_addrs ps"
| "frag_addrs (p # ps) = frag_addrs ps"

lemma frag_addrs_simps:
  "map fst (frag_addrs ps) = map fst (filter (is_inode \<circ> snd) ps)" "(b, f) \<in> set (frag_addrs ps) \<Longrightarrow> (b, Inode f) \<in> set ps"
  by (induction ps rule: frag_addrs.induct) auto

lemma map_snd_frag_addrs: "map snd (frag_addrs (node_addrs a ns)) = frags ns"
  by (induction ns arbitrary: a rule: frags.induct) simp_all

lemma node_at:
  assumes "bytes_at m a (length (image_bytes ns)) = image_bytes ns" "(b, n) \<in> set (node_addrs a ns)"
  shows "n \<in> set ns \<and> bytes_at m b (length (node_bytes n)) = node_bytes n
    \<and> region b (length (node_bytes n)) \<subseteq> region a (length (image_bytes ns))"
  using assms
proof (induction ns arbitrary: a)
  case (Cons n' ns)
  let ?p = "padded (node_bytes n')"
  have img: "image_bytes (n' # ns) = ?p @ image_bytes ns" by (simp add: image_bytes_def)
  have p: "?p = node_bytes n' @ drop (length (node_bytes n')) ?p" by (simp add: padded_def)
  have l: "length (image_bytes (n' # ns)) = length ?p + length (image_bytes ns)" by (simp add: img)
  have h: "bytes_at m a (length ?p) = ?p" using bytes_at_head Cons.prems(1) unfolding img by blast
  show ?case
  proof (cases "(b, n) = (a, n')")
    case True
    then show ?thesis
      using bytes_at_head [of m a "node_bytes n'"] h p padded_length(1) [of "node_bytes n'"]
        region_mono [of "length (node_bytes n')" "length (image_bytes (n' # ns))" a] l by (metis list.set_intros(1) prod.inject trans_le_add1)
  next
    case False
    have "bytes_at m (a + of_nat (length ?p)) (length (image_bytes ns)) = image_bytes ns"
      using bytes_at_part [of m a ?p "image_bytes ns" "[]"] Cons.prems(1) by (simp add: img)
    moreover have "(b, n) \<in> set (node_addrs (a + of_nat (length ?p)) ns)" using Cons.prems(2) False by auto
    ultimately have "n \<in> set ns \<and> bytes_at m b (length (node_bytes n)) = node_bytes n
      \<and> region b (length (node_bytes n)) \<subseteq> region (a + of_nat (length ?p)) (length (image_bytes ns))"
      by (rule Cons.IH)
    moreover have "region (a + of_nat (length ?p)) (length (image_bytes ns)) \<subseteq> region a (length (image_bytes (n' # ns)))"
      by (rule region_sub) (simp add: l)
    ultimately show ?thesis by auto
  qed
qed simp

lemma dirents_read:
  assumes "bytes_at m a (length (image_bytes ns)) = image_bytes ns" "\<forall>n\<in>set ns. valid_node n"
  shows "map (dirent_at m) (dirList (scanned a ns)) = map as_dirent (dirents ns)"
proof -
  have "map (dirent_at m) (map fst (filter (is_dirent \<circ> snd) (node_addrs b ns'))) = map as_dirent (dirents ns')"
    if "set (node_addrs b ns') \<subseteq> set (node_addrs a ns)" for b ns'
    using that
  proof (induction ns' arbitrary: b rule: dirents.induct)
    case (2 d ns')
    then have "(b, Dirent d) \<in> set (node_addrs a ns)" by simp
    from node_at [OF assms(1) this] have "dirent_at m b = as_dirent d" using dirent_read(1) assms(2) by auto
    then show ?case using 2 by simp
  qed simp_all
  then show ?thesis by (simp add: scanned_def Let_def)
qed

section \<open>Reading a file\<close>

text \<open>What the data of a fragment stands for, by its compression.\<close>

definition zlib_stream :: "byte list \<Rightarrow> block list \<Rightarrow> bool" where
  "zlib_stream d blocks =
     (length (stream_bits 0 blocks) \<le> 8 * (length d - 2)
      \<and> (\<forall>k<length (stream_bits 0 blocks). bit (d ! (2 + k div 8)) (k mod 8) = stream_bits 0 blocks ! k))"

inductive packed :: "byte \<Rightarrow> byte list \<Rightarrow> byte list \<Rightarrow> bool" where
  plain: "packed JFFS2_COMPR_NONE page page"
| zeros: "packed JFFS2_COMPR_ZERO d (replicate n 0)"
| rtime: "packed JFFS2_COMPR_RTIME (rtime_compress page) page"
| zlib: "blocks \<noteq> [] \<Longrightarrow> valid_blocks blocks [] \<Longrightarrow> zlib_stream d blocks \<Longrightarrow> packed JFFS2_COMPR_ZLIB d (expand_blocks blocks [])"

definition writes :: "mem \<Rightarrow> mem \<Rightarrow> addr \<Rightarrow> byte list \<Rightarrow> bool" where
  "writes m m' a bs = (bytes_at m' a (length bs) = bs \<and> (\<forall>x. x \<notin> region a (length bs) \<longrightarrow> m' x = m x))"

lemma writes_plain:
  assumes "bytes_at m src (length page) = page" "region src (length page) \<inter> region dst (length page) = {}" "length page < 2 ^ 31"
  shows "writes m (fst (memcpy m dst src (of_nat (length page)))) dst page"
proof -
  have u: "unat (of_nat (length page) :: u32) = length page" using assms(3) by (simp add: unat_of_nat)
  have "up_safe dst src (length page)" by (rule up_safe_disjoint) (use assms(2,3) in auto)
  then show ?thesis
    using memcpy.block_moved [of dst src "of_nat (length page)" m] memcpy.outside [of _ dst "of_nat (length page)" m src] assms(1)
    unfolding u by (simp add: writes_def)
qed

lemma fragment_unpacks:
  assumes "packed compr d page" "compr = ri_compr f" "length page < 2 ^ 31" "ri_dsize f = of_nat (length page)"
    and "bytes_at m src (length d) = d" "region src (length d) \<inter> region dst (length page) = {}"
  shows "\<exists>m'. fragment je f src dst m = Inr (Some m') \<and> writes m m' dst page"
proof -
  have u: "unat (of_nat (length page) :: u32) = length page" using assms(3) by (simp add: unat_of_nat)
  have n: "length page < 2 ^ 32" using assms(3) by simp
  show ?thesis
    using assms(1)
  proof cases
    case plain
    then show ?thesis using writes_plain [of m src page dst] assms by (simp add: fragment_def)
  next
    case (zeros n)
    then show ?thesis
      using assms(2,4) n u bytes_at_store_bytes [of page m dst] memory_store_bytes [of page _ dst m]
      by (simp add: fragment_def writes_def)
  next
    case rtime
    then have "writes m (rtime_decompress src dst (ri_csize f) (of_nat (length page)) m) dst page"
      using rtime_loop_code [of "replicate 256 0" 0 page m dst src 0] assms(5,6) n u
      by (simp add: rtime_decompress_def rtime_compress_def writes_def)
    then show ?thesis using rtime assms(2,4) by (simp add: fragment_def)
  next
    case (zlib blocks)
    let ?b = "stream_bits 0 blocks"
    have k: "2 + k div 8 < length d" if "k < length ?b" for k using zlib(5) that by (simp add: zlib_stream_def) linarith
    have i: "src + 2 + of_nat (k div 8) = src + of_nat (2 + k div 8)" for k by simp
    have "\<forall>k<length ?b. bit (m (src + 2 + of_nat (k div 8))) (k mod 8) = ?b ! k"
      using k zlib(5) nth_bytes_at [where m = m and a = src and n = "length d"] unfolding i assms(5) zlib_stream_def by simp
    moreover have "\<forall>k<length ?b. src + 2 + of_nat (k div 8) \<notin> region dst (length (expand_blocks blocks []))"
      using k assms(6) in_region_offset [of _ "length d" src] unfolding i zlib(2) by blast
    ultimately obtain m' where "zlib_decompress (stack_junk je) src dst (ri_csize f) (ri_dsize f) m
        = Inr (int (length (expand_blocks blocks [])), m')" "writes m m' dst page"
      using inflated [OF zlib(3,4)] assms(3) unfolding zlib(2) writes_def by blast
    then show ?thesis using zlib(1) assms(2) by (simp add: fragment_def)
  qed
qed

text \<open>
  The fragments of a file, in the order they are found: each continues the file, and a size that is repeated is the
  file's.
\<close>

fun file_frags :: "nat \<Rightarrow> nat \<Rightarrow> u32 \<Rightarrow> frag list \<Rightarrow> byte list list \<Rightarrow> bool" where
  "file_frags flen off prev [] [] = (off = flen)"
| "file_frags flen off prev (f # fs) (p # ps) =
     (packed (fr_compr f) (fr_data f) p \<and> p \<noteq> [] \<and> fr_dsize f = of_nat (length p) \<and> fr_offset f = of_nat off
      \<and> (fr_isize f = prev \<longrightarrow> fr_isize f = 0 \<or> fr_isize f = of_nat flen)
      \<and> file_frags flen (off + length p) (fr_isize f) fs ps)"
| "file_frags flen off prev _ _ = False"

lemma file_frags_less: "file_frags flen off prev fs ps \<Longrightarrow> off \<le> flen \<and> (fs \<noteq> [] \<longrightarrow> off < flen)"
  by (induction flen off prev fs ps rule: file_frags.induct) (auto simp: neq_Nil_conv)

lemma file_frags_total: "file_frags flen off prev fs ps \<Longrightarrow> off + length (concat ps) = flen"
  by (induction flen off prev fs ps rule: file_frags.induct) auto

text \<open>The sizes: before the total is known it is kept one above what has been read.\<close>

definition sizes_ok :: "nat \<Rightarrow> nat \<Rightarrow> u32 \<Rightarrow> read_state \<Rightarrow> bool" where
  "sizes_ok flen off prev r =
     (rs_size r = of_nat off \<and> rs_oldTotalSize r = prev
      \<and> rs_totalSize r = (if rs_totalSizeSet r then of_nat flen else of_nat (off + 1)))"

lemma sizes_continue: "sizes_ok flen off prev r \<Longrightarrow> off < flen \<Longrightarrow> flen < 2 ^ 31 \<Longrightarrow> rs_size r < rs_totalSize r"
  by (auto simp: sizes_ok_def word_less_nat_alt unat_of_nat simp del: of_nat_Suc of_nat_add)

lemma sizes_next:
  assumes "sizes_ok flen off prev r" "file_frags flen off prev (f # fs) (p # ps)" "ri_isize j = fr_isize f"
    and "ri_dsize j = fr_dsize f"
  shows "sizes_ok flen (off + length p) (fr_isize f) (read_sizes j r\<lparr>rs_size := rs_size (read_sizes j r) + ri_dsize j\<rparr>)"
  using assms by (auto simp: sizes_ok_def read_sizes_def Let_def)

definition frag_at :: "mem \<Rightarrow> addr \<Rightarrow> frag \<Rightarrow> bool" where
  "frag_at m b f = (inode_at m b = as_inode f \<and> bytes_at m (b + 68) (length (fr_data f)) = fr_data f)"

lemma bytes_at_frame: "(\<forall>x. x \<notin> D \<longrightarrow> m' x = m x) \<Longrightarrow> region a n \<inter> D = {} \<Longrightarrow> bytes_at m' a n = bytes_at m a n"
  by (rule bytes_at_eqI) (use in_region_offset in blast)

lemma frag_at_frame:
  assumes "\<forall>x. x \<notin> D \<longrightarrow> m' x = m x" "region b (68 + length (fr_data f)) \<inter> D = {}" "frag_at m b f"
  shows "frag_at m' b f"
proof -
  have "region b 68 \<subseteq> region b (68 + length (fr_data f))" by (rule region_mono) simp
  moreover have "region (b + of_nat 68) (length (fr_data f)) \<subseteq> region b (68 + length (fr_data f))" by (rule region_sub) simp
  ultimately have "region b 68 \<inter> D = {}" "region (b + 68) (length (fr_data f)) \<inter> D = {}" using assms(2) by auto
  from this [THEN bytes_at_frame [OF assms(1)]] show ?thesis using assms(3) by (simp add: frag_at_def inode_at_def)
qed

lemma read_frags_file:
  assumes "flen < 2 ^ 31" "dest \<noteq> 0"
  shows "\<lbrakk>\<forall>(b, f)\<in>set bfs. frag_at (memory s) b f \<and> region b (68 + length (fr_data f)) \<inter> region dest flen = {};
      file_frags flen off prev (filter (\<lambda>f. fr_ino f = ino) (map snd bfs)) ps; sizes_ok flen off prev r;
      bytes_at (memory s) dest off = front; length front = off\<rbrakk>
    \<Longrightarrow> \<exists>s'. read_frags cfg je ino dest (map fst bfs) r s = Inr (of_nat flen, s')
      \<and> bytes_at (memory s') dest flen = front @ concat ps \<and> (\<forall>x. x \<notin> region dest flen \<longrightarrow> memory s' x = memory s x)"
proof (induction bfs arbitrary: off prev ps r s front)
  case Nil
  then have "ps = [] \<and> off = flen" by (cases ps) simp_all
  then show ?case using Nil.prems by (auto simp: sizes_ok_def)
next
  case (Cons bf bfs)
  obtain b f where bf: "bf = (b, f)" by fastforce
  have f: "frag_at (memory s) b f" "region b (68 + length (fr_data f)) \<inter> region dest flen = {}"
    using Cons.prems(1) by (simp_all add: bf)
  note j = f(1) [unfolded frag_at_def]
  show ?case
  proof (cases "fr_ino f = ino")
    case False
    show ?thesis
    proof (cases "rs_size r < rs_totalSize r")
      case True
      then show ?thesis
        using Cons.IH [of s off prev ps r front] Cons.prems False j by (simp add: bf Let_def as_inode_def)
    next
      case no: False
      then have "\<not> off < flen" using sizes_continue [OF Cons.prems(3) _ assms(1)] by blast
      then have "filter (\<lambda>f. fr_ino f = ino) (map snd (bf # bfs)) = []" "off = flen"
        using file_frags_less [OF Cons.prems(2)] by auto
      then have "ps = []" "off = flen" using Cons.prems(2) by (cases ps, simp_all)
      then show ?thesis using no Cons.prems(3-5) by (auto simp: sizes_ok_def)
    qed
  next
    case True
    then obtain p ps' where ps: "ps = p # ps'" using Cons.prems(2) by (cases ps) (simp_all add: bf)
    let ?fs = "filter (\<lambda>f. fr_ino f = ino) (map snd bfs)" and ?j = "as_inode f"
    have ff: "file_frags flen off prev (f # ?fs) (p # ps')" using Cons.prems(2) True by (simp add: bf ps)
    then have p: "packed (fr_compr f) (fr_data f) p" "fr_dsize f = of_nat (length p)" "fr_offset f = of_nat off"
      "file_frags flen (off + length p) (fr_isize f) ?fs ps'" by simp_all
    have len: "off < flen" "off + length p \<le> flen" using file_frags_less [OF ff] file_frags_less [OF p(4)] by simp_all
    let ?dst = "dest + of_nat off" and ?r = "read_sizes ?j r\<lparr>rs_size := rs_size (read_sizes ?j r) + ri_dsize ?j\<rparr>"
    have sub: "region ?dst (length p) \<subseteq> region dest flen" by (rule region_sub) (rule len(2))
    have src: "region (b + 68) (length (fr_data f)) \<inter> region ?dst (length p) = {}"
      using region_sub [of 68 "length (fr_data f)" "68 + length (fr_data f)" b] f(2) sub by auto
    obtain m' where m': "fragment je ?j (b + 68) ?dst (memory s) = Inr (Some m')" "writes (memory s) m' ?dst p"
      using fragment_unpacks [OF p(1) _ _ _ _ src, of ?j "memory s" je] len assms(1) p(2) j by (auto simp: as_inode_def)
    have out: "\<forall>x. x \<notin> region dest flen \<longrightarrow> m' x = memory s x" using m'(2) sub by (auto simp: writes_def)
    have "bytes_at m' dest off = bytes_at (memory s) dest off"
    proof (rule bytes_at_frame)
      show "\<forall>x. x \<notin> region ?dst (length p) \<longrightarrow> m' x = memory s x" using m'(2) by (simp add: writes_def)
      show "region dest off \<inter> region ?dst (length p) = {}" by (rule region_before(2)) (use len assms(1) in simp)
    qed
    then have front: "bytes_at m' dest (off + length p) = front @ p"
      using m'(2) Cons.prems(4) by (simp add: bytes_at_append writes_def)
    let ?s = "s\<lparr>memory := m'\<rparr>"
    have "\<exists>s'. read_frags cfg je ino dest (map fst bfs) ?r ?s = Inr (of_nat flen, s')
      \<and> bytes_at (memory s') dest flen = (front @ p) @ concat ps' \<and> (\<forall>x. x \<notin> region dest flen \<longrightarrow> memory s' x = memory ?s x)"
    proof (rule Cons.IH [OF _ p(4)])
      show "\<forall>(b, f)\<in>set bfs. frag_at (memory ?s) b f \<and> region b (68 + length (fr_data f)) \<inter> region dest flen = {}"
        using Cons.prems(1) frag_at_frame [OF out] by auto
      show "sizes_ok flen (off + length p) (fr_isize f) ?r"
        by (rule sizes_next [OF Cons.prems(3) ff]) (simp_all add: as_inode_def)
      show "bytes_at (memory ?s) dest (off + length p) = front @ p" using front by simp
      show "length (front @ p) = off + length p" using Cons.prems(5) by simp
    qed
    moreover have "read_frags cfg je ino dest (map fst (bf # bfs)) r s = read_frags cfg je ino dest (map fst bfs) ?r ?s"
      using sizes_continue [OF Cons.prems(3) len(1) assms(1)] m'(1) j True assms(2) p(3)
      by (simp add: bf Let_def as_inode_def)
    ultimately show ?thesis using out by (auto simp: ps)
  qed
qed

section \<open>Loading\<close>

text \<open>The inode a name stands for in a directory, and a path from a directory: the newest entry, 0 where there is none.\<close>

definition named :: "node list \<Rightarrow> u32 \<Rightarrow> byte list \<Rightarrow> u32" where
  "named ns pino name =
     found_ino (newest (map as_dirent (filter (\<lambda>d. de_pino d = pino \<and> de_name d = name \<and> de_ino d \<noteq> 0) (dirents ns))))"

fun path_ino :: "node list \<Rightarrow> u32 \<Rightarrow> byte list list \<Rightarrow> u32" where
  "path_ino ns pino [] = pino"
| "path_ino ns pino (n # names) = (let p = named ns pino n in if p = 0 then 0 else path_ino ns p names)"

lemma holds_image:
  assumes "holds m part ns"
  shows "bytes_at m (pi_offset part) (length (image_bytes ns)) = image_bytes ns" "\<forall>n\<in>set ns. valid_node n"
    "map (dirent_at m) (dirList (scanned (pi_offset part) ns)) = map as_dirent (dirents ns)"
  using assms dirents_read by (simp_all add: holds_def Let_def)

lemma walk_path:
  assumes "holds m part ns"
  shows "walk m (scanned (pi_offset part) ns) pino names = path_ino ns pino names"
proof -
  have "lookup m (scanned (pi_offset part) ns) pino n = named ns pino n" for pino n
    unfolding lookup_def named_def holds_image(3) [OF assms]
    by (simp add: filter_map o_def dir_match_def as_dirent_def, rule arg_cong [of _ _ "\<lambda>ds. found_ino (newest (map as_dirent ds))"
          , folded as_dirent_def])
       (auto intro: filter_cong)
  then show ?thesis by (induction names arbitrary: pino) (simp_all add: Let_def)
qed

lemma named_entry: "named ns pino n \<noteq> 0 \<Longrightarrow> \<exists>d\<in>set (dirents ns). de_ino d = named ns pino n"
proof -
  assume n: "named ns pino n \<noteq> 0"
  let ?ds = "map as_dirent (filter (\<lambda>d. de_pino d = pino \<and> de_name d = n \<and> de_ino d \<noteq> 0) (dirents ns))"
  from n obtain e where e: "newest ?ds = Some e" "named ns pino n = rd_ino e"
    by (auto simp: named_def found_ino_def split: option.splits)
  from newest_Some [OF e(1)] e(2) show ?thesis by (auto simp: as_dirent_def)
qed

lemma path_entry: "names \<noteq> [] \<Longrightarrow> path_ino ns pino names \<noteq> 0 \<Longrightarrow> \<exists>d\<in>set (dirents ns). de_ino d = path_ino ns pino names"
proof (induction ns pino names rule: path_ino.induct)
  case (2 ns pino n names)
  then show ?case using named_entry [of ns pino n] by (cases "names = []") (auto simp: Let_def split: if_splits)
qed simp

lemma get_list_image:
  assumes "roomy cfg" "\<forall>k. chunk_ok je k" "holds (memory s) part ns"
    and "jffs2_1pass_rescan_needed (memory s) part pL \<or> pL = scanned (pi_offset part) ns"
  shows "keeps (jffs2_get_list cfg je part who pL s) s (True, scanned (pi_offset part) ns)"
  using assms(4) by (auto simp: jffs2_get_list_def intro!: keeps_bind [OF build_lists_image [OF assms(1-3)]])

lemma resolve_file:
  assumes "roomy cfg" "holds (memory s) part ns" "\<exists>d\<in>set (dirents ns). de_ino d = ino"
    and "\<forall>d\<in>set (dirents ns). de_ino d = ino \<longrightarrow> de_type d \<noteq> DT_LNK"
  shows "keeps (jffs2_1pass_resolve_inode cfg (scanned (pi_offset part) ns) ino s) s ino"
proof -
  let ?ds = "filter (\<lambda>d. ino = rd_ino d) (map as_dirent (dirents ns))"
  have "?ds \<noteq> []" using assms(3) by (auto simp: filter_empty_conv as_dirent_def)
  then obtain d where d: "newest ?ds = Some d" by fastforce
  from newest_Some [OF this] assms(4) have t: "rd_ino d = ino" "rd_type d \<noteq> DT_LNK" by (auto simp: as_dirent_def)
  have "keeps (resolve_loop cfg ino (dirList (scanned (pi_offset part) ns)) 0 None s) s (Some d)"
    using resolve_loop_keeps [OF assms(1) refl, where s = s and ino = ino and b = None and bs = "dirList (scanned (pi_offset part) ns)"]
    unfolding holds_image(3) [OF assms(2)] using d by (simp add: newest_def)
  then show ?thesis unfolding jffs2_1pass_resolve_inode_def by (rule keeps_bind) (simp add: t)
qed

text \<open>The memory that the nodes lie in.\<close>

definition part_region :: "part_info \<Rightarrow> addr set" where
  "part_region part = region (pi_offset part) (unat (pi_size part))"

lemma holds_frags:
  assumes "holds m part ns" "part_region part \<inter> D = {}" "(b, f) \<in> set (frag_addrs (node_addrs (pi_offset part) ns))"
  shows "frag_at m b f \<and> region b (68 + length (fr_data f)) \<inter> D = {}"
proof -
  have "(b, Inode f) \<in> set (node_addrs (pi_offset part) ns)" using frag_addrs_simps(2) [OF assms(3)] .
  note n = node_at [OF holds_image(1) [OF assms(1)] this]
  have "region (pi_offset part) (length (image_bytes ns)) \<subseteq> part_region part"
    unfolding part_region_def by (rule region_mono) (use assms(1) in \<open>simp add: holds_def Let_def\<close>)
  then show ?thesis using n assms(2) inode_read(1,3) [of m b f] unfolding node_length frag_at_def by blast
qed

lemma read_inode_file:
  assumes "holds (memory s) part ns" "part_region part \<inter> region dest flen = {}" "flen < 2 ^ 31" "dest \<noteq> 0"
    and "file_frags flen 0 0 (filter (\<lambda>f. fr_ino f = ino) (frags ns)) pages"
  shows "\<exists>s'. jffs2_1pass_read_inode cfg je (scanned (pi_offset part) ns) ino dest s = Inr (of_nat flen, s')
    \<and> bytes_at (memory s') dest flen = concat pages \<and> (\<forall>x. x \<notin> region dest flen \<longrightarrow> memory s' x = memory s x)"
proof -
  let ?bfs = "frag_addrs (node_addrs (pi_offset part) ns)"
  have l: "fragList (scanned (pi_offset part) ns) = map fst ?bfs" by (simp add: scanned_def Let_def frag_addrs_simps(1))
  show ?thesis
    unfolding jffs2_1pass_read_inode_def l
    using read_frags_file [OF assms(3,4), of ?bfs s 0 0 ino pages
        "\<lparr>rs_totalSize = 1, rs_oldTotalSize = 0, rs_size = 0, rs_totalSizeSet = False\<rparr>" "[]" cfg je] assms(5)
      holds_frags [OF assms(1,2)] by (auto simp: map_snd_frag_addrs sizes_ok_def)
qed

text \<open>
  C2: loading a file of an image.  On a partition that holds an image - its nodes as the format has them, checksums
  included, and erased flash behind them - \<open>jffs2_1pass_load\<close> of a path returns the length of the file the path
  stands for by the newest entries, and the file's data is at the destination: the pages of its fragments, as they
  are, all zero, or as the writers of the format compress them.  Nothing else in memory changes.
\<close>

theorem load_file:
  assumes "roomy cfg" "\<forall>k. chunk_ok je k" "holds (memory s) part ns"
    and "jffs2_1pass_rescan_needed (memory s) part pL \<or> pL = scanned (pi_offset part) ns"
    and "names_ok names" "hd names \<noteq> []" "length (join names) < 256"
    and "ino = path_ino ns 1 names" "ino \<noteq> 0" "\<forall>d\<in>set (dirents ns). de_ino d = ino \<longrightarrow> de_type d \<noteq> DT_LNK"
    and "file_frags (length (concat pages)) 0 0 (filter (\<lambda>f. fr_ino f = ino) (frags ns)) pages"
    and "length (concat pages) < 2 ^ 31" "dest \<noteq> 0" "part_region part \<inter> region dest (length (concat pages)) = {}"
  shows "\<exists>s'. jffs2_1pass_load cfg je dest part (replicate k slash @ join names) pL s
      = Inr ((of_nat (length (concat pages)), scanned (pi_offset part) ns), s')
    \<and> bytes_at (memory s') dest (length (concat pages)) = concat pages
    \<and> (\<forall>x. x \<notin> region dest (length (concat pages)) \<longrightarrow> memory s' x = memory s x)"
proof -
  let ?pl = "scanned (pi_offset part) ns" and ?n = "length (concat pages)"
  obtain s1 where 1: "jffs2_get_list cfg je part ''load'' pL s = Inr ((True, ?pl), s1)" "memory s1 = memory s"
    using get_list_image [OF assms(1-4), of "''load''"] by (auto simp: keeps_def)
  have h: "holds (memory s1) part ns" using 1 assms(3) by simp
  obtain s2 where 2: "jffs2_1pass_search_inode cfg ?pl (replicate k slash @ join names) 1 s1 = Inr (ino, s2)" "memory s2 = memory s"
    using search_inode_keeps [OF assms(1,5-7) 1(2), where pL = ?pl and k = k and pino = 1] 1(2)
    unfolding walk_path [OF assms(3)] assms(8) keeps_def by auto
  have "\<exists>d\<in>set (dirents ns). de_ino d = ino" using path_entry assms(5,8,9) by (auto simp: names_ok_def)
  then obtain s3 where 3: "jffs2_1pass_resolve_inode cfg ?pl ino s2 = Inr (ino, s3)" "memory s3 = memory s"
    using resolve_file [OF assms(1), of s2 part ns ino] assms(3,10) 2(2) by (auto simp: keeps_def)
  obtain s4 where 4: "jffs2_1pass_read_inode cfg je ?pl ino dest s3 = Inr (of_nat ?n, s4)"
    "bytes_at (memory s4) dest ?n = concat pages" "\<forall>x. x \<notin> region dest ?n \<longrightarrow> memory s4 x = memory s x"
    using read_inode_file [OF _ assms(14,12,13,11), of s3 cfg je] assms(3) 3(2) by auto
  have "sint (of_nat ?n :: u32) = int ?n" using assms(12) sint_unat_small [of "of_nat ?n"] by (simp add: unat_of_nat)
  then have "\<not> sint (of_nat ?n :: u32) < 0" by simp
  then show ?thesis using 1 2 3 4 assms(9) by (simp add: jffs2_1pass_load_def)
qed

text \<open>
  A file system with one file in two fragments: three bytes as they are, and five times the same byte in run lengths.
\<close>

definition demo_nodes :: "node list" where
  "demo_nodes =
     [Cleanmarker,
      Dirent \<lparr>de_pino = 1, de_version = 1, de_ino = 2, de_mctime = 0, de_type = 8, de_name = [0x6b]\<rparr>,
      Inode \<lparr>fr_ino = 2, fr_version = 1, fr_mode = 0x81a4, fr_uid = 0, fr_gid = 0, fr_isize = 3, fr_atime = 0, fr_mtime = 0,
        fr_ctime = 0, fr_offset = 0, fr_dsize = 3, fr_compr = 0, fr_usercompr = 0, fr_flags = 0, fr_data_crc = 0,
        fr_data = [1, 2, 3]\<rparr>,
      Inode \<lparr>fr_ino = 2, fr_version = 2, fr_mode = 0x81a4, fr_uid = 0, fr_gid = 0, fr_isize = 8, fr_atime = 0, fr_mtime = 0,
        fr_ctime = 0, fr_offset = 3, fr_dsize = 5, fr_compr = 2, fr_usercompr = 0, fr_flags = 0, fr_data_crc = 0,
        fr_data = [0x61, 4]\<rparr>]"

definition demo_part :: part_info where
  "demo_part = \<lparr>pi_size = 0x10000, pi_offset = 0x10000\<rparr>"

definition demo_env :: jffs2_env where
  "demo_env = \<lparr>chunk_ok = \<lambda>_. True, stack_junk = \<lambda>_. 0, CFG_JFFS2_FIRST_BANK = 0, CFG_JFFS2_NUM_BANKS = 1,
     CFG_JFFS2_FIRST_SECTOR = 0, CFG_LOAD_ADDR = 0\<rparr>"

definition demo_sys :: sys where
  "demo_sys = (reset_sys 0)\<lparr>memory := store_bytes (\<lambda>_. 0xFF) 0x10000 (image_bytes demo_nodes)\<rparr>"

definition no_lists :: b_lists where
  "no_lists = \<lparr>partOffset = 0, dirList = [], dirListCount = 0, fragList = [], fragListCount = 0\<rparr>"

lemma holds_stored:
  assumes "\<forall>n\<in>set ns. valid_node n" "0 < unat (pi_offset part)" "unat (pi_offset part) + unat (pi_size part) \<le> 2 ^ 32"
    and "length (image_bytes ns) + 68 \<le> unat (pi_size part)"
  shows "holds (store_bytes (\<lambda>_. 0xFF) (pi_offset part) (image_bytes ns)) part ns"
proof -
  let ?k = "length (image_bytes ns)"
  have k: "?k < 2 ^ 32" using assms(3,4) by simp
  have "region (pi_offset part + of_nat ?k) (unat (pi_size part) - ?k) \<inter> region (pi_offset part) ?k = {}"
    by (rule region_before(1)) (use assms(3,4) in simp)
  then show ?thesis
    using assms k memory_store_bytes [OF k, of _ "pi_offset part" "\<lambda>_. 0xFF"]
    by (auto simp: holds_def Let_def erased_def bytes_at_store_bytes)
qed

lemma length_image: "length (image_bytes ns) = sum_list (map (\<lambda>n. length (padded (node_bytes n))) ns)"
  by (simp add: image_bytes_def length_concat o_def)

lemma demo_holds: "holds (memory demo_sys) demo_part demo_nodes"
proof -
  have "length (image_bytes demo_nodes) = 200"
    by (simp add: length_image demo_nodes_def padded_def del: node_bytes.simps)
  then have "holds (store_bytes (\<lambda>_. 0xFF) (pi_offset demo_part) (image_bytes demo_nodes)) demo_part demo_nodes"
    by (intro holds_stored) (simp_all add: demo_nodes_def demo_part_def)
  then show ?thesis by (simp add: demo_sys_def demo_part_def)
qed

theorem load_file_witness:
  "\<exists>s'. jffs2_1pass_load dnp1110 demo_env 0x100 demo_part [0x2f, 0x6b] no_lists demo_sys
      = Inr ((8, scanned 0x10000 demo_nodes), s')
    \<and> bytes_at (memory s') 0x100 8 = [1, 2, 3, 0x61, 0x61, 0x61, 0x61, 0x61]"
proof -
  let ?p = "[[1, 2, 3], [0x61, 0x61, 0x61, 0x61, 0x61]] :: byte list list"
  have c: "rtime_compress [0x61, 0x61, 0x61, 0x61, 0x61] = [0x61, 4]"
    by (simp add: rtime_compress_def rtime_code.simps Let_def match_len_def)
  have i: "path_ino demo_nodes 1 [[0x6b]] = 2"
    by (simp add: named_def demo_nodes_def newest_def newer_def as_dirent_def)
  have l: "length (concat ?p) = 8" by simp
  have f: "file_frags 8 0 0 (filter (\<lambda>f. fr_ino f = 2) (frags demo_nodes)) ?p"
    using packed.plain [of "[1, 2, 3]"] packed.rtime [of "[0x61, 0x61, 0x61, 0x61, 0x61]"] by (simp add: demo_nodes_def c)
  have d: "part_region demo_part \<inter> region 0x100 8 = {}"
    unfolding part_region_def by (rule region_disjoint) (simp_all add: demo_part_def)
  have "\<exists>s'. jffs2_1pass_load dnp1110 demo_env 0x100 demo_part (replicate 1 slash @ join [[0x6b]]) no_lists demo_sys
      = Inr ((of_nat 8, scanned (pi_offset demo_part) demo_nodes), s')
    \<and> bytes_at (memory s') 0x100 8 = concat ?p
    \<and> (\<forall>x. x \<notin> region 0x100 8 \<longrightarrow> memory s' x = memory demo_sys x)"
    by (rule load_file [where pages = ?p and ino = 2, unfolded l, OF _ _ demo_holds _ _ _ _ i [symmetric] _ _ f _ _ d])
       (simp_all add: roomy_def dnp1110_def demo_env_def jffs2_1pass_rescan_needed_def no_lists_def names_ok_def demo_nodes_def)
  then show ?thesis by (auto simp: demo_part_def)
qed

text \<open>
  C37: a deleted file is still found.  A file system of this kind marks a deletion by an entry with inode number 0 and
  the highest version.  The search passes such entries over before it compares versions, so a name that has ever had
  an entry keeps standing for an inode, however new its deletion is.
\<close>

theorem deleted_file_still_found:
  assumes "roomy cfg" "holds (memory s) part ns"
    and "d \<in> set (dirents ns)" "de_ino d \<noteq> 0" "de_pino d = pino" "de_name d = name"
    and "e \<in> set (dirents ns)" "de_ino e = 0" "de_pino e = pino" "de_name e = name"
    and "\<forall>e'\<in>set (dirents ns). de_pino e' = pino \<and> de_name e' = name \<longrightarrow> de_version e' \<le> de_version e"
  shows "\<exists>i s'. jffs2_1pass_find_inode cfg (scanned (pi_offset part) ns) name pino s = Inr (i, s') \<and> i \<noteq> 0
    \<and> memory s' = memory s"
proof -
  let ?ds = "map as_dirent (filter (\<lambda>d. de_pino d = pino \<and> de_name d = name \<and> de_ino d \<noteq> 0) (dirents ns))"
  have "newest ?ds \<noteq> None" using assms(3-6) by (auto simp: filter_empty_conv)
  then obtain b where b: "newest ?ds = Some b" by blast
  then have "rd_ino b \<noteq> 0" using newest_Some [OF b] by (auto simp: as_dirent_def)
  then have "walk (memory s) (scanned (pi_offset part) ns) pino [name] \<noteq> 0"
    unfolding walk_path [OF assms(2)] by (simp add: named_def b Let_def)
  then have "lookup (memory s) (scanned (pi_offset part) ns) pino name \<noteq> 0" by (auto simp: Let_def split: if_splits)
  then show ?thesis
    using find_inode_lookup [OF assms(1) refl, of "scanned (pi_offset part) ns" name pino s] by (auto simp: keeps_def)
qed

definition deleted_nodes :: "node list" where
  "deleted_nodes =
     [Dirent \<lparr>de_pino = 1, de_version = 1, de_ino = 2, de_mctime = 0, de_type = 8, de_name = [0x6b]\<rparr>,
      Dirent \<lparr>de_pino = 1, de_version = 2, de_ino = 0, de_mctime = 0, de_type = 8, de_name = [0x6b]\<rparr>]"

theorem deleted_file_still_found_witness:
  "\<exists>i s'. jffs2_1pass_find_inode dnp1110 (scanned 0x10000 deleted_nodes) [0x6b] 1
      ((reset_sys 0)\<lparr>memory := store_bytes (\<lambda>_. 0xFF) 0x10000 (image_bytes deleted_nodes)\<rparr>) = Inr (i, s') \<and> i \<noteq> 0"
proof -
  let ?s = "(reset_sys 0)\<lparr>memory := store_bytes (\<lambda>_. 0xFF) 0x10000 (image_bytes deleted_nodes)\<rparr>"
  have "length (image_bytes deleted_nodes) = 88"
    by (simp add: length_image deleted_nodes_def padded_def del: node_bytes.simps)
  then have "holds (store_bytes (\<lambda>_. 0xFF) (pi_offset demo_part) (image_bytes deleted_nodes)) demo_part deleted_nodes"
    by (intro holds_stored) (simp_all add: deleted_nodes_def demo_part_def)
  then have h: "holds (memory ?s) demo_part deleted_nodes" by (simp add: demo_part_def)
  have "\<exists>i s'. jffs2_1pass_find_inode dnp1110 (scanned (pi_offset demo_part) deleted_nodes) [0x6b] 1 ?s = Inr (i, s') \<and> i \<noteq> 0
      \<and> memory s' = memory ?s"
    by (rule deleted_file_still_found [OF _ h,
          where d = "\<lparr>de_pino = 1, de_version = 1, de_ino = 2, de_mctime = 0, de_type = 8, de_name = [0x6b]\<rparr>"
            and e = "\<lparr>de_pino = 1, de_version = 2, de_ino = 0, de_mctime = 0, de_type = 8, de_name = [0x6b]\<rparr>"])
       (simp_all add: deleted_nodes_def roomy_def dnp1110_def)
  then show ?thesis by (auto simp: demo_part_def)
qed

section \<open>A node of no length\<close>

lemma unknown_node_keeps:
  assumes "roomy cfg"
  shows "keeps (printf cfg (lit ''Unknown node type: %x len %d offset 0x%lx\<newline>'') [AInt a, AInt b, AInt c] s) s ()"
    "keeps (printf cfg (lit ''OOPS Cleanmarker has bad size %d != %d\<newline>'') [AInt a, AInt b] s) s ()"
proof -
  have "room (lit ''Unknown node type: %x len %d offset 0x%lx\<newline>'') [AInt a, AInt b, AInt c] 120"
    "room (lit ''OOPS Cleanmarker has bad size %d != %d\<newline>'') [AInt a, AInt b] 120"
    unfolding lit_def list.map
    by (rule room_Nil | rule room_ints, simp, simp, simp, simp | rule room_char, simp add: ch_eq, simp)+
  then show "keeps (printf cfg (lit ''Unknown node type: %x len %d offset 0x%lx\<newline>'') [AInt a, AInt b, AInt c] s) s ()"
    "keeps (printf cfg (lit ''OOPS Cleanmarker has bad size %d != %d\<newline>'') [AInt a, AInt b] s) s ()"
    using assms by (auto intro!: keeps_prints prints_room simp: roomy_def)
qed

lemma scan_node_goes_on:
  assumes "roomy cfg" "\<forall>k. chunk_ok je k"
  shows "\<exists>st'. keeps (scan_node cfg je a st s) s (True, st') \<and> sc_offset st' = sc_offset st"
proof -
  let ?u = "unknown_at (memory s) a" and ?m = "memory s"
  have dot: "keeps (printf cfg (8 # 8 # lit ''.  '') [] s) s ()"
    using keeps_plain [OF assms(1), of "8 # 8 # lit ''.  ''" "[]" s] by (simp add: lit_def)
  consider (i) "un_nodetype ?u = JFFS2_NODETYPE_INODE \<and> inode_crc ?m a"
    | (d) "\<not> (un_nodetype ?u = JFFS2_NODETYPE_INODE \<and> inode_crc ?m a)"
      "un_nodetype ?u = JFFS2_NODETYPE_DIRENT \<and> dirent_crc ?m a \<and> dirent_name_crc ?m a"
    | (n) "\<not> (un_nodetype ?u = JFFS2_NODETYPE_INODE \<and> inode_crc ?m a)"
      "\<not> (un_nodetype ?u = JFFS2_NODETYPE_DIRENT \<and> dirent_crc ?m a \<and> dirent_name_crc ?m a)" by blast
  then show ?thesis
  proof cases
    case i
    let ?st = "st\<lparr>sc_lists := (sc_lists st)\<lparr>fragList := fragList (sc_lists st) @ [a],
      fragListCount := fragListCount (sc_lists st) + 1\<rparr>\<rparr>"
    show ?thesis using i assms(2) by (intro exI [of _ ?st]) (simp add: scan_node_def Let_def add_node_def)
  next
    case d
    let ?st = "st\<lparr>sc_lists := (sc_lists st)\<lparr>dirList := dirList (sc_lists st) @ [a],
      dirListCount := dirListCount (sc_lists st) + 1\<rparr>, sc_counterN := sc_counterN st + 1\<rparr>"
    have "keeps (scan_node cfg je a st s) s (True, ?st)"
      using d assms(2) dot by (simp add: scan_node_def Let_def add_node_def) (auto intro: keeps_bind)
    then show ?thesis by (intro exI [of _ ?st]) simp
  next
    case n
    have "keeps (scan_node cfg je a st s) s (True, st)"
      unfolding scan_node_def Let_def if_not_P [OF n(1)] if_not_P [OF n(2)]
      using unknown_node_keeps [OF assms(1)] by (auto intro: keeps_bind)
    then show ?thesis by (intro exI [of _ st]) simp
  qed
qed

lemma small_rounds_to_0: "(x :: u32) < 4 \<Longrightarrow> x AND NOT 3 = 0"
proof -
  assume "x < 4"
  then have "unat x = 0 \<or> unat x = 1 \<or> unat x = 2 \<or> unat x = 3" by (auto simp: word_less_nat_alt)
  then have "x = 0 \<or> x = 1 \<or> x = 2 \<or> x = 3" by (simp add: word_unat_eq_iff)
  then show ?thesis by auto
qed

lemma scan_stuck:
  assumes "roomy cfg" "\<forall>k. chunk_ok je k" "sc_offset st < pi_size part - 68" "a = pi_offset part + sc_offset st"
    and "un_magic (unknown_at (memory s) a) = JFFS2_MAGIC_BITMASK" "hdr_crc (memory s) a"
    and "un_totlen (unknown_at (memory s) a) + 3 < 4"
  shows "loop (scan_step cfg je part) (st, s) = Inl Hang"
proof (rule loop_hangs [where P = "\<lambda>(st', s' :: sys). sc_offset st' = sc_offset st \<and> memory s' = memory s"])
  fix x :: "scan_state \<times> sys"
  assume "case x of (st', s') \<Rightarrow> sc_offset st' = sc_offset st \<and> memory s' = memory s"
  then obtain st1 s1 where x: "x = (st1, s1)" "sc_offset st1 = sc_offset st" "memory s1 = memory s" by (cases x) auto
  let ?st = "st1\<lparr>sc_counter := sc_counter st1 + 1\<rparr>"
  obtain s2 where 2: "(if sc_counter ?st mod 10000 = 0
      then printf cfg ([8, 8] @ lit ''%c '') [AInt (ucast (spinner ! unat (sc_counter ?st div 10000 mod 4)))] s1 else Inr ((), s1))
      = Inr ((), s2)" "memory s2 = memory s"
    using spins [OF assms(1), of "sc_counter ?st" s1] x(3) by auto
  obtain st3 s3 where 3: "scan_node cfg je a ?st s2 = Inr ((True, st3), s3)" "memory s3 = memory s" "sc_offset st3 = sc_offset st"
    using scan_node_goes_on [OF assms(1,2), of a ?st s2] 2(2) x(2) by (auto simp: keeps_def)
  then have "scan_step cfg je part x = Inr (Inl (st3, s3))"
    using 2 assms(3,5,6) small_rounds_to_0 [OF assms(7)] x by (simp add: scan_step_def Let_def assms(4) [symmetric])
  then show "\<exists>x'. scan_step cfg je part x = Inr (Inl x') \<and> (case x' of (st', s') \<Rightarrow> sc_offset st' = sc_offset st \<and> memory s' = memory s)"
    using 3 by simp
qed simp

text \<open>
  C38: a node whose length rounds to no length at all - 0, or one so large that adding 3 wraps around - holds the scan
  for ever: its header is sound, and the scan goes on from where it is.
\<close>

theorem scan_hangs_on_empty_node:
  assumes "roomy cfg" "\<forall>k. chunk_ok je k" "\<forall>n\<in>set ns. valid_node n"
    and "bytes_at (memory s) (pi_offset part) (length (image_bytes ns)) = image_bytes ns" "0 < unat (pi_offset part)"
    and "unat (pi_offset part) + unat (pi_size part) \<le> 2 ^ 32" "length (image_bytes ns) + 68 < unat (pi_size part)"
    and "a = pi_offset part + of_nat (length (image_bytes ns))"
    and "un_magic (unknown_at (memory s) a) = JFFS2_MAGIC_BITMASK" "hdr_crc (memory s) a"
    and "un_totlen (unknown_at (memory s) a) + 3 < 4"
  shows "jffs2_1pass_build_lists cfg je part pL s = Inl Hang"
proof -
  let ?k = "length (image_bytes ns)"
  let ?st = "\<lparr>sc_offset = 0, sc_counter = 0, sc_counterN = 0, sc_lists = jffs_init_1pass_list pL\<lparr>partOffset := pi_offset part\<rparr>\<rparr>"
  have "keeps (printf cfg (lit ''Scanning JFFS2 FS:   '') [] s) s ()"
    by (rule keeps_plain [OF assms(1)]) (simp_all add: lit_def ch_eq)
  then obtain s1 where 1: "printf cfg (lit ''Scanning JFFS2 FS:   '') [] s = Inr ((), s1)" "memory s1 = memory s"
    by (auto simp: keeps_def)
  obtain st2 s2 where 2: "loop (scan_step cfg je part) (?st, s1) = loop (scan_step cfg je part) (st2, s2)" "memory s2 = memory s1"
    "unat (sc_offset st2) = ?k"
    using scan_nodes [OF assms(1-3), of s1 part ?st] assms(4-7) 1(2) by auto
  have "sc_offset st2 = of_nat ?k" unfolding 2(3) [symmetric] by simp
  moreover have "sc_offset st2 < pi_size part - 68"
    using 2(3) assms(7) by (simp add: word_less_nat_alt unat_sub word_le_nat_alt)
  ultimately have "loop (scan_step cfg je part) (st2, s2) = Inl Hang"
    using scan_stuck [OF assms(1,2), of st2 part a s2] assms(8-11) 1(2) 2(2) by simp
  then show ?thesis using 1 2 by (simp add: jffs2_1pass_build_lists_def Let_def)
qed

text \<open>The header of a node of an unknown type and of length 0, on erased flash.\<close>

definition empty_node :: "byte list" where
  "empty_node = node_header 0xe0ff 0"

theorem scan_hangs_on_empty_node_witness:
  "jffs2_1pass_build_lists dnp1110 demo_env demo_part no_lists
     ((reset_sys 0)\<lparr>memory := store_bytes (\<lambda>_. 0xFF) 0x10000 empty_node\<rparr>) = Inl Hang"
proof -
  let ?m = "store_bytes (\<lambda>_. 0xFF) 0x10000 empty_node"
  have "bytes_at ?m 0x10000 12 = node_header 0xe0ff 0"
    using bytes_at_store_bytes [of empty_node "\<lambda>_. 0xFF" "0x10000"] by (simp add: empty_node_def)
  then have u: "un_magic (unknown_at ?m 0x10000) = JFFS2_MAGIC_BITMASK" "un_totlen (unknown_at ?m 0x10000) = 0" "hdr_crc ?m 0x10000"
    using header_read [of "0x10000" ?m "0xe0ff" 0] by (simp_all, metis unknown_node.select_convs(1), metis unknown_node.select_convs(3))
  show ?thesis
    by (rule scan_hangs_on_empty_node [where ns = "[]" and a = "0x10000"])
       (use u in \<open>simp_all add: roomy_def dnp1110_def demo_env_def demo_part_def image_bytes_def\<close>)
qed

end
